(* ===== verification/Py_Base.thy ===== *)
theory Py_Base
  imports Main
begin

text \<open>
  The Python the modelled code is written in, as far as the code uses it: strings as lists
  of code points, the \<open>str\<close> methods, \<open>int()\<close>, insertion-ordered dictionaries, slices, and
  exceptions as the left values of a sum.

  Every ASCII case is computed. What Python reads from its Unicode character database for
  other code points (white space, digits, case mappings, normal forms) is data and not
  code, so it is a parameter of the model: a record \<open>unidb\<close> that the operations consult
  for non-ASCII text only. Theorems hold for every such table unless they say otherwise.
\<close>

section \<open>Results: a value or a raised exception\<close>

named_theorems ok_simps "when a computation returns a value, and what it returns"

definition rbind :: "'e + 'a \<Rightarrow> ('a \<Rightarrow> 'e + 'b) \<Rightarrow> 'e + 'b" where
  "rbind m f = (case m of Inl e \<Rightarrow> Inl e | Inr x \<Rightarrow> f x)"

text \<open>\<open>check b e\<close> is the guard \<open>if not b: raise e\<close>.\<close>

definition check :: "bool \<Rightarrow> 'e \<Rightarrow> 'e + unit" where
  "check b e = (if b then Inr () else Inl e)"

lemma rbind_simps [simp]: "rbind (Inl e) f = Inl e" "rbind (Inr x) f = f x"
  by (simp_all add: rbind_def)

lemma rbind_Inr_iff [ok_simps]: "rbind m f = Inr y \<longleftrightarrow> (\<exists>x. m = Inr x \<and> f x = Inr y)"
  by (cases m) auto

lemma rbind_Inl_iff:
  "rbind m f = Inl e \<longleftrightarrow> m = Inl e \<or> (\<exists>x. m = Inr x \<and> f x = Inl e)"
  by (cases m) auto

lemma rbind_cong [fundef_cong]:
  "m = m' \<Longrightarrow> (\<And>x. m' = Inr x \<Longrightarrow> f x = g x) \<Longrightarrow> rbind m f = rbind m' g"
  by (cases m') auto

lemma check_simps [simp]: "check True e = Inr ()" "check False e = Inl e"
  by (simp_all add: check_def)

lemma check_Inr_iff [ok_simps]: "check b e = Inr u \<longleftrightarrow> b"
  by (simp add: check_def)

lemma check_Inl_iff: "check b e = Inl e' \<longleftrightarrow> \<not> b \<and> e' = e"
  by (auto simp: check_def)

text \<open>A computation for each element, in order, stopping at the first exception.\<close>

fun rmap :: "('a \<Rightarrow> 'e + 'b) \<Rightarrow> 'a list \<Rightarrow> 'e + 'b list" where
  "rmap f [] = Inr []"
| "rmap f (x # xs) = rbind (f x) (\<lambda>y. rbind (rmap f xs) (\<lambda>ys. Inr (y # ys)))"

lemma rmap_Inr_length: "rmap f xs = Inr ys \<Longrightarrow> length ys = length xs"
  by (induction xs arbitrary: ys) (auto simp: ok_simps)

lemma rmap_Inr_set:
  "rmap f xs = Inr ys \<Longrightarrow> y \<in> set ys \<Longrightarrow> \<exists>x \<in> set xs. f x = Inr y"
  by (induction xs arbitrary: ys) (auto simp: ok_simps)

section \<open>Characters\<close>

type_synonym cp = nat
type_synonym pystr = "cp list"

text \<open>A source literal as a Python string.\<close>

fun lit :: "string \<Rightarrow> pystr" where
  "lit [] = []"
| "lit (c # cs) = of_char c # lit cs"

declare lit.simps [simp del]

abbreviation c_newline :: cp where "c_newline \<equiv> 10"
abbreviation c_return :: cp where "c_return \<equiv> 13"
abbreviation c_space :: cp where "c_space \<equiv> 32"
abbreviation c_dquote :: cp where "c_dquote \<equiv> 34"
abbreviation c_squote :: cp where "c_squote \<equiv> 39"
abbreviation c_lparen :: cp where "c_lparen \<equiv> 40"
abbreviation c_rparen :: cp where "c_rparen \<equiv> 41"
abbreviation c_comma :: cp where "c_comma \<equiv> 44"
abbreviation c_dot :: cp where "c_dot \<equiv> 46"
abbreviation c_slash :: cp where "c_slash \<equiv> 47"
abbreviation c_colon :: cp where "c_colon \<equiv> 58"
abbreviation c_equals :: cp where "c_equals \<equiv> 61"
abbreviation c_lbracket :: cp where "c_lbracket \<equiv> 91"
abbreviation c_backslash :: cp where "c_backslash \<equiv> 92"
abbreviation c_rbracket :: cp where "c_rbracket \<equiv> 93"
abbreviation c_underscore :: cp where "c_underscore \<equiv> 95"
abbreviation c_lbrace :: cp where "c_lbrace \<equiv> 123"
abbreviation c_rbrace :: cp where "c_rbrace \<equiv> 125"

definition is_upper_ascii :: "cp \<Rightarrow> bool" where
  "is_upper_ascii c \<longleftrightarrow> 65 \<le> c \<and> c \<le> 90"

definition is_lower_ascii :: "cp \<Rightarrow> bool" where
  "is_lower_ascii c \<longleftrightarrow> 97 \<le> c \<and> c \<le> 122"

definition is_alpha_ascii :: "cp \<Rightarrow> bool" where
  "is_alpha_ascii c \<longleftrightarrow> is_upper_ascii c \<or> is_lower_ascii c"

definition is_digit_ascii :: "cp \<Rightarrow> bool" where
  "is_digit_ascii c \<longleftrightarrow> 48 \<le> c \<and> c \<le> 57"

definition lower_ascii :: "cp \<Rightarrow> cp" where
  "lower_ascii c = (if is_upper_ascii c then c + 32 else c)"

definition upper_ascii :: "cp \<Rightarrow> cp" where
  "upper_ascii c = (if is_lower_ascii c then c - 32 else c)"

definition is_surrogate :: "cp \<Rightarrow> bool" where
  "is_surrogate c \<longleftrightarrow> 55296 \<le> c \<and> c \<le> 57343"

definition is_ascii :: "pystr \<Rightarrow> bool" where
  "is_ascii s \<longleftrightarrow> list_all (\<lambda>c. c < 128) s"

lemmas char_defs =
  is_upper_ascii_def is_lower_ascii_def is_alpha_ascii_def is_digit_ascii_def
  lower_ascii_def upper_ascii_def is_surrogate_def is_ascii_def

text \<open>The Unicode character database, for code points from 128 on.\<close>

record unidb =
  u_space :: "cp \<Rightarrow> bool"
  u_digit :: "cp \<Rightarrow> bool"
  u_decimal :: "cp \<Rightarrow> nat option"
  u_fold :: "cp \<Rightarrow> pystr"
  u_lower :: "pystr \<Rightarrow> pystr"
  u_upper :: "pystr \<Rightarrow> pystr"
  u_title :: "pystr \<Rightarrow> pystr"
  u_nfc :: "pystr \<Rightarrow> pystr"
  u_nfkc :: "pystr \<Rightarrow> pystr"
  u_nfkd :: "pystr \<Rightarrow> pystr"
  u_alpha :: "cp \<Rightarrow> bool"
  u_alnum :: "cp \<Rightarrow> bool"
  u_combining :: "cp \<Rightarrow> bool"

text \<open>A table for text that has no character beyond ASCII, used by the witnesses.\<close>

definition ascii_db :: unidb where
  "ascii_db = \<lparr>u_space = (\<lambda>_. False), u_digit = (\<lambda>_. False), u_decimal = (\<lambda>_. None),
     u_fold = (\<lambda>c. [c]), u_lower = (\<lambda>s. s), u_upper = (\<lambda>s. s), u_title = (\<lambda>s. s),
     u_nfc = (\<lambda>s. s), u_nfkc = (\<lambda>s. s), u_nfkd = (\<lambda>s. s),
     u_alpha = (\<lambda>_. False), u_alnum = (\<lambda>_. False), u_combining = (\<lambda>_. False)\<rparr>"

definition py_isspace :: "unidb \<Rightarrow> cp \<Rightarrow> bool" where
  "py_isspace u c =
     (if c < 128 then (9 \<le> c \<and> c \<le> 13) \<or> (28 \<le> c \<and> c \<le> 32) else u_space u c)"

definition py_isdigit :: "unidb \<Rightarrow> cp \<Rightarrow> bool" where
  "py_isdigit u c = (if c < 128 then is_digit_ascii c else u_digit u c)"

definition py_decimal :: "unidb \<Rightarrow> cp \<Rightarrow> nat option" where
  "py_decimal u c =
     (if c < 128 then (if is_digit_ascii c then Some (c - 48) else None) else u_decimal u c)"

section \<open>String methods\<close>

definition py_casefold :: "unidb \<Rightarrow> pystr \<Rightarrow> pystr" where
  "py_casefold u s = concat (map (\<lambda>c. if c < 128 then [lower_ascii c] else u_fold u c) s)"

definition py_lower :: "unidb \<Rightarrow> pystr \<Rightarrow> pystr" where
  "py_lower u s = (if is_ascii s then map lower_ascii s else u_lower u s)"

definition py_upper :: "unidb \<Rightarrow> pystr \<Rightarrow> pystr" where
  "py_upper u s = (if is_ascii s then map upper_ascii s else u_upper u s)"

text \<open>\<open>str.title()\<close>: a letter is upper case after a non-letter and lower case after a letter.\<close>

fun title_ascii :: "bool \<Rightarrow> pystr \<Rightarrow> pystr" where
  "title_ascii prev [] = []"
| "title_ascii prev (c # cs) =
     (if prev then lower_ascii c else upper_ascii c) # title_ascii (is_alpha_ascii c) cs"

definition py_title :: "unidb \<Rightarrow> pystr \<Rightarrow> pystr" where
  "py_title u s = (if is_ascii s then title_ascii False s else u_title u s)"

text \<open>\<open>unicodedata.normalize\<close>: every normal form leaves ASCII text as it is.\<close>

definition py_nfc :: "unidb \<Rightarrow> pystr \<Rightarrow> pystr" where
  "py_nfc u s = (if is_ascii s then s else u_nfc u s)"

definition py_nfkc :: "unidb \<Rightarrow> pystr \<Rightarrow> pystr" where
  "py_nfkc u s = (if is_ascii s then s else u_nfkc u s)"

definition py_nfkd :: "unidb \<Rightarrow> pystr \<Rightarrow> pystr" where
  "py_nfkd u s = (if is_ascii s then s else u_nfkd u s)"

definition lstrip_by :: "(cp \<Rightarrow> bool) \<Rightarrow> pystr \<Rightarrow> pystr" where
  "lstrip_by p s = dropWhile p s"

definition rstrip_by :: "(cp \<Rightarrow> bool) \<Rightarrow> pystr \<Rightarrow> pystr" where
  "rstrip_by p s = rev (dropWhile p (rev s))"

definition strip_by :: "(cp \<Rightarrow> bool) \<Rightarrow> pystr \<Rightarrow> pystr" where
  "strip_by p s = rstrip_by p (lstrip_by p s)"

abbreviation py_lstrip :: "unidb \<Rightarrow> pystr \<Rightarrow> pystr" where
  "py_lstrip u \<equiv> lstrip_by (py_isspace u)"

abbreviation py_strip :: "unidb \<Rightarrow> pystr \<Rightarrow> pystr" where
  "py_strip u \<equiv> strip_by (py_isspace u)"

definition py_startswith :: "pystr \<Rightarrow> pystr \<Rightarrow> bool" where
  "py_startswith s p \<longleftrightarrow> take (length p) s = p"

definition py_endswith :: "pystr \<Rightarrow> pystr \<Rightarrow> bool" where
  "py_endswith s p \<longleftrightarrow> py_startswith (rev s) (rev p)"

text \<open>\<open>s.find(p)\<close> as an option: the first index where \<open>p\<close> starts.\<close>

fun py_find :: "pystr \<Rightarrow> pystr \<Rightarrow> nat option" where
  "py_find p [] = (if p = [] then Some 0 else None)"
| "py_find p (c # s) =
     (if py_startswith (c # s) p then Some 0 else map_option Suc (py_find p s))"

definition py_in :: "pystr \<Rightarrow> pystr \<Rightarrow> bool" where
  "py_in p s \<longleftrightarrow> py_find p s \<noteq> None"

text \<open>\<open>s.split(c)\<close> on one character.\<close>

fun split_on :: "cp \<Rightarrow> pystr \<Rightarrow> pystr list" where
  "split_on d [] = [[]]"
| "split_on d (c # s) =
     (if c = d then [] # split_on d s
      else (case split_on d s of [] \<Rightarrow> [[c]] | p # ps \<Rightarrow> (c # p) # ps))"

text \<open>\<open>s.split(c, 1)\<close> and \<open>s.partition(c)\<close>: what is before and after the first \<open>c\<close>.\<close>

fun split_first :: "cp \<Rightarrow> pystr \<Rightarrow> (pystr \<times> pystr) option" where
  "split_first d [] = None"
| "split_first d (c # s) =
     (if c = d then Some ([], s) else map_option (\<lambda>(a, b). (c # a, b)) (split_first d s))"

fun py_join :: "pystr \<Rightarrow> pystr list \<Rightarrow> pystr" where
  "py_join sep [] = []"
| "py_join sep [x] = x"
| "py_join sep (x # y # ys) = x @ sep @ py_join sep (y # ys)"

text \<open>
  \<open>s.replace(old, new)\<close>: left to right, matches do not overlap; an empty \<open>old\<close> matches
  before every character and at the end.
\<close>

function replace_from :: "pystr \<Rightarrow> pystr \<Rightarrow> pystr \<Rightarrow> pystr" where
  "replace_from old new [] = []"
| "replace_from old new (c # s) =
     (if old \<noteq> [] \<and> py_startswith (c # s) old
      then new @ replace_from old new (drop (length old) (c # s))
      else c # replace_from old new s)"
  by pat_completeness auto
termination
  by (relation "measure (\<lambda>(old, new, s). length s)") (auto simp: neq_Nil_conv)

definition py_replace :: "pystr \<Rightarrow> pystr \<Rightarrow> pystr \<Rightarrow> pystr" where
  "py_replace s old new =
     (if old = [] then new @ concat (map (\<lambda>c. c # new) s) else replace_from old new s)"

text \<open>\<open>s.rjust(width, fill)\<close>.\<close>

definition py_rjust :: "int \<Rightarrow> cp \<Rightarrow> pystr \<Rightarrow> pystr" where
  "py_rjust width fill s = replicate (nat (width - int (length s))) fill @ s"

text \<open>\<open>xs[start:end]\<close>, with \<open>None\<close> for an absent end.\<close>

definition clamp_index :: "nat \<Rightarrow> int \<Rightarrow> nat" where
  "clamp_index n i = (if i < 0 then nat (max 0 (int n + i)) else nat (min i (int n)))"

definition py_slice :: "int \<Rightarrow> int option \<Rightarrow> 'a list \<Rightarrow> 'a list" where
  "py_slice start stop xs =
     (let a = clamp_index (length xs) start;
          b = (case stop of None \<Rightarrow> length xs | Some e \<Rightarrow> clamp_index (length xs) e)
      in take (b - a) (drop a xs))"

text \<open>\<open>str.splitlines()\<close>.\<close>

definition is_line_break :: "cp \<Rightarrow> bool" where
  "is_line_break c \<longleftrightarrow>
     (10 \<le> c \<and> c \<le> 13) \<or> (28 \<le> c \<and> c \<le> 30) \<or> c = 133 \<or> c = 8232 \<or> c = 8233"

definition skip_newline :: "pystr \<Rightarrow> pystr" where
  "skip_newline s = (case s of [] \<Rightarrow> [] | d # s' \<Rightarrow> if d = c_newline then s' else s)"

lemma skip_newline_length [termination_simp]: "length (skip_newline s) < Suc (length s)"
  by (cases s) (auto simp: skip_newline_def)

text \<open>\<open>opened\<close>: a line has been started; text that ends in a break has no empty last line.\<close>

fun splitlines_from :: "bool \<Rightarrow> pystr \<Rightarrow> pystr \<Rightarrow> pystr list" where
  "splitlines_from opened acc [] = (if opened then [rev acc] else [])"
| "splitlines_from opened acc (c # s) =
     (if c = c_return then rev acc # splitlines_from False [] (skip_newline s)
      else if is_line_break c then rev acc # splitlines_from False [] s
      else splitlines_from True (c # acc) s)"

definition py_splitlines :: "pystr \<Rightarrow> pystr list" where
  "py_splitlines s = splitlines_from False [] s"

section \<open>Integers and their text\<close>

text \<open>
  \<open>int(s)\<close>: surrounding white space (the C locale's for ASCII), a sign, then digits with
  single underscores between them. Python refuses more than 4300 digits. \<open>None\<close> is the
  \<open>ValueError\<close>.
\<close>

definition int_space :: "unidb \<Rightarrow> cp \<Rightarrow> bool" where
  "int_space u c = (if c < 128 then (9 \<le> c \<and> c \<le> 13) \<or> c = 32 else u_space u c)"

definition max_int_digits :: nat where
  "max_int_digits = 4300"

fun int_digits :: "unidb \<Rightarrow> bool \<Rightarrow> nat \<Rightarrow> nat \<Rightarrow> pystr \<Rightarrow> (nat \<times> nat) option" where
  "int_digits u after_digit n k [] = (if after_digit then Some (n, k) else None)"
| "int_digits u after_digit n k (c # s) =
     (if c = c_underscore then (if after_digit then int_digits u False n k s else None)
      else case py_decimal u c of
             None \<Rightarrow> None
           | Some d \<Rightarrow> int_digits u True (10 * n + d) (Suc k) s)"

definition int_body :: "unidb \<Rightarrow> pystr \<Rightarrow> int option" where
  "int_body u s =
     (case int_digits u False 0 0 s of
        None \<Rightarrow> None
      | Some (n, k) \<Rightarrow> if max_int_digits < k then None else Some (int n))"

definition py_int :: "unidb \<Rightarrow> pystr \<Rightarrow> int option" where
  "py_int u s =
     (case strip_by (int_space u) s of
        [] \<Rightarrow> None
      | c # r \<Rightarrow>
          if c = 45 then map_option uminus (int_body u r)
          else if c = 43 then int_body u r
          else int_body u (c # r))"

text \<open>\<open>str(n)\<close>.\<close>

fun nat_text :: "nat \<Rightarrow> pystr" where
  "nat_text n = (if n < 10 then [48 + n] else nat_text (n div 10) @ [48 + n mod 10])"

declare nat_text.simps [simp del]

definition py_str_int :: "int \<Rightarrow> pystr" where
  "py_str_int i = (if i < 0 then 45 # nat_text (nat (- i)) else nat_text (nat i))"

section \<open>Insertion-ordered dictionaries\<close>

type_synonym ('k, 'v) odict = "('k \<times> 'v) list"

definition dict_get :: "('k, 'v) odict \<Rightarrow> 'k \<Rightarrow> 'v option" where
  "dict_get d k = map_of d k"

text \<open>\<open>d[k] = v\<close>: an existing key keeps its place, a new key goes to the end.\<close>

fun dict_set :: "('k, 'v) odict \<Rightarrow> 'k \<Rightarrow> 'v \<Rightarrow> ('k, 'v) odict" where
  "dict_set [] k v = [(k, v)]"
| "dict_set ((k', v') # d) k v =
     (if k' = k then (k, v) # d else (k', v') # dict_set d k v)"

text \<open>\<open>d.pop(k, None)\<close>, without its result.\<close>

definition dict_pop :: "('k, 'v) odict \<Rightarrow> 'k \<Rightarrow> ('k, 'v) odict" where
  "dict_pop d k = filter (\<lambda>e. fst e \<noteq> k) d"

definition dict_keys :: "('k, 'v) odict \<Rightarrow> 'k list" where
  "dict_keys d = map fst d"

definition dict_wf :: "('k, 'v) odict \<Rightarrow> bool" where
  "dict_wf d \<longleftrightarrow> distinct (map fst d)"

text \<open>\<open>d.update(...)\<close> with pairs in order.\<close>

fun dict_update :: "('k, 'v) odict \<Rightarrow> ('k \<times> 'v) list \<Rightarrow> ('k, 'v) odict" where
  "dict_update d [] = d"
| "dict_update d ((k, v) # kvs) = dict_update (dict_set d k v) kvs"

text \<open>\<open>tuple(dict.fromkeys(xs))\<close>: the first occurrence of each value, in order.\<close>

fun dedup_from :: "'a list \<Rightarrow> 'a list \<Rightarrow> 'a list" where
  "dedup_from seen [] = []"
| "dedup_from seen (x # xs) =
     (if List.member seen x then dedup_from seen xs else x # dedup_from (x # seen) xs)"

definition py_dedup :: "'a list \<Rightarrow> 'a list" where
  "py_dedup xs = dedup_from [] xs"

section \<open>Lemmas shared by the components\<close>

lemma is_ascii_simps [simp]:
  "is_ascii []" "is_ascii (c # s) \<longleftrightarrow> c < 128 \<and> is_ascii s"
  "is_ascii (s @ t) \<longleftrightarrow> is_ascii s \<and> is_ascii t"
  by (auto simp: is_ascii_def)

lemma of_char_lt [simp]: "(of_char c :: nat) < 256"
  by (metis of_char_mod_256 mod_less_divisor zero_less_numeral)

lemma length_lit [simp]: "length (lit s) = length s"
  by (induction s) (auto simp: lit.simps)

lemma lit_eq_iff [simp]: "lit s = lit t \<longleftrightarrow> s = t"
proof (induction s arbitrary: t)
  case Nil
  then show ?case by (cases t) (auto simp: lit.simps)
next
  case (Cons c s)
  then show ?case by (cases t) (auto simp: lit.simps)
qed

lemma lit_Nil_iff [simp]: "lit s = [] \<longleftrightarrow> s = []" "[] = lit s \<longleftrightarrow> s = []"
  by (cases s; simp add: lit.simps)+

text \<open>Text without characters beyond ASCII is case-folded and lowered alike.\<close>

lemma casefold_ascii: "is_ascii s \<Longrightarrow> py_casefold u s = map lower_ascii s"
  by (induction s) (auto simp: py_casefold_def)

lemma lower_ascii_idem [simp]: "lower_ascii (lower_ascii c) = lower_ascii c"
  by (auto simp: char_defs)

lemma lower_ascii_lt [simp]: "lower_ascii c < 128 \<longleftrightarrow> c < 128"
  by (auto simp: char_defs)

lemma casefold_append: "py_casefold u (s @ t) = py_casefold u s @ py_casefold u t"
  by (simp add: py_casefold_def)

lemma startswith_append [simp]: "py_startswith (p @ s) p"
  by (simp add: py_startswith_def)

lemma startswith_iff: "py_startswith s p \<longleftrightarrow> (\<exists>r. s = p @ r)"
  by (auto simp: py_startswith_def) (metis append_take_drop_id)

lemma set_lstrip_by: "set (lstrip_by p s) \<subseteq> set s"
  by (auto simp: lstrip_by_def dest: set_dropWhileD)

lemma set_rstrip_by: "set (rstrip_by p s) \<subseteq> set s"
  by (auto simp: rstrip_by_def dest: set_dropWhileD)

lemma set_strip_by: "set (strip_by p s) \<subseteq> set s"
  unfolding strip_by_def using set_rstrip_by set_lstrip_by by (meson subset_trans)

lemma length_lstrip_by: "length (lstrip_by p s) \<le> length s"
  by (simp add: lstrip_by_def length_dropWhile_le)

lemma length_rstrip_by: "length (rstrip_by p s) \<le> length s"
  unfolding rstrip_by_def by (metis length_dropWhile_le length_rev)

lemma length_strip_by: "length (strip_by p s) \<le> length s"
  unfolding strip_by_def using length_rstrip_by length_lstrip_by by (meson le_trans)

text \<open>Stripped text neither starts nor ends with a stripped character.\<close>

lemma rstrip_by_last: "rstrip_by p s \<noteq> [] \<Longrightarrow> \<not> p (last (rstrip_by p s))"
  by (simp add: rstrip_by_def last_rev hd_dropWhile)

lemma rstrip_by_prefix: "\<exists>r. s = rstrip_by p s @ r"
proof -
  have "rev s = takeWhile p (rev s) @ dropWhile p (rev s)" by simp
  then have "s = rev (dropWhile p (rev s)) @ rev (takeWhile p (rev s))"
    by (metis rev_append rev_rev_ident)
  then show ?thesis by (auto simp: rstrip_by_def)
qed

lemma strip_by_hd: "strip_by p s \<noteq> [] \<Longrightarrow> \<not> p (hd (strip_by p s))"
proof -
  assume ne: "strip_by p s \<noteq> []"
  obtain r where r: "lstrip_by p s = strip_by p s @ r"
    unfolding strip_by_def using rstrip_by_prefix by blast
  with ne have "lstrip_by p s \<noteq> []" and "hd (lstrip_by p s) = hd (strip_by p s)" by auto
  then show ?thesis by (metis lstrip_by_def hd_dropWhile)
qed

lemma strip_by_last: "strip_by p s \<noteq> [] \<Longrightarrow> \<not> p (last (strip_by p s))"
  unfolding strip_by_def by (rule rstrip_by_last)

lemma strip_by_id: "(s \<noteq> [] \<Longrightarrow> \<not> p (hd s) \<and> \<not> p (last s)) \<Longrightarrow> strip_by p s = s"
proof (cases s rule: rev_cases)
  case Nil
  then show ?thesis by (simp add: strip_by_def lstrip_by_def rstrip_by_def)
next
  case (snoc t c)
  assume "s \<noteq> [] \<Longrightarrow> \<not> p (hd s) \<and> \<not> p (last s)"
  with snoc have "\<not> p (hd s)" "\<not> p c" by auto
  then have "lstrip_by p s = s" by (cases s) (auto simp: lstrip_by_def)
  with snoc \<open>\<not> p c\<close> show ?thesis by (simp add: strip_by_def rstrip_by_def)
qed

lemma split_on_ne [simp]: "split_on d s \<noteq> []"
  by (induction s) (auto split: list.splits)

lemma join_split_on: "py_join [d] (split_on d s) = s"
proof (induction s)
  case Nil
  then show ?case by simp
next
  case (Cons c s)
  show ?case
  proof (cases "split_on d s")
    case Nil
    then show ?thesis by simp
  next
    case (Cons p ps)
    with Cons.IH show ?thesis by (cases ps) auto
  qed
qed

lemma split_on_parts: "p \<in> set (split_on d s) \<Longrightarrow> d \<notin> set p"
  by (induction s arbitrary: p) (auto split: if_splits list.splits)

lemma split_first_Some:
  "split_first d s = Some (a, b) \<Longrightarrow> s = a @ d # b \<and> d \<notin> set a"
  by (induction s arbitrary: a) (auto split: if_splits)

lemma split_first_None: "split_first d s = None \<longleftrightarrow> d \<notin> set s"
  by (induction s) auto

lemma set_py_join: "set (py_join sep xs) \<subseteq> set sep \<union> (\<Union>x \<in> set xs. set x)"
  by (induction sep xs rule: py_join.induct) auto

text \<open>Dictionaries: the laws a lookup satisfies after an update.\<close>

lemma dict_get_set: "dict_get (dict_set d k v) k' = (if k' = k then Some v else dict_get d k')"
  by (induction d k v rule: dict_set.induct) (auto simp: dict_get_def)

lemma dict_get_pop: "dict_get (dict_pop d k) k' = (if k' = k then None else dict_get d k')"
  by (induction d) (auto simp: dict_get_def dict_pop_def)

lemma dict_keys_set:
  "map fst (dict_set d k v) = (if k \<in> fst ` set d then map fst d else map fst d @ [k])"
  by (induction d k v rule: dict_set.induct) auto

lemma set_dict_set: "set (dict_set d k v) \<subseteq> insert (k, v) (set d)"
  by (induction d k v rule: dict_set.induct) auto

lemma dict_wf_set [intro, simp]: "dict_wf d \<Longrightarrow> dict_wf (dict_set d k v)"
  by (auto simp: dict_wf_def dict_keys_set)

lemma dict_wf_filter [intro, simp]: "dict_wf d \<Longrightarrow> dict_wf (filter p d)"
  by (simp add: dict_wf_def distinct_map_filter)

lemma dict_wf_pop [intro, simp]: "dict_wf d \<Longrightarrow> dict_wf (dict_pop d k)"
  by (simp add: dict_pop_def dict_wf_filter)

lemma length_dict_set: "length (dict_set d k v) = (if k \<in> fst ` set d then length d else Suc (length d))"
  by (induction d k v rule: dict_set.induct) auto

lemma dict_get_None_iff: "dict_get d k = None \<longleftrightarrow> k \<notin> fst ` set d"
  by (auto simp: dict_get_def map_of_eq_None_iff)

lemma set_dedup_from: "set (dedup_from seen xs) = set xs - set seen"
  by (induction seen xs rule: dedup_from.induct) auto

lemma distinct_dedup_from: "distinct (dedup_from seen xs)"
  by (induction seen xs rule: dedup_from.induct) (auto simp: set_dedup_from)

lemma set_py_dedup [simp]: "set (py_dedup xs) = set xs"
  by (simp add: py_dedup_def set_dedup_from)

lemma distinct_py_dedup [simp]: "distinct (py_dedup xs)"
  by (simp add: py_dedup_def distinct_dedup_from)

end
