(* ===== verification/Script_Lexer.thy ===== *)
theory Script_Lexer
  imports Py_Base
begin

text \<open>
  The data of the management script language and its lexer
  (\<open>core/management_script_language.py\<close>): limits, the table of safe functions, tokens,
  the errors, \<open>_decode_string\<close> and \<open>_tokenize\<close>. The lexer reads the rest of the source
  instead of an index into it; lines and columns are carried as the code carries them.
\<close>

section \<open>Limits\<close>

definition MAX_EXPRESSION_DEPTH :: nat where "MAX_EXPRESSION_DEPTH = 20"
definition MAX_EXPRESSION_TOKENS :: nat where "MAX_EXPRESSION_TOKENS = 2048"
definition MAX_PROGRAM_STATEMENTS :: nat where "MAX_PROGRAM_STATEMENTS = 500"
definition MAX_RUNTIME_STEPS :: nat where "MAX_RUNTIME_STEPS = 10000"
definition MAX_LIST_VALUES :: nat where "MAX_LIST_VALUES = 100"
definition MAX_VALUE_CHARACTERS :: nat where "MAX_VALUE_CHARACTERS = 8192"
definition MAX_TOTAL_OUTPUT_CHARACTERS :: nat where "MAX_TOTAL_OUTPUT_CHARACTERS = 65536"
definition MAX_SOURCE_CHARACTERS :: nat where "MAX_SOURCE_CHARACTERS = 32768"

section \<open>Errors\<close>

text \<open>
  A \<open>reason\<close> stands for the message of a validation error, one constructor per message of
  the code with the values formatted into it, grouped by the part that raises it. A
  \<open>ScriptError\<close> is a \<open>ScriptValidationError\<close> with its script name, line and column;
  \<open>PathLimitError\<close> is its subclass \<open>PathLimitExceededError\<close>. \<open>ValueError\<close>,
  \<open>IndexError\<close>, \<open>KeyError\<close> and \<open>UnicodeEncodeError\<close> are Python's own. \<open>OutOfFuel\<close> is not
  raised by the code: it marks a model's exhausted fuel, and the fuel lemmas exclude it.
\<close>

datatype lex_reason =
    StringSpansLines | EndsWithEscape | BadUnicodeEscape | UnsupportedEscape | StringNotClosed
  | UnexpectedChar cp | TooManyTokens

datatype parse_reason =
    UnexpectedToken | NestedTooDeeply | ExpectedValue | TooManyArguments | ExpectedComma cp
  | ExpressionTooLong | ExpressionEmpty | UnknownFunction pystr | BadArity pystr nat nat

datatype eval_reason =
    StepLimit | TooManyValues | UnsafeText | ValueTooLong | OutputLimit
  | NeedsInteger | BadPad | BadPathSafe | NotImplementedFunction

datatype template_reason =
    NamingTooLong | NamingEmpty | UnexpectedBrace | BraceNotClosed | NamingExpressionEmpty

datatype program_reason =
    ConditionalTooDeep | ConditionalColon | ConditionalMissingEnd | BadDeleteTarget
  | ExpectedStatement | BadTarget | TooManyStatements | TaggingTooLong
  | UnexpectedTerminator pystr | NoStatements

datatype naming_reason =
    NotSinglePath | NotRelative | UnknownNamingVariable pystr | NoNumericFormat pystr
  | NonIntegerFormat | BadPath | RelativeTooLong | AbsoluteTooLong | WindowsTooLong

datatype tagging_reason =
    NoAppend pystr | UnknownTarget pystr | UnknownTaggingVariable pystr | CustomNotUnique
  | NeedsNonNegative pystr | NeedsBool | NeedsText pystr
  | TooManyOutputValues | TooManyCustomTags | CustomTagBound | CustomValueTooLong
  | CustomOutputTooLarge

datatype reason =
    Lex lex_reason | Parse parse_reason | Eval eval_reason | Template template_reason
  | Program program_reason | Naming naming_reason | Tagging tagging_reason

datatype exc =
    ScriptError reason pystr int int
  | PathLimitError reason pystr int int
  | ValueError
  | IndexError
  | KeyError
  | UnicodeEncodeError
  | OutOfFuel

section \<open>The safe functions and their arities\<close>

definition SAFE_FUNCTION_ARITY :: "(pystr \<times> nat \<times> nat) list" where
  "SAFE_FUNCTION_ARITY =
    [(lit ''default'', 1, MAX_LIST_VALUES), (lit ''fallback'', 1, MAX_LIST_VALUES),
     (lit ''if'', 3, 3), (lit ''conditional'', 3, 3),
     (lit ''equals'', 2, 2), (lit ''eq'', 2, 2), (lit ''contains'', 2, 2),
     (lit ''replace'', 3, 3), (lit ''slice'', 2, 3), (lit ''pad'', 2, 3),
     (lit ''lower'', 1, 1), (lit ''upper'', 1, 1), (lit ''title'', 1, 1),
     (lit ''first'', 1, 1), (lit ''join'', 1, 2),
     (lit ''sortname'', 1, 1), (lit ''sort_name'', 1, 1),
     (lit ''asciifold'', 1, 1), (lit ''ascii_fold'', 1, 1),
     (lit ''pathsafe'', 1, 2), (lit ''path_safe'', 1, 2),
     (lit ''concat'', 1, MAX_LIST_VALUES), (lit ''not'', 1, 1),
     (lit ''all'', 1, MAX_LIST_VALUES), (lit ''and'', 1, MAX_LIST_VALUES),
     (lit ''any'', 1, MAX_LIST_VALUES), (lit ''or'', 1, MAX_LIST_VALUES),
     (lit ''is_empty'', 1, 1), (lit ''empty'', 1, 1)]"

definition SAFE_FUNCTION_NAMES :: "pystr list" where
  "SAFE_FUNCTION_NAMES =
    [lit ''default'', lit ''fallback'', lit ''if'', lit ''conditional'', lit ''equals'',
     lit ''eq'', lit ''contains'', lit ''replace'', lit ''slice'', lit ''pad'',
     lit ''lower'', lit ''upper'', lit ''title'', lit ''first'', lit ''join'',
     lit ''sortname'', lit ''sort_name'', lit ''asciifold'', lit ''ascii_fold'',
     lit ''pathsafe'', lit ''path_safe'', lit ''concat'', lit ''not'', lit ''all'',
     lit ''and'', lit ''any'', lit ''or'', lit ''is_empty'', lit ''empty'']"

section \<open>Tokens\<close>

datatype token_kind =
    TPunct cp        \<comment> \<open>the kind is the character itself: one of \<open>(),[]\<close>\<close>
  | TString
  | TInteger
  | TIdentifier
  | TEof

record token =
  tk_kind :: token_kind
  tk_value :: pystr
  tk_line :: int
  tk_column :: int

abbreviation mk_token :: "token_kind \<Rightarrow> pystr \<Rightarrow> int \<Rightarrow> int \<Rightarrow> token" where
  "mk_token k v l c \<equiv> \<lparr>tk_kind = k, tk_value = v, tk_line = l, tk_column = c\<rparr>"

definition is_ident_start :: "cp \<Rightarrow> bool" where
  "is_ident_start c \<longleftrightarrow> is_alpha_ascii c \<or> c = c_underscore"

definition is_ident_char :: "cp \<Rightarrow> bool" where
  "is_ident_char c \<longleftrightarrow>
     is_alpha_ascii c \<or> is_digit_ascii c \<or> c = c_underscore \<or> c = c_dot"

definition is_punct :: "cp \<Rightarrow> bool" where
  "is_punct c \<longleftrightarrow>
     c = c_lparen \<or> c = c_rparen \<or> c = c_comma \<or> c = c_lbracket \<or> c = c_rbracket"

section \<open>String literals\<close>

definition hex_value :: "cp \<Rightarrow> nat option" where
  "hex_value c =
     (if is_digit_ascii c then Some (c - 48)
      else if 97 \<le> c \<and> c \<le> 102 then Some (c - 87)
      else if 65 \<le> c \<and> c \<le> 70 then Some (c - 55)
      else None)"

definition hex4 :: "pystr \<Rightarrow> cp option" where
  "hex4 ds =
     (case map hex_value ds of
        [Some a, Some b, Some c, Some d] \<Rightarrow> Some (((a * 16 + b) * 16 + c) * 16 + d)
      | _ \<Rightarrow> None)"

text \<open>The table \<open>escapes\<close>: the escaped character, where the escape is known.\<close>

definition escape_value :: "cp \<Rightarrow> cp \<Rightarrow> cp option" where
  "escape_value quote e =
     (if e = quote then Some quote
      else if e = 110 then Some c_newline
      else if e = 114 then Some c_return
      else if e = 116 then Some 9
      else if e = c_backslash then Some c_backslash
      else None)"

text \<open>
  The loop of \<open>_decode_string\<close> after the opening quote at \<open>(line0, col0)\<close>: the decoded
  text, the source after the closing quote, and the position there.
\<close>

function decode_loop ::
  "pystr \<Rightarrow> cp \<Rightarrow> int \<Rightarrow> int \<Rightarrow> pystr \<Rightarrow> int \<Rightarrow> int \<Rightarrow> pystr
     \<Rightarrow> exc + (pystr \<times> pystr \<times> int \<times> int)" where
  "decode_loop name quote line0 col0 [] line col res =
     Inl (ScriptError (Lex StringNotClosed) name line0 col0)"
| "decode_loop name quote line0 col0 (c # s) line col res =
     (if c = quote then Inr (res, s, line, col + 1)
      else if c = c_return \<or> c = c_newline
      then Inl (ScriptError (Lex StringSpansLines) name line col)
      else if c \<noteq> c_backslash
      then decode_loop name quote line0 col0 s line (col + 1) (res @ [c])
      else (case s of
              [] \<Rightarrow> Inl (ScriptError (Lex EndsWithEscape) name line col)
            | e # s' \<Rightarrow>
                if e = 117
                then (case hex4 (take 4 s') of
                        None \<Rightarrow> Inl (ScriptError (Lex BadUnicodeEscape) name line col)
                      | Some h \<Rightarrow>
                          decode_loop name quote line0 col0 (drop 4 s') line (col + 6) (res @ [h]))
                else (case escape_value quote e of
                        None \<Rightarrow> Inl (ScriptError (Lex UnsupportedEscape) name line col)
                      | Some r \<Rightarrow>
                          decode_loop name quote line0 col0 s' line (col + 2) (res @ [r]))))"
  by pat_completeness auto
termination
  by (relation "measure (\<lambda>(_, _, _, _, s, _). length s)") auto

declare decode_loop.simps [simp del]

definition decode_string ::
  "pystr \<Rightarrow> cp \<Rightarrow> pystr \<Rightarrow> int \<Rightarrow> int \<Rightarrow> exc + (pystr \<times> pystr \<times> int \<times> int)" where
  "decode_string name quote s line col = decode_loop name quote line col s line (col + 1) []"

lemma decode_loop_shorter:
  "decode_loop name q l0 c0 s l c res = Inr (v, s', l', c') \<Longrightarrow> length s' < length s"
proof (induction name q l0 c0 s l c res rule: decode_loop.induct)
  case (1 name quote line0 col0 line col res)
  then show ?case by (simp add: decode_loop.simps)
next
  case (2 name quote line0 col0 ch s line col res)
  show ?case
  proof (cases "ch \<noteq> quote \<and> ch = c_backslash \<and> s \<noteq> []")
    case True
    then obtain e r where s: "s = e # r" by (cases s) auto
    from 2 True s show ?thesis
      by (simp add: decode_loop.simps(2) split: if_splits option.splits) fastforce+
  next
    case False
    with 2 show ?thesis
      by (auto simp: decode_loop.simps(2) split: if_splits list.splits)
  qed
qed

lemma decode_string_shorter:
  "decode_string name q s l c = Inr (v, s', l', c') \<Longrightarrow> length s' < length s"
  by (simp add: decode_string_def decode_loop_shorter)

section \<open>The lexer\<close>

text \<open>
  The loop of \<open>_tokenize\<close>. \<open>toks\<close> holds the tokens so far, in order. The limit on their
  number is checked after each token, as in the code.
\<close>

definition too_many :: "pystr \<Rightarrow> int \<Rightarrow> int \<Rightarrow> token list \<Rightarrow> exc + unit" where
  "too_many name line col toks =
     check (length toks \<le> MAX_EXPRESSION_TOKENS) (ScriptError (Lex TooManyTokens) name line col)"

function tokenize_loop ::
  "unidb \<Rightarrow> pystr \<Rightarrow> pystr \<Rightarrow> int \<Rightarrow> int \<Rightarrow> token list \<Rightarrow> exc + token list" where
  "tokenize_loop u name [] line col toks = Inr (toks @ [mk_token TEof [] line col])"
| "tokenize_loop u name (c # s) line col toks =
     (if py_isspace u c
      then (if c = c_newline then tokenize_loop u name s (line + 1) 1 toks
            else tokenize_loop u name s line (col + 1) toks)
      else if is_punct c
      then (let toks' = toks @ [mk_token (TPunct c) [c] line col]
            in rbind (too_many name line col toks')
                 (\<lambda>_. tokenize_loop u name s line (col + 1) toks'))
      else if c = c_dquote \<or> c = c_squote
      then rbind (decode_string name c s line col)
             (\<lambda>(v, s', line', col').
                let toks' = toks @ [mk_token TString v line col]
                in rbind (too_many name line col toks')
                     (\<lambda>_. tokenize_loop u name s' line' col' toks'))
      else if py_isdigit u c
      then (let v = c # takeWhile (py_isdigit u) s;
                toks' = toks @ [mk_token TInteger v line col]
            in rbind (too_many name line col toks')
                 (\<lambda>_. tokenize_loop u name (dropWhile (py_isdigit u) s) line
                        (col + int (length v)) toks'))
      else if is_ident_start c
      then (let v = c # takeWhile is_ident_char s;
                toks' = toks @ [mk_token TIdentifier v line col]
            in rbind (too_many name line col toks')
                 (\<lambda>_. tokenize_loop u name (dropWhile is_ident_char s) line
                        (col + int (length v)) toks'))
      else Inl (ScriptError (Lex (UnexpectedChar c)) name line col))"
  by pat_completeness auto
termination
  by (relation "measure (\<lambda>(_, _, s, _). length s)")
     (auto dest!: decode_string_shorter simp: length_dropWhile_le le_imp_less_Suc)

declare tokenize_loop.simps [simp del]

definition tokenize :: "unidb \<Rightarrow> pystr \<Rightarrow> pystr \<Rightarrow> int \<Rightarrow> int \<Rightarrow> exc + token list" where
  "tokenize u name source line col = tokenize_loop u name source line col []"

section \<open>What the lexer promises\<close>

text \<open>A token list ends with its only \<open>eof\<close> token.\<close>

definition ends_once :: "token list \<Rightarrow> bool" where
  "ends_once toks \<longleftrightarrow>
     toks \<noteq> [] \<and> tk_kind (last toks) = TEof \<and> list_all (\<lambda>t. tk_kind t \<noteq> TEof) (butlast toks)"

lemma ends_once_Cons:
  "ends_once (t # ts) \<longleftrightarrow> (if ts = [] then tk_kind t = TEof else tk_kind t \<noteq> TEof \<and> ends_once ts)"
  by (auto simp: ends_once_def)

text \<open>The exceptions that reading an expression may raise: a validation error of its script, or the
  \<open>ValueError\<close> of \<open>int()\<close>.\<close>

definition script_exc :: "pystr \<Rightarrow> exc \<Rightarrow> bool" where
  "script_exc name e \<longleftrightarrow> (\<exists>r l c. e = ScriptError r name l c) \<or> e = ValueError"

lemma script_exc_simps [simp]:
  "script_exc name (ScriptError r n l c) \<longleftrightarrow> n = name" "script_exc name ValueError"
  "\<not> script_exc name IndexError" "\<not> script_exc name KeyError" "\<not> script_exc name OutOfFuel"
  by (auto simp: script_exc_def)

lemma decode_loop_error: "decode_loop name q l0 c0 s l c res = Inl e \<Longrightarrow> script_exc name e"
proof (induction name q l0 c0 s l c res rule: decode_loop.induct)
  case (1 name quote line0 col0 line col res)
  then show ?case by (auto simp: decode_loop.simps)
next
  case (2 name quote line0 col0 ch s line col res)
  show ?case
  proof (cases "ch \<noteq> quote \<and> ch = c_backslash \<and> s \<noteq> []")
    case True
    then obtain x r where s: "s = x # r" by (cases s) auto
    from 2 True s show ?thesis
      by (auto simp: decode_loop.simps(2) split: if_splits option.splits)
  next
    case False
    with 2 show ?thesis
      by (auto simp: decode_loop.simps(2) split: if_splits list.splits)
  qed
qed

lemma decode_string_error: "decode_string name q s l c = Inl e \<Longrightarrow> script_exc name e"
  by (auto simp: decode_string_def dest: decode_loop_error)

definition lexed :: "pystr \<Rightarrow> exc + token list \<Rightarrow> bool" where
  "lexed name res \<longleftrightarrow>
     (case res of
        Inl e \<Rightarrow> script_exc name e
      | Inr toks \<Rightarrow> ends_once toks \<and> length toks \<le> Suc MAX_EXPRESSION_TOKENS)"

lemma lexed_too_many:
  assumes "length toks \<le> MAX_EXPRESSION_TOKENS \<Longrightarrow> lexed name (f ())"
  shows "lexed name (rbind (too_many name l c toks) f)"
  using assms by (cases "length toks \<le> MAX_EXPRESSION_TOKENS") (auto simp: lexed_def too_many_def)

lemma too_many_Inr [simp]:
  "too_many name l c toks = Inr x \<longleftrightarrow> length toks \<le> MAX_EXPRESSION_TOKENS"
  by (simp add: too_many_def check_Inr_iff)

lemma tokenize_loop_lexed:
  "length toks \<le> MAX_EXPRESSION_TOKENS \<Longrightarrow> list_all (\<lambda>t. tk_kind t \<noteq> TEof) toks \<Longrightarrow>
     lexed name (tokenize_loop u name s line col toks)"
proof (induction u name s line col toks rule: tokenize_loop.induct)
  case (1 u name line col toks)
  then show ?case by (simp add: tokenize_loop.simps lexed_def ends_once_def)
next
  case (2 u name ch s line col toks)
  note IH = 2(1-6)
  note prems = 2(7,8)
  consider (space) "py_isspace u ch" | (punct) "\<not> py_isspace u ch" "is_punct ch"
    | (quote) "\<not> py_isspace u ch" "\<not> is_punct ch" "ch = c_dquote \<or> ch = c_squote"
    | (other) "\<not> py_isspace u ch" "\<not> is_punct ch" "\<not> (ch = c_dquote \<or> ch = c_squote)"
    by blast
  then show ?case
  proof cases
    case space
    with IH(1,2) prems show ?thesis by (auto simp: tokenize_loop.simps(2))
  next
    case punct
    with IH(3) prems show ?thesis
      by (simp add: tokenize_loop.simps(2)) (auto simp: Let_def intro!: lexed_too_many)
  next
    case quote
    show ?thesis
    proof (cases "decode_string name ch s line col")
      case (Inl e)
      with quote decode_string_error [OF Inl] show ?thesis
        by (auto simp add: tokenize_loop.simps(2) lexed_def)
    next
      case (Inr r)
      with quote IH(4)[OF quote Inr] prems show ?thesis
        by (cases r) (auto simp: tokenize_loop.simps(2) Let_def intro!: lexed_too_many)
    qed
  next
    case other
    with IH(5)[OF other _ refl refl] IH(6)[OF other _ _ refl refl] prems show ?thesis
      by (simp add: tokenize_loop.simps(2) del: de_Morgan_disj)
         (auto simp: Let_def lexed_def intro!: lexed_too_many[unfolded lexed_def])
  qed
qed

lemma tokenize_lexed: "lexed name (tokenize u name s line col)"
  by (simp add: tokenize_def tokenize_loop_lexed)

end
