(* ===== verification/Script_Parser.thy ===== *)
theory Script_Parser
  imports Script_Lexer
begin

text \<open>
  Values and expressions of the management script language, the recursive-descent parser
  \<open>_ExpressionParser\<close>, \<open>walk_expressions\<close> and \<open>compile_expression\<close>
  (\<open>core/management_script_language.py\<close>). The parser's position is the list of the
  tokens that are left. It needs no fuel: the code's own limits on the nesting depth and
  on the number of values bound the recursion.
\<close>

section \<open>Values and expressions\<close>

datatype sval = VNone | VBool bool | VInt int | VStr pystr | VTup "pystr list"

text \<open>An \<open>Expression\<close>: its kind with the value and the children of that kind, and its line and column.\<close>

datatype expr =
    ELiteral sval int int
  | EVariable pystr int int
  | EList "expr list" int int
  | ECall pystr "expr list" int int

primrec expr_line :: "expr \<Rightarrow> int" where
  "expr_line (ELiteral v l c) = l"
| "expr_line (EVariable v l c) = l"
| "expr_line (EList es l c) = l"
| "expr_line (ECall f es l c) = l"

primrec expr_column :: "expr \<Rightarrow> int" where
  "expr_column (ELiteral v l c) = c"
| "expr_column (EVariable v l c) = c"
| "expr_column (EList es l c) = c"
| "expr_column (ECall f es l c) = c"

section \<open>The parser\<close>

text \<open>
  The recursion of the parser is bounded by the code's limits alone: a level deeper each time an argument
  list is entered, and one more value each time the list goes on.
\<close>

definition parse_rank :: "nat \<Rightarrow> nat \<Rightarrow> nat" where
  "parse_rank extra depth = 4 * (Suc MAX_EXPRESSION_DEPTH - depth) + extra"

definition primary_rank :: "nat \<Rightarrow> nat" where
  "primary_rank depth =
     (if MAX_EXPRESSION_DEPTH < depth then 0 else 4 * (Suc (Suc MAX_EXPRESSION_DEPTH) - depth))"

text \<open>The property \<open>current\<close>; reading past the last token would be an \<open>IndexError\<close>.\<close>

definition current :: "token list \<Rightarrow> exc + token" where
  "current toks = (case toks of [] \<Rightarrow> Inl IndexError | t # _ \<Rightarrow> Inr t)"

definition keyword_literal :: "pystr \<Rightarrow> sval option" where
  "keyword_literal lowered =
     (if lowered = lit ''true'' then Some (VBool True)
      else if lowered = lit ''false'' then Some (VBool False)
      else if lowered = lit ''null'' then Some VNone
      else None)"

function (sequential)
  primary :: "unidb \<Rightarrow> pystr \<Rightarrow> nat \<Rightarrow> token list \<Rightarrow> exc + (expr \<times> token list)"
and arguments ::
  "unidb \<Rightarrow> pystr \<Rightarrow> cp \<Rightarrow> nat \<Rightarrow> token list \<Rightarrow> exc + (expr list \<times> token list)"
and arg_loop ::
  "unidb \<Rightarrow> pystr \<Rightarrow> cp \<Rightarrow> nat \<Rightarrow> expr list \<Rightarrow> token list \<Rightarrow> exc + (expr list \<times> token list)"
where
  "primary u name depth toks =
     rbind (current toks) (\<lambda>t.
       let l = tk_line t; c = tk_column t; rest = tl toks in
       if MAX_EXPRESSION_DEPTH < depth then Inl (ScriptError (Parse NestedTooDeeply) name l c)
       else case tk_kind t of
         TString \<Rightarrow> Inr (ELiteral (VStr (tk_value t)) l c, rest)
       | TInteger \<Rightarrow>
           (case py_int u (tk_value t) of
              None \<Rightarrow> Inl ValueError
            | Some n \<Rightarrow> Inr (ELiteral (VInt n) l c, rest))
       | TIdentifier \<Rightarrow>
           (case keyword_literal (py_casefold u (tk_value t)) of
              Some v \<Rightarrow> Inr (ELiteral v l c, rest)
            | None \<Rightarrow>
                rbind (current rest) (\<lambda>t2.
                  if tk_kind t2 \<noteq> TPunct c_lparen then Inr (EVariable (tk_value t) l c, rest)
                  else rbind (arguments u name c_rparen depth (tl rest)) (\<lambda>(vs, r).
                         Inr (ECall (tk_value t) vs l c, r))))
       | TPunct p \<Rightarrow>
           (if p = c_lbracket
            then rbind (arguments u name c_rbracket depth rest) (\<lambda>(vs, r).
                   Inr (EList vs l c, r))
            else Inl (ScriptError (Parse ExpectedValue) name l c))
       | TEof \<Rightarrow> Inl (ScriptError (Parse ExpectedValue) name l c))"
| "arguments u name closing depth toks =
     rbind (current toks) (\<lambda>t.
       if tk_kind t = TPunct closing then Inr ([], tl toks)
       else arg_loop u name closing depth [] toks)"
| "arg_loop u name closing depth vals toks =
     rbind (primary u name (Suc depth) toks) (\<lambda>(v, r).
       rbind (current r) (\<lambda>t.
         if MAX_LIST_VALUES < length (vals @ [v])
         then Inl (ScriptError (Parse TooManyArguments) name (tk_line t) (tk_column t))
         else if tk_kind t = TPunct closing then Inr (vals @ [v], tl r)
         else if tk_kind t \<noteq> TPunct c_comma
         then Inl (ScriptError (Parse (ExpectedComma closing)) name (tk_line t) (tk_column t))
         else arg_loop u name closing depth (vals @ [v]) (tl r)))"
  by pat_completeness auto

termination
proof (relation "measures
    [case_sum (\<lambda>(u, name, depth, toks). primary_rank depth)
       (case_sum (\<lambda>(u, name, closing, depth, toks). parse_rank 2 depth)
          (\<lambda>(u, name, closing, depth, vals, toks). parse_rank 1 depth)),
     case_sum (\<lambda>_. 0)
       (case_sum (\<lambda>_. 0)
          (\<lambda>(u, name, closing, depth, vals, toks). Suc MAX_LIST_VALUES - length vals))]")
qed (auto simp: primary_rank_def parse_rank_def MAX_EXPRESSION_DEPTH_def MAX_LIST_VALUES_def)

declare primary.simps [simp del] arguments.simps [simp del] arg_loop.simps [simp del]

definition parse_tokens :: "unidb \<Rightarrow> pystr \<Rightarrow> token list \<Rightarrow> exc + expr" where
  "parse_tokens u name toks =
     rbind (primary u name 1 toks) (\<lambda>(e, r).
       rbind (current r) (\<lambda>t.
         if tk_kind t \<noteq> TEof
         then Inl (ScriptError (Parse UnexpectedToken) name (tk_line t) (tk_column t))
         else Inr e))"

section \<open>Compiling an expression\<close>

fun walk_expressions :: "expr \<Rightarrow> expr list" where
  "walk_expressions (ELiteral v l c) = [ELiteral v l c]"
| "walk_expressions (EVariable v l c) = [EVariable v l c]"
| "walk_expressions (EList es l c) = EList es l c # concat (map walk_expressions es)"
| "walk_expressions (ECall f es l c) = ECall f es l c # concat (map walk_expressions es)"

text \<open>The checks of one node: the function is known, and it has as many arguments as it takes.\<close>

definition check_node :: "unidb \<Rightarrow> pystr \<Rightarrow> expr \<Rightarrow> exc + unit" where
  "check_node u name e =
     (case e of
        ECall f es l c \<Rightarrow>
          (if \<not> List.member SAFE_FUNCTION_NAMES (py_casefold u f)
           then Inl (ScriptError (Parse (UnknownFunction f)) name l c)
           else (case map_of SAFE_FUNCTION_ARITY (py_casefold u f) of
                   None \<Rightarrow> Inl KeyError
                 | Some (mn, mx) \<Rightarrow>
                     check (mn \<le> length es \<and> length es \<le> mx)
                       (ScriptError (Parse (BadArity f mn mx)) name l c)))
      | _ \<Rightarrow> Inr ())"

fun check_nodes :: "unidb \<Rightarrow> pystr \<Rightarrow> expr list \<Rightarrow> exc + unit" where
  "check_nodes u name [] = Inr ()"
| "check_nodes u name (e # es) = rbind (check_node u name e) (\<lambda>_. check_nodes u name es)"

definition compile_expression :: "unidb \<Rightarrow> pystr \<Rightarrow> pystr \<Rightarrow> int \<Rightarrow> int \<Rightarrow> exc + expr" where
  "compile_expression u name source line col =
     (if MAX_SOURCE_CHARACTERS < length source
      then Inl (ScriptError (Parse ExpressionTooLong) name line col)
      else if py_strip u source = []
      then Inl (ScriptError (Parse ExpressionEmpty) name line col)
      else rbind (tokenize u name source line col) (\<lambda>toks.
             rbind (parse_tokens u name toks) (\<lambda>e.
               rbind (check_nodes u name (walk_expressions e)) (\<lambda>_. Inr e))))"

section \<open>What the parser promises\<close>

text \<open>
  \<open>within n e\<close>: \<open>e\<close> nests at most \<open>n\<close> levels, no list of it has too many values, and no
  literal of it is a tuple.
\<close>

fun within :: "nat \<Rightarrow> expr \<Rightarrow> bool" where
  "within n (ELiteral v l c) \<longleftrightarrow> 0 < n \<and> (\<forall>xs. v \<noteq> VTup xs)"
| "within n (EVariable x l c) \<longleftrightarrow> 0 < n"
| "within n (EList es l c) \<longleftrightarrow>
     0 < n \<and> length es \<le> MAX_LIST_VALUES \<and> list_all (within (n - 1)) es"
| "within n (ECall f es l c) \<longleftrightarrow>
     0 < n \<and> length es \<le> MAX_LIST_VALUES \<and> list_all (within (n - 1)) es"

abbreviation nodes :: "expr \<Rightarrow> nat" where
  "nodes e \<equiv> length (walk_expressions e)"

abbreviation nodes_all :: "expr list \<Rightarrow> nat" where
  "nodes_all es \<equiv> sum_list (map nodes es)"

lemma nodes_concat [simp]: "length (concat (map walk_expressions es)) = nodes_all es"
  by (simp add: length_concat o_def)

lemma ends_once_current: "ends_once toks \<Longrightarrow> \<exists>t ts. toks = t # ts \<and> current toks = Inr t"
  by (cases toks) (auto simp: ends_once_def current_def)

definition parsed :: "pystr \<Rightarrow> token list \<Rightarrow> nat \<Rightarrow> exc + (expr \<times> token list) \<Rightarrow> bool" where
  "parsed name toks depth res \<longleftrightarrow>
     (case res of
        Inl e \<Rightarrow> script_exc name e
      | Inr (e, r) \<Rightarrow> ends_once r \<and> within (Suc MAX_EXPRESSION_DEPTH - depth) e
          \<and> nodes e + length r \<le> length toks)"

definition parsed_all :: "pystr \<Rightarrow> token list \<Rightarrow> nat \<Rightarrow> nat \<Rightarrow> exc + (expr list \<times> token list) \<Rightarrow> bool" where
  "parsed_all name toks depth extra res \<longleftrightarrow>
     (case res of
        Inl e \<Rightarrow> script_exc name e
      | Inr (es, r) \<Rightarrow> ends_once r \<and> length es \<le> MAX_LIST_VALUES
          \<and> list_all (within (MAX_EXPRESSION_DEPTH - depth)) es
          \<and> nodes_all es + length r < length toks + extra)"

lemma parsed_simps [simp]:
  "parsed name toks depth (Inl e) \<longleftrightarrow> script_exc name e"
  "parsed name toks depth (Inr (x, r)) \<longleftrightarrow>
     ends_once r \<and> within (Suc MAX_EXPRESSION_DEPTH - depth) x \<and> nodes x + length r \<le> length toks"
  "parsed_all name toks depth extra (Inl e) \<longleftrightarrow> script_exc name e"
  "parsed_all name toks depth extra (Inr (es, r)) \<longleftrightarrow>
     ends_once r \<and> length es \<le> MAX_LIST_VALUES
       \<and> list_all (within (MAX_EXPRESSION_DEPTH - depth)) es
       \<and> nodes_all es + length r < length toks + extra"
  by (simp_all add: parsed_def parsed_all_def)

text \<open>A node over a parsed argument list.\<close>

lemma parsed_node:
  assumes "parsed_all name r0 depth 0 m" and "depth \<le> MAX_EXPRESSION_DEPTH"
    and "length r0 < length toks"
    and "\<And>vs. within (Suc MAX_EXPRESSION_DEPTH - depth) (f vs) \<longleftrightarrow>
           length vs \<le> MAX_LIST_VALUES \<and> list_all (within (MAX_EXPRESSION_DEPTH - depth)) vs"
    and "\<And>vs. nodes (f vs) = Suc (nodes_all vs)"
  shows "parsed name toks depth (rbind m (\<lambda>(vs, r). Inr (f vs, r)))"
  using assms by (cases m) auto

lemma parser_sound:
  "ends_once toks \<Longrightarrow> parsed name toks depth (primary u name depth toks)"
  "ends_once toks \<Longrightarrow> parsed_all name toks depth 0 (arguments u name closing depth toks)"
  "ends_once toks \<Longrightarrow> length vals \<le> MAX_LIST_VALUES \<Longrightarrow>
     list_all (within (MAX_EXPRESSION_DEPTH - depth)) vals \<Longrightarrow>
     parsed_all name toks depth (nodes_all vals) (arg_loop u name closing depth vals toks)"
proof (induction u name depth toks and u name closing depth toks and u name closing depth vals toks
    rule: primary_arguments_arg_loop.induct)
  case (1 u name depth toks)
  obtain t ts where toks: "toks = t # ts" "current toks = Inr t"
    using ends_once_current[OF 1(3)] by blast
  show ?case
  proof (cases "MAX_EXPRESSION_DEPTH < depth \<or> tk_kind t = TEof")
    case True
    with toks show ?thesis by (auto simp: primary.simps Let_def)
  next
    case False
    then have d: "depth \<le> MAX_EXPRESSION_DEPTH" "0 < Suc MAX_EXPRESSION_DEPTH - depth" by auto
    from False toks 1(3) have ts: "ends_once ts" by (auto simp: ends_once_Cons split: if_splits)
    show ?thesis
    proof (cases "tk_kind t")
      case (TPunct p)
      show ?thesis
      proof (cases "p = c_lbracket")
        case True
        have "parsed_all name ts depth 0 (arguments u name c_rbracket depth ts)"
          using 1(1)[OF toks(2) refl refl refl] toks(1) ts TPunct True False by simp
        then have "parsed name toks depth (rbind (arguments u name c_rbracket depth ts)
            (\<lambda>(vs, r). Inr (EList vs (tk_line t) (tk_column t), r)))"
          by (rule parsed_node) (use d toks in auto)
        with toks d TPunct True show ?thesis by (simp add: primary.simps)
      qed (use toks d TPunct in \<open>simp add: primary.simps\<close>)
    next
      case TIdentifier
      obtain t2 ts2 where ts2: "ts = t2 # ts2" "current ts = Inr t2"
        using ends_once_current[OF ts] by blast
      show ?thesis
      proof (cases "keyword_literal (py_casefold u (tk_value t)) = None \<and> tk_kind t2 = TPunct c_lparen")
        case True
        with ts ts2 have "ends_once ts2" by (auto simp: ends_once_Cons split: if_splits)
        then have "parsed_all name ts2 depth 0 (arguments u name c_rparen depth ts2)"
          using 1(2)[OF toks(2) refl refl refl _ TIdentifier] toks(1) ts2 True False by simp
        then have "parsed name toks depth (rbind (arguments u name c_rparen depth ts2)
            (\<lambda>(vs, r). Inr (ECall (tk_value t) vs (tk_line t) (tk_column t), r)))"
          by (rule parsed_node) (use d toks ts2 in auto)
        with toks ts2 d TIdentifier True show ?thesis by (simp add: primary.simps)
      next
        case no_call: False
        have "\<And>v xs. keyword_literal x = Some v \<Longrightarrow> v \<noteq> VTup xs" for x
          by (auto simp: keyword_literal_def split: if_splits)
        with toks ts ts2 d TIdentifier no_call show ?thesis
          by (auto simp: primary.simps Let_def split: option.splits)
      qed
    qed (use toks d ts False in \<open>auto simp: primary.simps Let_def split: option.splits\<close>)
  qed
next
  case (2 u name closing depth toks)
  obtain t ts where toks: "toks = t # ts" "current toks = Inr t"
    using ends_once_current[OF 2(2)] by blast
  with 2 show ?case
    by (auto simp: arguments.simps ends_once_Cons split: if_splits)
next
  case (3 u name closing depth vals toks)
  have p: "parsed name toks (Suc depth) (primary u name (Suc depth) toks)"
    using 3(1,3) by simp
  show ?case
  proof (cases "primary u name (Suc depth) toks")
    case (Inl e)
    with p show ?thesis by (simp add: arg_loop.simps)
  next
    case (Inr vr)
    obtain v r where vr: "vr = (v, r)" by (cases vr)
    with p Inr have r: "ends_once r" and v: "within (MAX_EXPRESSION_DEPTH - depth) v"
      and n: "nodes v + length r \<le> length toks" by auto
    obtain t ts where ts: "r = t # ts" "current r = Inr t"
      using ends_once_current[OF r] by blast
    show ?thesis
    proof (cases "length (vals @ [v]) \<le> MAX_LIST_VALUES \<and> tk_kind t = TPunct c_comma \<and> closing \<noteq> c_comma")
      case True
      with r ts have "ends_once ts" by (auto simp: ends_once_Cons split: if_splits)
      have "parsed_all name ts depth (nodes_all (vals @ [v])) (arg_loop u name closing depth (vals @ [v]) ts)"
        using 3(2)[OF Inr vr[symmetric] ts(2)] True ts(1) \<open>ends_once ts\<close> 3(4,5) v by auto
      then have "parsed_all name toks depth (nodes_all vals) (arg_loop u name closing depth (vals @ [v]) ts)"
        using n ts(1) by (cases "arg_loop u name closing depth (vals @ [v]) ts") auto
      with Inr vr ts True show ?thesis by (simp add: arg_loop.simps)
    next
      case False
      with Inr vr ts r v n 3(4,5) show ?thesis
        by (auto simp: arg_loop.simps ends_once_Cons split: if_splits)
    qed
  qed
qed

lemma SAFE_names: "SAFE_FUNCTION_NAMES = map fst SAFE_FUNCTION_ARITY"
  by (simp add: SAFE_FUNCTION_NAMES_def SAFE_FUNCTION_ARITY_def)

definition node_ok :: "unidb \<Rightarrow> expr \<Rightarrow> bool" where
  "node_ok u e =
     (case e of
        ECall f es l c \<Rightarrow>
          (case map_of SAFE_FUNCTION_ARITY (py_casefold u f) of
             None \<Rightarrow> False | Some (mn, mx) \<Rightarrow> mn \<le> length es \<and> length es \<le> mx)
      | _ \<Rightarrow> True)"

lemma check_node_cases:
  "check_node u name e = Inr () \<and> node_ok u e \<or>
   (\<exists>r. check_node u name e = Inl (ScriptError r name (expr_line e) (expr_column e)))"
  by (auto simp: check_node_def node_ok_def check_def SAFE_names map_of_eq_None_iff
      split: expr.splits option.splits)

lemma check_nodes_ok: "check_nodes u name es = Inr () \<Longrightarrow> list_all (node_ok u) es"
proof (induction es)
  case (Cons e es)
  with check_node_cases[of u name e] show ?case by (auto simp: ok_simps)
qed simp

lemma check_nodes_error: "check_nodes u name es = Inl x \<Longrightarrow> script_exc name x"
proof (induction es)
  case (Cons e es)
  with check_node_cases[of u name e] show ?case by (auto simp: rbind_Inl_iff)
qed simp

lemma parse_tokens_sound:
  assumes "ends_once toks"
  shows "case parse_tokens u name toks of
      Inl e \<Rightarrow> script_exc name e
    | Inr e \<Rightarrow> within MAX_EXPRESSION_DEPTH e \<and> nodes e < length toks"
proof (cases "primary u name 1 toks")
  case (Inl e)
  with parser_sound(1)[OF assms, of name 1 u] show ?thesis by (simp add: parse_tokens_def)
next
  case (Inr er)
  obtain e r where er: "er = (e, r)" by (cases er)
  from parser_sound(1)[OF assms, of name 1 u] Inr er
  have r: "ends_once r" and e: "within MAX_EXPRESSION_DEPTH e" "nodes e + length r \<le> length toks"
    by auto
  from ends_once_current[OF r] obtain t ts where "r = t # ts" "current r = Inr t" by blast
  with Inr er e show ?thesis by (simp add: parse_tokens_def)
qed

definition compiled :: "unidb \<Rightarrow> expr \<Rightarrow> bool" where
  "compiled u e \<longleftrightarrow>
     within MAX_EXPRESSION_DEPTH e \<and> nodes e \<le> MAX_EXPRESSION_TOKENS
       \<and> list_all (node_ok u) (walk_expressions e)"

lemma compile_expression_sound:
  "case compile_expression u name source line col of
      Inl x \<Rightarrow> script_exc name x
    | Inr e \<Rightarrow> compiled u e"
proof (cases "tokenize u name source line col")
  case (Inl x)
  with tokenize_lexed[of name u source line col] show ?thesis
    by (simp add: compile_expression_def lexed_def)
next
  case (Inr toks)
  with tokenize_lexed[of name u source line col]
  have "ends_once toks" and len: "length toks \<le> Suc MAX_EXPRESSION_TOKENS" by (simp_all add: lexed_def)
  from parse_tokens_sound[OF this(1), where u = u and name = name] len Inr show ?thesis
    by (cases "parse_tokens u name toks"; cases "check_nodes u name (walk_expressions (projr (parse_tokens u name toks)))")
       (auto simp: compile_expression_def compiled_def dest: check_nodes_ok check_nodes_error)
qed
lemma compile_expression_Inr: "compile_expression u name source line col = Inr e \<Longrightarrow> compiled u e"
  using compile_expression_sound [where u = u and name = name and source = source and line = line and col = col]
  by simp

lemma compile_expression_Inl:
  "compile_expression u name source line col = Inl x \<Longrightarrow> script_exc name x"
  using compile_expression_sound [where u = u and name = name and source = source and line = line and col = col]
  by simp

end
