(* ===== verification/Script_Errors.thy ===== *)
theory Script_Errors
  imports Script_Parser "HOL-Library.Sublist"
begin

text \<open>
  Which errors reading an expression raises: the lexer only located errors of its script, the parser
  also the \<open>ValueError\<close> of \<open>int()\<close>, and that only for digits of the source that \<open>int()\<close> refuses.
\<close>

section \<open>The lexer\<close>

text \<open>A located error of the lexer, at or after a position.\<close>

definition lex_error :: "pystr \<Rightarrow> int \<Rightarrow> int \<Rightarrow> exc \<Rightarrow> bool" where
  "lex_error name line col e \<longleftrightarrow>
     (\<exists>r l c. e = ScriptError (Lex r) name l c \<and> (line < l \<or> line = l \<and> col \<le> c))"

lemma lex_error_later: "lex_error name l c e \<Longrightarrow> line < l \<or> line = l \<and> col \<le> c \<Longrightarrow> lex_error name line col e"
  unfolding lex_error_def by fastforce

lemma lex_error_simps [simp]:
  "lex_error name line col (ScriptError (Lex r) n l c) \<longleftrightarrow> n = name \<and> (line < l \<or> line = l \<and> col \<le> c)"
  by (auto simp: lex_error_def)

lemma decode_loop_located:
  "l0 = line \<Longrightarrow> c0 \<le> col \<Longrightarrow> decode_loop name q l0 c0 s line col res = Inl e \<Longrightarrow> lex_error name l0 c0 e"
proof (induction name q l0 c0 s line col res rule: decode_loop.induct)
  case (1 name quote line0 col0 line col res)
  then show ?case by (auto simp: decode_loop.simps)
next
  case (2 name quote line0 col0 ch s line col res)
  show ?case
  proof (cases "ch \<noteq> quote \<and> ch = c_backslash \<and> s \<noteq> []")
    case True
    then obtain x r where s: "s = x # r" by (cases s) auto
    from 2 True s show ?thesis
      by (auto simp: decode_loop.simps(2) split: if_splits option.splits)
  next
    case False
    with 2 show ?thesis
      by (auto simp: decode_loop.simps(2) split: if_splits list.splits)
  qed
qed

lemma decode_loop_position:
  "decode_loop name q l0 c0 s line col res = Inr (v, s', l', c') \<Longrightarrow> l' = line \<and> col < c' \<and> suffix s' s"
proof (induction name q l0 c0 s line col res rule: decode_loop.induct)
  case (1 name quote line0 col0 line col res)
  then show ?case by (auto simp: decode_loop.simps)
next
  case (2 name quote line0 col0 ch s line col res)
  show ?case
  proof (cases "ch \<noteq> quote \<and> ch = c_backslash \<and> s \<noteq> []")
    case True
    then obtain x r where s: "s = x # r" by (cases s) auto
    have d: "suffix t (ch # x # r)" if "suffix t (drop 4 r) \<or> suffix t r" for t
      using that by (metis suffix_ConsI suffix_drop suffix_order.trans)
    show ?thesis
    proof (cases "x = 117")
      case u: True
      then obtain h where "hex4 (take 4 r) = Some h" using 2(4) True s by (auto simp: decode_loop.simps(2) split: option.splits)
      then show ?thesis using 2(2) [of x r] 2(4) True s u d [of s'] by (auto simp: decode_loop.simps(2))
    next
      case nu: False
      then obtain h where "escape_value quote x = Some h" using 2(4) True s by (auto simp: decode_loop.simps(2) split: option.splits)
      then show ?thesis using 2(3) [of x r] 2(4) True s nu d [of s'] by (auto simp: decode_loop.simps(2))
    qed
  next
    case False
    with 2 show ?thesis
      by (auto simp: decode_loop.simps(2) suffix_ConsI split: if_splits list.splits)
  qed
qed

lemma tokenize_loop_located:
  "tokenize_loop u name s line col toks = Inl e \<Longrightarrow> lex_error name line col e"
proof (induction u name s line col toks rule: tokenize_loop.induct)
  case (1 u name line col toks)
  then show ?case by (simp add: tokenize_loop.simps)
next
  case (2 u name ch s line col toks)
  note IH = 2(1-6)
  have tm: "too_many name line col ts = Inl x \<Longrightarrow> lex_error name line col x" for ts x
    by (auto simp: too_many_def check_def split: if_splits)
  have go: "lex_error name line col e"
    if "rbind (too_many name line col ts) (\<lambda>_. m) = Inl e"
      "too_many name line col ts = Inr () \<Longrightarrow> m = Inl e \<Longrightarrow> lex_error name line col e" for ts m
    using that tm [of ts] by (cases "too_many name line col ts") auto
  consider (space) "py_isspace u ch" | (punct) "\<not> py_isspace u ch" "is_punct ch"
    | (quote) "\<not> py_isspace u ch" "\<not> is_punct ch" "ch = c_dquote \<or> ch = c_squote"
    | (other) "\<not> py_isspace u ch" "\<not> is_punct ch" "\<not> (ch = c_dquote \<or> ch = c_squote)"
    by blast
  then show ?case
  proof cases
    case space
    with IH(1,2) 2(7) show ?thesis by (auto simp: tokenize_loop.simps(2) split: if_splits intro: lex_error_later)
  next
    case punct
    show ?thesis
      by (rule go [of "toks @ [mk_token (TPunct ch) [ch] line col]"
            "tokenize_loop u name s line (col + 1) (toks @ [mk_token (TPunct ch) [ch] line col])"])
        (use punct 2(7) IH(3) in \<open>auto simp: tokenize_loop.simps(2) Let_def intro: lex_error_later\<close>)
  next
    case quote
    show ?thesis
    proof (cases "decode_string name ch s line col")
      case (Inl x)
      then have "lex_error name line col x"
        using decode_loop_located [of line line col "col + 1"] by (simp add: decode_string_def)
      with Inl quote 2(7) show ?thesis by (auto simp: tokenize_loop.simps(2))
    next
      case (Inr r)
      obtain v s' l' c' where r: "r = (v, s', l', c')" by (cases r)
      have p: "l' = line \<and> col + 1 < c'"
        using decode_loop_position Inr r unfolding decode_string_def by blast
      have ih: "lex_error name line c' e"
        if "too_many name line col (toks @ [mk_token TString v line col]) = Inr ()"
          "tokenize_loop u name s' l' c' (toks @ [mk_token TString v line col]) = Inl e"
        using IH(4) [OF quote Inr] r that p by fastforce
      show ?thesis
        by (rule go [of "toks @ [mk_token TString v line col]"
              "tokenize_loop u name s' l' c' (toks @ [mk_token TString v line col])"])
          (use quote 2(7) ih Inr r p in
            \<open>auto simp: tokenize_loop.simps(2) Let_def intro: lex_error_later\<close>)
    qed
  next
    case other
    show ?thesis
    proof (cases "py_isdigit u ch")
      case True
      let ?v = "ch # takeWhile (py_isdigit u) s"
      have ih: "lex_error name line (col + int (length ?v)) e"
        if "too_many name line col (toks @ [mk_token TInteger ?v line col]) = Inr ()"
          "tokenize_loop u name (dropWhile (py_isdigit u) s) line (col + int (length ?v)) (toks @ [mk_token TInteger ?v line col]) = Inl e"
        using IH(5) [OF other True] that by fastforce
      show ?thesis
        by (rule go [of "toks @ [mk_token TInteger ?v line col]"
              "tokenize_loop u name (dropWhile (py_isdigit u) s) line (col + int (length ?v)) (toks @ [mk_token TInteger ?v line col])"])
          (use other True 2(7) ih in
            \<open>auto simp: tokenize_loop.simps(2) Let_def intro: lex_error_later\<close>)
    next
      case nd: False
      let ?v = "ch # takeWhile is_ident_char s"
      show ?thesis
      proof (cases "is_ident_start ch")
        case True
        have ih: "lex_error name line (col + int (length ?v)) e"
          if "too_many name line col (toks @ [mk_token TIdentifier ?v line col]) = Inr ()"
            "tokenize_loop u name (dropWhile is_ident_char s) line (col + int (length ?v)) (toks @ [mk_token TIdentifier ?v line col]) = Inl e"
          using IH(6) [OF other nd True] that by fastforce
        show ?thesis
          by (rule go [of "toks @ [mk_token TIdentifier ?v line col]"
                "tokenize_loop u name (dropWhile is_ident_char s) line (col + int (length ?v)) (toks @ [mk_token TIdentifier ?v line col])"])
            (use other nd True 2(7) ih in
              \<open>auto simp: tokenize_loop.simps(2) Let_def intro: lex_error_later\<close>)
      qed (use other nd 2(7) in \<open>auto simp: tokenize_loop.simps(2)\<close>)
    qed
  qed
qed

lemma tokenize_located: "tokenize u name s line col = Inl e \<Longrightarrow> lex_error name line col e"
  by (simp add: tokenize_def tokenize_loop_located)

section \<open>The integers of a source\<close>

definition digit_run :: "unidb \<Rightarrow> pystr \<Rightarrow> pystr \<Rightarrow> bool" where
  "digit_run u source v \<longleftrightarrow> v \<noteq> [] \<and> list_all (py_isdigit u) v \<and> sublist v source"

lemma digit_run_suffix: "digit_run u s' v \<Longrightarrow> suffix s' s \<Longrightarrow> digit_run u s v"
  unfolding digit_run_def using suffix_imp_sublist sublist_order.order.trans by blast

definition integers_from :: "unidb \<Rightarrow> pystr \<Rightarrow> token list \<Rightarrow> bool" where
  "integers_from u source toks \<longleftrightarrow> list_all (\<lambda>t. tk_kind t = TInteger \<longrightarrow> digit_run u source (tk_value t)) toks"

lemma integers_from_append [simp]:
  "integers_from u source (ts @ ts') \<longleftrightarrow> integers_from u source ts \<and> integers_from u source ts'"
  by (simp add: integers_from_def)

lemma tokenize_loop_integers:
  "tokenize_loop u name s line col toks = Inr toks' \<Longrightarrow> suffix s source \<Longrightarrow> integers_from u source toks
    \<Longrightarrow> integers_from u source toks'"
proof (induction u name s line col toks rule: tokenize_loop.induct)
  case (1 u name line col toks)
  then show ?case by (auto simp: tokenize_loop.simps integers_from_def)
next
  case (2 u name ch s line col toks)
  note IH = 2(1-6)
  have s: "suffix s source" using 2(8) by (metis suffix_ConsD)
  have one: "integers_from u source [t]" if "tk_kind t \<noteq> TInteger" for t using that by (simp add: integers_from_def)
  consider (space) "py_isspace u ch" | (punct) "\<not> py_isspace u ch" "is_punct ch"
    | (quote) "\<not> py_isspace u ch" "\<not> is_punct ch" "ch = c_dquote \<or> ch = c_squote"
    | (other) "\<not> py_isspace u ch" "\<not> is_punct ch" "\<not> (ch = c_dquote \<or> ch = c_squote)"
    by blast
  then show ?case
  proof cases
    case space
    with IH(1,2) 2(7,9) s show ?thesis by (auto simp: tokenize_loop.simps(2) split: if_splits)
  next
    case punct
    with IH(3) [OF punct refl] 2(7,9) s one show ?thesis by (auto simp: tokenize_loop.simps(2) Let_def rbind_Inr_iff)
  next
    case quote
    show ?thesis
    proof (cases "decode_string name ch s line col")
      case (Inl x)
      with quote 2(7) show ?thesis by (auto simp: tokenize_loop.simps(2))
    next
      case (Inr r)
      obtain v s' l' c' where r: "r = (v, s', l', c')" by (cases r)
      have "suffix s' s" using decode_loop_position Inr r unfolding decode_string_def by blast
      then have "suffix s' source" using s suffix_order.trans by blast
      with IH(4) [OF quote Inr] quote 2(7,9) Inr r one show ?thesis
        by (auto simp: tokenize_loop.simps(2) Let_def rbind_Inr_iff)
    qed
  next
    case other
    show ?thesis
    proof (cases "py_isdigit u ch")
      case True
      let ?v = "ch # takeWhile (py_isdigit u) s"
      have "prefix ?v (ch # s)" by (simp add: takeWhile_is_prefix)
      then have "sublist ?v source" using 2(8) by (metis prefix_imp_sublist suffix_imp_sublist sublist_order.order.trans)
      then have "digit_run u source ?v" using True set_takeWhileD by (fastforce simp: digit_run_def list_all_iff)
      moreover have "suffix (dropWhile (py_isdigit u) s) source" using s suffix_dropWhile suffix_order.trans by blast
      ultimately show ?thesis
        using IH(5) [OF other True refl refl] other True 2(7,9)
        by (auto simp: tokenize_loop.simps(2) Let_def rbind_Inr_iff integers_from_def)
    next
      case nd: False
      show ?thesis
      proof (cases "is_ident_start ch")
        case True
        have "suffix (dropWhile is_ident_char s) source" using s suffix_dropWhile suffix_order.trans by blast
        then show ?thesis
          using IH(6) [OF other nd True refl refl] other nd True 2(7,9) one
          by (auto simp: tokenize_loop.simps(2) Let_def rbind_Inr_iff)
      qed (use other nd 2(7) in \<open>auto simp: tokenize_loop.simps(2)\<close>)
    qed
  qed
qed

lemma tokenize_integers:
  assumes "tokenize u name s line col = Inr toks"
  shows "integers_from u s toks"
proof (rule tokenize_loop_integers)
  show "tokenize_loop u name s line col [] = Inr toks" using assms by (simp add: tokenize_def)
  show "suffix s s" by simp
  show "integers_from u s []" by (simp add: integers_from_def)
qed

section \<open>The parser\<close>

text \<open>An integer among the tokens that \<open>int()\<close> refuses.\<close>

definition refused_integer :: "unidb \<Rightarrow> token list \<Rightarrow> bool" where
  "refused_integer u toks \<longleftrightarrow> list_ex (\<lambda>t. tk_kind t = TInteger \<and> py_int u (tk_value t) = None) toks"

definition reads_on :: "unidb \<Rightarrow> token list \<Rightarrow> exc + ('a \<times> token list) \<Rightarrow> bool" where
  "reads_on u toks res \<longleftrightarrow>
     (case res of Inl e \<Rightarrow> e = ValueError \<longrightarrow> refused_integer u toks | Inr (x, r) \<Rightarrow> set r \<subseteq> set toks)"

lemma reads_on_mono:
  "reads_on u ts res \<Longrightarrow> set ts \<subseteq> set toks \<Longrightarrow> reads_on u toks res"
  by (auto simp: reads_on_def refused_integer_def list_ex_iff split: sum.splits prod.splits)

lemma reads_on_node:
  "reads_on u toks m \<Longrightarrow> reads_on u toks (rbind m (\<lambda>(vs, r). Inr (f vs, r)))"
  by (auto simp: reads_on_def rbind_def split: sum.splits prod.splits)

lemma reads_on_simps [simp]:
  "reads_on u toks (Inl (ScriptError rs n l c))" "reads_on u toks (Inl IndexError)"
  "reads_on u toks (Inr (x, r)) \<longleftrightarrow> set r \<subseteq> set toks"
  by (simp_all add: reads_on_def)

lemma set_tl: "set (tl ts) \<subseteq> set ts" by (cases ts) auto

lemma parser_reads:
  "reads_on u toks (primary u name depth toks)"
  "reads_on u toks (arguments u name closing depth toks)"
  "reads_on u toks (arg_loop u name closing depth vals toks)"
proof (induction u name depth toks and u name closing depth toks and u name closing depth vals toks
    rule: primary_arguments_arg_loop.induct)
  case (1 u name depth toks)
  show ?case
  proof (cases toks)
    case Nil
    then show ?thesis by (simp add: primary.simps current_def)
  next
    case (Cons t ts)
    then have cur: "current toks = Inr t" by (simp add: current_def)
    have sub: "set ts \<subseteq> set toks" "set (tl ts) \<subseteq> set toks" using Cons set_tl [of ts] by auto
    show ?thesis
    proof (cases "MAX_EXPRESSION_DEPTH < depth")
      case True
      then show ?thesis using cur by (simp add: primary.simps Let_def)
    next
      case False
      show ?thesis
      proof (cases "tk_kind t")
        case (TPunct p)
        show ?thesis
        proof (cases "p = c_lbracket")
          case True
          then have "reads_on u toks (arguments u name c_rbracket depth ts)"
            using 1(1) [OF cur refl refl refl False TPunct True] reads_on_mono [OF _ sub(1)] Cons by simp
          from reads_on_node [OF this] show ?thesis using cur False TPunct True Cons by (simp add: primary.simps)
        qed (use cur False TPunct in \<open>simp add: primary.simps\<close>)
      next
        case TIdentifier
        show ?thesis
        proof (cases "keyword_literal (py_casefold u (tk_value t))")
          case None
          show ?thesis
          proof (cases ts)
            case Nil
            then show ?thesis using cur False TIdentifier None Cons by (simp add: primary.simps current_def)
          next
            case t2: (Cons t2 ts2)
            then have c2: "current ts = Inr t2" by (simp add: current_def)
            show ?thesis
            proof (cases "tk_kind t2 = TPunct c_lparen")
              case True
              then have "reads_on u toks (arguments u name c_rparen depth ts2)"
                using 1(2) [OF cur refl refl refl False TIdentifier None, of t2] reads_on_mono [OF _ sub(2)] Cons t2 c2 by simp
              from reads_on_node [OF this] show ?thesis
                using cur False TIdentifier None True Cons t2 c2 by (simp add: primary.simps)
            qed (use cur False TIdentifier None Cons t2 c2 sub in \<open>simp add: primary.simps\<close>)
          qed
        qed (use cur False TIdentifier Cons sub in \<open>simp add: primary.simps\<close>)
      next
        case TInteger
        then show ?thesis
          using cur False Cons sub
          by (auto simp: primary.simps Let_def reads_on_def refused_integer_def split: option.splits)
      qed (use cur False Cons sub in \<open>simp_all add: primary.simps\<close>)
    qed
  qed
next
  case (2 u name closing depth toks)
  then show ?case
    using set_tl [of toks] by (cases toks) (auto simp: arguments.simps current_def)
next
  case (3 u name closing depth vals toks)
  show ?case
  proof (cases "primary u name (Suc depth) toks")
    case (Inl e)
    with 3(1) show ?thesis by (simp add: arg_loop.simps reads_on_def)
  next
    case (Inr vr)
    obtain v r where vr: "vr = (v, r)" by (cases vr)
    with 3(1) Inr have r: "set r \<subseteq> set toks" by (simp add: reads_on_def)
    show ?thesis
    proof (cases r)
      case Nil
      then show ?thesis using Inr vr by (simp add: arg_loop.simps current_def)
    next
      case (Cons t ts)
      then have c: "current r = Inr t" by (simp add: current_def)
      have sub: "set ts \<subseteq> set toks" using r Cons by auto
      have "reads_on u toks (arg_loop u name closing depth (vals @ [v]) ts)"
        if "\<not> MAX_LIST_VALUES < length (vals @ [v])" "tk_kind t \<noteq> TPunct closing" "\<not> tk_kind t \<noteq> TPunct c_comma"
        using 3(2) [OF Inr vr [symmetric] c that] reads_on_mono [OF _ sub] Cons by simp
      then show ?thesis using Inr vr c Cons sub by (auto simp: arg_loop.simps)
    qed
  qed
qed

lemma compile_value_error:
  assumes "compile_expression u name source line col = Inl ValueError"
  shows "\<exists>v. digit_run u source v \<and> py_int u v = None"
proof -
  have nl: "tokenize u name source line col \<noteq> Inl ValueError"
    using tokenize_located [of u name source line col ValueError] by (auto simp: lex_error_def)
  have nc: "check_nodes u name es \<noteq> Inl ValueError" for es
  proof (induction es)
    case (Cons e es)
    then show ?case using check_node_cases [of u name e] by (auto simp: rbind_Inl_iff)
  qed simp
  obtain toks where t: "tokenize u name source line col = Inr toks" "parse_tokens u name toks = Inl ValueError"
    using assms nl nc by (auto simp: compile_expression_def rbind_Inl_iff split: if_splits)
  have "primary u name 1 toks = Inl ValueError"
    using t(2) by (auto simp: parse_tokens_def rbind_Inl_iff current_def split: if_splits list.splits)
  then have "refused_integer u toks" using parser_reads(1) [of u toks name 1] by (simp add: reads_on_def)
  then show ?thesis
    using tokenize_integers [OF t(1)] by (auto simp: refused_integer_def integers_from_def list_ex_iff list_all_iff)
qed

end
