(* ===== verification/Script_Eval.thy ===== *)
theory Script_Eval
  imports Script_Parser
begin

text \<open>
  Evaluation of compiled expressions (\<open>core/management_script_language.py\<close>): the budget,
  the coercions \<open>_is_empty\<close>, \<open>_text\<close> and \<open>_integer\<close>, the safe functions \<open>_call\<close>, and
  \<open>evaluate_expression\<close>. The budget is state: it is passed and returned. An exception
  ends the script, and with it the use of its budget.
\<close>

section \<open>The budget\<close>

record budget =
  bg_script :: pystr
  bg_steps :: nat
  bg_output :: nat

definition new_budget :: "pystr \<Rightarrow> budget" where
  "new_budget name = \<lparr>bg_script = name, bg_steps = 0, bg_output = 0\<rparr>"

text \<open>\<open>_error\<close> at an expression, with the budget's script name.\<close>

definition err_at :: "budget \<Rightarrow> expr \<Rightarrow> reason \<Rightarrow> exc" where
  "err_at b e r = ScriptError r (bg_script b) (expr_line e) (expr_column e)"

definition consume :: "expr \<Rightarrow> budget \<Rightarrow> exc + budget" where
  "consume e b =
     (let b' = b\<lparr>bg_steps := bg_steps b + 1\<rparr>
      in if MAX_RUNTIME_STEPS < bg_steps b' then Inl (err_at b' e (Eval StepLimit)) else Inr b')"

definition value_size :: "sval \<Rightarrow> nat" where
  "value_size v =
     (case v of VStr s \<Rightarrow> length s | VTup xs \<Rightarrow> sum_list (map length xs) | _ \<Rightarrow> 0)"

definition value_texts :: "sval \<Rightarrow> pystr list" where
  "value_texts v = (case v of VStr s \<Rightarrow> [s] | VTup xs \<Rightarrow> xs | _ \<Rightarrow> [])"

definition value_count :: "sval \<Rightarrow> nat" where
  "value_count v = (case v of VTup xs \<Rightarrow> length xs | _ \<Rightarrow> 0)"

definition unsafe_text :: "pystr \<Rightarrow> bool" where
  "unsafe_text s \<longleftrightarrow> list_ex (\<lambda>c. c = 0) s \<or> list_ex is_surrogate s"

definition account :: "expr \<Rightarrow> sval \<Rightarrow> budget \<Rightarrow> exc + (sval \<times> budget)" where
  "account e v b =
     (if MAX_LIST_VALUES < value_count v then Inl (err_at b e (Eval TooManyValues))
      else if list_ex unsafe_text (value_texts v) then Inl (err_at b e (Eval UnsafeText))
      else if MAX_VALUE_CHARACTERS < value_size v then Inl (err_at b e (Eval ValueTooLong))
      else (let b' = b\<lparr>bg_output := bg_output b + value_size v\<rparr>
            in if MAX_TOTAL_OUTPUT_CHARACTERS < bg_output b'
               then Inl (err_at b' e (Eval OutputLimit)) else Inr (v, b')))"

section \<open>Coercions\<close>

definition value_is_empty :: "sval \<Rightarrow> bool" where
  "value_is_empty v \<longleftrightarrow> v = VNone \<or> v = VStr [] \<or> v = VTup []"

fun truthy :: "sval \<Rightarrow> bool" where
  "truthy VNone = False"
| "truthy (VBool b) = b"
| "truthy (VInt n) = (n \<noteq> 0)"
| "truthy (VStr s) = (s \<noteq> [])"
| "truthy (VTup xs) = (xs \<noteq> [])"

text \<open>Python's \<open>==\<close>: a \<open>bool\<close> is an \<open>int\<close>.\<close>

fun as_number :: "sval \<Rightarrow> int option" where
  "as_number (VBool b) = Some (if b then 1 else 0)"
| "as_number (VInt n) = Some n"
| "as_number v = None"

definition py_equal :: "sval \<Rightarrow> sval \<Rightarrow> bool" where
  "py_equal v w =
     (case (as_number v, as_number w) of
        (Some m, Some n) \<Rightarrow> m = n
      | _ \<Rightarrow> v = w)"

fun text_of :: "sval \<Rightarrow> pystr" where
  "text_of VNone = []"
| "text_of (VBool b) = (if b then lit ''true'' else lit ''false'')"
| "text_of (VTup xs) = py_join (lit ''; '') xs"
| "text_of (VInt n) = py_str_int n"
| "text_of (VStr s) = s"

definition integer_of :: "unidb \<Rightarrow> sval \<Rightarrow> expr \<Rightarrow> budget \<Rightarrow> exc + int" where
  "integer_of u v e b =
     (case v of
        VInt n \<Rightarrow> Inr n
      | VStr s \<Rightarrow> (case py_int u s of None \<Rightarrow> Inl (err_at b e (Eval NeedsInteger)) | Some n \<Rightarrow> Inr n)
      | _ \<Rightarrow> Inl (err_at b e (Eval NeedsInteger)))"

text \<open>The pattern \<open>_INVALID_PATH_CHARACTERS\<close>.\<close>

definition invalid_path_char :: "cp \<Rightarrow> bool" where
  "invalid_path_char c \<longleftrightarrow>
     c < 32 \<or> c = 127 \<or> List.member (lit ''<>:/|?*'') c \<or> c = c_dquote \<or> c = c_backslash"

section \<open>The safe functions\<close>

definition arity :: "pystr \<Rightarrow> nat \<Rightarrow> nat \<Rightarrow> nat \<Rightarrow> expr \<Rightarrow> budget \<Rightarrow> exc + unit" where
  "arity name n mn mx e b = check (mn \<le> n \<and> n \<le> mx) (err_at b e (Parse (BadArity name mn mx)))"

definition slice_value :: "int \<Rightarrow> int option \<Rightarrow> sval \<Rightarrow> sval" where
  "slice_value start stop v =
     (case v of
        VTup xs \<Rightarrow> VTup (py_slice start stop xs)
      | _ \<Rightarrow> VStr (py_slice start stop (text_of v)))"

definition first_value :: "sval \<Rightarrow> sval" where
  "first_value v = (case v of VTup (x # xs) \<Rightarrow> VStr x | _ \<Rightarrow> v)"

definition contains_value :: "sval \<Rightarrow> sval \<Rightarrow> bool" where
  "contains_value container needle =
     (case container of
        VTup xs \<Rightarrow> List.member xs (text_of needle)
      | _ \<Rightarrow> py_in (text_of needle) (text_of container))"

definition join_value :: "pystr \<Rightarrow> sval \<Rightarrow> pystr" where
  "join_value sep v = (case v of VTup xs \<Rightarrow> py_join sep xs | _ \<Rightarrow> text_of v)"

fun sort_name :: "unidb \<Rightarrow> pystr list \<Rightarrow> pystr \<Rightarrow> pystr" where
  "sort_name u [] text = text"
| "sort_name u (article # rest) text =
     (if py_startswith (py_casefold u text) (py_casefold u article)
      then drop (length article) text @ lit '', '' @ take (length article - 1) text
      else sort_name u rest text)"

definition ascii_fold :: "unidb \<Rightarrow> pystr \<Rightarrow> pystr" where
  "ascii_fold u s = filter (\<lambda>c. c < 128) (py_nfkd u s)"

text \<open>The argument at an index; the arity check comes before every use.\<close>

definition arg :: "sval list \<Rightarrow> nat \<Rightarrow> sval" where
  "arg vs i = (if i < length vs then vs ! i else VNone)"

definition call_function ::
  "unidb \<Rightarrow> pystr \<Rightarrow> expr \<Rightarrow> sval list \<Rightarrow> budget \<Rightarrow> exc + sval" where
  "call_function u f e vs b =
    (let name = py_casefold u f; n = length vs; v0 = arg vs 0; v1 = arg vs 1; v2 = arg vs 2;
         ar = (\<lambda>mn mx. arity name n mn mx e b) in
     if \<not> List.member SAFE_FUNCTION_NAMES name then Inl (err_at b e (Parse (UnknownFunction f)))
     else if name = lit ''default'' \<or> name = lit ''fallback'' then
       rbind (ar 1 MAX_LIST_VALUES) (\<lambda>_.
         Inr (case List.find (\<lambda>v. \<not> value_is_empty v) vs of None \<Rightarrow> VNone | Some v \<Rightarrow> v))
     else if name = lit ''if'' \<or> name = lit ''conditional'' then
       rbind (ar 3 3) (\<lambda>_. Inr (if truthy v0 then v1 else v2))
     else if name = lit ''equals'' \<or> name = lit ''eq'' then
       rbind (ar 2 2) (\<lambda>_. Inr (VBool (py_equal v0 v1)))
     else if name = lit ''contains'' then
       rbind (ar 2 2) (\<lambda>_. Inr (VBool (contains_value v0 v1)))
     else if name = lit ''replace'' then
       rbind (ar 3 3) (\<lambda>_. Inr (VStr (py_replace (text_of v0) (text_of v1) (text_of v2))))
     else if name = lit ''slice'' then
       rbind (ar 2 3) (\<lambda>_.
         rbind (integer_of u v1 e b) (\<lambda>start.
           if n = 3
           then rbind (integer_of u v2 e b) (\<lambda>stop. Inr (slice_value start (Some stop) v0))
           else Inr (slice_value start None v0)))
     else if name = lit ''pad'' then
       rbind (ar 2 3) (\<lambda>_.
         rbind (integer_of u v1 e b) (\<lambda>width.
           let fill = (if n = 3 then text_of v2 else lit ''0'')
           in if width < 0 \<or> 1024 < width \<or> length fill \<noteq> 1 then Inl (err_at b e (Eval BadPad))
              else Inr (VStr (py_rjust width (hd fill) (text_of v0)))))
     else if name = lit ''lower'' then
       rbind (ar 1 1) (\<lambda>_. Inr (VStr (py_lower u (text_of v0))))
     else if name = lit ''upper'' then
       rbind (ar 1 1) (\<lambda>_. Inr (VStr (py_upper u (text_of v0))))
     else if name = lit ''title'' then
       rbind (ar 1 1) (\<lambda>_. Inr (VStr (py_title u (text_of v0))))
     else if name = lit ''first'' then
       rbind (ar 1 1) (\<lambda>_. Inr (first_value v0))
     else if name = lit ''join'' then
       rbind (ar 1 2) (\<lambda>_.
         Inr (VStr (join_value (if n = 2 then text_of v1 else lit ''; '') v0)))
     else if name = lit ''sortname'' \<or> name = lit ''sort_name'' then
       rbind (ar 1 1) (\<lambda>_.
         Inr (VStr (sort_name u [lit ''The '', lit ''An '', lit ''A '']
                      (py_strip u (text_of v0)))))
     else if name = lit ''asciifold'' \<or> name = lit ''ascii_fold'' then
       rbind (ar 1 1) (\<lambda>_. Inr (VStr (ascii_fold u (text_of v0))))
     else if name = lit ''pathsafe'' \<or> name = lit ''path_safe'' then
       rbind (ar 1 2) (\<lambda>_.
         let replacement = (if n = 2 then text_of v1 else lit ''_'')
         in if length replacement \<noteq> 1 \<or> List.member [c_slash, c_backslash, 0] (hd replacement)
            then Inl (err_at b e (Eval BadPathSafe))
            else Inr (VStr (map (\<lambda>c. if invalid_path_char c then hd replacement else c)
                              (text_of v0))))
     else if name = lit ''concat'' then
       rbind (ar 1 MAX_LIST_VALUES) (\<lambda>_. Inr (VStr (concat (map text_of vs))))
     else if name = lit ''not'' then
       rbind (ar 1 1) (\<lambda>_. Inr (VBool (\<not> truthy v0)))
     else if name = lit ''all'' \<or> name = lit ''and'' then
       rbind (ar 1 MAX_LIST_VALUES) (\<lambda>_. Inr (VBool (list_all truthy vs)))
     else if name = lit ''any'' \<or> name = lit ''or'' then
       rbind (ar 1 MAX_LIST_VALUES) (\<lambda>_. Inr (VBool (list_ex truthy vs)))
     else if name = lit ''is_empty'' \<or> name = lit ''empty'' then
       rbind (ar 1 1) (\<lambda>_. Inr (VBool (value_is_empty v0)))
     else Inl (err_at b e (Eval NotImplementedFunction)))"

section \<open>Evaluation\<close>

type_synonym variables = "(pystr, sval) odict"

definition variable_value :: "variables \<Rightarrow> pystr \<Rightarrow> sval" where
  "variable_value vars x = (case dict_get vars x of None \<Rightarrow> VNone | Some v \<Rightarrow> v)"

fun evaluate :: "unidb \<Rightarrow> variables \<Rightarrow> expr \<Rightarrow> budget \<Rightarrow> exc + (sval \<times> budget)"
and evaluate_all ::
  "unidb \<Rightarrow> variables \<Rightarrow> expr list \<Rightarrow> budget \<Rightarrow> exc + (sval list \<times> budget)"
where
  "evaluate u vars (ELiteral v l c) b =
     rbind (consume (ELiteral v l c) b) (account (ELiteral v l c) v)"
| "evaluate u vars (EVariable x l c) b =
     rbind (consume (EVariable x l c) b) (account (EVariable x l c) (variable_value vars x))"
| "evaluate u vars (EList es l c) b =
     rbind (consume (EList es l c) b) (\<lambda>b1.
       rbind (evaluate_all u vars es b1) (\<lambda>(vs, b2).
         account (EList es l c) (VTup (map text_of vs)) b2))"
| "evaluate u vars (ECall f es l c) b =
     rbind (consume (ECall f es l c) b) (\<lambda>b1.
       rbind (evaluate_all u vars es b1) (\<lambda>(vs, b2).
         rbind (call_function u f (ECall f es l c) vs b2) (\<lambda>v.
           account (ECall f es l c) v b2)))"
| "evaluate_all u vars [] b = Inr ([], b)"
| "evaluate_all u vars (e # es) b =
     rbind (evaluate u vars e b) (\<lambda>(v, b1).
       rbind (evaluate_all u vars es b1) (\<lambda>(vs, b2). Inr (v # vs, b2)))"

section \<open>What evaluation promises\<close>

definition value_ok :: "sval \<Rightarrow> bool" where
  "value_ok v \<longleftrightarrow>
     value_count v \<le> MAX_LIST_VALUES \<and> value_size v \<le> MAX_VALUE_CHARACTERS
       \<and> list_all (\<lambda>s. \<not> unsafe_text s) (value_texts v)"

definition budget_ok :: "budget \<Rightarrow> bool" where
  "budget_ok b \<longleftrightarrow>
     bg_steps b \<le> MAX_RUNTIME_STEPS \<and> bg_output b \<le> MAX_TOTAL_OUTPUT_CHARACTERS"

lemma consume_Inr:
  "consume e b = Inr b' \<longleftrightarrow>
     bg_steps b < MAX_RUNTIME_STEPS \<and> b' = b\<lparr>bg_steps := bg_steps b + 1\<rparr>"
  by (auto simp: consume_def Let_def)

lemma account_Inr:
  "account e v b = Inr (w, b') \<longleftrightarrow>
     w = v \<and> value_ok v \<and> bg_output b + value_size v \<le> MAX_TOTAL_OUTPUT_CHARACTERS
       \<and> b' = b\<lparr>bg_output := bg_output b + value_size v\<rparr>"
  by (auto simp: account_def value_ok_def Let_def list_ex_iff list_all_iff)

text \<open>What a successful evaluation has done to its budget.\<close>

definition spent :: "nat \<Rightarrow> budget \<Rightarrow> budget \<Rightarrow> bool" where
  "spent n b b' \<longleftrightarrow>
     bg_script b' = bg_script b \<and> bg_steps b' = bg_steps b + n \<and> bg_output b \<le> bg_output b'
       \<and> (budget_ok b \<longrightarrow> budget_ok b')"

lemma spent_refl: "spent 0 b b"
  by (simp add: spent_def)

lemma spent_trans: "spent m b b1 \<Longrightarrow> spent n b1 b2 \<Longrightarrow> k = m + n \<Longrightarrow> spent k b b2"
  by (auto simp: spent_def)

lemma spent_consume: "consume e b = Inr b' \<Longrightarrow> spent 1 b b'"
  by (auto simp: consume_Inr spent_def budget_ok_def)

lemma spent_account: "account e v b = Inr (w, b') \<Longrightarrow> spent 0 b b'"
  by (auto simp: account_Inr spent_def budget_ok_def)

lemma spent_node:
  assumes "consume e b = Inr b1" and "spent n b1 b2" and "account e w b2 = Inr (v, b')"
  shows "spent (Suc n) b b' \<and> value_ok v"
proof -
  have "spent (1 + n) b b2"
    by (rule spent_trans [OF spent_consume [OF assms(1)] assms(2) refl])
  then have "spent (1 + n) b b'"
    by (rule spent_trans [OF _ spent_account [OF assms(3)]]) simp
  with assms(3) show ?thesis by (simp add: account_Inr)
qed

lemma spent_leaf:
  assumes "rbind (consume e b) (account e w) = Inr (v, b')"
  shows "spent (Suc 0) b b' \<and> value_ok v"
  using assms by (auto simp: rbind_Inr_iff dest: spent_node [OF _ spent_refl])

lemma evaluate_spent:
  "evaluate u vars e b = Inr (v, b') \<Longrightarrow> spent (nodes e) b b' \<and> value_ok v"
  "evaluate_all u vars es b = Inr (vs, b') \<Longrightarrow>
     spent (nodes_all es) b b' \<and> length vs = length es \<and> list_all value_ok vs"
proof (induction u vars e b and u vars es b arbitrary: v b' and vs b'
    rule: evaluate_evaluate_all.induct)
  case (1 u vars v l c b)
  then show ?case by (simp add: spent_leaf)
next
  case (2 u vars x l c b)
  then show ?case by (simp add: spent_leaf)
next
  case (3 u vars es l c b)
  from 3(2) obtain b1 vs b2 where "consume (EList es l c) b = Inr b1"
    "evaluate_all u vars es b1 = Inr (vs, b2)"
    "account (EList es l c) (VTup (map text_of vs)) b2 = Inr (v, b')"
    by (auto simp: rbind_Inr_iff)
  with 3(1) show ?case by (auto dest: spent_node)
next
  case (4 u vars f es l c b)
  from 4(2) obtain b1 vs b2 w where "consume (ECall f es l c) b = Inr b1"
    "evaluate_all u vars es b1 = Inr (vs, b2)"
    "account (ECall f es l c) w b2 = Inr (v, b')"
    by (auto simp: rbind_Inr_iff)
  with 4(1) show ?case by (auto dest: spent_node)
next
  case (5 u vars b)
  then show ?case by (simp add: spent_refl)
next
  case (6 u vars e es b)
  from 6(3) obtain v b1 vs' where *: "evaluate u vars e b = Inr (v, b1)"
    "evaluate_all u vars es b1 = Inr (vs', b')" "vs = v # vs'"
    by (auto simp: rbind_Inr_iff)
  with 6(1)[OF *(1)] 6(2)[OF *(1) refl *(2)] show ?case by (auto intro: spent_trans)
qed

text \<open>
  \<open>bad n b x\<close>: the error \<open>x\<close> is a run-time error of the script of \<open>b\<close>, and the step limit
  is reported only when \<open>n\<close> more steps would pass it.
\<close>

definition bad :: "nat \<Rightarrow> budget \<Rightarrow> exc \<Rightarrow> bool" where
  "bad n b x \<longleftrightarrow>
     (\<exists>r l c. x = ScriptError (Eval r) (bg_script b) l c \<and> r \<noteq> NotImplementedFunction
        \<and> (r = StepLimit \<longrightarrow> MAX_RUNTIME_STEPS < bg_steps b + n))"

lemma bad_iff:
  "bad n b (ScriptError (Eval r) s l c) \<longleftrightarrow>
     s = bg_script b \<and> r \<noteq> NotImplementedFunction
       \<and> (r = StepLimit \<longrightarrow> MAX_RUNTIME_STEPS < bg_steps b + n)"
  by (auto simp: bad_def)

lemma bad_integer_of: "integer_of u v e b = Inl x \<Longrightarrow> bad 0 b x"
  by (auto simp: integer_of_def err_at_def bad_iff split: sval.splits option.splits)

lemma call_function_error:
  assumes ok: "node_ok u (ECall f es l c)" and len: "length vs = length es"
    and err: "call_function u f (ECall f es l c) vs b = Inl x"
  shows "bad 0 b x"
proof -
  define name where "name = py_casefold u f"
  from ok obtain mn mx where "(name, mn, mx) \<in> set SAFE_FUNCTION_ARITY"
    and "mn \<le> length vs" "length vs \<le> mx"
    by (auto simp: node_ok_def name_def len split: option.splits dest: map_of_SomeD)
  then show ?thesis
    using err unfolding SAFE_FUNCTION_ARITY_def call_function_def Let_def name_def [symmetric]
    by (simp only: list.set insert_iff empty_iff simp_thms prod.inject)
       (elim disjE conjE; auto simp: SAFE_FUNCTION_NAMES_def arity_def err_at_def rbind_Inl_iff
         check_def bad_iff dest!: bad_integer_of split: if_splits)
qed

lemma bad_consume: "consume e b = Inl x \<Longrightarrow> bad (Suc n) b x"
  by (auto simp: consume_def err_at_def Let_def bad_iff split: if_splits)

lemma bad_account: "account e v b = Inl x \<Longrightarrow> bad n b x"
  by (auto simp: account_def err_at_def Let_def bad_iff split: if_splits)

lemma bad_after: "bad n b1 x \<Longrightarrow> spent m b b1 \<Longrightarrow> m + n \<le> k \<Longrightarrow> bad k b x"
  by (auto simp: bad_def spent_def)

lemma evaluate_error:
  "evaluate u vars e b = Inl x \<Longrightarrow> list_all (node_ok u) (walk_expressions e) \<Longrightarrow>
     bad (nodes e) b x"
  "evaluate_all u vars es b = Inl x \<Longrightarrow>
     list_all (node_ok u) (concat (map walk_expressions es)) \<Longrightarrow> bad (nodes_all es) b x"
proof (induction u vars e b and u vars es b arbitrary: x and x
    rule: evaluate_evaluate_all.induct)
  case (1 u vars v l c b)
  then show ?case by (auto simp: rbind_Inl_iff dest: bad_consume bad_after [OF bad_account spent_consume])
next
  case (2 u vars y l c b)
  then show ?case by (auto simp: rbind_Inl_iff dest: bad_consume bad_after [OF bad_account spent_consume])
next
  case (3 u vars es l c b)
  show ?case
  proof (cases "consume (EList es l c) b")
    case (Inl a)
    with 3(2) show ?thesis by (auto dest: bad_consume)
  next
    case (Inr b1)
    note s1 = spent_consume [OF this]
    show ?thesis
    proof (cases "evaluate_all u vars es b1")
      case (Inl a)
      with 3(1)[OF Inr] 3(2,3) Inr have "bad (nodes_all es) b1 x" by simp
      then show ?thesis using s1 by (rule bad_after) simp
    next
      case all: (Inr r)
      obtain vs b2 where r: "r = (vs, b2)" by (cases r)
      from evaluate_spent(2) [OF all [unfolded r]] s1 have "spent (Suc (nodes_all es)) b b2"
        by (auto intro: spent_trans)
      with 3(2) Inr all r show ?thesis by (auto intro: bad_after [OF bad_account])
    qed
  qed
next
  case (4 u vars f es l c b)
  show ?case
  proof (cases "consume (ECall f es l c) b")
    case (Inl a)
    with 4(2) show ?thesis by (auto dest: bad_consume)
  next
    case (Inr b1)
    note s1 = spent_consume [OF this]
    show ?thesis
    proof (cases "evaluate_all u vars es b1")
      case (Inl a)
      with 4(1)[OF Inr] 4(2,3) Inr have "bad (nodes_all es) b1 x" by simp
      then show ?thesis using s1 by (rule bad_after) simp
    next
      case all: (Inr r)
      obtain vs b2 where r: "r = (vs, b2)" by (cases r)
      from evaluate_spent(2) [OF all [unfolded r]] s1
      have s2: "spent (Suc (nodes_all es)) b b2" and len: "length vs = length es"
        by (auto intro: spent_trans)
      show ?thesis
      proof (cases "call_function u f (ECall f es l c) vs b2")
        case (Inl y)
        from call_function_error [OF _ len Inl] 4(3) have "bad 0 b2 y" by simp
        with 4(2) Inr all r Inl s2 show ?thesis by (auto intro: bad_after)
      next
        case call: (Inr w)
        with 4(2) Inr all r s2 show ?thesis by (auto intro: bad_after [OF bad_account])
      qed
    qed
  qed
next
  case (5 u vars b)
  then show ?case by simp
next
  case (6 u vars e es b)
  show ?case
  proof (cases "evaluate u vars e b")
    case (Inl a)
    with 6 show ?thesis by (auto intro: bad_after [OF _ spent_refl])
  next
    case (Inr r)
    obtain v b1 where r: "r = (v, b1)" by (cases r)
    with Inr have "spent (nodes e) b b1" using evaluate_spent(1) by blast
    moreover from 6(2)[OF Inr r [symmetric]] 6(3,4) Inr r have "bad (nodes_all es) b1 x"
      by (auto simp: rbind_Inl_iff)
    ultimately show ?thesis by (auto intro: bad_after)
  qed
qed
end
