(* ===== verification/Script_Template.thy ===== *)
theory Script_Template
  imports Script_Parser
begin

text \<open>
  Naming templates (\<open>compile_naming_template\<close> of \<open>core/management_script_language.py\<close>):
  literal text with expressions in braces. The loop's index into the source is kept as the
  parts of the source it separates: \<open>before\<close> is \<open>source[:literal_start]\<close>, \<open>pending\<close> is
  \<open>source[literal_start:position]\<close> and the last argument is the rest.
\<close>

section \<open>The compiler\<close>

datatype segment =
    SegLiteral pystr int int
  | SegExpression expr int int
  | SegLegacy pystr "pystr option" int int

definition is_word_char :: "cp \<Rightarrow> bool" where
  "is_word_char c \<longleftrightarrow> is_alpha_ascii c \<or> is_digit_ascii c \<or> c = c_underscore"

text \<open>The pattern \<open>([A-Za-z_][A-Za-z0-9_]*)(?::([^{}]+))?\<close>, matched against the whole text.\<close>

definition legacy_match :: "pystr \<Rightarrow> (pystr \<times> pystr option) option" where
  "legacy_match body =
     (case body of
        [] \<Rightarrow> None
      | c # s \<Rightarrow>
          if \<not> is_ident_start c then None
          else (let var = c # takeWhile is_word_char s in
                case dropWhile is_word_char s of
                  [] \<Rightarrow> Some (var, None)
                | d # fmt \<Rightarrow>
                    if d = c_colon \<and> fmt \<noteq> [] \<and> list_all (\<lambda>x. x \<noteq> c_lbrace \<and> x \<noteq> c_rbrace) fmt
                    then Some (var, Some fmt) else None))"

definition count_newlines :: "pystr \<Rightarrow> int" where
  "count_newlines s = int (length (filter (\<lambda>c. c = c_newline) s))"

text \<open>\<open>source.rfind("\n", 0, n)\<close> on the first \<open>n\<close> characters.\<close>

fun last_break :: "pystr \<Rightarrow> int \<Rightarrow> int \<Rightarrow> int" where
  "last_break [] i found = found"
| "last_break (c # s) i found = last_break s (i + 1) (if c = c_newline then i else found)"

definition literal_segment :: "pystr \<Rightarrow> pystr \<Rightarrow> segment" where
  "literal_segment before literal =
     SegLiteral literal (count_newlines before + 1)
       (int (length before) - last_break before 0 (- 1))"

definition flush :: "pystr \<Rightarrow> pystr \<Rightarrow> segment list \<Rightarrow> segment list" where
  "flush before pending segs =
     (if pending = [] then segs else segs @ [literal_segment before pending])"

definition next_column :: "pystr \<Rightarrow> int \<Rightarrow> int" where
  "next_column consumed column =
     (if List.member consumed c_newline
      then int (length (takeWhile (\<lambda>c. c \<noteq> c_newline) (rev consumed))) + 1
      else column + int (length consumed))"

definition brace_segment ::
  "unidb \<Rightarrow> pystr \<Rightarrow> pystr \<Rightarrow> int \<Rightarrow> int \<Rightarrow> exc + segment" where
  "brace_segment u name inner line column =
     (let body = py_strip u inner;
          body_column = column + 1 + int (length inner) - int (length (py_lstrip u inner))
      in if body = [] then Inl (ScriptError (Template NamingExpressionEmpty) name line column)
         else (case legacy_match body of
                 Some (var, fmt) \<Rightarrow> Inr (SegLegacy var fmt line column)
               | None \<Rightarrow>
                   rbind (compile_expression u name body line body_column)
                     (\<lambda>e. Inr (SegExpression e line column))))"

lemma split_first_shorter: "split_first d s = Some (a, b) \<Longrightarrow> length b < length s"
  by (auto dest: split_first_Some)

function template_loop ::
  "unidb \<Rightarrow> pystr \<Rightarrow> pystr \<Rightarrow> pystr \<Rightarrow> int \<Rightarrow> int \<Rightarrow> segment list \<Rightarrow> pystr \<Rightarrow> exc + segment list"
where
  "template_loop u name before pending line column segs [] = Inr (flush before pending segs)"
| "template_loop u name before pending line column segs (c # s) =
     (if c = c_rbrace then Inl (ScriptError (Template UnexpectedBrace) name line column)
      else if c \<noteq> c_lbrace
      then (if c = c_newline
            then template_loop u name before (pending @ [c]) (line + 1) 1 segs s
            else template_loop u name before (pending @ [c]) line (column + 1) segs s)
      else (case split_first c_rbrace s of
              None \<Rightarrow> Inl (ScriptError (Template BraceNotClosed) name line column)
            | Some (inner, rest) \<Rightarrow>
                rbind (brace_segment u name inner line column) (\<lambda>seg.
                  let consumed = c_lbrace # inner @ [c_rbrace]
                  in template_loop u name (before @ pending @ consumed) []
                       (line + count_newlines consumed) (next_column consumed column)
                       (flush before pending segs @ [seg]) rest)))"
  by pat_completeness auto
termination
  by (relation "measure (\<lambda>(_, _, _, _, _, _, _, s). length s)") (auto dest: split_first_shorter)

declare template_loop.simps [simp del]

definition compile_naming_template :: "unidb \<Rightarrow> pystr \<Rightarrow> pystr \<Rightarrow> exc + segment list" where
  "compile_naming_template u name source =
     (if MAX_SOURCE_CHARACTERS < length source
      then Inl (ScriptError (Template NamingTooLong) name 1 1)
      else if source = [] then Inl (ScriptError (Template NamingEmpty) name 1 1)
      else template_loop u name [] [] 1 1 [] source)"

section \<open>What the compiler promises\<close>

text \<open>Specification of the literal text: the source without its brace groups.\<close>

function outside_braces :: "pystr \<Rightarrow> pystr" where
  "outside_braces [] = []"
| "outside_braces (c # s) =
     (if c \<noteq> c_lbrace then c # outside_braces s
      else (case split_first c_rbrace s of None \<Rightarrow> [] | Some (_, rest) \<Rightarrow> outside_braces rest))"
  by pat_completeness auto
termination
  by (relation "measure length") (auto dest: split_first_shorter)

definition segment_text :: "segment \<Rightarrow> pystr" where
  "segment_text seg = (case seg of SegLiteral s l c \<Rightarrow> s | _ \<Rightarrow> [])"

definition segment_ok :: "unidb \<Rightarrow> segment \<Rightarrow> bool" where
  "segment_ok u seg =
     (case seg of
        SegLiteral s l c \<Rightarrow> s \<noteq> [] \<and> c_lbrace \<notin> set s \<and> c_rbrace \<notin> set s
      | SegExpression e l c \<Rightarrow> compiled u e
      | SegLegacy var fmt l c \<Rightarrow> var \<noteq> [] \<and> list_all is_word_char var \<and> fmt \<noteq> Some [])"

text \<open>Two literals are never adjacent: the literal text between two expressions is one segment.\<close>

fun alternating :: "segment list \<Rightarrow> bool" where
  "alternating (a # b # segs) \<longleftrightarrow>
     \<not> (segment_text a \<noteq> [] \<and> segment_text b \<noteq> []) \<and> alternating (b # segs)"
| "alternating _ \<longleftrightarrow> True"

lemma ident_start_word: "is_ident_start c \<Longrightarrow> is_word_char c"
  by (auto simp: is_ident_start_def is_word_char_def)

lemma takeWhile_all: "list_all p (takeWhile p s)"
  by (auto simp: list_all_iff dest: set_takeWhileD)

lemma legacy_match_ok:
  "legacy_match body = Some (var, fmt) \<Longrightarrow> segment_ok u (SegLegacy var fmt l c)"
  by (auto simp: legacy_match_def segment_ok_def Let_def ident_start_word takeWhile_all
      split: list.splits if_splits)

lemma brace_segment_ok:
  "brace_segment u name inner line column = Inr seg \<Longrightarrow> segment_ok u seg \<and> segment_text seg = []"
  by (auto simp: brace_segment_def Let_def rbind_Inr_iff segment_text_def legacy_match_ok
      segment_ok_def [of u "SegExpression _ _ _"] split: if_splits option.splits
      dest: compile_expression_Inr)

lemma brace_segment_error: "brace_segment u name inner line column = Inl x \<Longrightarrow> script_exc name x"
  by (auto simp: brace_segment_def Let_def rbind_Inl_iff split: if_splits option.splits
      dest: compile_expression_Inl)

lemma flush_text:
  "concat (map segment_text (flush before pending segs)) = concat (map segment_text segs) @ pending"
  by (simp add: flush_def literal_segment_def segment_text_def)

lemma flush_ok:
  "list_all (segment_ok u) segs \<Longrightarrow> c_lbrace \<notin> set pending \<Longrightarrow> c_rbrace \<notin> set pending \<Longrightarrow>
     list_all (segment_ok u) (flush before pending segs)"
  by (simp add: flush_def literal_segment_def segment_ok_def)

lemma alternating_snoc:
  "alternating (segs @ [a]) \<longleftrightarrow>
     alternating segs \<and> (segs \<noteq> [] \<longrightarrow> \<not> (segment_text (last segs) \<noteq> [] \<and> segment_text a \<noteq> []))"
  by (induction segs rule: alternating.induct) auto

lemma flush_alternating:
  "alternating segs \<Longrightarrow> (segs \<noteq> [] \<Longrightarrow> segment_text (last segs) = []) \<Longrightarrow>
     alternating (flush before pending segs)"
  by (auto simp: flush_def alternating_snoc)

lemma template_loop_sound:
  assumes "list_all (segment_ok u) segs" "c_lbrace \<notin> set pending" "c_rbrace \<notin> set pending"
    and "alternating segs" "segs \<noteq> [] \<Longrightarrow> segment_text (last segs) = []"
  shows "case template_loop u name before pending line column segs s of
      Inl x \<Rightarrow> script_exc name x
    | Inr out \<Rightarrow> list_all (segment_ok u) out \<and> alternating out
        \<and> concat (map segment_text out) = concat (map segment_text segs) @ pending @ outside_braces s"
  using assms
proof (induction u name before pending line column segs s rule: template_loop.induct)
  case (1 u name before pending line column segs)
  then show ?case by (simp add: template_loop.simps flush_ok flush_alternating flush_text)
next
  case (2 u name before pending line column segs c s)
  show ?case
  proof (cases "c = c_lbrace")
    case False
    with 2(1,2) 2(4-8) show ?thesis by (auto simp: template_loop.simps split: sum.splits)
  next
    case True
    show ?thesis
    proof (cases "split_first c_rbrace s")
      case None
      with True show ?thesis by (simp add: template_loop.simps)
    next
      case (Some ir)
      obtain inner rest where ir: "ir = (inner, rest)" by (cases ir)
      show ?thesis
      proof (cases "brace_segment u name inner line column")
        case (Inl x)
        with True Some ir show ?thesis by (simp add: template_loop.simps brace_segment_error)
      next
        case (Inr seg)
        note seg = brace_segment_ok [OF Inr]
        have "list_all (segment_ok u) (flush before pending segs @ [seg])"
          and "alternating (flush before pending segs @ [seg])"
          using 2(4-8) seg by (simp_all add: flush_ok flush_alternating alternating_snoc)
        with 2(3)[OF _ _ Some ir [symmetric] Inr refl] True Some ir Inr seg show ?thesis
          by (simp add: template_loop.simps Let_def flush_text split: sum.splits)
      qed
    qed
  qed
qed

lemma compile_naming_template_sound:
  "case compile_naming_template u name source of
      Inl x \<Rightarrow> script_exc name x
    | Inr segs \<Rightarrow> list_all (segment_ok u) segs \<and> alternating segs
        \<and> concat (map segment_text segs) = outside_braces source"
  using template_loop_sound [where u = u and segs = "[]" and pending = "[]" and name = name
      and before = "[]" and line = 1 and column = 1 and s = source]
  by (auto simp: compile_naming_template_def split: sum.splits)

end
