(* ===== verification/Script_Program.thy ===== *)
theory Script_Program
  imports Script_Parser
begin

text \<open>
  Tagging programs (\<open>_parse_tagging_block\<close>, \<open>compile_tagging_program\<close> and
  \<open>walk_statements\<close> of \<open>core/management_script_language.py\<close>): lines with \<open>set\<close>, \<open>append\<close> and
  \<open>delete\<close> statements and nested \<open>if\<close> / \<open>else:\<close> / \<open>end\<close> blocks. The parser reads the lines
  that are left and counts the ones it has read. Every call reads a line before the next
  call, so a fuel of one more than the number of lines is enough (\<open>parse_lines_sound\<close>).
\<close>

section \<open>The parser\<close>

datatype stmt =
    SIf expr "stmt list" "stmt list" int int
  | SSet pystr expr int int
  | SAppend pystr expr int int
  | SDelete pystr int int

primrec stmt_line :: "stmt \<Rightarrow> int" where
  "stmt_line (SIf e b a l c) = l"
| "stmt_line (SSet t e l c) = l"
| "stmt_line (SAppend t e l c) = l"
| "stmt_line (SDelete t l c) = l"

text \<open>The pattern \<open>[A-Za-z_][A-Za-z0-9_. :/-]*\<close>, matched against the whole text.\<close>

definition is_target_char :: "cp \<Rightarrow> bool" where
  "is_target_char c \<longleftrightarrow>
     is_ident_char c \<or> c = c_space \<or> c = c_colon \<or> c = c_slash \<or> c = 45"

definition is_target :: "pystr \<Rightarrow> bool" where
  "is_target s =
     (case s of [] \<Rightarrow> False | c # r \<Rightarrow> is_ident_start c \<and> list_all is_target_char r)"

abbreviation kw_else :: pystr where "kw_else \<equiv> lit ''else:''"
abbreviation kw_end :: pystr where "kw_end \<equiv> lit ''end''"

text \<open>The check at the entry of a block.\<close>

definition enter_block :: "pystr \<Rightarrow> nat \<Rightarrow> nat \<Rightarrow> exc + 'a \<Rightarrow> exc + 'a" where
  "enter_block name depth start m =
     (if MAX_EXPRESSION_DEPTH < depth
      then Inl (ScriptError (Program ConditionalTooDeep) name (int start + 1) 1) else m)"

text \<open>\<open>set\<close> or \<open>append\<close>, and what follows the word.\<close>

definition assignment_parts :: "pystr \<Rightarrow> (bool \<times> pystr) option" where
  "assignment_parts stripped =
     (if py_startswith stripped (lit ''set '') then Some (True, drop 4 stripped)
      else if py_startswith stripped (lit ''append '') then Some (False, drop 7 stripped)
      else None)"

definition parse_assignment ::
  "unidb \<Rightarrow> pystr \<Rightarrow> pystr \<Rightarrow> pystr \<Rightarrow> int \<Rightarrow> int \<Rightarrow> exc + stmt" where
  "parse_assignment u name raw stripped line col =
     (case assignment_parts stripped of
        None \<Rightarrow> Inl (ScriptError (Program ExpectedStatement) name line col)
      | Some (is_set, remainder) \<Rightarrow>
          (case split_first c_equals remainder of
             None \<Rightarrow> Inl (ScriptError (Program ExpectedStatement) name line col)
           | Some (t, e) \<Rightarrow>
               (let target = py_strip u t in
                if \<not> is_target target then Inl (ScriptError (Program BadTarget) name line col)
                else (case py_find [c_equals] raw of
                        None \<Rightarrow> Inl ValueError
                      | Some k \<Rightarrow>
                          rbind (compile_expression u name (py_strip u e) line (int k + 2))
                            (\<lambda>ex. Inr (if is_set then SSet target ex line col
                                       else SAppend target ex line col))))))"

fun parse_lines ::
  "unidb \<Rightarrow> pystr \<Rightarrow> nat \<Rightarrow> nat \<Rightarrow> nat \<Rightarrow> stmt list \<Rightarrow> pystr list
     \<Rightarrow> exc + (stmt list \<times> nat \<times> pystr list \<times> pystr option)" where
  "parse_lines u name 0 depth pos acc ls = Inl OutOfFuel"
| "parse_lines u name (Suc fuel) depth pos acc [] = Inr (acc, pos, [], None)"
| "parse_lines u name (Suc fuel) depth pos acc (raw # rest) =
     (let stripped = py_strip u raw;
          line = int pos + 1;
          col = int (length raw) - int (length (py_lstrip u raw)) + 1
      in
      if stripped = [] \<or> py_startswith stripped (lit ''#'')
      then parse_lines u name fuel depth (pos + 1) acc rest
      else if stripped = kw_else \<or> stripped = kw_end
      then Inr (acc, pos + 1, rest, Some stripped)
      else if py_startswith stripped (lit ''if '')
      then (if \<not> py_endswith stripped (lit '':'')
            then Inl (ScriptError (Program ConditionalColon) name line col)
            else (let src = py_strip u (py_slice 3 (Some (- 1)) stripped) in
              case py_find src raw of
                None \<Rightarrow> Inl ValueError
              | Some k \<Rightarrow>
                  rbind (compile_expression u name src line (int k + 1)) (\<lambda>e.
                  rbind (enter_block name (depth + 1) (pos + 1)
                           (parse_lines u name fuel (depth + 1) (pos + 1) [] rest))
                    (\<lambda>(body, pos1, rest1, term1).
                  rbind (if term1 = Some kw_else
                         then enter_block name (depth + 1) pos1
                                (parse_lines u name fuel (depth + 1) pos1 [] rest1)
                         else Inr ([], pos1, rest1, term1))
                    (\<lambda>(alternate, pos2, rest2, term2).
                  if term2 \<noteq> Some kw_end
                  then Inl (ScriptError (Program ConditionalMissingEnd) name line col)
                  else parse_lines u name fuel depth pos2
                         (acc @ [SIf e body alternate line col]) rest2)))))
      else if py_startswith stripped (lit ''delete '')
      then (let target = py_strip u (drop 7 stripped) in
            if \<not> is_target target
            then Inl (ScriptError (Program BadDeleteTarget) name line col)
            else parse_lines u name fuel depth (pos + 1) (acc @ [SDelete target line col]) rest)
      else rbind (parse_assignment u name raw stripped line col) (\<lambda>st.
             if MAX_PROGRAM_STATEMENTS < length (acc @ [st])
             then Inl (ScriptError (Program TooManyStatements) name line col)
             else parse_lines u name fuel depth (pos + 1) (acc @ [st]) rest))"

definition parse_tagging_block ::
  "unidb \<Rightarrow> pystr \<Rightarrow> pystr list \<Rightarrow> exc + (stmt list \<times> nat \<times> pystr list \<times> pystr option)" where
  "parse_tagging_block u name ls =
     enter_block name 1 0 (parse_lines u name (Suc (length ls)) 1 0 [] ls)"

fun walk_statements :: "stmt list \<Rightarrow> stmt list" where
  "walk_statements [] = []"
| "walk_statements (SIf e body alternate l c # rest) =
     SIf e body alternate l c # walk_statements body @ walk_statements alternate
       @ walk_statements rest"
| "walk_statements (SSet t e l c # rest) = SSet t e l c # walk_statements rest"
| "walk_statements (SAppend t e l c # rest) = SAppend t e l c # walk_statements rest"
| "walk_statements (SDelete t l c # rest) = SDelete t l c # walk_statements rest"

definition compile_tagging_program :: "unidb \<Rightarrow> pystr \<Rightarrow> pystr \<Rightarrow> exc + stmt list" where
  "compile_tagging_program u name source =
     (if MAX_SOURCE_CHARACTERS < length source
      then Inl (ScriptError (Program TaggingTooLong) name 1 1)
      else rbind (parse_tagging_block u name (py_splitlines source)) (\<lambda>(stmts, pos, rest, term).
        case term of
          Some t \<Rightarrow> Inl (ScriptError (Program (UnexpectedTerminator t)) name 1 1)
        | None \<Rightarrow>
            (if stmts = [] then Inl (ScriptError (Program NoStatements) name 1 1)
             else if MAX_PROGRAM_STATEMENTS < length (walk_statements stmts)
             then Inl (ScriptError (Program TooManyStatements) name 1 1)
             else Inr stmts)))"

section \<open>What the parser promises\<close>

text \<open>
  \<open>stmts_ok u n ss\<close>: the conditionals of \<open>ss\<close> nest at most \<open>n\<close> deep, every target has the
  form of a target and every expression is compiled.
\<close>

fun stmt_ok :: "unidb \<Rightarrow> nat \<Rightarrow> stmt \<Rightarrow> bool" where
  "stmt_ok u n (SIf e body alternate l c) \<longleftrightarrow>
     0 < n \<and> compiled u e \<and> list_all (stmt_ok u (n - 1)) body \<and> list_all (stmt_ok u (n - 1)) alternate"
| "stmt_ok u n (SSet t e l c) \<longleftrightarrow> is_target t \<and> compiled u e"
| "stmt_ok u n (SAppend t e l c) \<longleftrightarrow> is_target t \<and> compiled u e"
| "stmt_ok u n (SDelete t l c) \<longleftrightarrow> is_target t"

text \<open>The statements come in the order of their lines, all of them between two positions.\<close>

definition lines_between :: "nat \<Rightarrow> nat \<Rightarrow> stmt list \<Rightarrow> bool" where
  "lines_between a b ss \<longleftrightarrow>
     sorted_wrt (<) (map stmt_line (walk_statements ss))
       \<and> (\<forall>st \<in> set (walk_statements ss). int a < stmt_line st \<and> stmt_line st \<le> int b)"

lemma walk_append [simp]: "walk_statements (xs @ ys) = walk_statements xs @ walk_statements ys"
  by (induction xs rule: walk_statements.induct) auto

lemma lines_between_Nil [simp]: "lines_between a b []"
  by (simp add: lines_between_def)

lemma lines_between_append:
  "lines_between a b xs \<Longrightarrow> lines_between b c ys \<Longrightarrow> a \<le> b \<Longrightarrow> b \<le> c \<Longrightarrow> lines_between a c (xs @ ys)"
  by (fastforce simp: lines_between_def sorted_wrt_append)

lemma lines_between_mono: "lines_between a b xs \<Longrightarrow> b \<le> c \<Longrightarrow> lines_between a c xs"
  by (fastforce simp: lines_between_def)

lemma parse_assignment_sound:
  "case parse_assignment u name raw stripped line col of
      Inl x \<Rightarrow> script_exc name x
    | Inr st \<Rightarrow> stmt_ok u n st \<and> walk_statements [st] = [st] \<and> stmt_line st = line"
  by (auto simp: parse_assignment_def Let_def rbind_def
      split: option.splits sum.splits if_splits prod.splits
      dest: compile_expression_Inr compile_expression_Inl)

text \<open>
  A block from position \<open>pos\<close>: with more fuel than lines it does not run out; its errors are
  validation errors; its statements are well formed and in the order of their lines.
\<close>

definition block_sound ::
  "unidb \<Rightarrow> pystr \<Rightarrow> nat \<Rightarrow> nat \<Rightarrow> nat \<Rightarrow> pystr list
     \<Rightarrow> exc + (stmt list \<times> nat \<times> pystr list \<times> pystr option) \<Rightarrow> bool" where
  "block_sound u name depth start pos ls res \<longleftrightarrow>
     (case res of
        Inl x \<Rightarrow> script_exc name x
      | Inr (ss, pos', rest, term) \<Rightarrow>
          list_all (stmt_ok u (MAX_EXPRESSION_DEPTH - depth)) ss
            \<and> lines_between start pos' ss \<and> pos \<le> pos'
            \<and> length rest \<le> length ls \<and> pos' + length rest = pos + length ls)"

lemma block_sound_step:
  "block_sound u name depth start pos1 ls1 res \<Longrightarrow> pos \<le> pos1 \<Longrightarrow> length ls1 \<le> length ls \<Longrightarrow>
     pos1 + length ls1 = pos + length ls \<Longrightarrow> block_sound u name depth start pos ls res"
  by (auto simp: block_sound_def split: sum.splits)

lemma lines_between_snoc:
  "lines_between start pos acc \<Longrightarrow> start \<le> pos \<Longrightarrow> walk_statements [st] = [st] \<Longrightarrow>
     stmt_line st = int pos + 1 \<Longrightarrow> lines_between start (Suc pos) (acc @ [st])"
  by (rule lines_between_append [of start pos]) (auto simp: lines_between_def)

lemma lines_between_if:
  assumes "lines_between (Suc pos) pos1 body" "lines_between pos1 pos2 alternate"
    and "Suc pos \<le> pos1" "pos1 \<le> pos2"
  shows "lines_between pos pos2 [SIf e body alternate (int pos + 1) c]"
proof -
  have "lines_between (Suc pos) pos2 (body @ alternate)"
    using lines_between_append assms by blast
  then have after: "\<forall>st \<in> set (walk_statements (body @ alternate)). int pos + 1 < stmt_line st"
    by (simp add: lines_between_def add.commute)
  from \<open>lines_between (Suc pos) pos2 (body @ alternate)\<close> after assms(3,4) show ?thesis
    by (simp add: lines_between_def) force
qed

text \<open>A nested block, entered one level deeper with nothing read yet.\<close>

lemma enter_block_sound:
  assumes "depth < MAX_EXPRESSION_DEPTH \<Longrightarrow> block_sound u name (depth + 1) pos pos ls m"
  shows "block_sound u name (depth + 1) pos pos ls (enter_block name (depth + 1) pos m)
     \<and> (\<forall>r. enter_block name (depth + 1) pos m = Inr r \<longrightarrow> depth < MAX_EXPRESSION_DEPTH)"
  using assms by (auto simp: enter_block_def block_sound_def)

lemma parse_lines_sound:
  assumes "length ls < fuel"
    and "list_all (stmt_ok u (MAX_EXPRESSION_DEPTH - depth)) acc"
    and "lines_between start pos acc" and "start \<le> pos"
  shows "block_sound u name depth start pos ls (parse_lines u name fuel depth pos acc ls)"
  using assms
proof (induction fuel arbitrary: depth pos acc ls start)
  case 0
  then show ?case by simp
next
  case (Suc fuel)
  note IH = Suc.IH and prems = Suc.prems
  show ?case
  proof (cases ls)
    case Nil
    with prems show ?thesis by (simp add: block_sound_def)
  next
    case ls: (Cons raw rest)
    define stripped where "stripped = py_strip u raw"
    define line where "line = int pos + 1"
    define col where "col = int (length raw) - int (length (py_lstrip u raw)) + 1"
    note unfold = ls parse_lines.simps(3) Let_def stripped_def [symmetric] line_def [symmetric]
      col_def [symmetric]
    have len: "length rest < fuel" using prems ls by simp
    have go_on: "block_sound u name depth start pos (raw # rest)
        (parse_lines u name fuel depth (pos + 1) (acc @ [st]) rest)"
      if "stmt_ok u (MAX_EXPRESSION_DEPTH - depth) st" "walk_statements [st] = [st]" "stmt_line st = line"
      for st
    proof -
      have "block_sound u name depth start (pos + 1) rest
          (parse_lines u name fuel depth (pos + 1) (acc @ [st]) rest)"
        using IH [OF len] lines_between_snoc [of start pos acc st] prems(2,3,4) that
        by (simp add: line_def)
      then show ?thesis by (rule block_sound_step) simp_all
    qed
    consider (blank) "stripped = [] \<or> py_startswith stripped (lit ''#'')"
      | (stop) "\<not> (stripped = [] \<or> py_startswith stripped (lit ''#''))"
          "stripped = kw_else \<or> stripped = kw_end"
      | (cond) "\<not> (stripped = [] \<or> py_startswith stripped (lit ''#''))"
          "\<not> (stripped = kw_else \<or> stripped = kw_end)" "py_startswith stripped (lit ''if '')"
      | (del) "\<not> (stripped = [] \<or> py_startswith stripped (lit ''#''))"
          "\<not> (stripped = kw_else \<or> stripped = kw_end)" "\<not> py_startswith stripped (lit ''if '')"
          "py_startswith stripped (lit ''delete '')"
      | (assign) "\<not> (stripped = [] \<or> py_startswith stripped (lit ''#''))"
          "\<not> (stripped = kw_else \<or> stripped = kw_end)" "\<not> py_startswith stripped (lit ''if '')"
          "\<not> py_startswith stripped (lit ''delete '')"
      by blast
    then show ?thesis
    proof cases
      case blank
      have "block_sound u name depth start (pos + 1) rest
          (parse_lines u name fuel depth (pos + 1) acc rest)"
        using prems by (intro IH [OF len]) (auto intro: lines_between_mono)
      then have "block_sound u name depth start pos (raw # rest)
          (parse_lines u name fuel depth (pos + 1) acc rest)"
        by (rule block_sound_step) auto
      with blank show ?thesis unfolding unfold by simp
    next
      case stop
      then show ?thesis unfolding unfold using prems
        by (simp add: block_sound_def) (auto intro: lines_between_mono)
    next
      case del
      with go_on [of "SDelete (py_strip u (drop 7 stripped)) line col"] show ?thesis
        unfolding unfold by (auto simp: block_sound_def)
    next
      case assign
      from parse_assignment_sound [where u = u and name = name and raw = raw and stripped = stripped
          and line = line and col = col and n = "MAX_EXPRESSION_DEPTH - depth"] assign go_on show ?thesis
        unfolding unfold by (cases "parse_assignment u name raw stripped line col") (auto simp: block_sound_def)
    next
      case cond
      define src where "src = py_strip u (py_slice 3 (Some (- 1)) stripped)"
      show ?thesis
      proof (cases "py_endswith stripped (lit '':'') \<and> py_find src raw \<noteq> None")
        case False
        with cond show ?thesis unfolding unfold by (auto simp: block_sound_def src_def)
      next
        case True
        then obtain k where k: "py_endswith stripped (lit '':'')" "py_find src raw = Some k" by auto
        have entered: "block_sound u name (depth + 1) p p ls' m
            \<and> (\<forall>r. m = Inr r \<longrightarrow> depth < MAX_EXPRESSION_DEPTH)"
          if "length ls' < fuel"
            "m = enter_block name (depth + 1) p (parse_lines u name fuel (depth + 1) p [] ls')"
          for ls' p m
          unfolding that(2) using that(1) by (intro enter_block_sound IH) auto
        define m1 where "m1 = enter_block name (depth + 1) (pos + 1)
            (parse_lines u name fuel (depth + 1) (pos + 1) [] rest)"
        have m1: "block_sound u name (depth + 1) (pos + 1) (pos + 1) rest m1"
          and deep: "\<And>r. m1 = Inr r \<Longrightarrow> depth < MAX_EXPRESSION_DEPTH"
          using entered [OF len m1_def] by auto
        define m2 where "m2 = (\<lambda>(pos1, rest1, term1 :: pystr option).
            if term1 = Some kw_else
            then enter_block name (depth + 1) pos1
                   (parse_lines u name fuel (depth + 1) pos1 [] rest1)
            else Inr ([], pos1, rest1, term1))"
        have m2: "block_sound u name (depth + 1) pos1 pos1 rest1 (m2 (pos1, rest1, term1))"
          if "length rest1 \<le> length rest" for pos1 rest1 term1
          using entered [OF _ refl, of rest1 pos1] that len by (auto simp: m2_def block_sound_def)
        have eq: "parse_lines u name (Suc fuel) depth pos acc ls =
            rbind (compile_expression u name src line (int k + 1)) (\<lambda>e.
            rbind m1 (\<lambda>(body, pos1, rest1, term1).
            rbind (m2 (pos1, rest1, term1)) (\<lambda>(alternate, pos2, rest2, term2).
              if term2 \<noteq> Some kw_end
              then Inl (ScriptError (Program ConditionalMissingEnd) name line col)
              else parse_lines u name fuel depth pos2
                     (acc @ [SIf e body alternate line col]) rest2)))"
          using cond k unfolding unfold m1_def m2_def
          by (simp add: src_def [symmetric] del: split_paired_All)
        show ?thesis
        proof (cases "compile_expression u name src line (int k + 1)")
          case (Inl x)
          then show ?thesis unfolding eq by (simp add: block_sound_def compile_expression_Inl)
        next
          case e: (Inr e)
          show ?thesis
          proof (cases m1)
            case (Inl x)
            with m1 e show ?thesis unfolding eq by (simp add: block_sound_def)
          next
            case (Inr r1)
            obtain body pos1 rest1 term1 where r1: "r1 = (body, pos1, rest1, term1)" by (cases r1)
            note body = m1 [unfolded Inr r1 block_sound_def, simplified] and deep = deep [OF Inr]
            show ?thesis
            proof (cases "m2 (pos1, rest1, term1)")
              case (Inl x)
              with m2 [of rest1 pos1 term1] body e \<open>m1 = Inr r1\<close> r1 show ?thesis
                unfolding eq by (simp add: block_sound_def)
            next
              case r2: (Inr r2)
              obtain alternate pos2 rest2 term2 where r2': "r2 = (alternate, pos2, rest2, term2)"
                by (cases r2)
              have alt: "list_all (stmt_ok u (MAX_EXPRESSION_DEPTH - (depth + 1))) alternate"
                "lines_between pos1 pos2 alternate" "pos1 \<le> pos2" "length rest2 \<le> length rest1"
                "pos2 + length rest2 = pos1 + length rest1"
                using m2 [of rest1 pos1 term1, unfolded r2 r2' block_sound_def] body by auto
              let ?st = "SIf e body alternate line col"
              have "stmt_ok u (MAX_EXPRESSION_DEPTH - depth) ?st"
                using body alt deep compile_expression_Inr [OF e] by auto
              moreover have "lines_between start pos2 (acc @ [?st])"
                using lines_between_append [OF prems(3) lines_between_if, of pos1 body pos2 alternate e col]
                  body alt prems(4) by (simp add: line_def)
              ultimately have "block_sound u name depth start pos2 rest2
                  (parse_lines u name fuel depth pos2 (acc @ [?st]) rest2)"
                using body alt prems(2,4) len by (intro IH) auto
              then have "block_sound u name depth start pos ls
                  (parse_lines u name fuel depth pos2 (acc @ [?st]) rest2)"
                by (rule block_sound_step) (use body alt ls in auto)
              with e \<open>m1 = Inr r1\<close> r1 r2 r2' show ?thesis
                unfolding eq by (simp add: block_sound_def)
            qed
          qed
        qed
      qed
    qed
  qed
qed

lemma compile_tagging_program_sound:
  "case compile_tagging_program u name source of
      Inl x \<Rightarrow> script_exc name x
    | Inr ss \<Rightarrow> ss \<noteq> [] \<and> list_all (stmt_ok u (MAX_EXPRESSION_DEPTH - 1)) ss
        \<and> length (walk_statements ss) \<le> MAX_PROGRAM_STATEMENTS
        \<and> sorted_wrt (<) (map stmt_line (walk_statements ss))"
proof -
  let ?ls = "py_splitlines source"
  have "block_sound u name 1 0 0 ?ls (parse_lines u name (Suc (length ?ls)) 1 0 [] ?ls)"
    by (rule parse_lines_sound) auto
  moreover have "parse_tagging_block u name ?ls = parse_lines u name (Suc (length ?ls)) 1 0 [] ?ls"
    by (simp add: parse_tagging_block_def enter_block_def MAX_EXPRESSION_DEPTH_def)
  ultimately show ?thesis
    by (auto simp: compile_tagging_program_def block_sound_def lines_between_def rbind_def
        split: sum.splits option.splits)
qed

lemma compile_tagging_program_Inr:
  "compile_tagging_program u name source = Inr ss \<Longrightarrow>
     list_all (stmt_ok u (MAX_EXPRESSION_DEPTH - 1)) ss
       \<and> length (walk_statements ss) \<le> MAX_PROGRAM_STATEMENTS"
  using compile_tagging_program_sound [where u = u and name = name and source = source] by simp

lemma compile_tagging_program_Inl:
  "compile_tagging_program u name source = Inl x \<Longrightarrow> script_exc name x"
  using compile_tagging_program_sound [where u = u and name = name and source = source] by simp

end
