(* ===== verification/Script_Properties.thy ===== *)
theory Script_Properties
  imports Script_Errors Script_Eval Script_Template Script_Program
begin

text \<open>
  The properties of the management script language (\<open>core/management_script_language.py\<close>):
  what each of its entry points promises for every source, every script name and every
  Unicode table, and one way in which it breaks its own promise.
\<close>

text \<open>
  C8. Lexing any source either fails with a validation error of this script, located at or after
  the place where the source starts, or gives at most 2048 tokens followed by exactly one end
  marker. No other exception comes out of it.
\<close>
theorem tokenize_bounded:
  "case tokenize u name source line col of
     Inl e \<Rightarrow> \<exists>r l c. e = ScriptError (Lex r) name l c \<and> (line < l \<or> line = l \<and> col \<le> c)
   | Inr toks \<Rightarrow> ends_once toks \<and> length toks \<le> Suc MAX_EXPRESSION_TOKENS"
  using tokenize_lexed [where u = u and name = name and s = source and line = line and col = col]
    tokenize_located [where u = u and name = name and s = source and line = line and col = col]
  by (auto simp: lexed_def lex_error_def split: sum.splits)

text \<open>
  C9. Compiling any source either gives an expression that nests at most 20 levels, has at most
  2048 nodes and 100 arguments a node, and calls only known functions with as many arguments as
  they take, or fails with a validation error of this script, with one exception: Python's own
  \<open>ValueError\<close>, and only when the source holds a run of digits that \<open>int()\<close> refuses (one that is
  too long, or a digit that is not decimal). An index or key error of the parser never happens.
\<close>
theorem compile_expression_safe:
  "case compile_expression u name source line col of
     Inl e \<Rightarrow> (\<exists>r l c. e = ScriptError r name l c)
       \<or> e = ValueError \<and> (\<exists>v. v \<noteq> [] \<and> list_all (py_isdigit u) v \<and> sublist v source \<and> py_int u v = None)
   | Inr e \<Rightarrow> within MAX_EXPRESSION_DEPTH e \<and> nodes e \<le> MAX_EXPRESSION_TOKENS
       \<and> list_all (node_ok u) (walk_expressions e)"
  using compile_expression_sound [where u = u and name = name and source = source and line = line
      and col = col] compile_value_error [where u = u and name = name and source = source and line = line and col = col]
  by (auto simp: compiled_def script_exc_def digit_run_def split: sum.splits)

text \<open>
  C10. Evaluating a compiled expression with a fresh budget takes exactly one step for each of
  its nodes, so it never reaches the step limit; it never meets an unknown function; and a
  value that it returns is within the limits on its length, its number of texts and their
  characters.
\<close>
theorem evaluation_bounded:
  "case compile_expression u name source line col of
     Inl _ \<Rightarrow> True
   | Inr e \<Rightarrow>
       (case evaluate u vars e (new_budget name) of
          Inr (v, b) \<Rightarrow> bg_steps b = nodes e \<and> bg_steps b \<le> MAX_EXPRESSION_TOKENS
            \<and> bg_output b \<le> MAX_TOTAL_OUTPUT_CHARACTERS \<and> value_ok v
        | Inl x \<Rightarrow> (\<exists>r l c. x = ScriptError (Eval r) name l c \<and> r \<noteq> StepLimit
            \<and> r \<noteq> NotImplementedFunction))"
proof (cases "compile_expression u name source line col")
  case (Inr e)
  then have e: "compiled u e" by (rule compile_expression_Inr)
  show ?thesis
  proof (cases "evaluate u vars e (new_budget name)")
    case (Inl x)
    with evaluate_error(1) [OF Inl] e have "bad (nodes e) (new_budget name) x"
      by (simp add: compiled_def)
    with e Inr Inl show ?thesis
      by (auto simp: bad_def compiled_def new_budget_def MAX_RUNTIME_STEPS_def MAX_EXPRESSION_TOKENS_def)
  next
    case (Inr r)
    obtain v b where r: "r = (v, b)" by (cases r)
    from evaluate_spent(1) [OF Inr [unfolded r]] e
    have "bg_steps b = nodes e" "bg_output b \<le> MAX_TOTAL_OUTPUT_CHARACTERS" "value_ok v"
      "nodes e \<le> MAX_EXPRESSION_TOKENS"
      by (auto simp: spent_def budget_ok_def new_budget_def compiled_def)
    with \<open>compile_expression u name source line col = Inr e\<close> Inr r show ?thesis by simp
  qed
qed simp

text \<open>
  A naming template splits into segments without losing or inventing text: the literal
  segments together are the source outside its braces, no two of them are adjacent, and every
  other segment is a variable or a compiled expression.
\<close>
theorem naming_template_faithful:
  "case compile_naming_template u name source of
     Inl e \<Rightarrow> script_exc name e
   | Inr segs \<Rightarrow> list_all (segment_ok u) segs \<and> alternating segs
       \<and> concat (map segment_text segs) = outside_braces source"
  by (rule compile_naming_template_sound)

text \<open>
  A compiled tagging program is not empty, has at most 500 statements, its conditionals
  nest less than 20 deep, its targets and expressions are well formed, and its statements
  stand in the order of their source lines, each on a line of its own.
\<close>
theorem tagging_program_safe:
  "case compile_tagging_program u name source of
     Inl e \<Rightarrow> script_exc name e
   | Inr ss \<Rightarrow> ss \<noteq> [] \<and> list_all (stmt_ok u (MAX_EXPRESSION_DEPTH - 1)) ss
       \<and> length (walk_statements ss) \<le> MAX_PROGRAM_STATEMENTS
       \<and> sorted_wrt (<) (map stmt_line (walk_statements ss))"
  by (rule compile_tagging_program_sound)

text \<open>The part of the Unicode table that a superscript two needs: a digit, but not a decimal one.\<close>

definition superscript_db :: unidb where
  "superscript_db = ascii_db\<lparr>u_digit := (\<lambda>c. c = 178)\<rparr>"

text \<open>
  The lexer takes every character for which \<open>str.isdigit\<close> holds as part of an integer, and
  \<open>int()\<close> takes decimal digits only: a superscript two is a digit and not decimal, so
  compiling it raises a bare \<open>ValueError\<close> instead of a validation error.
\<close>
theorem superscript_value_error:
  "compile_expression superscript_db name [178] line col = Inl ValueError"
  by (simp add: compile_expression_def MAX_SOURCE_CHARACTERS_def superscript_db_def ascii_db_def
      strip_by_def lstrip_by_def rstrip_by_def py_isspace_def tokenize_def tokenize_loop.simps
      too_many_def MAX_EXPRESSION_TOKENS_def py_isdigit_def parse_tokens_def primary.simps current_def
      py_int_def int_space_def int_body_def py_decimal_def Let_def
      MAX_EXPRESSION_DEPTH_def is_punct_def)

end
