(* ===== verification/Py_Text.thy ===== *)
theory Py_Text
  imports Script_Lexer
begin

text \<open>
  UTF-8 as \<open>str.encode("utf-8")\<close> and \<open>bytes.decode("utf-8", ...)\<close> compute it, relative
  and absolute \<open>PurePosixPath\<close>s, and the integer formats that naming templates use. Bytes
  are natural numbers below 256.
\<close>

section \<open>UTF-8\<close>

definition utf8_width :: "cp \<Rightarrow> nat" where
  "utf8_width c = (if c < 128 then 1 else if c < 2048 then 2 else if c < 65536 then 3 else 4)"

definition utf8_char :: "cp \<Rightarrow> nat list" where
  "utf8_char c =
     (if c < 128 then [c]
      else if c < 2048 then [192 + c div 64, 128 + c mod 64]
      else if c < 65536
      then [224 + c div 4096, 128 + c div 64 mod 64, 128 + c mod 64]
      else [240 + c div 262144, 128 + c div 4096 mod 64, 128 + c div 64 mod 64, 128 + c mod 64])"

definition encodable :: "cp \<Rightarrow> bool" where
  "encodable c \<longleftrightarrow> c < 1114112 \<and> \<not> is_surrogate c"

definition utf8_encode :: "pystr \<Rightarrow> exc + nat list" where
  "utf8_encode s =
     (if list_all encodable s then Inr (concat (map utf8_char s)) else Inl UnicodeEncodeError)"

definition is_cont :: "nat \<Rightarrow> bool" where
  "is_cont b \<longleftrightarrow> 128 \<le> b \<and> b < 192"

text \<open>The second bytes that a three-byte and a four-byte lead byte allow.\<close>

definition second3 :: "nat \<Rightarrow> nat \<Rightarrow> bool" where
  "second3 b c \<longleftrightarrow> is_cont c \<and> (b = 224 \<longrightarrow> 160 \<le> c) \<and> (b = 237 \<longrightarrow> c < 160)"

definition second4 :: "nat \<Rightarrow> nat \<Rightarrow> bool" where
  "second4 b c \<longleftrightarrow> is_cont c \<and> (b = 240 \<longrightarrow> 144 \<le> c) \<and> (b = 244 \<longrightarrow> c < 144)"

text \<open>
  An invalid or unfinished sequence is replaced up to the byte that does not continue it: by
  nothing with \<open>"ignore"\<close>, by U+FFFD with \<open>"replace"\<close>.
\<close>

fun utf8_decode :: "pystr \<Rightarrow> nat list \<Rightarrow> pystr" where
  "utf8_decode r [] = []"
| "utf8_decode r [b] = (if b < 128 then [b] else r)"
| "utf8_decode r [b, c] =
     (if b < 128 then b # utf8_decode r [c]
      else if 194 \<le> b \<and> b < 224 \<and> is_cont c then [(b - 192) * 64 + (c - 128)]
      else if 224 \<le> b \<and> b < 240 \<and> second3 b c \<or> 240 \<le> b \<and> b < 245 \<and> second4 b c then r
      else r @ utf8_decode r [c])"
| "utf8_decode r [b, c, d] =
     (if b < 128 then b # utf8_decode r [c, d]
      else if 194 \<le> b \<and> b < 224 \<and> is_cont c
      then ((b - 192) * 64 + (c - 128)) # utf8_decode r [d]
      else if 224 \<le> b \<and> b < 240 \<and> second3 b c
      then (if is_cont d then [((b - 224) * 64 + (c - 128)) * 64 + (d - 128)]
            else r @ utf8_decode r [d])
      else if 240 \<le> b \<and> b < 245 \<and> second4 b c
      then (if is_cont d then r else r @ utf8_decode r [d])
      else r @ utf8_decode r [c, d])"
| "utf8_decode r (b # c # d # e # bs) =
     (if b < 128 then b # utf8_decode r (c # d # e # bs)
      else if 194 \<le> b \<and> b < 224 \<and> is_cont c
      then ((b - 192) * 64 + (c - 128)) # utf8_decode r (d # e # bs)
      else if 224 \<le> b \<and> b < 240 \<and> second3 b c
      then (if is_cont d
            then (((b - 224) * 64 + (c - 128)) * 64 + (d - 128)) # utf8_decode r (e # bs)
            else r @ utf8_decode r (d # e # bs))
      else if 240 \<le> b \<and> b < 245 \<and> second4 b c
      then (if is_cont d
            then (if is_cont e
                  then ((((b - 240) * 64 + (c - 128)) * 64 + (d - 128)) * 64 + (e - 128))
                         # utf8_decode r bs
                  else r @ utf8_decode r (e # bs))
            else r @ utf8_decode r (d # e # bs))
      else r @ utf8_decode r (c # d # e # bs))"

abbreviation utf8_decode_ignore :: "nat list \<Rightarrow> pystr" where
  "utf8_decode_ignore \<equiv> utf8_decode []"

text \<open>\<open>encoded[:n].decode("utf-8", "ignore")\<close>.\<close>

definition truncate_utf8 :: "nat \<Rightarrow> nat list \<Rightarrow> pystr" where
  "truncate_utf8 n encoded = utf8_decode_ignore (take n encoded)"

text \<open>Specification of the truncation: as many whole characters as fit.\<close>

fun take_chars :: "nat \<Rightarrow> pystr \<Rightarrow> pystr" where
  "take_chars n [] = []"
| "take_chars n (c # s) =
     (if utf8_width c \<le> n then c # take_chars (n - utf8_width c) s else [])"

abbreviation utf8_size :: "pystr \<Rightarrow> nat" where
  "utf8_size s \<equiv> sum_list (map utf8_width s)"

lemma length_utf8_char [simp]: "length (utf8_char c) = utf8_width c"
  by (simp add: utf8_char_def utf8_width_def)

lemma utf8_width_pos [simp]: "0 < utf8_width c"
  by (simp add: utf8_width_def)

lemma utf8_encode_Inr:
  "utf8_encode s = Inr bs \<longleftrightarrow> list_all encodable s \<and> bs = concat (map utf8_char s)"
  by (auto simp: utf8_encode_def)

lemma length_utf8_encode: "utf8_encode s = Inr bs \<Longrightarrow> length bs = utf8_size s"
  by (auto simp: utf8_encode_Inr length_concat o_def)

text \<open>A character decodes from its own bytes, and nothing decodes from a proper part of them.\<close>

lemma decode_1: "b < 128 \<Longrightarrow> utf8_decode r (b # bs) = b # utf8_decode r bs"
  by (cases bs; cases "tl bs"; cases "tl (tl bs)") (simp_all del: One_nat_def)

lemma decode_2:
  assumes "194 \<le> b" "b < 224" "is_cont c"
  shows "utf8_decode r (b # c # bs) = ((b - 192) * 64 + (c - 128)) # utf8_decode r bs"
proof -
  have f: "b < 128 \<longleftrightarrow> False" "194 \<le> b \<and> b < 224 \<and> is_cont c \<longleftrightarrow> True" using assms by auto
  consider "bs = []" | d where "bs = [d]" | d e ds where "bs = d # e # ds"
    by (metis list.exhaust)
  then show ?thesis by cases (simp_all only: utf8_decode.simps f if_True if_False)
qed

lemma decode_3:
  assumes "224 \<le> b" "b < 240" "second3 b c" "is_cont d"
  shows "utf8_decode r (b # c # d # bs)
       = (((b - 224) * 64 + (c - 128)) * 64 + (d - 128)) # utf8_decode r bs"
proof -
  have f: "b < 128 \<longleftrightarrow> False" "194 \<le> b \<and> b < 224 \<and> is_cont c \<longleftrightarrow> False"
    "224 \<le> b \<and> b < 240 \<and> second3 b c \<longleftrightarrow> True" "is_cont d \<longleftrightarrow> True" using assms by auto
  show ?thesis by (cases bs) (simp_all only: utf8_decode.simps f if_True if_False)
qed

lemma decode_4:
  assumes "240 \<le> b" "b < 245" "second4 b c" "is_cont d" "is_cont e"
  shows "utf8_decode r (b # c # d # e # bs)
       = ((((b - 240) * 64 + (c - 128)) * 64 + (d - 128)) * 64 + (e - 128)) # utf8_decode r bs"
proof -
  have f: "b < 128 \<longleftrightarrow> False" "194 \<le> b \<and> b < 224 \<and> is_cont c \<longleftrightarrow> False"
    "224 \<le> b \<and> b < 240 \<and> second3 b c \<longleftrightarrow> False" "240 \<le> b \<and> b < 245 \<and> second4 b c \<longleftrightarrow> True"
    "is_cont d \<longleftrightarrow> True" "is_cont e \<longleftrightarrow> True" using assms by auto
  show ?thesis by (simp only: utf8_decode.simps f if_True if_False)
qed

lemma split_six_bits:
  fixes c :: nat
  shows "c div 64 * 64 + c mod 64 = c" "c div 4096 * 64 + c div 64 mod 64 = c div 64"
    "c div 262144 * 64 + c div 4096 mod 64 = c div 4096"
    "c div 4096 * 4096 + c mod 4096 = c"
proof -
  have "c div 4096 = c div 64 div 64" "c div 262144 = c div 4096 div 64"
    by (simp_all add: div_mult2_eq [symmetric])
  then show "c div 64 * 64 + c mod 64 = c" "c div 4096 * 64 + c div 64 mod 64 = c div 64"
    "c div 262144 * 64 + c div 4096 mod 64 = c div 4096"
    by (simp_all only: div_mult_mod_eq)
  show "c div 4096 * 4096 + c mod 4096 = c" by (rule div_mult_mod_eq)
qed

lemma second3_char:
  assumes "encodable c" "2048 \<le> c" "c < 65536"
  shows "second3 (224 + c div 4096) (128 + c div 64 mod 64)"
proof -
  define a b d where "a = c div 4096" and "b = c div 64 mod 64" and "d = c mod 64"
  have c: "c = a * 4096 + b * 64 + d"
    using split_six_bits(1,2) [of c] unfolding a_def b_def d_def by linarith
  have ab: "b < 64" "d < 64" by (auto simp: b_def d_def)
  have "a = 0 \<Longrightarrow> 32 \<le> b" using c ab assms(2) by linarith
  moreover have "a = 13 \<Longrightarrow> b < 32"
    using c ab assms(1) by (auto simp: encodable_def is_surrogate_def)
  ultimately show ?thesis using ab by (auto simp: second3_def is_cont_def a_def b_def)
qed

lemma second4_char:
  assumes "encodable c" "65536 \<le> c"
  shows "second4 (240 + c div 262144) (128 + c div 4096 mod 64)" and "c div 262144 < 5"
proof -
  define a b d where "a = c div 262144" and "b = c div 4096 mod 64" and "d = c mod 4096"
  have c: "c = a * 262144 + b * 4096 + d"
    using split_six_bits(3,4) [of c] unfolding a_def b_def d_def by linarith
  have ab: "b < 64" "d < 4096" by (auto simp: b_def d_def)
  have max: "c < 1114112" using assms(1) by (simp add: encodable_def)
  have "a = 0 \<Longrightarrow> 16 \<le> b" using c ab assms(2) by linarith
  moreover have "a = 4 \<Longrightarrow> b < 16" using c ab max by linarith
  ultimately show "second4 (240 + c div 262144) (128 + c div 4096 mod 64)"
    using ab by (auto simp: second4_def is_cont_def a_def b_def)
  show "c div 262144 < 5" using max by auto
qed

lemma decode_char:
  assumes "encodable c"
  shows "utf8_decode r (utf8_char c @ bs) = c # utf8_decode r bs"
proof -
  consider "c < 128" | "128 \<le> c" "c < 2048" | "2048 \<le> c" "c < 65536" | "65536 \<le> c"
    by linarith
  then show ?thesis
  proof cases
    case 1
    then show ?thesis by (simp add: utf8_char_def decode_1)
  next
    case 2
    then have "2 \<le> c div 64" "c div 64 < 32" by auto
    with 2 show ?thesis by (simp add: utf8_char_def decode_2 is_cont_def)
  next
    case 3
    have "(c div 4096 * 64 + c div 64 mod 64) * 64 + c mod 64 = c"
      by (simp only: split_six_bits)
    moreover have "c div 4096 < 16" using 3 by auto
    ultimately show ?thesis using 3 second3_char [OF assms 3]
      by (simp add: utf8_char_def decode_3 is_cont_def)
  next
    case 4
    have "((c div 262144 * 64 + c div 4096 mod 64) * 64 + c div 64 mod 64) * 64 + c mod 64 = c"
      by (simp only: split_six_bits)
    then show ?thesis using 4 second4_char [OF assms 4]
      by (simp add: utf8_char_def decode_4 is_cont_def)
  qed
qed

lemma decode_partial:
  assumes "encodable c" "n < utf8_width c"
  shows "utf8_decode_ignore (take n (utf8_char c)) = []"
proof -
  consider "n = 0" | "n = 1" "128 \<le> c" | "n = 2" "2048 \<le> c" "c < 65536"
    | "n = 2" "65536 \<le> c" | "n = 3" "65536 \<le> c"
    using assms(2) by (fastforce simp: utf8_width_def split: if_splits)
  then show ?thesis
  proof cases
    case 1
    then show ?thesis by simp
  next
    case 2
    then show ?thesis by (simp add: utf8_char_def)
  next
    case 3
    moreover have "c div 4096 < 16" using 3 by auto
    ultimately show ?thesis using second3_char [OF assms(1)] by (simp add: utf8_char_def)
  next
    case 4
    then show ?thesis using second4_char [OF assms(1)] by (simp add: utf8_char_def)
  next
    case 5
    then show ?thesis using second4_char [OF assms(1)]
      by (simp add: utf8_char_def is_cont_def numeral_3_eq_3)
  qed
qed

lemma truncate_utf8_spec:
  "utf8_encode s = Inr bs \<Longrightarrow> truncate_utf8 n bs = take_chars n s"
proof (induction s arbitrary: n bs)
  case Nil
  then show ?case by (simp add: utf8_encode_Inr truncate_utf8_def)
next
  case (Cons c s)
  let ?rest = "concat (map utf8_char s)"
  have c: "encodable c" and rest: "utf8_encode s = Inr ?rest" and bs: "bs = utf8_char c @ ?rest"
    using Cons.prems by (auto simp: utf8_encode_Inr)
  show ?case
  proof (cases "utf8_width c \<le> n")
    case True
    then have "take n bs = utf8_char c @ take (n - utf8_width c) ?rest" by (simp add: bs)
    with Cons.IH [OF rest, of "n - utf8_width c"] c True show ?thesis
      by (simp add: truncate_utf8_def decode_char)
  next
    case False
    with c show ?thesis by (simp add: truncate_utf8_def bs decode_partial)
  qed
qed

lemma take_chars_prefix: "\<exists>r. s = take_chars n s @ r"
  by (induction n s rule: take_chars.induct) auto

lemma take_chars_size: "utf8_size (take_chars n s) \<le> n"
  by (induction n s rule: take_chars.induct) auto

lemma set_take_chars: "set (take_chars n s) \<subseteq> set s"
  using take_chars_prefix [of s n] by (metis set_append Un_upper1)

lemma utf8_size_append: "utf8_size (s @ t) = utf8_size s + utf8_size t"
  by simp

lemma utf8_size_strip_by: "utf8_size (strip_by p s) \<le> utf8_size s"
proof -
  obtain r where "lstrip_by p s = strip_by p s @ r"
    unfolding strip_by_def using rstrip_by_prefix by blast
  moreover have "s = takeWhile p s @ lstrip_by p s" by (simp add: lstrip_by_def)
  ultimately show ?thesis by (metis utf8_size_append le_add1 le_add2 le_trans)
qed

section \<open>Paths\<close>

text \<open>A \<open>PurePosixPath\<close>: its anchor and the parts below it.\<close>

record pypath =
  p_anchor :: pystr
  p_parts :: "pystr list"

definition path_of :: "pystr \<Rightarrow> pypath" where
  "path_of s =
     (let anchor = (if py_startswith s [c_slash, c_slash] \<and> \<not> py_startswith s [c_slash, c_slash, c_slash]
                    then [c_slash, c_slash]
                    else if py_startswith s [c_slash] then [c_slash] else [])
      in \<lparr>p_anchor = anchor,
          p_parts = filter (\<lambda>p. p \<noteq> [] \<and> p \<noteq> [c_dot]) (split_on c_slash s)\<rparr>)"

definition path_str :: "pypath \<Rightarrow> pystr" where
  "path_str p =
     (if p_anchor p = [] \<and> p_parts p = [] then [c_dot]
      else p_anchor p @ py_join [c_slash] (p_parts p))"

text \<open>\<open>root / Path(relative)\<close>: an absolute right operand replaces the left one.\<close>

definition path_div :: "pypath \<Rightarrow> pypath \<Rightarrow> pypath" where
  "path_div p q = (if p_anchor q \<noteq> [] then q else p\<lparr>p_parts := p_parts p @ p_parts q\<rparr>)"

text \<open>Splitting a joined list gives the list back, and a path of safe parts has these parts.\<close>

lemma split_on_no: "d \<notin> set s \<Longrightarrow> split_on d s = [s]"
  by (induction s) auto

lemma split_on_append: "d \<notin> set s \<Longrightarrow> split_on d (s @ d # t) = s # split_on d t"
  by (induction s) auto

lemma split_on_join:
  "ts \<noteq> [] \<Longrightarrow> list_all (\<lambda>t. d \<notin> set t) ts \<Longrightarrow> split_on d (py_join [d] ts) = ts"
  by (induction "[d]" ts rule: py_join.induct) (auto simp: split_on_no split_on_append)

lemma length_split_on: "length (split_on d s) = Suc (count_list s d)"
  by (induction s) (auto split: list.splits)

text \<open>A path component that names a file or directory below its parent.\<close>

definition contained :: "pystr \<Rightarrow> bool" where
  "contained t \<longleftrightarrow> t \<noteq> [] \<and> c_slash \<notin> set t \<and> t \<noteq> [c_dot] \<and> t \<noteq> [c_dot, c_dot]"

lemma join_startswith:
  assumes "ts \<noteq> []" "list_all contained ts"
  shows "\<not> py_startswith (py_join [c_slash] ts) [c_slash]"
proof -
  obtain t ts' where ts: "ts = t # ts'" using assms(1) by (cases ts) auto
  then obtain c t' where t: "t = c # t'" "c \<noteq> c_slash" using assms(2)
    by (cases t) (auto simp: contained_def)
  then have "\<exists>r. py_join [c_slash] ts = c # r" unfolding ts by (cases ts') auto
  with t show ?thesis by (auto simp: py_startswith_def)
qed

lemma startswith_shorter: "py_startswith s [c, d] \<Longrightarrow> py_startswith s [c]"
  by (auto simp: startswith_iff)

lemma path_of_join:
  assumes "ts \<noteq> []" "list_all contained ts"
  shows "path_of (py_join [c_slash] ts) = \<lparr>p_anchor = [], p_parts = ts\<rparr>"
proof -
  have "split_on c_slash (py_join [c_slash] ts) = ts"
    by (rule split_on_join) (use assms in \<open>simp_all add: list_all_iff contained_def\<close>)
  moreover have "filter (\<lambda>p. p \<noteq> [] \<and> p \<noteq> [c_dot]) ts = ts"
    using assms(2) by (auto simp: filter_id_conv list_all_iff contained_def)
  ultimately show ?thesis
    using join_startswith [OF assms] startswith_shorter
    by (auto simp: path_of_def Let_def)
qed

section \<open>Integer formats\<close>

text \<open>
  \<open>format(n, spec)\<close> for the specifications \<open>[0][width][d]\<close>; what other specifications of
  the mini-language give is a parameter \<open>other\<close>, \<open>None\<close> for a \<open>ValueError\<close>.
\<close>

definition simple_spec :: "pystr \<Rightarrow> (bool \<times> nat) option" where
  "simple_spec spec =
     (let zero = (case spec of c # _ \<Rightarrow> c = 48 | [] \<Rightarrow> False);
          digits = takeWhile is_digit_ascii spec;
          rest = dropWhile is_digit_ascii spec
      in if (rest = [] \<or> rest = [100]) \<and> length digits \<le> 9
         then Some (zero, foldl (\<lambda>n c. 10 * n + (c - 48)) 0 digits) else None)"

definition format_int :: "(pystr \<Rightarrow> int \<Rightarrow> pystr option) \<Rightarrow> int \<Rightarrow> pystr \<Rightarrow> pystr option" where
  "format_int other n spec =
     (case simple_spec spec of
        None \<Rightarrow> other spec n
      | Some (zero, width) \<Rightarrow>
          (let digits = nat_text (nat \<bar>n\<bar>); sign = (if n < 0 then [45] else []);
               fill = width - (length digits + length sign)
           in Some (if zero then sign @ replicate fill 48 @ digits
                    else replicate fill c_space @ sign @ digits)))"

end
