(* ===== verification/Naming.thy ===== *)
theory Naming
  imports Py_Text Script_Eval Script_Template
begin

text \<open>
  \<open>services/native/naming.py\<close>: the \<open>NamingTemplateEngine\<close>. The simple template of the import
  path (\<open>format_path\<close>, \<open>validate_template\<close>), the naming scripts of Library Management
  (\<open>validate_management_script\<close>, \<open>format_management_path\<close>), and the cleaning of path
  components that both rest on. A \<open>Path\<close> is a \<open>pypath\<close> of \<open>Py_Text\<close>. The Unicode tables
  \<open>u\<close> and the rarer integer formats \<open>other\<close> are parameters; a metadata field that holds a
  \<open>float\<close> is not modelled.
\<close>

section \<open>Characters and names that a component may not have\<close>

definition MAX_COMPONENT_BYTES :: nat where "MAX_COMPONENT_BYTES = 252"

definition RESERVED_NAMES :: "pystr list" where
  "RESERVED_NAMES =
     [lit ''con'', lit ''prn'', lit ''aux'', lit ''nul'']
       @ map (\<lambda>i. lit ''com'' @ nat_text i) [1..<10] @ map (\<lambda>i. lit ''lpt'' @ nat_text i) [1..<10]"

definition invalid_fs_char :: "cp \<Rightarrow> bool" where
  "invalid_fs_char c \<longleftrightarrow> c < 32 \<or> c \<in> {34, 42, 47, 58, 60, 62, 63, 92, 124, 127}"

definition always_invalid_value_char :: "cp \<Rightarrow> bool" where
  "always_invalid_value_char c \<longleftrightarrow> c < 32 \<or> c \<in> {47, 92, 127}"

text \<open>\<open>pattern.sub(replacement, value)\<close> for a pattern of one character.\<close>

definition sub_chars :: "(cp \<Rightarrow> bool) \<Rightarrow> pystr \<Rightarrow> pystr \<Rightarrow> pystr" where
  "sub_chars p replacement s = concat (map (\<lambda>c. if p c then replacement else [c]) s)"

definition strip_dots :: "pystr \<Rightarrow> pystr" where
  "strip_dots s = strip_by (\<lambda>c. c = c_space \<or> c = c_dot) s"

text \<open>\<open>s.split(".", 1)[0]\<close>.\<close>

definition before_dot :: "pystr \<Rightarrow> pystr" where
  "before_dot s = (case split_first c_dot s of None \<Rightarrow> s | Some (a, _) \<Rightarrow> a)"

section \<open>The import path: \<open>format_path\<close>\<close>

record audio_tag =
  at_title :: pystr
  at_artist :: pystr
  at_album :: pystr
  at_track_number :: int
  at_album_artist :: "pystr option"
  at_disc_number :: int
  at_year :: "int option"
  at_genre :: "pystr option"
  at_release_group_id :: "pystr option"
  at_artist_id :: "pystr option"

definition plain_variables :: "pystr list" where
  "plain_variables =
     [lit ''artist'', lit ''album'', lit ''albumartist'', lit ''year'', lit ''title'', lit ''ext'',
      lit ''musicbrainz_id'', lit ''artist_mbid'', lit ''genre'', lit ''medium'']"

definition formatted_variables :: "pystr list" where
  "formatted_variables = [lit ''track'', lit ''disc'']"

text \<open>\<open>value or default\<close> for optional text.\<close>

definition or_text :: "pystr option \<Rightarrow> pystr \<Rightarrow> pystr" where
  "or_text v d = (case v of None \<Rightarrow> d | Some s \<Rightarrow> if s = [] then d else s)"

definition lookup_variable :: "pystr \<Rightarrow> audio_tag \<Rightarrow> pystr \<Rightarrow> pystr" where
  "lookup_variable var tag ext =
     (if var = lit ''artist'' then at_artist tag
      else if var = lit ''album'' then at_album tag
      else if var = lit ''albumartist'' then or_text (at_album_artist tag) (at_artist tag)
      else if var = lit ''year''
      then (case at_year tag of None \<Rightarrow> [] | Some y \<Rightarrow> if y = 0 then [] else py_str_int y)
      else if var = lit ''title'' then at_title tag
      else if var = lit ''ext'' then ext
      else if var = lit ''track'' then py_str_int (at_track_number tag)
      else if var = lit ''disc'' then py_str_int (at_disc_number tag)
      else if var = lit ''genre'' then or_text (at_genre tag) []
      else if var = lit ''medium'' then []
      else if var = lit ''musicbrainz_id'' then or_text (at_release_group_id tag) []
      else if var = lit ''artist_mbid'' then or_text (at_artist_id tag) []
      else [])"

text \<open>
  \<open>_TOKEN.split(template)\<close>: the text between the matches of \<open>(\{[^}]+\})\<close> and the matches,
  in turn. \<open>acc\<close> is the text since the last match.
\<close>

function token_split :: "pystr \<Rightarrow> pystr \<Rightarrow> pystr list" where
  "token_split acc [] = [acc]"
| "token_split acc (c # s) =
     (if c = c_lbrace
      then (case split_first c_rbrace s of
              Some (inner, rest) \<Rightarrow>
                if inner \<noteq> [] then acc # (c_lbrace # inner @ [c_rbrace]) # token_split [] rest
                else token_split (acc @ [c]) s
            | None \<Rightarrow> token_split (acc @ [c]) s)
      else token_split (acc @ [c]) s)"
  by pat_completeness auto
termination
  by (relation "measure (\<lambda>(acc, s). length s)") (auto dest: split_first_shorter)

declare token_split.simps [simp del]

definition is_token_part :: "pystr \<Rightarrow> bool" where
  "is_token_part part \<longleftrightarrow> py_startswith part [c_lbrace] \<and> py_endswith part [c_rbrace]"

text \<open>\<open>part[1:-1].partition(":")\<close>: the variable and its format.\<close>

definition token_parts :: "pystr \<Rightarrow> pystr \<times> pystr" where
  "token_parts part =
     (let token = butlast (drop 1 part)
      in case split_first c_colon token of None \<Rightarrow> (token, []) | Some (var, fmt) \<Rightarrow> (var, fmt))"

datatype template_error =
    SegmentNotAllowed
  | UnknownVariable pystr
  | NoFormatSpec pystr

definition validate_part :: "pystr \<Rightarrow> template_error list" where
  "validate_part part =
     (if \<not> is_token_part part then []
      else (let (var, fmt) = token_parts part in
            if \<not> List.member plain_variables var \<and> \<not> List.member formatted_variables var
            then [UnknownVariable var]
            else if fmt \<noteq> [] \<and> \<not> List.member formatted_variables var
            then [NoFormatSpec var] else []))"

definition validate_template :: "unidb \<Rightarrow> pystr \<Rightarrow> template_error list" where
  "validate_template u template =
     concat (map (\<lambda>segment. if List.member [[c_dot, c_dot], [c_dot]] (py_strip u segment)
                             then [SegmentNotAllowed] else [])
                 (split_on c_slash template))
       @ concat (map validate_part (token_split [] template))"

definition render_part ::
  "unidb \<Rightarrow> (pystr \<Rightarrow> int \<Rightarrow> pystr option) \<Rightarrow> audio_tag \<Rightarrow> pystr \<Rightarrow> pystr \<Rightarrow> pystr" where
  "render_part u other tag ext part =
     (if is_token_part part
      then (let (var, fmt) = token_parts part;
                value = lookup_variable var tag ext;
                formatted =
                  (if fmt \<noteq> [] \<and> List.member formatted_variables var
                   then (case py_int u value of
                           None \<Rightarrow> lit ''00''
                         | Some n \<Rightarrow> (case format_int other n fmt of
                                       None \<Rightarrow> lit ''00'' | Some text \<Rightarrow> text))
                   else value)
            in sub_chars invalid_fs_char (lit ''_'') formatted)
      else part)"

definition render_template ::
  "unidb \<Rightarrow> (pystr \<Rightarrow> int \<Rightarrow> pystr option) \<Rightarrow> pystr \<Rightarrow> audio_tag \<Rightarrow> pystr \<Rightarrow> pypath" where
  "render_template u other template tag ext =
     path_of (concat (map (render_part u other tag ext) (token_split [] template)))"

definition clean_component :: "unidb \<Rightarrow> pystr \<Rightarrow> exc + pystr" where
  "clean_component u component =
     (let c1 = strip_dots (sub_chars invalid_fs_char (lit ''_'') (py_nfc u component));
          c2 = (if c1 = [] then lit ''_'' else c1);
          c3 = (if List.member RESERVED_NAMES (py_lower u (before_dot c2)) then lit ''_'' @ c2 else c2)
      in rbind (utf8_encode c3) (\<lambda>encoded.
           if MAX_COMPONENT_BYTES < length encoded
           then (let t = strip_dots (truncate_utf8 MAX_COMPONENT_BYTES encoded)
                 in Inr (if t = [] then lit ''_'' else t))
           else Inr c3))"

text \<open>The anchor is the first of \<open>path.parts\<close>, and it is dropped.\<close>

definition normalize_path :: "unidb \<Rightarrow> pypath \<Rightarrow> exc + pypath" where
  "normalize_path u path =
     rbind (rmap (clean_component u) (p_parts path)) (\<lambda>parts.
       Inr (if parts \<noteq> [] then path_of (py_join [c_slash] parts) else path_of (lit ''_'')))"

definition format_path ::
  "unidb \<Rightarrow> (pystr \<Rightarrow> int \<Rightarrow> pystr option) \<Rightarrow> pystr \<Rightarrow> audio_tag \<Rightarrow> pystr \<Rightarrow> exc + pypath" where
  "format_path u other template tag ext = normalize_path u (render_template u other template tag ext)"

section \<open>Naming scripts: validation\<close>

text \<open>\<open>MANAGED_FIELD_NAMES\<close> of \<open>api/v1/schemas/library_management.py\<close>.\<close>

definition MANAGED_FIELD_NAMES :: "pystr list" where
  "MANAGED_FIELD_NAMES =
     [lit ''album'', lit ''title'', lit ''album_sort'', lit ''title_sort'', lit ''artist'',
      lit ''album_artist'', lit ''artist_sort'', lit ''album_artist_sort'', lit ''track_number'',
      lit ''total_tracks'', lit ''disc_number'', lit ''total_discs'', lit ''disc_subtitle'',
      lit ''date'', lit ''original_date'', lit ''release_status'', lit ''release_country'',
      lit ''release_type'', lit ''media'', lit ''compilation'', lit ''label'',
      lit ''catalog_number'', lit ''barcode'', lit ''asin'', lit ''isrc'',
      lit ''musicbrainz_recording_id'', lit ''musicbrainz_release_track_id'',
      lit ''musicbrainz_release_id'', lit ''musicbrainz_release_group_id'',
      lit ''musicbrainz_artist_id'', lit ''musicbrainz_album_artist_id'', lit ''work'',
      lit ''musicbrainz_work_id'', lit ''movement'', lit ''movement_number'',
      lit ''movement_count'', lit ''composer'', lit ''lyricist'', lit ''conductor'',
      lit ''performer'', lit ''arranger'', lit ''remixer'', lit ''producer'',
      lit ''acoustid_id'', lit ''acoustid_fingerprint'']"

definition MANAGEMENT_VARIABLES :: "pystr list" where
  "MANAGEMENT_VARIABLES = MANAGED_FIELD_NAMES @
     [lit ''genre'', lit ''genres'', lit ''primary_genre'', lit ''artist_display'',
      lit ''artists'', lit ''artist_sorts'', lit ''album_artist_display'', lit ''album_artists'',
      lit ''album_artist_sorts'', lit ''albumartist'', lit ''year'', lit ''track'', lit ''disc'',
      lit ''ext'', lit ''extension'', lit ''medium'', lit ''album_disambiguation'',
      lit ''medium_format'', lit ''medium_number'', lit ''musicbrainz_id'', lit ''artist_mbid'',
      lit ''codec'', lit ''quality'', lit ''bitrate'', lit ''sample_rate'', lit ''bit_depth'',
      lit ''artwork_type'', lit ''artwork_comment'', lit ''artwork_extension'',
      lit ''artwork_format'']"

definition numeric_variables :: "pystr list" where
  "numeric_variables =
     [lit ''track'', lit ''disc'', lit ''track_number'', lit ''disc_number'',
      lit ''total_tracks'', lit ''total_discs'', lit ''medium_number'']"

definition validate_node :: "pystr \<Rightarrow> expr \<Rightarrow> exc + unit" where
  "validate_node name e =
     (case e of
        EVariable x l c \<Rightarrow>
          check (List.member MANAGEMENT_VARIABLES x) (ScriptError (Naming (UnknownNamingVariable x)) name l c)
      | _ \<Rightarrow> Inr ())"

fun validate_nodes :: "pystr \<Rightarrow> expr list \<Rightarrow> exc + unit" where
  "validate_nodes name [] = Inr ()"
| "validate_nodes name (e # es) = rbind (validate_node name e) (\<lambda>_. validate_nodes name es)"

definition validate_segment :: "pystr \<Rightarrow> segment \<Rightarrow> exc + unit" where
  "validate_segment name seg =
     (case seg of
        SegLiteral s l c \<Rightarrow> Inr ()
      | SegLegacy x fmt l c \<Rightarrow>
          rbind (check (List.member MANAGEMENT_VARIABLES x)
                  (ScriptError (Naming (UnknownNamingVariable x)) name l c)) (\<lambda>_.
            check (fmt = None \<or> fmt = Some [] \<or> List.member numeric_variables x)
              (ScriptError (Naming (NoNumericFormat x)) name l c))
      | SegExpression e l c \<Rightarrow> validate_nodes name (walk_expressions e))"

fun validate_segments :: "pystr \<Rightarrow> segment list \<Rightarrow> exc + unit" where
  "validate_segments name [] = Inr ()"
| "validate_segments name (seg # segs) =
     rbind (validate_segment name seg) (\<lambda>_. validate_segments name segs)"

definition validate_management_script :: "unidb \<Rightarrow> pystr \<Rightarrow> pystr \<Rightarrow> exc + unit" where
  "validate_management_script u name source =
     rbind (compile_naming_template u name source) (\<lambda>segments.
     rbind (check (\<not> (List.member source c_newline \<or> List.member source c_return))
             (ScriptError (Naming NotSinglePath) name 1 1)) (\<lambda>_.
     rbind (check (\<not> py_startswith source [c_slash])
             (ScriptError (Naming NotRelative) name 1 1)) (\<lambda>_.
     validate_segments name segments)))"

section \<open>What the cleaning promises\<close>

text \<open>A name that is legal on every host: no reserved character, no dot or space at its ends.\<close>

definition safe_component :: "pystr \<Rightarrow> bool" where
  "safe_component t \<longleftrightarrow>
     t \<noteq> [] \<and> list_all (\<lambda>c. \<not> invalid_fs_char c) t
       \<and> hd t \<notin> {c_space, c_dot} \<and> last t \<notin> {c_space, c_dot}"

lemma set_sub_chars: "set (sub_chars p rep s) \<subseteq> {c \<in> set s. \<not> p c} \<union> set rep"
  by (auto simp: sub_chars_def split: if_splits)

lemma invalid_slash [simp]: "invalid_fs_char c_slash"
  by (simp add: invalid_fs_char_def)

lemma safe_contained: "safe_component t \<Longrightarrow> contained t"
  using invalid_slash by (auto simp: safe_component_def contained_def list_all_iff)

lemma strip_dots_ends:
  assumes "strip_dots s \<noteq> []"
  shows "hd (strip_dots s) \<notin> {c_space, c_dot}" "last (strip_dots s) \<notin> {c_space, c_dot}"
  using strip_by_hd [of "\<lambda>c. c = c_space \<or> c = c_dot" s]
    strip_by_last [of "\<lambda>c. c = c_space \<or> c = c_dot" s] assms
  by (auto simp: strip_dots_def)

lemma set_strip_dots: "set (strip_dots s) \<subseteq> set s"
  by (simp add: strip_dots_def set_strip_by)

lemma strip_dots_safe:
  assumes "list_all (\<lambda>c. \<not> invalid_fs_char c) s" "strip_dots s \<noteq> []"
  shows "safe_component (strip_dots s)"
  using assms strip_dots_ends [OF assms(2)] set_strip_dots [of s]
  by (auto simp: safe_component_def list_all_iff)

lemma lit_underscore: "lit ''_'' = [c_underscore]"
  by (simp add: lit.simps)

lemma safe_underscore: "safe_component [c_underscore]"
  by (simp add: safe_component_def invalid_fs_char_def)

lemma safe_prefix: "safe_component t \<Longrightarrow> safe_component (c_underscore # t)"
  by (auto simp: safe_component_def invalid_fs_char_def)

lemma clean_component_Inr:
  assumes "clean_component u s = Inr t"
  shows "safe_component t" "utf8_size t \<le> MAX_COMPONENT_BYTES"
proof -
  define c1 where "c1 = strip_dots (sub_chars invalid_fs_char (lit ''_'') (py_nfc u s))"
  define c2 where "c2 = (if c1 = [] then lit ''_'' else c1)"
  define c3 where "c3 = (if List.member RESERVED_NAMES (py_lower u (before_dot c2))
                         then lit ''_'' @ c2 else c2)"
  have "list_all (\<lambda>c. \<not> invalid_fs_char c) (sub_chars invalid_fs_char (lit ''_'') (py_nfc u s))"
    using set_sub_chars [of invalid_fs_char "lit ''_''" "py_nfc u s"]
    by (auto simp: list_all_iff lit_underscore invalid_fs_char_def)
  then have "safe_component c2"
    by (auto simp: c1_def c2_def lit_underscore safe_underscore intro: strip_dots_safe)
  then have c3: "safe_component c3" by (simp add: c3_def lit_underscore safe_prefix)
  obtain bs where bs: "utf8_encode c3 = Inr bs"
    and t: "t = (if MAX_COMPONENT_BYTES < length bs
                 then (let x = strip_dots (truncate_utf8 MAX_COMPONENT_BYTES bs)
                       in if x = [] then lit ''_'' else x) else c3)"
    using assms unfolding clean_component_def Let_def c1_def [symmetric] c2_def [symmetric]
      c3_def [symmetric] by (auto simp: ok_simps split: if_splits)
  let ?x = "take_chars MAX_COMPONENT_BYTES c3"
  have x: "list_all (\<lambda>c. \<not> invalid_fs_char c) ?x"
    using c3 set_take_chars [of MAX_COMPONENT_BYTES c3]
    by (auto simp: safe_component_def list_all_iff)
  have size: "utf8_size (strip_dots ?x) \<le> MAX_COMPONENT_BYTES"
    unfolding strip_dots_def
    using utf8_size_strip_by [of _ ?x] take_chars_size [of MAX_COMPONENT_BYTES c3] le_trans by blast
  show "safe_component t"
    using c3 strip_dots_safe [OF x] by (simp add: t truncate_utf8_spec [OF bs] Let_def
      lit_underscore safe_underscore)
  show "utf8_size t \<le> MAX_COMPONENT_BYTES"
    using size length_utf8_encode [OF bs] by (simp add: t truncate_utf8_spec [OF bs] Let_def
      lit_underscore MAX_COMPONENT_BYTES_def utf8_width_def)
qed

text \<open>
  A name that Windows keeps for a device, with or without an extension. The cleaning disarms it unless the
  component has to be cut: then the cut can bring it back.
\<close>

definition device_name :: "pystr \<Rightarrow> bool" where
  "device_name t \<longleftrightarrow> List.member RESERVED_NAMES (map lower_ascii (before_dot t))"

lemma before_dot_underscore: "before_dot (c_underscore # s) = c_underscore # before_dot s"
  by (simp add: before_dot_def split: option.splits)

lemma device_underscore: "\<not> device_name (c_underscore # s)"
  by (auto simp: device_name_def before_dot_underscore RESERVED_NAMES_def lower_ascii_def lit.simps nat_text.simps)

lemma device_lower: "device_name t \<Longrightarrow> List.member RESERVED_NAMES (py_lower u (before_dot t))"
proof -
  assume d: "device_name t"
  have "is_ascii r" if "r \<in> set RESERVED_NAMES" for r
    using that by (auto simp: RESERVED_NAMES_def is_ascii_def lit.simps nat_text.simps)
  then have "is_ascii (map lower_ascii (before_dot t))" using d by (simp add: device_name_def)
  then have "is_ascii (before_dot t)" by (simp add: is_ascii_def list_all_iff)
  then show ?thesis using d by (simp add: device_name_def py_lower_def)
qed

lemma utf8_size_sub: "utf8_size (sub_chars invalid_fs_char (lit ''_'') s) = utf8_size s"
  by (induction s) (auto simp: sub_chars_def lit_underscore invalid_fs_char_def utf8_width_def)

lemma strip_underscore: "\<exists>r. strip_dots (c_underscore # s) = c_underscore # r"
proof -
  have l: "lstrip_by (\<lambda>c. c = c_space \<or> c = c_dot) (c_underscore # s) = c_underscore # s" by (simp add: lstrip_by_def)
  obtain r where r: "c_underscore # s = rstrip_by (\<lambda>c. c = c_space \<or> c = c_dot) (c_underscore # s) @ r"
    using rstrip_by_prefix by blast
  have "rstrip_by (\<lambda>c. c = c_space \<or> c = c_dot) (c_underscore # s) \<noteq> []" by (simp add: rstrip_by_def)
  then show ?thesis using r unfolding strip_dots_def strip_by_def l by (cases "rstrip_by (\<lambda>c. c = c_space \<or> c = c_dot) (c_underscore # s)") auto
qed

lemma clean_component_device:
  assumes "clean_component u s = Inr t" "device_name t"
  shows "MAX_COMPONENT_BYTES < utf8_size (py_nfc u s)"
proof -
  define c1 where "c1 = strip_dots (sub_chars invalid_fs_char (lit ''_'') (py_nfc u s))"
  define c2 where "c2 = (if c1 = [] then lit ''_'' else c1)"
  define c3 where "c3 = (if List.member RESERVED_NAMES (py_lower u (before_dot c2)) then lit ''_'' @ c2 else c2)"
  obtain bs where bs: "utf8_encode c3 = Inr bs"
    and t: "t = (if MAX_COMPONENT_BYTES < length bs
                 then (let x = strip_dots (truncate_utf8 MAX_COMPONENT_BYTES bs) in if x = [] then lit ''_'' else x) else c3)"
    using assms unfolding clean_component_def Let_def c1_def [symmetric] c2_def [symmetric]
      c3_def [symmetric] by (auto simp: ok_simps split: if_splits)
  have n: "\<not> device_name (c_underscore # r)" for r by (rule device_underscore)
  have same: "c3 = c2"
  proof (rule ccontr)
    assume "c3 \<noteq> c2"
    then have c3: "c3 = c_underscore # c2" by (simp add: c3_def lit_underscore split: if_splits)
    then have "\<exists>r. t = c_underscore # r"
      using strip_underscore by (auto simp: t truncate_utf8_spec [OF bs] Let_def lit_underscore MAX_COMPONENT_BYTES_def utf8_width_def)
    then show False using assms(2) n by auto
  qed
  then have "\<not> device_name c2"
    using device_lower [of c2 u] by (auto simp: c3_def lit_underscore split: if_splits)
  then have "MAX_COMPONENT_BYTES < utf8_size c2"
    using t assms(2) same length_utf8_encode [OF bs] by (simp split: if_splits)
  moreover have "utf8_size c2 \<le> max 1 (utf8_size (py_nfc u s))"
    using utf8_size_strip_by [of "\<lambda>c. c = c_space \<or> c = c_dot" "sub_chars invalid_fs_char (lit ''_'') (py_nfc u s)"]
    by (simp add: c2_def c1_def strip_dots_def utf8_size_sub [unfolded lit_underscore] lit_underscore utf8_width_def le_max_iff_disj)
  ultimately show ?thesis by (simp add: MAX_COMPONENT_BYTES_def)
qed

lemma clean_component_Inl: "clean_component u s = Inl e \<Longrightarrow> e = UnicodeEncodeError"
  by (auto simp: clean_component_def Let_def rbind_Inl_iff utf8_encode_def split: if_splits)

text \<open>
  The contract between a cleaner and the code that joins cleaned components into a path:
  the joined path is relative and has exactly these components.
\<close>

locale component_cleaner =
  fixes clean :: "pystr \<Rightarrow> exc + pystr"
  assumes clean_contained: "clean s = Inr t \<Longrightarrow> contained t"
begin

lemma rmap_contained: "rmap clean parts = Inr ts \<Longrightarrow> list_all contained ts"
  by (induction parts arbitrary: ts) (auto simp: ok_simps clean_contained)

lemma cleaned_path:
  assumes "rmap clean parts = Inr ts" "parts \<noteq> []"
  shows "path_of (py_join [c_slash] ts) = \<lparr>p_anchor = [], p_parts = ts\<rparr>"
proof -
  have "ts \<noteq> []" using assms rmap_Inr_length [OF assms(1)] by auto
  then show ?thesis by (rule path_of_join) (rule rmap_contained [OF assms(1)])
qed

lemma cleaned_below:
  assumes "rmap clean parts = Inr ts" "parts \<noteq> []"
  shows "path_div root (path_of (py_join [c_slash] ts)) = root\<lparr>p_parts := p_parts root @ ts\<rparr>"
  by (simp add: cleaned_path [OF assms] path_div_def)

end

interpretation import_cleaner: component_cleaner "clean_component u" for u
  by unfold_locales (rule safe_contained, erule clean_component_Inr)

lemma rmap_all:
  "rmap f xs = Inr ys \<Longrightarrow> (\<And>x y. f x = Inr y \<Longrightarrow> P y) \<Longrightarrow> list_all P ys"
  by (induction xs arbitrary: ys) (auto simp: ok_simps)

lemma rmap_origin: "rmap f xs = Inr ys \<Longrightarrow> y \<in> set ys \<Longrightarrow> \<exists>x\<in>set xs. f x = Inr y"
  by (induction xs arbitrary: ys) (auto simp: ok_simps)

lemma rmap_Inl: "rmap f xs = Inl e \<Longrightarrow> \<exists>x \<in> set xs. f x = Inl e"
  by (induction xs) (auto simp: rbind_Inl_iff)

lemma normalize_path_Inr:
  assumes "normalize_path u path = Inr p"
  shows "p_anchor p = []" "p_parts p \<noteq> []" "list_all safe_component (p_parts p)"
    "list_all (\<lambda>t. utf8_size t \<le> MAX_COMPONENT_BYTES) (p_parts p)"
    "length (p_parts p) = max 1 (length (p_parts path))"
    "t \<in> set (p_parts p) \<Longrightarrow> device_name t \<Longrightarrow>
       \<exists>s\<in>set (p_parts path). clean_component u s = Inr t \<and> MAX_COMPONENT_BYTES < utf8_size (py_nfc u s)"
proof -
  obtain ts where ts: "rmap (clean_component u) (p_parts path) = Inr ts"
    and p: "p = (if ts \<noteq> [] then path_of (py_join [c_slash] ts) else path_of (lit ''_''))"
    using assms by (auto simp: normalize_path_def ok_simps)
  have len: "length ts = length (p_parts path)" by (rule rmap_Inr_length [OF ts])
  have safe: "list_all safe_component ts"
    by (rule rmap_all [OF ts]) (rule clean_component_Inr(1))
  have size: "list_all (\<lambda>t. utf8_size t \<le> MAX_COMPONENT_BYTES) ts"
    by (rule rmap_all [OF ts]) (rule clean_component_Inr(2))
  have one: "path_of (lit ''_'') = \<lparr>p_anchor = [], p_parts = [[c_underscore]]\<rparr>"
    by (simp add: lit_underscore path_of_def py_startswith_def)
  have p': "p = (if ts \<noteq> [] then \<lparr>p_anchor = [], p_parts = ts\<rparr>
                 else \<lparr>p_anchor = [], p_parts = [[c_underscore]]\<rparr>)"
    unfolding p one using import_cleaner.cleaned_path [OF ts] len by (cases "p_parts path") auto
  show "p_anchor p = []" "p_parts p \<noteq> []" by (simp_all add: p')
  show "list_all safe_component (p_parts p)" using safe by (simp add: p' safe_underscore)
  show "list_all (\<lambda>t. utf8_size t \<le> MAX_COMPONENT_BYTES) (p_parts p)"
    using size by (simp add: p' MAX_COMPONENT_BYTES_def utf8_width_def)
  show "length (p_parts p) = max 1 (length (p_parts path))"
    using len by (cases ts) (auto simp: p')
  show "\<exists>s\<in>set (p_parts path). clean_component u s = Inr t \<and> MAX_COMPONENT_BYTES < utf8_size (py_nfc u s)"
    if "t \<in> set (p_parts p)" "device_name t"
  proof -
    have "t \<in> set ts" using that device_underscore [of "[]"] by (auto simp: p' split: if_splits)
    then obtain s where "s \<in> set (p_parts path)" "clean_component u s = Inr t" using rmap_origin [OF ts] by blast
    then show ?thesis using clean_component_device [OF _ that(2)] by blast
  qed
qed

text \<open>The separators that the template itself writes: those outside its tokens.\<close>

definition template_slashes :: "pystr \<Rightarrow> nat" where
  "template_slashes template =
     count_list (concat (filter (\<lambda>p. \<not> is_token_part p) (token_split [] template))) c_slash"

lemma render_part_slashes:
  "count_list (render_part u other tag ext part) c_slash
     = (if is_token_part part then 0 else count_list part c_slash)"
proof (cases "is_token_part part")
  case True
  have "c_slash \<notin> set (sub_chars invalid_fs_char (lit ''_'') s)" for s
    using set_sub_chars [of invalid_fs_char "lit ''_''" s]
    by (auto simp: lit_underscore invalid_fs_char_def)
  with True show ?thesis
    by (simp add: render_part_def Let_def split_def count_list_0_iff)
qed (simp add: render_part_def)

lemma render_slashes:
  "count_list (concat (map (render_part u other tag ext) parts)) c_slash
     = count_list (concat (filter (\<lambda>p. \<not> is_token_part p) parts)) c_slash"
  by (induction parts) (auto simp: render_part_slashes)

lemma length_path_parts: "length (p_parts (path_of s)) \<le> Suc (count_list s c_slash)"
  using length_filter_le [of _ "split_on c_slash s"]
  by (simp add: path_of_def Let_def length_split_on)

lemma render_template_depth:
  "length (p_parts (render_template u other template tag ext)) \<le> Suc (template_slashes template)"
  unfolding render_template_def template_slashes_def
  by (metis length_path_parts render_slashes)

text \<open>
  C11. The path of an imported file is relative and stays below the library root whatever the
  tags hold: every component has at most 252 bytes and no character that a file system refuses, none
  is empty, \<open>.\<close> or \<open>..\<close> or has a dot or a space at an end, and the values of the tags add no
  component to those of the template. A component is the name of a device of Windows only when the
  component it was made from was longer than 252 bytes and had to be cut (then it can be one, see
  \<open>reserved_name_returns\<close>). The only exception is the \<open>UnicodeEncodeError\<close> of text with a lone
  surrogate.
\<close>
theorem format_path_safe:
  "case format_path u other template tag ext of
     Inl e \<Rightarrow> e = UnicodeEncodeError
   | Inr p \<Rightarrow> p_anchor p = [] \<and> p_parts p \<noteq> []
       \<and> list_all (\<lambda>t. safe_component t \<and> contained t \<and> utf8_size t \<le> MAX_COMPONENT_BYTES) (p_parts p)
       \<and> {t \<in> set (p_parts p). device_name t} \<subseteq>
           {t. \<exists>s\<in>set (p_parts (render_template u other template tag ext)).
                 clean_component u s = Inr t \<and> MAX_COMPONENT_BYTES < utf8_size (py_nfc u s)}
       \<and> length (p_parts p) \<le> Suc (template_slashes template)
       \<and> path_div root p = root\<lparr>p_parts := p_parts root @ p_parts p\<rparr>"
proof (cases "format_path u other template tag ext")
  case (Inl e)
  then show ?thesis
    by (auto simp: format_path_def normalize_path_def rbind_Inl_iff dest!: rmap_Inl clean_component_Inl)
next
  case (Inr p)
  then have "normalize_path u (render_template u other template tag ext) = Inr p"
    by (simp add: format_path_def)
  note n = normalize_path_Inr [OF this]
  have "{t \<in> set (p_parts p). device_name t} \<subseteq>
     {t. \<exists>s\<in>set (p_parts (render_template u other template tag ext)).
           clean_component u s = Inr t \<and> MAX_COMPONENT_BYTES < utf8_size (py_nfc u s)}" using n(6) by blast
  with n(1-5) render_template_depth [of u other template tag ext] Inr
  show ?thesis by (simp add: list_all_iff safe_contained path_div_def)
qed


section \<open>A reserved name can come back\<close>

text \<open>
  The reserved device names are disarmed before the component is cut to 252 bytes, and the
  cut strips spaces again: a long name can be cut down to a reserved one.
\<close>

lemma sub_chars_id: "list_all (\<lambda>c. \<not> p c) s \<Longrightarrow> sub_chars p rep s = s"
  by (induction s) (auto simp: sub_chars_def)

lemma take_chars_ascii: "is_ascii s \<Longrightarrow> take_chars n s = take n s"
proof (induction s arbitrary: n)
  case (Cons c s)
  then show ?case by (cases n) (auto simp: utf8_width_def)
qed simp

lemma reserved_short: "r \<in> set RESERVED_NAMES \<Longrightarrow> length r \<le> 4"
  by (auto simp: RESERVED_NAMES_def nat_text.simps)

lemma utf8_encode_ascii: "is_ascii s \<Longrightarrow> \<exists>bs. utf8_encode s = Inr bs \<and> length bs = length s"
proof -
  assume s: "is_ascii s"
  then have "list_all encodable s" by (auto simp: is_ascii_def list_all_iff encodable_def is_surrogate_def)
  moreover have "utf8_size s = length s" using s by (induction s) (auto simp: utf8_width_def)
  ultimately show ?thesis by (auto simp: utf8_encode_def length_concat o_def)
qed

lemma clean_component_reserved:
  assumes "249 \<le> n"
  shows "clean_component u (lit ''con'' @ replicate n c_space @ lit ''x'') = Inr (lit ''con'')"
proof -
  define s where "s = lit ''con'' @ replicate n c_space @ lit ''x''"
  have s: "s = [99, 111, 110] @ replicate n c_space @ [120]" by (simp add: s_def lit.simps)
  have ascii: "is_ascii s" by (simp add: s) (simp add: is_ascii_def list_all_iff)
  then obtain bs where bs: "utf8_encode s = Inr bs" "length bs = length s"
    using utf8_encode_ascii by blast
  have sub: "sub_chars invalid_fs_char (lit ''_'') s = s"
    by (rule sub_chars_id) (auto simp: s list_all_iff invalid_fs_char_def)
  have strip: "strip_dots s = s"
    unfolding strip_dots_def by (rule strip_by_id) (simp add: s)
  have before: "before_dot s = s"
    using split_first_None [of c_dot s] by (auto simp: before_dot_def s)
  have lower: "map lower_ascii s \<notin> set RESERVED_NAMES"
    using reserved_short [of "map lower_ascii s"] assms by (auto simp: s)
  have take: "take 252 s = [99, 111, 110] @ replicate 249 c_space"
    using assms by (simp add: s)
  have cut: "strip_dots (take 252 s) = lit ''con''"
    using dropWhile_append2 [of "replicate 249 c_space" "\<lambda>c. c = c_space \<or> c = c_dot" "[110, 111, 99]"]
    by (simp add: take strip_dots_def strip_by_def lstrip_by_def rstrip_by_def lit.simps)
  have "length s = n + 4" "s \<noteq> []" by (simp_all add: s)
  then show ?thesis
    unfolding s_def [symmetric] clean_component_def Let_def
    using ascii strip before lower cut bs assms
    by (simp add: py_nfc_def py_lower_def sub truncate_utf8_spec [OF bs(1)] take_chars_ascii
        MAX_COMPONENT_BYTES_def)
qed

text \<open>
  Some name that is not reserved is cleaned into a reserved device name: \<open>con\<close>, many
  spaces and one more letter are cut down to \<open>con\<close>.
\<close>
theorem reserved_name_returns:
  "\<exists>s. clean_component u s = Inr (lit ''con'') \<and> lit ''con'' \<in> set RESERVED_NAMES"
  using clean_component_reserved [of 249 u] by (auto simp: RESERVED_NAMES_def)

end
