(* ===== verification/Naming_Script.thy ===== *)
theory Naming_Script
  imports Naming
begin

text \<open>
  Rendering of a naming script (\<open>services/native/naming.py\<close>): the variables of a document
  (\<open>_management_variables\<close>), the rendering loop, the cleaning of each component
  (\<open>_clean_management_component\<close>) and the limits (\<open>format_management_path\<close>).
\<close>

section \<open>Documents and settings\<close>

record metadata_document =
  md_fields :: "(pystr \<times> sval) list"
  md_artist_display :: "pystr option"
  md_album_artist_display :: "pystr option"

definition value_for :: "metadata_document \<Rightarrow> pystr \<Rightarrow> sval" where
  "value_for md name = (case map_of (md_fields md) name of None \<Rightarrow> VNone | Some v \<Rightarrow> v)"

definition strings_for :: "metadata_document \<Rightarrow> pystr \<Rightarrow> pystr list" where
  "strings_for md name =
     (case value_for md name of VTup xs \<Rightarrow> xs | VStr s \<Rightarrow> [s] | _ \<Rightarrow> [])"

record read_document =
  rd_extension :: pystr
  rd_detected_format :: "pystr option"
  rd_metadata :: metadata_document
  rd_bitrate_bps :: int
  rd_sample_rate_hz :: int
  rd_bit_depth :: "int option"
  rd_codec :: "pystr option"

datatype unicode_form = NFC | NFKC

datatype extension_case = PreserveCase | LowerCase | UpperCase

record path_compat =
  pc_windows_compatible :: bool
  pc_replace_non_ascii :: bool
  pc_replace_spaces :: bool
  pc_separator_replacement :: pystr
  pc_maximum_component :: nat
  pc_maximum_path :: nat
  pc_unicode_form :: unicode_form
  pc_extension_case :: extension_case
  pc_windows_legacy_limit :: bool

definition default_compat :: path_compat where
  "default_compat =
     \<lparr>pc_windows_compatible = True, pc_replace_non_ascii = False, pc_replace_spaces = False,
      pc_separator_replacement = lit ''_'', pc_maximum_component = 240, pc_maximum_path = 4096,
      pc_unicode_form = NFC, pc_extension_case = PreserveCase, pc_windows_legacy_limit = False\<rparr>"

text \<open>The bounds that \<open>validate_library_management_settings\<close> puts on the settings of a profile.\<close>

definition valid_compat :: "path_compat \<Rightarrow> bool" where
  "valid_compat c \<longleftrightarrow>
     length (pc_separator_replacement c) = 1
       \<and> \<not> list_ex (\<lambda>x. x = c_slash \<or> x = c_backslash \<or> x = 0) (pc_separator_replacement c)
       \<and> 1 \<le> pc_maximum_component c \<and> pc_maximum_component c \<le> 255
       \<and> 64 \<le> pc_maximum_path c \<and> pc_maximum_path c \<le> 32767"

record naming_context =
  nc_album_disambiguation :: pystr
  nc_medium_format :: pystr
  nc_medium_number :: int

record artwork_names =
  an_type :: pystr
  an_comment :: pystr
  an_extension :: pystr
  an_format :: pystr

section \<open>Variables\<close>

definition opt_text :: "pystr option \<Rightarrow> sval" where
  "opt_text v = (case v of None \<Rightarrow> VNone | Some s \<Rightarrow> VStr s)"

definition opt_int :: "int option \<Rightarrow> sval" where
  "opt_int v = (case v of None \<Rightarrow> VNone | Some n \<Rightarrow> VInt n)"

definition head_text :: "pystr list \<Rightarrow> pystr" where
  "head_text xs = (case xs of [] \<Rightarrow> [] | x # _ \<Rightarrow> x)"

text \<open>\<open>max(0, round(bps / 1000))\<close>: to the nearest integer, a half to the even one.\<close>

definition kilobits :: "int \<Rightarrow> int" where
  "kilobits bps =
     (let q = bps div 1000; r = bps mod 1000
      in max 0 (if r < 500 \<or> r = 500 \<and> even q then q else q + 1))"

definition removeprefix :: "pystr \<Rightarrow> pystr \<Rightarrow> pystr" where
  "removeprefix s p = (if py_startswith s p then drop (length p) s else s)"

definition management_variables ::
  "unidb \<Rightarrow> read_document \<Rightarrow> path_compat \<Rightarrow> artwork_names \<Rightarrow> naming_context option \<Rightarrow> variables"
where
  "management_variables u doc cfg art ctx =
     (let md = rd_metadata doc;
          artists = strings_for md (lit ''artist'');
          album_artists = strings_for md (lit ''album_artist'');
          artist_sorts = strings_for md (lit ''artist_sort'');
          album_artist_sorts = strings_for md (lit ''album_artist_sort'');
          genres = strings_for md (lit ''genre'');
          date = value_for md (lit ''date'');
          raw = removeprefix (rd_extension doc) [c_dot];
          extension = (case pc_extension_case cfg of
                         LowerCase \<Rightarrow> py_lower u raw | UpperCase \<Rightarrow> py_upper u raw
                       | PreserveCase \<Rightarrow> raw);
          bitrate = kilobits (rd_bitrate_bps doc);
          artist_display = or_text (md_artist_display md) (head_text artists);
          album_artist_display = or_text (md_album_artist_display md) (head_text album_artists)
      in dict_update (dict_update [] (md_fields md))
          [(lit ''artist'', VStr artist_display),
           (lit ''artists'', VTup artists),
           (lit ''artist_display'', VStr (or_text (md_artist_display md) [])),
           (lit ''artist_sorts'', VTup artist_sorts),
           (lit ''artist_sort'', VStr (head_text artist_sorts)),
           (lit ''album_artist'', VStr album_artist_display),
           (lit ''albumartist'', VStr (or_text (Some album_artist_display) artist_display)),
           (lit ''album_artists'', VTup album_artists),
           (lit ''album_artist_display'', VStr (or_text (md_album_artist_display md) [])),
           (lit ''album_artist_sorts'', VTup album_artist_sorts),
           (lit ''album_artist_sort'', VStr (head_text album_artist_sorts)),
           (lit ''genre'', VStr (head_text genres)),
           (lit ''genres'', VTup genres),
           (lit ''primary_genre'', VStr (head_text genres)),
           (lit ''year'', VStr (case date of VStr s \<Rightarrow> take 4 s | _ \<Rightarrow> [])),
           (lit ''track'', value_for md (lit ''track_number'')),
           (lit ''disc'', value_for md (lit ''disc_number'')),
           (lit ''ext'', VStr extension),
           (lit ''extension'', VStr extension),
           (lit ''medium'', value_for md (lit ''media'')),
           (lit ''musicbrainz_id'', value_for md (lit ''musicbrainz_release_group_id'')),
           (lit ''artist_mbid'', VStr (head_text (strings_for md (lit ''musicbrainz_artist_id'')))),
           (lit ''codec'', (if or_text (rd_codec doc) [] \<noteq> [] then opt_text (rd_codec doc)
                            else opt_text (rd_detected_format doc))),
           (lit ''quality'', VStr (if rd_bit_depth doc \<noteq> None then lit ''lossless''
                                   else py_str_int bitrate @ lit ''kbps'')),
           (lit ''bitrate'', VInt bitrate),
           (lit ''sample_rate'', VInt (rd_sample_rate_hz doc)),
           (lit ''bit_depth'', opt_int (rd_bit_depth doc)),
           (lit ''artwork_type'', VStr (an_type art)),
           (lit ''artwork_comment'', VStr (an_comment art)),
           (lit ''artwork_extension'', VStr (an_extension art)),
           (lit ''artwork_format'', VStr (an_format art)),
           (lit ''album_disambiguation'',
              VStr (case ctx of None \<Rightarrow> [] | Some x \<Rightarrow> nc_album_disambiguation x)),
           (lit ''medium_format'', VStr (case ctx of None \<Rightarrow> [] | Some x \<Rightarrow> nc_medium_format x)),
           (lit ''medium_number'', VInt (case ctx of None \<Rightarrow> 0 | Some x \<Rightarrow> nc_medium_number x))])"

section \<open>Rendering\<close>

definition script_text :: "sval \<Rightarrow> pystr" where
  "script_text v =
     (case v of
        VNone \<Rightarrow> []
      | VBool b \<Rightarrow> if b then lit ''true'' else lit ''false''
      | VTup xs \<Rightarrow> py_join (lit ''; '') xs
      | VInt n \<Rightarrow> py_str_int n
      | VStr s \<Rightarrow> s)"

definition invalid_for :: "bool \<Rightarrow> cp \<Rightarrow> bool" where
  "invalid_for windows c = (if windows then invalid_fs_char c else always_invalid_value_char c)"

definition sanitize_substituted_value :: "pystr \<Rightarrow> pystr \<Rightarrow> bool \<Rightarrow> pystr" where
  "sanitize_substituted_value value replacement windows =
     sub_chars (invalid_for windows) replacement value"

definition format_legacy ::
  "unidb \<Rightarrow> (pystr \<Rightarrow> int \<Rightarrow> pystr option) \<Rightarrow> exc \<Rightarrow> pystr option \<Rightarrow> pystr \<Rightarrow> exc + pystr" where
  "format_legacy u other error fmt text =
     (case fmt of
        None \<Rightarrow> Inr text
      | Some spec \<Rightarrow>
          if spec = [] then Inr text
          else (case py_int u text of
                  None \<Rightarrow> Inl error
                | Some n \<Rightarrow>
                    (case format_int other n spec of None \<Rightarrow> Inl error | Some s \<Rightarrow> Inr s)))"

definition render_segment ::
  "unidb \<Rightarrow> (pystr \<Rightarrow> int \<Rightarrow> pystr option) \<Rightarrow> path_compat \<Rightarrow> pystr \<Rightarrow> variables \<Rightarrow> segment \<Rightarrow> budget
     \<Rightarrow> exc + (pystr \<times> budget)" where
  "render_segment u other cfg name vars seg b =
     (let sanitize = (\<lambda>text. sanitize_substituted_value text (pc_separator_replacement cfg)
                               (pc_windows_compatible cfg))
      in case seg of
           SegLiteral s l c \<Rightarrow> Inr (s, b)
         | SegLegacy x fmt l c \<Rightarrow>
             rbind (format_legacy u other (ScriptError (Naming NonIntegerFormat) name l c) fmt
                     (script_text (variable_value vars x)))
               (\<lambda>text. Inr (sanitize text, b))
         | SegExpression e l c \<Rightarrow>
             rbind (evaluate u vars e b) (\<lambda>(v, b'). Inr (sanitize (script_text v), b')))"

fun render_segments ::
  "unidb \<Rightarrow> (pystr \<Rightarrow> int \<Rightarrow> pystr option) \<Rightarrow> path_compat \<Rightarrow> pystr \<Rightarrow> variables \<Rightarrow> segment list
     \<Rightarrow> budget \<Rightarrow> exc + (pystr list \<times> budget)" where
  "render_segments u other cfg name vars [] b = Inr ([], b)"
| "render_segments u other cfg name vars (seg # segs) b =
     rbind (render_segment u other cfg name vars seg b) (\<lambda>(text, b1).
     rbind (render_segments u other cfg name vars segs b1) (\<lambda>(texts, b2).
       Inr (text # texts, b2)))"

definition normal_form :: "unidb \<Rightarrow> unicode_form \<Rightarrow> pystr \<Rightarrow> pystr" where
  "normal_form u form s = (case form of NFC \<Rightarrow> py_nfc u s | NFKC \<Rightarrow> py_nfkc u s)"

definition is_reserved :: "unidb \<Rightarrow> pystr \<Rightarrow> bool" where
  "is_reserved u s \<longleftrightarrow> List.member RESERVED_NAMES (py_casefold u (before_dot s))"

text \<open>The text before its length is looked at: everything up to \<open>cleaned.encode("utf-8")\<close>.\<close>

definition fold_component :: "unidb \<Rightarrow> path_compat \<Rightarrow> pystr \<Rightarrow> pystr" where
  "fold_component u cfg component =
     (let replacement = pc_separator_replacement cfg;
          c1 = sub_chars (invalid_for (pc_windows_compatible cfg)) replacement
                 (normal_form u (pc_unicode_form cfg) component);
          c2 = (if pc_replace_non_ascii cfg
                then (let folded = filter (\<lambda>c. c < 128) (py_nfkd u c1)
                      in if folded = [] then replacement else folded)
                else c1);
          c3 = (if pc_replace_spaces cfg
                then map (\<lambda>c. if c = c_space then c_underscore else c) c2 else c2);
          c4 = (if pc_windows_compatible cfg
                then (let t = strip_dots c3
                      in if t \<noteq> [] \<and> is_reserved u t then replacement @ t else t)
                else c3)
      in if c4 = [] then replacement else c4)"

definition clean_management_component :: "unidb \<Rightarrow> path_compat \<Rightarrow> pystr \<Rightarrow> exc + pystr" where
  "clean_management_component u cfg component =
     (let replacement = pc_separator_replacement cfg;
          cleaned = fold_component u cfg component;
          maximum = pc_maximum_component cfg;
          windows = pc_windows_compatible cfg
      in rbind (utf8_encode cleaned) (\<lambda>encoded.
           if maximum < length encoded
           then (let t1 = truncate_utf8 maximum encoded;
                     t2 = (if windows then strip_dots t1 else t1);
                     t3 = (if t2 = [] then replacement else t2)
                 in if windows \<and> is_reserved u t3
                    then rbind (utf8_encode (replacement @ t3)) (\<lambda>bytes.
                           Inr (truncate_utf8 maximum bytes))
                    else Inr t3)
           else Inr cleaned))"

record render_result =
  rr_relative_path :: pystr
  rr_collision_key :: pystr
  rr_rendered_characters :: nat

definition limit_error :: "naming_reason \<Rightarrow> pystr \<Rightarrow> exc" where
  "limit_error r name = PathLimitError (Naming r) name 1 1"

text \<open>The limits on the relative and the absolute path.\<close>

definition check_limits :: "path_compat \<Rightarrow> pystr \<Rightarrow> pypath option \<Rightarrow> pystr \<Rightarrow> exc + unit" where
  "check_limits cfg name root relative =
     rbind (utf8_encode relative) (\<lambda>encoded.
     rbind (check (length encoded \<le> pc_maximum_path cfg) (limit_error RelativeTooLong name)) (\<lambda>_.
     let absolute = (case root of None \<Rightarrow> relative
                                | Some r \<Rightarrow> path_str (path_div r (path_of relative)))
     in rbind (utf8_encode absolute) (\<lambda>encoded_absolute.
        rbind (check (length encoded_absolute \<le> pc_maximum_path cfg)
                (limit_error AbsoluteTooLong name)) (\<lambda>_.
        check (\<not> (pc_windows_legacy_limit cfg \<and> 259 < length absolute))
          (limit_error WindowsTooLong name)))))"

text \<open>What follows the rendering of the segments.\<close>

definition finish_path ::
  "unidb \<Rightarrow> path_compat \<Rightarrow> pystr \<Rightarrow> pypath option \<Rightarrow> pystr \<Rightarrow> exc + render_result" where
  "finish_path u cfg name root raw =
     (let parts = split_on c_slash raw
      in if raw = [] \<or> py_startswith raw [c_slash]
            \<or> list_ex (\<lambda>p. List.member [[], [c_dot], [c_dot, c_dot]] p) parts
         then Inl (ScriptError (Naming BadPath) name 1 1)
         else rbind (rmap (clean_management_component u cfg) parts) (\<lambda>cleaned.
           let relative = py_join [c_slash] cleaned
           in rbind (check_limits cfg name root relative) (\<lambda>_.
                Inr \<lparr>rr_relative_path = relative,
                     rr_collision_key =
                       py_join [c_slash] (map (\<lambda>p. py_casefold u (py_nfc u p)) cleaned),
                     rr_rendered_characters = length relative\<rparr>)))"

definition format_management_path ::
  "unidb \<Rightarrow> (pystr \<Rightarrow> int \<Rightarrow> pystr option) \<Rightarrow> pystr \<Rightarrow> read_document \<Rightarrow> path_compat \<Rightarrow> pystr
     \<Rightarrow> pypath option \<Rightarrow> artwork_names \<Rightarrow> naming_context option \<Rightarrow> exc + render_result" where
  "format_management_path u other source doc cfg name root art ctx =
     rbind (validate_management_script u name source) (\<lambda>_.
     let vars = management_variables u doc cfg art ctx
     in rbind (compile_naming_template u name source) (\<lambda>segments.
        rbind (render_segments u other cfg name vars segments (new_budget name)) (\<lambda>(texts, _).
        finish_path u cfg name root (concat texts))))"

section \<open>What the cleaning promises\<close>

text \<open>
  Settings under which the cleaned names are safe: valid, with Windows compatibility, without
  the ASCII fold, and with a replacement that is not a dot and fits a component.
\<close>

definition portable_settings :: "path_compat \<Rightarrow> bool" where
  "portable_settings cfg \<longleftrightarrow>
     valid_compat cfg \<and> pc_windows_compatible cfg \<and> \<not> pc_replace_non_ascii cfg
       \<and> pc_separator_replacement cfg \<noteq> [c_dot]
       \<and> utf8_size (pc_separator_replacement cfg) \<le> pc_maximum_component cfg"

lemma portable_replacement:
  assumes "portable_settings cfg"
  obtains r where "pc_separator_replacement cfg = [r]" "r \<noteq> c_slash" "r \<noteq> c_dot"
    "utf8_width r \<le> pc_maximum_component cfg"
  using assms by (auto simp: portable_settings_def valid_compat_def length_Suc_conv)

lemma contained_Cons: "r \<noteq> c_slash \<Longrightarrow> r \<noteq> c_dot \<Longrightarrow> c_slash \<notin> set t \<Longrightarrow> contained (r # t)"
  by (auto simp: contained_def)

lemma contained_strip:
  assumes "c_slash \<notin> set s" "strip_dots s \<noteq> []"
  shows "contained (strip_dots s)"
  using assms(1) set_strip_dots [of s] strip_dots_ends [OF assms(2)] assms(2)
  by (auto simp: contained_def)

lemma invalid_for_slash: "invalid_for w c_slash"
  by (simp add: invalid_for_def always_invalid_value_char_def)

lemma fold_component_contained:
  assumes "portable_settings cfg"
  shows "contained (fold_component u cfg s)"
proof -
  obtain r where r: "pc_separator_replacement cfg = [r]" "r \<noteq> c_slash" "r \<noteq> c_dot"
    using portable_replacement [OF assms] by metis
  define c1 where "c1 = sub_chars (invalid_for True) [r] (normal_form u (pc_unicode_form cfg) s)"
  define c3 where "c3 = (if pc_replace_spaces cfg
    then map (\<lambda>c. if c = c_space then c_underscore else c) c1 else c1)"
  have "c_slash \<notin> set c1"
    using set_sub_chars [of "invalid_for True" "[r]" "normal_form u (pc_unicode_form cfg) s"]
      invalid_for_slash r(2) by (auto simp: c1_def)
  then have c3: "c_slash \<notin> set c3" by (auto simp: c3_def)
  then have "c_slash \<notin> set (strip_dots c3)" using set_strip_dots by blast
  define c4 where "c4 = (let t = strip_dots c3 in if t \<noteq> [] \<and> is_reserved u t then [r] @ t else t)"
  have "contained (if c4 = [] then [r] else c4)"
    using \<open>c_slash \<notin> set (strip_dots c3)\<close> r(2,3) contained_strip [OF c3]
    by (simp add: c4_def Let_def contained_Cons)
  moreover have "pc_windows_compatible cfg" "\<not> pc_replace_non_ascii cfg"
    using assms by (simp_all add: portable_settings_def)
  then have "fold_component u cfg s = (if c4 = [] then [r] else c4)"
    unfolding fold_component_def Let_def c4_def c3_def c1_def r(1) by (simp only: if_True if_False)
  ultimately show ?thesis by simp
qed

lemma clean_management_contained:
  assumes cfg: "portable_settings cfg" and t: "clean_management_component u cfg s = Inr t"
  shows "contained t"
proof -
  obtain r where r: "pc_separator_replacement cfg = [r]" "r \<noteq> c_slash" "r \<noteq> c_dot"
    "utf8_width r \<le> pc_maximum_component cfg" using portable_replacement [OF cfg] by metis
  define c where "c = fold_component u cfg s"
  define m where "m = pc_maximum_component cfg"
  define x where "x = (let y = strip_dots (take_chars m c) in if y = [] then [r] else y)"
  have c: "contained c" unfolding c_def by (rule fold_component_contained [OF cfg])
  then have "c_slash \<notin> set (take_chars m c)"
    using set_take_chars [of m c] by (auto simp: contained_def)
  then have x: "contained x"
    using r(2,3) by (simp add: x_def Let_def contained_strip contained_Cons)
  have "c_slash \<notin> set (take_chars k x)" for k
    using x set_take_chars [of k x] by (auto simp: contained_def)
  then have cut: "contained (take_chars m (r # x))"
    using r(2-4) by (simp add: m_def contained_Cons)
  have win: "pc_windows_compatible cfg" using cfg by (simp add: portable_settings_def)
  from t show ?thesis
    unfolding clean_management_component_def Let_def c_def [symmetric] m_def [symmetric]
    using c x cut win r(1)
    by (auto simp: ok_simps truncate_utf8_spec x_def Let_def split: if_splits)
qed

lemma management_cleaner:
  "portable_settings cfg \<Longrightarrow> component_cleaner (clean_management_component u cfg)"
  by unfold_locales (rule clean_management_contained)

text \<open>Whatever the settings: a component has at most the configured number of bytes.\<close>

lemma strip_dots_size: "utf8_size (strip_dots s) \<le> utf8_size s"
  unfolding strip_dots_def by (rule utf8_size_strip_by)

lemma clean_management_size:
  assumes "clean_management_component u cfg s = Inr t"
  shows "utf8_size t \<le> max (pc_maximum_component cfg) (utf8_size (pc_separator_replacement cfg))"
proof -
  define c where "c = fold_component u cfg s"
  define m where "m = pc_maximum_component cfg"
  define rep where "rep = pc_separator_replacement cfg"
  have strip: "utf8_size (strip_dots (take_chars m c)) \<le> m"
    using strip_dots_size take_chars_size le_trans by blast
  note take = take_chars_size [of m]
  define x where "x = (let y = (if pc_windows_compatible cfg then strip_dots (take_chars m c)
                                  else take_chars m c) in if y = [] then rep else y)"
  have x: "utf8_size x \<le> max m (utf8_size rep)"
    using strip take [of c] by (auto simp: x_def Let_def)
  obtain bs where bs: "utf8_encode c = Inr bs"
    using assms by (auto simp: clean_management_component_def Let_def ok_simps c_def)
  consider "length bs \<le> m" "t = c" | "t = x" | k where "t = take_chars m k"
    using assms unfolding clean_management_component_def Let_def c_def [symmetric]
      m_def [symmetric] rep_def [symmetric] bs rbind_simps truncate_utf8_spec [OF bs]
    by (cases "m < length bs"; fastforce simp: ok_simps truncate_utf8_spec x_def Let_def
        split: if_splits)
  then show ?thesis unfolding m_def [symmetric] rep_def [symmetric]
    using x take length_utf8_encode [OF bs] by cases (auto simp: le_max_iff_disj)
qed

lemma clean_management_Inl: "clean_management_component u cfg s = Inl e \<Longrightarrow> e = UnicodeEncodeError"
  by (auto simp: clean_management_component_def Let_def rbind_Inl_iff utf8_encode_def split: if_splits)

section \<open>What rendering promises\<close>

lemma sanitize_slash:
  "c_slash \<notin> set rep \<Longrightarrow> c_slash \<notin> set (sanitize_substituted_value s rep w)"
  using set_sub_chars [of "invalid_for w" rep s] invalid_for_slash
  by (auto simp: sanitize_substituted_value_def)

lemma render_segment_slashes:
  assumes "render_segment u other cfg name vars seg b = Inr (text, b')"
    and "c_slash \<notin> set (pc_separator_replacement cfg)"
  shows "count_list text c_slash = count_list (segment_text seg) c_slash"
  using assms sanitize_slash [OF assms(2)]
  by (auto simp: render_segment_def segment_text_def Let_def ok_simps count_list_0_iff
      split: segment.splits)

lemma render_segments_slashes:
  "render_segments u other cfg name vars segs b = Inr (texts, b') \<Longrightarrow>
     c_slash \<notin> set (pc_separator_replacement cfg) \<Longrightarrow>
     count_list (concat texts) c_slash = count_list (concat (map segment_text segs)) c_slash"
  by (induction segs arbitrary: b texts) (auto simp: ok_simps dest!: render_segment_slashes)

lemma check_limits_Inr:
  assumes "check_limits cfg name root relative = Inr x"
  shows "utf8_size relative \<le> pc_maximum_path cfg"
    and "root = Some r \<Longrightarrow> utf8_size (path_str (path_div r (path_of relative))) \<le> pc_maximum_path cfg"
    and "pc_windows_legacy_limit cfg \<Longrightarrow> length relative \<le> 259 \<or> root \<noteq> None"
    and "pc_windows_legacy_limit cfg \<Longrightarrow> root = Some r \<Longrightarrow>
           length (path_str (path_div r (path_of relative))) \<le> 259"
  using assms
  by (auto simp: check_limits_def Let_def ok_simps length_utf8_encode split: option.splits)

lemma finish_path_Inr:
  assumes "finish_path u cfg name root raw = Inr r"
  obtains cleaned where "rmap (clean_management_component u cfg) (split_on c_slash raw) = Inr cleaned"
    "rr_relative_path r = py_join [c_slash] cleaned"
    "check_limits cfg name root (rr_relative_path r) = Inr ()"
    "rr_rendered_characters r = length (rr_relative_path r)"
    "rr_collision_key r = py_join [c_slash] (map (\<lambda>p. py_casefold u (py_nfc u p)) cleaned)"
  using assms by (auto simp: finish_path_def Let_def ok_simps split: if_splits)

lemma finish_path_contained:
  assumes "portable_settings cfg" "finish_path u cfg name root raw = Inr r"
  defines "parts \<equiv> split_on c_slash (rr_relative_path r)"
  shows "list_all contained parts" "length parts = Suc (count_list raw c_slash)"
    "path_of (rr_relative_path r) = \<lparr>p_anchor = [], p_parts = parts\<rparr>"
    "list_all (\<lambda>t. utf8_size t \<le> pc_maximum_component cfg) parts"
proof -
  obtain cleaned where cleaned:
    "rmap (clean_management_component u cfg) (split_on c_slash raw) = Inr cleaned"
    "rr_relative_path r = py_join [c_slash] cleaned"
    using finish_path_Inr [OF assms(2)] by metis
  have all: "list_all contained cleaned"
    by (rule component_cleaner.rmap_contained [OF management_cleaner [OF assms(1)] cleaned(1)])
  have len: "length cleaned = Suc (count_list raw c_slash)"
    using rmap_Inr_length [OF cleaned(1)] by (simp add: length_split_on)
  then have "cleaned \<noteq> []" by auto
  then have parts: "parts = cleaned"
    unfolding parts_def cleaned(2)
    by (rule split_on_join) (use all in \<open>simp add: list_all_iff contained_def\<close>)
  show "list_all contained parts" using all by (simp add: parts)
  show "length parts = Suc (count_list raw c_slash)" using len by (simp add: parts)
  show "path_of (rr_relative_path r) = \<lparr>p_anchor = [], p_parts = parts\<rparr>"
    unfolding parts cleaned(2)
    by (rule component_cleaner.cleaned_path [OF management_cleaner [OF assms(1)] cleaned(1)]) simp
  have "utf8_size (pc_separator_replacement cfg) \<le> pc_maximum_component cfg"
    using assms(1) by (simp add: portable_settings_def)
  then show "list_all (\<lambda>t. utf8_size t \<le> pc_maximum_component cfg) parts"
    unfolding parts
    by (intro rmap_all [OF cleaned(1)]) (drule clean_management_size, simp add: max_def)
qed

lemma format_management_path_Inr:
  assumes "format_management_path u other source doc cfg name root art ctx = Inr r"
  obtains segs texts b where
    "compile_naming_template u name source = Inr segs" "validate_segments name segs = Inr ()"
    "render_segments u other cfg name (management_variables u doc cfg art ctx) segs
       (new_budget name) = Inr (texts, b)"
    "finish_path u cfg name root (concat texts) = Inr r"
  using assms
  by (auto simp: format_management_path_def validate_management_script_def Let_def ok_simps)

lemma portable_no_slash: "portable_settings cfg \<Longrightarrow> c_slash \<notin> set (pc_separator_replacement cfg)"
  using portable_replacement [of cfg] by (metis empty_iff empty_set set_ConsD)

text \<open>
  C12. With portable settings (Windows-compatible names, no folding to ASCII, and a replacement for
  separators that is no dot and fits a component) a rendered naming script stays below its root and
  has the directory structure that the script writes: the path is relative, its components are as many as
  the slashes outside the braces of the source give, none is empty, \<open>.\<close> or \<open>..\<close>, and each
  has at most the configured number of bytes. With the folding to ASCII it can leave the root, see
  \<open>fold_escapes_root\<close>.
\<close>
theorem naming_script_contained:
  assumes "portable_settings cfg"
  shows "case format_management_path u other source doc cfg name root art ctx of
      Inl e \<Rightarrow> True
    | Inr r \<Rightarrow>
        (let parts = split_on c_slash (rr_relative_path r)
         in path_of (rr_relative_path r) = \<lparr>p_anchor = [], p_parts = parts\<rparr>
              \<and> list_all contained parts
              \<and> list_all (\<lambda>t. utf8_size t \<le> pc_maximum_component cfg) parts
              \<and> length parts = Suc (count_list (outside_braces source) c_slash))"
proof (cases "format_management_path u other source doc cfg name root art ctx")
  case (Inr r)
  then obtain segs texts b where *: "compile_naming_template u name source = Inr segs"
    "render_segments u other cfg name (management_variables u doc cfg art ctx) segs
       (new_budget name) = Inr (texts, b)"
    "finish_path u cfg name root (concat texts) = Inr r"
    by (metis format_management_path_Inr)
  have "count_list (concat texts) c_slash = count_list (outside_braces source) c_slash"
    using render_segments_slashes [OF *(2) portable_no_slash [OF assms]]
      compile_naming_template_sound [where u = u and name = name and source = source] *(1) by simp
  with finish_path_contained [OF assms *(3)] Inr show ?thesis by (simp add: Let_def)
qed simp

text \<open>
  Whatever the settings, a rendered path respects the limits: the relative path and the
  path below the root have at most the configured number of bytes, and at most 259
  characters when the Windows limit is on.
\<close>
theorem naming_script_limits:
  "case format_management_path u other source doc cfg name root art ctx of
     Inl e \<Rightarrow> True
   | Inr r \<Rightarrow>
       (let relative = rr_relative_path r;
            final = (case root of None \<Rightarrow> relative
                                | Some d \<Rightarrow> path_str (path_div d (path_of relative)))
        in utf8_size relative \<le> pc_maximum_path cfg \<and> utf8_size final \<le> pc_maximum_path cfg
             \<and> (if pc_windows_legacy_limit cfg then length final \<le> 259 else True)
             \<and> rr_rendered_characters r = length relative)"
proof (cases "format_management_path u other source doc cfg name root art ctx")
  case (Inr r)
  then obtain raw where "finish_path u cfg name root raw = Inr r"
    by (metis format_management_path_Inr)
  then have lim: "check_limits cfg name root (rr_relative_path r) = Inr ()"
    and "rr_rendered_characters r = length (rr_relative_path r)"
    by (metis finish_path_Inr)+
  then show ?thesis using Inr check_limits_Inr [OF lim]
    by (cases root) (auto simp: Let_def)
qed simp

lemma portable_default: "portable_settings default_compat"
  by (simp add: portable_settings_def valid_compat_def default_compat_def lit.simps utf8_width_def)

theorem naming_script_contained_witness:
  "\<exists>cfg source doc art. portable_settings cfg
     \<and> (case format_management_path ascii_db (\<lambda>_ _. None) source doc cfg [] None art None of
          Inl e \<Rightarrow> True
        | Inr r \<Rightarrow>
            (let parts = split_on c_slash (rr_relative_path r)
             in path_of (rr_relative_path r) = \<lparr>p_anchor = [], p_parts = parts\<rparr>
                  \<and> list_all contained parts
                  \<and> list_all (\<lambda>t. utf8_size t \<le> pc_maximum_component cfg) parts
                  \<and> length parts = Suc (count_list (outside_braces source) c_slash)))"
  using portable_default
    naming_script_contained [OF portable_default, where u = ascii_db and source = "lit ''{title}/x''"
      and other = "\<lambda>_ _. None" and name = "[]" and root = None and ctx = None]
  by blast

section \<open>The ASCII fold brings separators back\<close>

text \<open>
  \<open>replace_non_ascii\<close> folds a component after its separators have been replaced. U+FF0F, the
  full-width solidus, has the compatibility decomposition \<open>/\<close>: a value that holds it becomes
  an absolute path, which replaces the library root it is joined to.
\<close>

definition solidus_db :: unidb where
  "solidus_db = ascii_db\<lparr>u_nfkd := map (\<lambda>c. if c = 65295 then c_slash else c)\<rparr>"

definition folding_settings :: path_compat where
  "folding_settings = default_compat\<lparr>pc_replace_non_ascii := True\<rparr>"

lemma reserved_hd: "r \<in> set RESERVED_NAMES \<Longrightarrow> hd r \<noteq> c_slash"
  by (auto simp: RESERVED_NAMES_def lit.simps)

lemma fold_solidus: "clean_management_component solidus_db folding_settings [65295, 101, 116, 99]
     = Inr [c_slash, 101, 116, 99]"
proof -
  have member: "is_reserved solidus_db [c_slash, 101, 116, 99] = False"
    by (auto simp: is_reserved_def before_dot_def py_casefold_def char_defs dest: reserved_hd)
  have "fold_component solidus_db folding_settings [65295, 101, 116, 99] = [c_slash, 101, 116, 99]"
    by (simp add: fold_component_def folding_settings_def default_compat_def solidus_db_def
        ascii_db_def normal_form_def py_nfc_def py_nfkd_def sub_chars_def invalid_for_def
        invalid_fs_char_def Let_def strip_dots_def strip_by_def lstrip_by_def rstrip_by_def
        member [unfolded solidus_db_def ascii_db_def, simplified])
  then show ?thesis
    by (simp add: clean_management_component_def Let_def utf8_encode_def encodable_def
        is_surrogate_def utf8_char_def folding_settings_def default_compat_def)
qed

text \<open>
  With \<open>replace_non_ascii\<close> a component without any ASCII separator, a full-width solidus
  and \<open>etc\<close>, is cleaned into \<open>/etc\<close>, and joining that to any library root gives \<open>/etc\<close>.
\<close>
theorem fold_escapes_root:
  "clean_management_component solidus_db folding_settings [65295, 101, 116, 99]
     = Inr [c_slash, 101, 116, 99]
   \<and> path_div root (path_of [c_slash, 101, 116, 99])
       = \<lparr>p_anchor = [c_slash], p_parts = [[101, 116, 99]]\<rparr>"
  by (simp add: fold_solidus path_div_def path_of_def py_startswith_def)

end
