(* ===== verification/Tagging_Engine.thy ===== *)
theory Tagging_Engine
  imports Naming_Script Script_Program "HOL-Library.List_Lexorder" "HOL-Library.Multiset"
begin

text \<open>
  \<open>services/native/tagging_scripts.py\<close>: validation of tagging scripts and the
  \<open>TaggingScriptEngine\<close>, which runs them over the fields and custom tags of a document and
  logs every change. The dictionaries that \<open>_run_statements\<close> mutates and its log are the
  record \<open>tag_state\<close>; it and the budget are passed from statement to statement. An exception
  leaves \<open>apply\<close>, and with it these dictionaries.
\<close>

section \<open>Constants and data\<close>

definition MAX_CUSTOM_TAGS :: nat where "MAX_CUSTOM_TAGS = 64"
definition MAX_CUSTOM_TAG_NAME_LENGTH :: nat where "MAX_CUSTOM_TAG_NAME_LENGTH = 255"
definition MAX_CUSTOM_TAG_VALUES :: nat where "MAX_CUSTOM_TAG_VALUES = 100"
definition MAX_CUSTOM_OUTPUT_CHARACTERS :: nat where "MAX_CUSTOM_OUTPUT_CHARACTERS = 65536"

definition ORDERED_FIELDS :: "pystr list" where
  "ORDERED_FIELDS =
     [lit ''artist'', lit ''album_artist'', lit ''artist_sort'', lit ''album_artist_sort'',
      lit ''release_type'', lit ''label'', lit ''catalog_number'', lit ''isrc'',
      lit ''musicbrainz_artist_id'', lit ''musicbrainz_album_artist_id'',
      lit ''musicbrainz_work_id'', lit ''composer'', lit ''lyricist'', lit ''conductor'',
      lit ''performer'', lit ''arranger'', lit ''remixer'', lit ''producer'', lit ''genre'']"

definition INTEGER_FIELDS :: "pystr list" where
  "INTEGER_FIELDS =
     [lit ''track_number'', lit ''total_tracks'', lit ''disc_number'', lit ''total_discs'',
      lit ''movement_number'', lit ''movement_count'']"

definition ALLOWED_FIELDS :: "pystr list" where
  "ALLOWED_FIELDS = MANAGED_FIELD_NAMES @ [lit ''genre'']"

definition READ_ONLY_VARIABLES :: "pystr list" where
  "READ_ONLY_VARIABLES =
     [lit ''artist_display'', lit ''album_artist_display'', lit ''artists'',
      lit ''album_artists'', lit ''genres'', lit ''year'', lit ''primary_genre'']"

datatype script_operation = OpSet | OpAppend | OpDelete

record tagging_script =
  ts_id :: pystr
  ts_name :: pystr
  ts_source :: pystr

type_synonym custom_tags = "(pystr, pystr list) odict"

record transformation =
  tr_script_id :: pystr
  tr_script_name :: pystr
  tr_operation :: script_operation
  tr_target :: pystr
  tr_before :: sval
  tr_after :: sval
  tr_line :: int
  tr_column :: int
  tr_skipped :: bool

record tag_state =
  st_fields :: variables
  st_custom :: custom_tags
  st_log :: "transformation list"

record tagging_result =
  re_metadata :: metadata_document
  re_custom :: custom_tags
  re_log :: "transformation list"

section \<open>Validation\<close>

definition custom_name :: "unidb \<Rightarrow> pystr \<Rightarrow> pystr option" where
  "custom_name u target =
     (if \<not> py_startswith (py_casefold u target) (lit ''custom.'') then None
      else Some (py_strip u (drop 7 target)))"

text \<open>The check of a target, at the statement's line and column.\<close>

definition validate_target :: "unidb \<Rightarrow> pystr \<Rightarrow> bool \<Rightarrow> pystr \<Rightarrow> int \<Rightarrow> int \<Rightarrow> exc + unit" where
  "validate_target u name appends target l c =
     (if List.member ALLOWED_FIELDS target
      then check (\<not> (appends \<and> \<not> List.member ORDERED_FIELDS target))
             (ScriptError (Tagging (NoAppend target)) name l c)
      else check (case custom_name u target of
                    None \<Rightarrow> False
                  | Some custom \<Rightarrow> custom \<noteq> [] \<and> \<not> List.member custom 0
                      \<and> length custom \<le> MAX_CUSTOM_TAG_NAME_LENGTH)
             (ScriptError (Tagging (UnknownTarget target)) name l c))"

definition known_variable :: "unidb \<Rightarrow> pystr \<Rightarrow> bool" where
  "known_variable u x \<longleftrightarrow>
     List.member ALLOWED_FIELDS x \<or> List.member READ_ONLY_VARIABLES x \<or> custom_name u x \<noteq> None"

fun check_variables :: "unidb \<Rightarrow> pystr \<Rightarrow> expr list \<Rightarrow> exc + unit" where
  "check_variables u name [] = Inr ()"
| "check_variables u name (e # es) =
     rbind (case e of
              EVariable x l c \<Rightarrow>
                check (known_variable u x) (ScriptError (Tagging (UnknownTaggingVariable x)) name l c)
            | _ \<Rightarrow> Inr ())
       (\<lambda>_. check_variables u name es)"

definition validate_statement :: "unidb \<Rightarrow> pystr \<Rightarrow> stmt \<Rightarrow> exc + unit" where
  "validate_statement u name st =
     (case st of
        SIf e body alternate l c \<Rightarrow> check_variables u name (walk_expressions e)
      | SSet t e l c \<Rightarrow>
          rbind (validate_target u name False t l c)
            (\<lambda>_. check_variables u name (walk_expressions e))
      | SAppend t e l c \<Rightarrow>
          rbind (validate_target u name True t l c)
            (\<lambda>_. check_variables u name (walk_expressions e))
      | SDelete t l c \<Rightarrow> validate_target u name False t l c)"

fun validate_statements :: "unidb \<Rightarrow> pystr \<Rightarrow> stmt list \<Rightarrow> exc + unit" where
  "validate_statements u name [] = Inr ()"
| "validate_statements u name (st # sts) =
     rbind (validate_statement u name st) (\<lambda>_. validate_statements u name sts)"

definition validate_tagging_script :: "unidb \<Rightarrow> pystr \<Rightarrow> pystr \<Rightarrow> exc + stmt list" where
  "validate_tagging_script u name source =
     rbind (compile_tagging_program u name source) (\<lambda>program.
     rbind (validate_statements u name (walk_statements program)) (\<lambda>_. Inr program))"

section \<open>Values\<close>

definition script_values :: "sval \<Rightarrow> pystr list" where
  "script_values v =
     (case v of
        VNone \<Rightarrow> []
      | VTup xs \<Rightarrow> xs
      | VBool b \<Rightarrow> [if b then lit ''true'' else lit ''false'']
      | VInt n \<Rightarrow> [py_str_int n]
      | VStr s \<Rightarrow> [s])"

definition normalize_field_value :: "pystr \<Rightarrow> pystr \<Rightarrow> int \<Rightarrow> int \<Rightarrow> sval \<Rightarrow> exc + sval" where
  "normalize_field_value name field l c v =
     (if List.member ORDERED_FIELDS field then Inr (VTup (script_values v))
      else if v = VNone then Inr VNone
      else if List.member INTEGER_FIELDS field
      then (case v of
              VInt n \<Rightarrow> if n < 0 then Inl (ScriptError (Tagging (NeedsNonNegative field)) name l c)
                        else Inr v
            | _ \<Rightarrow> Inl (ScriptError (Tagging (NeedsNonNegative field)) name l c))
      else if field = lit ''compilation''
      then (case v of VBool b \<Rightarrow> Inr v | _ \<Rightarrow> Inl (ScriptError (Tagging NeedsBool) name l c))
      else (case v of VStr s \<Rightarrow> Inr v | _ \<Rightarrow> Inl (ScriptError (Tagging (NeedsText field)) name l c)))"

definition effective_display :: "sval option \<Rightarrow> pystr list \<Rightarrow> pystr option \<Rightarrow> pystr option" where
  "effective_display v original_values original_display =
     (let values = (case v of None \<Rightarrow> [] | Some w \<Rightarrow> script_values w)
      in if values = original_values then original_display
         else (let s = py_join (lit ''; '') values in if s = [] then None else Some s))"

definition field_values :: "variables \<Rightarrow> pystr \<Rightarrow> pystr list" where
  "field_values fs name = (case dict_get fs name of None \<Rightarrow> [] | Some v \<Rightarrow> script_values v)"

definition tag_variables :: "unidb \<Rightarrow> variables \<Rightarrow> custom_tags \<Rightarrow> metadata_document \<Rightarrow> variables" where
  "tag_variables u fs custom original =
     (let artist_display = effective_display (dict_get fs (lit ''artist''))
                             (strings_for original (lit ''artist'')) (md_artist_display original);
          album_artist_display = effective_display (dict_get fs (lit ''album_artist''))
                             (strings_for original (lit ''album_artist''))
                             (md_album_artist_display original)
      in dict_update
          (dict_update fs
            [(lit ''artist_display'', opt_text artist_display),
             (lit ''album_artist_display'', opt_text album_artist_display),
             (lit ''artists'', VTup (field_values fs (lit ''artist''))),
             (lit ''album_artists'', VTup (field_values fs (lit ''album_artist''))),
             (lit ''genres'', VTup (field_values fs (lit ''genre''))),
             (lit ''year'', (case dict_get fs (lit ''date'') of
                               Some (VStr s) \<Rightarrow> VStr (take 4 s) | _ \<Rightarrow> VNone)),
             (lit ''primary_genre'', (case dict_get fs (lit ''genre'') of
                               Some (VTup (g # gs)) \<Rightarrow> VStr g | _ \<Rightarrow> VNone))])
          (map (\<lambda>(name, values). (lit ''custom.'' @ name, VTup values)) custom))"

section \<open>Targets\<close>

text \<open>\<open>next((name for name in custom if name.casefold() == custom_name.casefold()), None)\<close>.\<close>

definition existing_name :: "unidb \<Rightarrow> custom_tags \<Rightarrow> pystr \<Rightarrow> pystr option" where
  "existing_name u custom name =
     List.find (\<lambda>n. py_casefold u n = py_casefold u name) (dict_keys custom)"

definition target_value :: "unidb \<Rightarrow> pystr \<Rightarrow> variables \<Rightarrow> custom_tags \<Rightarrow> sval" where
  "target_value u target fs custom =
     (case custom_name u target of
        Some name \<Rightarrow>
          (case existing_name u custom name of
             None \<Rightarrow> VNone
           | Some n \<Rightarrow> (case dict_get custom n of None \<Rightarrow> VNone | Some vs \<Rightarrow> VTup vs))
      | None \<Rightarrow> variable_value fs target)"

text \<open>\<open>value in (None, ())\<close>.\<close>

definition is_absent :: "sval \<Rightarrow> bool" where
  "is_absent v \<longleftrightarrow> v = VNone \<or> v = VTup []"

definition set_target :: "unidb \<Rightarrow> pystr \<Rightarrow> sval \<Rightarrow> tag_state \<Rightarrow> tag_state" where
  "set_target u target v s =
     (case custom_name u target of
        Some name \<Rightarrow>
          (let existing = existing_name u (st_custom s) name
           in if is_absent v
              then (case existing of None \<Rightarrow> s
                                   | Some n \<Rightarrow> s\<lparr>st_custom := dict_pop (st_custom s) n\<rparr>)
              else s\<lparr>st_custom := dict_set (st_custom s) (or_text existing name) (script_values v)\<rparr>)
      | None \<Rightarrow>
          if is_absent v then s\<lparr>st_fields := dict_pop (st_fields s) target\<rparr>
          else s\<lparr>st_fields := dict_set (st_fields s) target v\<rparr>)"

section \<open>Running a script\<close>

definition log_entry ::
  "tagging_script \<Rightarrow> script_operation \<Rightarrow> pystr \<Rightarrow> sval \<Rightarrow> sval \<Rightarrow> int \<Rightarrow> int \<Rightarrow> bool \<Rightarrow> transformation"
where
  "log_entry script op target before after l c skipped =
     \<lparr>tr_script_id = ts_id script, tr_script_name = ts_name script, tr_operation = op,
      tr_target = target, tr_before = before, tr_after = after, tr_line = l, tr_column = c,
      tr_skipped = skipped\<rparr>"

text \<open>The value that a statement gives its target; \<open>None\<close> is the expression of a \<open>delete\<close>.\<close>

definition new_value ::
  "unidb \<Rightarrow> variables \<Rightarrow> tagging_script \<Rightarrow> script_operation \<Rightarrow> pystr \<Rightarrow> expr option \<Rightarrow> sval
     \<Rightarrow> int \<Rightarrow> int \<Rightarrow> budget \<Rightarrow> exc + (sval \<times> budget)" where
  "new_value u vars script op target ex before l c b =
     (case ex of
        None \<Rightarrow> Inr (if List.member ORDERED_FIELDS target then VTup [] else VNone, b)
      | Some e \<Rightarrow>
          rbind (evaluate u vars e b) (\<lambda>(v, b').
            if custom_name u target \<noteq> None
            then Inr (VTup (py_dedup ((if op = OpAppend then script_values before else [])
                                        @ script_values v)), b')
            else if op = OpAppend
            then Inr (VTup (py_dedup (script_values before @ script_values v)), b')
            else rbind (normalize_field_value (ts_name script) target l c v)
                   (\<lambda>w. Inr (w, b'))))"

definition run_assignment ::
  "unidb \<Rightarrow> tagging_script \<Rightarrow> pystr list \<Rightarrow> metadata_document \<Rightarrow> script_operation \<Rightarrow> pystr
     \<Rightarrow> expr option \<Rightarrow> int \<Rightarrow> int \<Rightarrow> tag_state \<Rightarrow> budget \<Rightarrow> exc + (tag_state \<times> budget)" where
  "run_assignment u script protected original op target ex l c s b =
     rbind (consume (case ex of None \<Rightarrow> ELiteral VNone l c | Some e \<Rightarrow> e) b) (\<lambda>b1.
     let vars = tag_variables u (st_fields s) (st_custom s) original;
         before = target_value u target (st_fields s) (st_custom s)
     in if List.member protected target
        then Inr (s\<lparr>st_log := st_log s @ [log_entry script op target before before l c True]\<rparr>, b1)
        else rbind (new_value u vars script op target ex before l c b1) (\<lambda>(after, b2).
          if MAX_CUSTOM_TAG_VALUES < value_count after
          then Inl (ScriptError (Tagging TooManyOutputValues) (ts_name script) l c)
          else (let s' = set_target u target after s
                in Inr (s'\<lparr>st_log := st_log s' @ [log_entry script op target before after l c False]\<rparr>,
                        b2))))"

fun run_statements ::
  "unidb \<Rightarrow> tagging_script \<Rightarrow> pystr list \<Rightarrow> metadata_document \<Rightarrow> stmt list \<Rightarrow> tag_state \<Rightarrow> budget
     \<Rightarrow> exc + (tag_state \<times> budget)" where
  "run_statements u script protected original [] s b = Inr (s, b)"
| "run_statements u script protected original (SIf e body alternate l c # rest) s b =
     rbind (consume e b) (\<lambda>b1.
     rbind (evaluate u (tag_variables u (st_fields s) (st_custom s) original) e b1) (\<lambda>(v, b2).
     rbind (if truthy v then run_statements u script protected original body s b2
            else run_statements u script protected original alternate s b2) (\<lambda>(s1, b3).
     run_statements u script protected original rest s1 b3)))"
| "run_statements u script protected original (SSet t e l c # rest) s b =
     rbind (run_assignment u script protected original OpSet t (Some e) l c s b) (\<lambda>(s1, b1).
     run_statements u script protected original rest s1 b1)"
| "run_statements u script protected original (SAppend t e l c # rest) s b =
     rbind (run_assignment u script protected original OpAppend t (Some e) l c s b) (\<lambda>(s1, b1).
     run_statements u script protected original rest s1 b1)"
| "run_statements u script protected original (SDelete t l c # rest) s b =
     rbind (run_assignment u script protected original OpDelete t None l c s b) (\<lambda>(s1, b1).
     run_statements u script protected original rest s1 b1)"

section \<open>The engine\<close>

text \<open>The loop over the custom tags, with the characters of the values so far.\<close>

fun check_custom_tags :: "pystr \<Rightarrow> int \<Rightarrow> int \<Rightarrow> nat \<Rightarrow> custom_tags \<Rightarrow> exc + nat" where
  "check_custom_tags name l c chars [] = Inr chars"
| "check_custom_tags name l c chars ((tag, values) # rest) =
     rbind (check (\<not> (tag = [] \<or> List.member tag 0 \<or> MAX_CUSTOM_TAG_NAME_LENGTH < length tag
                       \<or> MAX_CUSTOM_TAG_VALUES < length values))
             (ScriptError (Tagging CustomTagBound) name l c)) (\<lambda>_.
     rbind (check (\<not> list_ex (\<lambda>v. 8192 < length v) values)
             (ScriptError (Tagging CustomValueTooLong) name l c)) (\<lambda>_.
     check_custom_tags name l c (chars + sum_list (map length values)) rest))"

definition validate_custom_output :: "custom_tags \<Rightarrow> pystr \<Rightarrow> int \<Rightarrow> int \<Rightarrow> exc + unit" where
  "validate_custom_output custom name l c =
     rbind (check (length custom \<le> MAX_CUSTOM_TAGS) (ScriptError (Tagging TooManyCustomTags) name l c))
       (\<lambda>_.
     rbind (check_custom_tags name l c 0 custom) (\<lambda>chars.
       check (chars \<le> MAX_CUSTOM_OUTPUT_CHARACTERS)
         (ScriptError (Tagging CustomOutputTooLarge) name l c)))"

definition input_name :: pystr where "input_name = lit ''tagging input''"

fun load_custom ::
  "unidb \<Rightarrow> (pystr \<times> pystr list) list \<Rightarrow> pystr list \<Rightarrow> custom_tags \<Rightarrow> exc + custom_tags" where
  "load_custom u [] seen custom = Inr custom"
| "load_custom u ((name, values) # rest) seen custom =
     (let folded = py_casefold u name
      in if List.member seen folded then Inl (ScriptError (Tagging CustomNotUnique) input_name 1 1)
         else load_custom u rest (folded # seen) (dict_set custom name values))"

definition run_script ::
  "unidb \<Rightarrow> pystr list \<Rightarrow> metadata_document \<Rightarrow> tagging_script \<Rightarrow> tag_state \<Rightarrow> exc + tag_state" where
  "run_script u protected original script s =
     rbind (validate_tagging_script u (ts_name script) (ts_source script)) (\<lambda>program.
     rbind (run_statements u script protected original program s (new_budget (ts_name script)))
       (\<lambda>(s', _).
     rbind (validate_custom_output (st_custom s') (ts_name script) 1 1) (\<lambda>_. Inr s')))"

fun run_scripts ::
  "unidb \<Rightarrow> pystr list \<Rightarrow> metadata_document \<Rightarrow> tagging_script list \<Rightarrow> tag_state \<Rightarrow> exc + tag_state"
where
  "run_scripts u protected original [] s = Inr s"
| "run_scripts u protected original (script # scripts) s =
     rbind (run_script u protected original script s) (run_scripts u protected original scripts)"

definition build_result :: "unidb \<Rightarrow> metadata_document \<Rightarrow> tag_state \<Rightarrow> tagging_result" where
  "build_result u document s =
     \<lparr>re_metadata =
        \<lparr>md_fields = filter (\<lambda>(n, v). \<not> is_absent v) (st_fields s),
         md_artist_display = effective_display (dict_get (st_fields s) (lit ''artist''))
           (strings_for document (lit ''artist'')) (md_artist_display document),
         md_album_artist_display = effective_display (dict_get (st_fields s) (lit ''album_artist''))
           (strings_for document (lit ''album_artist'')) (md_album_artist_display document)\<rparr>,
      re_custom = sort_key (\<lambda>tag. py_casefold u (fst tag)) (st_custom s),
      re_log = st_log s\<rparr>"

definition apply_scripts ::
  "unidb \<Rightarrow> metadata_document \<Rightarrow> tagging_script list \<Rightarrow> (pystr \<times> pystr list) list \<Rightarrow> pystr list
     \<Rightarrow> exc + tagging_result" where
  "apply_scripts u document scripts custom_tags protected =
     rbind (load_custom u custom_tags [] []) (\<lambda>custom.
     rbind (validate_custom_output custom input_name 1 1) (\<lambda>_.
     rbind (run_scripts u protected document scripts
              \<lparr>st_fields = dict_update [] (md_fields document), st_custom = custom, st_log = []\<rparr>)
       (\<lambda>s. Inr (build_result u document s))))"

section \<open>What the rest of the program reads from a result\<close>

fun transformed_from :: "unidb \<Rightarrow> variables \<Rightarrow> transformation list \<Rightarrow> variables" where
  "transformed_from u values [] = values"
| "transformed_from u values (t # ts) =
     transformed_from u
       (if \<not> tr_skipped t \<and> custom_name u (tr_target t) = None
        then dict_set values (tr_target t) (tr_after t) else values) ts"

definition transformed_values :: "unidb \<Rightarrow> tagging_result \<Rightarrow> variables" where
  "transformed_values u result = transformed_from u [] (re_log result)"

datatype desired_tag = DesiredSet pystr "pystr list" | DesiredDelete pystr

definition by_folded_name :: "unidb \<Rightarrow> custom_tags \<Rightarrow> (pystr, pystr \<times> pystr list) odict" where
  "by_folded_name u tags = dict_update [] (map (\<lambda>(n, vs). (py_casefold u n, (n, vs))) tags)"

definition desired_for :: "(pystr \<times> pystr list) option \<Rightarrow> (pystr \<times> pystr list) option \<Rightarrow> desired_tag list"
where
  "desired_for old new =
     (case (old, new) of
        (Some (on, ovs), Some (nn, nvs)) \<Rightarrow> if ovs = nvs then [] else [DesiredSet nn nvs]
      | (Some (on, ovs), None) \<Rightarrow> [DesiredDelete on]
      | (None, Some (nn, nvs)) \<Rightarrow> [DesiredSet nn nvs]
      | (None, None) \<Rightarrow> [])"

definition desired_custom_tags :: "unidb \<Rightarrow> custom_tags \<Rightarrow> custom_tags \<Rightarrow> desired_tag list" where
  "desired_custom_tags u before after =
     (let before_by_name = by_folded_name u before; after_by_name = by_folded_name u after
      in concat (map (\<lambda>k. desired_for (dict_get before_by_name k) (dict_get after_by_name k))
           (sort (remdups (dict_keys before_by_name @ dict_keys after_by_name)))))"

section \<open>Invariants of a run\<close>

text \<open>What validation has checked of a statement.\<close>

definition custom_target :: "unidb \<Rightarrow> pystr \<Rightarrow> bool" where
  "custom_target u t \<longleftrightarrow> (\<exists>n. custom_name u t = Some n \<and> n \<noteq> [])"

fun target_ok :: "unidb \<Rightarrow> stmt \<Rightarrow> bool" where
  "target_ok u (SIf e body alternate l c) \<longleftrightarrow>
     list_all (target_ok u) body \<and> list_all (target_ok u) alternate"
| "target_ok u (SSet t e l c) \<longleftrightarrow> t \<in> set ALLOWED_FIELDS \<or> custom_target u t"
| "target_ok u (SAppend t e l c) \<longleftrightarrow> t \<in> set ORDERED_FIELDS \<or> custom_target u t"
| "target_ok u (SDelete t l c) \<longleftrightarrow> t \<in> set ALLOWED_FIELDS \<or> custom_target u t"

definition op_ok :: "unidb \<Rightarrow> script_operation \<Rightarrow> pystr \<Rightarrow> bool" where
  "op_ok u op t \<longleftrightarrow>
     (t \<in> set ALLOWED_FIELDS \<and> (op = OpAppend \<longrightarrow> t \<in> set ORDERED_FIELDS)) \<or> custom_target u t"

lemma validate_target_ok:
  "validate_target u name appends t l c = Inr () \<Longrightarrow>
     (t \<in> set ALLOWED_FIELDS \<and> (appends \<longrightarrow> t \<in> set ORDERED_FIELDS)) \<or> custom_target u t"
  by (auto simp: validate_target_def custom_target_def check_def split: if_splits option.splits)

lemma validate_statements_append:
  "validate_statements u name (xs @ ys) = Inr () \<longleftrightarrow>
     validate_statements u name xs = Inr () \<and> validate_statements u name ys = Inr ()"
  by (induction xs) (auto simp: ok_simps)

lemma validate_statements_ok:
  "validate_statements u name (walk_statements sts) = Inr () \<Longrightarrow> list_all (target_ok u) sts"
  by (induction sts rule: walk_statements.induct)
    (auto simp: validate_statements_append validate_statement_def ok_simps dest!: validate_target_ok)

lemma ordered_allowed: "t \<in> set ORDERED_FIELDS \<Longrightarrow> t \<in> set ALLOWED_FIELDS"
  by (auto simp: ORDERED_FIELDS_def ALLOWED_FIELDS_def MANAGED_FIELD_NAMES_def)

text \<open>A property of the state that every assignment keeps is kept by a program.\<close>

locale run_invariant =
  fixes u :: unidb and protected :: "pystr list" and original :: metadata_document
    and P :: "tag_state \<Rightarrow> bool"
  assumes skip: "P s \<Longrightarrow> P (s\<lparr>st_log := st_log s @ [log_entry script op t before before l c True]\<rparr>)"
    and assign: "P s \<Longrightarrow> op_ok u op t \<Longrightarrow> t \<notin> set protected \<Longrightarrow>
      new_value u vars script op t ex before l c b = Inr (after, b') \<Longrightarrow>
      value_count after \<le> MAX_CUSTOM_TAG_VALUES \<Longrightarrow>
      P ((set_target u t after s)
          \<lparr>st_log := st_log (set_target u t after s) @ [log_entry script op t before' after l c False]\<rparr>)"
begin

lemma run_assignment:
  assumes "run_assignment u script protected original op t ex l c s b = Inr (s', b')"
    and "op_ok u op t" "P s"
  shows "P s'"
proof (cases "t \<in> set protected")
  case True
  then show ?thesis using assms(1,3) by (auto simp: run_assignment_def Let_def ok_simps intro: skip)
next
  case False
  with assms(1) obtain b1 after where
    "new_value u (tag_variables u (st_fields s) (st_custom s) original) script op t ex
       (target_value u t (st_fields s) (st_custom s)) l c b1 = Inr (after, b')"
    "value_count after \<le> MAX_CUSTOM_TAG_VALUES"
    "s' = (set_target u t after s)\<lparr>st_log := st_log (set_target u t after s) @
       [log_entry script op t (target_value u t (st_fields s) (st_custom s)) after l c False]\<rparr>"
    by (auto simp: run_assignment_def Let_def ok_simps split: if_splits)
  with assign [OF assms(3,2) False] show ?thesis by blast
qed

lemma run_statements:
  "run_statements u script protected original sts s b = Inr (s', b') \<Longrightarrow>
     list_all (target_ok u) sts \<Longrightarrow> P s \<Longrightarrow> P s'"
proof (induction sts arbitrary: s b s' b' rule: walk_statements.induct)
  case (2 e body alternate l c rest)
  from 2(4) obtain b1 v b2 s1 b3 where
    branch: "(if truthy v then run_statements u script protected original body s b2
              else run_statements u script protected original alternate s b2) = Inr (s1, b3)" and
    rest: "run_statements u script protected original rest s1 b3 = Inr (s', b')"
    by (auto simp: ok_simps)
  have "P s1" using branch 2(1,2) 2(5,6) by (auto split: if_splits)
  with 2(3)[OF rest] 2(5) show ?case by simp
qed (auto simp: ok_simps op_ok_def ordered_allowed dest!: run_assignment)

end

section \<open>The invariants\<close>

text \<open>The custom tags have distinct names, also without regard to case.\<close>

definition custom_distinct :: "unidb \<Rightarrow> custom_tags \<Rightarrow> bool" where
  "custom_distinct u custom \<longleftrightarrow>
     distinct (map (\<lambda>tag. py_casefold u (fst tag)) custom) \<and> [] \<notin> fst ` set custom"

lemma custom_distinct_pop: "custom_distinct u d \<Longrightarrow> custom_distinct u (dict_pop d n)"
  by (auto simp: custom_distinct_def dict_pop_def distinct_map_filter)

lemma folds_dict_set:
  "map (\<lambda>tag. py_casefold u (fst tag)) (dict_set d n vs)
     = map (py_casefold u) (if n \<in> fst ` set d then map fst d else map fst d @ [n])"
proof -
  have "map (\<lambda>tag. py_casefold u (fst tag)) (dict_set d n vs)
      = map (py_casefold u) (map fst (dict_set d n vs))" by simp
  then show ?thesis by (simp only: dict_keys_set)
qed

lemma existing_Some: "existing_name u d name = Some n \<Longrightarrow> n \<in> fst ` set d"
  by (auto simp: existing_name_def dict_keys_def find_Some_iff)

lemma existing_None:
  "existing_name u d name = None \<Longrightarrow> py_casefold u name \<notin> set (map (\<lambda>tag. py_casefold u (fst tag)) d)"
  by (force simp: existing_name_def dict_keys_def find_None_iff)

lemma custom_distinct_set:
  assumes "custom_distinct u d" "name \<noteq> []" "existing_name u d name = existing"
  shows "custom_distinct u (dict_set d (or_text existing name) vs)"
proof (cases existing)
  case none: None
  with assms(3) have None: "existing_name u d name = None" by simp
  then have "name \<notin> fst ` set d" using existing_None [OF None] by auto
  then show ?thesis using assms existing_None [OF None] set_dict_set [of d name vs]
    by (auto simp: custom_distinct_def folds_dict_set or_text_def none o_def)
next
  case some: (Some n)
  with assms(3) have Some: "existing_name u d name = Some n" by simp
  have n: "n \<in> fst ` set d" by (rule existing_Some [OF Some])
  moreover from n assms(1) have "n \<noteq> []" unfolding custom_distinct_def by metis
  ultimately have "n \<in> fst ` set d" "n \<noteq> []" .
  then show ?thesis using assms set_dict_set [of d n vs]
    by (auto simp: custom_distinct_def folds_dict_set or_text_def some o_def)
qed

lemma set_target_log [simp]: "st_log (set_target u t v s) = st_log s"
  by (simp add: set_target_def Let_def split: option.split)

lemma set_target_custom:
  "custom_distinct u (st_custom s) \<Longrightarrow> (custom_name u t \<noteq> None \<Longrightarrow> custom_target u t) \<Longrightarrow>
     custom_distinct u (st_custom (set_target u t v s))"
  unfolding set_target_def Let_def custom_target_def
  by (cases "custom_name u t"; cases "is_absent v"; cases "existing_name u (st_custom s) (the (custom_name u t))")
    (auto simp: custom_distinct_pop intro: custom_distinct_set)

lemma allowed_not_custom: "t \<in> set ALLOWED_FIELDS \<Longrightarrow> custom_name u t = None"
proof -
  assume "t \<in> set ALLOWED_FIELDS"
  then have "\<not> py_startswith (py_casefold u t) (lit ''custom.'')"
    by (auto simp: ALLOWED_FIELDS_def MANAGED_FIELD_NAMES_def lit.simps py_startswith_def
        py_casefold_def char_defs)
  then show ?thesis by (simp add: custom_name_def)
qed

lemma op_ok_custom: "op_ok u op t \<Longrightarrow> custom_name u t \<noteq> None \<Longrightarrow> custom_target u t"
  by (auto simp: op_ok_def allowed_not_custom)

interpretation custom_names: run_invariant u protected original "\<lambda>s. custom_distinct u (st_custom s)"
  for u protected original
  by unfold_locales (auto intro: set_target_custom op_ok_custom)

text \<open>The values of the managed fields have the types of the fields.\<close>

definition field_ok :: "pystr \<Rightarrow> sval \<Rightarrow> bool" where
  "field_ok f v \<longleftrightarrow>
     (if f \<in> set ORDERED_FIELDS then (case v of VTup xs \<Rightarrow> xs \<noteq> [] | _ \<Rightarrow> False)
      else if f \<in> set INTEGER_FIELDS then (case v of VInt n \<Rightarrow> 0 \<le> n | _ \<Rightarrow> False)
      else if f = lit ''compilation'' then (case v of VBool b \<Rightarrow> True | _ \<Rightarrow> False)
      else if f \<in> set ALLOWED_FIELDS then (case v of VStr s \<Rightarrow> True | _ \<Rightarrow> False)
      else True)"

lemma new_value_typed:
  assumes "new_value u vars script op t ex before l c b = Inr (after, b')"
    and "op_ok u op t" "custom_name u t = None" "\<not> is_absent after"
  shows "field_ok t after"
  using assms
  by (auto simp: new_value_def normalize_field_value_def ok_simps op_ok_def custom_target_def
      is_absent_def field_ok_def split: option.splits if_splits sval.splits)

definition fields_typed :: "variables \<Rightarrow> bool" where
  "fields_typed fs \<longleftrightarrow> list_all (\<lambda>(f, v). field_ok f v) fs"

lemma fields_typed_set: "fields_typed fs \<Longrightarrow> field_ok f v \<Longrightarrow> fields_typed (dict_set fs f v)"
  using set_dict_set [of fs f v] by (auto simp: fields_typed_def list_all_iff)

interpretation field_types: run_invariant u protected original "\<lambda>s. fields_typed (st_fields s)"
  for u protected original
proof unfold_locales
  fix s :: tag_state and op t vars script ex before l c b after b' before'
  assume *: "fields_typed (st_fields s)" "op_ok u op t"
    "new_value u vars script op t ex before l c b = Inr (after, b')"
  show "fields_typed (st_fields (set_target u t after s
      \<lparr>st_log := st_log (set_target u t after s) @ [log_entry script op t before' after l c False]\<rparr>))"
    using * new_value_typed [OF *(3,2)]
    by (auto simp: set_target_def Let_def fields_typed_set split: option.split)
      (auto simp: fields_typed_def dict_pop_def list_all_iff)
qed simp

text \<open>
  The log explains the fields: a field has the value of its last change that was not
  skipped, or, when it has none, the value it had at the start.
\<close>

definition present :: "sval \<Rightarrow> sval option" where
  "present v = (if is_absent v then None else Some v)"

definition explains :: "unidb \<Rightarrow> pystr list \<Rightarrow> variables \<Rightarrow> tag_state \<Rightarrow> bool" where
  "explains u protected initial s \<longleftrightarrow>
     (\<forall>f. dict_get (st_fields s) f =
        (case dict_get (transformed_from u [] (st_log s)) f of
           None \<Rightarrow> dict_get initial f | Some v \<Rightarrow> present v))
     \<and> (\<forall>f \<in> set protected. dict_get (transformed_from u [] (st_log s)) f = None)"

lemma transformed_from_snoc:
  "transformed_from u vs (ts @ [t]) =
     (if \<not> tr_skipped t \<and> custom_name u (tr_target t) = None
      then dict_set (transformed_from u vs ts) (tr_target t) (tr_after t)
      else transformed_from u vs ts)"
  by (induction ts arbitrary: vs) auto

lemma set_target_fields:
  "dict_get (st_fields (set_target u t v s)) f =
     (if f = t \<and> custom_name u t = None then present v else dict_get (st_fields s) f)"
  by (auto simp: set_target_def Let_def present_def dict_get_set dict_get_pop split: option.split)

interpretation audit_log: run_invariant u protected original "explains u protected initial"
  for u protected original initial
  by unfold_locales
    (auto simp: explains_def transformed_from_snoc log_entry_def set_target_fields dict_get_set)

section \<open>Errors and steps of a run\<close>

text \<open>Each statement costs one step besides the nodes of its expression.\<close>

definition run_ok :: "pystr \<Rightarrow> budget \<Rightarrow> exc + ('a \<times> budget) \<Rightarrow> bool" where
  "run_ok name b m \<longleftrightarrow>
     (case m of
        Inl x \<Rightarrow> script_exc name x
      | Inr (s, b') \<Rightarrow> bg_script b' = name \<and> bg_steps b \<le> bg_steps b' \<and> (budget_ok b \<longrightarrow> budget_ok b'))"

lemma run_ok_Inr [simp]:
  "run_ok name b (Inr (s, b')) \<longleftrightarrow>
     bg_script b' = name \<and> bg_steps b \<le> bg_steps b' \<and> (budget_ok b \<longrightarrow> budget_ok b')"
  by (simp add: run_ok_def)

lemma run_ok_Inl [simp]: "run_ok name b (Inl x) \<longleftrightarrow> script_exc name x"
  by (simp add: run_ok_def)

lemma run_ok_bind:
  assumes "run_ok name b m" "\<And>s b1. m = Inr (s, b1) \<Longrightarrow> bg_script b1 = name \<Longrightarrow> run_ok name b1 (f s b1)"
  shows "run_ok name b (rbind m (\<lambda>(s, b1). f s b1))"
proof (cases m)
  case (Inr r)
  obtain s b1 where r: "r = (s, b1)" by (cases r)
  with Inr assms have "run_ok name b1 (f s b1)" and "bg_steps b \<le> bg_steps b1"
    "budget_ok b \<longrightarrow> budget_ok b1" by simp_all
  then show ?thesis using Inr r by (cases "f s b1") auto
qed (use assms in simp)

lemma run_ok_step:
  "bg_script b = name \<Longrightarrow> (\<And>b1. consume e b = Inr b1 \<Longrightarrow> bg_script b1 = name \<Longrightarrow> run_ok name b1 (f b1)) \<Longrightarrow>
     run_ok name b (rbind (consume e b) f)"
proof (cases "consume e b")
  case (Inl x)
  then have "bad (Suc 0) b x" by (rule bad_consume)
  moreover assume "bg_script b = name"
  ultimately show ?thesis using Inl by (auto simp: bad_def)
next
  case (Inr b1)
  moreover assume "bg_script b = name"
    "\<And>b1. consume e b = Inr b1 \<Longrightarrow> bg_script b1 = name \<Longrightarrow> run_ok name b1 (f b1)"
  ultimately have "run_ok name b1 (f b1)" "bg_steps b \<le> bg_steps b1" "budget_ok b \<longrightarrow> budget_ok b1"
    by (auto simp: consume_Inr budget_ok_def)
  then show ?thesis using Inr by (cases "f b1") auto
qed

lemma run_ok_evaluate:
  assumes "compiled u e" "bg_script b = name"
  shows "run_ok name b (evaluate u vars e b)"
proof (cases "evaluate u vars e b")
  case (Inl x)
  with evaluate_error(1) [OF Inl] assms show ?thesis by (auto simp: compiled_def bad_def)
next
  case (Inr r)
  obtain v b' where "r = (v, b')" by (cases r)
  with Inr evaluate_spent(1) assms(2) show ?thesis by (fastforce simp: spent_def)
qed

lemma normalize_error: "normalize_field_value name f l c v = Inl x \<Longrightarrow> script_exc name x"
  by (auto simp: normalize_field_value_def split: if_splits sval.splits)

lemma run_ok_new_value:
  assumes "case ex of None \<Rightarrow> True | Some e \<Rightarrow> compiled u e"
    and "bg_script b = name" "ts_name script = name"
  shows "run_ok name b (new_value u vars script op t ex before l c b)"
proof (cases ex)
  case None
  then show ?thesis using assms by (simp add: new_value_def)
next
  case (Some e)
  have "run_ok name b1 (rbind (normalize_field_value (ts_name script) t l c v) (\<lambda>x. Inr (x, b1)))"
    if "bg_script b1 = name" for b1 v
    using that assms(3) by (cases "normalize_field_value (ts_name script) t l c v") (auto dest: normalize_error)
  with assms Some show ?thesis
    unfolding new_value_def Some option.case by (intro run_ok_bind run_ok_evaluate) auto
qed

lemma run_ok_assignment:
  assumes "case ex of None \<Rightarrow> True | Some e \<Rightarrow> compiled u e"
    and "bg_script b = name" "ts_name script = name"
  shows "run_ok name b (run_assignment u script protected original op t ex l c s b)"
  unfolding run_assignment_def Let_def
  by (rule run_ok_step [OF assms(2)])
    (auto intro!: run_ok_bind run_ok_new_value assms simp: assms(3))

lemma run_ok_statements:
  "list_all (stmt_ok u n) sts \<Longrightarrow> bg_script b = ts_name script \<Longrightarrow>
     run_ok (ts_name script) b (run_statements u script protected original sts s b)"
proof (induction sts arbitrary: n s b rule: walk_statements.induct)
  case (2 e body alternate l c rest)
  have "compiled u e" using 2(4) by simp
  with 2 show ?case
    by (auto intro!: run_ok_step run_ok_bind run_ok_evaluate)
qed (auto intro!: run_ok_bind run_ok_assignment)

lemma check_variables_error: "check_variables u name es = Inl x \<Longrightarrow> script_exc name x"
  by (induction es) (auto simp: rbind_Inl_iff check_Inl_iff split: expr.splits)

lemma validate_statements_error: "validate_statements u name sts = Inl x \<Longrightarrow> script_exc name x"
  by (induction sts)
    (auto simp: rbind_Inl_iff check_Inl_iff validate_statement_def validate_target_def
      dest: check_variables_error split: stmt.splits if_splits)

lemma check_custom_error: "check_custom_tags name l c n tags = Inl x \<Longrightarrow> script_exc name x"
  by (induction name l c n tags rule: check_custom_tags.induct) (auto simp: rbind_Inl_iff check_Inl_iff)

lemma validate_custom_error: "validate_custom_output tags name l c = Inl x \<Longrightarrow> script_exc name x"
  by (auto simp: validate_custom_output_def rbind_Inl_iff check_Inl_iff dest: check_custom_error)

lemma validate_tagging_script_Inr:
  assumes "validate_tagging_script u name source = Inr program"
  shows "list_all (stmt_ok u (MAX_EXPRESSION_DEPTH - 1)) program" "list_all (target_ok u) program"
  using assms compile_tagging_program_Inr
  by (fastforce simp: validate_tagging_script_def ok_simps intro: validate_statements_ok)+

lemma run_script_error:
  assumes "run_script u protected original script s = Inl x"
  shows "script_exc (ts_name script) x"
proof (cases "validate_tagging_script u (ts_name script) (ts_source script)")
  case (Inl y)
  with assms show ?thesis
    by (auto simp: run_script_def validate_tagging_script_def rbind_Inl_iff
        dest: compile_tagging_program_Inl validate_statements_error)
next
  case (Inr program)
  let ?run = "run_statements u script protected original program s (new_budget (ts_name script))"
  have "run_ok (ts_name script) (new_budget (ts_name script)) ?run"
    by (rule run_ok_statements [OF validate_tagging_script_Inr(1) [OF Inr]]) (simp add: new_budget_def)
  with Inr assms show ?thesis
    by (cases ?run) (auto simp: run_script_def rbind_Inl_iff dest: validate_custom_error)
qed

section \<open>What the engine promises\<close>

text \<open>An invariant of the assignments holds after any sequence of scripts.\<close>

context run_invariant
begin

lemma run_script: "run_script u protected original script s = Inr s' \<Longrightarrow> P s \<Longrightarrow> P s'"
  by (auto simp: run_script_def ok_simps dest: run_statements validate_tagging_script_Inr(2))

lemma run_scripts: "run_scripts u protected original scripts s = Inr s' \<Longrightarrow> P s \<Longrightarrow> P s'"
  by (induction scripts arbitrary: s) (auto simp: ok_simps dest: run_script)

end

interpretation field_keys: run_invariant u protected original "\<lambda>s. dict_wf (st_fields s)"
  for u protected original
  by unfold_locales (auto simp: set_target_def Let_def split: option.split)

lemma dict_wf_update: "dict_wf d \<Longrightarrow> dict_wf (dict_update d kvs)"
  by (induction d kvs rule: dict_update.induct) auto

lemma dict_get_filter:
  "dict_wf d \<Longrightarrow> dict_get (filter (\<lambda>(k, v). \<not> p v) d) k
     = Option.bind (dict_get d k) (\<lambda>v. if p v then None else Some v)"
  by (induction d) (auto simp: dict_get_def dict_wf_def map_of_eq_None_iff image_iff)

definition custom_bounded :: "custom_tags \<Rightarrow> bool" where
  "custom_bounded tags \<longleftrightarrow>
     length tags \<le> MAX_CUSTOM_TAGS
     \<and> list_all (\<lambda>(n, vs). n \<noteq> [] \<and> 0 \<notin> set n \<and> length n \<le> MAX_CUSTOM_TAG_NAME_LENGTH
          \<and> length vs \<le> MAX_CUSTOM_TAG_VALUES \<and> list_all (\<lambda>v. length v \<le> 8192) vs) tags
     \<and> sum_list (map (\<lambda>tag. sum_list (map length (snd tag))) tags) \<le> MAX_CUSTOM_OUTPUT_CHARACTERS"

lemma check_custom_Inr:
  "check_custom_tags name l c n tags = Inr m \<Longrightarrow>
     list_all (\<lambda>(n, vs). n \<noteq> [] \<and> 0 \<notin> set n \<and> length n \<le> MAX_CUSTOM_TAG_NAME_LENGTH
       \<and> length vs \<le> MAX_CUSTOM_TAG_VALUES \<and> list_all (\<lambda>v. length v \<le> 8192) vs) tags
     \<and> m = n + sum_list (map (\<lambda>tag. sum_list (map length (snd tag))) tags)"
  by (induction name l c n tags rule: check_custom_tags.induct)
    (auto simp: ok_simps list_all_iff list_ex_iff not_less)

lemma validate_custom_Inr: "validate_custom_output tags name l c = Inr x \<Longrightarrow> custom_bounded tags"
  by (auto simp: validate_custom_output_def custom_bounded_def ok_simps dest!: check_custom_Inr)

lemma run_scripts_bounded:
  "run_scripts u protected original scripts s = Inr s' \<Longrightarrow> custom_bounded (st_custom s) \<Longrightarrow>
     custom_bounded (st_custom s')"
  by (induction scripts arbitrary: s) (auto simp: ok_simps run_script_def dest!: validate_custom_Inr)

lemma load_custom_distinct:
  "load_custom u tags seen custom = Inr d \<Longrightarrow>
     distinct (map (\<lambda>tag. py_casefold u (fst tag)) custom) \<Longrightarrow>
     set (map (\<lambda>tag. py_casefold u (fst tag)) custom) \<subseteq> set seen \<Longrightarrow>
     distinct (map (\<lambda>tag. py_casefold u (fst tag)) d)"
proof (induction u tags seen custom rule: load_custom.induct)
  case (2 u name vs rest seen custom)
  then have new: "py_casefold u name \<notin> set (map (\<lambda>tag. py_casefold u (fst tag)) custom)"
    by (auto simp: Let_def split: if_splits)
  then have "name \<notin> fst ` set custom" by auto
  with 2 new show ?case by (auto simp: Let_def folds_dict_set o_def split: if_splits)
qed simp

lemma bounded_distinct:
  "custom_bounded tags \<Longrightarrow> distinct (map (\<lambda>tag. py_casefold u (fst tag)) tags) \<Longrightarrow> custom_distinct u tags"
  by (auto simp: custom_distinct_def custom_bounded_def list_all_iff)

text \<open>The states at the start and the end of \<open>apply\<close>.\<close>

lemma apply_scripts_Inr:
  assumes "apply_scripts u document scripts tags protected = Inr r"
  obtains custom s where
    "custom_distinct u custom" "custom_bounded custom"
    "run_scripts u protected document scripts
       \<lparr>st_fields = dict_update [] (md_fields document), st_custom = custom, st_log = []\<rparr> = Inr s"
    "r = build_result u document s"
proof -
  from assms obtain custom s where *: "load_custom u tags [] [] = Inr custom"
    "validate_custom_output custom input_name 1 1 = Inr ()"
    "run_scripts u protected document scripts
       \<lparr>st_fields = dict_update [] (md_fields document), st_custom = custom, st_log = []\<rparr> = Inr s"
    "r = build_result u document s"
    by (auto simp: apply_scripts_def ok_simps)
  then have "custom_bounded custom" using validate_custom_Inr by blast
  moreover have "custom_distinct u custom"
    using bounded_distinct [OF \<open>custom_bounded custom\<close>] load_custom_distinct [OF *(1)] by simp
  ultimately show ?thesis using that * by blast
qed

lemma sum_list_mset_eq: "mset xs = mset ys \<Longrightarrow> sum_list (map f xs) = sum_list (map f ys)"
  for f :: "'a \<Rightarrow> nat"
  by (metis mset_map sum_mset_sum_list)

lemma custom_bounded_sort: "custom_bounded (sort_key f tags) \<longleftrightarrow> custom_bounded tags"
  using sum_list_mset_eq [OF mset_sort [of f tags]]
  by (simp add: custom_bounded_def list_all_iff)

lemma strict_sort_key:
  fixes f :: "'a \<Rightarrow> 'b::linorder"
  assumes "distinct (map f xs)"
  shows "sorted_wrt (<) (map f (sort_key f xs))"
proof -
  have "mset (map f (sort_key f xs)) = mset (map f xs)" by simp
  then have "distinct (map f (sort_key f xs))" using assms mset_eq_imp_distinct_iff by blast
  then show ?thesis by (simp add: strict_sorted_iff)
qed

text \<open>
  The custom tags of a result are sorted by their case-folded names, which are distinct,
  and respect the bounds on their number, names, values and total size.
\<close>
theorem custom_tags_result:
  "case apply_scripts u document scripts tags protected of
     Inl e \<Rightarrow> script_exc input_name e \<or> list_ex (\<lambda>script. script_exc (ts_name script) e) scripts
   | Inr r \<Rightarrow> sorted_wrt (<) (map (\<lambda>tag. py_casefold u (fst tag)) (re_custom r))
       \<and> custom_bounded (re_custom r)"
proof (cases "apply_scripts u document scripts tags protected")
  case (Inl e)
  have "run_scripts u protected document scripts s = Inl e \<Longrightarrow>
      list_ex (\<lambda>script. script_exc (ts_name script) e) scripts" for s
    by (induction scripts arbitrary: s) (auto simp: rbind_Inl_iff dest: run_script_error)
  moreover have "load_custom u tags seen custom = Inl e \<Longrightarrow> script_exc input_name e" for seen custom
    by (induction u tags seen custom rule: load_custom.induct) (auto simp: Let_def split: if_splits)
  ultimately show ?thesis using Inl
    by (auto simp: apply_scripts_def rbind_Inl_iff dest: validate_custom_error)
next
  case (Inr r)
  then obtain custom s where start: "custom_distinct u custom" "custom_bounded custom"
    and run: "run_scripts u protected document scripts
       \<lparr>st_fields = dict_update [] (md_fields document), st_custom = custom, st_log = []\<rparr> = Inr s"
    and r: "r = build_result u document s" by (rule apply_scripts_Inr)
  have "custom_distinct u (st_custom s)" using custom_names.run_scripts [OF run] start by simp
  moreover have "custom_bounded (st_custom s)" using run_scripts_bounded [OF run] start by simp
  ultimately show ?thesis using Inr
    by (simp add: r build_result_def custom_bounded_sort strict_sort_key custom_distinct_def)
qed

text \<open>
  C13. The log explains the result. Every field of the resulting document has the value that
  the log's last change of it gives, as \<open>transformed_values\<close> reads the log, and a field
  without such a change, like every protected field, has the value it had in the document;
  an absent value (\<open>None\<close> or \<open>()\<close>) is no field at all.
\<close>
theorem log_explains_result:
  "case apply_scripts u document scripts tags protected of
     Inl e \<Rightarrow> True
   | Inr r \<Rightarrow>
       dict_get (md_fields (re_metadata r)) f =
         (case (if List.member protected f then None else dict_get (transformed_values u r) f) of
            Some v \<Rightarrow> present v
          | None \<Rightarrow> Option.bind (dict_get (dict_update [] (md_fields document)) f) present)"
proof (cases "apply_scripts u document scripts tags protected")
  case (Inr r)
  let ?start = "dict_update [] (md_fields document)"
  obtain custom s where
    run: "run_scripts u protected document scripts
       \<lparr>st_fields = ?start, st_custom = custom, st_log = []\<rparr> = Inr s"
    and r: "r = build_result u document s" using Inr by (rule apply_scripts_Inr)
  have "explains u protected ?start \<lparr>st_fields = ?start, st_custom = custom, st_log = []\<rparr>"
    by (simp add: explains_def dict_get_def)
  with audit_log.run_scripts [OF run] have ex: "explains u protected ?start s" .
  have "dict_wf (st_fields s)"
    by (rule field_keys.run_scripts [OF run]) (simp, rule dict_wf_update, simp add: dict_wf_def)
  then have "dict_get (md_fields (re_metadata r)) f = Option.bind (dict_get (st_fields s) f) present"
    by (simp add: r build_result_def dict_get_filter present_def [abs_def])
  with ex Inr show ?thesis
    by (auto simp: explains_def transformed_values_def r build_result_def present_def split: option.splits)
qed simp

text \<open>
  C14. A script never gives a managed field a value of the wrong type: when the fields of the
  document are lists, non-negative integers, truth values and text as their names require,
  so are the fields of the result.
\<close>
theorem tagging_keeps_types:
  assumes "fields_typed (md_fields document)"
  shows "case apply_scripts u document scripts tags protected of
     Inl e \<Rightarrow> True | Inr r \<Rightarrow> fields_typed (md_fields (re_metadata r))"
proof (cases "apply_scripts u document scripts tags protected")
  case (Inr r)
  then obtain custom s where
    run: "run_scripts u protected document scripts
       \<lparr>st_fields = dict_update [] (md_fields document), st_custom = custom, st_log = []\<rparr> = Inr s"
    and r: "r = build_result u document s" by (rule apply_scripts_Inr)
  have "fields_typed (dict_update d fs)" if "fields_typed d" "fields_typed fs" for d fs
    using that
  proof (induction d fs rule: dict_update.induct)
    case (2 d k v kvs)
    then have "field_ok k v" "fields_typed kvs" by (simp_all add: fields_typed_def)
    with 2 show ?case by (simp add: fields_typed_set)
  qed simp
  then have "fields_typed (st_fields s)"
    using field_types.run_scripts [OF run] assms by (simp add: fields_typed_def)
  then show ?thesis using Inr by (auto simp: r build_result_def fields_typed_def list_all_iff)
qed simp

theorem tagging_keeps_types_witness:
  "\<exists>document. fields_typed (md_fields document) \<and> md_fields document \<noteq> []
     \<and> (case apply_scripts ascii_db document [] [] [] of
          Inl e \<Rightarrow> True | Inr r \<Rightarrow> fields_typed (md_fields (re_metadata r)))"
proof -
  let ?d = "\<lparr>md_fields = [(lit ''artist'', VTup [lit ''x''])], md_artist_display = None,
              md_album_artist_display = None\<rparr>"
  have "fields_typed (md_fields ?d)" by (simp add: fields_typed_def field_ok_def ORDERED_FIELDS_def)
  from tagging_keeps_types [OF this] this show ?thesis by (intro exI [of _ ?d]) simp
qed

section \<open>The difference of two sets of custom tags\<close>

text \<open>The values of a tag, found without regard to case, and how a writer applies a change.\<close>

definition folded_values :: "unidb \<Rightarrow> custom_tags \<Rightarrow> pystr \<Rightarrow> pystr list option" where
  "folded_values u tags k = map_option snd (dict_get (by_folded_name u tags) k)"

fun apply_desired ::
  "unidb \<Rightarrow> (pystr \<Rightarrow> pystr list option) \<Rightarrow> desired_tag \<Rightarrow> (pystr \<Rightarrow> pystr list option)" where
  "apply_desired u m (DesiredSet n vs) = m(py_casefold u n \<mapsto> vs)"
| "apply_desired u m (DesiredDelete n) = m(py_casefold u n := None)"

lemma by_folded_key: "dict_get (by_folded_name u tags) k = Some (n, vs) \<Longrightarrow> py_casefold u n = k"
proof -
  have "dict_get (dict_update d (map (\<lambda>(n, vs). (py_casefold u n, (n, vs))) tags)) k = Some (n, vs) \<Longrightarrow>
      \<forall>k n vs. dict_get d k = Some (n, vs) \<longrightarrow> py_casefold u n = k \<Longrightarrow> py_casefold u n = k" for d
    by (induction tags arbitrary: d) (fastforce simp: dict_get_set split: if_splits)+
  from this [of "[]"] show "dict_get (by_folded_name u tags) k = Some (n, vs) \<Longrightarrow> py_casefold u n = k"
    by (simp add: by_folded_name_def dict_get_def)
qed

lemma apply_desired_for:
  assumes "m k = map_option snd old"
    and "\<And>n vs. old = Some (n, vs) \<Longrightarrow> py_casefold u n = k"
    and "\<And>n vs. new = Some (n, vs) \<Longrightarrow> py_casefold u n = k"
  shows "foldl (apply_desired u) m (desired_for old new) = m(k := map_option snd new)"
  using assms by (cases old; cases new) (auto simp: desired_for_def fun_upd_idem)

lemma apply_desired_keys:
  assumes "distinct ks" "\<And>k. k \<in> set ks \<Longrightarrow> m k = folded_values u before k"
  shows "foldl (apply_desired u) m (concat (map (\<lambda>k. desired_for
           (dict_get (by_folded_name u before) k) (dict_get (by_folded_name u after) k)) ks))
         = (\<lambda>k. if k \<in> set ks then folded_values u after k else m k)"
  using assms
proof (induction ks arbitrary: m)
  case (Cons k ks)
  have "foldl (apply_desired u) m (desired_for (dict_get (by_folded_name u before) k)
      (dict_get (by_folded_name u after) k)) = m(k := folded_values u after k)"
    unfolding folded_values_def
    by (rule apply_desired_for)
      (use Cons.prems(2) [of k] in \<open>auto simp: folded_values_def dest: by_folded_key\<close>)
  moreover have "foldl (apply_desired u) (m(k := folded_values u after k)) (concat (map (\<lambda>k. desired_for
      (dict_get (by_folded_name u before) k) (dict_get (by_folded_name u after) k)) ks))
    = (\<lambda>j. if j \<in> set ks then folded_values u after j else (m(k := folded_values u after k)) j)"
    using Cons.prems by (intro Cons.IH) auto
  ultimately show ?case using Cons.prems(1) by auto
qed simp

text \<open>
  C15. \<open>desired_custom_tags\<close> is a correct difference: applied in order to the custom tags
  before the scripts, whose names are compared without regard to case, it gives the tags of
  the result, tag by tag and value by value.
\<close>
theorem desired_tags_correct:
  "foldl (apply_desired u) (folded_values u before) (desired_custom_tags u before after)
     = folded_values u after"
proof
  fix k
  let ?ks = "sort (remdups (dict_keys (by_folded_name u before) @ dict_keys (by_folded_name u after)))"
  have "folded_values u before k = None \<and> folded_values u after k = None" if "k \<notin> set ?ks"
    using that by (simp add: folded_values_def dict_keys_def dict_get_None_iff)
  then show "foldl (apply_desired u) (folded_values u before) (desired_custom_tags u before after) k
      = folded_values u after k"
    unfolding desired_custom_tags_def Let_def
    by (subst apply_desired_keys) auto
qed

end
