(* ===== verification/Circuit_Breaker.thy ===== *)
theory Circuit_Breaker
  imports Complex_Main
begin

text \<open>
  \<open>infrastructure/resilience/retry.py\<close>: the circuit breaker in front of every upstream
  service, and the retry loop \<open>with_retry\<close> that uses it. Times are rational seconds, handed
  in where the code reads a clock; rounding of floating point numbers is not modelled. The
  state changes that the code reports to its callback are kept in a log. The methods take
  the breaker's lock or do not await, so each of them is one step.
\<close>

section \<open>The breaker\<close>

datatype circuit_state = Closed | Open | HalfOpen

datatype change_reason =
    TimeoutElapsed | SuccessThresholdReached | HalfOpenFailure | FailureThresholdReached | ManualReset

record breaker =
  cb_failure_threshold :: int
  cb_success_threshold :: int
  cb_timeout :: rat
  cb_failure_count :: int
  cb_success_count :: int
  cb_last_failure :: rat
  cb_state :: circuit_state
  cb_last_warning :: rat
  cb_changes :: "(circuit_state \<times> circuit_state \<times> change_reason) list"

definition OPEN_WARNING_INTERVAL_SECONDS :: rat where "OPEN_WARNING_INTERVAL_SECONDS = 30"

definition new_breaker :: "int \<Rightarrow> int \<Rightarrow> rat \<Rightarrow> breaker" where
  "new_breaker failures successes timeout =
     \<lparr>cb_failure_threshold = failures, cb_success_threshold = successes, cb_timeout = timeout,
      cb_failure_count = 0, cb_success_count = 0, cb_last_failure = 0, cb_state = Closed,
      cb_last_warning = 0, cb_changes = []\<rparr>"

definition notify_state_change :: "circuit_state \<Rightarrow> change_reason \<Rightarrow> breaker \<Rightarrow> breaker" where
  "notify_state_change previous reason b =
     (if previous = cb_state b then b
      else b\<lparr>cb_changes := cb_changes b @ [(previous, cb_state b, reason)]\<rparr>)"

definition is_open :: "rat \<Rightarrow> breaker \<Rightarrow> bool \<times> breaker" where
  "is_open now b =
     (if cb_state b = Open
      then (if cb_timeout b < now - cb_last_failure b
            then (False, notify_state_change (cb_state b) TimeoutElapsed
                           (b\<lparr>cb_state := HalfOpen, cb_success_count := 0\<rparr>))
            else (True, b))
      else (False, b))"

definition should_log_open_warning :: "rat \<Rightarrow> breaker \<Rightarrow> bool \<times> breaker" where
  "should_log_open_warning now b =
     (if now - cb_last_warning b < OPEN_WARNING_INTERVAL_SECONDS then (False, b)
      else (True, b\<lparr>cb_last_warning := now\<rparr>))"

definition record_success :: "breaker \<Rightarrow> breaker" where
  "record_success b =
     (case cb_state b of
        HalfOpen \<Rightarrow>
          (let b1 = b\<lparr>cb_success_count := cb_success_count b + 1\<rparr>
           in if cb_success_threshold b1 \<le> cb_success_count b1
              then notify_state_change HalfOpen SuccessThresholdReached
                     (b1\<lparr>cb_state := Closed, cb_failure_count := 0, cb_success_count := 0\<rparr>)
              else b1)
      | Closed \<Rightarrow> b\<lparr>cb_failure_count := 0\<rparr>
      | Open \<Rightarrow> b)"

definition record_failure :: "rat \<Rightarrow> breaker \<Rightarrow> breaker" where
  "record_failure now b0 =
     (let b = b0\<lparr>cb_last_failure := now\<rparr>
      in case cb_state b of
           HalfOpen \<Rightarrow>
             notify_state_change HalfOpen HalfOpenFailure
               (b\<lparr>cb_state := Open, cb_failure_count := 0, cb_success_count := 0\<rparr>)
         | Closed \<Rightarrow>
             (let b1 = b\<lparr>cb_failure_count := cb_failure_count b + 1\<rparr>
              in if cb_failure_threshold b1 \<le> cb_failure_count b1
                 then notify_state_change Closed FailureThresholdReached (b1\<lparr>cb_state := Open\<rparr>)
                 else b1)
         | Open \<Rightarrow> b)"

definition reset_breaker :: "breaker \<Rightarrow> breaker" where
  "reset_breaker b =
     notify_state_change (cb_state b) ManualReset
       (b\<lparr>cb_state := Closed, cb_failure_count := 0, cb_success_count := 0, cb_last_failure := 0,
          cb_last_warning := 0\<rparr>)"

definition try_transition :: "rat \<Rightarrow> breaker \<Rightarrow> breaker" where
  "try_transition now b =
     (if cb_state b \<noteq> Open then b
      else if cb_timeout b < now - cb_last_failure b
      then notify_state_change (cb_state b) TimeoutElapsed
             (b\<lparr>cb_state := HalfOpen, cb_success_count := 0\<rparr>)
      else b)"

section \<open>Steps\<close>

datatype breaker_event =
    Check rat | Warn rat | Succeed | Fail rat | Reset | Try rat

text \<open>Any sequence of calls, by any number of tasks.\<close>

inductive breaker_step :: "breaker \<Rightarrow> breaker_event \<Rightarrow> breaker \<Rightarrow> bool" where
  checked: "breaker_step b (Check now) (snd (is_open now b))"
| warn: "breaker_step b (Warn now) (snd (should_log_open_warning now b))"
| succeed: "breaker_step b Succeed (record_success b)"
| fail: "breaker_step b (Fail now) (record_failure now b)"
| reset: "breaker_step b Reset (reset_breaker b)"
| transition: "breaker_step b (Try now) (try_transition now b)"

inductive_simps breaker_step_simps:
  "breaker_step b (Check now) b'" "breaker_step b (Warn now) b'" "breaker_step b Succeed b'"
  "breaker_step b (Fail now) b'" "breaker_step b Reset b'" "breaker_step b (Try now) b'"

inductive breaker_run :: "breaker \<Rightarrow> breaker_event list \<Rightarrow> breaker \<Rightarrow> bool" where
  start: "breaker_run b [] b"
| more: "breaker_run b es b1 \<Longrightarrow> breaker_step b1 e b2 \<Longrightarrow> breaker_run b (es @ [e]) b2"

named_theorems breaker_defs "the operations of the breaker"

lemmas [breaker_defs] =
  is_open_def should_log_open_warning_def record_success_def record_failure_def reset_breaker_def
  try_transition_def notify_state_change_def Let_def

text \<open>
  The invariant: the counters are below their thresholds in the states that count with them,
  and the log is a path of state changes from \<open>Closed\<close> to the present state.
\<close>

fun change_path :: "circuit_state \<Rightarrow> (circuit_state \<times> circuit_state \<times> change_reason) list \<Rightarrow> circuit_state \<Rightarrow> bool"
where
  "change_path a [] b \<longleftrightarrow> a = b"
| "change_path a ((x, y, r) # cs) b \<longleftrightarrow> x = a \<and> x \<noteq> y \<and> change_path y cs b"

definition legal_change :: "circuit_state \<times> circuit_state \<times> change_reason \<Rightarrow> bool" where
  "legal_change c \<longleftrightarrow>
     (case c of
        (x, y, TimeoutElapsed) \<Rightarrow> x = Open \<and> y = HalfOpen
      | (x, y, SuccessThresholdReached) \<Rightarrow> x = HalfOpen \<and> y = Closed
      | (x, y, HalfOpenFailure) \<Rightarrow> x = HalfOpen \<and> y = Open
      | (x, y, FailureThresholdReached) \<Rightarrow> x = Closed \<and> y = Open
      | (x, y, ManualReset) \<Rightarrow> x \<noteq> Closed \<and> y = Closed)"

definition breaker_inv :: "int \<Rightarrow> int \<Rightarrow> rat \<Rightarrow> breaker \<Rightarrow> bool" where
  "breaker_inv f s t b \<longleftrightarrow>
     cb_failure_threshold b = f \<and> cb_success_threshold b = s \<and> cb_timeout b = t
     \<and> 0 \<le> cb_failure_count b \<and> 0 \<le> cb_success_count b
     \<and> (cb_state b = Closed \<longrightarrow> cb_failure_count b < max 1 f)
     \<and> (cb_state b = HalfOpen \<longrightarrow> cb_success_count b < max 1 s)
     \<and> change_path Closed (cb_changes b) (cb_state b) \<and> list_all legal_change (cb_changes b)"

lemma change_path_snoc:
  "change_path a (cs @ [(x, y, r)]) b \<longleftrightarrow> change_path a cs x \<and> x \<noteq> y \<and> y = b"
  by (induction a cs b rule: change_path.induct) auto

lemma breaker_inv_new: "breaker_inv f s t (new_breaker f s t)"
  by (simp add: breaker_inv_def new_breaker_def)

lemma breaker_inv_step:
  assumes "breaker_step b e b'" "breaker_inv f s t b"
  shows "breaker_inv f s t b'"
  using assms
  by cases (cases "cb_state b"; auto simp: breaker_inv_def breaker_defs change_path_snoc legal_change_def)+

lemma breaker_inv_run: "breaker_run b es b' \<Longrightarrow> breaker_inv f s t b \<Longrightarrow> breaker_inv f s t b'"
  by (induction rule: breaker_run.induct) (auto intro: breaker_inv_step)

text \<open>
  C16. After any sequence of operations on a new breaker the counters are below their
  thresholds in the states they belong to, and the reported state changes are exactly the
  way from \<open>Closed\<close> to the present state along legal edges: it opens from half open on a
  failure and from closed on the threshold, and leaves \<open>Open\<close> only when its timeout has
  elapsed or on a manual reset.
\<close>
theorem breaker_invariant:
  assumes "breaker_run (new_breaker f s t) es b"
  shows "breaker_inv f s t b"
  using assms breaker_inv_new by (rule breaker_inv_run)

theorem breaker_invariant_witness:
  "\<exists>b. breaker_run (new_breaker 1 2 60) [Fail 5] b \<and> cb_state b = Open \<and> breaker_inv 1 2 60 b"
proof -
  let ?b = "record_failure 5 (new_breaker 1 2 60)"
  have "breaker_run (new_breaker 1 2 60) ([] @ [Fail 5]) ?b"
    by (rule breaker_run.more [OF breaker_run.start breaker_step.fail])
  then have "breaker_run (new_breaker 1 2 60) [Fail 5] ?b" by simp
  moreover have "cb_state ?b = Open" by (simp add: breaker_defs new_breaker_def)
  ultimately show ?thesis using breaker_invariant by blast
qed

text \<open>An open breaker stays open, and refuses, until its timeout since the last failure is over.\<close>

definition quiet :: "rat \<Rightarrow> rat \<Rightarrow> breaker_event \<Rightarrow> bool" where
  "quiet since until e =
     (case e of Check now \<Rightarrow> now \<le> until | Try now \<Rightarrow> now \<le> until | Fail now \<Rightarrow> since \<le> now
      | Reset \<Rightarrow> False | _ \<Rightarrow> True)"

lemma open_step:
  assumes "breaker_step b e b'" "cb_state b = Open" "t0 \<le> cb_last_failure b"
    "quiet t0 (t0 + cb_timeout b) e"
  shows "cb_state b' = Open \<and> t0 \<le> cb_last_failure b' \<and> cb_timeout b' = cb_timeout b"
  using assms by cases (auto simp: breaker_defs quiet_def)

lemma open_run:
  "breaker_run b es b' \<Longrightarrow> cb_state b = Open \<Longrightarrow> t0 \<le> cb_last_failure b \<Longrightarrow>
     list_all (quiet t0 (t0 + cb_timeout b)) es \<Longrightarrow>
     cb_state b' = Open \<and> t0 \<le> cb_last_failure b' \<and> cb_timeout b' = cb_timeout b"
proof (induction rule: breaker_run.induct)
  case (more b es b1 e b2)
  then show ?case using open_step [OF more(2)] by auto
qed simp

text \<open>
  An open breaker refuses every call until its timeout has passed since the last
  failure, whatever calls are recorded meanwhile, a manual reset excepted.
\<close>
theorem open_refuses:
  assumes "breaker_run b es b'" "cb_state b = Open"
    and "list_all (quiet (cb_last_failure b) (cb_last_failure b + cb_timeout b)) es"
    and "now \<le> cb_last_failure b + cb_timeout b"
  shows "is_open now b' = (True, b')"
  using open_run [OF assms(1,2) order_refl assms(3)] assms(4) by (auto simp: is_open_def)

theorem open_refuses_witness:
  "\<exists>b. cb_state b = Open \<and> is_open (20 :: rat) (record_success b) = (True, record_success b)"
proof -
  let ?b = "record_failure 5 (new_breaker 1 2 60)"
  have b: "cb_state ?b = Open" "cb_last_failure ?b = 5" "cb_timeout ?b = 60"
    by (simp_all add: breaker_defs new_breaker_def)
  have "breaker_run ?b ([] @ [Succeed]) (record_success ?b)"
    by (rule breaker_run.more [OF breaker_run.start breaker_step.succeed])
  from open_refuses [OF this b(1), of 20] b show ?thesis by (auto simp: quiet_def)
qed

text \<open>Failures in a row: the breaker opens with the one that reaches the threshold.\<close>

definition fail_all :: "rat list \<Rightarrow> breaker \<Rightarrow> breaker" where
  "fail_all ts b = fold record_failure ts b"

lemma fail_all_closed:
  assumes "cb_state b = Closed" "cb_failure_count b + int (length ts) < cb_failure_threshold b"
  shows "cb_state (fail_all ts b) = Closed
    \<and> cb_failure_count (fail_all ts b) = cb_failure_count b + int (length ts)
    \<and> cb_failure_threshold (fail_all ts b) = cb_failure_threshold b"
  using assms
  by (induction ts arbitrary: b) (auto simp: fail_all_def record_failure_def Let_def)

lemma fail_all_open: "cb_state b = Open \<Longrightarrow> cb_state (fail_all ts b) = Open"
  by (induction ts arbitrary: b) (auto simp: fail_all_def record_failure_def Let_def)

text \<open>
  A closed breaker that has counted no failure opens exactly when as many failures as its
  threshold follow each other (at least one of them): one fewer leaves it closed.
\<close>
theorem opens_at_threshold:
  "cb_state (fail_all ts (new_breaker f s t)) =
     (if ts \<noteq> [] \<and> f \<le> int (length ts) then Open else Closed)"
proof (cases "int (length ts) < f \<or> ts = []")
  case True
  then show ?thesis
    using fail_all_closed [of "new_breaker f s t" ts] by (auto simp: new_breaker_def fail_all_def)
next
  case False
  define n where "n = nat (f - 1)"
  have n: "n < length ts" using False by (cases ts) (auto simp: n_def)
  let ?b = "fail_all (take n ts) (new_breaker f s t)"
  have ts: "ts = take n ts @ ts ! n # drop (Suc n) ts" by (rule id_take_nth_drop [OF n])
  have b: "cb_state ?b = Closed \<and> cb_failure_count ?b = int n \<and> cb_failure_threshold ?b = f"
  proof (cases n)
    case (Suc m)
    then show ?thesis
      using fail_all_closed [of "new_breaker f s t" "take n ts"] n
      by (auto simp: new_breaker_def n_def)
  qed (simp add: fail_all_def new_breaker_def)
  then have "cb_state (record_failure (ts ! n) ?b) = Open"
    by (auto simp: record_failure_def notify_state_change_def Let_def n_def)
  then have "cb_state (fail_all (drop (Suc n) ts) (record_failure (ts ! n) ?b)) = Open"
    by (rule fail_all_open)
  moreover have "fail_all ts (new_breaker f s t)
      = fail_all (drop (Suc n) ts) (record_failure (ts ! n) ?b)"
    by (subst ts) (simp add: fail_all_def)
  ultimately show ?thesis using False by simp
qed

end
