(* ===== verification/Retry.thy ===== *)
theory Retry
  imports Circuit_Breaker
begin

text \<open>
  \<open>with_retry\<close> of \<open>infrastructure/resilience/retry.py\<close>: the wrapper around every upstream
  call. The wrapped coroutine is a parameter: \<open>call n\<close> is how its \<open>n\<close>-th attempt ends. The
  random numbers, the clock readings and what other tasks do to the shared breaker while
  this one awaits are parameters too. Delays are collected in the order of the sleeps.
\<close>

section \<open>Attempts\<close>

text \<open>The attribute \<open>retry_after_seconds\<close>: absent, not a number for \<open>float()\<close>, or a number.\<close>

datatype retry_attribute = NoAttribute | NotNumber | Number rat

text \<open>What the wrapper asks of an exception: its classes and its attribute.\<close>

record failure =
  fx_retriable :: bool
  fx_non_retriable :: bool
  fx_non_breaking :: bool
  fx_retry_after :: retry_attribute

datatype 'a outcome = Returned 'a | Raised failure

record retry_policy =
  rp_max_attempts :: int
  rp_base_delay :: rat
  rp_max_delay :: rat
  rp_exponential_base :: rat
  rp_jitter :: bool

definition get_retry_after_seconds :: "failure \<Rightarrow> rat option" where
  "get_retry_after_seconds e =
     (case fx_retry_after e of
        NoAttribute \<Rightarrow> None
      | NotNumber \<Rightarrow> None
      | Number r \<Rightarrow> if r \<le> 0 then None else Some r)"

definition backoff :: "retry_policy \<Rightarrow> nat \<Rightarrow> rat \<Rightarrow> rat" where
  "backoff p attempt random =
     (let d = min (rp_base_delay p * rp_exponential_base p ^ (attempt - 1)) (rp_max_delay p)
      in if rp_jitter p then d * (1 / 2 + random) else d)"

definition attempt_delay :: "retry_policy \<Rightarrow> (nat \<Rightarrow> rat) \<Rightarrow> nat \<Rightarrow> failure \<Rightarrow> rat" where
  "attempt_delay p random attempt e =
     (case get_retry_after_seconds e of Some r \<Rightarrow> r | None \<Rightarrow> backoff p attempt (random attempt))"

text \<open>How the loop ends; an exception that is not retriable leaves it at once.\<close>

datatype 'a ending = Success 'a | Propagated failure | GaveUp failure

function retry_from ::
  "retry_policy \<Rightarrow> (nat \<Rightarrow> 'a outcome) \<Rightarrow> (nat \<Rightarrow> rat) \<Rightarrow> nat \<Rightarrow> rat list \<times> 'a ending" where
  "retry_from p call random attempt =
     (case call attempt of
        Returned x \<Rightarrow> ([], Success x)
      | Raised e \<Rightarrow>
          if \<not> fx_retriable e then ([], Propagated e)
          else if fx_non_retriable e \<or> rp_max_attempts p \<le> int attempt then ([], GaveUp e)
          else (let (delays, ending) = retry_from p call random (Suc attempt)
                in (attempt_delay p random attempt e # delays, ending)))"
  by pat_completeness auto
termination
  by (relation "measure (\<lambda>(p, call, random, attempt). nat (rp_max_attempts p - int attempt))") auto

declare retry_from.simps [simp del]

section \<open>The wrapper\<close>

datatype 'a retry_result =
    RetryValueError
  | CircuitOpenError bool     \<comment> \<open>with the breaker's warning, or without\<close>
  | Finished "rat list" "'a ending"

text \<open>The clock readings before the call, the one of the warning, and the one after the loop.\<close>

record retry_clock =
  rc_try :: rat
  rc_check :: rat
  rc_warn :: rat
  rc_end :: rat

definition after_loop :: "rat \<Rightarrow> 'a ending \<Rightarrow> breaker \<Rightarrow> breaker" where
  "after_loop now ending b =
     (case ending of
        Success x \<Rightarrow> record_success b
      | Propagated e \<Rightarrow> b
      | GaveUp e \<Rightarrow> if fx_non_breaking e then b else record_failure now b)"

definition with_retry ::
  "retry_policy \<Rightarrow> (nat \<Rightarrow> 'a outcome) \<Rightarrow> (nat \<Rightarrow> rat) \<Rightarrow> retry_clock \<Rightarrow> (breaker \<Rightarrow> breaker)
     \<Rightarrow> breaker option \<Rightarrow> 'a retry_result \<times> breaker option" where
  "with_retry p call random clk others breaker =
     (if rp_max_attempts p < 1 then (RetryValueError, breaker)
      else (case breaker of
              None \<Rightarrow> (let (delays, ending) = retry_from p call random 1
                       in (Finished delays ending, None))
            | Some b \<Rightarrow>
                (let (refused, b1) = is_open (rc_check clk) (try_transition (rc_try clk) b)
                 in if refused
                    then (let (warned, b2) = should_log_open_warning (rc_warn clk) b1
                          in (CircuitOpenError warned, Some b2))
                    else (let (delays, ending) = retry_from p call random 1
                          in (Finished delays ending,
                              Some (after_loop (rc_end clk) ending (others b1)))))))"

section \<open>What the wrapper promises\<close>

text \<open>
  \<open>attempted p call random start delays ending\<close>: the attempts from \<open>start\<close> on, one more
  than the delays. All but the last raise an exception that may be retried, each sleeps as
  its exception and its number ask, and the last one ends the loop.
\<close>

definition attempted ::
  "retry_policy \<Rightarrow> (nat \<Rightarrow> 'a outcome) \<Rightarrow> (nat \<Rightarrow> rat) \<Rightarrow> nat \<Rightarrow> rat list \<Rightarrow> 'a ending \<Rightarrow> bool" where
  "attempted p call random start delays ending \<longleftrightarrow>
     (\<forall>i < length delays. \<exists>e. call (start + i) = Raised e \<and> fx_retriable e \<and> \<not> fx_non_retriable e
        \<and> delays ! i = attempt_delay p random (start + i) e)
     \<and> (case ending of
          Success x \<Rightarrow> call (start + length delays) = Returned x
        | Propagated e \<Rightarrow> call (start + length delays) = Raised e \<and> \<not> fx_retriable e
        | GaveUp e \<Rightarrow> call (start + length delays) = Raised e \<and> fx_retriable e
            \<and> (fx_non_retriable e \<or> rp_max_attempts p \<le> int (start + length delays)))"

lemma attempted_Cons:
  assumes "call start = Raised e" "fx_retriable e" "\<not> fx_non_retriable e"
    and "attempted p call random (Suc start) delays ending"
  shows "attempted p call random start (attempt_delay p random start e # delays) ending"
  using assms by (auto simp: attempted_def nth_Cons split: nat.splits ending.splits)

lemma retry_from_attempted:
  "retry_from p call random start = (delays, ending) \<Longrightarrow>
     attempted p call random start delays ending
     \<and> (int start \<le> rp_max_attempts p \<longrightarrow> int (start + length delays) \<le> rp_max_attempts p)"
proof (induction p call random start arbitrary: delays ending rule: retry_from.induct)
  case (1 p call random start)
  show ?case
  proof (cases "call start")
    case (Returned x)
    with 1(2) show ?thesis by (auto simp: retry_from.simps [of p] attempted_def)
  next
    case (Raised e)
    show ?thesis
    proof (cases "\<not> fx_retriable e \<or> fx_non_retriable e \<or> rp_max_attempts p \<le> int start")
      case True
      with 1(2) Raised show ?thesis
        by (auto simp: retry_from.simps [of p _ _ start] attempted_def split: if_splits)
    next
      case False
      obtain ds en where rest: "retry_from p call random (Suc start) = (ds, en)" by fastforce
      with 1(2) Raised False have "delays = attempt_delay p random start e # ds" "ending = en"
        by (auto simp: retry_from.simps [of p _ _ start])
      with 1(1)[OF Raised _ _ rest] False Raised attempted_Cons [of call start e p random ds en]
      show ?thesis by auto
    qed
  qed
qed

text \<open>
  C17. A wrapped call is attempted at least once and at most \<open>max_attempts\<close> times; every
  attempt but the last failed with an exception that may be retried, the last one decides
  the result, and giving up early needs an exception that must not be retried. With an open
  breaker whose timeout has not passed it is not attempted at all.
\<close>
theorem with_retry_attempts:
  "case with_retry p call random clk others breaker of
     (RetryValueError, b) \<Rightarrow> rp_max_attempts p < 1 \<and> b = breaker
   | (CircuitOpenError w, b) \<Rightarrow>
       (\<exists>b0. breaker = Some b0 \<and> cb_state b0 = Open \<and> rc_check clk - cb_last_failure b0 \<le> cb_timeout b0)
   | (Finished delays ending, b) \<Rightarrow>
       int (length delays) < rp_max_attempts p \<and> attempted p call random 1 delays ending"
proof -
  obtain delays ending where r: "retry_from p call random 1 = (delays, ending)" by fastforce
  note a = retry_from_attempted [OF r]
  show ?thesis
    using a by (cases breaker)
      (auto simp: with_retry_def r is_open_def try_transition_def should_log_open_warning_def
        notify_state_change_def Let_def simp del: One_nat_def split: if_splits)
qed

text \<open>
  Every delay between attempts is the positive one that the exception asked for, or the
  exponential backoff: never above one and a half times the maximal delay, and never
  negative.
\<close>
theorem attempt_delay_bounded:
  assumes "0 \<le> random n" "random n < 1" "0 \<le> rp_base_delay p" "0 \<le> rp_max_delay p"
    "0 \<le> rp_exponential_base p"
  shows "case get_retry_after_seconds e of
      Some r \<Rightarrow> attempt_delay p random n e = r \<and> 0 < r
    | None \<Rightarrow> 0 \<le> attempt_delay p random n e \<and> attempt_delay p random n e \<le> 3 / 2 * rp_max_delay p"
proof (cases "get_retry_after_seconds e")
  case None
  define d where "d = min (rp_base_delay p * rp_exponential_base p ^ (n - 1)) (rp_max_delay p)"
  have d: "0 \<le> d" "d \<le> rp_max_delay p" using assms by (auto simp: d_def)
  have "d * (1 / 2 + random n) \<le> d * (3 / 2)" using d(1) assms(2) by (intro mult_left_mono) auto
  then have "d * (1 / 2 + random n) \<le> 3 / 2 * rp_max_delay p" using d(2) by simp
  moreover have "0 \<le> d * (1 / 2 + random n)" using d(1) assms(1) by simp
  moreover have "d \<le> 3 / 2 * rp_max_delay p" using d assms(4) by linarith
  moreover have "attempt_delay p random n e = (if rp_jitter p then d * (1 / 2 + random n) else d)"
    by (simp only: attempt_delay_def None option.case backoff_def Let_def d_def)
  ultimately show ?thesis using None d(1) by simp
next
  case (Some r)
  then show ?thesis
    by (auto simp: attempt_delay_def get_retry_after_seconds_def split: retry_attribute.splits if_splits)
qed

theorem attempt_delay_bounded_witness:
  "\<exists>p e. get_retry_after_seconds e = None \<and> rp_max_delay p = 10 \<and>
     attempt_delay p (\<lambda>_. 1 / 2) 2 e \<le> 15"
proof -
  let ?p = "\<lparr>rp_max_attempts = 3, rp_base_delay = 1, rp_max_delay = 10, rp_exponential_base = 2,
             rp_jitter = True\<rparr>"
  let ?e = "\<lparr>fx_retriable = True, fx_non_retriable = False, fx_non_breaking = False,
             fx_retry_after = NoAttribute\<rparr>"
  have "get_retry_after_seconds ?e = None" by (simp add: get_retry_after_seconds_def)
  with attempt_delay_bounded [of "\<lambda>_. 1 / 2" 2 ?p ?e] show ?thesis
    by (intro exI [of _ ?p] exI [of _ ?e]) simp
qed

end
