(* ===== verification/Token_Bucket.thy ===== *)
theory Token_Bucket
  imports Complex_Main
begin

text \<open>
  \<open>infrastructure/resilience/rate_limiter.py\<close>: the token bucket. Times, rates and token
  levels are rational numbers, handed in where the code reads the monotonic clock; rounding
  of floating point numbers is not modelled. Each operation holds the bucket's lock or does
  not await, so it is one step; \<open>acquire\<close> is a step for each round of its loop.
\<close>

section \<open>The bucket\<close>

definition EPSILON :: rat where "EPSILON = 1 / 1000000000"

record bucket =
  tb_rate :: rat
  tb_capacity :: int
  tb_tokens :: rat
  tb_last :: rat

text \<open>\<open>int(x)\<close> of a number: towards zero.\<close>

definition py_trunc :: "rat \<Rightarrow> int" where
  "py_trunc x = (if x < 0 then - \<lfloor>- x\<rfloor> else \<lfloor>x\<rfloor>)"

definition new_bucket :: "rat \<Rightarrow> int option \<Rightarrow> rat \<Rightarrow> bucket" where
  "new_bucket rate capacity now =
     (let c = (case capacity of None \<Rightarrow> py_trunc (rate * 2)
                              | Some n \<Rightarrow> if n = 0 then py_trunc (rate * 2) else n)
      in \<lparr>tb_rate = rate, tb_capacity = c, tb_tokens = of_int c, tb_last = now\<rparr>)"

definition refresh_tokens :: "rat \<Rightarrow> bucket \<Rightarrow> bucket" where
  "refresh_tokens now b =
     b\<lparr>tb_tokens := min (of_int (tb_capacity b)) (tb_tokens b + (now - tb_last b) * tb_rate b),
       tb_last := now\<rparr>"

definition try_acquire :: "rat \<Rightarrow> int \<Rightarrow> bucket \<Rightarrow> bool \<times> bucket" where
  "try_acquire now n b0 =
     (let b = refresh_tokens now b0
      in if of_int n - EPSILON \<le> tb_tokens b
         then (True, b\<lparr>tb_tokens := tb_tokens b - of_int n\<rparr>) else (False, b))"

text \<open>One round of the loop of \<open>acquire\<close>: done, or the time to sleep.\<close>

definition acquire_round :: "rat \<Rightarrow> int \<Rightarrow> bucket \<Rightarrow> rat option \<times> bucket" where
  "acquire_round now n b0 =
     (let (taken, b) = try_acquire now n b0
      in if taken then (None, b) else (Some ((of_int n - tb_tokens b) / tb_rate b), b))"

datatype acquire_result = AcquireValueError | Acquired | Waiting rat

text \<open>\<open>acquire\<close> with the clock readings of its first rounds.\<close>

fun acquire_rounds :: "rat list \<Rightarrow> int \<Rightarrow> rat \<Rightarrow> bucket \<Rightarrow> acquire_result \<times> bucket" where
  "acquire_rounds [] n wait b = (Waiting wait, b)"
| "acquire_rounds (now # rest) n wait b =
     (case acquire_round now n b of
        (None, b1) \<Rightarrow> (Acquired, b1)
      | (Some w, b1) \<Rightarrow> acquire_rounds rest n w b1)"

definition acquire :: "rat list \<Rightarrow> int \<Rightarrow> bucket \<Rightarrow> acquire_result \<times> bucket" where
  "acquire readings n b =
     (if tb_capacity b < n then (AcquireValueError, b) else acquire_rounds readings n 0 b)"

definition remaining_tokens :: "rat \<Rightarrow> bucket \<Rightarrow> int \<times> bucket" where
  "remaining_tokens now b0 =
     (let b = refresh_tokens now b0 in (max 0 (py_trunc (tb_tokens b)), b))"

definition retry_after :: "rat \<Rightarrow> int \<Rightarrow> bucket \<Rightarrow> rat \<times> bucket" where
  "retry_after now n b0 =
     (let b = refresh_tokens now b0
      in if of_int n - EPSILON \<le> tb_tokens b then (0, b)
         else (of_int \<lceil>(of_int n - tb_tokens b) / tb_rate b\<rceil>, b))"

definition reset_bucket :: "rat \<Rightarrow> bucket \<Rightarrow> bucket" where
  "reset_bucket now b = b\<lparr>tb_tokens := of_int (tb_capacity b), tb_last := now\<rparr>"

definition update_capacity :: "int \<Rightarrow> bucket \<Rightarrow> bucket" where
  "update_capacity c b = b\<lparr>tb_capacity := c, tb_tokens := min (tb_tokens b) (of_int c)\<rparr>"

text \<open>\<open>None\<close> is the \<open>ValueError\<close>.\<close>

definition update_rate :: "rat \<Rightarrow> bucket \<Rightarrow> bucket option" where
  "update_rate rate b = (if rate \<le> 0 then None else Some (b\<lparr>tb_rate := rate\<rparr>))"

section \<open>What the bucket promises\<close>

lemma epsilon_pos: "0 < EPSILON"
  by (simp add: EPSILON_def)

definition bucket_ok :: "bucket \<Rightarrow> bool" where
  "bucket_ok b \<longleftrightarrow>
     0 \<le> tb_rate b \<and> 0 \<le> tb_capacity b \<and> - EPSILON \<le> tb_tokens b \<and> tb_tokens b \<le> of_int (tb_capacity b)"

lemma refresh_simps [simp]:
  "tb_rate (refresh_tokens now b) = tb_rate b" "tb_capacity (refresh_tokens now b) = tb_capacity b"
  "tb_last (refresh_tokens now b) = now"
  by (simp_all add: refresh_tokens_def)

lemma refresh_gain:
  assumes "bucket_ok b" "tb_last b \<le> now"
  shows "tb_tokens (refresh_tokens now b) \<le> tb_tokens b + (now - tb_last b) * tb_rate b"
    "tb_tokens b \<le> tb_tokens (refresh_tokens now b)"
proof -
  have "0 \<le> (now - tb_last b) * tb_rate b" using assms by (simp add: bucket_ok_def)
  then show "tb_tokens b \<le> tb_tokens (refresh_tokens now b)"
    using assms(1) by (auto simp: refresh_tokens_def bucket_ok_def)
qed (simp add: refresh_tokens_def)

lemma refresh_ok: "bucket_ok b \<Longrightarrow> tb_last b \<le> now \<Longrightarrow> bucket_ok (refresh_tokens now b)"
  using refresh_gain(2) [of b now] by (simp add: bucket_ok_def) (simp add: refresh_tokens_def)

lemma try_acquire_True:
  assumes "try_acquire now n b = (True, b')"
  shows "tb_tokens b' = tb_tokens (refresh_tokens now b) - of_int n"
    "of_int n - EPSILON \<le> tb_tokens (refresh_tokens now b)"
    "tb_rate b' = tb_rate b" "tb_capacity b' = tb_capacity b" "tb_last b' = now"
  using assms by (auto simp: try_acquire_def Let_def split: if_splits)

lemma try_acquire_False:
  "try_acquire now n b = (False, b') \<Longrightarrow>
     b' = refresh_tokens now b \<and> tb_tokens b' < of_int n - EPSILON"
  by (auto simp: try_acquire_def Let_def split: if_splits)

lemma try_acquire_ok:
  assumes "bucket_ok b" "tb_last b \<le> now" "0 \<le> n" "try_acquire now n b = (r, b')"
  shows "bucket_ok b'"
proof (cases r)
  case True
  with assms(4) have "try_acquire now n b = (True, b')" by simp
  note t = try_acquire_True [OF this]
  show ?thesis using refresh_ok [OF assms(1,2)] t assms(3) by (auto simp: bucket_ok_def)
next
  case False
  with assms(4) have "try_acquire now n b = (False, b')" by simp
  with try_acquire_False refresh_ok [OF assms(1,2)] show ?thesis by blast
qed

text \<open>Requests of any number of tasks, each with its clock reading: the tokens that they get.\<close>

fun serve :: "(rat \<times> int) list \<Rightarrow> bucket \<Rightarrow> int \<times> bucket" where
  "serve [] b = (0, b)"
| "serve ((now, n) # rest) b =
     (let (taken, b1) = try_acquire now n b; (more, b2) = serve rest b1
      in ((if taken then n else 0) + more, b2))"

fun clock_ok :: "rat \<Rightarrow> (rat \<times> int) list \<Rightarrow> bool" where
  "clock_ok t [] \<longleftrightarrow> True"
| "clock_ok t ((now, n) # rest) \<longleftrightarrow> t \<le> now \<and> 0 \<le> n \<and> clock_ok now rest"

lemma serve_bound:
  "bucket_ok b \<Longrightarrow> clock_ok (tb_last b) requests \<Longrightarrow>
     (case serve requests b of (granted, b') \<Rightarrow>
        bucket_ok b' \<and> tb_rate b' = tb_rate b \<and> tb_last b \<le> tb_last b'
        \<and> of_int granted + tb_tokens b' \<le> tb_tokens b + (tb_last b' - tb_last b) * tb_rate b)"
proof (induction requests b rule: serve.induct)
  case (2 now n rest b)
  obtain taken b1 where t: "try_acquire now n b = (taken, b1)" by fastforce
  have now: "tb_last b \<le> now" "0 \<le> n" "clock_ok now rest" using 2(3) by simp_all
  have ok: "bucket_ok b1" by (rule try_acquire_ok [OF 2(2) now(1,2) t])
  have b1: "tb_last b1 = now" "tb_rate b1 = tb_rate b"
    "of_int (if taken then n else 0) + tb_tokens b1 \<le> tb_tokens b + (now - tb_last b) * tb_rate b"
  proof -
    note gain = refresh_gain(1) [OF 2(2) now(1)]
    have "tb_last b1 = now \<and> tb_rate b1 = tb_rate b \<and>
        of_int (if taken then n else 0) + tb_tokens b1 = tb_tokens (refresh_tokens now b)"
    proof (cases taken)
      case True
      with t have "try_acquire now n b = (True, b1)" by simp
      from try_acquire_True [OF this] True show ?thesis by simp
    next
      case False
      with t have "try_acquire now n b = (False, b1)" by simp
      from try_acquire_False [OF this] False show ?thesis by simp
    qed
    with gain show "tb_last b1 = now" "tb_rate b1 = tb_rate b"
      "of_int (if taken then n else 0) + tb_tokens b1 \<le> tb_tokens b + (now - tb_last b) * tb_rate b"
      by linarith+
  qed
  obtain more b2 where s: "serve rest b1 = (more, b2)" by fastforce
  from 2(1)[OF t [symmetric] refl] ok now(3) b1(1) s
  have IH: "bucket_ok b2" "tb_rate b2 = tb_rate b1" "now \<le> tb_last b2"
    "of_int more + tb_tokens b2 \<le> tb_tokens b1 + (tb_last b2 - now) * tb_rate b"
    using b1(2) by simp_all
  have "(tb_last b2 - tb_last b) * tb_rate b
      = (now - tb_last b) * tb_rate b + (tb_last b2 - now) * tb_rate b" by (simp add: algebra_simps)
  then show ?case using IH b1 t s now(1) by (cases taken) auto
qed simp

text \<open>
  C18. The limiter limits: whatever requests arrive at whatever times, the tokens granted
  since the bucket's last update are at most the tokens it held, never more than its
  capacity, plus the rate times the time that has passed, up to the code's epsilon; and the
  level stays between minus epsilon and the capacity.
\<close>
theorem bucket_limits_rate:
  assumes "bucket_ok b" "clock_ok (tb_last b) requests"
  shows "case serve requests b of (granted, b') \<Rightarrow>
      bucket_ok b'
      \<and> of_int granted \<le> tb_tokens b + EPSILON + (tb_last b' - tb_last b) * tb_rate b
      \<and> of_int granted \<le> of_int (tb_capacity b) + EPSILON + (tb_last b' - tb_last b) * tb_rate b"
  using serve_bound [OF assms] assms(1) by (auto simp: bucket_ok_def)

theorem bucket_limits_rate_witness:
  "case serve [(0, 3), (1, 1)] (new_bucket 1 (Some 3) 0) of (granted, b') \<Rightarrow>
     granted = 4 \<and> of_int granted \<le> 3 + EPSILON + (tb_last b' - 0) * 1"
proof -
  let ?b = "new_bucket 1 (Some 3) 0"
  have "bucket_ok ?b" "clock_ok (tb_last ?b) [(0, 3), (1, 1)]"
    using epsilon_pos by (simp_all add: bucket_ok_def new_bucket_def)
  from bucket_limits_rate [OF this] show ?thesis
    by (simp add: new_bucket_def try_acquire_def refresh_tokens_def EPSILON_def)
qed

text \<open>
  The wait that the limiter asks for is enough: a request within the capacity that was
  refused succeeds after the time that \<open>acquire\<close> sleeps, and after the whole seconds that
  \<open>retry_after\<close> reports, when no other request came between.
\<close>
theorem wait_is_enough:
  assumes "bucket_ok b" "tb_last b \<le> now" "0 < tb_rate b" "n \<le> tb_capacity b"
    "0 \<le> extra"
    and refused: "try_acquire now n b = (False, b1)"
  shows "case acquire_round now n b of
      (None, _) \<Rightarrow> False
    | (Some wait, _) \<Rightarrow> 0 < wait \<and> wait \<le> fst (retry_after now n b)
        \<and> fst (try_acquire (now + wait + extra) n b1)"
proof -
  have b1: "b1 = refresh_tokens now b" and less: "tb_tokens b1 < of_int n - EPSILON"
    using try_acquire_False [OF refused] by blast+
  define wait where "wait = (of_int n - tb_tokens b1) / tb_rate b"
  have rate: "tb_rate b1 = tb_rate b" "tb_capacity b1 = tb_capacity b" "tb_last b1 = now"
    by (simp_all add: b1)
  have pos: "0 < wait" using less epsilon_pos assms(3) by (simp add: wait_def)
  have ra: "fst (retry_after now n b) = of_int \<lceil>wait\<rceil>"
    using less by (simp add: retry_after_def Let_def b1 wait_def)
  have round: "acquire_round now n b = (Some wait, b1)"
    by (simp add: acquire_round_def refused wait_def rate)
  have "wait * tb_rate b = of_int n - tb_tokens b1" using assms(3) by (simp add: wait_def)
  moreover have "wait * tb_rate b \<le> (wait + extra) * tb_rate b"
    using assms(3,5) by (intro mult_right_mono) auto
  ultimately have "of_int n \<le> tb_tokens b1 + (wait + extra) * tb_rate b" by linarith
  moreover have "(of_int n :: rat) \<le> of_int (tb_capacity b)" using assms(4) by simp
  ultimately have "of_int n - EPSILON \<le> tb_tokens (refresh_tokens (now + wait + extra) b1)"
    using epsilon_pos by (simp add: refresh_tokens_def rate algebra_simps)
  then have "fst (try_acquire (now + wait + extra) n b1)" by (simp add: try_acquire_def Let_def)
  then show ?thesis using pos ra round by simp
qed

theorem wait_is_enough_witness:
  "\<exists>b1. try_acquire 0 2 (new_bucket 1 (Some 3) 0 \<lparr>tb_tokens := 1\<rparr>) = (False, b1)
     \<and> fst (try_acquire (0 + 1 + 0) 2 b1)"
proof -
  let ?b = "new_bucket 1 (Some 3) 0 \<lparr>tb_tokens := 1\<rparr>"
  let ?b1 = "snd (try_acquire 0 2 ?b)"
  have ok: "bucket_ok ?b" "tb_last ?b \<le> 0" "0 < tb_rate ?b" "2 \<le> tb_capacity ?b"
    using epsilon_pos by (simp_all add: bucket_ok_def new_bucket_def)
  have r: "try_acquire 0 2 ?b = (False, ?b1)"
    by (simp add: new_bucket_def try_acquire_def refresh_tokens_def EPSILON_def)
  from wait_is_enough [OF ok order_refl r] r show ?thesis
    by (simp add: acquire_round_def new_bucket_def refresh_tokens_def try_acquire_def EPSILON_def)
qed

end
