(* ===== verification/Memory_Cache.thy ===== *)
theory Memory_Cache
  imports Complex_Main Script_Lexer
begin

text \<open>
  \<open>infrastructure/cache/memory_cache.py\<close>: the interface \<open>CacheInterface\<close> as a locale, and
  \<open>InMemoryCache\<close>, its implementation by an \<open>OrderedDict\<close> in order of last use. Each method
  holds the cache's lock, so it is one step; the clock reading is an argument. The memory
  estimate (\<open>sys.getsizeof\<close>) is not modelled.
\<close>

section \<open>The interface\<close>

text \<open>
  What a client may rely on: \<open>visible t s k\<close> is the value that a reader at time \<open>t\<close> finds
  under \<open>k\<close>. A cache may forget, but it never invents a value nor keeps a deleted one.
\<close>

locale cache_interface =
  fixes get_op :: "rat \<Rightarrow> pystr \<Rightarrow> 's \<Rightarrow> 'v option \<times> 's"
    and set_op :: "rat \<Rightarrow> pystr \<Rightarrow> 'v \<Rightarrow> rat \<Rightarrow> 's \<Rightarrow> exc + 's"
    and delete_op :: "pystr \<Rightarrow> 's \<Rightarrow> 's"
    and visible :: "rat \<Rightarrow> 's \<Rightarrow> pystr \<Rightarrow> 'v option"
    and wf :: "'s \<Rightarrow> bool"
  assumes get_wf: "wf s \<Longrightarrow> wf (snd (get_op t k s))"
    and get_result: "wf s \<Longrightarrow> fst (get_op t k s) = visible t s k"
    and get_keeps: "wf s \<Longrightarrow> t \<le> t' \<Longrightarrow> visible t' (snd (get_op t k s)) j = visible t' s j"
    and set_result: "wf s \<Longrightarrow> \<exists>s'. set_op t k v ttl s = Inr s' \<and> wf s'
          \<and> (\<forall>t'. visible t' s' k = (if t' \<le> t + ttl then Some v else None))
          \<and> (\<forall>t' j. j \<noteq> k \<longrightarrow> visible t' s' j = None \<or> visible t' s' j = visible t' s j)"
    and delete_wf: "wf s \<Longrightarrow> wf (delete_op k s)"
    and delete_result: "wf s \<Longrightarrow> visible t (delete_op k s) j = (if j = k then None else visible t s j)"
    and ages: "wf s \<Longrightarrow> t \<le> t' \<Longrightarrow> visible t' s j = None \<or> visible t' s j = visible t s j"
begin

lemma get_after_set:
  assumes "wf s" "set_op t k v ttl s = Inr s'" "t' \<le> t + ttl"
  shows "fst (get_op t' k s') = Some v"
  using set_result [OF assms(1), of t k v ttl] assms(2,3) get_result by fastforce

lemma get_after_delete: "wf s \<Longrightarrow> fst (get_op t k (delete_op k s)) = None"
  using delete_wf delete_result get_result by simp

text \<open>The read-through use of a cache: what is read, or else computed and stored.\<close>

definition read_through :: "rat \<Rightarrow> pystr \<Rightarrow> rat \<Rightarrow> 'v \<Rightarrow> 's \<Rightarrow> exc + 'v \<times> 's" where
  "read_through t k ttl computed s =
     (case get_op t k s of
        (Some v, s') \<Rightarrow> Inr (v, s')
      | (None, s') \<Rightarrow> rbind (set_op t k computed ttl s') (\<lambda>s''. Inr (computed, s'')))"

lemma read_through_again:
  assumes "wf s" "read_through t k ttl a s = Inr (v, s')" "0 \<le> ttl"
  shows "\<exists>s''. read_through t k ttl b s' = Inr (v, s'')"
proof -
  obtain r s1 where g: "get_op t k s = (r, s1)" by fastforce
  have s1: "wf s1" "r = visible t s k" "visible t s1 k = visible t s k"
    using get_wf [OF assms(1), of t k] get_result [OF assms(1), of t k]
      get_keeps [OF assms(1) order_refl, of t k k] g by auto
  have "visible t s' k = Some v \<and> wf s'"
  proof (cases r)
    case (Some x)
    then have "read_through t k ttl a s = Inr (x, s1)" by (simp add: read_through_def g)
    with assms(2) have "v = x" "s' = s1" by simp_all
    with s1 Some show ?thesis by metis
  next
    case None
    obtain s2 where "set_op t k a ttl s1 = Inr s2" "wf s2" "visible t s2 k = Some a"
      using set_result [OF s1(1), of t k a ttl] assms(3) by auto
    with None assms(2) g show ?thesis by (auto simp: read_through_def)
  qed
  then have "fst (get_op t k s') = Some v" using get_result by simp
  then show ?thesis by (cases "get_op t k s'") (auto simp: read_through_def)
qed

end

section \<open>The in-memory cache\<close>

record 'v cache_entry =
  ce_value :: 'v
  ce_expires :: rat

definition new_entry :: "rat \<Rightarrow> 'v \<Rightarrow> rat \<Rightarrow> 'v cache_entry" where
  "new_entry now v ttl = \<lparr>ce_value = v, ce_expires = now + ttl\<rparr>"

definition is_expired :: "rat \<Rightarrow> 'v cache_entry \<Rightarrow> bool" where
  "is_expired now e \<longleftrightarrow> ce_expires e < now"

record 'v memory_cache =
  mc_items :: "(pystr, 'v cache_entry) odict"
  mc_max_entries :: int
  mc_evictions :: nat
  mc_hits :: nat
  mc_misses :: nat

definition new_cache :: "int \<Rightarrow> 'v memory_cache" where
  "new_cache n = \<lparr>mc_items = [], mc_max_entries = n, mc_evictions = 0, mc_hits = 0, mc_misses = 0\<rparr>"

text \<open>\<open>move_to_end\<close> of a key that is there.\<close>

definition move_to_end :: "('k, 'v) odict \<Rightarrow> 'k \<Rightarrow> ('k, 'v) odict" where
  "move_to_end d k = dict_pop d k @ filter (\<lambda>e. fst e = k) d"

definition cache_get :: "rat \<Rightarrow> pystr \<Rightarrow> 'v memory_cache \<Rightarrow> 'v option \<times> 'v memory_cache" where
  "cache_get now key c =
     (case dict_get (mc_items c) key of
        None \<Rightarrow> (None, c\<lparr>mc_misses := mc_misses c + 1\<rparr>)
      | Some e \<Rightarrow>
          if is_expired now e
          then (None, c\<lparr>mc_items := dict_pop (mc_items c) key, mc_misses := mc_misses c + 1\<rparr>)
          else (Some (ce_value e),
                c\<lparr>mc_items := move_to_end (mc_items c) key, mc_hits := mc_hits c + 1\<rparr>))"

text \<open>\<open>popitem\<close> of an empty dictionary is a \<open>KeyError\<close>.\<close>

definition cache_set :: "rat \<Rightarrow> pystr \<Rightarrow> 'v \<Rightarrow> rat \<Rightarrow> 'v memory_cache \<Rightarrow> exc + 'v memory_cache" where
  "cache_set now key v ttl c =
     rbind (if key \<notin> set (dict_keys (mc_items c)) \<and> mc_max_entries c \<le> int (length (mc_items c))
            then (case mc_items c of
                    [] \<Rightarrow> Inl KeyError
                  | _ # rest \<Rightarrow> Inr (c\<lparr>mc_items := rest, mc_evictions := mc_evictions c + 1\<rparr>))
            else Inr c) (\<lambda>c1.
     let items = dict_set (mc_items c1) key (new_entry now v ttl)
     in Inr (c1\<lparr>mc_items := move_to_end items key\<rparr>))"

definition cache_delete :: "pystr \<Rightarrow> 'v memory_cache \<Rightarrow> 'v memory_cache" where
  "cache_delete key c = c\<lparr>mc_items := dict_pop (mc_items c) key\<rparr>"

definition cache_clear :: "'v memory_cache \<Rightarrow> 'v memory_cache" where
  "cache_clear c = c\<lparr>mc_items := []\<rparr>"

definition pop_keys :: "('k, 'v) odict \<Rightarrow> 'k list \<Rightarrow> ('k, 'v) odict" where
  "pop_keys d keys = fold (\<lambda>k d. dict_pop d k) keys d"

definition cache_clear_prefix :: "pystr \<Rightarrow> 'v memory_cache \<Rightarrow> nat \<times> 'v memory_cache" where
  "cache_clear_prefix prefix c =
     (let keys = filter (\<lambda>k. py_startswith k prefix) (dict_keys (mc_items c))
      in (length keys, c\<lparr>mc_items := pop_keys (mc_items c) keys\<rparr>))"

definition cache_cleanup_expired :: "rat \<Rightarrow> 'v memory_cache \<Rightarrow> nat \<times> 'v memory_cache" where
  "cache_cleanup_expired now c =
     (let keys = map fst (filter (\<lambda>(k, e). ce_expires e < now) (mc_items c))
      in (length keys, c\<lparr>mc_items := pop_keys (mc_items c) keys\<rparr>))"

definition cache_size :: "'v memory_cache \<Rightarrow> nat" where
  "cache_size c = length (mc_items c)"

section \<open>Lemmas on ordered dictionaries\<close>

lemma pop_keys_filter: "pop_keys d keys = filter (\<lambda>e. fst e \<notin> set keys) d"
  by (induction keys arbitrary: d) (auto simp: pop_keys_def dict_pop_def intro: filter_cong)

lemma dict_get_append: "dict_get (d @ d') k = (case dict_get d k of None \<Rightarrow> dict_get d' k | Some v \<Rightarrow> Some v)"
  by (auto simp: dict_get_def map_add_def split: option.split)

lemma dict_get_filter_key: "dict_get (filter (\<lambda>e. P (fst e)) d) k = (if P k then dict_get d k else None)"
  by (induction d) (auto simp: dict_get_def)

lemma dict_get_move [simp]: "dict_get (move_to_end d k) j = dict_get d j"
  using dict_get_filter_key [of "\<lambda>x. x = k" d j]
  by (auto simp: move_to_end_def dict_get_append dict_get_pop split: option.split)

lemma dict_wf_move [simp]: "dict_wf d \<Longrightarrow> dict_wf (move_to_end d k)"
  by (auto simp: dict_wf_def move_to_end_def dict_pop_def distinct_map_filter)

lemma set_move [simp]: "set (move_to_end d k) = set d"
  by (auto simp: move_to_end_def dict_pop_def)

lemma length_move [simp]: "length (move_to_end d k) = length d"
  using sum_length_filter_compl [of "\<lambda>e. fst e \<noteq> k" d] by (simp add: move_to_end_def dict_pop_def)

lemma filter_key: "dict_wf d \<Longrightarrow> (k, v) \<in> set d \<Longrightarrow> filter (\<lambda>e. fst e = k) d = [(k, v)]"
proof (induction d)
  case (Cons a d)
  show ?case
  proof (cases "fst a = k")
    case True
    then have new: "k \<notin> fst ` set d" using Cons.prems by (simp add: dict_wf_def)
    then have "filter (\<lambda>e. fst e = k) d = []" unfolding filter_empty_conv by (metis image_eqI)
    moreover have "(k, v) \<notin> set d" using new by (metis fst_conv image_eqI)
    then have "a = (k, v)" using Cons.prems by simp
    ultimately show ?thesis using True by simp
  next
    case False
    then show ?thesis using Cons by (auto simp: dict_wf_def)
  qed
qed simp

lemma dict_wf_Cons: "dict_wf (e # d) \<longleftrightarrow> fst e \<notin> fst ` set d \<and> dict_wf d"
  by (simp add: dict_wf_def)

section \<open>The implementation keeps the interface\<close>

definition cache_visible :: "rat \<Rightarrow> 'v memory_cache \<Rightarrow> pystr \<Rightarrow> 'v option" where
  "cache_visible now c key =
     (case dict_get (mc_items c) key of
        None \<Rightarrow> None | Some e \<Rightarrow> if is_expired now e then None else Some (ce_value e))"

definition cache_wf :: "'v memory_cache \<Rightarrow> bool" where
  "cache_wf c \<longleftrightarrow>
     dict_wf (mc_items c) \<and> 1 \<le> mc_max_entries c \<and> int (length (mc_items c)) \<le> mc_max_entries c"

lemma cache_set_Inr:
  assumes "cache_wf c"
  shows "\<exists>items. cache_set now key v ttl c = Inr (c\<lparr>mc_items := items,
        mc_evictions := mc_evictions c + (if key \<notin> set (dict_keys (mc_items c))
          \<and> mc_max_entries c \<le> int (length (mc_items c)) then 1 else 0)\<rparr>)
      \<and> items = dict_pop (if key \<notin> set (dict_keys (mc_items c))
          \<and> mc_max_entries c \<le> int (length (mc_items c)) then tl (mc_items c) else mc_items c) key
          @ [(key, new_entry now v ttl)]"
proof -
  have move: "move_to_end (dict_set d key e) key = dict_pop d key @ [(key, e)]"
    if "dict_wf d" for d :: "(pystr, 'a cache_entry) odict" and e
  proof -
    have "(key, e) \<in> set (dict_set d key e)"
      using dict_get_set [of d key e key] by (simp add: dict_get_def map_of_SomeD)
    moreover have "dict_pop (dict_set d key e) key = dict_pop d key"
      by (induction d key e rule: dict_set.induct) (auto simp: dict_pop_def)
    ultimately show ?thesis using that by (simp add: move_to_end_def filter_key)
  qed
  show ?thesis
  proof (cases "key \<notin> set (dict_keys (mc_items c)) \<and> mc_max_entries c \<le> int (length (mc_items c))")
    case True
    with assms obtain e rest where items: "mc_items c = e # rest"
      by (cases "mc_items c") (auto simp: cache_wf_def)
    with assms have "dict_wf rest" by (simp add: cache_wf_def dict_wf_Cons)
    then have "move_to_end (dict_set rest key (new_entry now v ttl)) key
        = dict_pop rest key @ [(key, new_entry now v ttl)]" by (rule move)
    then show ?thesis using True unfolding items by (simp add: cache_set_def items)
  next
    case False
    with assms show ?thesis
      unfolding cache_set_def if_not_P [OF False] by (simp add: move cache_wf_def)
  qed
qed

lemma cache_set_wf:
  assumes "cache_wf c" "cache_set now key v ttl c = Inr c'"
  shows "cache_wf c'"
proof -
  let ?full = "key \<notin> set (dict_keys (mc_items c)) \<and> mc_max_entries c \<le> int (length (mc_items c))"
  let ?base = "if ?full then tl (mc_items c) else mc_items c"
  have c': "mc_items c' = dict_pop ?base key @ [(key, new_entry now v ttl)]"
    "mc_max_entries c' = mc_max_entries c"
    using cache_set_Inr [OF assms(1), of now key v ttl] assms(2) by auto
  have base: "dict_wf ?base" using assms(1)
    by (cases "mc_items c") (auto simp: cache_wf_def dict_wf_def)
  then have "dict_wf (mc_items c')"
    unfolding c'(1) by (auto simp: dict_wf_def dict_pop_def distinct_map_filter)
  moreover have "int (length (mc_items c')) \<le> mc_max_entries c"
  proof (cases "key \<in> set (dict_keys (mc_items c))")
    case True
    then have "length (dict_pop (mc_items c) key) < length (mc_items c)"
      by (auto simp: dict_keys_def dict_pop_def intro: length_filter_less)
    then show ?thesis using True assms(1) unfolding c'(1) by (simp add: cache_wf_def)
  next
    case False
    have "length (dict_pop ?base key) \<le> length ?base" by (simp add: dict_pop_def)
    then show ?thesis using False assms(1) unfolding c'(1)
      by (cases "mc_items c") (auto simp: cache_wf_def)
  qed
  ultimately show ?thesis using assms(1) c'(2) by (simp add: cache_wf_def)
qed

lemma cache_set_visible:
  assumes "cache_wf c" "cache_set now key v ttl c = Inr c'"
  shows "cache_visible t c' key = (if t \<le> now + ttl then Some v else None)"
    and "j \<noteq> key \<Longrightarrow> cache_visible t c' j = None \<or> cache_visible t c' j = cache_visible t c j"
proof -
  let ?full = "key \<notin> set (dict_keys (mc_items c)) \<and> mc_max_entries c \<le> int (length (mc_items c))"
  let ?base = "if ?full then tl (mc_items c) else mc_items c"
  have c': "mc_items c' = dict_pop ?base key @ [(key, new_entry now v ttl)]"
    using cache_set_Inr [OF assms(1), of now key v ttl] assms(2) by auto
  then show "cache_visible t c' key = (if t \<le> now + ttl then Some v else None)"
    by (simp add: cache_visible_def dict_get_append dict_get_pop)
      (auto simp: dict_get_def new_entry_def is_expired_def)
  assume "j \<noteq> key"
  moreover have "dict_get (tl (mc_items c)) j \<in> {None, dict_get (mc_items c) j}"
  proof (cases "mc_items c")
    case (Cons e rest)
    then have "fst e \<notin> fst ` set rest" using assms(1) by (simp add: cache_wf_def dict_wf_Cons)
    then show ?thesis using Cons
      by (cases e) (auto simp: dict_get_def map_of_eq_None_iff)
  qed simp
  ultimately show "cache_visible t c' j = None \<or> cache_visible t c' j = cache_visible t c j"
    unfolding cache_visible_def c'
    by (auto simp: dict_get_append dict_get_pop dict_get_def [of "[_]"] split: option.splits)
qed

lemma cache_get_wf: "cache_wf c \<Longrightarrow> cache_wf (snd (cache_get now key c))"
  by (auto simp: cache_wf_def cache_get_def dict_pop_def length_filter_le
      intro: order_trans [OF of_nat_mono [OF length_filter_le]] split: option.split)

lemma cache_get_keeps:
  "t \<le> t' \<Longrightarrow> cache_visible t' (snd (cache_get t key c)) j = cache_visible t' c j"
  by (auto simp: cache_visible_def cache_get_def dict_get_pop is_expired_def split: option.split)

lemma cache_pop_wf: "cache_wf c \<Longrightarrow> cache_wf (c\<lparr>mc_items := filter P (mc_items c)\<rparr>)"
  by (auto simp: cache_wf_def intro: order_trans [OF of_nat_mono [OF length_filter_le]])

interpretation memory_cache: cache_interface cache_get cache_set cache_delete cache_visible cache_wf
proof unfold_locales
  fix s :: "'a memory_cache" and t k v ttl
  assume wf: "cache_wf s"
  obtain s' where "cache_set t k v ttl s = Inr s'" using cache_set_Inr [OF wf] by blast
  then show "\<exists>s'. cache_set t k v ttl s = Inr s' \<and> cache_wf s'
      \<and> (\<forall>t'. cache_visible t' s' k = (if t' \<le> t + ttl then Some v else None))
      \<and> (\<forall>t' j. j \<noteq> k \<longrightarrow> cache_visible t' s' j = None \<or> cache_visible t' s' j = cache_visible t' s j)"
    using cache_set_wf [OF wf] cache_set_visible [OF wf] by blast
qed (auto simp: cache_get_wf cache_get_keeps cache_delete_def dict_pop_def intro: cache_pop_wf,
     auto simp: cache_visible_def cache_get_def is_expired_def dict_get_pop [unfolded dict_pop_def]
       split: option.splits)

section \<open>Histories\<close>

datatype 'v cache_op =
    OpGet rat pystr | OpSet rat pystr 'v rat | OpDelete pystr | OpClear | OpClearPrefix pystr
  | OpCleanup rat

fun apply_op :: "'v cache_op \<Rightarrow> 'v memory_cache \<Rightarrow> exc + 'v memory_cache" where
  "apply_op (OpGet now k) c = Inr (snd (cache_get now k c))"
| "apply_op (OpSet now k v ttl) c = cache_set now k v ttl c"
| "apply_op (OpDelete k) c = Inr (cache_delete k c)"
| "apply_op OpClear c = Inr (cache_clear c)"
| "apply_op (OpClearPrefix p) c = Inr (snd (cache_clear_prefix p c))"
| "apply_op (OpCleanup now) c = Inr (snd (cache_cleanup_expired now c))"

fun run_ops :: "'v cache_op list \<Rightarrow> 'v memory_cache \<Rightarrow> exc + 'v memory_cache" where
  "run_ops [] c = Inr c"
| "run_ops (op # ops) c = rbind (apply_op op c) (run_ops ops)"

text \<open>The specification: the last write under each key, with its expiry.\<close>

fun note_op :: "'v cache_op \<Rightarrow> (pystr \<Rightarrow> ('v \<times> rat) option) \<Rightarrow> (pystr \<Rightarrow> ('v \<times> rat) option)" where
  "note_op (OpGet now k) m = m"
| "note_op (OpSet now k v ttl) m = m(k \<mapsto> (v, now + ttl))"
| "note_op (OpDelete k) m = m(k := None)"
| "note_op OpClear m = (\<lambda>_. None)"
| "note_op (OpClearPrefix p) m = (\<lambda>k. if py_startswith k p then None else m k)"
| "note_op (OpCleanup now) m = m"

definition truthful :: "(pystr \<Rightarrow> ('v \<times> rat) option) \<Rightarrow> 'v memory_cache \<Rightarrow> bool" where
  "truthful m c \<longleftrightarrow>
     (\<forall>k e. dict_get (mc_items c) k = Some e \<longrightarrow> m k = Some (ce_value e, ce_expires e))"

lemma filter_items:
  "mc_items (snd (cache_clear_prefix p c)) = filter (\<lambda>e. \<not> py_startswith (fst e) p) (mc_items c)"
  "mc_items (cache_delete k c) = filter (\<lambda>e. fst e \<noteq> k) (mc_items c)"
  by (auto simp: cache_clear_prefix_def Let_def pop_keys_filter dict_keys_def cache_delete_def
      dict_pop_def intro: filter_cong)

lemma filter_caches:
  "snd (cache_clear_prefix p c)
     = c\<lparr>mc_items := filter (\<lambda>e. \<not> py_startswith (fst e) p) (mc_items c)\<rparr>"
  "cache_delete k c = c\<lparr>mc_items := filter (\<lambda>e. fst e \<noteq> k) (mc_items c)\<rparr>"
  using filter_items(1) [of p c] by (simp_all add: cache_clear_prefix_def Let_def cache_delete_def dict_pop_def)

lemma cleanup_items:
  "cache_wf c \<Longrightarrow>
     mc_items (snd (cache_cleanup_expired t c)) = filter (\<lambda>e. \<not> ce_expires (snd e) < t) (mc_items c)"
proof -
  assume "cache_wf c"
  then have same: "(k, e1) \<in> set (mc_items c) \<Longrightarrow> (k, e2) \<in> set (mc_items c) \<Longrightarrow> e1 = e2"
    for k e1 e2 by (auto simp: cache_wf_def dict_wf_def dest: eq_key_imp_eq_value)
  show ?thesis
    by (auto simp: cache_cleanup_expired_def Let_def pop_keys_filter intro!: filter_cong)
      (metis same)
qed

lemma apply_op_ok:
  assumes "cache_wf c" "truthful m c"
  shows "\<exists>c'. apply_op op c = Inr c' \<and> cache_wf c' \<and> mc_max_entries c' = mc_max_entries c
    \<and> truthful (note_op op m) c'"
proof (cases op)
  case (OpGet now k)
  with assms cache_get_wf [OF assms(1), of now k] show ?thesis
    by (auto simp: truthful_def cache_get_def dict_get_pop split: option.splits if_splits)
next
  case (OpSet now k v ttl)
  let ?full = "k \<notin> set (dict_keys (mc_items c)) \<and> mc_max_entries c \<le> int (length (mc_items c))"
  let ?base = "if ?full then tl (mc_items c) else mc_items c"
  obtain c' where c': "cache_set now k v ttl c = Inr c'" "mc_max_entries c' = mc_max_entries c"
    "mc_items c' = dict_pop ?base k @ [(k, new_entry now v ttl)]"
    using cache_set_Inr [OF assms(1), of now k v ttl] by auto
  have "dict_get ?base j = Some e \<Longrightarrow> m j = Some (ce_value e, ce_expires e)" for j e
  proof -
    assume "dict_get ?base j = Some e"
    moreover have "set ?base \<subseteq> set (mc_items c)" by (cases "mc_items c") auto
    moreover have "dict_wf (mc_items c)" using assms(1) by (simp add: cache_wf_def)
    ultimately have "dict_get (mc_items c) j = Some e"
      by (auto simp: dict_get_def dict_wf_def dest!: map_of_SomeD intro: map_of_is_SomeI)
    with assms(2) show "m j = Some (ce_value e, ce_expires e)" by (simp add: truthful_def)
  qed
  then have "truthful (note_op op m) c'"
    unfolding truthful_def c'(3) OpSet
    by (auto simp: dict_get_append dict_get_pop dict_get_def [of "[_]"] new_entry_def
        split: option.splits if_splits)
  then show ?thesis using c' cache_set_wf [OF assms(1) c'(1)] OpSet by simp
next
  case (OpCleanup now)
  let ?c = "snd (cache_cleanup_expired now c)"
  have items: "mc_items ?c = filter (\<lambda>e. \<not> ce_expires (snd e) < now) (mc_items c)"
    by (rule cleanup_items [OF assms(1)])
  have "dict_get (mc_items ?c) k = Some e \<Longrightarrow> dict_get (mc_items c) k = Some e" for k e
    using assms(1) unfolding items
    by (auto simp: dict_get_def cache_wf_def dict_wf_def dest!: map_of_SomeD intro: map_of_is_SomeI)
  then have "truthful m ?c" using assms(2) by (simp add: truthful_def)
  moreover have "?c = c\<lparr>mc_items := filter (\<lambda>e. \<not> ce_expires (snd e) < now) (mc_items c)\<rparr>"
    using items by (simp add: cache_cleanup_expired_def Let_def)
  then have "cache_wf ?c" using cache_pop_wf [OF assms(1)] by simp
  moreover have "mc_max_entries ?c = mc_max_entries c" by (simp add: cache_cleanup_expired_def Let_def)
  ultimately show ?thesis using OpCleanup by simp
qed (use assms cache_pop_wf [OF assms(1)] in
    \<open>auto simp: truthful_def filter_caches dict_get_filter_key [of "\<lambda>x. x \<noteq> _"]
      dict_get_filter_key [of "\<lambda>x. \<not> py_startswith x _"] cache_clear_def cache_wf_def dict_wf_def
      dict_get_def split: if_splits\<close>)

lemma run_ops_ok:
  "cache_wf c \<Longrightarrow> truthful m c \<Longrightarrow>
     \<exists>c'. run_ops ops c = Inr c' \<and> cache_wf c' \<and> mc_max_entries c' = mc_max_entries c
       \<and> truthful (fold note_op ops m) c'"
proof (induction ops arbitrary: c m)
  case (Cons op ops)
  obtain c1 where "apply_op op c = Inr c1" "cache_wf c1" "mc_max_entries c1 = mc_max_entries c"
    "truthful (note_op op m) c1" using apply_op_ok [OF Cons.prems] by blast
  with Cons.IH [OF this(2,4)] show ?case by auto
qed simp

text \<open>
  C19. A cache with room for at least one entry never fails, never holds more entries than it
  may, and never lies: whatever it is asked for, what a read finds is the last value written
  under that key and not deleted since, and it has not expired.
\<close>
theorem cache_bounded_and_truthful:
  assumes "1 \<le> n"
  shows "case run_ops ops (new_cache n) of
      Inl e \<Rightarrow> False
    | Inr c \<Rightarrow> int (cache_size c) \<le> n
        \<and> (case fst (cache_get t k c) of
             None \<Rightarrow> True
           | Some v \<Rightarrow> \<exists>expires. fold note_op ops (\<lambda>_. None) k = Some (v, expires) \<and> t \<le> expires)"
proof -
  have "cache_wf (new_cache n)" "truthful (\<lambda>_. None) (new_cache n)"
    using assms by (simp_all add: new_cache_def cache_wf_def dict_wf_def truthful_def dict_get_def)
  from run_ops_ok [OF this, of ops] obtain c where c: "run_ops ops (new_cache n) = Inr c"
    "cache_wf c" "mc_max_entries c = n" "truthful (fold note_op ops (\<lambda>_. None)) c"
    by (auto simp: new_cache_def)
  then show ?thesis
    by (auto simp: memory_cache.get_result cache_visible_def truthful_def cache_wf_def cache_size_def
        is_expired_def split: option.splits if_splits)
qed

theorem cache_bounded_and_truthful_witness:
  "case run_ops [OpSet 0 [97] (1 :: nat) 5, OpSet 0 [98] 2 5] (new_cache 1) of
     Inl e \<Rightarrow> False | Inr c \<Rightarrow> int (cache_size c) \<le> 1"
  using cache_bounded_and_truthful
    [where n = 1 and ops = "[OpSet 0 [97] (1 :: nat) 5, OpSet 0 [98] 2 5]" and t = 0 and k = "[]"]
  by (auto split: sum.splits)

section \<open>Least recently used\<close>

text \<open>Operations that cannot take the entry of \<open>k\<close> away by themselves and use only keys of \<open>T\<close>.\<close>

fun harmless :: "pystr \<Rightarrow> rat \<Rightarrow> pystr set \<Rightarrow> 'v cache_op \<Rightarrow> bool" where
  "harmless k expires T (OpGet t j) \<longleftrightarrow> t \<le> expires \<and> (j = k \<or> j \<in> T)"
| "harmless k expires T (OpSet t j v ttl) \<longleftrightarrow> j \<noteq> k \<and> j \<in> T"
| "harmless k expires T (OpDelete j) \<longleftrightarrow> j \<noteq> k"
| "harmless k expires T OpClear \<longleftrightarrow> False"
| "harmless k expires T (OpClearPrefix p) \<longleftrightarrow> \<not> py_startswith k p"
| "harmless k expires T (OpCleanup t) \<longleftrightarrow> t \<le> expires"

text \<open>Only keys of \<open>T\<close> have been used since \<open>k\<close> was.\<close>

definition recent :: "pystr \<Rightarrow> 'v cache_entry \<Rightarrow> pystr set \<Rightarrow> 'v memory_cache \<Rightarrow> bool" where
  "recent k e T c \<longleftrightarrow>
     (\<exists>pre post. mc_items c = pre @ (k, e) # post \<and> k \<notin> fst ` set pre \<and> fst ` set post \<subseteq> T)"

lemma recent_filter:
  assumes "mc_items c' = filter P (mc_items c)" "P (k, e)" "recent k e T c"
  shows "recent k e T c'"
proof -
  from assms(3) obtain pre post where "mc_items c = pre @ (k, e) # post" "k \<notin> fst ` set pre"
    "fst ` set post \<subseteq> T" by (auto simp: recent_def)
  then show ?thesis unfolding recent_def assms(1) using assms(2)
    by (intro exI [of _ "filter P pre"] exI [of _ "filter P post"]) auto
qed

lemma recent_get: "recent k e T c \<Longrightarrow> dict_get (mc_items c) k = Some e"
proof -
  assume "recent k e T c"
  then obtain pre post where "mc_items c = pre @ (k, e) # post" "k \<notin> fst ` set pre"
    by (auto simp: recent_def)
  moreover from this have "dict_get pre k = None" by (simp add: dict_get_None_iff)
  ultimately show ?thesis by (simp add: dict_get_append) (simp add: dict_get_def)
qed

lemma recent_move:
  assumes "mc_items c' = move_to_end (mc_items c) j" "recent k e T c" "j = k \<or> j \<in> T"
    "dict_wf (mc_items c)"
  shows "recent k e T c'"
proof (cases "j = k")
  case True
  have "(k, e) \<in> set (mc_items c)" using recent_get [OF assms(2)] by (simp add: dict_get_def map_of_SomeD)
  then have "mc_items c' = dict_pop (mc_items c) k @ [(k, e)]"
    using assms(1,4) True by (simp add: move_to_end_def filter_key)
  then show ?thesis unfolding recent_def
    by (intro exI [of _ "dict_pop (mc_items c) k"] exI [of _ "[]"]) (auto simp: dict_pop_def)
next
  case False
  from assms(2) obtain pre post where "mc_items c = pre @ (k, e) # post" "k \<notin> fst ` set pre"
    "fst ` set post \<subseteq> T" by (auto simp: recent_def)
  then have "mc_items c' = filter (\<lambda>x. fst x \<noteq> j) pre @ (k, e) # filter (\<lambda>x. fst x \<noteq> j) post
      @ filter (\<lambda>x. fst x = j) (pre @ post)"
    using assms(1) False by (simp add: move_to_end_def dict_pop_def)
  then show ?thesis unfolding recent_def using \<open>k \<notin> fst ` set pre\<close> \<open>fst ` set post \<subseteq> T\<close> False assms(3)
    by (intro exI [of _ "filter (\<lambda>x. fst x \<noteq> j) pre"]
        exI [of _ "filter (\<lambda>x. fst x \<noteq> j) post @ filter (\<lambda>x. fst x = j) (pre @ post)"]) auto
qed

lemma recent_set:
  assumes "cache_wf c" "recent k e T c" "j \<noteq> k" "j \<in> T" "finite T" "int (card T) < mc_max_entries c"
    and c': "cache_set now j v ttl c = Inr c'"
  shows "recent k e T c'"
proof -
  let ?full = "j \<notin> set (dict_keys (mc_items c)) \<and> mc_max_entries c \<le> int (length (mc_items c))"
  let ?base = "if ?full then tl (mc_items c) else mc_items c"
  have items: "mc_items c' = dict_pop ?base j @ [(j, new_entry now v ttl)]"
    using cache_set_Inr [OF assms(1), of now j v ttl] c' by auto
  from assms(2) obtain pre post where p: "mc_items c = pre @ (k, e) # post" "k \<notin> fst ` set pre"
    "fst ` set post \<subseteq> T" by (auto simp: recent_def)
  have "\<exists>pre'. ?base = pre' @ (k, e) # post \<and> k \<notin> fst ` set pre'"
  proof (cases ?full)
    case True
    have "pre \<noteq> []"
    proof
      assume "pre = []"
      with p True have len: "mc_max_entries c \<le> int (Suc (length post))" by simp
      have "distinct (map fst post)" "j \<notin> fst ` set post"
        using assms(1) p(1) True by (auto simp: cache_wf_def dict_wf_def dict_keys_def)
      then have "card (insert j (fst ` set post)) = Suc (length post)"
        by (simp add: card_image distinct_map distinct_card)
      moreover have "card (insert j (fst ` set post)) \<le> card T"
        using p(3) assms(4,5) by (intro card_mono) auto
      ultimately show False using len assms(6) by linarith
    qed
    then show ?thesis using True p by (cases pre) auto
  qed (use p in auto)
  then obtain pre' where "?base = pre' @ (k, e) # post" "k \<notin> fst ` set pre'" by blast
  then have "mc_items c' = filter (\<lambda>x. fst x \<noteq> j) pre' @ (k, e) # filter (\<lambda>x. fst x \<noteq> j) post
      @ [(j, new_entry now v ttl)]"
    using assms(3) unfolding items by (simp add: dict_pop_def)
  then show ?thesis unfolding recent_def using \<open>k \<notin> fst ` set pre'\<close> p(3) assms(4)
    by (intro exI [of _ "filter (\<lambda>x. fst x \<noteq> j) pre'"]
        exI [of _ "filter (\<lambda>x. fst x \<noteq> j) post @ [(j, new_entry now v ttl)]"]) auto
qed

lemma recent_op:
  assumes "cache_wf c" "recent k e T c" "finite T" "int (card T) < mc_max_entries c"
    and "harmless k (ce_expires e) T op" "apply_op op c = Inr c'"
  shows "recent k e T c'"
proof (cases op)
  case (OpGet t j)
  have wf: "dict_wf (mc_items c)" using assms(1) by (simp add: cache_wf_def)
  show ?thesis
  proof (cases "dict_get (mc_items c) j")
    case None
    with assms(6) OpGet have "mc_items c' = mc_items c" by (auto simp: cache_get_def)
    with assms(2) show ?thesis by (simp add: recent_def)
  next
    case (Some e')
    show ?thesis
    proof (cases "is_expired t e'")
      case True
      then have "j \<noteq> k" using Some recent_get [OF assms(2)] assms(5) OpGet by (auto simp: is_expired_def)
      then show ?thesis using True Some assms(2,6) OpGet
        by (intro recent_filter [of c' "\<lambda>x. fst x \<noteq> j" c]) (auto simp: cache_get_def dict_pop_def)
    next
      case False
      then show ?thesis using Some assms(5,6) OpGet
        by (intro recent_move [OF _ assms(2) _ wf, of c' j]) (auto simp: cache_get_def)
    qed
  qed
next
  case (OpSet t j v ttl)
  with assms show ?thesis by (auto intro: recent_set)
next
  case (OpDelete j)
  with assms show ?thesis
    by (intro recent_filter [OF _ _ assms(2), of c' "\<lambda>e. fst e \<noteq> j"]) (auto simp: filter_items)
next
  case (OpClearPrefix p)
  with assms show ?thesis
    by (intro recent_filter [OF _ _ assms(2), of c' "\<lambda>e. \<not> py_startswith (fst e) p"])
      (auto simp: filter_items)
next
  case (OpCleanup t)
  with assms show ?thesis
    by (intro recent_filter [OF _ _ assms(2), of c' "\<lambda>e. \<not> ce_expires (snd e) < t"])
      (auto simp: cleanup_items [OF assms(1)])
qed (use assms in simp)

lemma recent_run:
  assumes "cache_wf c" "recent k e T c" "finite T" "int (card T) < mc_max_entries c"
    "list_all (harmless k (ce_expires e) T) ops"
  shows "case run_ops ops c of Inl x \<Rightarrow> False | Inr c' \<Rightarrow> cache_wf c' \<and> recent k e T c'"
  using assms
proof (induction ops arbitrary: c)
  case (Cons op ops)
  have "truthful (\<lambda>k. map_option (\<lambda>e. (ce_value e, ce_expires e)) (dict_get (mc_items c) k)) c"
    by (simp add: truthful_def)
  then obtain c1 where "apply_op op c = Inr c1" "cache_wf c1" "mc_max_entries c1 = mc_max_entries c"
    using apply_op_ok [OF Cons.prems(1)] by metis
  moreover from this Cons.prems have "recent k e T c1" by (intro recent_op [of c k e T op c1]) auto
  ultimately show ?case using Cons.IH [of c1] Cons.prems by simp
qed simp

text \<open>
  C20. Eviction is by least recent use: after a value was stored, no sequence of operations
  that uses fewer distinct other keys than the cache has room for takes it away before it
  expires, unless it is deleted or overwritten.
\<close>
theorem cache_keeps_recent:
  assumes "cache_wf c" "cache_set now k v ttl c = Inr c1"
    and "finite T" "int (card T) < mc_max_entries c"
    and "list_all (harmless k (now + ttl) T) ops" "t \<le> now + ttl"
  shows "case run_ops ops c1 of Inl x \<Rightarrow> False | Inr c2 \<Rightarrow> fst (cache_get t k c2) = Some v"
proof -
  let ?e = "new_entry now v ttl"
  obtain base where "mc_items c1 = dict_pop base k @ [(k, ?e)]" and max: "mc_max_entries c1 = mc_max_entries c"
    using cache_set_Inr [OF assms(1), of now k v ttl] assms(2) by auto
  then have "recent k ?e T c1" unfolding recent_def
    by (intro exI [of _ "dict_pop base k"] exI [of _ "[]"]) (auto simp: dict_pop_def)
  with max have c1: "mc_max_entries c1 = mc_max_entries c" "recent k ?e T c1" .
  have ex: "ce_expires ?e = now + ttl" "ce_value ?e = v" by (simp_all add: new_entry_def)
  have run: "case run_ops ops c1 of Inl x \<Rightarrow> False | Inr c' \<Rightarrow> cache_wf c' \<and> recent k ?e T c'"
    by (rule recent_run [OF cache_set_wf [OF assms(1,2)] c1(2) assms(3)])
      (use assms(4,5) c1(1) ex in simp_all)
  then obtain c2 where c2: "run_ops ops c1 = Inr c2" "cache_wf c2" "recent k ?e T c2"
    by (cases "run_ops ops c1") auto
  then show ?thesis using recent_get [OF c2(3)] assms(6) ex
    by (simp add: memory_cache.get_result cache_visible_def is_expired_def)
qed

theorem cache_keeps_recent_witness:
  "\<exists>c1. cache_set 0 [97] (1 :: nat) 9 (new_cache 2) = Inr c1
     \<and> (case run_ops [OpSet 1 [98] 2 9, OpSet 2 [98] 3 9] c1 of
          Inl x \<Rightarrow> False | Inr c2 \<Rightarrow> fst (cache_get 3 [97] c2) = Some 1)"
proof -
  have wf: "cache_wf (new_cache 2)" by (simp add: new_cache_def cache_wf_def dict_wf_def)
  obtain c1 where c1: "cache_set 0 [97] (1 :: nat) 9 (new_cache 2) = Inr c1"
    using cache_set_Inr [OF wf, of 0 "[97]" "1 :: nat" 9] by blast
  have "case run_ops [OpSet 1 [98] 2 9, OpSet 2 [98] 3 9] c1 of
      Inl x \<Rightarrow> False | Inr c2 \<Rightarrow> fst (cache_get 3 [97] c2) = Some 1"
    by (rule cache_keeps_recent [OF wf c1, of "{[98]}"]) (simp_all add: new_cache_def)
  with c1 show ?thesis by blast
qed

end
