(* ===== verification/Compat_Ratelimit.thy ===== *)
theory Compat_Ratelimit
  imports Token_Bucket Memory_Cache
begin

text \<open>
  \<open>api/compat/common/ratelimit.py\<close>: rate limits of the compatibility APIs. \<open>ttl_map\<close> is
  \<open>_BoundedTTLMap\<close>, an \<open>OrderedDict\<close> by last access; the objects in it are shared, so the code
  changes an entry after \<open>get\<close> has returned it: \<open>ttl_put\<close> writes it back where it is. The
  limiters read the process's monotonic clock, the maps the injected one; the two readings
  are separate arguments.
\<close>

section \<open>The bounded map\<close>

record 'v ttl_map =
  tm_max :: int
  tm_ttl :: rat
  tm_items :: "(pystr, rat \<times> 'v) odict"

definition new_ttl_map :: "int \<Rightarrow> rat \<Rightarrow> 'v ttl_map" where
  "new_ttl_map n ttl = \<lparr>tm_max = n, tm_ttl = ttl, tm_items = []\<rparr>"

definition evict_expired :: "rat \<Rightarrow> 'v ttl_map \<Rightarrow> 'v ttl_map" where
  "evict_expired now m =
     m\<lparr>tm_items := dropWhile (\<lambda>(k, seen, v). seen \<le> now - tm_ttl m) (tm_items m)\<rparr>"

definition ttl_get :: "(unit \<Rightarrow> 'v) \<Rightarrow> rat \<Rightarrow> pystr \<Rightarrow> 'v ttl_map \<Rightarrow> 'v \<times> 'v ttl_map" where
  "ttl_get factory now key m0 =
     (let m = evict_expired now m0;
          value = (case dict_get (tm_items m) key of None \<Rightarrow> factory () | Some (_, v) \<Rightarrow> v);
          items = dict_set (dict_pop (tm_items m) key) key (now, value)
      in (value, m\<lparr>tm_items := (if tm_max m < int (length items) then tl items else items)\<rparr>))"

text \<open>The object under \<open>key\<close> after its holder changed it; an evicted object is out of the map.\<close>

definition ttl_put :: "pystr \<Rightarrow> 'v \<Rightarrow> 'v ttl_map \<Rightarrow> 'v ttl_map" where
  "ttl_put key v m =
     m\<lparr>tm_items := map (\<lambda>(k, seen, w). (k, seen, if k = key then v else w)) (tm_items m)\<rparr>"

definition ttl_discard :: "pystr \<Rightarrow> 'v ttl_map \<Rightarrow> 'v ttl_map" where
  "ttl_discard key m = m\<lparr>tm_items := dict_pop (tm_items m) key\<rparr>"

definition ttl_clear :: "'v ttl_map \<Rightarrow> 'v ttl_map" where
  "ttl_clear m = m\<lparr>tm_items := []\<rparr>"

definition ttl_len :: "rat \<Rightarrow> 'v ttl_map \<Rightarrow> nat \<times> 'v ttl_map" where
  "ttl_len now m0 = (let m = evict_expired now m0 in (length (tm_items m), m))"

definition ttl_keys :: "rat \<Rightarrow> 'v ttl_map \<Rightarrow> pystr list \<times> 'v ttl_map" where
  "ttl_keys now m0 = (let m = evict_expired now m0 in (dict_keys (tm_items m), m))"

section \<open>The state of the limits\<close>

definition MAX_PRINCIPALS :: int where "MAX_PRINCIPALS = 10000"
definition MAX_IPS :: int where "MAX_IPS = 10000"
definition ENTRY_TTL_SECONDS :: rat where "ENTRY_TTL_SECONDS = 900"
definition AUTH_FAILURE_WINDOW_SECONDS :: rat where "AUTH_FAILURE_WINDOW_SECONDS = 60"
definition AUTH_FAILURE_LIMIT :: nat where "AUTH_FAILURE_LIMIT = 5"
definition AUTH_INITIAL_COOLDOWN_SECONDS :: rat where "AUTH_INITIAL_COOLDOWN_SECONDS = 10"
definition AUTH_MAX_COOLDOWN_SECONDS :: rat where "AUTH_MAX_COOLDOWN_SECONDS = 300"

record auth_failures =
  af_events :: "rat list"
  af_blocked_until :: rat
  af_strikes :: nat

definition no_failures :: auth_failures where
  "no_failures = \<lparr>af_events = [], af_blocked_until = 0, af_strikes = 0\<rparr>"

record compat_limits =
  cl_public :: "bucket ttl_map"
  cl_browse :: "bucket ttl_map"
  cl_mutation :: "bucket ttl_map"
  cl_auth :: "auth_failures ttl_map"

definition new_limits :: "int \<Rightarrow> int \<Rightarrow> rat \<Rightarrow> compat_limits" where
  "new_limits principals ips ttl =
     \<lparr>cl_public = new_ttl_map ips ttl, cl_browse = new_ttl_map principals ttl,
      cl_mutation = new_ttl_map principals ttl, cl_auth = new_ttl_map ips ttl\<rparr>"

text \<open>
  A request against the bucket under a key: \<open>None\<close> when it is admitted, else the seconds to
  wait. \<open>mono1\<close> and \<open>mono2\<close> are the limiter's clock readings, \<open>mono0\<close> the one of its creation.
\<close>

definition bucket_request ::
  "rat \<Rightarrow> int \<Rightarrow> rat \<Rightarrow> rat \<Rightarrow> rat \<Rightarrow> rat \<Rightarrow> pystr \<Rightarrow> bucket ttl_map \<Rightarrow> int option \<times> bucket ttl_map"
where
  "bucket_request rate capacity mono0 mono1 mono2 now key m =
     (let (b, m1) = ttl_get (\<lambda>_. new_bucket rate (Some capacity) mono0) now key m;
          (taken, b1) = try_acquire mono1 1 b
      in if taken then (None, ttl_put key b1 m1)
         else (let (wait, b2) = retry_after mono2 1 b1
               in (Some (max 1 (py_trunc wait)), ttl_put key b2 m1)))"

definition public_retry_after ::
  "rat \<Rightarrow> rat \<Rightarrow> rat \<Rightarrow> rat \<Rightarrow> pystr \<Rightarrow> compat_limits \<Rightarrow> int option \<times> compat_limits" where
  "public_retry_after mono0 mono1 mono2 now ip s =
     (let (r, m) = bucket_request 5 20 mono0 mono1 mono2 now ip (cl_public s)
      in (r, s\<lparr>cl_public := m\<rparr>))"

definition principal_retry_after ::
  "rat \<Rightarrow> rat \<Rightarrow> rat \<Rightarrow> rat \<Rightarrow> pystr \<Rightarrow> bool \<Rightarrow> compat_limits \<Rightarrow> int option \<times> compat_limits" where
  "principal_retry_after mono0 mono1 mono2 now who mutation s =
     (if mutation
      then (let (r, m) = bucket_request 5 20 mono0 mono1 mono2 now who (cl_mutation s)
            in (r, s\<lparr>cl_mutation := m\<rparr>))
      else (let (r, m) = bucket_request 30 120 mono0 mono1 mono2 now who (cl_browse s)
            in (r, s\<lparr>cl_browse := m\<rparr>)))"

definition auth_failure_retry_after ::
  "rat \<Rightarrow> rat \<Rightarrow> pystr \<Rightarrow> compat_limits \<Rightarrow> int option \<times> compat_limits" where
  "auth_failure_retry_after now now2 ip s =
     (let (f, m) = ttl_get (\<lambda>_. no_failures) now ip (cl_auth s);
          remaining = af_blocked_until f - now2
      in (if 0 < remaining then Some (max 1 (py_trunc (remaining + 999 / 1000))) else None,
          s\<lparr>cl_auth := m\<rparr>))"

text \<open>The change of one address's failures: what \<open>record_auth_failure\<close> does with its entry.\<close>

definition note_failure :: "rat \<Rightarrow> auth_failures \<Rightarrow> int option \<times> auth_failures" where
  "note_failure now f =
     (let events = dropWhile (\<lambda>t. t \<le> now - AUTH_FAILURE_WINDOW_SECONDS) (af_events f) @ [now]
      in if length events < AUTH_FAILURE_LIMIT then (None, f\<lparr>af_events := events\<rparr>)
         else (let strikes = af_strikes f + 1;
                   cooldown = min (AUTH_INITIAL_COOLDOWN_SECONDS * 2 ^ (strikes - 1))
                                AUTH_MAX_COOLDOWN_SECONDS
               in (Some (py_trunc cooldown),
                   f\<lparr>af_events := [], af_strikes := strikes, af_blocked_until := now + cooldown\<rparr>)))"

definition record_auth_failure ::
  "rat \<Rightarrow> rat \<Rightarrow> pystr \<Rightarrow> compat_limits \<Rightarrow> int option \<times> compat_limits" where
  "record_auth_failure now now2 ip s =
     (let (f, m) = ttl_get (\<lambda>_. no_failures) now2 ip (cl_auth s);
          (r, f') = note_failure now f
      in (r, s\<lparr>cl_auth := ttl_put ip f' m\<rparr>))"

definition clear_principal :: "pystr \<Rightarrow> compat_limits \<Rightarrow> compat_limits" where
  "clear_principal who s =
     s\<lparr>cl_browse := ttl_discard who (cl_browse s),
       cl_mutation := ttl_discard who (cl_mutation s)\<rparr>"

definition reset_limits :: "compat_limits \<Rightarrow> compat_limits" where
  "reset_limits s =
     s\<lparr>cl_public := ttl_clear (cl_public s), cl_browse := ttl_clear (cl_browse s),
       cl_mutation := ttl_clear (cl_mutation s), cl_auth := ttl_clear (cl_auth s)\<rparr>"

section \<open>Which requests are limited how\<close>

definition py_contains :: "pystr \<Rightarrow> pystr \<Rightarrow> bool" where
  "py_contains s p = py_in p s"

definition removesuffix :: "pystr \<Rightarrow> pystr \<Rightarrow> pystr" where
  "removesuffix s p = (if p \<noteq> [] \<and> py_endswith s p then take (length s - length p) s else s)"

definition is_media_request :: "unidb \<Rightarrow> pystr \<Rightarrow> bool" where
  "is_media_request u path =
     (let low = py_casefold u path
      in if py_startswith low (lit ''/subsonic/rest/'')
         then List.member [lit ''stream'', lit ''download'']
                (removesuffix (last (split_on c_slash low)) (lit ''.view''))
         else py_startswith low (lit ''/jellyfin/audio/''))"

definition is_mutation_request :: "unidb \<Rightarrow> pystr \<Rightarrow> pystr \<Rightarrow> bool" where
  "is_mutation_request u method path =
     (if List.member [lit ''DELETE'', lit ''PATCH'', lit ''PUT''] (py_upper u method) then True
      else if py_upper u method \<noteq> lit ''POST'' then False
      else (let low = py_casefold u path
            in \<not> py_endswith low (lit ''/authenticatebyname'')
               \<and> \<not> py_contains low (lit ''/playbackinfo'')))"

section \<open>What the map promises\<close>

text \<open>The entries are in the order of their last access, so the expired ones come first.\<close>

definition ttl_ok :: "rat \<Rightarrow> 'v ttl_map \<Rightarrow> bool" where
  "ttl_ok now m \<longleftrightarrow>
     dict_wf (tm_items m) \<and> sorted (map (\<lambda>(k, seen, v). seen) (tm_items m))
     \<and> list_all (\<lambda>(k, seen, v). seen \<le> now) (tm_items m)
     \<and> 0 \<le> tm_max m \<and> int (length (tm_items m)) \<le> tm_max m"

lemma sorted_dropWhile_filter:
  "sorted (map f xs) \<Longrightarrow> dropWhile (\<lambda>x. f x \<le> (c :: 'a :: linorder)) xs = filter (\<lambda>x. c < f x) xs"
proof (induction xs)
  case (Cons x xs)
  show ?case
  proof (cases "f x \<le> c")
    case False
    then have "\<forall>y \<in> set xs. c < f y" using Cons.prems by fastforce
    then have "filter (\<lambda>x. c < f x) xs = xs" by (simp add: filter_id_conv)
    with False show ?thesis by simp
  qed (use Cons in auto)
qed simp

lemma evict_filter:
  assumes "ttl_ok t m"
  shows "evict_expired now m = m\<lparr>tm_items := filter (\<lambda>e. now - tm_ttl m < fst (snd e)) (tm_items m)\<rparr>"
proof -
  have "sorted (map (\<lambda>e. fst (snd e)) (tm_items m))"
    using assms by (simp add: ttl_ok_def case_prod_beta')
  from sorted_dropWhile_filter [OF this] show ?thesis
    by (simp add: evict_expired_def case_prod_beta')
qed

lemma ttl_ok_filter: "ttl_ok t m \<Longrightarrow> ttl_ok t (m\<lparr>tm_items := filter P (tm_items m)\<rparr>)"
  using order_trans [OF of_nat_mono [OF length_filter_le [of P "tm_items m"]], of "tm_max m"]
  by (auto simp: ttl_ok_def sorted_filter list_all_iff)

lemma ttl_ok_later: "ttl_ok t m \<Longrightarrow> t \<le> now \<Longrightarrow> ttl_ok now m"
  by (auto simp: ttl_ok_def list_all_iff)

lemma dict_set_fresh: "k \<notin> fst ` set d \<Longrightarrow> dict_set d k v = d @ [(k, v)]"
  by (induction d k v rule: dict_set.induct) auto

lemma ttl_get_items:
  "tm_items (snd (ttl_get factory now key m)) =
     (let rest = dict_pop (tm_items (evict_expired now m)) key;
          items = rest @ [(key, now, fst (ttl_get factory now key m))]
      in if tm_max m < int (length items) then tl items else items)"
proof -
  have "tm_max (evict_expired now m) = tm_max m" by (simp add: evict_expired_def)
  moreover have "key \<notin> fst ` set (dict_pop d key)" for d :: "(pystr, rat \<times> 'a) odict"
    by (auto simp: dict_pop_def)
  ultimately show ?thesis by (simp add: ttl_get_def Let_def dict_set_fresh)
qed

lemma ttl_get_ok:
  assumes "ttl_ok t m" "t \<le> now"
  shows "ttl_ok now (snd (ttl_get factory now key m))"
    and "list_all (\<lambda>(k, seen, v). now - tm_ttl m < seen) (tm_items (snd (ttl_get factory now key m)))
      \<or> tm_ttl m \<le> 0"
    and "tm_max (snd (ttl_get factory now key m)) = tm_max m"
proof -
  let ?m = "snd (ttl_get factory now key m)"
  let ?rest = "dict_pop (tm_items (evict_expired now m)) key"
  let ?items = "?rest @ [(key, now, fst (ttl_get factory now key m))]"
  have m: "ttl_ok now m" using assms by (rule ttl_ok_later)
  have rest: "?rest = filter (\<lambda>e. fst e \<noteq> key) (filter (\<lambda>e. now - tm_ttl m < fst (snd e)) (tm_items m))"
    by (simp add: evict_filter [OF m] dict_pop_def)
  have "dict_wf ?items" "sorted (map (\<lambda>(k, seen, v). seen) ?items)"
    "list_all (\<lambda>(k, seen, v). seen \<le> now) ?items"
    using m unfolding rest
    by (auto simp: ttl_ok_def dict_wf_def distinct_map_filter sorted_append sorted_filter list_all_iff)
  then have all: "dict_wf its \<and> sorted (map (\<lambda>(k, seen, v). seen) its) \<and> list_all (\<lambda>(k, seen, v). seen \<le> now) its"
    if "its = ?items \<or> its = tl ?items" for its
    using that by (cases ?items) (auto simp: dict_wf_def)
  have "length ?rest \<le> length (tm_items m)"
    unfolding rest by (rule order_trans [OF length_filter_le length_filter_le])
  then have len: "int (length ?items) \<le> tm_max m + 1" using m by (simp add: ttl_ok_def)
  show max: "tm_max ?m = tm_max m"
    by (simp add: ttl_get_def Let_def evict_expired_def)
  define its where "its = tm_items ?m"
  have its: "its = (if tm_max m < int (length ?items) then tl ?items else ?items)"
    using ttl_get_items [of factory now key m] by (simp add: its_def Let_def)
  then have "int (length its) \<le> tm_max m" using len by auto
  moreover have sel: "its = ?items \<or> its = tl ?items" using its by auto
  ultimately show "ttl_ok now ?m" using all [of its] m unfolding its_def
    by (simp add: ttl_ok_def max)
  show "list_all (\<lambda>(k, seen, v). now - tm_ttl m < seen) (tm_items ?m) \<or> tm_ttl m \<le> 0"
  proof (cases "tm_ttl m \<le> 0")
    case False
    have "set its \<subseteq> set ?items" using sel by (cases ?items) auto
    moreover have "\<forall>e \<in> set ?items. now - tm_ttl m < fst (snd e)" using False unfolding rest by auto
    ultimately have "\<forall>e \<in> set its. now - tm_ttl m < fst (snd e)" by blast
    then show ?thesis by (simp add: its_def list_all_iff case_prod_beta')
  qed simp
qed

lemma ttl_put_keys:
  "map fst (tm_items (ttl_put key v m)) = map fst (tm_items m)"
  "map (\<lambda>(k, seen, v). seen) (tm_items (ttl_put key v m)) = map (\<lambda>(k, seen, v). seen) (tm_items m)"
  "tm_max (ttl_put key v m) = tm_max m" "tm_ttl (ttl_put key v m) = tm_ttl m"
  "length (tm_items (ttl_put key v m)) = length (tm_items m)"
  by (auto simp: ttl_put_def)

lemma list_all_seen: "list_all (\<lambda>(k, seen, v). P seen) xs = list_all P (map (\<lambda>(k, seen, v). seen) xs)"
  by (induction xs) auto

lemma ttl_put_ok: "ttl_ok now m \<Longrightarrow> ttl_ok now (ttl_put key v m)"
  unfolding ttl_ok_def dict_wf_def list_all_seen by (simp only: ttl_put_keys)

lemma ttl_discard_ok: "ttl_ok now m \<Longrightarrow> ttl_ok now (ttl_discard key m)"
  unfolding ttl_discard_def dict_pop_def by (rule ttl_ok_filter)

lemma ttl_clear_ok: "ttl_ok now m \<Longrightarrow> ttl_ok now (ttl_clear m)"
  by (simp add: ttl_clear_def ttl_ok_def dict_wf_def)

lemma dict_get_filter_Some:
  "dict_wf d \<Longrightarrow> dict_get d k = Some v \<Longrightarrow> P (k, v) \<Longrightarrow> dict_get (filter P d) k = Some v"
  by (auto simp: dict_get_def dict_wf_def distinct_map_filter intro!: map_of_is_SomeI dest: map_of_SomeD)

lemma ttl_get_value:
  assumes "ttl_ok t m" "dict_get (tm_items m) key = Some (seen, v)" "now - tm_ttl m < seen"
  shows "fst (ttl_get factory now key m) = v"
proof -
  have "dict_get (tm_items (evict_expired now m)) key = Some (seen, v)"
    using assms dict_get_filter_Some [of "tm_items m" key "(seen, v)" "\<lambda>e. now - tm_ttl m < fst (snd e)"]
    by (simp add: evict_filter [OF assms(1)] ttl_ok_def)
  then show ?thesis by (simp add: ttl_get_def Let_def)
qed

lemma ttl_get_entry:
  assumes "1 \<le> tm_max m"
  shows "dict_get (tm_items (snd (ttl_get factory now key m))) key
    = Some (now, fst (ttl_get factory now key m))"
proof -
  let ?rest = "dict_pop (tm_items (evict_expired now m)) key"
  have fresh: "dict_get r key = None" if "set r \<subseteq> set ?rest" for r :: "(pystr, rat \<times> 'a) odict"
    using that by (auto simp: dict_get_None_iff dict_pop_def)
  have last: "dict_get (r @ [(key, x)]) key = Some x" if "set r \<subseteq> set ?rest" for r x
    using fresh [OF that] by (simp add: dict_get_append) (simp add: dict_get_def)
  show ?thesis
  proof (cases ?rest)
    case Nil
    then show ?thesis using assms by (simp add: ttl_get_items Let_def dict_get_def)
  next
    case (Cons e r)
    then have "set r \<subseteq> set ?rest" "set (e # r) \<subseteq> set ?rest" by auto
    from last [OF this(1)] last [OF this(2)] Cons show ?thesis
      by (simp add: ttl_get_items Let_def)
  qed
qed

lemma ttl_put_entry:
  "dict_get (tm_items m) key = Some (seen, w) \<Longrightarrow> dict_get (tm_items (ttl_put key v m)) key = Some (seen, v)"
proof -
  have "map_of its key = Some (seen, w) \<Longrightarrow>
      map_of (map (\<lambda>(k, seen, w). (k, seen, if k = key then v else w)) its) key = Some (seen, v)" for its
    by (induction its) auto
  then show "dict_get (tm_items m) key = Some (seen, w) \<Longrightarrow> ?thesis"
    by (simp add: dict_get_def ttl_put_def)
qed

lemma ttl_get_settings [simp]:
  "tm_max (snd (ttl_get factory now key m)) = tm_max m" "tm_ttl (snd (ttl_get factory now key m)) = tm_ttl m"
  by (simp_all add: ttl_get_def Let_def evict_expired_def)

text \<open>A predicate of all values of a map, kept when the new value has it.\<close>

definition ttl_all :: "('v \<Rightarrow> bool) \<Rightarrow> 'v ttl_map \<Rightarrow> bool" where
  "ttl_all P m \<longleftrightarrow> list_all (\<lambda>(k, seen, v). P v) (tm_items m)"

lemma ttl_all_get:
  assumes "ttl_all P m" "P (factory ())"
  shows "P (fst (ttl_get factory now key m))" "ttl_all P (snd (ttl_get factory now key m))"
proof -
  let ?rest = "dict_pop (tm_items (evict_expired now m)) key"
  have sub: "set (tm_items (evict_expired now m)) \<subseteq> set (tm_items m)"
    by (auto simp: evict_expired_def dest: set_dropWhileD)
  show v: "P (fst (ttl_get factory now key m))"
  proof (cases "dict_get (tm_items (evict_expired now m)) key")
    case (Some sv)
    then have "(key, sv) \<in> set (tm_items m)" using sub by (auto simp: dict_get_def dest: map_of_SomeD)
    then show ?thesis using assms(1) Some by (auto simp: ttl_all_def list_all_iff ttl_get_def Let_def)
  qed (simp add: ttl_get_def Let_def assms(2))
  have rest: "\<forall>(k, seen, v) \<in> set ?rest. P v" using sub assms(1) by (auto simp: ttl_all_def list_all_iff dict_pop_def)
  have items: "\<forall>(k, seen, v) \<in> set (?rest @ [(key, now, fst (ttl_get factory now key m))]). P v"
    using rest v by auto
  then have "\<forall>(k, seen, v) \<in> set (tl (?rest @ [(key, now, fst (ttl_get factory now key m))])). P v"
    by (cases ?rest) auto
  with items show "ttl_all P (snd (ttl_get factory now key m))"
    unfolding ttl_all_def ttl_get_items list_all_iff by (simp only: Let_def split: if_splits) simp
qed

lemma ttl_all_put: "ttl_all P m \<Longrightarrow> P v \<Longrightarrow> ttl_all P (ttl_put key v m)"
  by (auto simp: ttl_all_def ttl_put_def list_all_iff)

lemma ttl_all_discard: "ttl_all P m \<Longrightarrow> ttl_all P (ttl_discard key m)"
  by (auto simp: ttl_all_def ttl_discard_def dict_pop_def list_all_iff)

lemma ttl_all_clear: "ttl_all P (ttl_clear m)"
  by (simp add: ttl_all_def ttl_clear_def)

lemma ttl_all_mono: "ttl_all P m \<Longrightarrow> (\<And>v. P v \<Longrightarrow> Q v) \<Longrightarrow> ttl_all Q m"
  by (auto simp: ttl_all_def list_all_iff)

section \<open>What the limits promise\<close>

text \<open>
  \<open>usable_bucket clk b\<close>: a bucket in order, last refreshed before the clock reading \<open>clk\<close>.
\<close>

definition usable_bucket :: "rat \<Rightarrow> bucket \<Rightarrow> bool" where
  "usable_bucket clk b \<longleftrightarrow> bucket_ok b \<and> 0 < tb_rate b \<and> 1 \<le> tb_capacity b \<and> tb_last b \<le> clk"

lemma usable_new: "0 < rate \<Longrightarrow> 1 \<le> capacity \<Longrightarrow> usable_bucket clk (new_bucket rate (Some capacity) clk)"
  using epsilon_pos by (simp add: usable_bucket_def bucket_ok_def new_bucket_def)

lemma usable_try:
  assumes "usable_bucket clk b" "clk \<le> mono1" "try_acquire mono1 1 b = (taken, b1)"
  shows "usable_bucket mono1 b1"
proof -
  have "tb_rate b1 = tb_rate b \<and> tb_capacity b1 = tb_capacity b \<and> tb_last b1 = mono1"
    using assms(3) by (auto simp: try_acquire_def Let_def split: if_splits)
  moreover have "bucket_ok b1"
    using assms try_acquire_ok [of b mono1 1 taken b1] by (simp add: usable_bucket_def)
  ultimately show ?thesis using assms(1) by (simp add: usable_bucket_def)
qed

lemma usable_later: "usable_bucket clk b \<Longrightarrow> clk \<le> mono1 \<Longrightarrow> usable_bucket mono1 b"
  by (simp add: usable_bucket_def)

lemma retry_after_bucket: "snd (retry_after clk n b) = refresh_tokens clk b"
  by (simp add: retry_after_def Let_def)

lemma retry_after_int: "\<exists>k. fst (retry_after clk n b) = of_int k"
  by (cases "of_int n - EPSILON \<le> tb_tokens (refresh_tokens clk b)")
    (auto simp: retry_after_def Let_def intro: exI [of _ 0])

lemma usable_refresh: "usable_bucket clk b \<Longrightarrow> clk \<le> mono1 \<Longrightarrow> usable_bucket mono1 (refresh_tokens mono1 b)"
  using refresh_ok [of b mono1] by (simp add: usable_bucket_def)

lemma retry_after_enough:
  assumes "usable_bucket clk b" "clk \<le> mono2" "fst (retry_after mono2 1 b) \<le> extra" "0 \<le> extra"
  shows "fst (try_acquire (mono2 + extra) 1 (refresh_tokens mono2 b))"
proof -
  let ?b = "refresh_tokens mono2 b"
  have ok: "usable_bucket mono2 ?b" by (rule usable_refresh [OF assms(1,2)])
  have rate: "0 < tb_rate b" "1 \<le> tb_capacity b" using assms(1) by (simp_all add: usable_bucket_def)
  have "1 - EPSILON \<le> tb_tokens ?b + extra * tb_rate b"
  proof (cases "1 - EPSILON \<le> tb_tokens ?b")
    case True
    moreover have "0 \<le> extra * tb_rate b" using assms(4) rate(1) by simp
    ultimately show ?thesis by linarith
  next
    case False
    then have "fst (retry_after mono2 1 b) = of_int \<lceil>(1 - tb_tokens ?b) / tb_rate b\<rceil>"
      by (simp add: retry_after_def Let_def)
    then have "(1 - tb_tokens ?b) / tb_rate b \<le> extra"
      using assms(3) le_of_int_ceiling order_trans by metis
    then have "1 - tb_tokens ?b \<le> extra * tb_rate b" using rate(1) by (simp add: divide_le_eq)
    then show ?thesis using epsilon_pos by linarith
  qed
  moreover have "(1 :: rat) \<le> of_int (tb_capacity b)" using rate(2) by simp
  ultimately have "1 - EPSILON \<le> tb_tokens (refresh_tokens (mono2 + extra) ?b)"
    using epsilon_pos by (simp add: refresh_tokens_def min_def)
  then show ?thesis by (simp add: try_acquire_def Let_def)
qed

text \<open>A bucket's map in order: the map's order and bounds, and every bucket usable.\<close>

definition buckets_ok :: "rat \<Rightarrow> rat \<Rightarrow> bucket ttl_map \<Rightarrow> bool" where
  "buckets_ok now clk m \<longleftrightarrow> ttl_ok now m \<and> 1 \<le> tm_max m \<and> ttl_all (usable_bucket clk) m"

lemma bucket_request_ok:
  assumes m: "buckets_ok t clk m" "t \<le> now" "clk \<le> mono0" "mono0 \<le> mono1" "mono1 \<le> mono2"
    and rate: "0 < rate" "1 \<le> capacity"
  shows "buckets_ok now mono2 (snd (bucket_request rate capacity mono0 mono1 mono2 now key m))"
proof -
  obtain b m1 where g: "ttl_get (\<lambda>_. new_bucket rate (Some capacity) mono0) now key m = (b, m1)" by fastforce
  have m1: "ttl_ok now m1" "tm_max m1 = tm_max m"
    using ttl_get_ok(1) [of t m now] m(1,2) g ttl_get_settings(1) [of "\<lambda>_. new_bucket rate (Some capacity) mono0" now key m]
    by (auto simp: buckets_ok_def) (metis snd_conv)
  have all: "ttl_all (usable_bucket mono0) m"
    using m(1,3) usable_later by (auto simp: buckets_ok_def intro: ttl_all_mono)
  note get = ttl_all_get [OF all, of "\<lambda>_. new_bucket rate (Some capacity) mono0" now key]
  have b: "usable_bucket mono0 b" "ttl_all (usable_bucket mono0) m1"
    using get usable_new [OF rate] g by simp_all
  have later: "ttl_all (usable_bucket mono2) m1"
    using b(2) usable_later m(4,5) by (meson order_trans ttl_all_mono)
  obtain taken b1 where t: "try_acquire mono1 1 b = (taken, b1)" by fastforce
  have b1: "usable_bucket mono1 b1" by (rule usable_try [OF b(1) m(4) t])
  have upd: "buckets_ok now mono2 (ttl_put key b' m1)" if "usable_bucket mono2 b'" for b'
    using that m(1) m1 later by (simp add: buckets_ok_def ttl_put_ok ttl_all_put ttl_put_keys)
  obtain wait b2 where r: "retry_after mono2 1 b1 = (wait, b2)" by fastforce
  then have "b2 = refresh_tokens mono2 b1" using retry_after_bucket [of mono2 1 b1] by simp
  then show ?thesis
    using upd [OF usable_later [OF b1 m(5)]] upd [OF usable_refresh [OF b1 m(5)]]
    by (simp add: bucket_request_def g t r)
qed

definition limits_ok :: "rat \<Rightarrow> rat \<Rightarrow> compat_limits \<Rightarrow> bool" where
  "limits_ok now clk s \<longleftrightarrow>
     buckets_ok now clk (cl_public s) \<and> buckets_ok now clk (cl_browse s) \<and> buckets_ok now clk (cl_mutation s)
     \<and> ttl_ok now (cl_auth s) \<and> 1 \<le> tm_max (cl_auth s)"

datatype limit_op =
    PublicRequest pystr | PrincipalRequest pystr bool | AuthCheck pystr | AuthFailure pystr
  | ClearPrincipal pystr | ResetLimits

text \<open>One call of the limits, with the map clock and the limiters' clock standing still in it.\<close>

fun limit_step :: "rat \<Rightarrow> rat \<Rightarrow> limit_op \<Rightarrow> compat_limits \<Rightarrow> int option \<times> compat_limits" where
  "limit_step now clk (PublicRequest ip) s = public_retry_after clk clk clk now ip s"
| "limit_step now clk (PrincipalRequest who mutation) s = principal_retry_after clk clk clk now who mutation s"
| "limit_step now clk (AuthCheck ip) s = auth_failure_retry_after now now ip s"
| "limit_step now clk (AuthFailure ip) s = record_auth_failure now now ip s"
| "limit_step now clk (ClearPrincipal who) s = (None, clear_principal who s)"
| "limit_step now clk ResetLimits s = (None, reset_limits s)"

fun run_limits :: "(rat \<times> rat \<times> limit_op) list \<Rightarrow> compat_limits \<Rightarrow> compat_limits" where
  "run_limits [] s = s"
| "run_limits ((now, clk, op) # rest) s = run_limits rest (snd (limit_step now clk op s))"

fun clocks_ok :: "rat \<Rightarrow> rat \<Rightarrow> (rat \<times> rat \<times> limit_op) list \<Rightarrow> bool" where
  "clocks_ok t c [] \<longleftrightarrow> True"
| "clocks_ok t c ((now, clk, op) # rest) \<longleftrightarrow> t \<le> now \<and> c \<le> clk \<and> clocks_ok now clk rest"

lemma buckets_ok_later: "buckets_ok t c m \<Longrightarrow> t \<le> now \<Longrightarrow> c \<le> clk \<Longrightarrow> buckets_ok now clk m"
  using ttl_ok_later ttl_all_mono [of "usable_bucket c" m "usable_bucket clk"] usable_later
  by (auto simp: buckets_ok_def)

lemma limits_ok_later: "limits_ok t c s \<Longrightarrow> t \<le> now \<Longrightarrow> c \<le> clk \<Longrightarrow> limits_ok now clk s"
  by (auto simp: limits_ok_def intro: buckets_ok_later ttl_ok_later)

lemma buckets_ok_discard: "buckets_ok now clk m \<Longrightarrow> buckets_ok now clk (ttl_discard key m)"
  by (simp add: buckets_ok_def ttl_discard_ok ttl_all_discard) (simp add: ttl_discard_def)

lemma buckets_ok_clear: "buckets_ok now clk m \<Longrightarrow> buckets_ok now clk (ttl_clear m)"
  by (simp add: buckets_ok_def ttl_clear_ok ttl_all_clear) (simp add: ttl_clear_def)

lemma bucket_request_same:
  assumes "buckets_ok now clk m" "0 < rate" "1 \<le> capacity"
  shows "buckets_ok now clk (snd (bucket_request rate capacity clk clk clk now key m))"
  using bucket_request_ok [OF assms(1) order_refl order_refl order_refl order_refl assms(2,3)] .

lemma limit_step_ok:
  assumes "limits_ok now clk s"
  shows "limits_ok now clk (snd (limit_step now clk op s))"
proof (cases op)
  case (PublicRequest ip)
  with assms bucket_request_same [of now clk "cl_public s" 5 20 ip] show ?thesis
    by (simp add: limits_ok_def public_retry_after_def Let_def case_prod_beta')
next
  case (PrincipalRequest who mutation)
  with assms bucket_request_same [of now clk "cl_mutation s" 5 20 who]
    bucket_request_same [of now clk "cl_browse s" 30 120 who] show ?thesis
    by (simp add: limits_ok_def principal_retry_after_def Let_def case_prod_beta')
next
  case (AuthCheck ip)
  with assms ttl_get_ok(1) [of now "cl_auth s" now] show ?thesis
    by (simp add: limits_ok_def auth_failure_retry_after_def Let_def case_prod_beta')
next
  case (AuthFailure ip)
  with assms ttl_get_ok(1) [of now "cl_auth s" now] show ?thesis
    by (simp add: limits_ok_def record_auth_failure_def Let_def case_prod_beta' ttl_put_ok ttl_put_keys)
next
  case (ClearPrincipal who)
  with assms show ?thesis by (simp add: limits_ok_def clear_principal_def buckets_ok_discard)
next
  case ResetLimits
  with assms show ?thesis
    by (simp add: limits_ok_def reset_limits_def buckets_ok_clear ttl_clear_ok) (simp add: ttl_clear_def)
qed

lemma new_limits_ok: "1 \<le> principals \<Longrightarrow> 1 \<le> ips \<Longrightarrow> limits_ok now clk (new_limits principals ips ttl)"
  by (simp add: limits_ok_def buckets_ok_def new_limits_def new_ttl_map_def ttl_ok_def ttl_all_def dict_wf_def)

definition limit_maxima :: "compat_limits \<Rightarrow> int \<times> int \<times> int \<times> int" where
  "limit_maxima s =
     (tm_max (cl_public s), tm_max (cl_browse s), tm_max (cl_mutation s), tm_max (cl_auth s))"

lemma bucket_request_max:
  "tm_max (snd (bucket_request rate capacity mono0 mono1 mono2 now key m)) = tm_max m"
  by (simp add: bucket_request_def Let_def case_prod_beta' ttl_put_keys)

lemma limit_step_maxima: "limit_maxima (snd (limit_step now clk op s)) = limit_maxima s"
  by (cases op) (simp_all add: limit_maxima_def public_retry_after_def principal_retry_after_def
      auth_failure_retry_after_def record_auth_failure_def clear_principal_def reset_limits_def
      Let_def case_prod_beta' bucket_request_max ttl_put_keys ttl_clear_def ttl_discard_def)

lemma run_limits_ok:
  "limits_ok t c s \<Longrightarrow> clocks_ok t c ops \<Longrightarrow>
     \<exists>now clk. limits_ok now clk (run_limits ops s) \<and> limit_maxima (run_limits ops s) = limit_maxima s"
proof (induction ops s arbitrary: t c rule: run_limits.induct)
  case (2 now clk op rest s)
  then have "limits_ok now clk (snd (limit_step now clk op s))"
    by (auto intro: limit_step_ok limits_ok_later)
  from 2(1) [OF this] 2(3) limit_step_maxima show ?case by simp
qed auto

text \<open>
  The state of the limits stays in order and bounded under any sequence of requests, failed
  logins and resets while the clocks do not run backwards: each of the four maps has distinct
  keys in the order of their last access, at most as many entries as it was created for, and
  every bucket in them keeps its level between minus epsilon and its capacity. So an attacker
  who sends many addresses cannot make the state grow.
\<close>
theorem limits_stay_bounded:
  assumes "1 \<le> principals" "1 \<le> ips" "clocks_ok t c ops"
  shows "let s = run_limits ops (new_limits principals ips ttl) in
      (\<exists>now clk. limits_ok now clk s)
      \<and> int (length (tm_items (cl_public s))) \<le> ips \<and> int (length (tm_items (cl_auth s))) \<le> ips
      \<and> int (length (tm_items (cl_browse s))) \<le> principals
      \<and> int (length (tm_items (cl_mutation s))) \<le> principals"
proof -
  let ?start = "new_limits principals ips ttl"
  let ?s = "run_limits ops ?start"
  obtain now clk where ok: "limits_ok now clk ?s" and max: "limit_maxima ?s = limit_maxima ?start"
    using run_limits_ok [OF new_limits_ok [OF assms(1,2)] assms(3)] by blast
  define s where "s = ?s"
  have "limit_maxima ?start = (ips, principals, principals, ips)"
    by (simp add: limit_maxima_def new_limits_def new_ttl_map_def)
  then have max: "limit_maxima s = (ips, principals, principals, ips)" using max by (simp add: s_def)
  have ok: "limits_ok now clk s" using ok by (simp add: s_def)
  have "int (length (tm_items (cl_public s))) \<le> ips" "int (length (tm_items (cl_auth s))) \<le> ips"
    "int (length (tm_items (cl_browse s))) \<le> principals"
    "int (length (tm_items (cl_mutation s))) \<le> principals"
    using ok max by (simp_all add: limit_maxima_def limits_ok_def buckets_ok_def ttl_ok_def)
  with ok show ?thesis unfolding s_def Let_def by blast
qed

theorem limits_stay_bounded_witness:
  "let s = run_limits [(0, 0, PublicRequest (lit ''a'')), (1, 1, PublicRequest (lit ''b'')),
       (2, 2, AuthFailure (lit ''a''))] (new_limits 1 1 900)
   in int (length (tm_items (cl_public s))) \<le> 1 \<and> int (length (tm_items (cl_auth s))) \<le> 1"
  using limits_stay_bounded [of 1 1 0 0 "[(0, 0, PublicRequest (lit ''a'')),
      (1, 1, PublicRequest (lit ''b'')), (2, 2, AuthFailure (lit ''a''))]" 900]
  by (simp only: Let_def clocks_ok.simps) simp



end
