(* ===== verification/Auth_Lockout.thy ===== *)
theory Auth_Lockout
  imports Compat_Ratelimit
begin

text \<open>
  What a client sees of the lockout of failed logins (\<open>record_auth_failure\<close> and
  \<open>auth_failure_retry_after\<close> of \<open>api/compat/common/ratelimit.py\<close>), over whole sequences of calls:
  the answers of the map with its expiry and its pruned deques are those of a plain history of
  the address.
\<close>

section \<open>The history of an address\<close>

text \<open>
  The last call for the address, the starts of its lockouts, the latest first, and the failures
  since the last lockout. A quarter of an hour (\<open>ttl\<close>) without a call forgets all of it.
\<close>

record auth_history =
  ah_seen :: "rat option"
  ah_lockouts :: "rat list"
  ah_failures :: "rat list"

definition no_history :: auth_history where
  "no_history = \<lparr>ah_seen = None, ah_lockouts = [], ah_failures = []\<rparr>"

definition forgotten :: "rat \<Rightarrow> rat \<Rightarrow> auth_history \<Rightarrow> bool" where
  "forgotten ttl t h \<longleftrightarrow> (case ah_seen h of None \<Rightarrow> True | Some seen \<Rightarrow> seen \<le> t - ttl)"

definition recall :: "rat \<Rightarrow> rat \<Rightarrow> auth_history \<Rightarrow> auth_history" where
  "recall ttl t h = (if forgotten ttl t h then no_history else h)\<lparr>ah_seen := Some t\<rparr>"

text \<open>The failure at \<open>t\<close> is the fifth in a minute since the last lockout.\<close>

definition fifth_failure :: "rat \<Rightarrow> auth_history \<Rightarrow> bool" where
  "fifth_failure t h \<longleftrightarrow> 5 \<le> length (filter (\<lambda>f. t - 60 < f) (ah_failures h @ [t]))"

text \<open>Ten seconds, doubled for each earlier lockout, at most five minutes.\<close>

definition cooldown_after :: "nat \<Rightarrow> rat" where
  "cooldown_after earlier = min (10 * 2 ^ earlier) 300"

definition locked_until :: "auth_history \<Rightarrow> rat" where
  "locked_until h =
     (case ah_lockouts h of [] \<Rightarrow> 0 | start # earlier \<Rightarrow> start + cooldown_after (length earlier))"

definition failed_again :: "rat \<Rightarrow> auth_history \<Rightarrow> auth_history" where
  "failed_again t k =
     (if fifth_failure t k then k\<lparr>ah_lockouts := t # ah_lockouts k, ah_failures := []\<rparr>
      else k\<lparr>ah_failures := ah_failures k @ [t]\<rparr>)"

definition auth_event :: "rat \<Rightarrow> pystr \<Rightarrow> rat \<times> rat \<times> limit_op \<Rightarrow> auth_history \<Rightarrow> auth_history" where
  "auth_event ttl ip e h =
     (case e of (t, _, op) \<Rightarrow>
        if op = ResetLimits then no_history
        else if op = AuthCheck ip then recall ttl t h
        else if op = AuthFailure ip then failed_again t (recall ttl t h)
        else h)"

definition history_of :: "rat \<Rightarrow> pystr \<Rightarrow> (rat \<times> rat \<times> limit_op) list \<Rightarrow> auth_history" where
  "history_of ttl ip calls = fold (auth_event ttl ip) calls no_history"

fun op_addresses :: "limit_op \<Rightarrow> pystr set" where
  "op_addresses (AuthCheck ip) = {ip}"
| "op_addresses (AuthFailure ip) = {ip}"
| "op_addresses _ = {}"

definition auth_addresses :: "(rat \<times> rat \<times> limit_op) list \<Rightarrow> pystr set" where
  "auth_addresses calls = (\<Union>(_, _, op) \<in> set calls. op_addresses op)"

lemma finite_addresses: "finite (auth_addresses calls)"
proof -
  have "finite (op_addresses op)" for op by (cases op) auto
  then show ?thesis unfolding auth_addresses_def by (intro finite_UN_I) auto
qed

section \<open>The map while there is room for every address\<close>

lemma dict_get_filtered:
  "dict_wf d \<Longrightarrow> dict_get (filter P d) k =
     (case dict_get d k of None \<Rightarrow> None | Some v \<Rightarrow> if P (k, v) then Some v else None)"
proof (induction d)
  case (Cons e d)
  then have "fst e \<notin> fst ` set d" by (simp add: dict_wf_def)
  then have "map_of (filter P d) (fst e) = None" by (auto simp: map_of_eq_None_iff)
  with Cons show ?case by (cases e) (auto simp: dict_get_def dict_wf_def split: option.splits)
qed (simp add: dict_get_def)

definition room_for :: "pystr set \<Rightarrow> 'v ttl_map \<Rightarrow> bool" where
  "room_for A m \<longleftrightarrow> finite A \<and> int (card A) \<le> tm_max m \<and> fst ` set (tm_items m) \<subseteq> A"

lemma roomy_get:
  assumes "ttl_ok t m" "t \<le> now" "room_for A m" "key \<in> A"
  shows "tm_items (snd (ttl_get factory now key m)) =
      filter (\<lambda>e. fst e \<noteq> key) (filter (\<lambda>e. now - tm_ttl m < fst (snd e)) (tm_items m))
        @ [(key, now, fst (ttl_get factory now key m))]"
proof -
  have m: "ttl_ok now m" using assms(1,2) by (rule ttl_ok_later)
  let ?rest = "filter (\<lambda>e. fst e \<noteq> key) (filter (\<lambda>e. now - tm_ttl m < fst (snd e)) (tm_items m))"
  let ?items = "?rest @ [(key, now, fst (ttl_get factory now key m))]"
  have "distinct (map fst ?items)"
    using m by (auto simp: ttl_ok_def dict_wf_def distinct_map_filter)
  then have "length ?items = card (fst ` set ?items)"
    using distinct_card [of "map fst ?items"] by (simp only: length_map set_map)
  also have "\<dots> \<le> card A" using assms(3,4) by (intro card_mono) (auto simp: room_for_def)
  finally have "int (length ?items) \<le> tm_max m" using assms(3) by (simp add: room_for_def)
  then show ?thesis
    using ttl_get_items [of factory now key m]
    by (simp add: evict_filter [OF m] dict_pop_def del: filter_filter)
qed

lemma roomy_get_room:
  assumes "ttl_ok t m" "t \<le> now" "room_for A m" "key \<in> A"
  shows "room_for A (snd (ttl_get factory now key m))"
  using assms(3,4) unfolding room_for_def ttl_get_settings roomy_get [OF assms] by auto

lemma roomy_get_other:
  assumes "ttl_ok t m" "t \<le> now" "room_for A m" "key \<in> A" "k \<noteq> key"
  shows "dict_get (tm_items (snd (ttl_get factory now key m))) k =
     (case dict_get (tm_items m) k of None \<Rightarrow> None
      | Some (seen, v) \<Rightarrow> if now - tm_ttl m < seen then Some (seen, v) else None)"
proof -
  have wf: "dict_wf (tm_items m)" using assms(1) by (simp add: ttl_ok_def)
  have "dict_get [(key, x)] k = None" for x :: "rat \<times> 'a" using assms(5) by (simp add: dict_get_def)
  then show ?thesis
    using assms(5)
    by (simp add: roomy_get [OF assms(1-4)] dict_get_append dict_get_filtered [OF wf] split: option.splits)
qed

lemma get_value:
  assumes "ttl_ok t m" "t \<le> now"
  shows "fst (ttl_get factory now key m) =
     (case dict_get (tm_items m) key of None \<Rightarrow> factory ()
      | Some (seen, v) \<Rightarrow> if now - tm_ttl m < seen then v else factory ())"
proof -
  have "dict_wf (tm_items m)" using assms(1) by (simp add: ttl_ok_def)
  then show ?thesis
    by (simp add: ttl_get_def Let_def evict_filter [OF assms(1)] dict_get_filtered split: option.splits)
qed

lemma get_own_entry:
  assumes "room_for A m" "key \<in> A"
  shows "dict_get (tm_items (snd (ttl_get factory now key m))) key = Some (now, fst (ttl_get factory now key m))"
proof (rule ttl_get_entry)
  have "0 < card A" using assms by (auto simp: room_for_def card_gt_0_iff)
  then show "1 \<le> tm_max m" using assms(1) by (simp add: room_for_def)
qed

lemma put_other: "k \<noteq> key \<Longrightarrow> dict_get (tm_items (ttl_put key v m)) k = dict_get (tm_items m) k"
proof -
  assume "k \<noteq> key"
  then have "map_of (map (\<lambda>(j, seen, w). (j, seen, if j = key then v else w)) its) k = map_of its k" for its
    by (induction its) auto
  then show ?thesis by (simp add: dict_get_def ttl_put_def)
qed

lemma put_room: "room_for A (ttl_put key v m) \<longleftrightarrow> room_for A m"
proof -
  have "fst ` set (tm_items (ttl_put key v m)) = fst ` set (tm_items m)"
    by (metis ttl_put_keys(1) set_map)
  then show ?thesis by (simp add: room_for_def ttl_put_keys)
qed

section \<open>The entry stands for the history\<close>

definition stands_for :: "rat \<Rightarrow> auth_history \<Rightarrow> auth_failures \<Rightarrow> bool" where
  "stands_for now h f \<longleftrightarrow>
     af_strikes f = length (ah_lockouts h) \<and> af_blocked_until f = locked_until h
     \<and> (\<exists>c \<le> now - 60. af_events f = filter (\<lambda>e. c < e) (ah_failures h))"

definition history_ok :: "rat \<Rightarrow> auth_history \<Rightarrow> bool" where
  "history_ok now h \<longleftrightarrow> sorted (ah_failures h) \<and> (\<forall>f \<in> set (ah_failures h). f \<le> now)"

definition auth_entry_ok :: "rat \<Rightarrow> rat \<Rightarrow> auth_history \<Rightarrow> (rat \<times> auth_failures) option \<Rightarrow> bool" where
  "auth_entry_ok ttl now h entry \<longleftrightarrow>
     (case entry of None \<Rightarrow> forgotten ttl now h
      | Some (seen, f) \<Rightarrow> ah_seen h = Some seen \<and> stands_for now h f)"

definition auth_inv :: "pystr set \<Rightarrow> rat \<Rightarrow> pystr \<Rightarrow> rat \<Rightarrow> auth_failures ttl_map \<Rightarrow> auth_history \<Rightarrow> bool" where
  "auth_inv A ttl ip now m h \<longleftrightarrow>
     ttl_ok now m \<and> room_for A m \<and> tm_ttl m = ttl \<and> history_ok now h
     \<and> auth_entry_ok ttl now h (dict_get (tm_items m) ip)"

lemma forgotten_later: "forgotten ttl t h \<Longrightarrow> t \<le> now \<Longrightarrow> forgotten ttl now h"
  by (auto simp: forgotten_def split: option.splits)

lemma stands_for_later: "stands_for t h f \<Longrightarrow> t \<le> now \<Longrightarrow> stands_for now h f"
  unfolding stands_for_def by (meson diff_right_mono order_trans)

lemma auth_inv_later: "auth_inv A ttl ip t m h \<Longrightarrow> t \<le> now \<Longrightarrow> auth_inv A ttl ip now m h"
  by (auto simp: auth_inv_def history_ok_def auth_entry_ok_def
      intro: ttl_ok_later forgotten_later stands_for_later split: option.splits)

lemma no_history_ok: "history_ok now no_history" "stands_for now (no_history\<lparr>ah_seen := x\<rparr>) no_failures"
  by (auto simp: history_ok_def stands_for_def no_history_def no_failures_def locked_until_def)

lemma recall_ok: "history_ok now h \<Longrightarrow> history_ok now (recall ttl t h)"
  by (simp add: recall_def history_ok_def no_history_def)

lemma recall_simps [simp]: "ah_seen (recall ttl t h) = Some t"
  by (simp add: recall_def)

lemma recalled_entry:
  assumes "auth_inv A ttl ip now m h"
  shows "stands_for now (recall ttl now h) (fst (ttl_get (\<lambda>_. no_failures) now ip m))"
proof -
  have same: "stands_for now (h\<lparr>ah_seen := x\<rparr>) f \<longleftrightarrow> stands_for now h f" for x f
    by (simp add: stands_for_def locked_until_def)
  have get: "ttl_ok now m" "tm_ttl m = ttl" "auth_entry_ok ttl now h (dict_get (tm_items m) ip)"
    using assms by (simp_all add: auth_inv_def)
  show ?thesis
    using get(2,3) no_history_ok(2)
    by (auto simp: get_value [OF get(1) order_refl] auth_entry_ok_def recall_def forgotten_def same
        split: option.splits)
qed

lemma recent_events:
  assumes "history_ok now h" "c \<le> now - 60"
  shows "dropWhile (\<lambda>e. e \<le> now - 60) (filter (\<lambda>e. c < e) (ah_failures h)) @ [now]
    = filter (\<lambda>e. now - 60 < e) (ah_failures h @ [now])"
proof -
  have "sorted (map (\<lambda>e. e) (filter (\<lambda>e. c < e) (ah_failures h)))"
    using assms(1) sorted_filter [of "\<lambda>e. e" "ah_failures h"] by (simp add: history_ok_def)
  then have "dropWhile (\<lambda>e. e \<le> now - 60) (filter (\<lambda>e. c < e) (ah_failures h))
      = filter (\<lambda>e. now - 60 < e) (filter (\<lambda>e. c < e) (ah_failures h))"
    by (rule sorted_dropWhile_filter)
  also have "\<dots> = filter (\<lambda>e. now - 60 < e) (ah_failures h)"
    unfolding filter_filter using assms(2) by (intro filter_cong) auto
  finally show ?thesis by simp
qed

lemma failed_again_ok: "history_ok now k \<Longrightarrow> history_ok now (failed_again now k)"
  by (auto simp: failed_again_def history_ok_def sorted_append)

text \<open>One failure: the answer and the entry it leaves.\<close>

lemma noted_failure:
  assumes "stands_for now k f" "history_ok now k"
  shows "fst (note_failure now f)
      = (if fifth_failure now k then Some (py_trunc (cooldown_after (length (ah_lockouts k)))) else None)"
    and "stands_for now (failed_again now k) (snd (note_failure now f))"
proof -
  obtain c where c: "c \<le> now - 60" "af_events f = filter (\<lambda>e. c < e) (ah_failures k)"
    using assms(1) by (auto simp: stands_for_def)
  have ev: "dropWhile (\<lambda>e. e \<le> now - AUTH_FAILURE_WINDOW_SECONDS) (af_events f) @ [now]
      = filter (\<lambda>e. now - 60 < e) (ah_failures k @ [now])"
    unfolding c(2) AUTH_FAILURE_WINDOW_SECONDS_def by (rule recent_events [OF assms(2) c(1)])
  have fifth: "fifth_failure now k \<longleftrightarrow> \<not> length (filter (\<lambda>e. now - 60 < e) (ah_failures k @ [now])) < AUTH_FAILURE_LIMIT"
    by (auto simp: fifth_failure_def AUTH_FAILURE_LIMIT_def)
  note known = assms(1) [unfolded stands_for_def]
  show "fst (note_failure now f)
      = (if fifth_failure now k then Some (py_trunc (cooldown_after (length (ah_lockouts k)))) else None)"
    unfolding note_failure_def Let_def ev fifth using known
    by (simp add: cooldown_after_def AUTH_INITIAL_COOLDOWN_SECONDS_def AUTH_MAX_COOLDOWN_SECONDS_def)
  show "stands_for now (failed_again now k) (snd (note_failure now f))"
  proof (cases "fifth_failure now k")
    case True
    then show ?thesis
      using known unfolding note_failure_def Let_def ev failed_again_def
      by (auto simp: fifth stands_for_def locked_until_def cooldown_after_def AUTH_INITIAL_COOLDOWN_SECONDS_def
          AUTH_MAX_COOLDOWN_SECONDS_def intro: exI [of _ "now - 60"])
  next
    case False
    then have "\<exists>d \<le> now - 60. filter (\<lambda>e. now - 60 < e) (ah_failures k @ [now]) = filter (\<lambda>e. d < e) (ah_failures k @ [now])"
      by blast
    with False show ?thesis
      using known unfolding note_failure_def Let_def ev failed_again_def
      by (simp only: fifth stands_for_def locked_until_def) (simp add: split_def)
  qed
qed

text \<open>A call for another address leaves the entry or drops an expired one.\<close>

lemma other_get:
  assumes "auth_inv A ttl ip now m h" "key \<in> A" "ip \<noteq> key"
  shows "auth_inv A ttl ip now (snd (ttl_get factory now key m)) h"
proof -
  have m: "ttl_ok now m" "room_for A m" "tm_ttl m = ttl" "auth_entry_ok ttl now h (dict_get (tm_items m) ip)"
    using assms(1) by (simp_all add: auth_inv_def)
  have "auth_entry_ok ttl now h (dict_get (tm_items (snd (ttl_get factory now key m))) ip)"
    unfolding roomy_get_other [OF m(1) order_refl m(2) assms(2,3)]
    using m(3,4) by (auto simp: auth_entry_ok_def forgotten_def split: option.splits)
  with assms m ttl_get_ok(1) [OF m(1) order_refl] roomy_get_room [OF m(1) order_refl m(2) assms(2)] show ?thesis
    by (simp add: auth_inv_def)
qed

lemma own_get:
  assumes "auth_inv A ttl ip now m h" "ip \<in> A"
  shows "auth_inv A ttl ip now (snd (ttl_get (\<lambda>_. no_failures) now ip m)) (recall ttl now h)"
proof -
  have m: "ttl_ok now m" "room_for A m" using assms(1) by (simp_all add: auth_inv_def)
  have "auth_entry_ok ttl now (recall ttl now h)
      (dict_get (tm_items (snd (ttl_get (\<lambda>_. no_failures) now ip m))) ip)"
    unfolding get_own_entry [OF m(2) assms(2)] using recalled_entry [OF assms(1)] by (simp add: auth_entry_ok_def)
  with assms recall_ok ttl_get_ok(1) [OF m(1) order_refl] roomy_get_room [OF m(1) order_refl m(2) assms(2)]
  show ?thesis by (simp add: auth_inv_def)
qed

lemma own_put:
  assumes "auth_inv A ttl ip now m k" "dict_get (tm_items m) ip = Some (now, f)"
    and "stands_for now k' f'" "history_ok now k'" "ah_seen k' = Some now"
  shows "auth_inv A ttl ip now (ttl_put ip f' m) k'"
  using assms ttl_put_ok [of now m ip f'] ttl_put_entry [OF assms(2), of f']
  by (simp add: auth_inv_def put_room ttl_put_keys auth_entry_ok_def)

lemma other_put: "auth_inv A ttl ip now m h \<Longrightarrow> ip \<noteq> key \<Longrightarrow> auth_inv A ttl ip now (ttl_put key f m) h"
  by (simp add: auth_inv_def put_room put_other ttl_put_ok ttl_put_keys)

lemma failure_step:
  assumes "auth_inv A ttl ip now (cl_auth s) h" "key \<in> A"
  shows "auth_inv A ttl ip now (cl_auth (snd (record_auth_failure now now key s)))
     (if ip = key then failed_again now (recall ttl now h) else h)"
proof (cases "ip = key")
  case True
  let ?m = "snd (ttl_get (\<lambda>_. no_failures) now ip (cl_auth s))"
  let ?f = "fst (ttl_get (\<lambda>_. no_failures) now ip (cl_auth s))" and ?k = "recall ttl now h"
  have inv: "auth_inv A ttl ip now ?m ?k" using assms True by (intro own_get) simp_all
  have ok: "history_ok now ?k" using assms(1) by (simp add: auth_inv_def recall_ok)
  have room: "room_for A (cl_auth s)" using assms(1) by (simp add: auth_inv_def)
  have "ah_seen (failed_again now ?k) = Some now" by (simp add: failed_again_def)
  then have "auth_inv A ttl ip now (ttl_put ip (snd (note_failure now ?f)) ?m) (failed_again now ?k)"
    using assms True ok
    by (intro own_put [OF inv get_own_entry [OF room]] noted_failure(2) failed_again_ok recalled_entry) simp_all
  with True show ?thesis by (simp add: record_auth_failure_def Let_def case_prod_beta')
next
  case False
  then show ?thesis
    using other_put [OF other_get [OF assms False] False]
    by (simp add: record_auth_failure_def Let_def case_prod_beta')
qed

lemma check_step:
  assumes "auth_inv A ttl ip now (cl_auth s) h" "key \<in> A"
  shows "auth_inv A ttl ip now (cl_auth (snd (auth_failure_retry_after now now key s)))
     (if ip = key then recall ttl now h else h)"
  using own_get [OF assms(1)] other_get [OF assms] assms(2)
  by (cases "ip = key") (simp_all add: auth_failure_retry_after_def Let_def case_prod_beta')

lemma auth_step:
  assumes "auth_inv A ttl ip t (cl_auth s) h" "t \<le> now" "op_addresses op \<subseteq> A"
  shows "auth_inv A ttl ip now (cl_auth (snd (limit_step now clk op s))) (auth_event ttl ip (now, clk, op) h)"
proof -
  have inv: "auth_inv A ttl ip now (cl_auth s) h" using assms(1,2) by (rule auth_inv_later)
  show ?thesis
  proof (cases op)
    case (AuthCheck key)
    with check_step [OF inv, of key] assms(3) show ?thesis
      by (cases "ip = key") (simp_all add: auth_event_def)
  next
    case (AuthFailure key)
    with failure_step [OF inv, of key] assms(3) show ?thesis
      by (cases "ip = key") (simp_all add: auth_event_def)
  next
    case ResetLimits
    with inv no_history_ok show ?thesis
      by (simp add: auth_inv_def auth_event_def reset_limits_def ttl_clear_ok auth_entry_ok_def)
        (simp add: ttl_clear_def room_for_def dict_get_def forgotten_def no_history_def)
  qed (use inv in \<open>simp_all add: auth_event_def public_retry_after_def principal_retry_after_def
        clear_principal_def case_prod_beta' Let_def\<close>)
qed

lemma auth_run:
  "auth_inv A ttl ip t (cl_auth s) h \<Longrightarrow> clocks_ok t c (calls @ [(now, clk, op)]) \<Longrightarrow> auth_addresses calls \<subseteq> A \<Longrightarrow>
     auth_inv A ttl ip now (cl_auth (run_limits calls s)) (fold (auth_event ttl ip) calls h)"
proof (induction calls s arbitrary: t c h rule: run_limits.induct)
  case (1 s)
  then show ?case by (auto intro: auth_inv_later)
next
  case (2 now' clk' op' rest s)
  have "op_addresses op' \<subseteq> A" "auth_addresses rest \<subseteq> A" using 2(4) by (auto simp: auth_addresses_def)
  with 2(1) [OF auth_step [OF 2(2), of now' op' clk'], of clk'] 2(3) show ?case by auto
qed

lemma check_answer:
  assumes "auth_inv A ttl ip now (cl_auth s) h"
  shows "case fst (auth_failure_retry_after now now ip s) of
      None \<Rightarrow> locked_until (recall ttl now h) \<le> now
    | Some wait \<Rightarrow> now < locked_until (recall ttl now h) \<and> 1 \<le> wait
        \<and> locked_until (recall ttl now h) - 1 / 1000 \<le> now + of_int wait
        \<and> now + of_int wait < locked_until (recall ttl now h) + 1"
proof -
  let ?until = "locked_until (recall ttl now h)"
  have trunc: "x - 1 / 1000 \<le> of_int (max 1 (py_trunc (x + 999 / 1000)))
      \<and> of_int (max 1 (py_trunc (x + 999 / 1000))) < x + 1" if "0 < x" for x :: rat
  proof -
    have "py_trunc (x + 999 / 1000) = \<lfloor>x + 999 / 1000\<rfloor>" using that by (simp add: py_trunc_def)
    moreover have "x + 999 / 1000 < of_int \<lfloor>x + 999 / 1000\<rfloor> + 1" by linarith
    ultimately show ?thesis using that by (simp add: max_def) linarith
  qed
  have "af_blocked_until (fst (ttl_get (\<lambda>_. no_failures) now ip (cl_auth s))) = ?until"
    using recalled_entry [OF assms] by (simp add: stands_for_def)
  then have a: "fst (auth_failure_retry_after now now ip s)
      = (if 0 < ?until - now then Some (max 1 (py_trunc (?until - now + 999 / 1000))) else None)"
    by (simp add: auth_failure_retry_after_def Let_def case_prod_beta')
  show ?thesis
  proof (cases "now < ?until")
    case True
    define wait where "wait = max 1 (py_trunc (?until - now + 999 / 1000))"
    have "?until - now - 1 / 1000 \<le> of_int wait \<and> of_int wait < ?until - now + 1" "1 \<le> wait"
      unfolding wait_def using trunc [of "?until - now"] True by simp_all
    with True a show ?thesis unfolding wait_def [symmetric] by (simp add: algebra_simps)
  qed (simp add: a)
qed

section \<open>The lockout\<close>

text \<open>
  C22. Whatever calls came before, every answer about failed logins is the one that the plain history
  of the address asks for. A failed login starts a lockout exactly when it is the fifth in a minute
  since the last lockout, and tells its length: ten seconds, doubled for every earlier lockout, at
  most five minutes. A check of the address is refused exactly until the last lockout ends, with a
  wait of at least a second that leaves no more than a millisecond of the lockout and reaches no
  further than a second past it. The history is forgotten by a reset or when the address made no
  call for the lifetime of an entry. The map must have room for the addresses that failed or were
  checked; with more of them the least recently seen one is forgotten.
\<close>

theorem auth_lockout:
  assumes "clocks_ok 0 c (past @ [(now, clk, AuthCheck ip)])"
    and "int (card (insert ip (auth_addresses past))) \<le> ips"
  shows "let s = run_limits past (new_limits principals ips ttl);
             h = recall ttl now (history_of ttl ip past)
         in fst (limit_step now clk (AuthFailure ip) s)
              = (if fifth_failure now h then Some (py_trunc (cooldown_after (length (ah_lockouts h)))) else None)
          \<and> (case fst (limit_step now clk (AuthCheck ip) s) of
               None \<Rightarrow> locked_until h \<le> now
             | Some wait \<Rightarrow> now < locked_until h \<and> 1 \<le> wait
                 \<and> locked_until h - 1 / 1000 \<le> now + of_int wait \<and> now + of_int wait < locked_until h + 1)"
proof -
  let ?A = "insert ip (auth_addresses past)"
  let ?s = "run_limits past (new_limits principals ips ttl)"
  have "auth_inv ?A ttl ip 0 (cl_auth (new_limits principals ips ttl)) no_history"
    using assms(2) no_history_ok finite_addresses [of past]
    by (simp add: auth_inv_def new_limits_def new_ttl_map_def ttl_ok_def dict_wf_def room_for_def
        auth_entry_ok_def dict_get_def forgotten_def no_history_def)
  then have inv: "auth_inv ?A ttl ip now (cl_auth ?s) (history_of ttl ip past)"
    unfolding history_of_def by (rule auth_run [OF _ assms(1)]) auto
  then have ok: "history_ok now (recall ttl now (history_of ttl ip past))"
    by (simp add: auth_inv_def recall_ok)
  have "fst (limit_step now clk (AuthFailure ip) ?s)
      = fst (note_failure now (fst (ttl_get (\<lambda>_. no_failures) now ip (cl_auth ?s))))"
    by (simp add: record_auth_failure_def Let_def case_prod_beta')
  then show ?thesis
    using noted_failure(1) [OF recalled_entry [OF inv] ok] check_answer [OF inv] by (simp add: Let_def)
qed

text \<open>Five failures in four seconds lock the address out for ten seconds; a check a second later is refused.\<close>

definition five_failures :: "(rat \<times> rat \<times> limit_op) list" where
  "five_failures = map (\<lambda>t. (t, t, AuthFailure (lit ''a''))) [0, 1, 2, 3, 4]"

theorem auth_lockout_witness:
  "fst (limit_step 4 4 (AuthFailure (lit ''a'')) (run_limits (butlast five_failures) (new_limits 9 9 900))) = Some 10
   \<and> fst (limit_step 5 5 (AuthCheck (lit ''a'')) (run_limits five_failures (new_limits 9 9 900))) \<noteq> None"
proof -
  have clocks: "clocks_ok 0 0 (butlast five_failures @ [(4, 4, AuthCheck (lit ''a''))])"
    "clocks_ok 0 0 (five_failures @ [(5, 5, AuthCheck (lit ''a''))])"
    by (simp_all add: five_failures_def)
  have room: "int (card (insert (lit ''a'') (auth_addresses (butlast five_failures)))) \<le> 9"
    "int (card (insert (lit ''a'') (auth_addresses five_failures))) \<le> 9"
    by (simp_all add: five_failures_def auth_addresses_def)
  have "fifth_failure 4 (recall 900 4 (history_of 900 (lit ''a'') (butlast five_failures)))"
    "ah_lockouts (recall 900 4 (history_of 900 (lit ''a'') (butlast five_failures))) = []"
    "locked_until (recall 900 5 (history_of 900 (lit ''a'') five_failures)) = 14"
    by code_simp+
  then show ?thesis
    using auth_lockout [OF clocks(1) room(1), of 9 900] auth_lockout [OF clocks(2) room(2), of 9 900]
    by (auto simp: Let_def cooldown_after_def py_trunc_def split: option.splits)
qed

end
