(* ===== verification/Stream_Gate.thy ===== *)
theory Stream_Gate
  imports Py_Base
begin

text \<open>
  \<open>services/compat/stream_concurrency.py\<close>: the fair gate that leases media streams. The
  condition's lock is held from one wait to the next, so each stretch of \<open>acquire\<close> between
  two waits, and each \<open>release\<close>, is one step; the steps of any number of tasks interleave. A
  waiter is identified by the number of its task (the class compares by identity), and
  \<open>w_awake\<close> says that a notification has reached it since it went to sleep. A waiter may
  time out or be cancelled at any moment; the deadline itself is not modelled.
\<close>

section \<open>The gate\<close>

record waiter =
  w_id :: nat
  w_principal :: pystr
  w_awake :: bool

text \<open>
  A lease is \<open>Releasing\<close> once its flag is set and until the gate's lock is taken, and \<open>Lost\<close>
  when the releasing task is cancelled in between.
\<close>

datatype lease_state = Held | Releasing | Released | Lost

record fair_gate =
  fg_global_limit :: int
  fg_principal_limit :: int
  fg_max_waiters :: int
  fg_active :: int
  fg_active_by_principal :: "(pystr, int) odict"
  fg_waiters :: "waiter list"
  fg_leases :: "(nat \<times> pystr \<times> lease_state) list"

definition new_gate :: "int \<Rightarrow> int \<Rightarrow> int \<Rightarrow> fair_gate" where
  "new_gate global_limit principal_limit max_waiters =
     \<lparr>fg_global_limit = global_limit, fg_principal_limit = principal_limit,
      fg_max_waiters = max_waiters, fg_active = 0, fg_active_by_principal = [],
      fg_waiters = [], fg_leases = []\<rparr>"

definition active_of :: "(pystr, int) odict \<Rightarrow> pystr \<Rightarrow> int" where
  "active_of d p = (case dict_get d p of None \<Rightarrow> 0 | Some n \<Rightarrow> n)"

definition below_limit :: "fair_gate \<Rightarrow> pystr \<Rightarrow> bool" where
  "below_limit g p \<longleftrightarrow> active_of (fg_active_by_principal g) p < fg_principal_limit g"

definition first_eligible :: "fair_gate \<Rightarrow> waiter option" where
  "first_eligible g =
     (if fg_global_limit g \<le> fg_active g then None
      else List.find (\<lambda>w. below_limit g (w_principal w)) (fg_waiters g))"

definition notify_all :: "fair_gate \<Rightarrow> fair_gate" where
  "notify_all g = g\<lparr>fg_waiters := map (\<lambda>w. w\<lparr>w_awake := True\<rparr>) (fg_waiters g)\<rparr>"

definition remove_waiter :: "nat \<Rightarrow> fair_gate \<Rightarrow> fair_gate" where
  "remove_waiter i g = g\<lparr>fg_waiters := filter (\<lambda>w. w_id w \<noteq> i) (fg_waiters g)\<rparr>"

definition fall_asleep :: "nat \<Rightarrow> fair_gate \<Rightarrow> fair_gate" where
  "fall_asleep i g =
     g\<lparr>fg_waiters := map (\<lambda>w. if w_id w = i then w\<lparr>w_awake := False\<rparr> else w) (fg_waiters g)\<rparr>"

definition admit :: "nat \<Rightarrow> pystr \<Rightarrow> fair_gate \<Rightarrow> fair_gate" where
  "admit i p g0 =
     (let g = remove_waiter i g0; d = fg_active_by_principal g
      in notify_all (g\<lparr>fg_active := fg_active g + 1,
                       fg_active_by_principal := dict_set d p (active_of d p + 1),
                       fg_leases := fg_leases g @ [(i, p, Held)]\<rparr>))"

datatype acquire_outcome = QueueFull | Admitted | Suspended

text \<open>The loop of \<open>acquire\<close> up to its next wait.\<close>

definition try_admit :: "nat \<Rightarrow> pystr \<Rightarrow> fair_gate \<Rightarrow> acquire_outcome \<times> fair_gate" where
  "try_admit i p g =
     (case first_eligible g of
        None \<Rightarrow> (Suspended, fall_asleep i g)
      | Some w \<Rightarrow> if w_id w = i then (Admitted, admit i p g) else (Suspended, fall_asleep i g))"

definition acquire_start :: "nat \<Rightarrow> pystr \<Rightarrow> fair_gate \<Rightarrow> acquire_outcome \<times> fair_gate" where
  "acquire_start i p g =
     (if fg_max_waiters g \<le> int (length (fg_waiters g)) then (QueueFull, g)
      else try_admit i p
        (g\<lparr>fg_waiters := fg_waiters g @ [\<lparr>w_id = i, w_principal = p, w_awake = True\<rparr>]\<rparr>))"

text \<open>The two \<open>except\<close> branches: a waiter gives up.\<close>

definition acquire_abort :: "nat \<Rightarrow> fair_gate \<Rightarrow> fair_gate" where
  "acquire_abort i g = notify_all (remove_waiter i g)"

definition release_slot :: "pystr \<Rightarrow> fair_gate \<Rightarrow> fair_gate" where
  "release_slot p g =
     (let d = fg_active_by_principal g; n = active_of d p
      in notify_all (g\<lparr>fg_active_by_principal := (if n \<le> 1 then dict_pop d p else dict_set d p (n - 1)),
                       fg_active := fg_active g - 1\<rparr>))"

definition set_lease :: "nat \<Rightarrow> lease_state \<Rightarrow> fair_gate \<Rightarrow> fair_gate" where
  "set_lease i st g =
     g\<lparr>fg_leases := map (\<lambda>(j, q, t). (j, q, if j = i then st else t)) (fg_leases g)\<rparr>"

text \<open>\<open>StreamLease.release\<close>: the first part, then the part under the gate's lock.\<close>

definition release_start :: "nat \<Rightarrow> fair_gate \<Rightarrow> fair_gate" where
  "release_start i g =
     (case map_of (fg_leases g) i of
        Some (p, Held) \<Rightarrow> set_lease i Releasing g
      | _ \<Rightarrow> g)"

definition release_finish :: "nat \<Rightarrow> fair_gate \<Rightarrow> fair_gate" where
  "release_finish i g =
     (case map_of (fg_leases g) i of
        Some (p, Releasing) \<Rightarrow> set_lease i Released (release_slot p g)
      | _ \<Rightarrow> g)"

definition release_cancelled :: "nat \<Rightarrow> fair_gate \<Rightarrow> fair_gate" where
  "release_cancelled i g =
     (case map_of (fg_leases g) i of
        Some (p, Releasing) \<Rightarrow> set_lease i Lost g
      | _ \<Rightarrow> g)"

definition principal_count :: "fair_gate \<Rightarrow> nat" where
  "principal_count g = length (fg_active_by_principal g)"

definition waiter_count :: "fair_gate \<Rightarrow> nat" where
  "waiter_count g = length (fg_waiters g)"

section \<open>The steps of the tasks\<close>

datatype gate_event =
    Entered nat pystr acquire_outcome | Resumed nat acquire_outcome | GaveUp nat
  | ReleaseStarted nat | ReleaseFinished nat | ReleaseCancelled nat

inductive gate_step :: "fair_gate \<Rightarrow> gate_event \<Rightarrow> fair_gate \<Rightarrow> bool" where
  gate_enter: "i \<notin> w_id ` set (fg_waiters g) \<Longrightarrow> i \<notin> fst ` set (fg_leases g) \<Longrightarrow>
     acquire_start i p g = (r, g') \<Longrightarrow> gate_step g (Entered i p r) g'"
| gate_resume: "w \<in> set (fg_waiters g) \<Longrightarrow> w_awake w \<Longrightarrow>
     try_admit (w_id w) (w_principal w) g = (r, g') \<Longrightarrow> gate_step g (Resumed (w_id w) r) g'"
| gate_give_up: "w \<in> set (fg_waiters g) \<Longrightarrow> gate_step g (GaveUp (w_id w)) (acquire_abort (w_id w) g)"
| gate_release: "gate_step g (ReleaseStarted i) (release_start i g)"
| gate_released: "gate_step g (ReleaseFinished i) (release_finish i g)"
| gate_release_cancelled: "gate_step g (ReleaseCancelled i) (release_cancelled i g)"

inductive gate_run :: "fair_gate \<Rightarrow> gate_event list \<Rightarrow> fair_gate \<Rightarrow> bool" where
  gate_run_none: "gate_run g [] g"
| gate_run_more: "gate_step g e g1 \<Longrightarrow> gate_run g1 es g' \<Longrightarrow> gate_run g (e # es) g'"

inductive_cases gate_resumedE: "gate_step g (Resumed i r) g'"

section \<open>The invariant of the gate\<close>

text \<open>The leases that take a place, of all principals or of one.\<close>

definition busy :: "fair_gate \<Rightarrow> (nat \<times> pystr \<times> lease_state) list" where
  "busy g = filter (\<lambda>(i, p, st). st \<noteq> Released) (fg_leases g)"

definition busy_of :: "fair_gate \<Rightarrow> pystr \<Rightarrow> (nat \<times> pystr \<times> lease_state) list" where
  "busy_of g q = filter (\<lambda>(i, p, st). st \<noteq> Released \<and> p = q) (fg_leases g)"

definition counts_ok :: "fair_gate \<Rightarrow> bool" where
  "counts_ok g \<longleftrightarrow>
     distinct (map fst (fg_leases g))
     \<and> fg_active g = int (length (busy g))
     \<and> (\<forall>p. active_of (fg_active_by_principal g) p = int (length (busy_of g p)))
     \<and> dict_wf (fg_active_by_principal g) \<and> list_all (\<lambda>(p, n). 1 \<le> n) (fg_active_by_principal g)"

definition bounds_ok :: "fair_gate \<Rightarrow> bool" where
  "bounds_ok g \<longleftrightarrow>
     fg_active g \<le> fg_global_limit g
     \<and> (\<forall>p. active_of (fg_active_by_principal g) p \<le> fg_principal_limit g)
     \<and> int (length (fg_waiters g)) \<le> fg_max_waiters g
     \<and> distinct (map w_id (fg_waiters g)) \<and> w_id ` set (fg_waiters g) \<inter> fst ` set (fg_leases g) = {}"

definition no_lost_wakeup :: "fair_gate \<Rightarrow> bool" where
  "no_lost_wakeup g \<longleftrightarrow> (\<forall>w. first_eligible g = Some w \<longrightarrow> w_awake w)"

definition gate_ok :: "fair_gate \<Rightarrow> bool" where
  "gate_ok g \<longleftrightarrow> counts_ok g \<and> bounds_ok g \<and> no_lost_wakeup g"

subsection \<open>The order of the waiters\<close>

lemma find_Some_split:
  "List.find P xs = Some x \<Longrightarrow> \<exists>ys zs. xs = ys @ x # zs \<and> P x \<and> (\<forall>y \<in> set ys. \<not> P y)"
  by (induction xs) (auto split: if_splits intro: exI [of _ "[]"] exI [of _ "_ # _"],
      metis append_Cons set_ConsD)

lemma find_map_same:
  "(\<And>x. x \<in> set xs \<Longrightarrow> P (f x) = P x) \<Longrightarrow> List.find P (map f xs) = map_option f (List.find P xs)"
  by (induction xs) auto

lemma first_eligible_in: "first_eligible g = Some w \<Longrightarrow> w \<in> set (fg_waiters g) \<and> below_limit g (w_principal w)"
  using find_Some_split [of "\<lambda>w. below_limit g (w_principal w)" "fg_waiters g" w]
  by (auto simp: first_eligible_def split: if_splits)

lemma first_eligible_room: "first_eligible g = Some w \<Longrightarrow> fg_active g < fg_global_limit g"
  by (auto simp: first_eligible_def split: if_splits)

lemma notify_all_awake: "no_lost_wakeup (notify_all g)"
  using first_eligible_in [of "notify_all g"] by (auto simp: no_lost_wakeup_def notify_all_def)

lemma notify_all_simps [simp]:
  "fg_active (notify_all g) = fg_active g" "fg_active_by_principal (notify_all g) = fg_active_by_principal g"
  "fg_leases (notify_all g) = fg_leases g" "fg_global_limit (notify_all g) = fg_global_limit g"
  "fg_principal_limit (notify_all g) = fg_principal_limit g" "fg_max_waiters (notify_all g) = fg_max_waiters g"
  "map w_id (fg_waiters (notify_all g)) = map w_id (fg_waiters g)"
  "length (fg_waiters (notify_all g)) = length (fg_waiters g)"
  by (auto simp: notify_all_def)

lemma waiter_ids: "w_id ` set ws = set (map w_id ws)"
  by simp

text \<open>Falling asleep is harmless for a waiter that is not the first one eligible.\<close>

lemma asleep_awake:
  assumes "no_lost_wakeup g" "\<And>w. first_eligible g = Some w \<Longrightarrow> w_id w \<noteq> i"
  shows "no_lost_wakeup (fall_asleep i g)"
proof -
  have "first_eligible (fall_asleep i g)
      = map_option (\<lambda>w. if w_id w = i then w\<lparr>w_awake := False\<rparr> else w) (first_eligible g)"
    unfolding first_eligible_def
    by (simp add: fall_asleep_def below_limit_def) (subst find_map_same; simp)
  with assms show ?thesis by (auto simp: no_lost_wakeup_def)
qed

subsection \<open>Counting leases\<close>

lemma lease_split:
  assumes "distinct (map fst xs)" "map_of xs i = Some (p, st)"
  shows "\<exists>ys zs. xs = ys @ (i, p, st) # zs
    \<and> map (\<lambda>(j, q, t). (j, q, if j = i then st' else t)) xs = ys @ (i, p, st') # zs"
proof -
  from assms(2) have "(i, p, st) \<in> set xs" by (rule map_of_SomeD)
  then obtain ys zs where xs: "xs = ys @ (i, p, st) # zs" by (auto dest: split_list)
  have "map (\<lambda>(j, q, t). (j, q, if j = i then st' else t)) us = us" if "i \<notin> fst ` set us" for us
    using that by (induction us) auto
  then show ?thesis using xs assms(1) by (intro exI [of _ ys] exI [of _ zs]) auto
qed

lemma set_lease_keeps_busy:
  assumes "counts_ok g" "map_of (fg_leases g) i = Some (p, st)" "st \<noteq> Released" "st' \<noteq> Released"
  shows "counts_ok (set_lease i st' g)"
proof -
  have d: "distinct (map fst (fg_leases g))" using assms(1) by (simp add: counts_ok_def)
  obtain ys zs where "fg_leases g = ys @ (i, p, st) # zs" "fg_leases (set_lease i st' g) = ys @ (i, p, st') # zs"
    using lease_split [OF d assms(2), of st'] by (auto simp: set_lease_def)
  then show ?thesis using assms by (simp add: counts_ok_def busy_def busy_of_def) (simp add: set_lease_def)
qed

lemma active_of_set: "active_of (dict_set d p n) q = (if q = p then n else active_of d q)"
  by (simp add: active_of_def dict_get_set)

lemma active_of_pop: "active_of (dict_pop d p) q = (if q = p then 0 else active_of d q)"
  by (simp add: active_of_def dict_get_pop)

lemma dict_set_all:
  "list_all P d \<Longrightarrow> P (k, v) \<Longrightarrow> list_all P (dict_set d k v)"
  by (induction d k v rule: dict_set.induct) auto

lemma release_slot_simps [simp]:
  "fg_leases (release_slot p g) = fg_leases g" "fg_active (release_slot p g) = fg_active g - 1"
  "fg_global_limit (release_slot p g) = fg_global_limit g"
  "fg_principal_limit (release_slot p g) = fg_principal_limit g"
  "fg_max_waiters (release_slot p g) = fg_max_waiters g"
  "map w_id (fg_waiters (release_slot p g)) = map w_id (fg_waiters g)"
  "length (fg_waiters (release_slot p g)) = length (fg_waiters g)"
  by (simp_all add: release_slot_def Let_def notify_all_def)

lemma release_slot_active:
  assumes "1 \<le> active_of (fg_active_by_principal g) p"
  shows "active_of (fg_active_by_principal (release_slot p g)) q
    = active_of (fg_active_by_principal g) q - (if q = p then 1 else 0)"
  using assms by (auto simp: release_slot_def Let_def active_of_set active_of_pop)

lemma release_slot_dict:
  assumes "dict_wf (fg_active_by_principal g)" "list_all (\<lambda>(p, n). 1 \<le> n) (fg_active_by_principal g)"
  shows "dict_wf (fg_active_by_principal (release_slot p g))"
    "list_all (\<lambda>(p, n). 1 \<le> n) (fg_active_by_principal (release_slot p g))"
proof -
  have "list_all (\<lambda>(p, n). 1 \<le> n) (dict_pop (fg_active_by_principal g) p)"
    using assms(2) by (auto simp: dict_pop_def list_all_iff)
  then show "list_all (\<lambda>(p, n). 1 \<le> n) (fg_active_by_principal (release_slot p g))"
    using assms(2) by (simp add: release_slot_def Let_def dict_set_all)
qed (simp add: release_slot_def Let_def assms(1) dict_wf_set dict_wf_pop)

lemma release_counts:
  assumes ok: "counts_ok g" and l: "map_of (fg_leases g) i = Some (p, Releasing)"
  shows "counts_ok (set_lease i Released (release_slot p g))"
proof -
  let ?g = "set_lease i Released (release_slot p g)"
  have d: "distinct (map fst (fg_leases g))" using ok by (simp add: counts_ok_def)
  obtain ys zs where xs: "fg_leases g = ys @ (i, p, Releasing) # zs"
      and new: "fg_leases ?g = ys @ (i, p, Released) # zs"
    using lease_split [OF d l, of Released] by (auto simp: set_lease_def)
  have n: "1 \<le> active_of (fg_active_by_principal g) p"
    using ok xs by (simp add: counts_ok_def busy_of_def)
  have by_p: "fg_active_by_principal ?g = fg_active_by_principal (release_slot p g)"
    by (simp add: set_lease_def)
  have "active_of (fg_active_by_principal ?g) q = int (length (busy_of ?g q))" for q
    using ok release_slot_active [OF n, of q] by_p by (simp add: counts_ok_def busy_of_def xs new)
  moreover have "fg_active ?g = int (length (busy ?g))"
    using ok by (simp add: counts_ok_def busy_def xs new) (simp add: set_lease_def)
  moreover have "dict_wf (fg_active_by_principal ?g)" "list_all (\<lambda>(p, n). 1 \<le> n) (fg_active_by_principal ?g)"
    unfolding by_p using release_slot_dict ok by (simp_all add: counts_ok_def)
  moreover have "distinct (map fst (fg_leases ?g))" using d xs new by simp
  ultimately show ?thesis by (simp add: counts_ok_def)
qed

lemma admit_simps [simp]:
  "fg_active (admit i p g) = fg_active g + 1" "fg_leases (admit i p g) = fg_leases g @ [(i, p, Held)]"
  "fg_active_by_principal (admit i p g) = dict_set (fg_active_by_principal g) p (active_of (fg_active_by_principal g) p + 1)"
  "fg_global_limit (admit i p g) = fg_global_limit g"
  "fg_principal_limit (admit i p g) = fg_principal_limit g" "fg_max_waiters (admit i p g) = fg_max_waiters g"
  "map w_id (fg_waiters (admit i p g)) = filter (\<lambda>j. j \<noteq> i) (map w_id (fg_waiters g))"
  by (auto simp: admit_def Let_def remove_waiter_def filter_map o_def notify_all_def)

lemma admit_counts:
  assumes ok: "counts_ok g" and fresh: "i \<notin> fst ` set (fg_leases g)"
  shows "counts_ok (admit i p g)"
proof -
  have "0 \<le> active_of (fg_active_by_principal g) p" using ok by (simp add: counts_ok_def)
  then show ?thesis using ok fresh
    by (auto simp: counts_ok_def busy_def busy_of_def active_of_set intro!: dict_set_all)
qed

lemma admit_bounds:
  assumes ok: "bounds_ok g" and room: "fg_active g < fg_global_limit g" "below_limit g p"
  shows "bounds_ok (admit i p g)"
proof -
  have len: "length (fg_waiters (admit i p g)) \<le> length (fg_waiters g)"
    by (simp add: admit_def Let_def remove_waiter_def)
  have ids: "w_id ` set (fg_waiters (admit i p g)) = w_id ` set (fg_waiters g) - {i}"
    unfolding waiter_ids by (auto simp del: set_map)
  show ?thesis using ok room len
    by (auto simp: bounds_ok_def below_limit_def active_of_set ids distinct_filter)
qed

lemma fall_asleep_simps [simp]:
  "fg_active (fall_asleep i g) = fg_active g" "fg_active_by_principal (fall_asleep i g) = fg_active_by_principal g"
  "fg_leases (fall_asleep i g) = fg_leases g" "fg_global_limit (fall_asleep i g) = fg_global_limit g"
  "fg_principal_limit (fall_asleep i g) = fg_principal_limit g" "fg_max_waiters (fall_asleep i g) = fg_max_waiters g"
  "map w_id (fg_waiters (fall_asleep i g)) = map w_id (fg_waiters g)"
  "length (fg_waiters (fall_asleep i g)) = length (fg_waiters g)"
  by (auto simp: fall_asleep_def)

lemma counts_ok_cong:
  "counts_ok g \<Longrightarrow> fg_leases g' = fg_leases g \<Longrightarrow> fg_active g' = fg_active g \<Longrightarrow>
     fg_active_by_principal g' = fg_active_by_principal g \<Longrightarrow> counts_ok g'"
  by (simp add: counts_ok_def busy_def busy_of_def)

lemma gate_same_waiters:
  assumes "bounds_ok g" "map w_id (fg_waiters g') = map w_id (fg_waiters g)"
    "map fst (fg_leases g') = map fst (fg_leases g)" "fg_active g' \<le> fg_active g"
    "fg_global_limit g' = fg_global_limit g" "fg_principal_limit g' = fg_principal_limit g"
    "fg_max_waiters g' = fg_max_waiters g"
    "\<And>p. active_of (fg_active_by_principal g') p \<le> active_of (fg_active_by_principal g) p"
  shows "bounds_ok g'"
proof -
  have "length (fg_waiters g') = length (fg_waiters g)" using assms(2) by (rule map_eq_imp_length_eq)
  moreover have "w_id ` set (fg_waiters g') = w_id ` set (fg_waiters g)"
    unfolding waiter_ids assms(2) ..
  moreover have "fst ` set (fg_leases g') = fst ` set (fg_leases g)"
    using assms(3) by (metis set_map)
  moreover have "active_of (fg_active_by_principal g') p \<le> fg_principal_limit g" for p
    using assms(1,8) by (meson bounds_ok_def order_trans)
  moreover have "fg_active g' \<le> fg_global_limit g" using assms(1,4) by (simp add: bounds_ok_def)
  ultimately show ?thesis using assms(1,2,5-7) by (simp add: bounds_ok_def)
qed

subsection \<open>Every step keeps the invariant\<close>

lemma remove_waiter_simps [simp]:
  "fg_active (remove_waiter i g) = fg_active g" "fg_active_by_principal (remove_waiter i g) = fg_active_by_principal g"
  "fg_leases (remove_waiter i g) = fg_leases g" "fg_global_limit (remove_waiter i g) = fg_global_limit g"
  "fg_principal_limit (remove_waiter i g) = fg_principal_limit g" "fg_max_waiters (remove_waiter i g) = fg_max_waiters g"
  by (simp_all add: remove_waiter_def)

lemma bounds_subset:
  "bounds_ok g \<Longrightarrow> bounds_ok (g\<lparr>fg_waiters := filter P (fg_waiters g)\<rparr>)"
  using order_trans [of "int (length (filter P (fg_waiters g)))" "int (length (fg_waiters g))" "fg_max_waiters g"]
  by (auto simp: bounds_ok_def distinct_map_filter)

lemma abort_ok:
  assumes "gate_ok g"
  shows "gate_ok (acquire_abort i g)"
proof -
  have "counts_ok (acquire_abort i g)"
    using assms by (auto simp: gate_ok_def acquire_abort_def intro: counts_ok_cong)
  moreover have "bounds_ok (remove_waiter i g)"
    using assms bounds_subset by (simp add: gate_ok_def remove_waiter_def)
  then have "bounds_ok (acquire_abort i g)"
    unfolding acquire_abort_def by (rule gate_same_waiters) simp_all
  ultimately show ?thesis using notify_all_awake by (simp add: gate_ok_def acquire_abort_def)
qed

lemma try_admit_ok:
  assumes counts: "counts_ok g" and bounds: "bounds_ok g" and new: "i \<notin> fst ` set (fg_leases g)"
    and i: "\<And>w. w \<in> set (fg_waiters g) \<Longrightarrow> w_id w = i \<Longrightarrow> w_principal w = p"
    and awake: "\<And>w. first_eligible g = Some w \<Longrightarrow> w_id w \<noteq> i \<Longrightarrow> w_awake w"
    and r: "try_admit i p g = (r, g')"
  shows "gate_ok g'"
proof (cases "\<exists>w. first_eligible g = Some w \<and> w_id w = i")
  case True
  then obtain w where w: "first_eligible g = Some w" "w_id w = i" by blast
  with r have g': "g' = admit i p g" by (simp add: try_admit_def)
  have "below_limit g p" using first_eligible_in [OF w(1)] i w(2) by auto
  with first_eligible_room [OF w(1)] have "bounds_ok g'" unfolding g' by (intro admit_bounds bounds)
  moreover have "no_lost_wakeup g'" using notify_all_awake by (simp add: g' admit_def Let_def)
  ultimately show ?thesis using admit_counts [OF counts new] by (simp add: gate_ok_def g')
next
  case False
  then have g': "g' = fall_asleep i g" using r by (auto simp: try_admit_def split: option.splits if_splits)
  have "no_lost_wakeup g" using awake False by (auto simp: no_lost_wakeup_def)
  then have "no_lost_wakeup g'" unfolding g' using False by (intro asleep_awake) auto
  moreover have "bounds_ok g'" unfolding g' using bounds by (rule gate_same_waiters) simp_all
  moreover have "counts_ok g'" unfolding g' using counts by (rule counts_ok_cong) simp_all
  ultimately show ?thesis by (simp add: gate_ok_def)
qed

lemma find_append: "List.find P (xs @ ys) = (case List.find P xs of None \<Rightarrow> List.find P ys | Some x \<Rightarrow> Some x)"
  by (induction xs) auto

lemma first_eligible_append:
  "first_eligible (g\<lparr>fg_waiters := fg_waiters g @ [w]\<rparr>) = Some v \<Longrightarrow> v = w \<or> first_eligible g = Some v"
  by (auto simp: first_eligible_def below_limit_def find_append split: if_splits option.splits)

lemma acquire_start_ok:
  assumes ok: "gate_ok g" and fresh: "i \<notin> w_id ` set (fg_waiters g)" "i \<notin> fst ` set (fg_leases g)"
    and r: "acquire_start i p g = (r, g')"
  shows "gate_ok g'"
proof (cases "fg_max_waiters g \<le> int (length (fg_waiters g))")
  case True
  then show ?thesis using ok r by (simp add: acquire_start_def)
next
  case False
  let ?w = "\<lparr>w_id = i, w_principal = p, w_awake = True\<rparr>"
  let ?g = "g\<lparr>fg_waiters := fg_waiters g @ [?w]\<rparr>"
  have adm: "try_admit i p ?g = (r, g')" using r False by (simp add: acquire_start_def)
  have counts: "counts_ok ?g" using ok by (auto simp: gate_ok_def intro: counts_ok_cong)
  have bounds: "bounds_ok ?g" using ok fresh False by (auto simp: gate_ok_def bounds_ok_def)
  have awake: "w_awake v" if "first_eligible ?g = Some v" "w_id v \<noteq> i" for v
    using first_eligible_append [OF that(1)] that(2) ok by (auto simp: gate_ok_def no_lost_wakeup_def)
  have same: "w_principal w = p" if "w \<in> set (fg_waiters ?g)" "w_id w = i" for w
  proof (cases "w \<in> set (fg_waiters g)")
    case True
    then show ?thesis using that(2) fresh(1) by blast
  next
    case False
    then have "w = ?w" using that(1) by simp
    then show ?thesis by simp
  qed
  show ?thesis
    by (rule try_admit_ok [OF counts bounds _ same awake adm]) (use fresh(2) in simp_all)
qed

lemma set_lease_simps [simp]:
  "fg_active (set_lease i st g) = fg_active g" "fg_active_by_principal (set_lease i st g) = fg_active_by_principal g"
  "fg_waiters (set_lease i st g) = fg_waiters g" "fg_global_limit (set_lease i st g) = fg_global_limit g"
  "fg_principal_limit (set_lease i st g) = fg_principal_limit g" "fg_max_waiters (set_lease i st g) = fg_max_waiters g"
  "map fst (fg_leases (set_lease i st g)) = map fst (fg_leases g)"
  by (auto simp: set_lease_def)

lemma first_eligible_set_lease [simp]: "first_eligible (set_lease i st g) = first_eligible g"
  by (simp add: first_eligible_def below_limit_def)

lemma set_lease_ok:
  assumes "gate_ok g" "map_of (fg_leases g) i = Some (p, st)" "st \<noteq> Released" "st' \<noteq> Released"
  shows "gate_ok (set_lease i st' g)"
proof -
  have "bounds_ok (set_lease i st' g)"
    by (rule gate_same_waiters [of g]) (use assms(1) in \<open>simp_all add: gate_ok_def\<close>)
  with assms set_lease_keeps_busy [of g i p st st'] show ?thesis
    by (simp add: gate_ok_def no_lost_wakeup_def)
qed

lemma release_finish_ok:
  assumes "gate_ok g"
  shows "gate_ok (release_finish i g)"
proof (cases "\<exists>p. map_of (fg_leases g) i = Some (p, Releasing)")
  case True
  then obtain p where l: "map_of (fg_leases g) i = Some (p, Releasing)" by blast
  let ?g = "set_lease i Released (release_slot p g)"
  have counts: "counts_ok g" using assms by (simp add: gate_ok_def)
  have "(i, p, Releasing) \<in> set (fg_leases g)" using l by (rule map_of_SomeD)
  then have "busy_of g p \<noteq> []" by (auto simp: busy_of_def filter_empty_conv)
  then have n: "1 \<le> active_of (fg_active_by_principal g) p"
    using counts by (simp add: counts_ok_def Suc_le_eq)
  have "bounds_ok ?g"
    by (rule gate_same_waiters [of g]) (use assms release_slot_active [OF n] in \<open>simp_all add: gate_ok_def\<close>)
  moreover have "no_lost_wakeup (release_slot p g)"
    using notify_all_awake by (simp add: release_slot_def Let_def)
  then have "no_lost_wakeup ?g" by (simp add: no_lost_wakeup_def)
  ultimately show ?thesis using release_counts [OF counts l] l by (simp add: gate_ok_def release_finish_def)
next
  case False
  then have "release_finish i g = g" by (auto simp: release_finish_def split: option.splits lease_state.splits)
  with assms show ?thesis by simp
qed

lemma release_other_ok:
  assumes "gate_ok g"
  shows "gate_ok (release_start i g)" "gate_ok (release_cancelled i g)"
  using assms set_lease_ok [OF assms, of i]
  by (auto simp: release_start_def release_cancelled_def split: option.splits lease_state.splits)

lemma gate_step_ok: "gate_step g e g' \<Longrightarrow> gate_ok g \<Longrightarrow> gate_ok g'"
proof (induction rule: gate_step.induct)
  case (gate_enter i g p r g')
  then show ?case by (auto intro: acquire_start_ok)
next
  case (gate_resume w g r g')
  have ids: "distinct (map w_id (fg_waiters g))" "w_id ` set (fg_waiters g) \<inter> fst ` set (fg_leases g) = {}"
    using gate_resume(4) by (simp_all add: gate_ok_def bounds_ok_def)
  have "w_principal v = w_principal w" if "v \<in> set (fg_waiters g)" "w_id v = w_id w" for v
    using ids(1) that gate_resume(1) by (metis distinct_map inj_on_eq_iff)
  moreover have "w_id w \<notin> fst ` set (fg_leases g)" using ids(2) gate_resume(1) by blast
  ultimately show ?case
    using gate_resume(3,4) try_admit_ok [of g "w_id w" "w_principal w" r g']
    by (simp add: gate_ok_def no_lost_wakeup_def)
qed (simp_all add: abort_ok release_finish_ok release_other_ok)

lemma gate_run_ok: "gate_run g es g' \<Longrightarrow> gate_ok g \<Longrightarrow> gate_ok g'"
  by (induction rule: gate_run.induct) (auto dest: gate_step_ok)

lemma new_gate_ok: "0 \<le> gl \<Longrightarrow> 0 \<le> pl \<Longrightarrow> 0 \<le> mw \<Longrightarrow> gate_ok (new_gate gl pl mw)"
  by (simp add: gate_ok_def counts_ok_def bounds_ok_def no_lost_wakeup_def new_gate_def busy_def busy_of_def
      dict_wf_def active_of_def dict_get_def first_eligible_def)

lemma step_limits:
  "gate_step g e g' \<Longrightarrow> fg_global_limit g' = fg_global_limit g \<and> fg_principal_limit g' = fg_principal_limit g
     \<and> fg_max_waiters g' = fg_max_waiters g"
  by (induction rule: gate_step.induct)
    (auto simp: acquire_start_def try_admit_def acquire_abort_def release_start_def release_finish_def
      release_cancelled_def split: if_splits option.splits lease_state.splits)

lemma run_limits_same:
  "gate_run g es g' \<Longrightarrow> fg_global_limit g' = fg_global_limit g \<and> fg_principal_limit g' = fg_principal_limit g
     \<and> fg_max_waiters g' = fg_max_waiters g"
  by (induction rule: gate_run.induct) (auto dest: step_limits)

section \<open>What the gate promises\<close>

text \<open>
  C23. The gate never lets too many streams in: in every run of any number of tasks that acquire,
  wait, time out, are cancelled and release in any order, the count of active streams is
  exactly the number of leases whose place was not given back, at most the global limit and,
  for each principal, at most the principal's limit, and at most the configured number of
  tasks wait. Releasing a lease twice gives its place back once.
\<close>
theorem stream_gate_bounded:
  assumes "0 \<le> gl" "0 \<le> pl" "0 \<le> mw" "gate_run (new_gate gl pl mw) es g"
  shows "fg_active g = int (length (busy g)) \<and> fg_active g \<le> gl
    \<and> int (length (busy_of g p)) \<le> pl \<and> active_of (fg_active_by_principal g) p = int (length (busy_of g p))
    \<and> int (waiter_count g) \<le> mw"
proof -
  have "gate_ok g" using assms(4) new_gate_ok [OF assms(1-3)] by (rule gate_run_ok)
  moreover have "fg_global_limit g = gl" "fg_principal_limit g = pl" "fg_max_waiters g = mw"
    using run_limits_same [OF assms(4)] by (simp_all add: new_gate_def)
  ultimately show ?thesis
    unfolding gate_ok_def counts_ok_def bounds_ok_def waiter_count_def by metis
qed

text \<open>A task enters an empty gate, releases, and its lease is released again.\<close>

theorem stream_gate_bounded_witness:
  "\<exists>es g. gate_run (new_gate 2 1 5) es g \<and> length es = 4 \<and> fg_active g = 0 \<and> fg_active g \<le> 2"
proof -
  let ?g0 = "new_gate 2 1 5"
  let ?g1 = "snd (acquire_start 0 [97] ?g0)"
  let ?g2 = "release_start 0 ?g1"
  let ?g3 = "release_finish 0 ?g2"
  let ?g4 = "release_finish 0 ?g3"
  let ?es = "[Entered 0 [97] (fst (acquire_start 0 [97] ?g0)), ReleaseStarted 0, ReleaseFinished 0, ReleaseFinished 0]"
  have "gate_step ?g0 (Entered 0 [97] (fst (acquire_start 0 [97] ?g0))) ?g1"
    by (rule gate_step.gate_enter) (simp_all add: new_gate_def)
  then have run: "gate_run ?g0 ?es ?g4"
    by (rule gate_run_more [OF _ gate_run_more [OF gate_release gate_run_more [OF gate_released
          gate_run_more [OF gate_released gate_run_none]]]])
  have "fg_active ?g4 = 0"
    by (simp add: new_gate_def acquire_start_def try_admit_def first_eligible_def below_limit_def active_of_def
        dict_get_def admit_def Let_def notify_all_def remove_waiter_def release_start_def set_lease_def
        release_finish_def release_slot_def)
  with run stream_gate_bounded [OF _ _ _ run] show ?thesis by (intro exI [of _ ?es] exI [of _ ?g4]) simp
qed

text \<open>
  C24. The gate is fair: a waiter is admitted only when every waiter before it belongs to another
  principal, one that has reached its own limit. So the tasks of one principal are served in
  their order, and a principal below its limit is not overtaken.
\<close>
theorem stream_gate_fair:
  assumes "gate_step g (Resumed i Admitted) g'" "gate_ok g"
  shows "\<exists>before w after. fg_waiters g = before @ w # after \<and> w_id w = i
    \<and> fg_waiters g' = map (\<lambda>w. w\<lparr>w_awake := True\<rparr>) (before @ after)
    \<and> (\<forall>v \<in> set before. w_principal v \<noteq> w_principal w
         \<and> fg_principal_limit g \<le> int (length (busy_of g (w_principal v))))"
proof -
  obtain w :: waiter where i: "i = w_id w" and adm: "try_admit (w_id w) (w_principal w) g = (Admitted, g')"
    using assms(1) by (auto elim: gate_resumedE)
  obtain v where v: "first_eligible g = Some v" "w_id v = w_id w" and g': "g' = admit (w_id w) (w_principal w) g"
    using adm by (auto simp: try_admit_def split: option.splits if_splits)
  have d: "distinct (map w_id (fg_waiters g))" using assms(2) by (simp add: gate_ok_def bounds_ok_def)
  obtain bef aft where s: "fg_waiters g = bef @ v # aft" "below_limit g (w_principal v)"
      "\<forall>u \<in> set bef. \<not> below_limit g (w_principal u)"
    using v(1) find_Some_split [of "\<lambda>w. below_limit g (w_principal w)" "fg_waiters g" v]
    by (auto simp: first_eligible_def split: if_splits)
  have rest: "filter (\<lambda>u. w_id u \<noteq> w_id v) (bef @ aft) = bef @ aft"
    using d s(1) by (intro filter_True) (auto simp: image_iff)
  have "fg_waiters g' = map (\<lambda>w. w\<lparr>w_awake := True\<rparr>) (bef @ aft)"
    using rest s(1) v(2) by (simp add: g' admit_def Let_def notify_all_def remove_waiter_def)
  moreover have "w_principal u \<noteq> w_principal v \<and> fg_principal_limit g \<le> int (length (busy_of g (w_principal u)))"
    if "u \<in> set bef" for u
  proof -
    have "\<not> below_limit g (w_principal u)" using s(3) that by blast
    with s(2) assms(2) show ?thesis by (auto simp: below_limit_def gate_ok_def counts_ok_def)
  qed
  ultimately show ?thesis using s(1) v(2) i by blast
qed

text \<open>Two waiters of one principal and one of another, one place free: the first is served.\<close>

theorem stream_gate_fair_witness:
  "\<exists>g g'. gate_ok g \<and> gate_step g (Resumed 0 Admitted) g' \<and> map w_id (fg_waiters g) = [0, 1, 2]
     \<and> (\<exists>w. fg_waiters g = [] @ w # tl (fg_waiters g) \<and> w_id w = 0)"
proof -
  let ?g = "new_gate 1 1 5 \<lparr>fg_waiters := map (\<lambda>(i, p). \<lparr>w_id = i, w_principal = p, w_awake = True\<rparr>)
      [(0, [97]), (1, [97]), (2, [98])]\<rparr>"
  let ?g' = "admit 0 [97] ?g"
  have ok: "gate_ok ?g"
    by (simp add: gate_ok_def counts_ok_def bounds_ok_def no_lost_wakeup_def new_gate_def busy_def busy_of_def
        dict_wf_def active_of_def dict_get_def first_eligible_def below_limit_def)
  let ?w = "\<lparr>w_id = 0, w_principal = [97], w_awake = True\<rparr> :: waiter"
  have "?w \<in> set (fg_waiters ?g)" by simp
  moreover have "try_admit (w_id ?w) (w_principal ?w) ?g = (Admitted, ?g')"
    by (simp add: try_admit_def first_eligible_def below_limit_def active_of_def dict_get_def new_gate_def)
  ultimately have "gate_step ?g (Resumed (w_id ?w) Admitted) ?g'" using gate_step.gate_resume by fastforce
  then have step: "gate_step ?g (Resumed 0 Admitted) ?g'" by simp
  from stream_gate_fair [OF step ok] have "\<exists>bef w aft. fg_waiters ?g = bef @ w # aft \<and> w_id w = 0" by blast
  then have "\<exists>w. fg_waiters ?g = [] @ w # tl (fg_waiters ?g) \<and> w_id w = 0" by simp
  with ok step show ?thesis by (intro exI [of _ ?g] exI [of _ ?g']) simp
qed

text \<open>
  C25. No wakeup is lost: whenever a place is free for a waiter, the first such waiter has been
  notified since it last went to sleep, so it runs, and when it runs it is admitted.
\<close>
theorem stream_gate_wakes:
  assumes "0 \<le> gl" "0 \<le> pl" "0 \<le> mw" "gate_run (new_gate gl pl mw) es g"
    and "first_eligible g = Some w"
  shows "\<exists>g'. gate_step g (Resumed (w_id w) Admitted) g' \<and> fg_active g' = fg_active g + 1"
proof -
  have "gate_ok g" using assms(4) new_gate_ok [OF assms(1-3)] by (rule gate_run_ok)
  then have "w_awake w" using assms(5) by (simp add: gate_ok_def no_lost_wakeup_def)
  moreover have "w \<in> set (fg_waiters g)" using first_eligible_in [OF assms(5)] ..
  moreover have "try_admit (w_id w) (w_principal w) g = (Admitted, admit (w_id w) (w_principal w) g)"
    by (simp add: try_admit_def assms(5))
  ultimately show ?thesis by (auto intro: gate_step.gate_resume)
qed

theorem stream_gate_wakes_witness:
  "\<exists>es g w. gate_run (new_gate 1 1 5) es g \<and> first_eligible g = Some w \<and> w_id w = 1
     \<and> (\<exists>g'. gate_step g (Resumed 1 Admitted) g')"
proof -
  let ?g1 = "snd (acquire_start 0 [97] (new_gate 1 1 5))"
  let ?g2 = "snd (acquire_start 1 [98] ?g1)"
  let ?g3 = "release_start 0 ?g2"
  let ?g4 = "release_finish 0 ?g3"
  let ?es = "[Entered 0 [97] (fst (acquire_start 0 [97] (new_gate 1 1 5))), Entered 1 [98] (fst (acquire_start 1 [98] ?g1)),
    ReleaseStarted 0, ReleaseFinished 0]"
  note defs = new_gate_def acquire_start_def try_admit_def first_eligible_def below_limit_def active_of_def
    dict_get_def admit_def Let_def notify_all_def remove_waiter_def fall_asleep_def release_start_def set_lease_def
    release_finish_def release_slot_def
  have s1: "gate_step (new_gate 1 1 5) (Entered 0 [97] (fst (acquire_start 0 [97] (new_gate 1 1 5)))) ?g1"
    by (rule gate_step.gate_enter) (simp_all add: defs)
  have s2: "gate_step ?g1 (Entered 1 [98] (fst (acquire_start 1 [98] ?g1))) ?g2"
    by (rule gate_step.gate_enter) (simp_all add: defs)
  have run: "gate_run (new_gate 1 1 5) ?es ?g4"
    by (rule gate_run_more [OF s1 gate_run_more [OF s2 gate_run_more [OF gate_release
          gate_run_more [OF gate_released gate_run_none]]]])
  have e: "first_eligible ?g4 = Some \<lparr>w_id = 1, w_principal = [98], w_awake = True\<rparr>"
    by (simp add: defs dict_pop_def)
  from stream_gate_wakes [OF _ _ _ run e] have "\<exists>g'. gate_step ?g4 (Resumed 1 Admitted) g'" by auto
  with run e show ?thesis by (intro exI [of _ ?es] exI [of _ ?g4]) auto
qed

section \<open>A lost place\<close>

lemma set_lease_others:
  "(i, p, st) \<in> set (fg_leases g) \<Longrightarrow> i \<noteq> j \<Longrightarrow> (i, p, st) \<in> set (fg_leases (set_lease j st' g))"
  by (force simp: set_lease_def)

lemma lost_unreleased:
  assumes "(i, p, Lost) \<in> set (fg_leases g)" "distinct (map fst (fg_leases g))"
  shows "(i, p, Lost) \<in> set (fg_leases (release_start j g))"
    "(i, p, Lost) \<in> set (fg_leases (release_finish j g))"
    "(i, p, Lost) \<in> set (fg_leases (release_cancelled j g))"
  using assms set_lease_others [OF assms(1), of j] set_lease_others [of i p Lost "release_slot q g" j for q]
  by (cases "j = i"; auto simp: release_start_def release_finish_def release_cancelled_def
      split: option.splits lease_state.splits)+

lemma lost_stays:
  "gate_step g e g' \<Longrightarrow> (i, p, Lost) \<in> set (fg_leases g) \<Longrightarrow> distinct (map fst (fg_leases g)) \<Longrightarrow>
     (i, p, Lost) \<in> set (fg_leases g')"
  by (induction rule: gate_step.induct)
    (auto simp: acquire_start_def try_admit_def acquire_abort_def lost_unreleased split: if_splits option.splits)

text \<open>
  A cancellation between the flag and the lock loses a place for good: \<open>StreamLease.release\<close>
  marks the lease released before it waits for the gate's lock, so when the releasing task is
  cancelled there (as a task being shut down can be) a second \<open>release\<close> does nothing, and in
  every run from there on the lease keeps its place. On a gate for one stream no stream is ever
  admitted again.
\<close>
theorem cancelled_release_leaks:
  "\<exists>es g. gate_run (new_gate 1 1 5) es g \<and> fg_leases g = [(0, [97], Lost)]
     \<and> (\<nexists>es' g' w. gate_run g es' g' \<and> first_eligible g' = Some w)"
proof -
  let ?g1 = "snd (acquire_start 0 [97] (new_gate 1 1 5))"
  let ?g = "release_cancelled 0 (release_start 0 ?g1)"
  let ?es = "[Entered 0 [97] (fst (acquire_start 0 [97] (new_gate 1 1 5))), ReleaseStarted 0, ReleaseCancelled 0]"
  have s1: "gate_step (new_gate 1 1 5) (Entered 0 [97] (fst (acquire_start 0 [97] (new_gate 1 1 5)))) ?g1"
    by (rule gate_step.gate_enter) (simp_all add: new_gate_def)
  have run: "gate_run (new_gate 1 1 5) ?es ?g"
    by (rule gate_run_more [OF s1 gate_run_more [OF gate_release gate_run_more [OF gate_release_cancelled gate_run_none]]])
  have leases: "fg_leases ?g = [(0, [97], Lost)]"
    by (simp add: new_gate_def acquire_start_def try_admit_def first_eligible_def below_limit_def active_of_def
        dict_get_def admit_def Let_def notify_all_def remove_waiter_def release_start_def set_lease_def
        release_cancelled_def)
  have "first_eligible g' = None" if "gate_run ?g es' g'" for es' g'
  proof -
    have keep: "gate_run a us b \<Longrightarrow> gate_ok a \<Longrightarrow> (i, p, Lost) \<in> set (fg_leases a) \<Longrightarrow> (i, p, Lost) \<in> set (fg_leases b)"
      for a us b i p
      by (induction rule: gate_run.induct)
        (auto simp: gate_ok_def counts_ok_def dest: gate_step_ok lost_stays, metis counts_ok_def gate_ok_def gate_step_ok lost_stays)
    have ok: "gate_ok ?g" using gate_run_ok [OF run] new_gate_ok by simp
    then have "(0, [97], Lost) \<in> set (busy g')" using keep [OF that] leases by (simp add: busy_def)
    moreover have "counts_ok g'" using gate_run_ok [OF that ok] by (simp add: gate_ok_def)
    ultimately have "1 \<le> fg_active g'" by (cases "busy g'") (auto simp: counts_ok_def)
    moreover have "fg_global_limit g' = 1"
      using run_limits_same [OF that] run_limits_same [OF run] by (simp add: new_gate_def)
    ultimately show ?thesis by (simp add: first_eligible_def)
  qed
  then have "\<nexists>es' g' w. gate_run ?g es' g' \<and> first_eligible g' = Some w" by fastforce
  with run leases show ?thesis by blast
qed

end
