(* ===== verification/Py_Regex.thy ===== *)
theory Py_Regex
  imports Py_Text
begin

text \<open>
  Python's \<open>re\<close> for the patterns the modelled code compiles: a backtracking matcher. A match
  from a position is the list of all end positions in the order in which Python's engine would
  reach them, so the first element is the match it reports. The loop of a star tries another
  round only when the last one consumed something; no pattern here has a body that matches
  the empty text.
\<close>

section \<open>Patterns\<close>

datatype re =
    RSet "cp \<Rightarrow> bool"
  | REps
  | RSeq re re
  | RAlt re re
  | RStar re
  | RBound "cp \<Rightarrow> bool"    \<comment> \<open>\<open>\b\<close>, with the word characters\<close>
  | RStart
  | REnd                 \<comment> \<open>\<open>$\<close>: at the end, or before a line feed that ends the text\<close>

fun star_ends :: "nat \<Rightarrow> (nat \<Rightarrow> nat list) \<Rightarrow> nat \<Rightarrow> nat list" where
  "star_ends 0 f i = [i]"
| "star_ends (Suc n) f i = concat (map (star_ends n f) (filter (\<lambda>j. i < j) (f i))) @ [i]"

definition word_at :: "(cp \<Rightarrow> bool) \<Rightarrow> pystr \<Rightarrow> nat \<Rightarrow> bool" where
  "word_at w s i \<longleftrightarrow> i < length s \<and> w (s ! i)"

primrec re_ends :: "re \<Rightarrow> pystr \<Rightarrow> nat \<Rightarrow> nat list" where
  "re_ends (RSet p) s i = (if word_at p s i then [Suc i] else [])"
| "re_ends REps s i = [i]"
| "re_ends (RSeq a b) s i = concat (map (re_ends b s) (re_ends a s i))"
| "re_ends (RAlt a b) s i = re_ends a s i @ re_ends b s i"
| "re_ends (RStar a) s i = star_ends (length s - i) (re_ends a s) i"
| "re_ends (RBound w) s i =
     (if (0 < i \<and> word_at w s (i - 1)) = word_at w s i then [] else [i])"
| "re_ends RStart s i = (if i = 0 then [i] else [])"
| "re_ends REnd s i =
     (if i = length s \<or> (Suc i = length s \<and> s ! i = c_newline) then [i] else [])"

abbreviation ROpt :: "re \<Rightarrow> re" where "ROpt a \<equiv> RAlt a REps"
abbreviation RPlus :: "re \<Rightarrow> re" where "RPlus a \<equiv> RSeq a (RStar a)"

fun rseq :: "re list \<Rightarrow> re" where
  "rseq [] = REps"
| "rseq [a] = a"
| "rseq (a # as) = RSeq a (rseq as)"

fun ralt :: "re list \<Rightarrow> re" where
  "ralt [] = REps"
| "ralt [a] = a"
| "ralt (a # as) = RAlt a (ralt as)"

text \<open>
  A literal under \<open>re.IGNORECASE\<close>. A character of the text matches a letter when they have the
  same simple lower case; the two signs outside ASCII that Python's tables add for a letter of
  the patterns are the long s and the dotless i, and the Kelvin sign and the dotted I have
  ASCII lower cases.
\<close>

definition same_letter :: "cp \<Rightarrow> cp \<Rightarrow> bool" where
  "same_letter c x \<longleftrightarrow>
     (if x < 128 then lower_ascii x = lower_ascii c
      else (x, lower_ascii c) \<in> {(304, 105), (305, 105), (383, 115), (8490, 107)})"

definition rlit :: "string \<Rightarrow> re" where
  "rlit t = rseq (map (\<lambda>c. RSet (same_letter c)) (lit t))"

definition rwords :: "string list \<Rightarrow> re" where
  "rwords ts = ralt (map rlit ts)"

definition rchars :: "string \<Rightarrow> re" where
  "rchars t = RSet (\<lambda>x. List.member (lit t) x)"

definition py_isalnum :: "unidb \<Rightarrow> cp \<Rightarrow> bool" where
  "py_isalnum u c = (if c < 128 then is_alpha_ascii c \<or> is_digit_ascii c else u_alnum u c)"

definition py_isalpha :: "unidb \<Rightarrow> cp \<Rightarrow> bool" where
  "py_isalpha u c = (if c < 128 then is_alpha_ascii c else u_alpha u c)"

definition is_word :: "unidb \<Rightarrow> cp \<Rightarrow> bool" where
  "is_word u c \<longleftrightarrow> py_isalnum u c \<or> c = c_underscore"

abbreviation rbound :: "unidb \<Rightarrow> re" where "rbound u \<equiv> RBound (is_word u)"
abbreviation rspace :: "unidb \<Rightarrow> re" where "rspace u \<equiv> RSet (py_isspace u)"
abbreviation rdigit :: "unidb \<Rightarrow> re" where "rdigit u \<equiv> RSet (\<lambda>c. py_decimal u c \<noteq> None)"
abbreviation rdot :: re where "rdot \<equiv> RSet (\<lambda>c. c \<noteq> c_newline)"

text \<open>\<open>[\s\-]\<close>, and the same with an optional sign.\<close>

definition rgap :: "unidb \<Rightarrow> re" where
  "rgap u = RSet (\<lambda>c. py_isspace u c \<or> c = 45)"

section \<open>Searching\<close>

definition re_match_at :: "re \<Rightarrow> pystr \<Rightarrow> nat \<Rightarrow> nat option" where
  "re_match_at r s i = (case re_ends r s i of [] \<Rightarrow> None | j # _ \<Rightarrow> Some j)"

definition re_search :: "re \<Rightarrow> pystr \<Rightarrow> bool" where
  "re_search r s \<longleftrightarrow> list_ex (\<lambda>i. re_ends r s i \<noteq> []) [0..<Suc (length s)]"

text \<open>\<open>finditer\<close> from a position, as the start and the end of each match.\<close>

function re_finditer :: "re \<Rightarrow> pystr \<Rightarrow> nat \<Rightarrow> (nat \<times> nat) list" where
  "re_finditer r s i =
     (if length s < i then []
      else case re_match_at r s i of
             None \<Rightarrow> re_finditer r s (Suc i)
           | Some j \<Rightarrow> (i, j) # re_finditer r s (if i < j then j else Suc i))"
  by pat_completeness auto
termination
  by (relation "measure (\<lambda>(r, s, i). Suc (length s) - i)") auto

declare re_finditer.simps [simp del]

definition group_text :: "pystr \<Rightarrow> nat \<times> nat \<Rightarrow> pystr" where
  "group_text s m = take (snd m - fst m) (drop (fst m) s)"

text \<open>\<open>sub\<close>: the text between the matches, and the replacement for each match.\<close>

fun re_sub_from :: "pystr \<Rightarrow> pystr \<Rightarrow> nat \<Rightarrow> (nat \<times> nat) list \<Rightarrow> pystr" where
  "re_sub_from repl s i [] = drop i s"
| "re_sub_from repl s i ((a, b) # ms) = take (a - i) (drop i s) @ repl @ re_sub_from repl s b ms"

definition re_sub :: "re \<Rightarrow> pystr \<Rightarrow> pystr \<Rightarrow> pystr" where
  "re_sub r repl s = re_sub_from repl s 0 (re_finditer r s 0)"

section \<open>What the matcher is\<close>

lemma star_ends_sound:
  "(\<And>i j. j \<in> set (f i) \<Longrightarrow> P i j) \<Longrightarrow> (\<And>i. Q i i) \<Longrightarrow> (\<And>i j k. P i j \<Longrightarrow> Q j k \<Longrightarrow> Q i k) \<Longrightarrow>
     j \<in> set (star_ends n f i) \<Longrightarrow> Q i j"
proof (induction n arbitrary: i)
  case (Suc n)
  then show ?case by (auto, metis)
qed auto

text \<open>A match goes forward and stays in the text.\<close>

lemma re_ends_bounds: "j \<in> set (re_ends r s i) \<Longrightarrow> i \<le> length s \<Longrightarrow> i \<le> j \<and> j \<le> length s"
proof (induction r arbitrary: i j)
  case (RSeq a b)
  then show ?case by fastforce
next
  case (RStar a)
  have "i \<le> length s \<longrightarrow> i \<le> j \<and> j \<le> length s"
    by (rule star_ends_sound [where f = "re_ends a s" and P = "\<lambda>i j. i \<le> length s \<longrightarrow> i \<le> j \<and> j \<le> length s"
          and n = "length s - i"]) (use RStar in auto)
  with RStar.prems show ?case by simp
qed (auto simp: word_at_def split: if_splits)

text \<open>
  The language of a pattern, as a relation between positions: the matcher finds an end exactly
  when there is one. Python's order decides only which of them is reported.
\<close>

inductive re_rel :: "re \<Rightarrow> pystr \<Rightarrow> nat \<Rightarrow> nat \<Rightarrow> bool" where
  "word_at p s i \<Longrightarrow> re_rel (RSet p) s i (Suc i)"
| "re_rel REps s i i"
| "re_rel a s i j \<Longrightarrow> re_rel b s j k \<Longrightarrow> re_rel (RSeq a b) s i k"
| "re_rel a s i j \<Longrightarrow> re_rel (RAlt a b) s i j"
| "re_rel b s i j \<Longrightarrow> re_rel (RAlt a b) s i j"
| "re_rel (RStar a) s i i"
| "re_rel a s i j \<Longrightarrow> re_rel (RStar a) s j k \<Longrightarrow> re_rel (RStar a) s i k"
| "(0 < i \<and> word_at w s (i - 1)) \<noteq> word_at w s i \<Longrightarrow> re_rel (RBound w) s i i"
| "re_rel RStart s 0 0"
| "i = length s \<or> (Suc i = length s \<and> s ! i = c_newline) \<Longrightarrow> re_rel REnd s i i"

lemma re_ends_rel: "j \<in> set (re_ends r s i) \<Longrightarrow> re_rel r s i j"
proof (induction r arbitrary: i j)
  case (RStar a)
  show ?case
    by (rule star_ends_sound [where f = "re_ends a s" and P = "re_rel a s" and n = "length s - i"])
      (use RStar in \<open>auto intro: re_rel.intros\<close>)
next
  case (RSeq a b)
  from RSeq.prems obtain k where "k \<in> set (re_ends a s i)" "j \<in> set (re_ends b s k)" by auto
  with RSeq.IH show ?case by (blast intro: re_rel.intros(3))
qed (auto split: if_splits intro: re_rel.intros)

lemma star_ends_complete:
  assumes "\<And>i j. R i j \<Longrightarrow> i \<le> m \<Longrightarrow> i \<le> j \<and> j \<le> m \<and> j \<in> set (f i)"
  shows "R\<^sup>*\<^sup>* i k \<Longrightarrow> i \<le> m \<Longrightarrow> m - i \<le> n \<Longrightarrow> k \<in> set (star_ends n f i)"
proof (induction n arbitrary: i)
  case 0
  then have "i = m" by simp
  have "R\<^sup>*\<^sup>* i k \<Longrightarrow> i = m \<Longrightarrow> k = m"
    by (induction rule: rtranclp_induct) (use assms in force)+
  with 0 \<open>i = m\<close> show ?case by simp
next
  case (Suc n)
  have "k = i \<or> (\<exists>j. R i j \<and> i < j \<and> R\<^sup>*\<^sup>* j k)"
    using Suc.prems(1,2)
  proof (induction rule: converse_rtranclp_induct)
    case (step i j)
    then have "i \<le> j \<and> j \<le> m" using assms by blast
    with step show ?case by (cases "i = j") auto
  qed simp
  then show ?case
  proof
    assume "\<exists>j. R i j \<and> i < j \<and> R\<^sup>*\<^sup>* j k"
    then obtain j where j: "R i j" "i < j" "R\<^sup>*\<^sup>* j k" by blast
    then have m: "j \<le> m" "j \<in> set (f i)" using assms Suc.prems(2) by blast+
    have "k \<in> set (star_ends n f j)" using Suc.IH [OF j(3) m(1)] Suc.prems j(2) by simp
    with j(2) m(2) show ?thesis by auto
  qed simp
qed

lemma re_rel_star: "re_rel r s i k \<Longrightarrow> r = RStar a \<Longrightarrow> (re_rel a s)\<^sup>*\<^sup>* i k"
  by (induction rule: re_rel.induct) (auto intro: converse_rtranclp_into_rtranclp)

lemma re_ends_complete: "re_rel r s i j \<Longrightarrow> i \<le> length s \<Longrightarrow> j \<in> set (re_ends r s i)"
proof (induction r arbitrary: i j)
  case (RStar a)
  have "(re_rel a s)\<^sup>*\<^sup>* i j" using re_rel_star [OF RStar.prems(1) refl] .
  then show ?case
    using star_ends_complete [of "re_rel a s" "length s" "re_ends a s" i j "length s - i"]
      RStar.IH RStar.prems(2) re_ends_bounds [of _ a s] by (metis order_refl re_ends.simps(5))
next
  case (RSeq a b)
  from RSeq.prems(1) obtain k where "re_rel a s i k" "re_rel b s k j" by (cases rule: re_rel.cases) auto
  with RSeq.IH(1) [of i k] RSeq.IH(2) [of k j] re_ends_bounds [of k a s i] RSeq.prems(2)
  have "k \<in> set (re_ends a s i)" "j \<in> set (re_ends b s k)" by blast+
  then show ?case by auto
next
  case (RAlt a b)
  from RAlt.prems(1) show ?case by (cases rule: re_rel.cases) (use RAlt in auto)
qed (auto elim: re_rel.cases)

lemma re_ends_iff: "i \<le> length s \<Longrightarrow> j \<in> set (re_ends r s i) \<longleftrightarrow> re_rel r s i j"
  using re_ends_rel re_ends_complete by blast

text \<open>A search succeeds exactly when some part of the text is in the language of the pattern.\<close>

lemma re_search_iff: "re_search r s \<longleftrightarrow> (\<exists>i j. i \<le> length s \<and> re_rel r s i j)"
proof -
  have up: "set [0..<Suc (length s)] = {i. i \<le> length s}" by (auto simp del: upt_Suc)
  have ne: "xs \<noteq> [] \<longleftrightarrow> (\<exists>j. j \<in> set xs)" for xs :: "nat list" by (cases xs) auto
  have "re_search r s \<longleftrightarrow> (\<exists>i \<in> {i. i \<le> length s}. \<exists>j. j \<in> set (re_ends r s i))"
    unfolding re_search_def list_ex_iff up ne ..
  also have "\<dots> \<longleftrightarrow> (\<exists>i j. i \<le> length s \<and> re_rel r s i j)"
    by (auto simp: re_ends_iff)
  finally show ?thesis .
qed

end
