(* ===== verification/Quality_Tiers.thy ===== *)
theory Quality_Tiers
  imports Py_Regex Complex_Main
begin

text \<open>
  \<open>services/native/quality_tiers.py\<close>, and the search result it judges
  (\<open>repositories/protocols/download_client.py\<close>). A tier is its key, a string, because the keys
  come from settings and stored rows; a key that is no tier has rank zero.
\<close>

section \<open>A file that a peer offers\<close>

record search_result =
  sr_username :: pystr
  sr_filename :: pystr
  sr_parent_directory :: pystr
  sr_size :: int
  sr_extension :: pystr
  sr_bitrate :: "int option"
  sr_bit_depth :: "int option"
  sr_sample_rate :: "int option"
  sr_duration :: "rat option"
  sr_has_free_slot :: bool
  sr_upload_speed :: int
  sr_queue_length :: "int option"

text \<open>\<open>x or d\<close> for a number that may be missing: the default also stands for zero.\<close>

definition num_or :: "int option \<Rightarrow> int \<Rightarrow> int" where
  "num_or x d = (case x of None \<Rightarrow> d | Some n \<Rightarrow> if n = 0 then d else n)"

text \<open>\<open>min(xs, key=f)\<close> of a list that is not empty: the first of the least elements.\<close>

fun py_min_by :: "('a \<Rightarrow> 'b :: linorder) \<Rightarrow> 'a \<Rightarrow> 'a list \<Rightarrow> 'a" where
  "py_min_by f x [] = x"
| "py_min_by f x (y # ys) = py_min_by f (if f y < f x then y else x) ys"

lemma py_min_by_in: "py_min_by f x xs \<in> insert x (set xs)"
  by (induction f x xs rule: py_min_by.induct) auto

lemma py_min_by_least: "y \<in> insert x (set xs) \<Longrightarrow> f (py_min_by f x xs) \<le> f y"
proof (induction f x xs arbitrary: y rule: py_min_by.induct)
  case (2 f x z zs)
  have "f (py_min_by f x (z # zs)) \<le> f (if f z < f x then z else x)" using 2 by simp
  then have "f (py_min_by f x (z # zs)) \<le> f x" "f (py_min_by f x (z # zs)) \<le> f z"
    by (auto split: if_splits)
  moreover have "f (py_min_by f x (z # zs)) \<le> f y" if "y \<in> set zs" using 2 that by simp
  ultimately show ?case using 2(2) by auto
qed simp

section \<open>The tiers\<close>

definition TIER_KEYS :: "pystr list" where
  "TIER_KEYS = map lit [''lossless'', ''mp3_320'', ''mp3_256'', ''mp3_192'', ''low'']"

definition DEFAULT_QUALITY_MIN :: pystr where "DEFAULT_QUALITY_MIN = lit ''mp3_320''"
definition DEFAULT_QUALITY_MAX :: pystr where "DEFAULT_QUALITY_MAX = lit ''lossless''"

definition LOSSLESS_EXT :: "pystr list" where
  "LOSSLESS_EXT = map lit [''flac'', ''alac'', ''wav'', ''ape'', ''wv'']"

definition FLAC_MP3_EXT :: "pystr list" where
  "FLAC_MP3_EXT = map lit [''flac'', ''mp3'']"

definition AUDIO_EXT :: "pystr list" where
  "AUDIO_EXT = map lit [''flac'', ''mp3'', ''m4a'', ''m4b'', ''mp4'', ''ogg'', ''oga'', ''opus'', ''wav'']"

definition rank_table :: "(pystr, nat) odict" where
  "rank_table = zip (rev TIER_KEYS) [0..<length TIER_KEYS]"

definition is_tier :: "pystr \<Rightarrow> bool" where
  "is_tier key \<longleftrightarrow> dict_get rank_table key \<noteq> None"

definition tier_rank :: "pystr \<Rightarrow> nat" where
  "tier_rank key = (case dict_get rank_table key of None \<Rightarrow> 0 | Some r \<Rightarrow> r)"

text \<open>The part of a path after the last separator of either kind.\<close>

definition path_leaf :: "pystr \<Rightarrow> pystr" where
  "path_leaf s = rev (takeWhile (\<lambda>c. c \<noteq> c_slash \<and> c \<noteq> c_backslash) (rev s))"

text \<open>\<open>s.rpartition('.')\<close>, when there is a dot.\<close>

definition rpartition_dot :: "pystr \<Rightarrow> (pystr \<times> pystr) option" where
  "rpartition_dot s =
     (let ext = rev (takeWhile (\<lambda>c. c \<noteq> c_dot) (rev s))
      in if length ext < length s then Some (take (length s - length ext - 1) s, ext) else None)"

definition ext_from_filename :: "unidb \<Rightarrow> pystr \<Rightarrow> pystr" where
  "ext_from_filename u filename =
     (case rpartition_dot (path_leaf filename) of
        None \<Rightarrow> []
      | Some (stem, ext) \<Rightarrow> if stem \<noteq> [] then py_lower u ext else [])"

definition effective_extension :: "unidb \<Rightarrow> search_result \<Rightarrow> pystr" where
  "effective_extension u f =
     (if sr_extension f \<noteq> [] then py_lower u (sr_extension f)
      else ext_from_filename u (sr_filename f))"

definition tier_for :: "unidb \<Rightarrow> pystr \<Rightarrow> int option \<Rightarrow> pystr" where
  "tier_for u ext bitrate =
     (if List.member LOSSLESS_EXT (lstrip_by (\<lambda>c. c = c_dot) (py_lower u ext)) then lit ''lossless''
      else (let b = num_or bitrate 0
            in if 320 \<le> b then lit ''mp3_320''
               else if 256 \<le> b then lit ''mp3_256''
               else if 192 \<le> b then lit ''mp3_192'' else lit ''low''))"

definition file_tier :: "unidb \<Rightarrow> search_result \<Rightarrow> pystr" where
  "file_tier u f = tier_for u (effective_extension u f) (sr_bitrate f)"

definition candidate_tier :: "unidb \<Rightarrow> search_result list \<Rightarrow> pystr" where
  "candidate_tier u files =
     (case map (file_tier u) files of
        [] \<Rightarrow> lit ''low''
      | t # ts \<Rightarrow> py_min_by tier_rank t ts)"

definition is_flac_or_mp3 :: "unidb \<Rightarrow> search_result \<Rightarrow> bool" where
  "is_flac_or_mp3 u f = List.member FLAC_MP3_EXT (effective_extension u f)"

definition is_audio :: "unidb \<Rightarrow> search_result \<Rightarrow> bool" where
  "is_audio u f = List.member AUDIO_EXT (effective_extension u f)"

definition in_range :: "pystr \<Rightarrow> pystr \<Rightarrow> pystr \<Rightarrow> bool" where
  "in_range tier quality_min quality_max \<longleftrightarrow>
     tier_rank quality_min \<le> tier_rank tier \<and> tier_rank tier \<le> tier_rank quality_max"

definition should_acquire :: "pystr option \<Rightarrow> pystr \<Rightarrow> bool \<Rightarrow> bool" where
  "should_acquire held_tier quality_cutoff upgrade_allowed =
     (case held_tier of
        None \<Rightarrow> True
      | Some held \<Rightarrow> upgrade_allowed \<and> tier_rank held < tier_rank quality_cutoff)"

definition folder_hires_key :: "search_result list \<Rightarrow> int \<times> int" where
  "folder_hires_key files =
     (case files of
        [] \<Rightarrow> (16, 44100)
      | f # fs \<Rightarrow>
          (py_min_by (\<lambda>x. x) (num_or (sr_bit_depth f) 16) (map (\<lambda>g. num_or (sr_bit_depth g) 16) fs),
           py_min_by (\<lambda>x. x) (num_or (sr_sample_rate f) 44100) (map (\<lambda>g. num_or (sr_sample_rate g) 44100) fs)))"

section \<open>Lemmas on tiers\<close>

lemma rank_table_eq:
  "rank_table = [(lit ''low'', 0), (lit ''mp3_192'', 1), (lit ''mp3_256'', 2), (lit ''mp3_320'', 3), (lit ''lossless'', 4)]"
  by (simp add: rank_table_def TIER_KEYS_def upt_rec)

lemma tier_rank_simps [simp]:
  "tier_rank (lit ''low'') = 0" "tier_rank (lit ''mp3_192'') = 1" "tier_rank (lit ''mp3_256'') = 2"
  "tier_rank (lit ''mp3_320'') = 3" "tier_rank (lit ''lossless'') = 4"
  by (simp_all add: tier_rank_def rank_table_eq dict_get_def lit.simps)

lemma tier_for_cases:
  "tier_for u ext b \<in> set TIER_KEYS"
  by (simp add: tier_for_def TIER_KEYS_def Let_def)

lemma candidate_tier_worst:
  assumes "files \<noteq> []"
  shows "candidate_tier u files \<in> file_tier u ` set files"
    "f \<in> set files \<Longrightarrow> tier_rank (candidate_tier u files) \<le> tier_rank (file_tier u f)"
proof -
  obtain g gs where files: "files = g # gs" using assms by (cases files) auto
  have c: "candidate_tier u files = py_min_by tier_rank (file_tier u g) (map (file_tier u) gs)"
    by (simp add: candidate_tier_def files)
  have "candidate_tier u files \<in> insert (file_tier u g) (set (map (file_tier u) gs))"
    unfolding c by (rule py_min_by_in)
  then show "candidate_tier u files \<in> file_tier u ` set files" by (simp add: files)
  have "tier_rank (candidate_tier u files) \<le> tier_rank (file_tier u f)" if "f \<in> set files"
    unfolding c by (rule py_min_by_least) (use that files in auto)
  then show "f \<in> set files \<Longrightarrow> tier_rank (candidate_tier u files) \<le> tier_rank (file_tier u f)" .
qed

text \<open>A folder is in the range only when each of its files is at least at the lower end.\<close>

lemma folder_in_range:
  assumes "files \<noteq> []" "in_range (candidate_tier u files) lo hi" "f \<in> set files"
  shows "tier_rank lo \<le> tier_rank (file_tier u f)"
  using candidate_tier_worst(2) [OF assms(1,3)] assms(2) by (meson in_range_def order_trans)

end
