(* ===== verification/Title_Match.thy ===== *)
theory Title_Match
  imports Py_Regex Complex_Main
begin

text \<open>
  \<open>services/native/title_match.py\<close>: which album or track a release name names. The libraries
  \<open>rapidfuzz\<close> and \<open>unidecode\<close>, and the search for a pattern that a user wrote, are parameters,
  in a record beside the Unicode tables. A set of
  words is a list without repetitions; only membership, size and differences are used.
\<close>

section \<open>Parameters and small helpers\<close>

record matchlib =
  ml_unidb :: unidb
  ml_unidecode :: "pystr \<Rightarrow> pystr"
  ml_ratio :: "pystr \<Rightarrow> pystr \<Rightarrow> rat"            \<comment> \<open>\<open>fuzz.ratio\<close>, 0 to 100\<close>
  ml_token_set_ratio :: "pystr \<Rightarrow> pystr \<Rightarrow> rat"  \<comment> \<open>\<open>fuzz.token_set_ratio\<close>\<close>
  ml_search :: "pystr \<Rightarrow> pystr \<Rightarrow> bool option"   \<comment> \<open>\<open>re.search\<close> of a user's pattern, \<open>None\<close> for \<open>re.error\<close>\<close>

text \<open>The documented range of the two scores.\<close>

definition scores_ok :: "matchlib \<Rightarrow> bool" where
  "scores_ok ml \<longleftrightarrow>
     (\<forall>a b. 0 \<le> ml_ratio ml a b \<and> ml_ratio ml a b \<le> 100
          \<and> 0 \<le> ml_token_set_ratio ml a b \<and> ml_token_set_ratio ml a b \<le> 100)"

text \<open>\<open>s.split()\<close>: the maximal runs of characters that are no white space.\<close>

fun py_split_from :: "unidb \<Rightarrow> pystr \<Rightarrow> pystr \<Rightarrow> pystr list" where
  "py_split_from u word [] = (if word = [] then [] else [word])"
| "py_split_from u word (c # s) =
     (if py_isspace u c then (if word = [] then [] else [word]) @ py_split_from u [] s
      else py_split_from u (word @ [c]) s)"

definition py_split :: "unidb \<Rightarrow> pystr \<Rightarrow> pystr list" where
  "py_split u s = py_split_from u [] s"

definition all_alpha :: "unidb \<Rightarrow> pystr \<Rightarrow> bool" where
  "all_alpha u t \<longleftrightarrow> t \<noteq> [] \<and> list_all (py_isalpha u) t"

definition all_digit :: "unidb \<Rightarrow> pystr \<Rightarrow> bool" where
  "all_digit u t \<longleftrightarrow> t \<noteq> [] \<and> list_all (py_isdigit u) t"

section \<open>Patterns and word lists\<close>

text \<open>\<open>^\s*\[\d+\s*/\s*\d+\]\s*"?\<close>\<close>

definition PART_COUNTER_RE :: "unidb \<Rightarrow> re" where
  "PART_COUNTER_RE u =
     rseq [RStart, RStar (rspace u), rlit ''['', RPlus (rdigit u), RStar (rspace u), rlit ''/'',
           RStar (rspace u), RPlus (rdigit u), rlit '']'', RStar (rspace u), ROpt (RSet (\<lambda>c. c = c_dquote))]"

definition SEP_RE :: re where
  "SEP_RE = RSet (\<lambda>c. List.member
     [c_underscore, c_dot, 45, c_slash, c_lparen, c_rparen, c_lbracket, c_rbracket, c_lbrace, c_rbrace,
      43, c_comma, c_squote, c_dquote] c)"

text \<open>\<open>\s[(\[]?\b(feat|ft|featuring)\b\.?.*$\<close>\<close>

definition FEAT_RE :: "unidb \<Rightarrow> re" where
  "FEAT_RE u =
     rseq [rspace u, ROpt (rchars ''([''), rbound u, rwords [''feat'', ''ft'', ''featuring''], rbound u,
           ROpt (rlit ''.''), RStar rdot, REnd]"

definition CJK_RANGES :: "(nat \<times> nat) list" where
  "CJK_RANGES = [(19968, 40959), (12352, 12447), (12448, 12543), (13312, 19903)]"

definition has_cjk :: "pystr \<Rightarrow> bool" where
  "has_cjk text \<longleftrightarrow> list_ex (\<lambda>c. list_ex (\<lambda>(low, high). low \<le> c \<and> c \<le> high) CJK_RANGES) text"

definition fold_text :: "matchlib \<Rightarrow> pystr \<Rightarrow> pystr" where
  "fold_text ml t =
     (let low = py_lower (ml_unidb ml) (py_nfc (ml_unidb ml) t)
      in if has_cjk low then low else ml_unidecode ml low)"

definition strip_featuring :: "unidb \<Rightarrow> pystr \<Rightarrow> pystr" where
  "strip_featuring u t = py_strip u (re_sub (FEAT_RE u) [] t)"

definition BOUNDARY :: "pystr list" where
  "BOUNDARY = map lit
     [''web'', ''webrip'', ''cdrip'', ''eac'', ''cd'', ''cds'', ''lp'', ''ep'', ''vinyl'', ''sacd'', ''dvd'',
      ''dvda'', ''bd'', ''bluray'', ''cassette'', ''shmcd'', ''tape'', ''reel'', ''hdtracks'', ''qobuz'',
      ''tidal'', ''deezer'', ''bandcamp'',
      ''flac'', ''alac'', ''ape'', ''wav'', ''wavpack'', ''wv'', ''mp3'', ''aac'', ''ogg'', ''opus'', ''dsd'',
      ''dsf'', ''m4a'', ''aiff'', ''mqa'']"

definition EDITION :: "pystr list" where
  "EDITION = map lit
     [''remaster'', ''remastered'', ''deluxe'', ''edition'', ''anniversary'', ''expanded'', ''special'',
      ''limited'', ''collectors'', ''collector'', ''bonus'', ''reissue'', ''repack'', ''proper'', ''mono'',
      ''stereo'', ''original'', ''digipak'', ''version'', ''explicit'', ''clean'', ''extended'', ''standard'',
      ''promo'', ''disc'']"

definition SIDECAR :: "pystr list" where
  "SIDECAR = map lit
     [''log'', ''cue'', ''nfo'', ''sfv'', ''m3u'', ''m3u8'', ''jpg'', ''jpeg'', ''png'', ''txt'', ''pdf'', ''par'',
      ''par2'', ''rar'', ''zip'', ''sub'', ''covers'']"

definition STOP :: "pystr list" where
  "STOP = map lit
     [''the'', ''a'', ''an'', ''of'', ''and'', ''in'', ''on'', ''to'', ''for'', ''with'', ''at'', ''by'', ''from'',
      ''as'', ''is'', ''or'']"

section \<open>Words of a name\<close>

definition title_tokens :: "matchlib \<Rightarrow> pystr \<Rightarrow> pystr list" where
  "title_tokens ml t =
     (let u = ml_unidb ml;
          cleaned = strip_featuring u (fold_text ml (re_sub (PART_COUNTER_RE u) [] t))
      in py_split u (re_sub SEP_RE [c_space] cleaned))"

definition is_content_word :: "unidb \<Rightarrow> pystr list \<Rightarrow> pystr \<Rightarrow> bool" where
  "is_content_word u artist t \<longleftrightarrow>
     all_alpha u t \<and> 2 \<le> length t
     \<and> \<not> (List.member artist t \<or> List.member STOP t \<or> List.member EDITION t
          \<or> List.member BOUNDARY t \<or> List.member SIDECAR t)"

definition content_words :: "unidb \<Rightarrow> pystr list \<Rightarrow> pystr list \<Rightarrow> pystr list" where
  "content_words u tokens artist = remdups (filter (is_content_word u artist) tokens)"

definition is_boundary :: "unidb \<Rightarrow> pystr \<Rightarrow> bool" where
  "is_boundary u t \<longleftrightarrow> list_ex (py_isdigit u) t \<or> List.member BOUNDARY t"

definition album_region :: "unidb \<Rightarrow> pystr list \<Rightarrow> pystr list" where
  "album_region u tokens =
     (case tokens of [] \<Rightarrow> [] | t # ts \<Rightarrow> t # takeWhile (\<lambda>t. \<not> is_boundary u t) ts)"

definition artist_present :: "pystr list \<Rightarrow> pystr list \<Rightarrow> bool" where
  "artist_present tokens artist \<longleftrightarrow>
     artist \<noteq> [] \<and> max 1 ((length artist + 1) div 2) \<le> length (filter (List.member tokens) artist)"

text \<open>The alphabetic words of at least two letters, as a set.\<close>

definition name_words :: "matchlib \<Rightarrow> pystr \<Rightarrow> pystr list" where
  "name_words ml t =
     remdups (filter (\<lambda>t. all_alpha (ml_unidb ml) t \<and> 2 \<le> length t) (title_tokens ml t))"

section \<open>The judgements\<close>

definition near_word :: "matchlib \<Rightarrow> pystr list \<Rightarrow> pystr \<Rightarrow> bool" where
  "near_word ml words t \<longleftrightarrow> list_ex (\<lambda>c. 85 \<le> ml_ratio ml t c) words"

definition title_core :: "matchlib \<Rightarrow> pystr \<Rightarrow> pystr list" where
  "title_core ml t =
     (let u = ml_unidb ml
      in remdups (filter (\<lambda>t. 2 \<le> length t \<and> (all_alpha u t \<or> all_digit u t)
                             \<and> \<not> List.member STOP t \<and> \<not> List.member EDITION t) (title_tokens ml t)))"

definition title_extra :: "matchlib \<Rightarrow> pystr list \<Rightarrow> pystr list \<Rightarrow> pystr list \<Rightarrow> pystr list" where
  "title_extra ml core ignore cand_tokens =
     filter (\<lambda>t. all_alpha (ml_unidb ml) t \<and> 2 \<le> length t
        \<and> \<not> (List.member core t \<or> near_word ml core t) \<and> \<not> List.member ignore t
        \<and> \<not> List.member STOP t \<and> \<not> List.member EDITION t \<and> \<not> List.member BOUNDARY t
        \<and> \<not> List.member SIDECAR t) cand_tokens"

definition slashes :: "pystr \<Rightarrow> pystr" where
  "slashes s = py_replace s [c_backslash] [c_slash]"

definition title_containment_score :: "matchlib \<Rightarrow> pystr \<Rightarrow> pystr \<Rightarrow> pystr list \<Rightarrow> rat" where
  "title_containment_score ml expected candidate ignore =
     (let core = title_core ml expected
      in if core = []
         then ml_token_set_ratio ml (fold_text ml expected) (fold_text ml candidate) / 100
         else (let cand = remdups (title_tokens ml (slashes candidate));
                   covered = length (filter (\<lambda>t. List.member cand t \<or> near_word ml cand t) core);
                   coverage = of_nat covered / of_nat (length core);
                   extra = title_extra ml core ignore cand;
                   penalty = of_nat (length core) / of_nat (length core + length extra)
               in coverage * penalty))"

definition artist_evidence :: "matchlib \<Rightarrow> pystr \<Rightarrow> pystr \<Rightarrow> bool" where
  "artist_evidence ml artist_name candidate_path =
     (let named = name_words ml artist_name;
          words = filter (\<lambda>t. \<not> List.member STOP t) named
      in artist_present (title_tokens ml (slashes candidate_path)) (if words = [] then named else words))"

definition names_different_album :: "matchlib \<Rightarrow> pystr \<Rightarrow> pystr \<Rightarrow> pystr \<Rightarrow> bool" where
  "names_different_album ml album_title artist_name candidate_title =
     (let u = ml_unidb ml;
          artist = name_words ml artist_name;
          candidate = title_tokens ml candidate_title
      in artist_present candidate artist
         \<and> list_ex (\<lambda>t. \<not> List.member (content_words u (title_tokens ml album_title) artist) t)
             (content_words u (album_region u candidate) artist))"

section \<open>What the judgements say\<close>

lemma in_content_words:
  "t \<in> set (content_words u tokens artist) \<longleftrightarrow> t \<in> set tokens \<and> is_content_word u artist t"
  by (auto simp: content_words_def)

lemma set_album_region: "set (album_region u tokens) \<subseteq> set tokens"
  by (auto simp: album_region_def dest: set_takeWhileD split: list.splits)

lemma names_different_iff:
  "names_different_album ml album artist candidate \<longleftrightarrow>
     artist_present (title_tokens ml candidate) (name_words ml artist)
     \<and> (\<exists>t \<in> set (album_region (ml_unidb ml) (title_tokens ml candidate)).
          is_content_word (ml_unidb ml) (name_words ml artist) t \<and> t \<notin> set (title_tokens ml album))"
  by (auto simp: names_different_album_def Let_def list_ex_iff in_content_words)

lemma containment_bounds:
  assumes "scores_ok ml"
  shows "0 \<le> title_containment_score ml expected candidate ignore
    \<and> title_containment_score ml expected candidate ignore \<le> 1"
proof (cases "title_core ml expected = []")
  case True
  then show ?thesis using assms by (simp add: title_containment_score_def Let_def scores_ok_def)
next
  case False
  define core where "core = title_core ml expected"
  define cand where "cand = remdups (title_tokens ml (slashes candidate))"
  define covered where "covered = length (filter (\<lambda>t. List.member cand t \<or> near_word ml cand t) core)"
  define extra where "extra = title_extra ml core ignore cand"
  have n: "0 < length core" using False by (simp add: core_def)
  have a: "0 \<le> (of_nat covered / of_nat (length core) :: rat)" "(of_nat covered / of_nat (length core) :: rat) \<le> 1"
    using n by (simp_all add: covered_def)
  have b: "0 \<le> (of_nat (length core) / of_nat (length core + length extra) :: rat)"
    "(of_nat (length core) / of_nat (length core + length extra) :: rat) \<le> 1"
  proof -
    have pos: "0 < (of_nat (length core + length extra) :: rat)"
      unfolding of_nat_0_less_iff using n by simp
    show "(of_nat (length core) / of_nat (length core + length extra) :: rat) \<le> 1"
      unfolding divide_le_eq_1_pos [OF pos] by (simp only: of_nat_le_iff le_add1)
  qed simp
  have "title_containment_score ml expected candidate ignore
      = of_nat covered / of_nat (length core) * (of_nat (length core) / of_nat (length core + length extra))"
    using False unfolding title_containment_score_def Let_def core_def covered_def extra_def cand_def by simp
  then show ?thesis using a b mult_le_one [OF a(2) b] mult_nonneg_nonneg [OF a(1) b(1)] by simp
qed

end
