(* ===== verification/Acquisition.thy ===== *)
theory Acquisition
  imports Quality_Tiers Title_Match
begin

text \<open>
  \<open>services/native/acquisition\<close>: the decision whether a search result may be downloaded
  (\<open>decision.py\<close>, \<open>context.py\<close>, \<open>pipeline.py\<close>, one file of \<open>specs/\<close> each), and the status machine
  of a download task (\<open>status.py\<close>). The \<open>detail\<close> text of a rejection goes to the log only and
  is left out.
\<close>

section \<open>The vocabulary of decisions\<close>

datatype reject_code =
    Blocklisted | PasswordProtected | WrongEdition | WrongAlbum | Sample | IgnoredTerm
  | RequiredTermMissing | QualityRejected | NotAnUpgrade | MaxSizeExceeded | RetentionExceeded
  | TooYoung | InsufficientSpace

datatype disposition = Permanent | Temporary | LocalFault

datatype decision = Accept | Reject reject_code disposition

record candidate =
  cd_source :: pystr
  cd_identity :: pystr
  cd_match_text :: pystr
  cd_album_identity_text :: pystr
  cd_tier :: pystr
  cd_size_bytes :: int
  cd_usenet_date :: "rat option"
  cd_password :: int

definition default_candidate :: "pystr \<Rightarrow> candidate" where
  "default_candidate source =
     \<lparr>cd_source = source, cd_identity = [], cd_match_text = [], cd_album_identity_text = [],
      cd_tier = [], cd_size_bytes = 0, cd_usenet_date = None, cd_password = 0\<rparr>"

record spec_policy =
  sp_quality_min :: pystr
  sp_quality_max :: pystr
  sp_max_size_mb :: int
  sp_ignored_terms :: "pystr list"
  sp_required_terms :: "pystr list"
  sp_usenet_retention_days :: int
  sp_usenet_min_age_minutes :: int

definition default_policy :: spec_policy where
  "default_policy =
     \<lparr>sp_quality_min = lit ''mp3_320'', sp_quality_max = lit ''lossless'', sp_max_size_mb = 0,
      sp_ignored_terms = [], sp_required_terms = [], sp_usenet_retention_days = 0,
      sp_usenet_min_age_minutes = 0\<rparr>"

text \<open>\<open>models/download.py\<close>\<close>

record target_album =
  ta_artist_name :: pystr
  ta_album_title :: pystr
  ta_year :: "int option"
  ta_track_count :: "int option"
  ta_duration_seconds :: "rat option"
  ta_release_group_mbid :: "pystr option"

record decision_context =
  dx_quarantine_set :: "(pystr \<times> pystr) list"
  dx_now :: rat
  dx_free_bytes :: "int option"
  dx_held_tier :: "pystr option"

text \<open>
  \<open>build_context\<close> reads the store, the clock and the disk: \<open>free\<close> is \<open>None\<close> without a path, and
  \<open>Some None\<close> when reading the disk raises \<open>OSError\<close>.
\<close>

definition build_context ::
  "(pystr \<times> pystr) list \<Rightarrow> rat option \<Rightarrow> rat \<Rightarrow> int option option \<Rightarrow> pystr option \<Rightarrow> decision_context" where
  "build_context quarantined now clock free held =
     \<lparr>dx_quarantine_set = quarantined, dx_now = (case now of Some t \<Rightarrow> t | None \<Rightarrow> clock),
      dx_free_bytes = (case free of None \<Rightarrow> None | Some bytes \<Rightarrow> bytes), dx_held_tier = held\<rparr>"

section \<open>The specs\<close>

definition quarantine :: "candidate \<Rightarrow> decision_context \<Rightarrow> decision" where
  "quarantine c dx =
     (if cd_identity c \<noteq> [] \<and> List.member (dx_quarantine_set dx) (cd_source c, cd_identity c)
      then Reject Blocklisted Permanent else Accept)"

definition password :: "candidate \<Rightarrow> decision" where
  "password c = (if cd_password c \<noteq> 0 then Reject PasswordProtected Permanent else Accept)"

definition WRONG_EDITION_RE :: "unidb \<Rightarrow> re" where
  "WRONG_EDITION_RE u =
     rseq [rbound u,
       ralt [rlit ''live'', rlit ''bootleg'', rseq [rlit ''box'', ROpt (rgap u), rlit ''set''],
         rseq [rlit ''discograph'', ralt [rlit ''y'', rlit ''ie'']],
         rlit ''anthology'', rlit ''compilation'', rlit ''collection'', rlit ''definitive'',
         rseq [rlit ''greatest'', rgap u, rlit ''hits''], rseq [rlit ''best'', rgap u, rlit ''of''],
         rlit ''karaoke'', rlit ''tribute'', rlit ''instrumental'',
         rseq [rlit ''a'', ROpt (rgap u), rlit ''cappella''], rlit ''acapella'',
         rseq [rlit ''outtake'', ROpt (rlit ''s'')], rseq [rlit ''rehearsal'', ROpt (rlit ''s'')],
         rseq [rlit ''complete'', rgap u, ROpt (rseq [rlit ''studio'', rgap u]),
           ralt [rseq [rlit ''recording'', ROpt (rlit ''s'')], rlit ''works'', rlit ''albums'',
                 rlit ''collection'', rlit ''box'']]],
       rbound u]"

definition flat_text :: "pystr \<Rightarrow> pystr" where
  "flat_text t = py_replace t [c_underscore] [c_space]"

definition edition_term :: "unidb \<Rightarrow> pystr \<Rightarrow> pystr" where
  "edition_term u m = py_join [c_space] (py_split u (py_replace (py_lower u m) [45] [c_space]))"

definition wrong_edition :: "unidb \<Rightarrow> candidate \<Rightarrow> target_album \<Rightarrow> decision" where
  "wrong_edition u c t =
     (let title = flat_text (cd_match_text c);
          wanted = py_lower u (ta_album_title t @ [c_space] @ ta_artist_name t)
      in if list_ex (\<lambda>m. \<not> py_in (edition_term u (group_text title m)) wanted)
              (re_finditer (WRONG_EDITION_RE u) title 0)
         then Reject WrongEdition Permanent else Accept)"

definition wrong_album :: "matchlib \<Rightarrow> candidate \<Rightarrow> target_album \<Rightarrow> decision" where
  "wrong_album ml c t =
     (let match_text = (if cd_album_identity_text c \<noteq> [] then cd_album_identity_text c else cd_match_text c)
      in if names_different_album ml (ta_album_title t) (ta_artist_name t) match_text
         then Reject WrongAlbum Permanent else Accept)"

definition SAMPLE_RE :: "unidb \<Rightarrow> re" where
  "SAMPLE_RE u = rseq [rbound u, rlit ''sample'', rbound u]"

definition SAMPLE_RATE_RE :: "unidb \<Rightarrow> re" where
  "SAMPLE_RATE_RE u = rseq [rbound u, rlit ''sample'', ROpt (rgap u), rlit ''rate'', rbound u]"

definition sample :: "unidb \<Rightarrow> candidate \<Rightarrow> target_album \<Rightarrow> decision" where
  "sample u c t =
     (let text = re_sub (SAMPLE_RATE_RE u) [c_space] (flat_text (cd_match_text c))
      in if \<not> re_search (SAMPLE_RE u) text then Accept
         else if re_search (SAMPLE_RE u) (ta_album_title t) then Accept
         else Reject Sample Permanent)"

definition term_matches :: "matchlib \<Rightarrow> pystr \<Rightarrow> pystr \<Rightarrow> bool" where
  "term_matches ml text word =
     (if 2 \<le> length word \<and> py_startswith word [c_slash] \<and> py_endswith word [c_slash]
      then (case ml_search ml (butlast (tl word)) text of None \<Rightarrow> False | Some b \<Rightarrow> b)
      else py_in (py_lower (ml_unidb ml) word) (py_lower (ml_unidb ml) text))"

definition ignored_terms :: "matchlib \<Rightarrow> candidate \<Rightarrow> spec_policy \<Rightarrow> decision" where
  "ignored_terms ml c p =
     (if list_ex (\<lambda>w. w \<noteq> [] \<and> term_matches ml (cd_match_text c) w) (sp_ignored_terms p)
      then Reject IgnoredTerm Permanent else Accept)"

definition required_terms :: "matchlib \<Rightarrow> candidate \<Rightarrow> spec_policy \<Rightarrow> decision" where
  "required_terms ml c p =
     (let terms = filter (\<lambda>w. w \<noteq> []) (sp_required_terms p)
      in if terms = [] then Accept
         else if list_ex (term_matches ml (cd_match_text c)) terms then Accept
         else Reject RequiredTermMissing Permanent)"

definition quality_range :: "candidate \<Rightarrow> spec_policy \<Rightarrow> decision" where
  "quality_range c p =
     (if cd_tier c = lit ''unknown'' then Accept
      else if in_range (cd_tier c) (sp_quality_min p) (sp_quality_max p) then Accept
      else Reject QualityRejected Permanent)"

definition upgrade_floor :: "candidate \<Rightarrow> decision_context \<Rightarrow> decision" where
  "upgrade_floor c dx =
     (case dx_held_tier dx of
        None \<Rightarrow> Accept
      | Some held \<Rightarrow>
          if \<not> is_tier (cd_tier c) then Accept
          else if tier_rank held < tier_rank (cd_tier c) then Accept
          else Reject NotAnUpgrade Permanent)"

definition max_size :: "candidate \<Rightarrow> spec_policy \<Rightarrow> decision" where
  "max_size c p =
     (if sp_max_size_mb p \<le> 0 \<or> cd_size_bytes c = 0 then Accept
      else if sp_max_size_mb p * (1024 * 1024) < cd_size_bytes c then Reject MaxSizeExceeded Permanent
      else Accept)"

definition retention :: "candidate \<Rightarrow> decision_context \<Rightarrow> spec_policy \<Rightarrow> decision" where
  "retention c dx p =
     (case cd_usenet_date c of
        None \<Rightarrow> Accept
      | Some posted \<Rightarrow>
          if sp_usenet_retention_days p \<le> 0 \<or> dx_now dx = 0 then Accept
          else if of_int (sp_usenet_retention_days p) < (dx_now dx - posted) / 86400
          then Reject RetentionExceeded Permanent else Accept)"

definition min_age :: "candidate \<Rightarrow> decision_context \<Rightarrow> spec_policy \<Rightarrow> decision" where
  "min_age c dx p =
     (case cd_usenet_date c of
        None \<Rightarrow> Accept
      | Some posted \<Rightarrow>
          if sp_usenet_min_age_minutes p \<le> 0 \<or> dx_now dx = 0 then Accept
          else if (dx_now dx - posted) / 60 < of_int (sp_usenet_min_age_minutes p)
          then Reject TooYoung Temporary else Accept)"

definition MIN_FREE_MARGIN :: int where "MIN_FREE_MARGIN = 100 * 1024 * 1024"

definition free_space :: "candidate \<Rightarrow> decision_context \<Rightarrow> decision" where
  "free_space c dx =
     (case dx_free_bytes dx of
        None \<Rightarrow> Accept
      | Some free \<Rightarrow>
          if free - cd_size_bytes c < MIN_FREE_MARGIN then Reject InsufficientSpace LocalFault else Accept)"

section \<open>The pipeline\<close>

definition SPECS :: "matchlib \<Rightarrow> (candidate \<Rightarrow> target_album \<Rightarrow> decision_context \<Rightarrow> spec_policy \<Rightarrow> decision) list" where
  "SPECS ml =
     [\<lambda>c t dx p. quarantine c dx, \<lambda>c t dx p. password c,
      \<lambda>c t dx p. wrong_edition (ml_unidb ml) c t, \<lambda>c t dx p. wrong_album ml c t,
      \<lambda>c t dx p. sample (ml_unidb ml) c t, \<lambda>c t dx p. ignored_terms ml c p,
      \<lambda>c t dx p. required_terms ml c p, \<lambda>c t dx p. quality_range c p,
      \<lambda>c t dx p. upgrade_floor c dx, \<lambda>c t dx p. max_size c p,
      \<lambda>c t dx p. retention c dx p, \<lambda>c t dx p. min_age c dx p, \<lambda>c t dx p. free_space c dx]"

fun run_specs ::
  "(candidate \<Rightarrow> target_album \<Rightarrow> decision_context \<Rightarrow> spec_policy \<Rightarrow> decision) list
     \<Rightarrow> candidate \<Rightarrow> target_album \<Rightarrow> decision_context \<Rightarrow> spec_policy \<Rightarrow> decision" where
  "run_specs [] c t dx p = Accept"
| "run_specs (spec # specs) c t dx p =
     (case spec c t dx p of Accept \<Rightarrow> run_specs specs c t dx p | Reject code d \<Rightarrow> Reject code d)"

definition run_pipeline ::
  "matchlib \<Rightarrow> candidate \<Rightarrow> target_album \<Rightarrow> decision_context \<Rightarrow> spec_policy \<Rightarrow> decision" where
  "run_pipeline ml c t dx p = run_specs (SPECS ml) c t dx p"

section \<open>The status of a download task\<close>

datatype download_status =
    Queued | Downloading | Processing | Completed | Partial | Failed | Cancelled
  | Retrying | AwaitingReview

definition status_text :: "download_status \<Rightarrow> pystr" where
  "status_text st =
     (case st of
        Queued \<Rightarrow> lit ''queued'' | Downloading \<Rightarrow> lit ''downloading'' | Processing \<Rightarrow> lit ''processing''
      | Completed \<Rightarrow> lit ''completed'' | Partial \<Rightarrow> lit ''partial'' | Failed \<Rightarrow> lit ''failed''
      | Cancelled \<Rightarrow> lit ''cancelled'' | Retrying \<Rightarrow> lit ''retrying'' | AwaitingReview \<Rightarrow> lit ''awaiting_review'')"

definition PERSISTED :: "download_status list" where
  "PERSISTED = [Queued, Downloading, Processing, Completed, Partial, Failed, Cancelled]"

definition TERMINAL :: "download_status list" where
  "TERMINAL = [Completed, Partial, Failed, Cancelled]"

text \<open>Membership by the wire string, as the members of a \<open>StrEnum\<close> compare.\<close>

definition is_terminal :: "pystr \<Rightarrow> bool" where
  "is_terminal s \<longleftrightarrow> List.member (map status_text TERMINAL) s"

fun LEGAL_TRANSITIONS :: "download_status \<Rightarrow> download_status list" where
  "LEGAL_TRANSITIONS Queued = [Downloading, AwaitingReview, Failed, Cancelled]"
| "LEGAL_TRANSITIONS Downloading = [Processing, Retrying, Failed, Cancelled]"
| "LEGAL_TRANSITIONS Processing = [Completed, Partial, Retrying, Failed, Cancelled]"
| "LEGAL_TRANSITIONS Retrying = [Downloading, Processing, Failed, Cancelled]"
| "LEGAL_TRANSITIONS AwaitingReview = [Downloading, Failed, Cancelled]"
| "LEGAL_TRANSITIONS _ = []"

definition can_transition :: "download_status \<Rightarrow> download_status \<Rightarrow> bool" where
  "can_transition a b \<longleftrightarrow> List.member (LEGAL_TRANSITIONS a) b"

section \<open>What the pipeline decides\<close>

text \<open>The conditions under which a candidate is acceptable, one for each spec.\<close>

definition fits_album :: "matchlib \<Rightarrow> candidate \<Rightarrow> target_album \<Rightarrow> bool" where
  "fits_album ml c t \<longleftrightarrow>
     wrong_edition (ml_unidb ml) c t = Accept \<and> wrong_album ml c t = Accept \<and> sample (ml_unidb ml) c t = Accept"

definition fits_terms :: "matchlib \<Rightarrow> candidate \<Rightarrow> spec_policy \<Rightarrow> bool" where
  "fits_terms ml c p \<longleftrightarrow>
     (\<forall>w \<in> set (sp_ignored_terms p). w = [] \<or> \<not> term_matches ml (cd_match_text c) w)
     \<and> ((\<forall>w \<in> set (sp_required_terms p). w = [])
        \<or> (\<exists>w \<in> set (sp_required_terms p). w \<noteq> [] \<and> term_matches ml (cd_match_text c) w))"

definition fits_quality :: "candidate \<Rightarrow> decision_context \<Rightarrow> spec_policy \<Rightarrow> bool" where
  "fits_quality c dx p \<longleftrightarrow>
     (cd_tier c = lit ''unknown'' \<or> in_range (cd_tier c) (sp_quality_min p) (sp_quality_max p))
     \<and> (case dx_held_tier dx of None \<Rightarrow> True
         | Some held \<Rightarrow> is_tier (cd_tier c) \<longrightarrow> tier_rank held < tier_rank (cd_tier c))"

text \<open>The age in seconds is within the window that the policy sets, each bound only when it is on.\<close>

definition fits_age :: "candidate \<Rightarrow> decision_context \<Rightarrow> spec_policy \<Rightarrow> bool" where
  "fits_age c dx p \<longleftrightarrow>
     (case cd_usenet_date c of
        None \<Rightarrow> True
      | Some posted \<Rightarrow> dx_now dx = 0
          \<or> (let age = dx_now dx - posted
             in (0 < sp_usenet_retention_days p \<longrightarrow> age \<le> of_int (sp_usenet_retention_days p) * 86400)
              \<and> (0 < sp_usenet_min_age_minutes p \<longrightarrow> of_int (sp_usenet_min_age_minutes p) * 60 \<le> age)))"

definition fits_size :: "candidate \<Rightarrow> decision_context \<Rightarrow> spec_policy \<Rightarrow> bool" where
  "fits_size c dx p \<longleftrightarrow>
     (0 < sp_max_size_mb p \<longrightarrow> cd_size_bytes c \<le> sp_max_size_mb p * (1024 * 1024) \<or> cd_size_bytes c = 0)
     \<and> (case dx_free_bytes dx of None \<Rightarrow> True | Some free \<Rightarrow> cd_size_bytes c + MIN_FREE_MARGIN \<le> free)"

definition acceptable ::
  "matchlib \<Rightarrow> candidate \<Rightarrow> target_album \<Rightarrow> decision_context \<Rightarrow> spec_policy \<Rightarrow> bool" where
  "acceptable ml c t dx p \<longleftrightarrow>
     (cd_identity c = [] \<or> (cd_source c, cd_identity c) \<notin> set (dx_quarantine_set dx))
     \<and> cd_password c = 0 \<and> fits_album ml c t \<and> fits_terms ml c p \<and> fits_quality c dx p
     \<and> fits_size c dx p \<and> fits_age c dx p"

lemma run_specs_accept: "run_specs specs c t dx p = Accept \<longleftrightarrow> (\<forall>spec \<in> set specs. spec c t dx p = Accept)"
  by (induction specs c t dx p rule: run_specs.induct) (auto split: decision.splits)

lemma SPECS_accept:
  "run_pipeline ml c t dx p = Accept \<longleftrightarrow>
     quarantine c dx = Accept \<and> password c = Accept \<and> fits_album ml c t
     \<and> ignored_terms ml c p = Accept \<and> required_terms ml c p = Accept
     \<and> quality_range c p = Accept \<and> upgrade_floor c dx = Accept \<and> max_size c p = Accept
     \<and> retention c dx p = Accept \<and> min_age c dx p = Accept \<and> free_space c dx = Accept"
  unfolding run_pipeline_def run_specs_accept SPECS_def fits_album_def by simp

lemma terms_accept:
  "ignored_terms ml c p = Accept \<and> required_terms ml c p = Accept \<longleftrightarrow> fits_terms ml c p"
  by (auto simp: ignored_terms_def required_terms_def fits_terms_def list_ex_iff Let_def filter_empty_conv)

lemma quality_accept:
  "quality_range c p = Accept \<and> upgrade_floor c dx = Accept \<longleftrightarrow> fits_quality c dx p"
  by (auto simp: quality_range_def upgrade_floor_def fits_quality_def split: option.splits)

lemma size_accept:
  "max_size c p = Accept \<and> free_space c dx = Accept \<longleftrightarrow> fits_size c dx p"
  by (auto simp: max_size_def free_space_def fits_size_def split: option.splits)

lemma age_accept:
  "retention c dx p = Accept \<and> min_age c dx p = Accept \<longleftrightarrow> fits_age c dx p"
  by (auto simp: retention_def min_age_def fits_age_def Let_def divide_less_eq less_divide_eq not_less
      split: option.splits)

lemma pipeline_is_acceptable:
  "(run_pipeline ml c t dx p = Accept) = acceptable ml c t dx p"
proof -
  have "quarantine c dx = Accept \<longleftrightarrow> cd_identity c = [] \<or> (cd_source c, cd_identity c) \<notin> set (dx_quarantine_set dx)"
    by (auto simp: quarantine_def)
  moreover have "password c = Accept \<longleftrightarrow> cd_password c = 0" by (simp add: password_def)
  ultimately show ?thesis
    unfolding SPECS_accept acceptable_def
    using terms_accept [of ml c p] quality_accept [of c p dx] size_accept [of c p dx] age_accept [of c dx p] by blast
qed

text \<open>
  The pipeline accepts exactly the acceptable candidates: not on the blocklist, without a
  password, naming the wanted album and edition and no sample, matching no ignored term and,
  when there are required ones, one of them, of a tier in the policy's range that beats the
  held one, within the size cap and the free space, and of an age in the policy's window.
\<close>
theorem pipeline_accepts_acceptable:
  "(run_pipeline ml c t dx p = Accept) = acceptable ml c t dx p"
  by (rule pipeline_is_acceptable)

text \<open>Only the age of a release is a temporary fault.\<close>

lemma never_temporary [simp]:
  "quarantine c dx \<noteq> Reject code Temporary" "password c \<noteq> Reject code Temporary"
  "wrong_edition u c t \<noteq> Reject code Temporary" "wrong_album ml c t \<noteq> Reject code Temporary"
  "sample u c t \<noteq> Reject code Temporary" "ignored_terms ml c p \<noteq> Reject code Temporary"
  "required_terms ml c p \<noteq> Reject code Temporary" "quality_range c p \<noteq> Reject code Temporary"
  "upgrade_floor c dx \<noteq> Reject code Temporary" "max_size c p \<noteq> Reject code Temporary"
  "retention c dx p \<noteq> Reject code Temporary" "free_space c dx \<noteq> Reject code Temporary"
  by (simp_all add: quarantine_def password_def wrong_edition_def wrong_album_def sample_def ignored_terms_def
      required_terms_def quality_range_def upgrade_floor_def max_size_def retention_def free_space_def
      Let_def split: option.splits)

lemma min_age_temporary: "min_age c dx p = Reject code d \<Longrightarrow> code = TooYoung \<and> d = Temporary"
  by (auto simp: min_age_def split: option.splits if_splits)

lemma temporary_rejection:
  "run_pipeline ml c t dx p = Reject code Temporary \<Longrightarrow>
     code = TooYoung \<and> quarantine c dx = Accept \<and> password c = Accept \<and> fits_album ml c t
     \<and> ignored_terms ml c p = Accept \<and> required_terms ml c p = Accept
     \<and> quality_range c p = Accept \<and> upgrade_floor c dx = Accept \<and> max_size c p = Accept"
  by (auto simp: run_pipeline_def SPECS_def fits_album_def dest: min_age_temporary split: decision.splits)

text \<open>
  A temporary rejection resolves: a release that was rejected because it is too young is
  accepted by every later run in which it has reached the minimum age and is still within the
  retention, when the disk has room for it and the rest of the context is unchanged. No other
  rejection is temporary, and only a full disk is a local fault.
\<close>
theorem temporary_rejection_resolves:
  assumes rejected: "run_pipeline ml c t dx p = Reject code d" "d = Temporary"
    and later: "dx' = dx\<lparr>dx_now := now, dx_free_bytes := free\<rparr>" "cd_usenet_date c = Some posted"
    and aged: "of_int (sp_usenet_min_age_minutes p) * 60 \<le> now - posted"
    and kept: "sp_usenet_retention_days p \<le> 0 \<or> now - posted \<le> of_int (sp_usenet_retention_days p) * 86400"
    and room: "free_space c dx' = Accept"
  shows "code = TooYoung \<and> run_pipeline ml c t dx' p = Accept"
proof -
  note before = temporary_rejection [OF rejected(1) [unfolded rejected(2)]]
  have "fits_age c dx' p" using later aged kept by (auto simp: fits_age_def Let_def)
  then have "retention c dx' p = Accept \<and> min_age c dx' p = Accept" by (simp only: age_accept)
  moreover have "quarantine c dx' = quarantine c dx" "upgrade_floor c dx' = upgrade_floor c dx"
    by (simp_all add: later(1) quarantine_def upgrade_floor_def)
  ultimately show ?thesis using before room by (simp add: SPECS_accept)
qed

text \<open>An instance of the parameters, and a candidate without a name, for concrete runs.\<close>

definition plain_lib :: matchlib where
  "plain_lib = \<lparr>ml_unidb = ascii_db, ml_unidecode = (\<lambda>s. s), ml_ratio = (\<lambda>_ _. 0),
      ml_token_set_ratio = (\<lambda>_ _. 0), ml_search = (\<lambda>_ _. None)\<rparr>"

definition plain_album :: target_album where
  "plain_album = \<lparr>ta_artist_name = [], ta_album_title = [], ta_year = None, ta_track_count = None,
     ta_duration_seconds = None, ta_release_group_mbid = None\<rparr>"

lemma bound_empty: "re_ends (rseq (rbound w # r # rs)) [] 0 = []"
  by (simp add: word_at_def)

lemma empty_text_fits:
  assumes "cd_match_text c = []"
  shows "wrong_edition u c t = Accept" "sample u c t = Accept"
  using assms
  by (simp_all add: wrong_edition_def sample_def Let_def flat_text_def WRONG_EDITION_RE_def SAMPLE_RE_def
      SAMPLE_RATE_RE_def re_sub_def re_finditer.simps re_match_at_def re_search_def bound_empty py_replace_def
      replace_from.simps del: rseq.simps)

lemma plain_album_fits: "wrong_album plain_lib c plain_album = Accept"
proof -
  have "name_words plain_lib [] = []"
    by (simp add: name_words_def title_tokens_def Let_def fold_text_def strip_featuring_def PART_COUNTER_RE_def
        FEAT_RE_def SEP_RE_def re_sub_def re_finditer.simps re_match_at_def word_at_def py_split_def plain_lib_def
        py_lower_def py_nfc_def is_ascii_def has_cjk_def strip_by_def lstrip_by_def rstrip_by_def rlit_def lit.simps)
  then show ?thesis
    by (simp add: wrong_album_def names_different_album_def artist_present_def Let_def plain_album_def)
qed

theorem temporary_rejection_resolves_witness:
  "\<exists>ml c t dx p. run_pipeline ml c t dx p = Reject TooYoung Temporary
     \<and> run_pipeline ml c t (dx\<lparr>dx_now := 7200, dx_free_bytes := None\<rparr>) p = Accept"
proof -
  let ?c = "(default_candidate (lit ''usenet''))\<lparr>cd_tier := lit ''lossless'', cd_usenet_date := Some 1\<rparr>"
  let ?dx = "build_context [] None 60 None None"
  let ?p = "default_policy\<lparr>sp_usenet_min_age_minutes := 30\<rparr>"
  have "cd_match_text ?c = []" by (simp add: default_candidate_def)
  note fits = empty_text_fits [OF this] plain_album_fits [of ?c]
  have r: "run_pipeline plain_lib ?c plain_album ?dx ?p = Reject TooYoung Temporary"
    using fits
    by (simp add: run_pipeline_def SPECS_def quarantine_def password_def ignored_terms_def required_terms_def
        quality_range_def in_range_def upgrade_floor_def max_size_def retention_def min_age_def
        default_candidate_def default_policy_def build_context_def)
  from temporary_rejection_resolves [OF r refl refl, where now = 7200 and free = None and posted = 1]
  have "run_pipeline plain_lib ?c plain_album (?dx\<lparr>dx_now := 7200, dx_free_bytes := None\<rparr>) ?p = Accept"
    by (simp add: default_candidate_def default_policy_def free_space_def)
  with r show ?thesis by blast
qed

end
