(* ===== verification/Release_Scorer.thy ===== *)
theory Release_Scorer
  imports Acquisition "HOL-Library.List_Lexorder"
begin

text \<open>
  \<open>services/native/newznab_release_scorer.py\<close>: which Usenet releases may be downloaded, and in
  which order. Scores are rational numbers; the counters that \<open>rank\<close> keeps for its log line are
  left out. With it the identity keys of \<open>models/download_identity.py\<close> and the scored
  candidate of \<open>models/download.py\<close>, which the Soulseek scorers share.
\<close>

section \<open>Releases and candidates\<close>

record usenet_release =
  ur_indexer_id :: pystr
  ur_indexer_name :: pystr
  ur_guid :: pystr
  ur_title :: pystr
  ur_nzb_url :: pystr
  ur_size_bytes :: int
  ur_category_ids :: "int list"
  ur_grabs :: "int option"
  ur_files :: "int option"
  ur_usenet_date :: "rat option"
  ur_password :: int

record scored_candidate =
  sc_source :: pystr
  sc_username :: pystr
  sc_parent_directory :: pystr
  sc_files :: "search_result list"
  sc_usenet_release :: "usenet_release option"
  sc_coherence :: rat
  sc_file_confidence :: rat
  sc_final_score :: rat
  sc_tier :: pystr
  sc_candidate_index :: "nat option"

definition UNIT_SEPARATOR :: cp where "UNIT_SEPARATOR = 31"

definition soulseek_identity :: "pystr \<Rightarrow> pystr \<Rightarrow> pystr" where
  "soulseek_identity username filename = username @ [UNIT_SEPARATOR] @ filename"

definition usenet_identity :: "unidb \<Rightarrow> pystr \<Rightarrow> int \<Rightarrow> pystr" where
  "usenet_identity u title size_bytes =
     re_sub (RPlus (rspace u)) [c_space] (py_lower u (py_strip u title))
     @ [UNIT_SEPARATOR] @ py_str_int (size_bytes div (1024 * 1024))"

text \<open>\<open>xs.sort(key=f, reverse=True)\<close>: descending, and equal elements stay in their order.\<close>

definition py_sort_desc :: "('a \<Rightarrow> 'b :: linorder) \<Rightarrow> 'a list \<Rightarrow> 'a list" where
  "py_sort_desc f xs = rev (sort_key f (rev xs))"

lemma set_sort_desc [simp]: "set (py_sort_desc f xs) = set xs"
  by (simp add: py_sort_desc_def)

lemma length_sort_desc [simp]: "length (py_sort_desc f xs) = length xs"
  by (simp add: py_sort_desc_def)

lemma sort_desc_sorted: "sorted_wrt (\<lambda>x y. f y \<le> f x) (py_sort_desc f xs)"
proof -
  have "sorted_wrt (\<lambda>x y. f x \<le> f y) (sort_key f (rev xs))"
    using sorted_sort_key [of f "rev xs"] by (simp add: sorted_wrt_map)
  then show ?thesis by (simp add: py_sort_desc_def sorted_wrt_rev)
qed

lemma sort_desc_stable: "filter (\<lambda>x. f x = k) (py_sort_desc f xs) = filter (\<lambda>x. f x = k) xs"
  by (simp add: py_sort_desc_def rev_filter [symmetric] sort_key_stable)

text \<open>\<open>round(x, 4)\<close>: to the nearest, and to the even one of two.\<close>

definition round4 :: "rat \<Rightarrow> rat" where
  "round4 x =
     (let y = x * 10000; n = \<lfloor>y\<rfloor>; d = y - of_int n
      in of_int (if d < 1 / 2 \<or> (d = 1 / 2 \<and> even n) then n else n + 1) / 10000)"

section \<open>The quality of a release\<close>

definition CAT_LOSSLESS :: int where "CAT_LOSSLESS = 3040"
definition CAT_MP3 :: int where "CAT_MP3 = 3010"
definition CAT_VIDEO :: int where "CAT_VIDEO = 3020"

text \<open>A two-part term with an optional gap, as in \<open>24[\s\-]?bit\<close>.\<close>

definition gapped :: "unidb \<Rightarrow> string \<Rightarrow> string \<Rightarrow> re" where
  "gapped u a b = rseq [rlit a, ROpt (rgap u), rlit b]"

definition bounded :: "unidb \<Rightarrow> re list \<Rightarrow> re" where
  "bounded u rs = rseq [rbound u, ralt rs, rbound u]"

definition LOSSLESS_RE :: "unidb \<Rightarrow> re" where
  "LOSSLESS_RE u = bounded u
     [rlit ''flac'', rlit ''alac'', rlit ''ape'', rlit ''wavpack'', rlit ''wav'', gapped u ''24'' ''bit'',
      gapped u ''24'' ''44'', gapped u ''24'' ''96'', rlit ''dsd'', rlit ''lossless'']"

definition HIRES_192_RE :: "unidb \<Rightarrow> re" where
  "HIRES_192_RE u = bounded u
     [gapped u ''24'' ''192'', gapped u ''192'' ''khz'', rlit ''dsd'', rlit ''dsf'', rlit ''sacd'']"

definition HIRES_RE :: "unidb \<Rightarrow> re" where
  "HIRES_RE u = bounded u
     [gapped u ''24'' ''bit'', gapped u ''24'' ''96'', gapped u ''24'' ''88'', gapped u ''96'' ''khz'',
      rseq [rlit ''88'', ROpt (RSet (\<lambda>c. c = c_dot \<or> py_isspace u c \<or> c = 45)), rlit ''2'', ROpt (rgap u), rlit ''khz''],
      gapped u ''hi'' ''res'']"

definition MP3_320_RE :: "unidb \<Rightarrow> re" where
  "MP3_320_RE u = bounded u [rlit ''320'', rlit ''v0'', gapped u ''cbr'' ''320'']"
definition MP3_256_RE :: "unidb \<Rightarrow> re" where "MP3_256_RE u = bounded u [rlit ''256'', rlit ''v2'']"
definition MP3_192_RE :: "unidb \<Rightarrow> re" where "MP3_192_RE u = bounded u [rlit ''192'', rlit ''v5'']"
definition MP3_GENERIC_RE :: "unidb \<Rightarrow> re" where
  "MP3_GENERIC_RE u = bounded u [rlit ''mp3'', rlit ''cbr'', rlit ''vbr'']"

definition QUALITY_SCORE :: "(pystr, rat) odict" where
  "QUALITY_SCORE =
     [(lit ''lossless'', 1), (lit ''mp3_320'', 8 / 10), (lit ''mp3_256'', 65 / 100), (lit ''mp3_192'', 1 / 2),
      (lit ''low'', 3 / 10), (lit ''unknown'', 1 / 2)]"

definition quality_score :: "pystr \<Rightarrow> rat" where
  "quality_score tier = (case dict_get QUALITY_SCORE tier of None \<Rightarrow> 1 / 2 | Some q \<Rightarrow> q)"

definition TIER_NOMINAL_KBPS :: "(pystr, int) odict" where
  "TIER_NOMINAL_KBPS =
     [(lit ''lossless'', 700), (lit ''mp3_320'', 320), (lit ''mp3_256'', 256), (lit ''mp3_192'', 192),
      (lit ''low'', 128), (lit ''unknown'', 320)]"

definition SIZE_MIN_FRAC :: rat where "SIZE_MIN_FRAC = 35 / 100"
definition AVG_TRACK_SECONDS :: rat where "AVG_TRACK_SECONDS = 240"

definition hires_rank :: "unidb \<Rightarrow> pystr \<Rightarrow> nat" where
  "hires_rank u title =
     (if re_search (HIRES_192_RE u) title then 2 else if re_search (HIRES_RE u) title then 1 else 0)"

definition mp3_subtier :: "unidb \<Rightarrow> pystr \<Rightarrow> pystr" where
  "mp3_subtier u title =
     (if re_search (MP3_320_RE u) title then lit ''mp3_320''
      else if re_search (MP3_256_RE u) title then lit ''mp3_256''
      else if re_search (MP3_192_RE u) title then lit ''mp3_192'' else lit ''mp3_320'')"

definition declared_tier :: "unidb \<Rightarrow> usenet_release \<Rightarrow> pystr" where
  "declared_tier u r =
     (let cats = ur_category_ids r; title = ur_title r
      in if List.member cats CAT_LOSSLESS \<or> re_search (LOSSLESS_RE u) title then lit ''lossless''
         else if List.member cats CAT_MP3 then mp3_subtier u title
         else if re_search (MP3_320_RE u) title then lit ''mp3_320''
         else if re_search (MP3_256_RE u) title then lit ''mp3_256''
         else if re_search (MP3_192_RE u) title then lit ''mp3_192''
         else if re_search (MP3_GENERIC_RE u) title then lit ''mp3_320'' else lit ''unknown'')"

definition release_tier :: "unidb \<Rightarrow> usenet_release \<Rightarrow> int option \<Rightarrow> pystr" where
  "release_tier u r track_count =
     (let tier = declared_tier u r; n = num_or track_count 0
      in if tier = lit ''lossless'' \<and> n \<noteq> 0 \<and> ur_size_bytes r \<noteq> 0
              \<and> of_int (ur_size_bytes r) / of_int n / (1024 * 1024) < (8 :: rat)
         then lit ''unknown'' else tier)"

definition size_implausible :: "usenet_release \<Rightarrow> pystr \<Rightarrow> int option \<Rightarrow> rat option \<Rightarrow> bool" where
  "size_implausible r declared track_count duration =
     (let n = num_or track_count 0;
          seconds = (case duration of
                       Some d \<Rightarrow> if d \<noteq> 0 then d else of_int n * AVG_TRACK_SECONDS
                     | None \<Rightarrow> of_int n * AVG_TRACK_SECONDS)
      in if ur_size_bytes r = 0 \<or> seconds = 0 then False
         else (let nominal = (case dict_get TIER_NOMINAL_KBPS declared of None \<Rightarrow> 320 | Some k \<Rightarrow> k);
                   expected = of_int nominal * 1000 / 8 * seconds
               in of_int (ur_size_bytes r) < SIZE_MIN_FRAC * expected))"

section \<open>Scoring and ranking\<close>

definition identity_score :: "matchlib \<Rightarrow> target_album \<Rightarrow> usenet_release \<Rightarrow> rat" where
  "identity_score ml t r =
     (let query = fold_text ml (ta_artist_name t @ [c_space] @ ta_album_title t);
          ratio = ml_token_set_ratio ml query (fold_text ml (ur_title r));
          score = 1 / 2 + 4 / 10 * (ratio / 100);
          year = num_or (ta_year t) 0;
          nudged = (if year \<noteq> 0 \<and> py_in (py_str_int year) (ur_title r) then score + 8 / 100 else score)
      in min 1 nudged)"

definition release_candidate :: "unidb \<Rightarrow> usenet_release \<Rightarrow> pystr \<Rightarrow> candidate" where
  "release_candidate u r tier =
     (default_candidate (lit ''usenet''))
       \<lparr>cd_identity := usenet_identity u (ur_title r) (ur_size_bytes r), cd_match_text := ur_title r,
        cd_tier := tier, cd_size_bytes := ur_size_bytes r, cd_usenet_date := ur_usenet_date r,
        cd_password := ur_password r\<rparr>"

definition band :: "rat \<Rightarrow> rat \<Rightarrow> rat \<Rightarrow> pystr" where
  "band auto_accept manual final =
     (if auto_accept \<le> final then lit ''auto'' else if manual \<le> final then lit ''manual''
      else lit ''rejected'')"

text \<open>One round of the loop of \<open>rank\<close>: the release is dropped, or scored.\<close>

definition score_release ::
  "matchlib \<Rightarrow> spec_policy \<Rightarrow> decision_context \<Rightarrow> target_album \<Rightarrow> rat \<Rightarrow> rat \<Rightarrow> int option
     \<Rightarrow> usenet_release \<Rightarrow> scored_candidate option" where
  "score_release ml p dx t auto_accept manual tracks r =
     (let u = ml_unidb ml; declared = declared_tier u r; tier = release_tier u r tracks
      in if List.member (ur_category_ids r) CAT_VIDEO then None
         else if run_pipeline ml (release_candidate u r tier) t dx p \<noteq> Accept then None
         else if size_implausible r declared tracks (ta_duration_seconds t) then None
         else (let identity = identity_score ml t r;
                   quality = quality_score tier;
                   health = min 1 (of_int (num_or (ur_grabs r) 0) / 50);
                   final = 40 / 100 * identity + 45 / 100 * quality + 15 / 100 * health
               in Some \<lparr>sc_source = lit ''usenet'', sc_username = [], sc_parent_directory = [], sc_files = [],
                        sc_usenet_release = Some r, sc_coherence = identity, sc_file_confidence = quality,
                        sc_final_score = round4 final, sc_tier = band auto_accept manual final,
                        sc_candidate_index = None\<rparr>))"

definition release_rank_key :: "unidb \<Rightarrow> scored_candidate \<Rightarrow> rat list" where
  "release_rank_key u c =
     [sc_final_score c,
      of_nat (hires_rank u (case sc_usenet_release c of None \<Rightarrow> [] | Some r \<Rightarrow> ur_title r))]"

definition rank_releases ::
  "matchlib \<Rightarrow> spec_policy \<Rightarrow> decision_context \<Rightarrow> target_album \<Rightarrow> rat \<Rightarrow> rat \<Rightarrow> int option
     \<Rightarrow> usenet_release list \<Rightarrow> scored_candidate list" where
  "rank_releases ml p dx t auto_accept manual track_count releases =
     (let tracks = (case track_count of Some n \<Rightarrow> Some n | None \<Rightarrow> ta_track_count t);
          scored = List.map_filter (score_release ml p dx t auto_accept manual tracks) releases
      in take 50 (py_sort_desc (release_rank_key (ml_unidb ml)) scored))"

section \<open>What the ranking promises\<close>

lemma quality_score_bounds: "3 / 10 \<le> quality_score t \<and> quality_score t \<le> 1"
  by (simp add: quality_score_def QUALITY_SCORE_def dict_get_def)

lemma identity_score_bounds:
  assumes "scores_ok ml"
  shows "1 / 2 \<le> identity_score ml t r \<and> identity_score ml t r \<le> 1"
proof -
  have "0 \<le> ml_token_set_ratio ml (fold_text ml (ta_artist_name t @ [c_space] @ ta_album_title t))
      (fold_text ml (ur_title r))" using assms by (simp add: scores_ok_def)
  then show ?thesis by (simp add: identity_score_def Let_def)
qed

lemma score_release_Some:
  assumes "score_release ml p dx t auto_accept manual tracks r = Some c"
  shows "CAT_VIDEO \<notin> set (ur_category_ids r)"
    "acceptable ml (release_candidate (ml_unidb ml) r (release_tier (ml_unidb ml) r tracks)) t dx p"
    "\<not> size_implausible r (declared_tier (ml_unidb ml) r) tracks (ta_duration_seconds t)"
    "sc_usenet_release c = Some r" "sc_source c = lit ''usenet''"
    "\<exists>final. sc_final_score c = round4 final \<and> sc_tier c = band auto_accept manual final
       \<and> final = 40 / 100 * sc_coherence c + 45 / 100 * sc_file_confidence c
           + 15 / 100 * min 1 (of_int (num_or (ur_grabs r) 0) / 50)
       \<and> sc_coherence c = identity_score ml t r"
proof -
  note a = assms [unfolded score_release_def Let_def]
  from a show video: "CAT_VIDEO \<notin> set (ur_category_ids r)" by (auto split: if_splits)
  from a show "acceptable ml (release_candidate (ml_unidb ml) r (release_tier (ml_unidb ml) r tracks)) t dx p"
    by (auto simp: pipeline_is_acceptable split: if_splits)
  from a show "\<not> size_implausible r (declared_tier (ml_unidb ml) r) tracks (ta_duration_seconds t)"
    by (auto split: if_splits)
  from a show "sc_usenet_release c = Some r" "sc_source c = lit ''usenet''"
    by (auto split: if_splits)
  from a show "\<exists>final. sc_final_score c = round4 final \<and> sc_tier c = band auto_accept manual final
       \<and> final = 40 / 100 * sc_coherence c + 45 / 100 * sc_file_confidence c
           + 15 / 100 * min 1 (of_int (num_or (ur_grabs r) 0) / 50)
       \<and> sc_coherence c = identity_score ml t r"
    by (auto split: if_splits)
qed

lemma set_map_filter: "set (List.map_filter f xs) = {y. \<exists>x \<in> set xs. f x = Some y}"
  by (auto simp: map_filter_def image_iff) (metis option.sel option.distinct(1))+

text \<open>The ranked list: at most fifty, from the scored ones, in the order of the key.\<close>

lemma ranked_take:
  "set (take n (py_sort_desc f xs)) \<subseteq> set xs" "length (take n (py_sort_desc f xs)) \<le> n"
  "sorted_wrt (\<lambda>x y. f y \<le> f x) (take n (py_sort_desc f xs))"
  using set_take_subset [of n "py_sort_desc f xs"] sort_desc_sorted [of f xs]
  by (auto intro: sorted_wrt_take)

lemma ranked_sorted:
  assumes "\<And>a b. f b \<le> f a \<Longrightarrow> Q a b"
  shows "sorted_wrt Q (take n (py_sort_desc f xs))"
  by (rule sorted_wrt_mono_rel [OF _ ranked_take(3) [of f n xs]]) (rule assms)

text \<open>
  Only releases that may be downloaded are offered, best first: every candidate of the ranking
  of a search is one of the releases that were found, is no music video, passes every rule of
  the pipeline (so it is not on the blocklist, not encrypted, names the wanted album, and so
  on) and is not too small for the album; there are at most fifty, in descending order of the
  score; and it is taken without asking only when its score reaches the threshold, which needs
  more than the title, for a title alone gives at most 0.4.
\<close>
theorem rank_releases_sound:
  assumes "scores_ok ml"
  shows "let u = ml_unidb ml; ranked = rank_releases ml p dx t auto_accept manual track_count releases;
             tracks = (case track_count of Some n \<Rightarrow> Some n | None \<Rightarrow> ta_track_count t)
         in length ranked \<le> 50 \<and> sorted_wrt (\<lambda>a b. sc_final_score b \<le> sc_final_score a) ranked
          \<and> (\<forall>c \<in> set ranked. \<exists>r \<in> set releases. sc_usenet_release c = Some r
               \<and> CAT_VIDEO \<notin> set (ur_category_ids r)
               \<and> acceptable ml (release_candidate u r (release_tier u r tracks)) t dx p
               \<and> \<not> size_implausible r (declared_tier u r) tracks (ta_duration_seconds t)
               \<and> (\<exists>final \<le> 1. sc_final_score c = round4 final \<and> sc_tier c = band auto_accept manual final
                    \<and> final \<le> 4 / 10 + 45 / 100 * sc_file_confidence c
                        + 15 / 100 * (of_int (num_or (ur_grabs r) 0) / 50)))"
proof -
  let ?tracks = "case track_count of Some n \<Rightarrow> Some n | None \<Rightarrow> ta_track_count t"
  let ?scored = "List.map_filter (score_release ml p dx t auto_accept manual ?tracks) releases"
  let ?key = "release_rank_key (ml_unidb ml)"
  have ranked: "rank_releases ml p dx t auto_accept manual track_count releases = take 50 (py_sort_desc ?key ?scored)"
    by (simp add: rank_releases_def Let_def)
  have "sc_final_score b \<le> sc_final_score a" if "?key b \<le> ?key a" for a b
    using that by (auto simp: release_rank_key_def)
  then have sorted: "sorted_wrt (\<lambda>a b. sc_final_score b \<le> sc_final_score a) (take 50 (py_sort_desc ?key ?scored))"
    by (rule ranked_sorted)
  have each: "\<exists>r \<in> set releases. sc_usenet_release c = Some r \<and> CAT_VIDEO \<notin> set (ur_category_ids r)
      \<and> acceptable ml (release_candidate (ml_unidb ml) r (release_tier (ml_unidb ml) r ?tracks)) t dx p
      \<and> \<not> size_implausible r (declared_tier (ml_unidb ml) r) ?tracks (ta_duration_seconds t)
      \<and> (\<exists>final \<le> 1. sc_final_score c = round4 final \<and> sc_tier c = band auto_accept manual final
           \<and> final \<le> 4 / 10 + 45 / 100 * sc_file_confidence c + 15 / 100 * (of_int (num_or (ur_grabs r) 0) / 50))"
    if "c \<in> set (take 50 (py_sort_desc ?key ?scored))" for c
  proof -
    have "c \<in> set ?scored" by (rule subsetD [OF ranked_take(1) that])
    then obtain r where r: "r \<in> set releases" "score_release ml p dx t auto_accept manual ?tracks r = Some c"
      by (auto simp: set_map_filter)
    note s = score_release_Some [OF r(2)]
    from s(6) obtain final where f: "sc_final_score c = round4 final" "sc_tier c = band auto_accept manual final"
      "final = 40 / 100 * sc_coherence c + 45 / 100 * sc_file_confidence c
           + 15 / 100 * min 1 (of_int (num_or (ur_grabs r) 0) / 50)"
      "sc_coherence c = identity_score ml t r" by blast
    have conf: "sc_file_confidence c \<le> 1"
      using r(2) quality_score_bounds by (auto simp: score_release_def Let_def split: if_splits)
    have id: "sc_coherence c \<le> 1" using f(4) identity_score_bounds [OF assms, of t r] by simp
    have "final \<le> 1" "final \<le> 4 / 10 + 45 / 100 * sc_file_confidence c + 15 / 100 * (of_int (num_or (ur_grabs r) 0) / 50)"
      using conf id unfolding f(3) by linarith+
    then have "\<exists>final \<le> 1. sc_final_score c = round4 final \<and> sc_tier c = band auto_accept manual final
        \<and> final \<le> 4 / 10 + 45 / 100 * sc_file_confidence c + 15 / 100 * (of_int (num_or (ur_grabs r) 0) / 50)"
      using f(1,2) by (intro exI [of _ final]) simp
    with s(1-4) show ?thesis by (intro bexI [OF _ r(1)] conjI)
  qed
  show ?thesis unfolding ranked Let_def by (intro conjI ballI ranked_take(2) sorted each)
qed

theorem rank_releases_sound_witness:
  "\<exists>r c. rank_releases plain_lib default_policy (build_context [] None 60 None None) plain_album
       (7 / 10) (1 / 2) (Some 10) [r] = [c]
     \<and> sc_usenet_release c = Some r \<and> CAT_VIDEO \<notin> set (ur_category_ids r)"
proof -
  let ?r = "\<lparr>ur_indexer_id = [], ur_indexer_name = [], ur_guid = [], ur_title = [], ur_nzb_url = [],
      ur_size_bytes = 400000000, ur_category_ids = [3040], ur_grabs = Some 50, ur_files = None,
      ur_usenet_date = None, ur_password = 0\<rparr>"
  let ?dx = "build_context [] None 60 None None"
  have tier: "declared_tier ascii_db ?r = lit ''lossless''" "release_tier ascii_db ?r (Some 10) = lit ''lossless''"
    by (simp_all add: declared_tier_def release_tier_def CAT_LOSSLESS_def num_or_def Let_def)
  let ?c = "release_candidate ascii_db ?r (lit ''lossless'')"
  have "cd_match_text ?c = []" by (simp add: release_candidate_def)
  note fits = empty_text_fits [OF this] plain_album_fits [of ?c]
  have acc: "run_pipeline plain_lib ?c plain_album ?dx default_policy = Accept"
    using fits
    by (simp add: run_pipeline_def SPECS_def quarantine_def password_def ignored_terms_def required_terms_def
        quality_range_def in_range_def upgrade_floor_def max_size_def retention_def min_age_def free_space_def
        release_candidate_def default_candidate_def default_policy_def build_context_def)
  have db: "ml_unidb plain_lib = ascii_db" by (simp add: plain_lib_def)
  have "\<not> size_implausible ?r (lit ''lossless'') (Some 10) (ta_duration_seconds plain_album)"
    by (simp add: size_implausible_def Let_def plain_album_def num_or_def TIER_NOMINAL_KBPS_def dict_get_def
        SIZE_MIN_FRAC_def AVG_TRACK_SECONDS_def)
  then obtain c where c: "score_release plain_lib default_policy ?dx plain_album (7 / 10) (1 / 2) (Some 10) ?r = Some c"
    using acc tier by (simp add: score_release_def Let_def db CAT_VIDEO_def)
  have one: "rank_releases plain_lib default_policy ?dx plain_album (7 / 10) (1 / 2) (Some 10) [?r] = [c]"
    by (simp add: rank_releases_def Let_def map_filter_def c py_sort_desc_def)
  have "scores_ok plain_lib" by (simp add: scores_ok_def plain_lib_def)
  from rank_releases_sound [OF this, of default_policy ?dx plain_album "7 / 10" "1 / 2" "Some 10" "[?r]"]
  have "sc_usenet_release c = Some ?r \<and> CAT_VIDEO \<notin> set (ur_category_ids ?r)" unfolding one Let_def by auto
  with one show ?thesis by blast
qed

end
