(* ===== verification/Preflight_Scorer.thy ===== *)
theory Preflight_Scorer
  imports Release_Scorer
begin

text \<open>
  \<open>services/native/album_preflight_scorer.py\<close> and \<open>services/native/track_matcher.py\<close>: which
  Soulseek folders and files may be downloaded, and in which order. Scores are rational numbers,
  so the standard deviation of the bit rates is compared by its square; the counters for the log
  lines are left out.
\<close>

section \<open>Names\<close>

definition EDITION_SUFFIXES :: "unidb \<Rightarrow> re" where
  "EDITION_SUFFIXES u = bounded u (map rlit
     [''deluxe'', ''remastered'', ''remaster'', ''edition'', ''anniversary'', ''special'', ''expanded'',
      ''complete'', ''bonus'', ''acoustic'', ''live'', ''demo'', ''radio edit'', ''extended'', ''instrumental''])"

definition VERSION_MARKERS :: "unidb \<Rightarrow> re" where
  "VERSION_MARKERS u = bounded u (map rlit
     [''remix'', ''live'', ''acoustic'', ''instrumental'', ''demo'', ''radio edit'', ''karaoke'', ''cover'',
      ''commentary''])"

definition JUNK_KEYWORDS :: "pystr list" where
  "JUNK_KEYWORDS = map lit [''various'', ''unknown album'', ''untitled'', ''misc'']"

text \<open>\<open>^\s*(?:\[\d{4}\]|\(\d{4}\)|\d{4}\s*[-\<dots>]\s*)\s*\<close>, the class holding the hyphen and the en dash\<close>

definition LEADING_RELEASE_YEAR :: "unidb \<Rightarrow> re" where
  "LEADING_RELEASE_YEAR u =
     (let year = rseq [rdigit u, rdigit u, rdigit u, rdigit u]
      in rseq [RStart, RStar (rspace u),
           ralt [rseq [rlit ''['', year, rlit '']''], rseq [rlit ''('', year, rlit '')''],
                 rseq [year, RStar (rspace u), RSet (\<lambda>c. c = 45 \<or> c = 8211), RStar (rspace u)]],
           RStar (rspace u)])"

definition ACCEPTANCE_RANK :: "(pystr, nat) odict" where
  "ACCEPTANCE_RANK = [(lit ''rejected'', 0), (lit ''manual'', 1), (lit ''auto'', 2)]"

definition acceptance_rank :: "pystr \<Rightarrow> nat" where
  "acceptance_rank tier = (case dict_get ACCEPTANCE_RANK tier of None \<Rightarrow> 0 | Some r \<Rightarrow> r)"

text \<open>The module's own copies of \<open>_has_cjk\<close> and the fold are the functions of \<open>title_match.py\<close>.\<close>

definition normalize_for_match :: "matchlib \<Rightarrow> pystr \<Rightarrow> pystr" where
  "normalize_for_match ml t =
     (let low = py_lower (ml_unidb ml) (py_nfc (ml_unidb ml) t)
      in if has_cjk low then low else ml_unidecode ml low)"

definition strip_edition_suffix :: "unidb \<Rightarrow> pystr \<Rightarrow> pystr" where
  "strip_edition_suffix u title = py_strip u (re_sub (EDITION_SUFFIXES u) [] title)"

definition version_markers :: "unidb \<Rightarrow> pystr \<Rightarrow> pystr list" where
  "version_markers u t = map (\<lambda>m. py_lower u (group_text t m)) (re_finditer (VERSION_MARKERS u) t 0)"

definition has_artist_evidence :: "matchlib \<Rightarrow> pystr \<Rightarrow> search_result list \<Rightarrow> bool" where
  "has_artist_evidence ml artist files \<longleftrightarrow>
     py_in (lit ''various'') (py_lower (ml_unidb ml) artist)
     \<or> list_ex (\<lambda>f. artist_evidence ml artist (sr_filename f)) files"

definition album_identity_text :: "matchlib \<Rightarrow> target_album \<Rightarrow> pystr \<Rightarrow> search_result list \<Rightarrow> pystr" where
  "album_identity_text ml t parent files =
     (let stripped = re_sub (LEADING_RELEASE_YEAR (ml_unidb ml)) [] parent;
          leaf = (if stripped \<noteq> [] then stripped else parent)
      in if has_artist_evidence ml (ta_artist_name t) files
         then ta_artist_name t @ lit '' - '' @ leaf else leaf)"

fun split_path :: "pystr \<Rightarrow> pystr list" where
  "split_path [] = [[]]"
| "split_path (c # s) =
     (if c = c_slash \<or> c = c_backslash then [] # split_path s
      else (case split_path s of [] \<Rightarrow> [[c]] | w # ws \<Rightarrow> (c # w) # ws))"

definition artist_from_path :: "unidb \<Rightarrow> pystr \<Rightarrow> pystr \<Rightarrow> pystr" where
  "artist_from_path u parent target_artist =
     (if parent = [] then []
      else case py_find (lit '' - '') parent of
             Some i \<Rightarrow> py_strip u (take i parent)
           | None \<Rightarrow>
               (case filter (\<lambda>p. p \<noteq> []) (split_path parent) of
                  p # q # _ \<Rightarrow> py_strip u p
                | parts \<Rightarrow>
                    if target_artist \<noteq> [] then target_artist
                    else (case parts of [] \<Rightarrow> [] | p # _ \<Rightarrow> py_strip u p)))"

section \<open>The order of the candidates\<close>

definition py_min0 :: "int list \<Rightarrow> int" where
  "py_min0 xs = (case xs of [] \<Rightarrow> 0 | y # ys \<Rightarrow> py_min_by (\<lambda>n. n) y ys)"

definition flag :: "bool \<Rightarrow> rat" where
  "flag b = (if b then 1 else 0)"

definition availability_key :: "search_result list \<Rightarrow> rat list" where
  "availability_key files =
     (let queues = List.map_filter sr_queue_length files;
          complete = (case queues of [] \<Rightarrow> 2147483647 | q # qs \<Rightarrow> fold max qs q)
      in [flag (files \<noteq> [] \<and> list_all sr_has_free_slot files), flag (length queues = length files),
          - of_int complete, of_int (py_min0 (map sr_upload_speed files)),
          - of_int (sum_list (map sr_size files))])"

definition candidate_rank_key :: "unidb \<Rightarrow> scored_candidate \<Rightarrow> rat list" where
  "candidate_rank_key u c =
     [of_nat (acceptance_rank (sc_tier c)), of_nat (tier_rank (candidate_tier u (sc_files c))),
      of_int (fst (folder_hires_key (sc_files c))), of_int (snd (folder_hires_key (sc_files c)))]
     @ availability_key (sc_files c) @ [sc_final_score c]"

text \<open>Grouping under a key, groups and members in their order.\<close>

definition group_by :: "('a \<Rightarrow> 'k) \<Rightarrow> 'a list \<Rightarrow> ('k \<times> 'a list) list" where
  "group_by f xs =
     fold (\<lambda>x d. dict_set d (f x) ((case dict_get d (f x) of None \<Rightarrow> [] | Some ys \<Rightarrow> ys) @ [x])) xs []"

definition rank_stored_candidates ::
  "matchlib \<Rightarrow> target_album \<Rightarrow> scored_candidate list \<Rightarrow> scored_candidate list" where
  "rank_stored_candidates ml t candidates =
     (let source = (\<lambda>c. if sc_source c \<noteq> [] then sc_source c else lit ''soulseek'');
          kept = filter (\<lambda>(i, c). \<not> (source c = lit ''soulseek''
                   \<and> names_different_album ml (ta_album_title t) (ta_artist_name t)
                       (album_identity_text ml t (sc_parent_directory c) (sc_files c))))
                 (zip [0..<length candidates] candidates);
          groups = group_by source (map (\<lambda>(i, c). c\<lparr>sc_candidate_index := Some i\<rparr>) kept)
      in concat (map (\<lambda>(s, cs). py_sort_desc (candidate_rank_key (ml_unidb ml)) cs) groups))"

section \<open>The score of a file\<close>

definition DOT_SUFFIX :: "unidb \<Rightarrow> re" where
  "DOT_SUFFIX u = rseq [rlit ''.'', RPlus (RSet (is_word u)), REnd]"

definition file_title_of :: "unidb \<Rightarrow> search_result \<Rightarrow> pystr" where
  "file_title_of u f = re_sub (DOT_SUFFIX u) [] (path_leaf (sr_filename f))"

text \<open>The words of an artist name that are not counted as foreign.\<close>

definition artist_words_of :: "matchlib \<Rightarrow> pystr \<Rightarrow> pystr list" where
  "artist_words_of ml artist =
     remdups (filter (\<lambda>w. 2 \<le> length w) (py_split (ml_unidb ml) (normalize_for_match ml artist)))"

definition similarity :: "matchlib \<Rightarrow> pystr \<Rightarrow> pystr \<Rightarrow> rat" where
  "similarity ml a b =
     ml_token_set_ratio ml (normalize_for_match ml a) (normalize_for_match ml b) / 100"

definition file_confidence ::
  "matchlib \<Rightarrow> pystr \<Rightarrow> pystr \<Rightarrow> rat option \<Rightarrow> search_result \<Rightarrow> bool \<Rightarrow> rat" where
  "file_confidence ml target_title target_artist target_duration f strict_title =
     (let u = ml_unidb ml;
          file_title = file_title_of u f;
          title_score =
            (if strict_title \<and> \<not> (has_cjk target_title \<or> has_cjk file_title)
             then title_containment_score ml (strip_edition_suffix u target_title) file_title
                    (artist_words_of ml target_artist)
             else similarity ml (strip_edition_suffix u target_title) (strip_edition_suffix u file_title));
          file_artist = artist_from_path u (sr_parent_directory f) target_artist;
          artist_score = (if file_artist \<noteq> [] then similarity ml target_artist file_artist else 0);
          penalty = (if set (version_markers u target_title) \<noteq> set (version_markers u file_title)
                     then 3 / 10 else 1);
          base = (case (target_duration, sr_duration f) of
                    (Some d, Some e) \<Rightarrow>
                      if d \<noteq> 0 \<and> e \<noteq> 0
                      then (let diff = \<bar>e - d\<bar>;
                                duration_score = (if diff \<le> 15 then 1 else if diff \<le> 25 then 1 / 2 else 0)
                            in 55 / 100 * title_score + 20 / 100 * artist_score + 25 / 100 * duration_score)
                      else 65 / 100 * title_score + 35 / 100 * artist_score
                  | _ \<Rightarrow> 65 / 100 * title_score + 35 / 100 * artist_score)
      in base * penalty)"

section \<open>The score of a folder\<close>

definition bitrate_consistency :: "int list \<Rightarrow> rat" where
  "bitrate_consistency bitrates =
     (if bitrates = [] then 1 / 2
      else (let n = of_nat (length bitrates) :: rat; mean = of_int (sum_list bitrates) / n
            in if 0 < mean
               then (let variance = sum_list (map (\<lambda>b. (of_int b - mean) ^ 2) bitrates) / n
                     in if variance < 50 ^ 2 then 1 else 1 / 2)
               else 1 / 2))"

definition count_ratio :: "target_album \<Rightarrow> nat \<Rightarrow> rat" where
  "count_ratio t counted =
     (let tracks = num_or (ta_track_count t) 0
      in if 0 < tracks then min 1 (of_nat counted / of_int tracks) else 1 / 2)"

definition format_consistency :: "unidb \<Rightarrow> search_result list \<Rightarrow> rat" where
  "format_consistency u files =
     (let formats = remdups (filter (\<lambda>e. e \<noteq> []) (map (effective_extension u) files))
      in if length formats = 1 then 1 else if length formats \<le> 2 then 1 / 2 else 2 / 10)"

definition no_junk :: "unidb \<Rightarrow> pystr \<Rightarrow> rat" where
  "no_junk u parent = (if list_ex (\<lambda>k. py_in k (py_lower u parent)) JUNK_KEYWORDS then 0 else 1)"

definition coherence ::
  "matchlib \<Rightarrow> target_album \<Rightarrow> search_result list \<Rightarrow> pystr \<Rightarrow> nat option \<Rightarrow> rat" where
  "coherence ml t files parent qualified =
     (let u = ml_unidb ml;
          counted = (case qualified of None \<Rightarrow> length files | Some n \<Rightarrow> n);
          hint = ta_artist_name t @ [c_space] @ ta_album_title t
                 @ (if num_or (ta_year t) 0 \<noteq> 0 then [c_space] @ py_str_int (num_or (ta_year t) 0) else []);
          bitrates = filter (\<lambda>b. b \<noteq> 0) (List.map_filter sr_bitrate files)
      in 40 / 100 * count_ratio t counted + 20 / 100 * similarity ml hint parent
         + 15 / 100 * format_consistency u files
         + 15 / 100 * bitrate_consistency bitrates + 10 / 100 * no_junk u parent)"

definition qualified_count :: "matchlib \<Rightarrow> target_album \<Rightarrow> search_result list \<Rightarrow> nat option" where
  "qualified_count ml t audio =
     (if ta_track_count t = Some 1
      then Some (length (filter (\<lambda>f. 60 / 100 \<le>
             title_containment_score ml (strip_edition_suffix (ml_unidb ml) (ta_album_title t))
               (file_title_of (ml_unidb ml) f) (artist_words_of ml (ta_artist_name t))) audio))
      else None)"

section \<open>The ranking of folders\<close>

definition folder_candidate ::
  "matchlib \<Rightarrow> target_album \<Rightarrow> pystr \<Rightarrow> search_result list \<Rightarrow> candidate" where
  "folder_candidate ml t parent audio =
     (default_candidate (lit ''soulseek''))
       \<lparr>cd_match_text := parent, cd_album_identity_text := album_identity_text ml t parent audio,
        cd_tier := candidate_tier (ml_unidb ml) audio, cd_size_bytes := sum_list (map sr_size audio)\<rparr>"

definition folder_band :: "rat \<Rightarrow> rat \<Rightarrow> bool \<Rightarrow> rat \<Rightarrow> rat \<Rightarrow> pystr" where
  "folder_band auto_accept manual evidence coh final =
     (if auto_accept \<le> final \<and> evidence then lit ''auto''
      else if manual \<le> final \<and> manual \<le> coh then lit ''manual'' else lit ''rejected'')"

definition score_folder ::
  "matchlib \<Rightarrow> spec_policy \<Rightarrow> bool \<Rightarrow> decision_context \<Rightarrow> target_album \<Rightarrow> rat \<Rightarrow> rat
     \<Rightarrow> (pystr \<times> pystr) \<times> search_result list \<Rightarrow> scored_candidate option" where
  "score_folder ml p flac_mp3_only dx t auto_accept manual = (\<lambda>((username, parent), files).
     (let u = ml_unidb ml; audio = filter (is_audio u) files
      in if audio = [] then None
         else if flac_mp3_only \<and> \<not> list_all (is_flac_or_mp3 u) audio then None
         else if run_pipeline ml (folder_candidate ml t parent audio) t dx p \<noteq> Accept then None
         else (let evidence = has_artist_evidence ml (ta_artist_name t) audio;
                   coh = coherence ml t audio parent (qualified_count ml t audio);
                   confidences = map (\<lambda>f. file_confidence ml (ta_album_title t) (ta_artist_name t)
                      (ta_duration_seconds t) f (ta_track_count t = Some 1)) audio;
                   avg = sum_list confidences / of_nat (length confidences);
                   final = 625 / 1000 * coh + 375 / 1000 * avg
               in Some \<lparr>sc_source = lit ''soulseek'', sc_username = username, sc_parent_directory = parent,
                        sc_files = audio, sc_usenet_release = None, sc_coherence = coh,
                        sc_file_confidence = avg, sc_final_score = final,
                        sc_tier = folder_band auto_accept manual evidence coh final,
                        sc_candidate_index = None\<rparr>)))"

definition not_quarantined :: "decision_context \<Rightarrow> search_result \<Rightarrow> bool" where
  "not_quarantined dx f \<longleftrightarrow>
     quarantine ((default_candidate (lit ''soulseek''))
       \<lparr>cd_identity := soulseek_identity (sr_username f) (sr_filename f)\<rparr>) dx = Accept"

definition rank_folders ::
  "matchlib \<Rightarrow> spec_policy \<Rightarrow> bool \<Rightarrow> decision_context \<Rightarrow> target_album \<Rightarrow> rat \<Rightarrow> rat
     \<Rightarrow> search_result list \<Rightarrow> scored_candidate list" where
  "rank_folders ml p flac_mp3_only dx t auto_accept manual results =
     (let filtered = filter (not_quarantined dx) results;
          groups = group_by (\<lambda>r. (sr_username r, sr_parent_directory r)) filtered;
          scored = List.map_filter (score_folder ml p flac_mp3_only dx t auto_accept manual) groups
      in take 50 (py_sort_desc (candidate_rank_key (ml_unidb ml)) scored))"

section \<open>Lemmas on groups and scores\<close>

lemma dict_get_in: "dict_get d k = Some v \<Longrightarrow> (k, v) \<in> set d"
  by (simp add: dict_get_def map_of_SomeD)

lemma in_dict_set: "(k, v) \<in> set (dict_set d k' v') \<Longrightarrow> (k, v) = (k', v') \<or> (k, v) \<in> set d"
  by (induction d k' v' rule: dict_set.induct) (auto split: if_splits)

lemma group_by_members:
  assumes "(k, ys) \<in> set (group_by f xs)"
  shows "ys \<noteq> [] \<and> set ys \<subseteq> set xs \<and> (\<forall>y \<in> set ys. f y = k)"
proof -
  define ok where "ok = (\<lambda>(k, ys). ys \<noteq> [] \<and> set ys \<subseteq> set xs \<and> (\<forall>y \<in> set ys. f y = k))"
  let ?step = "\<lambda>x d. dict_set d (f x) ((case dict_get d (f x) of None \<Rightarrow> [] | Some ys \<Rightarrow> ys) @ [x])"
  have step: "\<forall>e \<in> set (?step x d). ok e" if "\<forall>e \<in> set d. ok e" "x \<in> set xs" for x d
  proof
    fix e assume e: "e \<in> set (?step x d)"
    have "ok (f x, (case dict_get d (f x) of None \<Rightarrow> [] | Some ys \<Rightarrow> ys) @ [x])"
    proof (cases "dict_get d (f x)")
      case (Some ys)
      from dict_get_in [OF Some] that(1) have "ok (f x, ys)" by blast
      with Some that(2) show ?thesis by (simp add: ok_def)
    qed (use that(2) in \<open>simp add: ok_def\<close>)
    with e in_dict_set [of "fst e" "snd e" d "f x"] that(1) show "ok e" by (cases e) auto
  qed
  have "set zs \<subseteq> set xs \<Longrightarrow> \<forall>e \<in> set d. ok e \<Longrightarrow> \<forall>e \<in> set (fold ?step zs d). ok e" for zs d
  proof (induction zs arbitrary: d)
    case (Cons z zs)
    have "z \<in> set xs" using Cons.prems(1) by simp
    from step [OF Cons.prems(2) this] have "\<forall>e \<in> set (?step z d). ok e" .
    with Cons.IH [of "?step z d"] Cons.prems(1) show ?case by simp
  qed simp
  from this [of xs "[]"] assms show ?thesis by (auto simp: group_by_def ok_def)
qed

lemma similarity_bounds: "scores_ok ml \<Longrightarrow> 0 \<le> similarity ml a b \<and> similarity ml a b \<le> 1"
  by (simp add: similarity_def scores_ok_def)

text \<open>Weighted means of numbers from 0 to 1 stay there.\<close>

lemma mean2: "0 \<le> a \<Longrightarrow> a \<le> 1 \<Longrightarrow> 0 \<le> b \<Longrightarrow> b \<le> 1 \<Longrightarrow> 0 \<le> w \<Longrightarrow> w \<le> 1 \<Longrightarrow>
   0 \<le> w * a + (1 - w) * b \<and> w * a + (1 - w) * b \<le> (1 :: rat)"
proof -
  assume a: "0 \<le> a" "a \<le> 1" and b: "0 \<le> b" "b \<le> 1" and w: "0 \<le> w" "w \<le> 1"
  have "w * a \<le> w" "(1 - w) * b \<le> 1 - w" using a b w by (simp_all add: mult_left_le)
  moreover have "0 \<le> w * a" "0 \<le> (1 - w) * b" using a b w by simp_all
  ultimately show ?thesis by linarith
qed

lemma file_confidence_bounds:
  assumes "scores_ok ml"
  shows "0 \<le> file_confidence ml tt ta d f strict \<and> file_confidence ml tt ta d f strict \<le> 1"
proof -
  define title where "title = (if strict \<and> \<not> (has_cjk tt \<or> has_cjk (file_title_of (ml_unidb ml) f))
    then title_containment_score ml (strip_edition_suffix (ml_unidb ml) tt) (file_title_of (ml_unidb ml) f) (artist_words_of ml ta)
    else similarity ml (strip_edition_suffix (ml_unidb ml) tt) (strip_edition_suffix (ml_unidb ml) (file_title_of (ml_unidb ml) f)))"
  define artist where "artist = (if artist_from_path (ml_unidb ml) (sr_parent_directory f) ta \<noteq> []
    then similarity ml ta (artist_from_path (ml_unidb ml) (sr_parent_directory f) ta) else 0)"
  define penalty :: rat where "penalty = (if set (version_markers (ml_unidb ml) tt)
      \<noteq> set (version_markers (ml_unidb ml) (file_title_of (ml_unidb ml) f)) then 3 / 10 else 1)"
  define dur :: "rat \<Rightarrow> rat" where "dur = (\<lambda>x. if x \<le> 15 then 1 else if x \<le> 25 then 1 / 2 else 0)"
  have t: "0 \<le> title" "title \<le> 1" and a: "0 \<le> artist" "artist \<le> 1"
    using assms by (simp_all add: title_def artist_def containment_bounds similarity_bounds)
  have d: "0 \<le> dur x \<and> dur x \<le> 1" for x by (simp add: dur_def)
  obtain base where base: "0 \<le> base" "base \<le> 1" "file_confidence ml tt ta d f strict = base * penalty"
  proof (cases "\<exists>x y. d = Some x \<and> sr_duration f = Some y \<and> x \<noteq> 0 \<and> y \<noteq> 0")
    case True
    then obtain x y where xy: "d = Some x" "sr_duration f = Some y" "x \<noteq> 0" "y \<noteq> 0" by blast
    have "0 \<le> dur \<bar>y - x\<bar>" "dur \<bar>y - x\<bar> \<le> 1" using d by simp_all
    then have "0 \<le> 55 / 100 * title + 20 / 100 * artist + 25 / 100 * dur \<bar>y - x\<bar>"
        "55 / 100 * title + 20 / 100 * artist + 25 / 100 * dur \<bar>y - x\<bar> \<le> 1" using t a by linarith+
    moreover have "file_confidence ml tt ta d f strict
        = (55 / 100 * title + 20 / 100 * artist + 25 / 100 * dur \<bar>y - x\<bar>) * penalty"
      using xy unfolding file_confidence_def Let_def title_def artist_def penalty_def dur_def by simp
    ultimately show ?thesis by (rule that)
  next
    case False
    have "0 \<le> 65 / 100 * title + 35 / 100 * artist" "65 / 100 * title + 35 / 100 * artist \<le> 1"
      using t a by linarith+
    moreover have "file_confidence ml tt ta d f strict = (65 / 100 * title + 35 / 100 * artist) * penalty"
      using False unfolding file_confidence_def Let_def title_def artist_def penalty_def
      by (cases d; cases "sr_duration f") auto
    ultimately show ?thesis by (rule that)
  qed
  have "0 \<le> penalty" "penalty \<le> 1" by (simp_all add: penalty_def)
  with base show ?thesis by (simp add: mult_le_one)
qed

lemma coherence_parts:
  "0 \<le> count_ratio t n \<and> count_ratio t n \<le> 1" "0 \<le> format_consistency u files \<and> format_consistency u files \<le> 1"
  "0 \<le> bitrate_consistency bs \<and> bitrate_consistency bs \<le> 1" "0 \<le> no_junk u parent \<and> no_junk u parent \<le> 1"
  by (simp_all add: count_ratio_def format_consistency_def bitrate_consistency_def no_junk_def Let_def)

lemma coherence_bounds:
  assumes "scores_ok ml"
  shows "0 \<le> coherence ml t files parent q \<and> coherence ml t files parent q \<le> 1"
proof -
  define bs where "bs = filter (\<lambda>b. b \<noteq> 0) (List.map_filter sr_bitrate files)"
  define n where "n = (case q of None \<Rightarrow> length files | Some n \<Rightarrow> n)"
  define hint where "hint = ta_artist_name t @ [c_space] @ ta_album_title t
    @ (if num_or (ta_year t) 0 \<noteq> 0 then [c_space] @ py_str_int (num_or (ta_year t) 0) else [])"
  have "coherence ml t files parent q
      = 40 / 100 * count_ratio t n + 20 / 100 * similarity ml hint parent
        + 15 / 100 * format_consistency (ml_unidb ml) files + 15 / 100 * bitrate_consistency bs
        + 10 / 100 * no_junk (ml_unidb ml) parent"
    unfolding coherence_def Let_def bs_def n_def hint_def ..
  moreover note coherence_parts(1) [of t n] coherence_parts(2) [of "ml_unidb ml" files] coherence_parts(3) [of bs]
    coherence_parts(4) [of "ml_unidb ml" parent] similarity_bounds [OF assms, of hint parent]
  ultimately show ?thesis by linarith
qed

section \<open>What the ranking of folders promises\<close>

lemma score_folder_Some:
  assumes "score_folder ml p fm dx t auto_accept manual ((username, parent), files) = Some c"
  shows "sc_username c = username" "sc_parent_directory c = parent"
    "sc_files c = filter (is_audio (ml_unidb ml)) files" "sc_files c \<noteq> []"
    "fm \<Longrightarrow> list_all (is_flac_or_mp3 (ml_unidb ml)) (sc_files c)"
    "acceptable ml (folder_candidate ml t parent (sc_files c)) t dx p"
    "sc_tier c = folder_band auto_accept manual (has_artist_evidence ml (ta_artist_name t) (sc_files c))
       (sc_coherence c) (sc_final_score c)"
    "scores_ok ml \<Longrightarrow> 0 \<le> sc_final_score c \<and> sc_final_score c \<le> 1"
proof -
  define audio where "audio = filter (is_audio (ml_unidb ml)) files"
  define coh where "coh = coherence ml t audio parent (qualified_count ml t audio)"
  define confs where "confs = map (\<lambda>f. file_confidence ml (ta_album_title t) (ta_artist_name t)
      (ta_duration_seconds t) f (ta_track_count t = Some 1)) audio"
  define avg where "avg = sum_list confs / of_nat (length confs)"
  note a = assms [unfolded score_folder_def Let_def prod.case, folded audio_def, folded coh_def confs_def, folded avg_def]
  have c: "audio \<noteq> []" "fm \<longrightarrow> list_all (is_flac_or_mp3 (ml_unidb ml)) audio"
    "acceptable ml (folder_candidate ml t parent audio) t dx p"
    "c = \<lparr>sc_source = lit ''soulseek'', sc_username = username, sc_parent_directory = parent,
           sc_files = audio, sc_usenet_release = None, sc_coherence = coh, sc_file_confidence = avg,
           sc_final_score = 625 / 1000 * coh + 375 / 1000 * avg,
           sc_tier = folder_band auto_accept manual (has_artist_evidence ml (ta_artist_name t) audio) coh
             (625 / 1000 * coh + 375 / 1000 * avg),
           sc_candidate_index = None\<rparr>"
    using a by (auto simp: pipeline_is_acceptable split: if_splits)
  show "sc_username c = username" "sc_parent_directory c = parent"
    "sc_files c = filter (is_audio (ml_unidb ml)) files" "sc_files c \<noteq> []"
    "fm \<Longrightarrow> list_all (is_flac_or_mp3 (ml_unidb ml)) (sc_files c)"
    "acceptable ml (folder_candidate ml t parent (sc_files c)) t dx p"
    "sc_tier c = folder_band auto_accept manual (has_artist_evidence ml (ta_artist_name t) (sc_files c))
       (sc_coherence c) (sc_final_score c)"
    using c by (simp_all add: audio_def)
  show "0 \<le> sc_final_score c \<and> sc_final_score c \<le> 1" if ok: "scores_ok ml"
  proof -
    have each: "0 \<le> x \<and> x \<le> 1" if "x \<in> set confs" for x
      using that file_confidence_bounds [OF ok] by (auto simp: confs_def)
    then have "0 \<le> sum_list confs" by (simp add: sum_list_nonneg)
    moreover have "sum_list confs \<le> of_nat (length confs)"
    proof -
      have "(\<forall>x \<in> set xs. x \<le> (1 :: rat)) \<Longrightarrow> sum_list xs \<le> of_nat (length xs)" for xs
        by (induction xs) auto
      with each show ?thesis by blast
    qed
    moreover have "0 < (of_nat (length confs) :: rat)" using c(1) by (simp add: confs_def)
    ultimately have "0 \<le> avg" "avg \<le> 1" by (simp_all add: avg_def divide_le_eq)
    moreover have "0 \<le> coh" "coh \<le> 1" using coherence_bounds [OF ok] by (simp_all add: coh_def)
    ultimately have "0 \<le> 625 / 1000 * coh + 375 / 1000 * avg" "625 / 1000 * coh + 375 / 1000 * avg \<le> 1"
      by linarith+
    then show ?thesis by (simp add: c(4))
  qed
qed

lemma quarantine_iff:
  "not_quarantined dx f \<longleftrightarrow>
     (lit ''soulseek'', soulseek_identity (sr_username f) (sr_filename f)) \<notin> set (dx_quarantine_set dx)"
  by (simp add: not_quarantined_def quarantine_def default_candidate_def soulseek_identity_def)

text \<open>Every file of a folder that passes the pipeline is at least of the policy's lowest quality.\<close>

lemma acceptable_files_quality:
  assumes "acceptable ml (folder_candidate ml t parent audio) t dx p" "f \<in> set audio"
  shows "tier_rank (sp_quality_min p) \<le> tier_rank (file_tier (ml_unidb ml) f)"
proof -
  let ?u = "ml_unidb ml"
  have ne: "audio \<noteq> []" using assms(2) by auto
  have "candidate_tier ?u audio \<in> set TIER_KEYS"
    using candidate_tier_worst(1) [OF ne, of ?u] tier_for_cases by (auto simp: file_tier_def)
  then have "candidate_tier ?u audio \<noteq> lit ''unknown''" by (auto simp: TIER_KEYS_def lit.simps)
  then have "in_range (candidate_tier ?u audio) (sp_quality_min p) (sp_quality_max p)"
    using assms(1) by (simp add: acceptable_def fits_quality_def folder_candidate_def)
  from folder_in_range [OF ne this assms(2)] show ?thesis .
qed

text \<open>
  C26. Only folders that may be downloaded are offered, the safe ones first: every candidate of
  the ranking is one peer's folder of audio files that were found, none of them on the
  blocklist, each at least of the lowest wanted quality and, when the user wants only these, FLAC
  or MP3, and the folder passes every rule of the pipeline. It is taken without asking only when
  one of its paths names the artist and its score reaches the threshold. There are at most fifty,
  and none of a lower acceptance tier stands before one of a higher tier.
\<close>
theorem rank_folders_sound:
  assumes "scores_ok ml"
  shows "let ranked = rank_folders ml p fm dx t auto_accept manual results
         in length ranked \<le> 50
          \<and> sorted_wrt (\<lambda>a b. acceptance_rank (sc_tier b) \<le> acceptance_rank (sc_tier a)) ranked
          \<and> (\<forall>c \<in> set ranked.
               sc_files c \<noteq> [] \<and> 0 \<le> sc_final_score c \<and> sc_final_score c \<le> 1
               \<and> acceptable ml (folder_candidate ml t (sc_parent_directory c) (sc_files c)) t dx p
               \<and> (sc_tier c = lit ''auto'' \<longrightarrow>
                    auto_accept \<le> sc_final_score c \<and> has_artist_evidence ml (ta_artist_name t) (sc_files c))
               \<and> (\<forall>f \<in> set (sc_files c).
                    f \<in> set results \<and> is_audio (ml_unidb ml) f \<and> (fm \<longrightarrow> is_flac_or_mp3 (ml_unidb ml) f)
                    \<and> sr_username f = sc_username c \<and> sr_parent_directory f = sc_parent_directory c
                    \<and> (lit ''soulseek'', soulseek_identity (sr_username f) (sr_filename f))
                        \<notin> set (dx_quarantine_set dx)
                    \<and> tier_rank (sp_quality_min p) \<le> tier_rank (file_tier (ml_unidb ml) f)))"
proof -
  let ?groups = "group_by (\<lambda>r. (sr_username r, sr_parent_directory r)) (filter (not_quarantined dx) results)"
  let ?scored = "List.map_filter (score_folder ml p fm dx t auto_accept manual) ?groups"
  let ?key = "candidate_rank_key (ml_unidb ml)"
  have ranked: "rank_folders ml p fm dx t auto_accept manual results = take 50 (py_sort_desc ?key ?scored)"
    by (simp add: rank_folders_def Let_def)
  have sorted: "sorted_wrt (\<lambda>a b. acceptance_rank (sc_tier b) \<le> acceptance_rank (sc_tier a)) (take 50 (py_sort_desc ?key ?scored))"
    by (rule ranked_sorted) (auto simp: candidate_rank_key_def)
  have each: "sc_files c \<noteq> [] \<and> 0 \<le> sc_final_score c \<and> sc_final_score c \<le> 1
      \<and> acceptable ml (folder_candidate ml t (sc_parent_directory c) (sc_files c)) t dx p
      \<and> (sc_tier c = lit ''auto'' \<longrightarrow>
           auto_accept \<le> sc_final_score c \<and> has_artist_evidence ml (ta_artist_name t) (sc_files c))
      \<and> (\<forall>f \<in> set (sc_files c).
           f \<in> set results \<and> is_audio (ml_unidb ml) f \<and> (fm \<longrightarrow> is_flac_or_mp3 (ml_unidb ml) f)
           \<and> sr_username f = sc_username c \<and> sr_parent_directory f = sc_parent_directory c
           \<and> (lit ''soulseek'', soulseek_identity (sr_username f) (sr_filename f)) \<notin> set (dx_quarantine_set dx)
           \<and> tier_rank (sp_quality_min p) \<le> tier_rank (file_tier (ml_unidb ml) f))"
    if "c \<in> set (take 50 (py_sort_desc ?key ?scored))" for c
  proof -
    have "c \<in> set ?scored" by (rule subsetD [OF ranked_take(1) that])
    then obtain g where "g \<in> set ?groups" and "score_folder ml p fm dx t auto_accept manual g = Some c"
      by (auto simp: set_map_filter)
    moreover obtain username parent files where "g = ((username, parent), files)"
      by (cases g) (metis surj_pair)
    ultimately have g: "((username, parent), files) \<in> set ?groups"
      "score_folder ml p fm dx t auto_accept manual ((username, parent), files) = Some c" by simp_all
    note s = score_folder_Some [OF g(2)] and m = group_by_members [OF g(1)]
    have taken: "auto_accept \<le> sc_final_score c \<and> has_artist_evidence ml (ta_artist_name t) (sc_files c)"
      if "sc_tier c = lit ''auto''"
      using that s(7) by (auto simp: folder_band_def lit.simps split: if_splits)
    have member: "f \<in> set results \<and> is_audio (ml_unidb ml) f \<and> (fm \<longrightarrow> is_flac_or_mp3 (ml_unidb ml) f)
           \<and> sr_username f = sc_username c \<and> sr_parent_directory f = sc_parent_directory c
           \<and> (lit ''soulseek'', soulseek_identity (sr_username f) (sr_filename f)) \<notin> set (dx_quarantine_set dx)
           \<and> tier_rank (sp_quality_min p) \<le> tier_rank (file_tier (ml_unidb ml) f)"
      if f: "f \<in> set (sc_files c)" for f
    proof -
      have "f \<in> set files" "is_audio (ml_unidb ml) f" using f unfolding s(3) by auto
      moreover from this m have "f \<in> set results" "not_quarantined dx f"
        "sr_username f = username" "sr_parent_directory f = parent" by auto
      moreover have "fm \<longrightarrow> is_flac_or_mp3 (ml_unidb ml) f" using s(5) f by (auto simp: list_all_iff)
      ultimately show ?thesis using acceptable_files_quality [OF s(6) f] s(1,2) by (simp add: quarantine_iff)
    qed
    have pos: "0 \<le> sc_final_score c" "sc_final_score c \<le> 1" using s(8) [OF assms] by simp_all
    have acc: "acceptable ml (folder_candidate ml t (sc_parent_directory c) (sc_files c)) t dx p"
      using s(6) unfolding s(2) .
    note files = ballI [OF member]
    show ?thesis by (intro conjI s(4) pos acc impI) (rule taken [THEN conjunct1], assumption,
        rule taken [THEN conjunct2], assumption, rule files)
  qed
  show ?thesis unfolding ranked Let_def by (intro conjI ballI ranked_take(2) sorted each)
qed

text \<open>A lossless file in a folder without a name, for concrete runs.\<close>

definition plain_file :: search_result where
  "plain_file = \<lparr>sr_username = [], sr_filename = [], sr_parent_directory = [], sr_size = 1000,
     sr_extension = lit ''flac'', sr_bitrate = None, sr_bit_depth = None, sr_sample_rate = None,
     sr_duration = None, sr_has_free_slot = True, sr_upload_speed = 0, sr_queue_length = None\<rparr>"

lemma plain_file_facts [simp]:
  "is_audio ascii_db plain_file" "is_flac_or_mp3 ascii_db plain_file" "file_tier ascii_db plain_file = lit ''lossless''"
  by (simp_all add: is_audio_def is_flac_or_mp3_def file_tier_def tier_for_def effective_extension_def plain_file_def
      AUDIO_EXT_def FLAC_MP3_EXT_def LOSSLESS_EXT_def py_lower_def is_ascii_def lit.simps lower_ascii_def
      is_upper_ascii_def lstrip_by_def)

theorem rank_folders_sound_witness:
  "\<exists>c. rank_folders plain_lib default_policy True (build_context [] None 60 None None) plain_album
       (7 / 10) (1 / 2) [plain_file] = [c]
     \<and> sc_files c = [plain_file] \<and> 0 \<le> sc_final_score c \<and> sc_final_score c \<le> 1"
proof -
  let ?dx = "build_context [] None 60 None None"
  let ?c = "folder_candidate plain_lib plain_album [] [plain_file]"
  have db: "ml_unidb plain_lib = ascii_db" by (simp add: plain_lib_def)
  have "cd_match_text ?c = []" by (simp add: folder_candidate_def)
  note fits = empty_text_fits [OF this] plain_album_fits [of ?c]
  have tier: "candidate_tier ascii_db [plain_file] = lit ''lossless''" by (simp add: candidate_tier_def)
  have acc: "run_pipeline plain_lib ?c plain_album ?dx default_policy = Accept"
    using fits tier
    by (simp add: run_pipeline_def SPECS_def quarantine_def password_def ignored_terms_def required_terms_def
        quality_range_def in_range_def upgrade_floor_def max_size_def retention_def min_age_def free_space_def
        folder_candidate_def default_candidate_def default_policy_def build_context_def db)
  have "sr_username plain_file = []" "sr_parent_directory plain_file = []" by (simp_all add: plain_file_def)
  then have groups: "group_by (\<lambda>r. (sr_username r, sr_parent_directory r)) [plain_file] = [(([], []), [plain_file])]"
    by (simp add: group_by_def dict_get_def)
  obtain c where c: "score_folder plain_lib default_policy True ?dx plain_album (7 / 10) (1 / 2) (([], []), [plain_file]) = Some c"
    using acc by (simp add: score_folder_def Let_def db)
  have "not_quarantined ?dx plain_file" by (simp add: quarantine_iff build_context_def)
  then have one: "rank_folders plain_lib default_policy True ?dx plain_album (7 / 10) (1 / 2) [plain_file] = [c]"
    by (simp add: rank_folders_def Let_def groups map_filter_def c py_sort_desc_def)
  have "sc_files c = [plain_file]" using score_folder_Some(3) [OF c] by (simp add: db)
  moreover have "scores_ok plain_lib" by (simp add: scores_ok_def plain_lib_def)
  from rank_folders_sound [OF this, of default_policy True ?dx plain_album "7 / 10" "1 / 2" "[plain_file]"]
  have "0 \<le> sc_final_score c \<and> sc_final_score c \<le> 1" unfolding one Let_def by simp
  ultimately show ?thesis using one by blast
qed

end
