(* ===== verification/Track_Matcher.thy ===== *)
theory Track_Matcher
  imports Preflight_Scorer
begin

text \<open>
  \<open>services/native/track_matcher.py\<close>: the ranking of single files for one wanted track, one
  candidate per peer. A file is scored with the strict title of the album scorer.
\<close>

section \<open>The matcher\<close>

record target_track =
  tt_artist_name :: pystr
  tt_track_title :: pystr
  tt_album_title :: "pystr option"
  tt_duration_seconds :: "rat option"
  tt_recording_mbid :: "pystr option"
  tt_release_group_mbid :: "pystr option"

definition track_acceptance :: "matchlib \<Rightarrow> pystr \<Rightarrow> rat \<Rightarrow> rat \<Rightarrow> search_result \<Rightarrow> rat \<Rightarrow> pystr" where
  "track_acceptance ml artist auto_accept manual f score =
     (if auto_accept \<le> score \<and> artist_evidence ml artist (sr_filename f) then lit ''auto''
      else if manual \<le> score then lit ''manual'' else lit ''rejected'')"

definition track_score :: "matchlib \<Rightarrow> target_track \<Rightarrow> search_result \<Rightarrow> rat" where
  "track_score ml t f =
     file_confidence ml (tt_track_title t) (tt_artist_name t) (tt_duration_seconds t) f True"

definition track_rank_key :: "unidb \<Rightarrow> pystr \<Rightarrow> rat \<Rightarrow> search_result \<Rightarrow> rat list" where
  "track_rank_key u acceptance score f =
     [of_nat (acceptance_rank acceptance), of_nat (tier_rank (file_tier u f)),
      of_int (fst (folder_hires_key [f])), of_int (snd (folder_hires_key [f])),
      flag (sr_has_free_slot f), flag (sr_queue_length f \<noteq> None),
      - of_int (case sr_queue_length f of None \<Rightarrow> 2147483647 | Some q \<Rightarrow> q),
      of_int (sr_upload_speed f), - of_int (sr_size f), score]"

definition scored_track ::
  "matchlib \<Rightarrow> target_track \<Rightarrow> rat \<Rightarrow> rat \<Rightarrow> search_result \<Rightarrow> rat list \<times> rat \<times> pystr \<times> search_result" where
  "scored_track ml t auto_accept manual f =
     (let score = track_score ml t f;
          acceptance = track_acceptance ml (tt_artist_name t) auto_accept manual f score
      in (track_rank_key (ml_unidb ml) acceptance score f, score, acceptance, f))"

text \<open>The loop over the sorted files: a peer that was seen is skipped; the limit ends it.\<close>

fun first_per_peer ::
  "int \<Rightarrow> pystr list \<Rightarrow> nat \<Rightarrow> (rat list \<times> rat \<times> pystr \<times> search_result) list \<Rightarrow> scored_candidate list" where
  "first_per_peer limit seen n [] = []"
| "first_per_peer limit seen n ((key, score, acceptance, f) # rest) =
     (if List.member seen (sr_username f) then first_per_peer limit seen n rest
      else \<lparr>sc_source = lit ''soulseek'', sc_username = sr_username f,
            sc_parent_directory = sr_parent_directory f, sc_files = [f], sc_usenet_release = None,
            sc_coherence = score, sc_file_confidence = score, sc_final_score = score,
            sc_tier = acceptance, sc_candidate_index = None\<rparr>
           # (if limit \<le> int (Suc n) then []
              else first_per_peer limit (sr_username f # seen) (Suc n) rest))"

definition track_filter ::
  "unidb \<Rightarrow> (pystr \<times> pystr) list \<Rightarrow> bool \<Rightarrow> pystr \<Rightarrow> pystr \<Rightarrow> pystr option \<Rightarrow> search_result \<Rightarrow> bool" where
  "track_filter u quarantined flac_mp3_only quality_min quality_max held f \<longleftrightarrow>
     \<not> List.member quarantined (lit ''soulseek'', soulseek_identity (sr_username f) (sr_filename f))
     \<and> is_audio u f \<and> (flac_mp3_only \<longrightarrow> is_flac_or_mp3 u f)
     \<and> in_range (file_tier u f) quality_min quality_max
     \<and> (case held of None \<Rightarrow> True | Some tier \<Rightarrow> tier_rank tier < tier_rank (file_tier u f))"

definition rank_tracks ::
  "matchlib \<Rightarrow> (pystr \<times> pystr) list \<Rightarrow> bool \<Rightarrow> pystr \<Rightarrow> pystr \<Rightarrow> pystr option \<Rightarrow> target_track \<Rightarrow> rat \<Rightarrow> rat
     \<Rightarrow> int \<Rightarrow> search_result list \<Rightarrow> scored_candidate list" where
  "rank_tracks ml quarantined flac_mp3_only quality_min quality_max held t auto_accept manual limit results =
     (let filtered = filter (track_filter (ml_unidb ml) quarantined flac_mp3_only quality_min quality_max held) results
      in first_per_peer limit [] 0
           (py_sort_desc fst (map (scored_track ml t auto_accept manual) filtered)))"

definition match_track ::
  "matchlib \<Rightarrow> (pystr \<times> pystr) list \<Rightarrow> bool \<Rightarrow> pystr \<Rightarrow> pystr \<Rightarrow> target_track \<Rightarrow> rat \<Rightarrow> rat
     \<Rightarrow> search_result list \<Rightarrow> scored_candidate option" where
  "match_track ml quarantined flac_mp3_only quality_min quality_max t auto_accept manual results =
     (case rank_tracks ml quarantined flac_mp3_only quality_min quality_max None t auto_accept manual 20 results of
        [] \<Rightarrow> None
      | c # _ \<Rightarrow> Some c)"

section \<open>What the matcher promises\<close>

lemma first_per_peer_length: "int n < limit \<Longrightarrow> int (n + length (first_per_peer limit seen n xs)) \<le> limit"
  by (induction limit seen n xs rule: first_per_peer.induct) auto

lemma first_per_peer_distinct:
  "distinct (map sc_username (first_per_peer limit seen n xs))
     \<and> set (map sc_username (first_per_peer limit seen n xs)) \<inter> set seen = {}"
  by (induction limit seen n xs rule: first_per_peer.induct) auto

lemma first_per_peer_origin:
  "c \<in> set (first_per_peer limit seen n xs) \<Longrightarrow>
     \<exists>key score acceptance f. (key, score, acceptance, f) \<in> set xs \<and> sc_files c = [f]
       \<and> sc_username c = sr_username f \<and> sc_final_score c = score \<and> sc_tier c = acceptance"
  by (induction limit seen n xs rule: first_per_peer.induct) (auto split: if_splits)

text \<open>Each peer is represented by its best file: the first one of the sorted list.\<close>

lemma first_per_peer_best:
  "sorted_wrt (\<lambda>a b. fst b \<le> fst a) xs \<Longrightarrow> c \<in> set (first_per_peer limit seen n xs) \<Longrightarrow>
     \<exists>key. (key, sc_final_score c, sc_tier c, hd (sc_files c)) \<in> set xs
       \<and> (\<forall>e \<in> set xs. sr_username (snd (snd (snd e))) = sc_username c \<longrightarrow> fst e \<le> key)"
proof (induction limit seen n xs rule: first_per_peer.induct)
  case (2 limit seen n key score acceptance f rest)
  show ?case
  proof (cases "c \<in> set (first_per_peer limit seen n rest) \<and> List.member seen (sr_username f)")
    case True
    then have "sc_username c \<noteq> sr_username f"
      using first_per_peer_distinct [of limit seen n rest] by (auto simp: image_iff) 
    with 2(1) True 2(3) show ?thesis by auto
  next
    case False
    then have new: "\<not> List.member seen (sr_username f)" using 2(4) by (auto split: if_splits)
    show ?thesis
    proof (cases "c \<in> set (first_per_peer limit (sr_username f # seen) (Suc n) rest) \<and> \<not> limit \<le> int (Suc n)")
      case True
      then have "sc_username c \<noteq> sr_username f"
        using first_per_peer_distinct [of limit "sr_username f # seen" "Suc n" rest] by (auto simp: image_iff)
      with 2(2) [OF new] True 2(3) show ?thesis by auto
    next
      case False
      then have c: "sc_username c = sr_username f" "sc_files c = [f]" "sc_final_score c = score" "sc_tier c = acceptance"
        using 2(4) new by (auto split: if_splits)
      have "\<forall>e \<in> set ((key, score, acceptance, f) # rest). fst e \<le> key" using 2(3) by auto
      then show ?thesis using c by (intro exI [of _ key]) simp
    qed
  qed
qed simp

text \<open>
  C27. One candidate per peer, and its best file: the ranking for a track has at most the wanted
  number of candidates, of different peers, each a single file that was found and passed the
  filters (not on the blocklist, audio, FLAC or MP3 when only these are wanted, in the quality
  range, better than the held copy), and no file of the same peer that passed them ranks higher.
  A file is taken without asking only when its path names the artist and its score reaches the
  threshold.
\<close>
theorem rank_tracks_sound:
  assumes "1 \<le> limit"
  shows "let u = ml_unidb ml; ok = track_filter u quarantined fm quality_min quality_max held;
             key = (\<lambda>f. fst (scored_track ml t auto_accept manual f));
             ranked = rank_tracks ml quarantined fm quality_min quality_max held t auto_accept manual limit results
         in int (length ranked) \<le> limit \<and> distinct (map sc_username ranked)
          \<and> (\<forall>c \<in> set ranked. \<exists>f \<in> set results. sc_files c = [f] \<and> sc_username c = sr_username f \<and> ok f
               \<and> (\<forall>g \<in> set results. ok g \<and> sr_username g = sr_username f \<longrightarrow> key g \<le> key f)
               \<and> sc_tier c = track_acceptance ml (tt_artist_name t) auto_accept manual f (track_score ml t f))"
proof -
  let ?ok = "track_filter (ml_unidb ml) quarantined fm quality_min quality_max held"
  let ?scored = "scored_track ml t auto_accept manual"
  let ?sorted = "py_sort_desc fst (map ?scored (filter ?ok results))"
  let ?ranked = "first_per_peer limit [] 0 ?sorted"
  have ranked: "rank_tracks ml quarantined fm quality_min quality_max held t auto_accept manual limit results = ?ranked"
    by (simp add: rank_tracks_def Let_def)
  have "int (0 + length ?ranked) \<le> limit" by (rule first_per_peer_length) (use assms in simp)
  then have len: "int (length ?ranked) \<le> limit" by simp
  have dist: "distinct (map sc_username ?ranked)" using first_per_peer_distinct [of limit "[]" 0 ?sorted] by blast
  have parts: "?scored f = (k, s, a, g) \<Longrightarrow>
      g = f \<and> a = track_acceptance ml (tt_artist_name t) auto_accept manual f (track_score ml t f)" for f k s a g
    by (auto simp: scored_track_def Let_def)
  have each: "\<exists>f \<in> set results. sc_files c = [f] \<and> sc_username c = sr_username f \<and> ?ok f
      \<and> (\<forall>g \<in> set results. ?ok g \<and> sr_username g = sr_username f \<longrightarrow> fst (?scored g) \<le> fst (?scored f))
      \<and> sc_tier c = track_acceptance ml (tt_artist_name t) auto_accept manual f (track_score ml t f)"
    if c: "c \<in> set ?ranked" for c
  proof -
    obtain h where h: "sc_files c = [h]" "sc_username c = sr_username h"
      using first_per_peer_origin [OF c] by blast
    obtain k where k: "(k, sc_final_score c, sc_tier c, hd (sc_files c)) \<in> set ?sorted"
      "\<forall>e \<in> set ?sorted. sr_username (snd (snd (snd e))) = sc_username c \<longrightarrow> fst e \<le> k"
      using first_per_peer_best [OF sort_desc_sorted c] by blast
    have "(k, sc_final_score c, sc_tier c, h) \<in> set (map ?scored (filter ?ok results))"
      using k(1) h(1) by simp
    then obtain f where f: "f \<in> set (filter ?ok results)" "?scored f = (k, sc_final_score c, sc_tier c, h)"
      by auto
    have "h = f" "sc_tier c = track_acceptance ml (tt_artist_name t) auto_accept manual f (track_score ml t f)"
      using parts [OF f(2)] by blast+
    with f have f: "h \<in> set results" "?ok h" "?scored h = (k, sc_final_score c, sc_tier c, h)"
      "sc_tier c = track_acceptance ml (tt_artist_name t) auto_accept manual h (track_score ml t h)" by auto
    have "fst (?scored g) \<le> fst (?scored h)" if "g \<in> set results" "?ok g" "sr_username g = sr_username h" for g
    proof -
      have "?scored g \<in> set ?sorted" using that by simp
      moreover have "snd (snd (snd (?scored g))) = g" by (simp add: scored_track_def Let_def)
      ultimately show ?thesis using k(2) that(3) h(2) f(3) by auto
    qed
    with f h show ?thesis by blast
  qed
  show ?thesis unfolding ranked Let_def by (intro conjI ballI len dist each)
qed

theorem rank_tracks_sound_witness:
  "\<exists>c. rank_tracks plain_lib [] True DEFAULT_QUALITY_MIN DEFAULT_QUALITY_MAX None
       \<lparr>tt_artist_name = [], tt_track_title = [], tt_album_title = None, tt_duration_seconds = None,
        tt_recording_mbid = None, tt_release_group_mbid = None\<rparr> (7 / 10) (1 / 2) 20 [plain_file, plain_file] = [c]
     \<and> sc_files c = [plain_file]"
proof -
  let ?t = "\<lparr>tt_artist_name = [], tt_track_title = [], tt_album_title = None, tt_duration_seconds = None,
        tt_recording_mbid = None, tt_release_group_mbid = None\<rparr>"
  have db: "ml_unidb plain_lib = ascii_db" by (simp add: plain_lib_def)
  have ok: "track_filter ascii_db [] True DEFAULT_QUALITY_MIN DEFAULT_QUALITY_MAX None plain_file"
    by (simp add: track_filter_def in_range_def DEFAULT_QUALITY_MIN_def DEFAULT_QUALITY_MAX_def)
  obtain k s a where sc: "scored_track plain_lib ?t (7 / 10) (1 / 2) plain_file = (k, s, a, plain_file)"
    by (simp add: scored_track_def Let_def)
  obtain c where one: "rank_tracks plain_lib [] True DEFAULT_QUALITY_MIN DEFAULT_QUALITY_MAX None ?t
      (7 / 10) (1 / 2) 20 [plain_file, plain_file] = [c]"
    by (simp add: rank_tracks_def Let_def db ok sc py_sort_desc_def)
  from rank_tracks_sound [of 20 plain_lib "[]" True DEFAULT_QUALITY_MIN DEFAULT_QUALITY_MAX None ?t "7 / 10" "1 / 2"
      "[plain_file, plain_file]"]
  have "sc_files c = [plain_file]" unfolding one Let_def by auto
  with one show ?thesis by blast
qed

end
