(* ===== verification/Riff_Info.thy ===== *)
theory Riff_Info
  imports Py_Text "HOL-Library.List_Lexorder"
begin

text \<open>
  \<open>infrastructure/audio/riff_info.py\<close>: the INFO metadata of WAV files. A file is its list of
  bytes; what the code finds by offsets (\<open>position\<close>, \<open>data_offset\<close>, \<open>padded_size\<close>) is here the
  bytes between them. The file does not change while it is read, so the branches for a read that
  comes up short are left out. Writing goes to a temporary file that replaces the old one at the
  end: the result is the new content, or an error, which leaves the old content.
\<close>

section \<open>Chunks\<close>

datatype riff_error = UnsupportedAudioFormat | AudioWrite | ValueNotEncodable

definition MAX_INFO_BYTES :: nat where "MAX_INFO_BYTES = 16 * 1024 * 1024"

text \<open>\<open>struct.pack("<I", n)\<close> and its inverse, for four bytes.\<close>

definition le32 :: "nat \<Rightarrow> nat list" where
  "le32 n = [n mod 256, n div 256 mod 256, n div 65536 mod 256, n div 16777216 mod 256]"

fun of_le :: "nat list \<Rightarrow> nat" where
  "of_le [] = 0"
| "of_le (b # bs) = b + 256 * of_le bs"

record riff_chunk =
  ck_id :: "nat list"
  ck_size :: nat
  ck_raw :: "nat list"    \<comment> \<open>header, data and padding\<close>

text \<open>\<open>_chunks\<close>: the chunks, the bytes after them, and whether the table ended without an error.\<close>

function riff_chunks :: "nat list \<Rightarrow> riff_chunk list \<times> nat list \<times> bool" where
  "riff_chunks bs =
     (if length bs < 8 then ([], bs, True)
      else let size = of_le (take 4 (drop 4 bs)); padded = size + size mod 2
           in if length bs < 8 + padded then ([], bs, False)
              else let (cs, rest, ok) = riff_chunks (drop (8 + padded) bs)
                   in (\<lparr>ck_id = take 4 bs, ck_size = size, ck_raw = take (8 + padded) bs\<rparr> # cs, rest, ok))"
  by pat_completeness auto
termination
  by (relation "measure length") (simp_all add: Let_def)

declare riff_chunks.simps [simp del]

definition is_riff :: "nat list \<Rightarrow> bool" where
  "is_riff file \<longleftrightarrow>
     12 \<le> length file \<and> take 4 file = lit ''RIFF'' \<and> take 4 (drop 8 file) = lit ''WAVE''"

definition is_info :: "riff_chunk \<Rightarrow> bool" where
  "is_info c \<longleftrightarrow> ck_id c = lit ''LIST'' \<and> 4 \<le> ck_size c \<and> take 4 (drop 8 (ck_raw c)) = lit ''INFO''"

section \<open>Reading\<close>

text \<open>The items of an INFO chunk, as keys and raw values; \<open>None\<close> when one is truncated.\<close>

function info_items :: "nat list \<Rightarrow> (nat list \<times> nat list) list option" where
  "info_items bs =
     (if length bs < 8 then Some []
      else let size = of_le (take 4 (drop 4 bs)); padded = size + size mod 2
           in if length bs - 8 < padded then None
              else map_option (Cons (take 4 bs, take size (drop 8 bs))) (info_items (drop (8 + padded) bs)))"
  by pat_completeness auto
termination
  by (relation "measure length") (simp_all add: Let_def)

declare info_items.simps [simp del]

definition REPLACEMENT :: pystr where "REPLACEMENT = [65533]"

definition info_value :: "unidb \<Rightarrow> nat list \<Rightarrow> pystr" where
  "info_value u raw = py_strip u (utf8_decode REPLACEMENT (rstrip_by (\<lambda>b. b = 0) raw))"

definition add_item :: "unidb \<Rightarrow> nat list \<times> nat list \<Rightarrow> (pystr, pystr list) odict \<Rightarrow> (pystr, pystr list) odict" where
  "add_item u item d =
     (let key = fst item; value = info_value u (snd item)
      in if \<not> is_ascii key \<or> value = [] then d
         else dict_set d key ((case dict_get d key of None \<Rightarrow> [] | Some vs \<Rightarrow> vs) @ [value]))"

fun read_chunks ::
  "unidb \<Rightarrow> nat \<Rightarrow> (pystr, pystr list) odict \<Rightarrow> riff_chunk list \<Rightarrow> (pystr, pystr list) odict option" where
  "read_chunks u total_info d [] = Some d"
| "read_chunks u total_info d (c # cs) =
     (if \<not> is_info c then read_chunks u total_info d cs
      else let total_info = total_info + (ck_size c - 4)
           in if MAX_INFO_BYTES < total_info then None
              else case info_items (take (ck_size c - 4) (drop 12 (ck_raw c))) of
                     None \<Rightarrow> None
                   | Some items \<Rightarrow> read_chunks u total_info (fold (add_item u) items d) cs)"

definition read_riff_info :: "unidb \<Rightarrow> nat list \<Rightarrow> riff_error + (pystr, pystr list) odict" where
  "read_riff_info u file =
     (if \<not> is_riff file then Inl UnsupportedAudioFormat
      else let (cs, rest, ok) = riff_chunks (drop 12 file)
           in case read_chunks u 0 [] cs of
                None \<Rightarrow> Inl UnsupportedAudioFormat
              | Some d \<Rightarrow> if ok then Inr d else Inl UnsupportedAudioFormat)"

section \<open>Writing\<close>

definition encoded_value :: "pystr \<Rightarrow> pystr \<Rightarrow> riff_error + nat list" where
  "encoded_value key value =
     (case utf8_encode value of
        Inl _ \<Rightarrow> Inl ValueNotEncodable
      | Inr bs \<Rightarrow>
          (let encoded = bs @ [0]
           in if MAX_INFO_BYTES < length encoded then Inl AudioWrite
              else Inr (key @ le32 (length encoded) @ encoded @ (if odd (length encoded) then [0] else []))))"

definition encoded_key :: "pystr \<Rightarrow> pystr list \<Rightarrow> riff_error + nat list" where
  "encoded_key key vs =
     (if length key \<noteq> 4 \<or> \<not> is_ascii key then Inl AudioWrite
      else rbind (rmap (encoded_value key) vs) (\<lambda>parts. Inr (concat parts)))"

definition encoded_info :: "(pystr, pystr list) odict \<Rightarrow> riff_error + nat list" where
  "encoded_info values =
     rbind (rmap (\<lambda>key. encoded_key key (case dict_get values key of None \<Rightarrow> [] | Some vs \<Rightarrow> vs))
              (sort (dict_keys values)))
       (\<lambda>parts. let payload = lit ''INFO'' @ concat parts
                in if MAX_INFO_BYTES < length payload then Inl AudioWrite else Inr payload)"

definition info_chunk :: "nat list \<Rightarrow> nat list" where
  "info_chunk info =
     (if 4 < length info
      then lit ''LIST'' @ le32 (length info) @ info @ (if odd (length info) then [0] else [])
      else [])"

definition write_riff_info :: "nat list \<Rightarrow> (pystr, pystr list) odict \<Rightarrow> riff_error + nat list" where
  "write_riff_info file values =
     rbind (encoded_info values) (\<lambda>info.
       if \<not> is_riff file then Inl AudioWrite
       else let (cs, rest, ok) = riff_chunks (drop 12 file);
                body = concat (map ck_raw (filter (\<lambda>c. \<not> is_info c) cs)) @ rest @ info_chunk info;
                final_size = 12 + length body
            in if \<not> ok then Inl UnsupportedAudioFormat
               else if 4294967295 < final_size - 8 then Inl AudioWrite
               else Inr (lit ''RIFF'' @ le32 (final_size - 8) @ lit ''WAVE'' @ body))"

section \<open>What is written is read back\<close>

lemma length_le32 [simp]: "length (le32 n) = 4"
  by (simp add: le32_def)

lemma of_le_le32: "n < 4294967296 \<Longrightarrow> of_le (le32 n) = n"
proof -
  assume "n < 4294967296"
  then have "n div 16777216 mod 256 = n div 16777216" by auto
  moreover have "n div 65536 = n div 256 div 256" "n div 16777216 = n div 256 div 256 div 256"
    by (simp_all add: div_mult2_eq [symmetric])
  ultimately show ?thesis by (simp add: le32_def)
qed

definition padding :: "'b list \<Rightarrow> nat list" where
  "padding bs = (if odd (length bs) then [0] else [])"

definition block_bytes :: "nat list \<Rightarrow> nat list \<Rightarrow> nat list" where
  "block_bytes key bs = key @ le32 (length bs) @ bs @ padding bs"

lemma length_padding: "length (padding bs) = length bs mod 2"
  by (simp add: padding_def odd_iff_mod_2_eq_one)

lemma length_block_bytes:
  "length key = 4 \<Longrightarrow> length (block_bytes key bs) = 8 + (length bs + length bs mod 2)"
  by (simp add: block_bytes_def length_padding)

lemma info_items_block:
  assumes "length key = 4" "length bs < 4294967296"
  shows "info_items (block_bytes key bs @ suf) = map_option (Cons (key, bs)) (info_items suf)"
proof -
  have "take 4 (drop 4 (block_bytes key bs @ suf)) = le32 (length bs)"
    "take 4 (block_bytes key bs @ suf) = key"
    "take (length bs) (drop 8 (block_bytes key bs @ suf)) = bs"
    using assms(1) by (simp_all add: block_bytes_def)
  moreover have "drop (8 + (length bs + length bs mod 2)) (block_bytes key bs @ suf) = suf"
    using length_block_bytes [OF assms(1)] by simp
  moreover have "length (block_bytes key bs @ suf) = 8 + (length bs + length bs mod 2) + length suf"
    using length_block_bytes [OF assms(1)] by simp
  ultimately show ?thesis
    using assms(2) by (subst info_items.simps) (simp add: of_le_le32 Let_def)
qed

lemma riff_chunks_block:
  assumes "length key = 4" "length bs < 4294967296"
  shows "riff_chunks (block_bytes key bs) =
           ([\<lparr>ck_id = key, ck_size = length bs, ck_raw = block_bytes key bs\<rparr>], [], True)"
proof -
  have "take 4 (drop 4 (block_bytes key bs)) = le32 (length bs)" "take 4 (block_bytes key bs) = key"
    using assms(1) by (simp_all add: block_bytes_def)
  then show ?thesis
    using assms(2) length_block_bytes [OF assms(1), of bs]
    by (subst riff_chunks.simps) (simp add: of_le_le32 Let_def riff_chunks.simps [of "[]"])
qed

text \<open>A table that ends exactly at the end of the file is the chunks one after the other.\<close>

definition chunk_wf :: "riff_chunk \<Rightarrow> bool" where
  "chunk_wf c \<longleftrightarrow>
     ck_id c = take 4 (ck_raw c) \<and> ck_size c = of_le (take 4 (drop 4 (ck_raw c)))
     \<and> length (ck_raw c) = 8 + (ck_size c + ck_size c mod 2)"

lemma riff_chunks_wf: "riff_chunks bs = (cs, rest, ok) \<Longrightarrow> list_all chunk_wf cs"
proof (induction bs arbitrary: cs rest ok rule: riff_chunks.induct)
  case (1 bs)
  let ?size = "of_le (take 4 (drop 4 bs))"
  show ?case
  proof (cases "length bs < 8 \<or> length bs < 8 + (?size + ?size mod 2)")
    case True
    then show ?thesis using "1.prems" by (subst (asm) riff_chunks.simps) (auto simp: Let_def split: if_splits)
  next
    case False
    obtain cs' rest' ok' where rec: "riff_chunks (drop (8 + (?size + ?size mod 2)) bs) = (cs', rest', ok')"
      by (metis prod_cases3)
    then have "list_all chunk_wf cs'" using "1.IH" [OF _ refl refl] False by auto
    moreover have "cs = \<lparr>ck_id = take 4 bs, ck_size = ?size, ck_raw = take (8 + (?size + ?size mod 2)) bs\<rparr> # cs'"
      using "1.prems" False rec by (subst (asm) riff_chunks.simps) (auto simp: Let_def)
    moreover have "chunk_wf \<lparr>ck_id = take 4 bs, ck_size = ?size, ck_raw = take (8 + (?size + ?size mod 2)) bs\<rparr>"
      using False by (simp add: chunk_wf_def min_def take_drop)
    ultimately show ?thesis by simp
  qed
qed

lemma take_within: "n \<le> length xs \<Longrightarrow> take n (xs @ ys) = take n xs"
  by simp

lemma drop_within: "n \<le> length xs \<Longrightarrow> drop n (xs @ ys) = drop n xs @ ys"
  by simp

lemma riff_chunks_append:
  assumes "list_all chunk_wf cs"
  shows "riff_chunks (concat (map ck_raw cs) @ suf) =
           (case riff_chunks suf of (cs', rest, ok) \<Rightarrow> (cs @ cs', rest, ok))"
  using assms
proof (induction cs)
  case (Cons c cs)
  let ?bs = "ck_raw c @ concat (map ck_raw cs) @ suf"
  have c: "chunk_wf c" using Cons.prems by simp
  then have len: "length (ck_raw c) = 8 + (ck_size c + ck_size c mod 2)"
    by (simp only: chunk_wf_def)
  have "take 4 ?bs = take 4 (ck_raw c)" "take 4 (drop 4 ?bs) = take 4 (drop 4 (ck_raw c))"
    by (simp_all add: take_within drop_within len)
  with c have "take 4 ?bs = ck_id c" "of_le (take 4 (drop 4 ?bs)) = ck_size c"
    by (simp_all only: chunk_wf_def)
  moreover have "take (8 + (ck_size c + ck_size c mod 2)) ?bs = ck_raw c"
    "drop (8 + (ck_size c + ck_size c mod 2)) ?bs = concat (map ck_raw cs) @ suf"
    unfolding len [symmetric] by simp_all
  ultimately have "riff_chunks ?bs =
      (case riff_chunks (concat (map ck_raw cs) @ suf) of (cs', rest, ok) \<Rightarrow> (c # cs', rest, ok))"
    using len by (subst riff_chunks.simps) (cases c, simp add: Let_def)
  with Cons show ?case by (simp split: prod.splits)
qed simp

text \<open>The values that survive: not empty, without blanks or NUL characters at their ends.\<close>

definition clean_value :: "unidb \<Rightarrow> pystr \<Rightarrow> bool" where
  "clean_value u v \<longleftrightarrow> v \<noteq> [] \<and> py_strip u v = v \<and> last v \<noteq> 0"

definition raw_value :: "pystr \<Rightarrow> nat list" where
  "raw_value v = concat (map utf8_char v) @ [0]"

lemma last_utf8_char: "c \<noteq> 0 \<Longrightarrow> utf8_char c \<noteq> [] \<and> last (utf8_char c) \<noteq> 0"
  by (simp add: utf8_char_def)

lemma decode_chars: "list_all encodable v \<Longrightarrow> utf8_decode r (concat (map utf8_char v)) = v"
  by (induction v) (simp_all add: decode_char)

lemma rstrip_zero:
  fixes bs :: "nat list"
  assumes "bs \<noteq> []" "last bs \<noteq> 0"
  shows "rstrip_by (\<lambda>b. b = 0) (bs @ [0]) = bs"
proof -
  obtain xs x where "bs = xs @ [x]" using assms(1) by (metis rev_exhaust)
  with assms(2) show ?thesis by (simp add: rstrip_by_def)
qed

lemma info_value_raw:
  assumes "clean_value u v" "list_all encodable v"
  shows "info_value u (raw_value v) = v"
proof -
  have v: "v = butlast v @ [last v]" "last v \<noteq> 0" using assms(1) by (auto simp: clean_value_def)
  have "concat (map utf8_char v) = concat (map utf8_char (butlast v)) @ utf8_char (last v)"
    by (subst v(1)) simp
  then have "concat (map utf8_char v) \<noteq> []" "last (concat (map utf8_char v)) \<noteq> 0"
    using last_utf8_char [OF v(2)] by auto
  then have "rstrip_by (\<lambda>b. b = 0) (raw_value v) = concat (map utf8_char v)"
    unfolding raw_value_def by (rule rstrip_zero)
  with assms show ?thesis by (simp add: info_value_def decode_chars clean_value_def)
qed

lemma encoded_value_Inr:
  "encoded_value k v = Inr bs \<Longrightarrow>
   list_all encodable v \<and> bs = block_bytes k (raw_value v) \<and> length (raw_value v) \<le> MAX_INFO_BYTES"
  by (auto simp: encoded_value_def utf8_encode_def raw_value_def block_bytes_def padding_def Let_def
      split: if_splits sum.splits)

lemma encoded_values_items:
  assumes "rmap (encoded_value k) vs = Inr parts" "length k = 4"
  shows "list_all (list_all encodable) vs \<and>
    info_items (concat parts @ suf) = map_option (\<lambda>items. map (\<lambda>v. (k, raw_value v)) vs @ items) (info_items suf)"
  using assms(1)
proof (induction vs arbitrary: parts)
  case Nil
  then show ?case by (cases "info_items suf") simp_all
next
  case (Cons v vs)
  then obtain p ps where p: "encoded_value k v = Inr p" "rmap (encoded_value k) vs = Inr ps" "parts = p # ps"
    by (auto simp: ok_simps)
  have "length (raw_value v) < 4294967296" using encoded_value_Inr [OF p(1)] by (simp add: MAX_INFO_BYTES_def)
  with encoded_value_Inr [OF p(1)] Cons.IH [OF p(2)] p(3) assms(2) show ?case
    by (simp add: info_items_block option.map_comp o_def)
qed

definition stored_values :: "(pystr, pystr list) odict \<Rightarrow> pystr \<Rightarrow> pystr list" where
  "stored_values values key = (case dict_get values key of None \<Rightarrow> [] | Some vs \<Rightarrow> vs)"

definition items_of :: "(pystr \<Rightarrow> pystr list) \<Rightarrow> pystr list \<Rightarrow> (nat list \<times> nat list) list" where
  "items_of f keys = concat (map (\<lambda>k. map (\<lambda>v. (k, raw_value v)) (f k)) keys)"

lemma encoded_key_items:
  assumes "encoded_key k vs = Inr bs"
  shows "length k = 4" "is_ascii k" "list_all (list_all encodable) vs"
    "info_items (bs @ suf) = map_option (\<lambda>items. map (\<lambda>v. (k, raw_value v)) vs @ items) (info_items suf)"
proof -
  show k: "length k = 4" and "is_ascii k" using assms by (auto simp: encoded_key_def split: if_splits)
  obtain parts where "rmap (encoded_value k) vs = Inr parts" "bs = concat parts"
    using assms by (auto simp: encoded_key_def ok_simps split: if_splits)
  with encoded_values_items [OF _ k] show "list_all (list_all encodable) vs"
    "info_items (bs @ suf) = map_option (\<lambda>items. map (\<lambda>v. (k, raw_value v)) vs @ items) (info_items suf)"
    by blast+
qed

lemma encoded_keys_items:
  assumes "rmap (\<lambda>k. encoded_key k (f k)) keys = Inr parts"
  shows "(\<forall>k\<in>set keys. is_ascii k \<and> list_all (list_all encodable) (f k)) \<and>
    info_items (concat parts) = Some (items_of f keys)"
  using assms
proof (induction keys arbitrary: parts)
  case Nil
  then show ?case by (simp add: items_of_def info_items.simps [of "[]"])
next
  case (Cons k keys)
  then obtain p ps where "encoded_key k (f k) = Inr p" "rmap (\<lambda>k. encoded_key k (f k)) keys = Inr ps"
    and parts: "parts = p # ps"
    by (auto simp: ok_simps)
  with encoded_key_items [of k "f k" p] Cons.IH show ?case by (simp add: items_of_def)
qed

text \<open>Reading the items of one key after the other collects the values of each key.\<close>

lemma dict_set_new_key: "k \<notin> fst ` set d \<Longrightarrow> dict_set d k y = d @ [(k, y)]"
  by (induction d k y rule: dict_set.induct) auto

lemma dict_set_last: "k \<notin> fst ` set d \<Longrightarrow> dict_set (d @ [(k, x)]) k y = d @ [(k, y)]"
  by (induction d k y rule: dict_set.induct) auto

lemma dict_get_last: "k \<notin> fst ` set d \<Longrightarrow> dict_get (d @ [(k, x)]) k = Some x"
  by (induction d) (auto simp: dict_get_def)

definition readable :: "unidb \<Rightarrow> pystr \<Rightarrow> bool" where
  "readable u v \<longleftrightarrow> clean_value u v \<and> list_all encodable v"

lemma add_item_raw:
  assumes "is_ascii k" "readable u v"
  shows "add_item u (k, raw_value v) d =
           dict_set d k ((case dict_get d k of None \<Rightarrow> [] | Some vs \<Rightarrow> vs) @ [v])"
  using assms info_value_raw [of u v] by (simp add: add_item_def readable_def clean_value_def Let_def)

lemma add_items_last:
  assumes "is_ascii k" "list_all (readable u) vs" "k \<notin> fst ` set d"
  shows "fold (add_item u) (map (\<lambda>v. (k, raw_value v)) vs) (d @ [(k, ws)]) = d @ [(k, ws @ vs)]"
  using assms(2)
  by (induction vs arbitrary: ws) (simp_all add: add_item_raw assms dict_get_last dict_set_last)

lemma add_items_key:
  assumes "is_ascii k" "list_all (readable u) vs" "k \<notin> fst ` set d"
  shows "fold (add_item u) (map (\<lambda>v. (k, raw_value v)) vs) d = (if vs = [] then d else d @ [(k, vs)])"
proof (cases vs)
  case (Cons v vs')
  have "dict_get d k = None" using assms(3) by (simp add: dict_get_None_iff)
  then have "add_item u (k, raw_value v) d = d @ [(k, [v])]"
    using assms Cons by (simp add: add_item_raw dict_set_new_key)
  then show ?thesis using assms Cons add_items_last [of k u vs' d "[v]"] by simp
qed simp

definition entries_of :: "(pystr \<Rightarrow> pystr list) \<Rightarrow> pystr list \<Rightarrow> (pystr, pystr list) odict" where
  "entries_of f keys = map (\<lambda>k. (k, f k)) (filter (\<lambda>k. f k \<noteq> []) keys)"

lemma add_items_keys:
  assumes "\<forall>k\<in>set keys. is_ascii k \<and> list_all (readable u) (f k)" "distinct keys"
    "set keys \<inter> fst ` set d = {}"
  shows "fold (add_item u) (items_of f keys) d = d @ entries_of f keys"
  using assms
proof (induction keys arbitrary: d)
  case (Cons k keys)
  let ?d = "if f k = [] then d else d @ [(k, f k)]"
  have "fold (add_item u) (items_of f keys) ?d = ?d @ entries_of f keys"
    using Cons.prems by (intro Cons.IH) auto
  with Cons.prems add_items_key [of k u "f k" d] show ?case
    by (simp add: items_of_def entries_of_def)
qed (simp add: items_of_def entries_of_def)

text \<open>The rewritten file: the other chunks, then one INFO chunk when there are values.\<close>

definition info_chunks :: "nat list \<Rightarrow> riff_chunk list" where
  "info_chunks info =
     (if 4 < length info
      then [\<lparr>ck_id = lit ''LIST'', ck_size = length info, ck_raw = block_bytes (lit ''LIST'') info\<rparr>]
      else [])"

lemma length_lit_LIST: "length (lit ''LIST'') = 4"
  by (simp add: lit.simps)

lemma info_chunk_block:
  "info_chunk info = (if 4 < length info then block_bytes (lit ''LIST'') info else [])"
  by (simp add: info_chunk_def block_bytes_def padding_def)

lemma riff_chunks_info:
  assumes "length info \<le> MAX_INFO_BYTES"
  shows "riff_chunks (info_chunk info) = (info_chunks info, [], True)"
proof -
  have "length info < 4294967296" using assms by (simp add: MAX_INFO_BYTES_def)
  then show ?thesis
    by (simp add: info_chunk_block info_chunks_def riff_chunks_block length_lit_LIST riff_chunks.simps [of "[]"])
qed

lemma read_chunks_skip:
  "list_all (\<lambda>c. \<not> is_info c) cs \<Longrightarrow> read_chunks u t d (cs @ cs') = read_chunks u t d cs'"
  by (induction cs) simp_all

lemma read_info_chunks:
  assumes "length info \<le> MAX_INFO_BYTES" "info = lit ''INFO'' @ payload" "info_items payload = Some items"
  shows "read_chunks u 0 [] (info_chunks info) = Some (fold (add_item u) items [])"
    and "list_all is_info (info_chunks info)"
proof -
  let ?raw = "block_bytes (lit ''LIST'') info"
  have raw: "take 4 (drop 8 ?raw) = lit ''INFO''" "take (length info - 4) (drop 12 ?raw) = payload"
    using assms(2) by (simp_all add: block_bytes_def length_lit_LIST lit.simps)
  then show is_info: "list_all is_info (info_chunks info)"
    by (simp add: info_chunks_def is_info_def)
  show "read_chunks u 0 [] (info_chunks info) = Some (fold (add_item u) items [])"
  proof (cases "4 < length info")
    case True
    with assms(1,3) is_info raw(2) show ?thesis by (simp add: info_chunks_def Let_def)
  next
    case False
    with assms(2) have "payload = []" by (simp add: lit.simps)
    with assms(3) False show ?thesis by (simp add: info_chunks_def info_items.simps [of "[]"])
  qed
qed

lemma write_riff_info_Inr:
  assumes "riff_chunks (drop 12 file) = (cs, [], True)" "write_riff_info file values = Inr file'"
  obtains info where "encoded_info values = Inr info" "is_riff file'"
    "drop 12 file' = concat (map ck_raw (filter (\<lambda>c. \<not> is_info c) cs)) @ info_chunk info"
proof -
  obtain info where info: "encoded_info values = Inr info"
    using assms(2) by (auto simp: write_riff_info_def ok_simps)
  let ?body = "concat (map ck_raw (filter (\<lambda>c. \<not> is_info c) cs)) @ info_chunk info"
  have "file' = lit ''RIFF'' @ le32 (12 + length ?body - 8) @ lit ''WAVE'' @ ?body"
    using assms info by (auto simp: write_riff_info_def Let_def split: if_splits)
  then have "is_riff file'" "drop 12 file' = ?body"
    by (simp_all add: is_riff_def lit.simps)
  with info show thesis by (rule that)
qed

text \<open>The entries that a written file holds: the keys in order, with their values, if any.\<close>

definition written_entries :: "(pystr, pystr list) odict \<Rightarrow> (pystr, pystr list) odict" where
  "written_entries values = entries_of (stored_values values) (sort (dict_keys values))"

lemma encoded_info_items:
  assumes "encoded_info values = Inr info" "dict_wf values"
    "list_all (\<lambda>(key, vs). list_all (clean_value u) vs) values"
  shows "\<exists>payload items. info = lit ''INFO'' @ payload \<and> length info \<le> MAX_INFO_BYTES
    \<and> info_items payload = Some items \<and> fold (add_item u) items [] = written_entries values"
proof -
  let ?f = "stored_values values" and ?keys = "sort (dict_keys values)"
  obtain parts where parts: "rmap (\<lambda>k. encoded_key k (?f k)) ?keys = Inr parts"
    and info: "info = lit ''INFO'' @ concat parts" "length info \<le> MAX_INFO_BYTES"
    using assms(1) unfolding encoded_info_def stored_values_def
    by (auto simp: ok_simps Let_def split: if_splits)
  have "list_all (clean_value u) (?f k)" for k
    using assms(3) map_of_SomeD [of "values" k]
    by (cases "map_of values k") (auto simp: stored_values_def dict_get_def list_all_iff)
  then have "\<forall>k\<in>set ?keys. is_ascii k \<and> list_all (readable u) (?f k)"
    using encoded_keys_items [OF parts] by (auto simp: readable_def list_all_iff)
  moreover have "distinct ?keys" using assms(2) by (simp add: dict_wf_def dict_keys_def)
  ultimately have "fold (add_item u) (items_of ?f ?keys) [] = written_entries values"
    by (simp add: add_items_keys written_entries_def)
  with info encoded_keys_items [OF parts] show ?thesis by blast
qed

text \<open>
  C28. What \<open>write_riff_info\<close> writes is what \<open>read_riff_info\<close> reads: for a WAV file whose last
  chunk ends where the file ends, and values that are not empty and have neither blanks nor NUL
  characters at their ends, reading the written file gives the keys that have values, each with
  its values in their order; the old INFO chunks are gone, every other chunk is kept as it was
  and in its place, and what follows them is at most one chunk, the new INFO chunk.
\<close>
theorem riff_info_roundtrip:
  assumes "riff_chunks (drop 12 file) = (cs, [], True)" "dict_wf values"
    and "list_all (\<lambda>(key, vs). list_all (clean_value u) vs) values"
    and "write_riff_info file values = Inr file'"
  shows "read_riff_info u file' = Inr (written_entries values)
    \<and> (\<exists>new. riff_chunks (drop 12 file') = (filter (\<lambda>c. \<not> is_info c) cs @ new, [], True)
           \<and> list_all is_info new \<and> length new \<le> 1)"
proof -
  let ?kept = "filter (\<lambda>c. \<not> is_info c) cs"
  obtain info where info: "encoded_info values = Inr info" and file': "is_riff file'"
    "drop 12 file' = concat (map ck_raw ?kept) @ info_chunk info"
    using write_riff_info_Inr assms(1,4) by blast
  obtain payload items where items: "info = lit ''INFO'' @ payload" "length info \<le> MAX_INFO_BYTES"
    "info_items payload = Some items" "fold (add_item u) items [] = written_entries values"
    using encoded_info_items [OF info assms(2,3)] by blast
  have "list_all chunk_wf ?kept" using riff_chunks_wf [OF assms(1)] by (auto simp: list_all_iff)
  then have chunks: "riff_chunks (drop 12 file') = (?kept @ info_chunks info, [], True)"
    using items(2) by (simp add: file'(2) riff_chunks_append riff_chunks_info)
  have "list_all (\<lambda>c. \<not> is_info c) ?kept" by (simp add: list_all_iff)
  then have "read_riff_info u file' = Inr (written_entries values)"
    using file'(1) items(4) read_info_chunks(1) [OF items(2,1,3), of u]
    by (simp add: read_riff_info_def chunks read_chunks_skip)
  moreover have "length (info_chunks info) \<le> 1" by (simp add: info_chunks_def)
  ultimately show ?thesis using chunks read_info_chunks(2) [OF items(2,1,3)] by blast
qed

theorem riff_info_roundtrip_witness:
  "let file = lit ''RIFF'' @ [4, 0, 0, 0] @ lit ''WAVE''; values = [(lit ''INAM'', [lit ''a''])]
   in case write_riff_info file values of
        Inl _ \<Rightarrow> False
      | Inr file' \<Rightarrow> read_riff_info ascii_db file' = Inr [(lit ''INAM'', [lit ''a''])]"
proof -
  let ?file = "lit ''RIFF'' @ [4, 0, 0, 0] @ lit ''WAVE''"
  let ?tags = "[(lit ''INAM'', [lit ''a''])]"
  have chunks: "riff_chunks (drop 12 ?file) = ([], [], True)"
    by (simp add: riff_chunks.simps lit.simps)
  have info: "encoded_info ?tags = Inr (lit ''INFO'' @ lit ''INAM'' @ [2, 0, 0, 0] @ [97, 0])"
    by (simp add: encoded_info_def encoded_key_def encoded_value_def utf8_encode_def utf8_char_def encodable_def
        is_surrogate_def is_ascii_def dict_keys_def dict_get_def le32_def MAX_INFO_BYTES_def lit.simps)
  have "is_riff ?file" by (simp add: is_riff_def lit.simps)
  then have "\<exists>file'. write_riff_info ?file ?tags = Inr file'"
    by (subst write_riff_info_def, subst info) (simp add: riff_chunks.simps info_chunk_def lit.simps)
  then obtain file' where file': "write_riff_info ?file ?tags = Inr file'" by blast
  have "dict_wf ?tags" by (simp add: dict_wf_def)
  moreover have "list_all (\<lambda>(key, vs). list_all (clean_value ascii_db) vs) ?tags" 
    by (simp add: clean_value_def lit.simps strip_by_def lstrip_by_def rstrip_by_def py_isspace_def ascii_db_def)
  ultimately have "read_riff_info ascii_db file' = Inr (written_entries ?tags)"
    using riff_info_roundtrip [OF chunks _ _ file'] by blast
  moreover have "written_entries ?tags = ?tags"
    by (simp add: written_entries_def entries_of_def stored_values_def dict_keys_def dict_get_def)
  ultimately show ?thesis using file' by simp
qed

section \<open>A file with bytes after its last chunk\<close>

text \<open>
  A WAV file with a stray byte after its last chunk cannot be read back: \<open>write_riff_info\<close>
  copies the bytes that follow the last chunk and appends the INFO chunk behind them, so the
  chunk table of the result is out of step, and reading the result raises the format error.
\<close>
theorem stray_byte_unreadable:
  "\<exists>file file' values. is_riff file \<and> read_riff_info ascii_db file = Inr []
     \<and> write_riff_info file values = Inr file' \<and> read_riff_info ascii_db file' = Inl UnsupportedAudioFormat"
proof -
  let ?file = "lit ''RIFF'' @ [5, 0, 0, 0] @ lit ''WAVE'' @ [120]"
  let ?tags = "[(lit ''INAM'', [lit ''a''])]"
  have riff: "is_riff ?file" by (simp add: is_riff_def lit.simps)
  have read: "read_riff_info ascii_db ?file = Inr []"
    using riff by (simp add: read_riff_info_def riff_chunks.simps lit.simps)
  let ?info = "lit ''INFO'' @ lit ''INAM'' @ [2, 0, 0, 0] @ [97, 0]"
  have info: "encoded_info ?tags = Inr ?info"
    by (simp add: encoded_info_def encoded_key_def encoded_value_def utf8_encode_def utf8_char_def encodable_def
        is_surrogate_def is_ascii_def dict_keys_def dict_get_def le32_def MAX_INFO_BYTES_def lit.simps)
  let ?body = "[120] @ lit ''LIST'' @ [14, 0, 0, 0] @ ?info"
  let ?new = "lit ''RIFF'' @ [27, 0, 0, 0] @ lit ''WAVE'' @ ?body"
  have new: "write_riff_info ?file ?tags = Inr ?new"
    using riff by (subst write_riff_info_def, subst info) (simp add: riff_chunks.simps info_chunk_def le32_def lit.simps)
  have "riff_chunks (drop 12 ?new) = ([], ?body, False)"
    by (simp add: riff_chunks.simps lit.simps Let_def numeral_eq_Suc)
  moreover have "is_riff ?new" by (simp add: is_riff_def lit.simps)
  ultimately have "read_riff_info ascii_db ?new = Inl UnsupportedAudioFormat"
    by (simp add: read_riff_info_def)
  with riff read new show ?thesis by blast
qed

end
