(* ===== verification/Hungarian.thy ===== *)
theory Hungarian
  imports Main
begin

text \<open>
  \<open>_hungarian_min\<close> of \<open>services/native/local_album_grouper.py\<close>, with which albums keep their
  identity when a library is regrouped and local files are assigned to the tracks of a release:
  a minimum-cost assignment of the rows of a square matrix to its columns. Rows and columns are
  counted from one in the working lists, and column zero stands for the row being added, as in
  the code. Python's integers are unbounded, so they are \<open>int\<close> here. The two \<open>while\<close> loops have
  no bound of their own and are defined as partial functions; that they end is part of what is
  proved.
\<close>

section \<open>The algorithm\<close>

definition infinity :: int where "infinity = 10 ^ 18"

record search =
  s_u :: "int list"
  s_v :: "int list"
  s_minimum :: "int list"
  s_used :: "bool list"
  s_way :: "nat list"
  s_column :: nat

text \<open>One round of the first \<open>for\<close> loop, on \<open>minimum\<close>, \<open>way\<close>, \<open>delta\<close> and \<open>next_column\<close>.\<close>

definition scan_column ::
  "int list list \<Rightarrow> int list \<Rightarrow> int list \<Rightarrow> bool list \<Rightarrow> nat \<Rightarrow> nat \<Rightarrow> nat
     \<Rightarrow> int list \<times> nat list \<times> int \<times> nat \<Rightarrow> int list \<times> nat list \<times> int \<times> nat" where
  "scan_column cost u v used source column j = (\<lambda>(minimum, way, delta, next_column).
     if used ! j then (minimum, way, delta, next_column)
     else (let candidate = cost ! (source - 1) ! (j - 1) - u ! source - v ! j;
               better = candidate < minimum ! j;
               minimum = (if better then minimum[j := candidate] else minimum);
               way = (if better then way[j := column] else way)
           in if minimum ! j < delta then (minimum, way, minimum ! j, j)
              else (minimum, way, delta, next_column)))"

text \<open>One round of the second, on \<open>u\<close>, \<open>v\<close> and \<open>minimum\<close>.\<close>

definition shift_column ::
  "int \<Rightarrow> nat list \<Rightarrow> bool list \<Rightarrow> nat \<Rightarrow> int list \<times> int list \<times> int list
     \<Rightarrow> int list \<times> int list \<times> int list" where
  "shift_column delta p used j = (\<lambda>(u, v, minimum).
     if used ! j then (u[p ! j := u ! (p ! j) + delta], v[j := v ! j - delta], minimum)
     else (u, v, minimum[j := minimum ! j - delta]))"

definition search_step :: "int list list \<Rightarrow> nat list \<Rightarrow> search \<Rightarrow> search" where
  "search_step cost p s =
     (let size = length cost;
          used = (s_used s)[s_column s := True];
          source = p ! s_column s;
          (minimum, way, delta, next_column) =
            fold (scan_column cost (s_u s) (s_v s) used source (s_column s)) [1..<Suc size]
              (s_minimum s, s_way s, infinity, 0);
          (u, v, minimum) = fold (shift_column delta p used) [0..<Suc size] (s_u s, s_v s, minimum)
      in \<lparr>s_u = u, s_v = v, s_minimum = minimum, s_used = used, s_way = way, s_column = next_column\<rparr>)"

partial_function (option) search_loop :: "int list list \<Rightarrow> nat list \<Rightarrow> search \<Rightarrow> search option" where
  "search_loop cost p s =
     (let s' = search_step cost p s
      in if p ! s_column s' = 0 then Some s' else search_loop cost p s')"

partial_function (option) augment :: "nat list \<Rightarrow> nat list \<Rightarrow> nat \<Rightarrow> nat list option" where
  "augment way p column =
     (if column = 0 then Some p
      else augment way (p[column := p ! (way ! column)]) (way ! column))"

declare search_loop.simps [code] augment.simps [code]

type_synonym labels = "int list \<times> int list \<times> nat list \<times> nat list"

definition add_row :: "int list list \<Rightarrow> nat \<Rightarrow> labels \<Rightarrow> labels option" where
  "add_row cost row = (\<lambda>(u, v, p, way).
     (let size = length cost; p = p[0 := row]
      in Option.bind
           (search_loop cost p
              \<lparr>s_u = u, s_v = v, s_minimum = replicate (Suc size) infinity,
               s_used = replicate (Suc size) False, s_way = way, s_column = 0\<rparr>)
           (\<lambda>s. map_option (\<lambda>p. (s_u s, s_v s, p, s_way s)) (augment (s_way s) p (s_column s)))))"

fun add_rows :: "int list list \<Rightarrow> nat list \<Rightarrow> labels \<Rightarrow> labels option" where
  "add_rows cost [] l = Some l"
| "add_rows cost (row # rows) l = Option.bind (add_row cost row l) (add_rows cost rows)"

definition read_assignment :: "nat \<Rightarrow> nat list \<Rightarrow> nat list" where
  "read_assignment n p =
     fold (\<lambda>j a. if p ! j \<noteq> 0 then a[p ! j - 1 := j - 1] else a) [1..<Suc n] (replicate n 0)"

definition hungarian_min :: "int list list \<Rightarrow> nat list option" where
  "hungarian_min cost =
     (let size = length cost
      in if size = 0 then Some []
         else map_option (\<lambda>(u, v, p, way). read_assignment size p)
                (add_rows cost [1..<Suc size]
                   (replicate (Suc size) 0, replicate (Suc size) 0,
                    replicate (Suc size) 0, replicate (Suc size) 0)))"

section \<open>What the two inner loops compute\<close>

lemma scan_columns:
  fixes minimum :: "int list"
  assumes cand_def: "cand = (\<lambda>j. cost ! (source - 1) ! (j - 1) - u ! source - v ! j)"
    and "length minimum = Suc n" "length way = Suc n" "m \<le> n"
    and "fold (scan_column cost u v used source column) [1..<Suc m] (minimum, way, bnd, 0)
           = (minimum', way', delta, nxt)"
  shows "length minimum' = Suc n \<and> length way' = Suc n
    \<and> (\<forall>j\<le>n. minimum' ! j = (if j \<in> {1..m} \<and> \<not> used ! j then min (minimum ! j) (cand j) else minimum ! j))
    \<and> (\<forall>j\<le>n. way' ! j = (if j \<in> {1..m} \<and> \<not> used ! j \<and> cand j < minimum ! j then column else way ! j))
    \<and> delta \<le> bnd \<and> (\<forall>j\<in>{1..m}. \<not> used ! j \<longrightarrow> delta \<le> minimum' ! j)
    \<and> (delta < bnd \<longrightarrow> nxt \<in> {1..m} \<and> \<not> used ! nxt \<and> minimum' ! nxt = delta)"
  using assms(4,5)
proof (induction m arbitrary: minimum' way' delta nxt)
  case 0
  then show ?case using assms(2,3) by simp
next
  case (Suc m)
  let ?run = "fold (scan_column cost u v used source column) [1..<Suc m] (minimum, way, bnd, 0)"
  obtain mi wa de nx where run: "?run = (mi, wa, de, nx)" by (metis prod_cases4)
  have IH: "length mi = Suc n" "length wa = Suc n"
    "\<And>j. j \<le> n \<Longrightarrow> mi ! j = (if j \<in> {1..m} \<and> \<not> used ! j then min (minimum ! j) (cand j) else minimum ! j)"
    "\<And>j. j \<le> n \<Longrightarrow> wa ! j = (if j \<in> {1..m} \<and> \<not> used ! j \<and> cand j < minimum ! j then column else way ! j)"
    "de \<le> bnd" "\<And>j. j \<in> {1..m} \<Longrightarrow> \<not> used ! j \<Longrightarrow> de \<le> mi ! j"
    "de < bnd \<Longrightarrow> nx \<in> {1..m} \<and> \<not> used ! nx \<and> mi ! nx = de"
    using Suc.IH [OF _ run] Suc.prems(1) by auto
  have step: "scan_column cost u v used source column (Suc m) (mi, wa, de, nx) = (minimum', way', delta, nxt)"
    using Suc.prems(2) run by simp
  have old: "mi ! Suc m = minimum ! Suc m" "wa ! Suc m = way ! Suc m" using IH(3,4) Suc.prems(1) by auto
  show ?case
  proof (cases "used ! Suc m")
    case True
    then have "minimum' = mi" "way' = wa" "delta = de" "nxt = nx"
      using step by (auto simp: scan_column_def)
    with IH True old show ?thesis by (auto simp: le_Suc_eq)
  next
    case False
    let ?b = "cand (Suc m) < minimum ! Suc m"
    have eqs: "minimum' = (if ?b then mi[Suc m := cand (Suc m)] else mi)"
      "way' = (if ?b then wa[Suc m := column] else wa)"
      "(delta, nxt) = (if minimum' ! Suc m < de then (minimum' ! Suc m, Suc m) else (de, nx))"
      using step False old(1) by (auto simp: scan_column_def cand_def Let_def split: if_splits)
    have lens: "length minimum' = Suc n" "length way' = Suc n" using eqs IH by auto
    have m': "minimum' ! j = (if j \<in> {1..Suc m} \<and> \<not> used ! j then min (minimum ! j) (cand j) else minimum ! j)"
      if "j \<le> n" for j
      using that IH(1,3) old False eqs(1) by (auto simp: nth_list_update le_Suc_eq)
    have w': "way' ! j = (if j \<in> {1..Suc m} \<and> \<not> used ! j \<and> cand j < minimum ! j then column else way ! j)"
      if "j \<le> n" for j
      using that IH(2,4) old False eqs(2) by (auto simp: nth_list_update le_Suc_eq)
    have same: "minimum' ! j = mi ! j" if "j \<in> {1..m}" for j
      using that eqs(1) by auto
    have "delta \<le> bnd" "delta \<le> de" using eqs(3) IH(5) by (auto split: if_splits)
    moreover have "delta \<le> minimum' ! j" if "j \<in> {1..Suc m}" "\<not> used ! j" for j
      using that eqs(3) IH(6) same by (cases "j = Suc m") (fastforce simp: le_Suc_eq split: if_splits)+
    moreover have "nxt \<in> {1..Suc m} \<and> \<not> used ! nxt \<and> minimum' ! nxt = delta" if "delta < bnd"
      using that eqs(3) IH(7) same False by (fastforce simp: le_Suc_eq split: if_splits)
    ultimately show ?thesis using lens m' w' by blast
  qed
qed

lemma shift_columns:
  assumes "length u = Suc n" "length v = Suc n" "length minimum = Suc n" "m \<le> Suc n"
    and "\<forall>k\<le>n. p ! k \<le> n" "inj_on ((!) p) {k. k \<le> n \<and> used ! k}"
    and "fold (shift_column delta p used) [0..<m] (u, v, minimum) = (u', v', minimum')"
  shows "length u' = Suc n \<and> length v' = Suc n \<and> length minimum' = Suc n
    \<and> (\<forall>r\<le>n. u' ! r = u ! r + (if r \<in> (!) p ` {k. k < m \<and> used ! k} then delta else 0))
    \<and> (\<forall>j\<le>n. v' ! j = v ! j - (if j < m \<and> used ! j then delta else 0))
    \<and> (\<forall>j\<le>n. minimum' ! j = minimum ! j - (if j < m \<and> \<not> used ! j then delta else 0))"
  using assms(4,7)
proof (induction m arbitrary: u' v' minimum')
  case 0
  then show ?case using assms(1-3) by simp
next
  case (Suc m)
  obtain a b c where run: "fold (shift_column delta p used) [0..<m] (u, v, minimum) = (a, b, c)"
    by (metis prod_cases3)
  have IH: "length a = Suc n" "length b = Suc n" "length c = Suc n"
    "\<And>r. r \<le> n \<Longrightarrow> a ! r = u ! r + (if r \<in> (!) p ` {k. k < m \<and> used ! k} then delta else 0)"
    "\<And>j. j \<le> n \<Longrightarrow> b ! j = v ! j - (if j < m \<and> used ! j then delta else 0)"
    "\<And>j. j \<le> n \<Longrightarrow> c ! j = minimum ! j - (if j < m \<and> \<not> used ! j then delta else 0)"
    using Suc.IH [OF _ run] Suc.prems(1) by auto
  have step: "shift_column delta p used m (a, b, c) = (u', v', minimum')"
    using Suc.prems(2) run by simp
  have m: "m \<le> n" using Suc.prems(1) by simp
  then have pm: "p ! m < Suc n" using assms(5) by (simp add: less_Suc_eq_le)
  show ?case
  proof (cases "used ! m")
    case True
    have eqs: "u' = a[p ! m := a ! (p ! m) + delta]" "v' = b[m := b ! m - delta]" "minimum' = c"
      using step True by (auto simp: shift_column_def)
    have img: "(!) p ` {k. k < Suc m \<and> used ! k} = insert (p ! m) ((!) p ` {k. k < m \<and> used ! k})"
      using True by (auto simp: less_Suc_eq)
    have "p ! m \<notin> (!) p ` {k. k < m \<and> used ! k}"
    proof
      assume "p ! m \<in> (!) p ` {k. k < m \<and> used ! k}"
      then obtain k where "k < m" "used ! k" "p ! m = p ! k" by auto
      moreover have "k = m"
        using inj_onD [OF assms(6), of k m] calculation True m by simp
      ultimately show False by simp
    qed
    then have "u' ! r = u ! r + (if r \<in> (!) p ` {k. k < Suc m \<and> used ! k} then delta else 0)" if "r \<le> n" for r
      unfolding img eqs(1) using that IH(1) IH(4) [OF that] pm
      by (cases "r = p ! m") simp_all
    moreover have "v' ! j = v ! j - (if j < Suc m \<and> used ! j then delta else 0)" if "j \<le> n" for j
      unfolding eqs(2) using that IH(2) IH(5) [OF that] True m by (cases "j = m") simp_all
    moreover have "minimum' ! j = minimum ! j - (if j < Suc m \<and> \<not> used ! j then delta else 0)" if "j \<le> n" for j
      using that IH(6) eqs(3) True by (auto simp: less_Suc_eq)
    ultimately show ?thesis using IH(1-3) eqs by simp
  next
    case False
    have eqs: "u' = a" "v' = b" "minimum' = c[m := c ! m - delta]"
      using step False by (auto simp: shift_column_def)
    have "{k. k < Suc m \<and> used ! k} = {k. k < m \<and> used ! k}" using False by (auto simp: less_Suc_eq)
    then have "u' ! r = u ! r + (if r \<in> (!) p ` {k. k < Suc m \<and> used ! k} then delta else 0)" if "r \<le> n" for r
      using that IH(4) eqs(1) by simp
    moreover have "v' ! j = v ! j - (if j < Suc m \<and> used ! j then delta else 0)" if "j \<le> n" for j
      using that IH(5) eqs(2) False by (auto simp: less_Suc_eq)
    moreover have "minimum' ! j = minimum ! j - (if j < Suc m \<and> \<not> used ! j then delta else 0)" if "j \<le> n" for j
      unfolding eqs(3) using that IH(3) IH(6) [OF that] False m by (cases "j = m") simp_all
    ultimately show ?thesis using IH(1-3) eqs by simp
  qed
qed

section \<open>The invariant of the search\<close>

text \<open>
  Potentials \<open>u\<close> and \<open>v\<close> that no entry undercuts and that matched entries attain; a matching
  \<open>p\<close> of columns to the rows before \<open>i\<close>; and the tree of the columns reached so far, in the
  order in which they were reached, along tight entries.
\<close>

definition entry :: "int list list \<Rightarrow> nat \<Rightarrow> nat \<Rightarrow> int" where
  "entry cost r j = cost ! (r - 1) ! (j - 1)"

definition slack :: "int list list \<Rightarrow> int list \<Rightarrow> int list \<Rightarrow> nat \<Rightarrow> nat \<Rightarrow> int" where
  "slack cost u v r j = entry cost r j - u ! r - v ! j"

definition labels_ok :: "int list list \<Rightarrow> int \<Rightarrow> int list \<Rightarrow> int list \<Rightarrow> nat list \<Rightarrow> bool" where
  "labels_ok cost bnd u v p \<longleftrightarrow>
     (let n = length cost in
      length u = Suc n \<and> length v = Suc n
      \<and> (\<forall>r\<in>{1..n}. \<forall>j\<in>{1..n}. 0 \<le> slack cost u v r j)
      \<and> (\<forall>r\<le>n. 0 \<le> u ! r) \<and> (\<forall>j\<in>{1..n}. v ! j \<le> 0 \<and> - bnd \<le> v ! j)
      \<and> (\<forall>j\<in>{1..n}. p ! j = 0 \<longrightarrow> v ! j = 0)
      \<and> (\<forall>j\<in>{1..n}. p ! j \<noteq> 0 \<longrightarrow> slack cost u v (p ! j) j = 0))"

definition matching_ok :: "nat \<Rightarrow> nat \<Rightarrow> nat list \<Rightarrow> bool" where
  "matching_ok n i p \<longleftrightarrow> length p = Suc n
     \<and> inj_on ((!) p) {j \<in> {1..n}. p ! j \<noteq> 0} \<and> (!) p ` {j \<in> {1..n}. p ! j \<noteq> 0} = {1..<i}"

definition tree_ok ::
  "int list list \<Rightarrow> int list \<Rightarrow> int list \<Rightarrow> nat list \<Rightarrow> nat list \<Rightarrow> nat list \<Rightarrow> bool" where
  "tree_ok cost u v p way ord \<longleftrightarrow>
     distinct ord \<and> ord \<noteq> [] \<and> ord ! 0 = 0 \<and> set ord \<subseteq> {0..length cost}
     \<and> (\<forall>k<length ord. 0 < k \<longrightarrow>
          (\<exists>l<k. way ! (ord ! k) = ord ! l \<and> slack cost u v (p ! (ord ! l)) (ord ! k) = 0))"

definition front_ok ::
  "int list list \<Rightarrow> int list \<Rightarrow> int list \<Rightarrow> nat list \<Rightarrow> nat list \<Rightarrow> int list \<Rightarrow> nat set \<Rightarrow> nat set \<Rightarrow> bool" where
  "front_ok cost u v p way minimum us tree \<longleftrightarrow>
     (\<forall>j\<in>{1..length cost} - tree.
        (us = {} \<longrightarrow> minimum ! j = infinity)
        \<and> (us \<noteq> {} \<longrightarrow> way ! j \<in> us \<and> minimum ! j = slack cost u v (p ! (way ! j)) j)
        \<and> (\<forall>k\<in>us. minimum ! j \<le> slack cost u v (p ! k) j))"

definition head_ok :: "int list list \<Rightarrow> int \<Rightarrow> nat \<Rightarrow> nat list \<Rightarrow> search \<Rightarrow> nat list \<Rightarrow> bool" where
  "head_ok cost bnd i p s us \<longleftrightarrow>
     (let n = length cost; ord = us @ [s_column s] in
      length (s_minimum s) = Suc n \<and> length (s_used s) = Suc n \<and> length (s_way s) = Suc n
      \<and> (\<forall>k\<le>n. s_used s ! k \<longleftrightarrow> k \<in> set us) \<and> (\<forall>k\<in>set us. p ! k \<noteq> 0)
      \<and> labels_ok cost (bnd + s_u s ! i) (s_u s) (s_v s) p
      \<and> (us = [] \<longrightarrow> s_u s ! i = 0) \<and> (\<forall>r\<in>{i<..n}. s_u s ! r = 0)
      \<and> tree_ok cost (s_u s) (s_v s) p (s_way s) ord
      \<and> front_ok cost (s_u s) (s_v s) p (s_way s) (s_minimum s) (set us) (set ord))"

lemma matching_rows:
  assumes "matching_ok n i p" "i \<in> {1..n}"
  shows "\<exists>j\<in>{1..n}. p ! j = 0"
proof (rule ccontr)
  assume "\<not> (\<exists>j\<in>{1..n}. p ! j = 0)"
  then have all: "{j \<in> {1..n}. p ! j \<noteq> 0} = {1..n}" by auto
  have "inj_on ((!) p) {1..n}" "(!) p ` {1..n} = {1..<i}"
    using assms(1) unfolding matching_ok_def all by simp_all
  then have "card {1..n} = card {1..<i}" by (metis card_image)
  then show False using assms(2) by (simp, linarith)
qed

definition source_ok :: "nat \<Rightarrow> nat \<Rightarrow> nat list \<Rightarrow> bool" where
  "source_ok n i p \<longleftrightarrow> length p = Suc n \<and> p ! 0 = i \<and> i \<in> {1..n} \<and> (\<forall>k\<le>n. p ! k \<le> i)
     \<and> inj_on ((!) p) {k. k \<le> n \<and> p ! k \<noteq> 0} \<and> (\<exists>j\<in>{1..n}. p ! j = 0)
     \<and> (!) p ` {k. k \<le> n \<and> p ! k \<noteq> 0} = {1..i}"

lemma matching_source:
  assumes "matching_ok n i p" "i \<in> {1..n}"
  shows "source_ok n i (p[0 := i])"
proof -
  let ?S = "{j \<in> {1..n}. p ! j \<noteq> 0}" and ?p = "p[0 := i]"
  have p: "length p = Suc n" "inj_on ((!) p) ?S" "(!) p ` ?S = {1..<i}"
    using assms(1) by (simp_all add: matching_ok_def)
  have same: "?p ! j = p ! j" if "j \<noteq> 0" for j using that by simp
  have zero: "?p ! 0 = i" using p(1) by simp
  have S: "{k. k \<le> n \<and> ?p ! k \<noteq> 0} = insert 0 ?S"
    using assms(2) zero same by (auto simp: Suc_le_eq)
  have img: "(!) ?p ` ?S = {1..<i}" using p(3) same by (force simp: image_iff)
  have "inj_on ((!) ?p) ?S" using p(2) by (auto simp: inj_on_def)
  then have inj: "inj_on ((!) ?p) (insert 0 ?S)" using img zero by (auto simp: inj_on_insert)
  have img0: "(!) ?p ` insert 0 ?S = {1..i}" using img zero assms(2) by auto
  have le: "?p ! k \<le> i" if "k \<le> n" for k
  proof (cases "?p ! k = 0")
    case False
    then have "?p ! k \<in> (!) ?p ` insert 0 ?S" unfolding S [symmetric] using that by blast
    then show ?thesis unfolding img0 by simp
  qed simp
  have free: "\<exists>j\<in>{1..n}. ?p ! j = 0" using matching_rows [OF assms] by auto
  have len: "length ?p = Suc n" using p(1) by simp
  show ?thesis unfolding source_ok_def S
    by (intro conjI allI impI) (rule len zero assms(2) inj free img0 le | assumption)+
qed

section \<open>One step of the search keeps the invariant\<close>

definition costs_ok :: "int list list \<Rightarrow> int \<Rightarrow> bool" where
  "costs_ok cost c \<longleftrightarrow>
     (\<forall>r\<in>{1..length cost}. \<forall>j\<in>{1..length cost}. 0 \<le> entry cost r j \<and> entry cost r j \<le> c)"

definition rows_of :: "nat list \<Rightarrow> nat list \<Rightarrow> nat set" where
  "rows_of p ord = (!) p ` set ord"

text \<open>How the potentials move when the rows and columns of the tree are shifted by \<open>d\<close>.\<close>

definition shifted ::
  "nat \<Rightarrow> nat list \<Rightarrow> nat list \<Rightarrow> int \<Rightarrow> int list \<Rightarrow> int list \<Rightarrow> int list \<Rightarrow> int list \<Rightarrow> bool" where
  "shifted n p ord d u v u' v' \<longleftrightarrow>
     length u' = Suc n \<and> length v' = Suc n
     \<and> (\<forall>r\<le>n. u' ! r = u ! r + (if r \<in> rows_of p ord then d else 0))
     \<and> (\<forall>j\<le>n. v' ! j = v ! j - (if j \<in> set ord then d else 0))"

lemma shifted_slack:
  assumes "shifted n p ord d u v u' v'" "r \<le> n" "j \<le> n"
  shows "slack cost u' v' r j = slack cost u v r j
    - (if r \<in> rows_of p ord then d else 0) + (if j \<in> set ord then d else 0)"
  using assms by (simp add: shifted_def slack_def)

lemma shifted_labels:
  assumes labels: "labels_ok cost (bnd + u ! i) u v p" and src: "source_ok n i p" and n: "n = length cost"
    and shifted: "shifted n p ord d u v u' v'" and d: "0 \<le> d" "0 \<in> set ord"
    and ord: "set ord \<subseteq> {0..n}" "\<forall>k\<in>set ord. p ! k \<noteq> 0"
    and least: "\<forall>j\<in>{1..n} - set ord. \<forall>k\<in>set ord. d \<le> slack cost u v (p ! k) j"
  shows "labels_ok cost (bnd + u' ! i) u' v' p"
proof -
  have i: "i \<le> n" "p ! 0 = i" "i \<in> rows_of p ord" using src d(2) by (auto simp: source_ok_def rows_of_def)
  have rows: "p ! j \<in> rows_of p ord \<longleftrightarrow> j \<in> set ord" if "j \<le> n" "p ! j \<noteq> 0" for j
    using src that ord unfolding source_ok_def rows_of_def
    by (smt (verit, best) atLeastAtMost_iff image_iff inj_on_def mem_Collect_eq subsetD)
  have le: "p ! j \<le> n" if "j \<le> n" for j using src that i(1) unfolding source_ok_def by (meson le_trans)
  have slack': "slack cost u' v' r j = slack cost u v r j
      - (if r \<in> rows_of p ord then d else 0) + (if j \<in> set ord then d else 0)" if "r \<le> n" "j \<le> n" for r j
    using shifted_slack [OF shifted that] .
  have u': "u' ! r = u ! r + (if r \<in> rows_of p ord then d else 0)" if "r \<le> n" for r
    using shifted that by (simp add: shifted_def)
  have v': "v' ! j = v ! j - (if j \<in> set ord then d else 0)" if "j \<le> n" for j
    using shifted that by (simp add: shifted_def)
  have L: "\<And>r j. r \<in> {1..n} \<Longrightarrow> j \<in> {1..n} \<Longrightarrow> 0 \<le> slack cost u v r j" "\<And>r. r \<le> n \<Longrightarrow> 0 \<le> u ! r"
    "\<And>j. j \<in> {1..n} \<Longrightarrow> v ! j \<le> 0 \<and> - (bnd + u ! i) \<le> v ! j"
    "\<And>j. j \<in> {1..n} \<Longrightarrow> p ! j = 0 \<Longrightarrow> v ! j = 0"
    "\<And>j. j \<in> {1..n} \<Longrightarrow> p ! j \<noteq> 0 \<Longrightarrow> slack cost u v (p ! j) j = 0"
    using labels by (auto simp: labels_ok_def Let_def n)
  have "0 \<le> slack cost u' v' r j" if "r \<in> {1..n}" "j \<in> {1..n}" for r j
  proof (cases "r \<in> rows_of p ord \<and> j \<notin> set ord")
    case True
    then have "d \<le> slack cost u v r j" using least that(2) by (auto simp: rows_of_def)
    then show ?thesis using True that by (simp add: slack')
  next
    case False
    then show ?thesis using L(1) [OF that] d(1) that by (auto simp: slack')
  qed
  moreover have "0 \<le> u' ! r" if "r \<le> n" for r using L(2) [OF that] d(1) by (simp add: u' that)
  moreover have "v' ! j \<le> 0 \<and> - (bnd + u' ! i) \<le> v' ! j" if "j \<in> {1..n}" for j
    using L(3) [OF that] d(1) that i by (simp add: u' v')
  moreover have "v' ! j = 0" if "j \<in> {1..n}" "p ! j = 0" for j
    using L(4) [OF that] ord(2) that by (auto simp: v')
  moreover have "slack cost u' v' (p ! j) j = 0" if "j \<in> {1..n}" "p ! j \<noteq> 0" for j
    using L(5) [OF that] rows [of j] le [of j] that by (simp add: slack')
  ultimately show ?thesis using shifted unfolding labels_ok_def shifted_def Let_def n by blast
qed

lemma shifted_tree:
  assumes tree: "tree_ok cost u v p way ord" and src: "source_ok n i p" and n: "n = length cost"
    and shifted: "shifted n p ord d u v u' v'"
    and way: "\<forall>k\<in>set ord. way' ! k = way ! k"
    and new: "j1 \<in> {1..n} - set ord" "way' ! j1 \<in> set ord" "slack cost u v (p ! (way' ! j1)) j1 = d"
  shows "tree_ok cost u' v' p way' (ord @ [j1])"
proof -
  have ord: "distinct ord" "ord \<noteq> []" "ord ! 0 = 0" "set ord \<subseteq> {0..n}"
    and edges: "\<And>k. k < length ord \<Longrightarrow> 0 < k \<Longrightarrow>
      \<exists>l<k. way ! (ord ! k) = ord ! l \<and> slack cost u v (p ! (ord ! l)) (ord ! k) = 0"
    using tree by (auto simp: tree_ok_def n)
  have le: "p ! k \<le> n" if "k \<le> n" for k
    using src that unfolding source_ok_def by (meson atLeastAtMost_iff le_trans)
  have slack': "slack cost u' v' (p ! k) j = slack cost u v (p ! k) j - d + (if j \<in> set ord then d else 0)"
    if "k \<in> set ord" "j \<le> n" for k j
    using shifted_slack [OF shifted, of "p ! k" j] le that ord(4) by (auto simp: rows_of_def)
  have "\<exists>l<k. way' ! ((ord @ [j1]) ! k) = (ord @ [j1]) ! l
      \<and> slack cost u' v' (p ! ((ord @ [j1]) ! l)) ((ord @ [j1]) ! k) = 0"
    if k: "k < length (ord @ [j1])" "0 < k" for k
  proof (cases "k < length ord")
    case True
    then obtain l where l: "l < k" "way ! (ord ! k) = ord ! l" "slack cost u v (p ! (ord ! l)) (ord ! k) = 0"
      using edges k(2) by blast
    have "ord ! k \<in> set ord" "ord ! l \<in> set ord" using True l(1) by auto
    then have "slack cost u' v' (p ! (ord ! l)) (ord ! k) = 0" "way' ! (ord ! k) = ord ! l"
      using slack' [of "ord ! l" "ord ! k"] l ord(4) way by auto
    with True l(1) show ?thesis by (intro exI [of _ l]) (simp add: nth_append)
  next
    case False
    then have k: "k = length ord" using k by simp
    obtain l where "l < length ord" "ord ! l = way' ! j1" using new(2) by (metis in_set_conv_nth)
    with new slack' [of "way' ! j1" j1] show ?thesis
      by (intro exI [of _ l]) (simp add: nth_append k)
  qed
  moreover have "distinct (ord @ [j1])" "ord @ [j1] \<noteq> []" "(ord @ [j1]) ! 0 = 0" "set (ord @ [j1]) \<subseteq> {0..length cost}"
    using ord new(1) n by (auto simp: nth_append)
  ultimately show ?thesis unfolding tree_ok_def by blast
qed

lemma head_unfold:
  assumes "head_ok cost bnd i p s us" "n = length cost"
  shows "length (s_minimum s) = Suc n" "length (s_used s) = Suc n" "length (s_way s) = Suc n"
    "\<And>k. k \<le> n \<Longrightarrow> s_used s ! k \<longleftrightarrow> k \<in> set us" "\<forall>k\<in>set us. p ! k \<noteq> 0"
    "labels_ok cost (bnd + s_u s ! i) (s_u s) (s_v s) p" "us = [] \<Longrightarrow> s_u s ! i = 0"
    "\<forall>r\<in>{i<..n}. s_u s ! r = 0" "tree_ok cost (s_u s) (s_v s) p (s_way s) (us @ [s_column s])"
    "front_ok cost (s_u s) (s_v s) p (s_way s) (s_minimum s) (set us) (set (us @ [s_column s]))"
  using assms unfolding head_ok_def Let_def by blast+

lemma slack_bounded:
  assumes labels: "labels_ok cost (bnd + u ! i) u v p" and src: "source_ok (length cost) i p"
    and costs: "costs_ok cost c" and big: "bnd + 2 * c < infinity"
    and rj: "r \<in> {1..length cost}" "j \<in> {1..length cost}"
  shows "slack cost u v r j < infinity"
proof -
  obtain f where f: "f \<in> {1..length cost}" "p ! f = 0" and i: "i \<in> {1..length cost}"
    using src by (auto simp: source_ok_def)
  have "0 \<le> slack cost u v i f" "v ! f = 0" "- (bnd + u ! i) \<le> v ! j" "0 \<le> u ! r"
    using labels f i rj by (auto simp: labels_ok_def Let_def)
  moreover have "entry cost i f \<le> c" "entry cost r j \<le> c"
    using costs i f(1) rj by (auto simp: costs_ok_def)
  ultimately show ?thesis using big by (simp add: slack_def)
qed

text \<open>The columns not reached yet after the scan, and the column the step chooses.\<close>

lemma scan_front:
  assumes head: "head_ok cost bnd i p s us" and src: "source_ok n i p" and n: "n = length cost"
    and costs: "costs_ok cost c" and big: "bnd + 2 * c < infinity"
    and col: "p ! s_column s \<noteq> 0"
    and scan: "fold (scan_column cost (s_u s) (s_v s) ((s_used s)[s_column s := True]) (p ! s_column s) (s_column s))
      [1..<Suc n] (s_minimum s, s_way s, infinity, 0) = (minimum, way, delta, nxt)"
  defines "ord \<equiv> us @ [s_column s]"
  shows "length minimum = Suc n" "length way = Suc n" "\<forall>k\<in>set ord. way ! k = s_way s ! k"
    and "nxt \<in> {1..n} - set ord" "minimum ! nxt = delta" "\<forall>j\<in>{1..n} - set ord. delta \<le> minimum ! j"
    and "\<forall>j\<in>{1..n} - set ord. way ! j \<in> set ord \<and> minimum ! j = slack cost (s_u s) (s_v s) (p ! (way ! j)) j
           \<and> (\<forall>k\<in>set ord. minimum ! j \<le> slack cost (s_u s) (s_v s) (p ! k) j)"
proof -
  note H = head_unfold [OF head n]
  let ?used = "(s_used s)[s_column s := True]" and ?sl = "\<lambda>k j. slack cost (s_u s) (s_v s) (p ! k) j"
  have ord: "set ord \<subseteq> {0..n}" "s_column s \<le> n"
    using H(9) by (auto simp: tree_ok_def n ord_def)
  have nz: "\<forall>k\<in>set ord. p ! k \<noteq> 0" using H(5) col by (simp add: ord_def)
  have used: "?used ! k \<longleftrightarrow> k \<in> set ord" if "k \<le> n" for k
    using that H(2) H(4) [OF that] ord(2) by (simp add: ord_def nth_list_update)
  have S: "length minimum = Suc n \<and> length way = Suc n
    \<and> (\<forall>j\<le>n. minimum ! j = (if j \<in> {1..n} \<and> \<not> ?used ! j then min (s_minimum s ! j) (?sl (s_column s) j) else s_minimum s ! j))
    \<and> (\<forall>j\<le>n. way ! j = (if j \<in> {1..n} \<and> \<not> ?used ! j \<and> ?sl (s_column s) j < s_minimum s ! j then s_column s else s_way s ! j))
    \<and> delta \<le> infinity \<and> (\<forall>j\<in>{1..n}. \<not> ?used ! j \<longrightarrow> delta \<le> minimum ! j)
    \<and> (delta < infinity \<longrightarrow> nxt \<in> {1..n} \<and> \<not> ?used ! nxt \<and> minimum ! nxt = delta)"
    by (rule scan_columns [OF _ H(1,3) order_refl scan]) (simp add: slack_def entry_def fun_eq_iff)
  then show lens: "length minimum = Suc n" "length way = Suc n" by blast+
  show "\<forall>k\<in>set ord. way ! k = s_way s ! k"
  proof
    fix k assume k: "k \<in> set ord"
    then have "k \<le> n" "?used ! k" using ord(1) used [of k] by auto
    then show "way ! k = s_way s ! k" using S by simp
  qed
  have le: "p ! k \<le> i" if "k \<le> n" for k using src that by (simp add: source_ok_def)
  have i: "i \<le> n" using src by (simp add: source_ok_def)
  have row: "p ! k \<in> {1..n}" if "k \<in> set ord" for k
  proof -
    have "k \<le> n" "p ! k \<noteq> 0" using that ord(1) nz by auto
    then show ?thesis using le [of k] i by simp
  qed
  have fin: "?sl k j < infinity" if "k \<in> set ord" "j \<in> {1..n}" for k j
    using slack_bounded [OF H(6) _ costs big] src row [OF that(1)] that(2) n by simp
  have m: "minimum ! j = min (s_minimum s ! j) (?sl (s_column s) j)"
    and w: "way ! j = (if ?sl (s_column s) j < s_minimum s ! j then s_column s else s_way s ! j)"
    if "j \<in> {1..n} - set ord" for j
    using S used that by auto
  have front: "us = [] \<Longrightarrow> s_minimum s ! j = infinity"
    "us \<noteq> [] \<Longrightarrow> s_way s ! j \<in> set us \<and> s_minimum s ! j = ?sl (s_way s ! j) j"
    "\<forall>k\<in>set us. s_minimum s ! j \<le> ?sl k j" if "j \<in> {1..n} - set ord" for j
    using H(10) that unfolding front_ok_def ord_def n by auto
  show new: "\<forall>j\<in>{1..n} - set ord. way ! j \<in> set ord \<and> minimum ! j = ?sl (way ! j) j
      \<and> (\<forall>k\<in>set ord. minimum ! j \<le> ?sl k j)"
  proof
    fix j assume j: "j \<in> {1..n} - set ord"
    have "way ! j \<in> set ord \<and> minimum ! j = ?sl (way ! j) j"
    proof (cases "us = []")
      case True
      then show ?thesis using m [OF j] w [OF j] front(1) [OF j] fin [of "s_column s" j] j
        by (auto simp: ord_def)
    next
      case False
      then show ?thesis using m [OF j] w [OF j] front(2) [OF j] by (auto simp: ord_def)
    qed
    moreover have "\<forall>k\<in>set ord. minimum ! j \<le> ?sl k j"
      using m [OF j] front(3) [OF j] by (auto simp: ord_def)
    ultimately show "way ! j \<in> set ord \<and> minimum ! j = ?sl (way ! j) j \<and> (\<forall>k\<in>set ord. minimum ! j \<le> ?sl k j)"
      by blast
  qed
  obtain f where f: "f \<in> {1..n}" "p ! f = 0" using src by (auto simp: source_ok_def)
  then have "f \<in> {1..n} - set ord" using nz by auto
  then have "minimum ! f < infinity" using new fin [of _ f] f(1) by metis
  moreover show least: "\<forall>j\<in>{1..n} - set ord. delta \<le> minimum ! j"
  proof
    fix j assume "j \<in> {1..n} - set ord"
    then have "j \<in> {1..n}" "\<not> ?used ! j" using used by auto
    then show "delta \<le> minimum ! j" using S by blast
  qed
  ultimately have "delta < infinity" using \<open>f \<in> {1..n} - set ord\<close> by force
  then have nxt: "nxt \<in> {1..n}" "\<not> ?used ! nxt" "minimum ! nxt = delta" using S by blast+
  then show "nxt \<in> {1..n} - set ord" "minimum ! nxt = delta" using used by auto
qed

lemma search_step_ok:
  assumes head: "head_ok cost bnd i p s us" and src: "source_ok n i p" and n: "n = length cost"
    and costs: "costs_ok cost c" and big: "bnd + 2 * c < infinity" and col: "p ! s_column s \<noteq> 0"
  shows "head_ok cost bnd i p (search_step cost p s) (us @ [s_column s])"
proof -
  note H = head_unfold [OF head n]
  define ord where "ord = us @ [s_column s]"
  let ?used = "(s_used s)[s_column s := True]"
  obtain minimum way delta nxt where
    scan: "fold (scan_column cost (s_u s) (s_v s) ?used (p ! s_column s) (s_column s))
      [1..<Suc n] (s_minimum s, s_way s, infinity, 0) = (minimum, way, delta, nxt)"
    by (metis prod_cases4)
  obtain u v m where
    shift: "fold (shift_column delta p ?used) [0..<Suc n] (s_u s, s_v s, minimum) = (u, v, m)"
    by (metis prod_cases3)
  have step: "search_step cost p s =
      \<lparr>s_u = u, s_v = v, s_minimum = m, s_used = ?used, s_way = way, s_column = nxt\<rparr>"
    using scan shift by (simp add: search_step_def n Let_def del: upt_Suc)
  note F = scan_front [OF head src n costs big col scan, folded ord_def]
  have tree0: "ord \<noteq> []" "ord ! 0 = 0" "set ord \<subseteq> {0..n}"
    using H(9) unfolding tree_ok_def n ord_def by blast+
  then have "0 \<in> set ord" by (metis length_greater_0_conv nth_mem)
  then have ord: "set ord \<subseteq> {0..n}" "s_column s \<le> n" "0 \<in> set ord"
    using tree0(3) by (auto simp: ord_def)
  have nz: "\<forall>k\<in>set ord. p ! k \<noteq> 0" using H(5) col by (simp add: ord_def)
  have used: "?used ! k \<longleftrightarrow> k \<in> set ord" if "k \<le> n" for k
    using that H(2) H(4) [OF that] ord(2) by (simp add: ord_def nth_list_update)
  have le: "p ! k \<le> i" if "k \<le> n" for k using src that by (simp add: source_ok_def)
  have i: "i \<le> n" using src by (simp add: source_ok_def)
  have lens: "length (s_u s) = Suc n" "length (s_v s) = Suc n"
    using H(6) by (auto simp: labels_ok_def Let_def n)
  have tree_set: "{k. k < Suc n \<and> ?used ! k} = set ord" using used ord(1) by (auto simp: less_Suc_eq_le)
  have "inj_on ((!) p) (set ord)"
    using src nz ord(1) unfolding source_ok_def by (elim conjE inj_on_subset) auto
  then have "inj_on ((!) p) {k. k \<le> n \<and> ?used ! k}"
    using tree_set by (simp add: less_Suc_eq_le)
  from shift_columns [OF lens F(1) order_refl _ this shift] le i
  have S: "length u = Suc n" "length v = Suc n" "length m = Suc n"
    "\<forall>r\<le>n. u ! r = s_u s ! r + (if r \<in> rows_of p ord then delta else 0)"
    "\<forall>j\<le>n. v ! j = s_v s ! j - (if j < Suc n \<and> ?used ! j then delta else 0)"
    "\<forall>j\<le>n. m ! j = minimum ! j - (if j < Suc n \<and> \<not> ?used ! j then delta else 0)"
    unfolding rows_of_def tree_set by (blast intro: le_trans)+
  have v: "\<forall>j\<le>n. v ! j = s_v s ! j - (if j \<in> set ord then delta else 0)" using S(5) used by simp
  have shifted: "shifted n p ord delta (s_u s) (s_v s) u v"
    using S(1,2,4) v by (simp add: shifted_def)
  have "way ! nxt \<in> set ord" and tight: "delta = slack cost (s_u s) (s_v s) (p ! (way ! nxt)) nxt"
    using F(4,5,7) by auto
  moreover from this have "p ! (way ! nxt) \<in> {1..n}"
    using ord(1) nz le [of "way ! nxt"] i by (auto simp: Suc_le_eq)
  ultimately have d: "0 \<le> delta"
    using H(6) F(4) by (auto simp: labels_ok_def Let_def n)
  have least: "\<forall>j\<in>{1..n} - set ord. \<forall>k\<in>set ord. delta \<le> slack cost (s_u s) (s_v s) (p ! k) j"
    using F(6,7) by (meson order_trans)
  have labels: "labels_ok cost (bnd + u ! i) u v p"
    by (rule shifted_labels [OF H(6) src n shifted d ord(3,1) nz least])
  have tree: "tree_ok cost u v p way (ord @ [nxt])"
    using shifted_tree [OF H(9) [folded ord_def] src n shifted F(3,4) \<open>way ! nxt \<in> set ord\<close>] tight by simp
  have "\<forall>r\<in>{i<..n}. u ! r = 0"
  proof
    fix r assume r: "r \<in> {i<..n}"
    then have "r \<notin> rows_of p ord" using le ord(1) by (fastforce simp: rows_of_def)
    then show "u ! r = 0" using S(4) H(8) r by simp
  qed
  moreover have "front_ok cost u v p way m (set ord) (set (ord @ [nxt]))"
    unfolding front_ok_def
  proof
    fix j assume j: "j \<in> {1..length cost} - set (ord @ [nxt])"
    then have j': "j \<in> {1..n} - set ord" "j \<le> n" by (auto simp: n)
    have sl: "slack cost u v (p ! k) j = slack cost (s_u s) (s_v s) (p ! k) j - delta" if "k \<in> set ord" for k
      using shifted_slack [OF shifted _ j'(2), of "p ! k"] that j'(1) le i ord(1)
      by (auto simp: rows_of_def) (meson atLeastAtMost_iff le_trans subsetD)
    have "m ! j = minimum ! j - delta" using S(6) used j' by simp
    moreover have "way ! j \<in> set ord" "minimum ! j = slack cost (s_u s) (s_v s) (p ! (way ! j)) j"
      "\<forall>k\<in>set ord. minimum ! j \<le> slack cost (s_u s) (s_v s) (p ! k) j"
      using F(7) j'(1) by blast+
    ultimately show "(set ord = {} \<longrightarrow> m ! j = infinity)
      \<and> (set ord \<noteq> {} \<longrightarrow> way ! j \<in> set ord \<and> m ! j = slack cost u v (p ! (way ! j)) j)
      \<and> (\<forall>k\<in>set ord. m ! j \<le> slack cost u v (p ! k) j)" using sl ord(3) by auto
  qed
  ultimately have "head_ok cost bnd i p (search_step cost p s) ord"
    using F(2) S(3) H(2) used nz labels tree unfolding head_ok_def Let_def step n [symmetric]
    by (simp add: ord_def)
  then show ?thesis by (simp add: ord_def)
qed

section \<open>The search ends, and so does the augmentation\<close>

lemma tree_length:
  assumes "tree_ok cost u v p way ord"
  shows "length ord \<le> Suc (length cost)"
proof -
  have "length ord = card (set ord)" using assms by (simp add: tree_ok_def distinct_card)
  also have "\<dots> \<le> card {0..length cost}"
    using assms by (intro card_mono) (simp_all add: tree_ok_def)
  finally show ?thesis by simp
qed

lemma search_loop_ends:
  assumes "head_ok cost bnd i p s us" "source_ok n i p" "n = length cost" "costs_ok cost c"
    and "bnd + 2 * c < infinity" "p ! s_column s \<noteq> 0"
  shows "\<exists>s' us'. search_loop cost p s = Some s' \<and> head_ok cost bnd i p s' us' \<and> us' \<noteq> []
           \<and> p ! s_column s' = 0"
  using assms(1,6)
proof (induction "Suc n - length us" arbitrary: s us rule: less_induct)
  case less
  let ?s = "search_step cost p s" and ?us = "us @ [s_column s]"
  have step: "head_ok cost bnd i p ?s ?us"
    using search_step_ok [OF less.prems(1) assms(2-5) less.prems(2)] .
  show ?case
  proof (cases "p ! s_column ?s = 0")
    case True
    then have "search_loop cost p s = Some ?s" by (simp add: search_loop.simps [of cost p s] Let_def)
    with step True show ?thesis by blast
  next
    case False
    have "length (?us @ [s_column ?s]) \<le> Suc n"
      using tree_length head_unfold(9) [OF step assms(3)] assms(3) by blast
    then have "Suc n - length ?us < Suc n - length us" by simp
    from less.hyps [OF this step False]
    show ?thesis using False by (simp add: search_loop.simps [of cost p s] Let_def)
  qed
qed

text \<open>
  While the augmentation runs, one column is a hole: the others are matched, by tight entries,
  to all the rows, and the columns of the tree below the hole still have their old rows.
\<close>

definition hole_ok ::
  "int list list \<Rightarrow> int list \<Rightarrow> int list \<Rightarrow> nat set \<Rightarrow> nat list \<Rightarrow> nat list \<Rightarrow> nat \<Rightarrow> bool" where
  "hole_ok cost u v rows p q column \<longleftrightarrow>
     (let n = length cost; S = {j. j \<le> n \<and> j \<noteq> column \<and> q ! j \<noteq> 0} in
      length q = Suc n \<and> column \<le> n \<and> inj_on ((!) q) S \<and> (!) q ` S = rows
      \<and> (\<forall>j\<in>{1..n} - {column}. q ! j \<noteq> 0 \<longrightarrow> slack cost u v (q ! j) j = 0)
      \<and> (\<forall>j\<in>{1..n} - {column}. q ! j = 0 \<longrightarrow> p ! j = 0))"

lemma hole_moves:
  assumes hole: "hole_ok cost u v rows p q column" and prev: "prev \<le> length cost" "prev \<noteq> column"
    and q: "q ! prev \<noteq> 0" and tight: "column \<noteq> 0 \<Longrightarrow> slack cost u v (q ! prev) column = 0"
  shows "hole_ok cost u v rows p (q[column := q ! prev]) prev"
proof -
  let ?n = "length cost" and ?q = "q[column := q ! prev]"
  let ?S = "{j. j \<le> ?n \<and> j \<noteq> column \<and> q ! j \<noteq> 0}"
  have H: "length q = Suc ?n" "column \<le> ?n" "inj_on ((!) q) ?S" "(!) q ` ?S = rows"
    "\<forall>j\<in>{1..?n} - {column}. q ! j \<noteq> 0 \<longrightarrow> slack cost u v (q ! j) j = 0"
    "\<forall>j\<in>{1..?n} - {column}. q ! j = 0 \<longrightarrow> p ! j = 0"
    using hole unfolding hole_ok_def Let_def by - (elim conjE, assumption)+
  have at: "?q ! column = q ! prev" "\<And>j. j \<noteq> column \<Longrightarrow> ?q ! j = q ! j" using H(1,2) by simp_all
  have prev_S: "prev \<in> ?S" using prev q by simp
  have S: "{j. j \<le> ?n \<and> j \<noteq> prev \<and> ?q ! j \<noteq> 0} = insert column (?S - {prev})"
    using at H(2) prev q by auto
  have img: "(!) ?q ` (?S - {prev}) = (!) q ` (?S - {prev})" using at(2) by (intro image_cong) auto
  have "inj_on ((!) ?q) (?S - {prev}) = inj_on ((!) q) (?S - {prev})"
    by (rule inj_on_cong) (use at(2) in auto)
  then have "inj_on ((!) ?q) (?S - {prev})" using inj_on_subset [OF H(3)] by auto
  moreover have "?q ! column \<notin> (!) ?q ` (?S - {prev})"
    unfolding img at(1) using inj_on_image_mem_iff [OF H(3) prev_S, of "?S - {prev}"] by simp
  ultimately have "inj_on ((!) ?q) (insert column (?S - {prev}))" by (auto simp: inj_on_insert)
  moreover have "(!) ?q ` insert column (?S - {prev}) = rows"
  proof -
    have "?S = insert prev (?S - {prev})" using prev_S by (rule insert_Diff [symmetric])
    then have "rows = insert (q ! prev) ((!) q ` (?S - {prev}))" using H(4) by (metis (no_types) image_insert)
    then show ?thesis by (simp only: image_insert at(1) img)
  qed
  moreover have "\<forall>j\<in>{1..?n} - {prev}. ?q ! j \<noteq> 0 \<longrightarrow> slack cost u v (?q ! j) j = 0"
    using H(5) at tight by (metis DiffE DiffI atLeastAtMost_iff not_one_le_zero singletonD)
  moreover have "\<forall>j\<in>{1..?n} - {prev}. ?q ! j = 0 \<longrightarrow> p ! j = 0"
    using H(6) at q by (metis DiffE DiffI singletonD)
  ultimately show ?thesis using H(1) prev(1) unfolding hole_ok_def Let_def S by simp
qed

lemma augment_ends:
  assumes tree: "tree_ok cost u v p way ord" and nz: "\<forall>l. Suc l < length ord \<longrightarrow> p ! (ord ! l) \<noteq> 0"
    and "k < length ord" "hole_ok cost u v rows p q (ord ! k)" "\<forall>l<k. q ! (ord ! l) = p ! (ord ! l)"
  shows "\<exists>q'. augment way q (ord ! k) = Some q' \<and> hole_ok cost u v rows p q' 0"
  using assms(3-5)
proof (induction k arbitrary: q rule: less_induct)
  case (less k)
  have ord: "distinct ord" "ord \<noteq> []" "ord ! 0 = 0" "set ord \<subseteq> {0..length cost}"
    and edges: "\<And>k. k < length ord \<Longrightarrow> 0 < k \<Longrightarrow>
      \<exists>l<k. way ! (ord ! k) = ord ! l \<and> slack cost u v (p ! (ord ! l)) (ord ! k) = 0"
    using tree by (auto simp: tree_ok_def)
  show ?case
  proof (cases "k = 0")
    case True
    then show ?thesis using less.prems ord(3) by (simp add: augment.simps [of way q 0])
  next
    case False
    then obtain l where l: "l < k" "way ! (ord ! k) = ord ! l"
      and tight: "slack cost u v (p ! (ord ! l)) (ord ! k) = 0"
      using edges [OF less.prems(1)] by blast
    have lt: "l < length ord" "Suc l < length ord" using l(1) less.prems(1) by auto
    have ne: "ord ! l' \<noteq> ord ! k" if "l' < k" for l'
      using that less.prems(1) ord(1) by (simp add: nth_eq_iff_index_eq)
    have "ord ! k \<noteq> ord ! 0" using ne [of 0] False by simp
    then have k0: "ord ! k \<noteq> 0" using ord(3) by simp
    have ql: "q ! (ord ! l) = p ! (ord ! l)" using less.prems(3) l(1) by blast
    have "ord ! l \<le> length cost" using ord(4) lt(1) nth_mem by fastforce
    then have "hole_ok cost u v rows p (q[ord ! k := q ! (ord ! l)]) (ord ! l)"
      using hole_moves [OF less.prems(2) _ ne [OF l(1)]] nz lt(2) ql tight by simp
    moreover have "\<forall>l'<l. q[ord ! k := q ! (ord ! l)] ! (ord ! l') = p ! (ord ! l')"
      using less.prems(3) ne l(1) by (metis nth_list_update_neq order.strict_trans)
    ultimately show ?thesis
      using less.IH [OF l(1) lt(1)] k0 l(2) by (simp add: augment.simps [of way q "ord ! k"])
  qed
qed

section \<open>Adding the rows one after the other\<close>

definition row_ok :: "int list list \<Rightarrow> int \<Rightarrow> nat \<Rightarrow> labels \<Rightarrow> bool" where
  "row_ok cost bnd i l \<longleftrightarrow>
     (case l of (u, v, p, way) \<Rightarrow>
        labels_ok cost bnd u v p \<and> matching_ok (length cost) i p \<and> length way = Suc (length cost)
        \<and> (\<forall>r\<in>{i..length cost}. u ! r = 0))"

lemma start_head:
  assumes "row_ok cost bnd i (u, v, p, way)" "i \<in> {1..length cost}"
  shows "head_ok cost bnd i (p[0 := i])
    \<lparr>s_u = u, s_v = v, s_minimum = replicate (Suc (length cost)) infinity,
     s_used = replicate (Suc (length cost)) False, s_way = way, s_column = 0\<rparr> []"
proof -
  have "labels_ok cost bnd u v (p[0 := i])"
    using assms(1) unfolding row_ok_def labels_ok_def Let_def by simp
  moreover have "u ! i = 0" using assms by (simp add: row_ok_def)
  moreover have "tree_ok cost u v (p[0 := i]) way [0]" by (simp add: tree_ok_def)
  moreover have "front_ok cost u v (p[0 := i]) way (replicate (Suc (length cost)) infinity) {} {0}"
    by (simp add: front_ok_def del: replicate_Suc)
  ultimately show ?thesis
    using assms(1) unfolding head_ok_def Let_def
    by (simp add: row_ok_def del: replicate_Suc)
qed

lemma column_entry_bound:
  assumes "labels_ok cost bnd u v p" "source_ok (length cost) i p" "costs_ok cost c"
  shows "u ! i \<le> c"
proof -
  obtain f where f: "f \<in> {1..length cost}" "p ! f = 0" and i: "i \<in> {1..length cost}"
    using assms(2) by (auto simp: source_ok_def)
  then have "0 \<le> slack cost u v i f" "v ! f = 0" "entry cost i f \<le> c"
    using assms(1,3) by (auto simp: labels_ok_def costs_ok_def Let_def)
  then show ?thesis by (simp add: slack_def)
qed

lemma add_row_ends:
  assumes row: "row_ok cost bnd i l" and i: "i \<in> {1..length cost}" and costs: "costs_ok cost c"
    and big: "bnd + 2 * c < infinity"
  shows "\<exists>l'. add_row cost i l = Some l' \<and> row_ok cost (bnd + c) (Suc i) l'"
proof -
  obtain u v p way where l: "l = (u, v, p, way)" by (metis prod_cases4)
  let ?n = "length cost" and ?p = "p[0 := i]"
  let ?start = "\<lparr>s_u = u, s_v = v, s_minimum = replicate (Suc ?n) infinity,
     s_used = replicate (Suc ?n) False, s_way = way, s_column = 0\<rparr>"
  have src: "source_ok ?n i ?p"
    using matching_source i row by (auto simp: row_ok_def l)
  have "?p ! 0 \<noteq> 0" using src by (auto simp: source_ok_def)
  then obtain s us where s: "search_loop cost ?p ?start = Some s" "head_ok cost bnd i ?p s us" "us \<noteq> []"
    and free: "?p ! s_column s = 0"
    using search_loop_ends [OF start_head [OF row [unfolded l] i] src refl costs big] by auto
  note H = head_unfold [OF s(2) refl]
  let ?ord = "us @ [s_column s]" and ?k = "length us"
  have nz: "\<forall>j. Suc j < length ?ord \<longrightarrow> ?p ! (?ord ! j) \<noteq> 0"
    using H(5) by (simp add: nth_append)
  have col: "s_column s \<le> ?n" using H(9) by (auto simp: tree_ok_def)
  have tight: "\<forall>j\<in>{1..?n}. ?p ! j \<noteq> 0 \<longrightarrow> slack cost (s_u s) (s_v s) (?p ! j) j = 0"
    using H(6) by (simp add: labels_ok_def Let_def)
  have "{j. j \<le> ?n \<and> j \<noteq> s_column s \<and> ?p ! j \<noteq> 0} = {j. j \<le> ?n \<and> ?p ! j \<noteq> 0}"
    using free by auto
  then have "hole_ok cost (s_u s) (s_v s) {1..i} ?p ?p (?ord ! ?k)"
    using src col tight unfolding hole_ok_def Let_def source_ok_def by simp
  then obtain p' where p': "augment (s_way s) ?p (s_column s) = Some p'"
    and hole: "hole_ok cost (s_u s) (s_v s) {1..i} ?p p' 0"
    using augment_ends [OF H(9) nz, of ?k "{1..i}" ?p] by auto
  have S: "{j. j \<le> ?n \<and> j \<noteq> 0 \<and> p' ! j \<noteq> 0} = {j \<in> {1..?n}. p' ! j \<noteq> 0}" by auto
  have match: "matching_ok ?n (Suc i) p'"
    using hole unfolding hole_ok_def Let_def matching_ok_def S by (simp add: atLeastLessThanSuc_atLeastAtMost)
  have new: "\<forall>j\<in>{1..?n}. p' ! j \<noteq> 0 \<longrightarrow> slack cost (s_u s) (s_v s) (p' ! j) j = 0"
    "\<forall>j\<in>{1..?n}. p' ! j = 0 \<longrightarrow> ?p ! j = 0"
    using hole by (auto simp: hole_ok_def Let_def)
  have "s_u s ! i \<le> c" using column_entry_bound [OF H(6) src costs] .
  then have "labels_ok cost (bnd + c) (s_u s) (s_v s) p'"
    using H(6) new unfolding labels_ok_def Let_def by (meson add_left_mono le_imp_neg_le order_trans)
  then have "row_ok cost (bnd + c) (Suc i) (s_u s, s_v s, p', s_way s)"
    using match H(3,8) by (simp add: row_ok_def)
  moreover have "add_row cost i l = Some (s_u s, s_v s, p', s_way s)"
    using s(1) p' by (simp add: add_row_def l Let_def)
  ultimately show ?thesis by blast
qed

lemma add_rows_end:
  assumes "row_ok cost bnd i l" "1 \<le> i" "i \<le> Suc (length cost)" "costs_ok cost c" "0 \<le> c"
    and "bnd + int (Suc (Suc (length cost) - i)) * c < infinity"
  shows "\<exists>l' bnd'. add_rows cost [i..<Suc (length cost)] l = Some l' \<and> row_ok cost bnd' (Suc (length cost)) l'"
  using assms(1-3,6)
proof (induction "Suc (length cost) - i" arbitrary: i l bnd)
  case 0
  then have "i = Suc (length cost)" by simp
  with 0 show ?case by auto
next
  case (Suc d)
  then have i: "i \<in> {1..length cost}" by auto
  have d: "Suc (length cost) - i = Suc d" "Suc (length cost) - Suc i = d" using Suc.hyps(2) by simp_all
  have sum: "bnd + int (Suc (Suc d)) * c < infinity" using Suc.prems(4) d(1) by simp
  moreover have "2 * c \<le> int (Suc (Suc d)) * c" using assms(5) by (intro mult_right_mono) simp_all
  ultimately have "bnd + 2 * c < infinity" by linarith
  then obtain l1 where l1: "add_row cost i l = Some l1" "row_ok cost (bnd + c) (Suc i) l1"
    using add_row_ends [OF Suc.prems(1) i assms(4)] by blast
  have "bnd + c + int (Suc d) * c < infinity" using sum by (simp add: algebra_simps)
  then obtain l' bnd' where "add_rows cost [Suc i..<Suc (length cost)] l1 = Some l'"
    "row_ok cost bnd' (Suc (length cost)) l'"
    using Suc.hyps(1) [OF d(2) [symmetric] l1(2)] i d(2) by auto
  moreover have "[i..<Suc (length cost)] = i # [Suc i..<Suc (length cost)]"
    using i by (intro upt_conv_Cons) simp
  ultimately have "add_rows cost [i..<Suc (length cost)] l = Some l'" using l1(1) by (simp del: upt_Suc)
  with \<open>row_ok cost bnd' (Suc (length cost)) l'\<close> show ?case by blast
qed

section \<open>The result is optimal\<close>

definition is_assignment :: "nat \<Rightarrow> nat list \<Rightarrow> bool" where
  "is_assignment n a \<longleftrightarrow> length a = n \<and> distinct a \<and> set a \<subseteq> {..<n}"

definition assignment_cost :: "int list list \<Rightarrow> nat list \<Rightarrow> int" where
  "assignment_cost cost a = (\<Sum>r<length cost. cost ! r ! (a ! r))"

definition square_matrix :: "int list list \<Rightarrow> int \<Rightarrow> bool" where
  "square_matrix cost c \<longleftrightarrow>
     list_all (\<lambda>row. length row = length cost \<and> list_all (\<lambda>x. 0 \<le> x \<and> x \<le> c) row) cost"

lemma square_costs: "square_matrix cost c \<Longrightarrow> costs_ok cost c"
proof -
  assume "square_matrix cost c"
  then have entries: "0 \<le> cost ! k ! l \<and> cost ! k ! l \<le> c" if "k < length cost" "l < length cost" for k l
    using that by (auto simp: square_matrix_def list_all_length)
  then have "0 \<le> entry cost r j \<and> entry cost r j \<le> c" if "r \<in> {1..length cost}" "j \<in> {1..length cost}" for r j
  proof -
    have "r - 1 < length cost" "j - 1 < length cost" using that by auto
    then show ?thesis unfolding entry_def by (rule entries)
  qed
  then show ?thesis unfolding costs_ok_def by blast
qed

lemma assignment_at:
  assumes "is_assignment n a" "r < n"
  shows "a ! r < n"
proof -
  have "a ! r \<in> set a" using assms by (simp add: is_assignment_def)
  then have "a ! r \<in> {..<n}" using assms(1) unfolding is_assignment_def by blast
  then show ?thesis by simp
qed

lemma assignment_bij: "is_assignment n a \<Longrightarrow> bij_betw ((!) a) {..<n} {..<n}"
proof -
  assume a: "is_assignment n a"
  then have "card (set a) = n" by (simp add: is_assignment_def distinct_card)
  with a have "set a = {..<n}" by (intro card_subset_eq) (simp_all add: is_assignment_def)
  with a show ?thesis by (simp add: is_assignment_def bij_betw_nth)
qed

lemma read_assignment_at:
  assumes "length p = Suc n" "inj_on ((!) p) {j \<in> {1..n}. p ! j \<noteq> 0}" "\<forall>j\<in>{1..n}. p ! j \<le> n" "m \<le> n"
  shows "length (fold (\<lambda>j a. if p ! j \<noteq> 0 then a[p ! j - 1 := j - 1] else a) [1..<Suc m] (replicate n 0)) = n
    \<and> (\<forall>j\<in>{1..m}. p ! j \<noteq> 0 \<longrightarrow>
         fold (\<lambda>j a. if p ! j \<noteq> 0 then a[p ! j - 1 := j - 1] else a) [1..<Suc m] (replicate n 0) ! (p ! j - 1) = j - 1)"
  using assms(4)
proof (induction m)
  case (Suc m)
  let ?f = "\<lambda>j a. if p ! j \<noteq> 0 then a[p ! j - 1 := j - 1] else a"
  let ?a = "fold ?f [1..<Suc m] (replicate n 0)"
  have IH: "length ?a = n" "\<And>j. j \<in> {1..m} \<Longrightarrow> p ! j \<noteq> 0 \<Longrightarrow> ?a ! (p ! j - 1) = j - 1"
    using Suc by auto
  have run: "fold ?f [1..<Suc (Suc m)] (replicate n 0) = ?f (Suc m) ?a" by simp
  have m: "Suc m \<in> {1..n}" using Suc.prems by simp
  have "?f (Suc m) ?a ! (p ! j - 1) = j - 1" if "j \<in> {1..Suc m}" "p ! j \<noteq> 0" for j
  proof (cases "j = Suc m")
    case True
    have "p ! Suc m \<le> n" using assms(3) m by blast
    then show ?thesis using True that(2) IH(1) by simp
  next
    case False
    then have j: "j \<in> {1..m}" "j \<in> {1..n}" using that Suc.prems by auto
    have "p ! Suc m - 1 \<noteq> p ! j - 1" if "p ! Suc m \<noteq> 0"
    proof
      assume "p ! Suc m - 1 = p ! j - 1"
      then have "p ! Suc m = p ! j" using that \<open>p ! j \<noteq> 0\<close> by linarith
      then have "Suc m = j" using inj_onD [OF assms(2), of "Suc m" j] m j(2) that \<open>p ! j \<noteq> 0\<close> by simp
      with False show False by simp
    qed
    then show ?thesis using IH(2) [OF j(1) that(2)] by (simp add: nth_list_update_neq)
  qed
  then show ?case unfolding run using IH(1) by simp
qed simp

lemma full_matching:
  assumes "matching_ok n (Suc n) p"
  shows "is_assignment n (read_assignment n p)"
    and "\<forall>r<n. p ! Suc (read_assignment n p ! r) = Suc r"
proof -
  let ?S = "{j \<in> {1..n}. p ! j \<noteq> 0}" and ?a = "read_assignment n p"
  have p: "length p = Suc n" "inj_on ((!) p) ?S" "(!) p ` ?S = {1..<Suc n}"
    using assms by (simp_all add: matching_ok_def)
  have "card ?S = n" using card_image [OF p(2)] unfolding p(3) by simp
  then have S: "?S = {1..n}" by (intro card_subset_eq) auto
  then have "(!) p ` {1..n} = {1..<Suc n}" using p(3) by simp
  then have img: "p ! j \<in> {1..<Suc n}" if "j \<in> {1..n}" for j using that by blast
  have R: "length ?a = n" "\<And>j. j \<in> {1..n} \<Longrightarrow> ?a ! (p ! j - 1) = j - 1"
  proof -
    have "\<forall>j\<in>{1..n}. p ! j \<le> n" using img by fastforce
    note at = read_assignment_at [OF p(1,2) this order_refl, folded read_assignment_def]
    then show "length ?a = n" by blast
    show "?a ! (p ! j - 1) = j - 1" if "j \<in> {1..n}" for j
      using at that img [OF that] by (metis atLeastLessThan_iff not_one_le_zero)
  qed
  have at: "?a ! r < n \<and> p ! Suc (?a ! r) = Suc r" if "r < n" for r
  proof -
    have "Suc r \<in> (!) p ` {1..n}" using \<open>(!) p ` {1..n} = {1..<Suc n}\<close> that by auto
    then obtain j where j: "j \<in> {1..n}" "p ! j = Suc r" by auto
    then have "?a ! r = j - 1" using R(2) [OF j(1)] by simp
    with j show ?thesis by auto
  qed
  then show "\<forall>r<n. p ! Suc (?a ! r) = Suc r" by blast
  have "distinct ?a" unfolding distinct_conv_nth R(1) using at by (metis Suc_inject)
  moreover have "set ?a \<subseteq> {..<n}" using at R(1) by (auto simp: in_set_conv_nth)
  ultimately show "is_assignment n ?a" using R(1) by (simp add: is_assignment_def)
qed

text \<open>Weak duality: no assignment costs less than the potentials add up to.\<close>

lemma potentials_sum:
  assumes "is_assignment (length cost) b"
  shows "assignment_cost cost b = (\<Sum>r<length cost. u ! Suc r) + (\<Sum>j<length cost. v ! Suc j)
           + (\<Sum>r<length cost. slack cost u v (Suc r) (Suc (b ! r)))"
proof -
  have "(\<Sum>r<length cost. v ! Suc (b ! r)) = (\<Sum>j<length cost. v ! Suc j)"
    using sum.reindex_bij_betw [OF assignment_bij [OF assms], of "\<lambda>j. v ! Suc j"] by simp
  moreover have "assignment_cost cost b
      = (\<Sum>r<length cost. u ! Suc r + v ! Suc (b ! r) + slack cost u v (Suc r) (Suc (b ! r)))"
    by (simp add: assignment_cost_def slack_def entry_def)
  ultimately show ?thesis by (simp add: sum.distrib)
qed

lemma labels_optimal:
  assumes "labels_ok cost bnd u v p" "matching_ok (length cost) (Suc (length cost)) p"
    and "is_assignment (length cost) b"
  shows "assignment_cost cost (read_assignment (length cost) p) \<le> assignment_cost cost b"
proof -
  let ?n = "length cost" and ?a = "read_assignment (length cost) p"
  note a = full_matching [OF assms(2)]
  have "slack cost u v (Suc r) (Suc (?a ! r)) = 0" if "r < ?n" for r
  proof -
    have "?a ! r < ?n" using assignment_at [OF a(1) that] .
    then have "Suc (?a ! r) \<in> {1..?n}" by auto
    moreover have "p ! Suc (?a ! r) = Suc r" using a(2) that by blast
    ultimately show ?thesis using assms(1) unfolding labels_ok_def Let_def by (metis nat.distinct(1))
  qed
  then have zero: "(\<Sum>r<?n. slack cost u v (Suc r) (Suc (?a ! r))) = 0" by simp
  have "0 \<le> slack cost u v (Suc r) (Suc (b ! r))" if "r < ?n" for r
  proof -
    have "b ! r < ?n" using assignment_at [OF assms(3) that] .
    then show ?thesis using assms(1) that by (simp add: labels_ok_def Let_def)
  qed
  then have "0 \<le> (\<Sum>r<?n. slack cost u v (Suc r) (Suc (b ! r)))" by (intro sum_nonneg) simp
  then show ?thesis using potentials_sum [OF a(1), of u v] potentials_sum [OF assms(3), of u v] zero by simp
qed

lemma hungarian_min_correct:
  assumes "square_matrix cost c" "0 \<le> c" "(int (length cost) + 1) * c < infinity"
  shows "\<exists>a. hungarian_min cost = Some a \<and> is_assignment (length cost) a
    \<and> (\<forall>b. is_assignment (length cost) b \<longrightarrow> assignment_cost cost a \<le> assignment_cost cost b)"
proof (cases "cost = []")
  case True
  then show ?thesis by (simp add: hungarian_min_def is_assignment_def assignment_cost_def)
next
  case False
  let ?n = "length cost" and ?zeros = "replicate (Suc (length cost)) (0 :: nat)"
  let ?start = "(replicate (Suc ?n) 0, replicate (Suc ?n) 0, ?zeros, ?zeros)"
  have costs: "costs_ok cost c" using square_costs [OF assms(1)] .
  have none: "{j \<in> {1..?n}. ?zeros ! j \<noteq> 0} = {}" by (auto simp del: replicate_Suc)
  have "matching_ok ?n 1 ?zeros" unfolding matching_ok_def none by simp
  moreover have "labels_ok cost 0 (replicate (Suc ?n) 0) (replicate (Suc ?n) 0) ?zeros"
    using costs by (simp add: labels_ok_def Let_def slack_def costs_ok_def del: replicate_Suc)
  ultimately have "row_ok cost 0 1 ?start" by (simp add: row_ok_def del: replicate_Suc)
  moreover have "0 + int (Suc (Suc ?n - 1)) * c < infinity" using assms(3) by (simp add: algebra_simps)
  ultimately obtain l bnd where l: "add_rows cost [1..<Suc ?n] ?start = Some l" "row_ok cost bnd (Suc ?n) l"
    using add_rows_end [OF _ _ _ costs assms(2), of 0 1 ?start] by auto
  obtain u v p way where "l = (u, v, p, way)" by (metis prod_cases4)
  with l have "hungarian_min cost = Some (read_assignment ?n p)"
    and "labels_ok cost bnd u v p" "matching_ok ?n (Suc ?n) p"
    using False by (simp_all add: hungarian_min_def row_ok_def Let_def del: upt_Suc replicate_Suc)
  then show ?thesis using full_matching(1) labels_optimal by blast
qed

text \<open>
  C29. \<open>_hungarian_min\<close> is correct: for a square matrix of entries between zero and \<open>c\<close>, with
  \<open>(n + 1) * c\<close> below the code's infinity of \<open>10 ** 18\<close>, the loops end, and the result assigns
  each row a column of its own, at a total cost that no assignment of the rows to distinct
  columns undercuts.
\<close>
theorem hungarian_min_optimal:
  assumes "square_matrix cost c" "0 \<le> c" "(int (length cost) + 1) * c < infinity"
  shows "\<exists>a. hungarian_min cost = Some a \<and> is_assignment (length cost) a
    \<and> (\<forall>b. is_assignment (length cost) b \<longrightarrow> assignment_cost cost a \<le> assignment_cost cost b)"
  by (rule hungarian_min_correct [OF assms])

theorem hungarian_min_optimal_witness:
  "hungarian_min [[1, 1], [1, 3]] = Some [1, 0] \<and> is_assignment 2 [1, 0]
    \<and> assignment_cost [[1, 1], [1, 3]] [1, 0] \<le> assignment_cost [[1, 1], [1, 3]] [0, 1]"
proof -
  have run: "hungarian_min [[1, 1], [1, 3]] = Some [1, 0]" by code_simp
  have "is_assignment 2 [0, 1]" by (simp add: is_assignment_def)
  with run hungarian_min_optimal [of "[[1, 1], [1, 3]]" 3] show ?thesis
    by (simp add: square_matrix_def infinity_def numeral_2_eq_2)
qed

end
