(* ===== verification/Album_Continuity.thy ===== *)
theory Album_Continuity
  imports Complex_Main Py_Base Hungarian "HOL-Library.Multiset" "HOL-Library.List_Lexorder" "HOL-Library.Product_Lexorder"
begin

text \<open>
  \<open>assign_album_continuity\<close> of \<open>services/native/local_album_grouper.py\<close>: when the files of a
  library are grouped again, which of the new albums keep the identity of an old one. The code
  counts the tracks that an old and a new album share, splits the pairs that share any into
  connected components, and solves each component with \<open>_hungarian_min\<close>. What it promises is the
  one-to-one choice with the largest number of shared tracks. The order in which Python runs
  through a set of integers is not specified; here it is the order of insertion, on which the
  result does not depend. A creation time is a rational number.
\<close>

section \<open>Shared tracks\<close>

record existing_album =
  ea_id :: pystr
  ea_tracks :: "pystr list"
  ea_created_at :: rat

record proposed_album =
  pa_grouping_key :: pystr
  pa_title :: pystr
  pa_artist :: pystr
  pa_tracks :: "pystr list"
  pa_reason :: pystr
  pa_retained :: "pystr option"
  pa_continuity :: "pystr option"

definition order_existing :: "existing_album list \<Rightarrow> existing_album list" where
  "order_existing existing = sort_key (\<lambda>album. (ea_created_at album, ea_id album)) existing"

definition order_proposed :: "proposed_album list \<Rightarrow> proposed_album list" where
  "order_proposed proposed = sort_key pa_grouping_key proposed"

text \<open>\<open>track_to_existing\<close>: the rows that hold a track.\<close>

definition track_rows :: "existing_album list \<Rightarrow> pystr \<Rightarrow> nat list" where
  "track_rows ordered track_id =
     concat (map (\<lambda>(row, album). map (\<lambda>_. row) (filter (\<lambda>t. t = track_id) (ea_tracks album)))
               (enumerate 0 ordered))"

text \<open>
  The pairs for which the loop counts one more shared track, in its order. \<open>overlaps\<close>,
  \<open>existing_edges\<close> and \<open>proposed_edges\<close> are read from them.
\<close>

definition shared_pairs :: "existing_album list \<Rightarrow> proposed_album list \<Rightarrow> (nat \<times> nat) list" where
  "shared_pairs ordered_existing ordered_proposed =
     concat (map (\<lambda>(column, album).
                    concat (map (\<lambda>track_id. map (\<lambda>row. (row, column)) (track_rows ordered_existing track_id))
                              (pa_tracks album)))
               (enumerate 0 ordered_proposed))"

type_synonym pairs = "(nat \<times> nat) list"

definition overlaps :: "pairs \<Rightarrow> nat \<Rightarrow> nat \<Rightarrow> nat" where
  "overlaps es row column = count_list es (row, column)"

definition existing_edges :: "pairs \<Rightarrow> nat \<Rightarrow> nat list" where
  "existing_edges es row = remdups (map snd (filter (\<lambda>e. fst e = row) es))"

definition proposed_edges :: "pairs \<Rightarrow> nat \<Rightarrow> nat list" where
  "proposed_edges es column = remdups (map fst (filter (\<lambda>e. snd e = column) es))"

section \<open>Components\<close>

definition visit_column :: "pairs \<Rightarrow> nat list \<Rightarrow> nat \<Rightarrow> nat list \<times> nat list \<Rightarrow> nat list \<times> nat list" where
  "visit_column es component_existing column = (\<lambda>(component_proposed, pending).
     if column \<in> set component_proposed then (component_proposed, pending)
     else (component_proposed @ [column],
           pending @ filter (\<lambda>row. row \<notin> set component_existing) (proposed_edges es column)))"

text \<open>The \<open>while\<close> loop; the top of the stack is the end of the list.\<close>

partial_function (option) component ::
  "pairs \<Rightarrow> nat list \<Rightarrow> nat list \<Rightarrow> nat list \<Rightarrow> (nat list \<times> nat list) option" where
  "component es pending component_existing component_proposed =
     (if pending = [] then Some (component_existing, component_proposed)
      else let row = last pending; pending = butlast pending
           in if row \<in> set component_existing then component es pending component_existing component_proposed
              else let component_existing = component_existing @ [row];
                       found = fold (visit_column es component_existing) (existing_edges es row)
                                 (component_proposed, pending)
                   in component es (snd found) component_existing (fst found))"

declare component.simps [code]

fun components :: "pairs \<Rightarrow> nat list \<Rightarrow> nat list \<Rightarrow> (nat list \<times> nat list) list option" where
  "components es [] visited_existing = Some []"
| "components es (initial # rows) visited_existing =
     (if initial \<in> set visited_existing then components es rows visited_existing
      else Option.bind (component es [initial] [] []) (\<lambda>c.
             map_option (Cons c) (components es rows (visited_existing @ fst c))))"

section \<open>One component\<close>

definition component_weight :: "pairs \<Rightarrow> nat list \<Rightarrow> nat list \<Rightarrow> nat \<Rightarrow> nat \<Rightarrow> nat" where
  "component_weight es rows columns row column =
     (if row < length rows \<and> column < length columns then overlaps es (rows ! row) (columns ! column) else 0)"

definition component_maximum :: "pairs \<Rightarrow> nat list \<Rightarrow> nat" where
  "component_maximum es rows =
     Max (set (concat (map (\<lambda>row. map (overlaps es row) (existing_edges es row)) rows)))"

definition component_cost :: "pairs \<Rightarrow> nat list \<Rightarrow> nat list \<Rightarrow> int list list" where
  "component_cost es rows columns =
     (let n = max (length rows) (length columns); maximum = component_maximum es rows
      in map (\<lambda>row. map (\<lambda>column. int maximum - int (component_weight es rows columns row column)) [0..<n]) [0..<n])"

definition kept_pairs :: "pairs \<Rightarrow> nat list \<Rightarrow> nat list \<Rightarrow> nat list \<Rightarrow> pairs" where
  "kept_pairs es rows columns assignment =
     filter (\<lambda>(row, column). overlaps es row column \<noteq> 0)
       (map (\<lambda>(r, c). (rows ! r, columns ! c))
          (filter (\<lambda>(r, c). c < length columns) (enumerate 0 (take (length rows) assignment))))"

definition component_pairs :: "pairs \<Rightarrow> nat list \<times> nat list \<Rightarrow> pairs option" where
  "component_pairs es c =
     (let rows = sort (fst c); columns = sort (snd c)
      in map_option (kept_pairs es rows columns) (hungarian_min (component_cost es rows columns)))"

section \<open>The retained albums\<close>

definition tied :: "pairs \<Rightarrow> nat \<Rightarrow> nat \<Rightarrow> bool" where
  "tied es row column =
     (let old = map (overlaps es row) (existing_edges es row);
          new = map (\<lambda>candidate. overlaps es candidate column) (proposed_edges es column)
      in 1 < count_list old (Max (set old)) \<or> 1 < count_list new (Max (set new)))"

definition retain ::
  "pairs \<Rightarrow> existing_album list \<Rightarrow> proposed_album list \<Rightarrow> nat \<times> nat
     \<Rightarrow> (pystr, pystr \<times> pystr) odict \<Rightarrow> (pystr, pystr \<times> pystr) odict" where
  "retain es ordered_existing ordered_proposed e retained =
     dict_set retained (pa_grouping_key (ordered_proposed ! snd e))
       (ea_id (ordered_existing ! fst e),
        if tied es (fst e) (snd e) then lit ''CONTINUITY_TIE_BROKEN'' else lit ''MAXIMUM_TRACK_OVERLAP'')"

fun all_pairs :: "pairs \<Rightarrow> (nat list \<times> nat list) list \<Rightarrow> pairs option" where
  "all_pairs es [] = Some []"
| "all_pairs es (c # cs) = Option.bind (component_pairs es c) (\<lambda>ps. map_option ((@) ps) (all_pairs es cs))"

definition with_continuity :: "(pystr, pystr \<times> pystr) odict \<Rightarrow> proposed_album \<Rightarrow> proposed_album" where
  "with_continuity retained album =
     album\<lparr>pa_retained := map_option fst (dict_get retained (pa_grouping_key album)),
           pa_continuity := map_option snd (dict_get retained (pa_grouping_key album))\<rparr>"

definition assign_album_continuity ::
  "existing_album list \<Rightarrow> proposed_album list \<Rightarrow> proposed_album list option" where
  "assign_album_continuity existing proposed =
     (let ordered_existing = order_existing existing; ordered_proposed = order_proposed proposed;
          es = shared_pairs ordered_existing ordered_proposed
      in if ordered_proposed = [] then Some []
         else Option.bind (components es (sort (remdups (map fst es))) []) (\<lambda>cs.
              map_option (\<lambda>ps. map (with_continuity (fold (retain es ordered_existing ordered_proposed) ps [])) proposed)
                (all_pairs es cs)))"

section \<open>Components are closed and disjoint\<close>

definition is_closed :: "pairs \<Rightarrow> nat set \<Rightarrow> nat set \<Rightarrow> bool" where
  "is_closed es rows columns \<longleftrightarrow> (\<forall>(r, c)\<in>set es. r \<in> rows \<longleftrightarrow> c \<in> columns)"

lemma set_existing_edges: "c \<in> set (existing_edges es r) \<longleftrightarrow> (r, c) \<in> set es"
  by (force simp: existing_edges_def)

lemma set_proposed_edges: "r \<in> set (proposed_edges es c) \<longleftrightarrow> (r, c) \<in> set es"
  by (force simp: proposed_edges_def)

lemma visit_columns:
  assumes "fold (visit_column es ce) columns (cp, pending) = (cp', pending')" "distinct cp"
  shows "distinct cp' \<and> set cp' = set cp \<union> set columns
    \<and> (\<forall>r. r \<in> set pending' \<longleftrightarrow>
           r \<in> set pending \<or> r \<notin> set ce \<and> (\<exists>c. c \<in> set columns \<and> c \<notin> set cp \<and> (r, c) \<in> set es))"
  using assms
proof (induction columns arbitrary: cp pending)
  case (Cons column columns)
  show ?case
  proof (cases "column \<in> set cp")
    case True
    with Cons show ?thesis by (auto simp: visit_column_def)
  next
    case False
    let ?new = "filter (\<lambda>row. row \<notin> set ce) (proposed_edges es column)"
    have "visit_column es ce column (cp, pending) = (cp @ [column], pending @ ?new)"
      using False by (simp add: visit_column_def)
    then have "fold (visit_column es ce) columns (cp @ [column], pending @ ?new) = (cp', pending')"
      using Cons.prems(1) by simp
    note IH = Cons.IH [OF this]
    then have "distinct cp'" "set cp' = insert column (set cp) \<union> set columns"
      using Cons.prems(2) False by auto
    moreover have "r \<in> set pending' \<longleftrightarrow>
        r \<in> set pending \<or> r \<notin> set ce \<and> (\<exists>c. c \<in> set (column # columns) \<and> c \<notin> set cp \<and> (r, c) \<in> set es)" for r
    proof -
      have "r \<in> set pending' \<longleftrightarrow> r \<in> set pending \<or> r \<in> set ?new
          \<or> r \<notin> set ce \<and> (\<exists>c. c \<in> set columns \<and> c \<notin> insert column (set cp) \<and> (r, c) \<in> set es)"
        using IH Cons.prems(2) False by simp
      moreover have "r \<in> set ?new \<longleftrightarrow> r \<notin> set ce \<and> (r, column) \<in> set es" by (auto simp: set_proposed_edges)
      ultimately show ?thesis using False by (cases "(r, column) \<in> set es") auto
    qed
    ultimately show ?thesis by simp
  qed
qed simp

text \<open>
  The loop ends, and what it returns is closed under sharing a track; \<open>rows\<close> and \<open>columns\<close> are
  those of the components found before, which it stays clear of.
\<close>

lemma component_ends:
  assumes closed: "is_closed es rows columns"
    and "distinct ce" "distinct cp" "set ce \<union> set pending \<subseteq> fst ` set es" "set cp \<subseteq> snd ` set es"
    and "(set ce \<union> set pending) \<inter> rows = {}" "set cp \<inter> columns = {}"
    and "\<forall>(r, c)\<in>set es. r \<in> set ce \<longrightarrow> c \<in> set cp"
    and "\<forall>(r, c)\<in>set es. c \<in> set cp \<longrightarrow> r \<in> set ce \<or> r \<in> set pending"
  shows "\<exists>ce' cp'. component es pending ce cp = Some (ce', cp') \<and> distinct ce' \<and> distinct cp'
    \<and> set ce' \<subseteq> fst ` set es \<and> set cp' \<subseteq> snd ` set es \<and> set ce' \<inter> rows = {} \<and> set cp' \<inter> columns = {}
    \<and> is_closed es (set ce') (set cp') \<and> set ce \<union> set pending \<subseteq> set ce'"
  using assms(2-)
proof (induction "card (fst ` set es - set ce)" arbitrary: ce cp pending rule: less_induct)
  case less
  show ?case
    using less.prems
  proof (induction pending rule: rev_induct)
    case Nil
    then have "is_closed es (set ce) (set cp)" by (auto simp: is_closed_def)
    with Nil show ?case by (auto simp: component.simps [of es "[]"])
  next
    case (snoc row pending)
    show ?case
    proof (cases "row \<in> set ce")
      case True
      have "component es (pending @ [row]) ce cp = component es pending ce cp"
        using True by (subst component.simps) simp
      moreover have "\<exists>ce' cp'. component es pending ce cp = Some (ce', cp') \<and> distinct ce' \<and> distinct cp'
        \<and> set ce' \<subseteq> fst ` set es \<and> set cp' \<subseteq> snd ` set es \<and> set ce' \<inter> rows = {} \<and> set cp' \<inter> columns = {}
        \<and> is_closed es (set ce') (set cp') \<and> set ce \<union> set pending \<subseteq> set ce'"
        using snoc.prems True by (intro snoc.IH) auto
      ultimately show ?thesis using True by auto
    next
      case False
      let ?ce = "ce @ [row]"
      obtain cp1 pending1 where found:
        "fold (visit_column es ?ce) (existing_edges es row) (cp, pending) = (cp1, pending1)"
        by fastforce
      have step: "component es (pending @ [row]) ce cp = component es pending1 ?ce cp1"
        using False found by (subst component.simps) (simp add: Let_def)
      note V = visit_columns [OF found snoc.prems(2)]
      have pending1: "r \<in> set pending1 \<longleftrightarrow>
          r \<in> set pending \<or> r \<notin> set ?ce \<and> (\<exists>c. (row, c) \<in> set es \<and> c \<notin> set cp \<and> (r, c) \<in> set es)" for r
        using V by (simp only: set_existing_edges)
      have row: "row \<in> fst ` set es" "row \<notin> rows" using snoc.prems by auto
      have pending: "set pending \<subseteq> set pending1" using pending1 by blast
      have "fst ` set es - set ?ce \<subset> fst ` set es - set ce" using row(1) False by auto
      then have lt: "card (fst ` set es - set ?ce) < card (fst ` set es - set ce)"
        by (intro psubset_card_mono) auto
      have new: "set pending1 \<subseteq> fst ` set es" "set pending1 \<inter> rows = {}" "set cp1 \<inter> columns = {}"
      proof -
        have clear: "c \<notin> columns" if "(row, c) \<in> set es" for c
          using that row(2) closed by (auto simp: is_closed_def)
        then show "set cp1 \<inter> columns = {}" using V snoc.prems(6) by (auto simp: set_existing_edges)
        have "r \<notin> rows" if "(row, c) \<in> set es" "(r, c) \<in> set es" for r c
          using that clear [of c] closed by (auto simp: is_closed_def)
        then have "r \<notin> rows" if "r \<in> set pending1" for r
          using that pending1 [of r] snoc.prems(5) by auto
        then show "set pending1 \<inter> rows = {}" by blast
        show "set pending1 \<subseteq> fst ` set es"
        proof
          fix r assume "r \<in> set pending1"
          then consider "r \<in> set pending" | c where "(r, c) \<in> set es" using pending1 by blast
          then show "r \<in> fst ` set es" using snoc.prems(3) by cases (auto simp: rev_image_eqI)
        qed
      qed
      have fwd: "\<forall>(r, c)\<in>set es. r \<in> set ?ce \<longrightarrow> c \<in> set cp1"
        using V snoc.prems(7) by (auto simp: set_existing_edges)
      have bwd: "\<forall>(r, c)\<in>set es. c \<in> set cp1 \<longrightarrow> r \<in> set ?ce \<or> r \<in> set pending1"
      proof (clarify)
        fix r c assume e: "(r, c) \<in> set es" "c \<in> set cp1" "r \<notin> set pending1"
        show "r \<in> set ?ce"
        proof (cases "c \<in> set cp")
          case True
          then have "r \<in> set ce \<or> r \<in> set pending \<or> r = row" using snoc.prems(8) e(1) by fastforce
          then show ?thesis using V e(3) by auto
        next
          case False
          then have "c \<in> set (existing_edges es row) - set cp" using V e(2) by auto
          then show ?thesis using V e(1,3) by auto
        qed
      qed
      have "\<exists>ce' cp'. component es pending1 ?ce cp1 = Some (ce', cp') \<and> distinct ce' \<and> distinct cp'
        \<and> set ce' \<subseteq> fst ` set es \<and> set cp' \<subseteq> snd ` set es \<and> set ce' \<inter> rows = {} \<and> set cp' \<inter> columns = {}
        \<and> is_closed es (set ce') (set cp') \<and> set ?ce \<union> set pending1 \<subseteq> set ce'"
      proof (rule less.hyps [OF lt])
        show "distinct ?ce" using snoc.prems(1) False by simp
        show "distinct cp1" using V by blast
        show "set ?ce \<union> set pending1 \<subseteq> fst ` set es" using snoc.prems(3) row(1) new(1) by simp
        show "set cp1 \<subseteq> snd ` set es"
          using V snoc.prems(4) by (auto simp: set_existing_edges rev_image_eqI)
        show "(set ?ce \<union> set pending1) \<inter> rows = {}" using snoc.prems(5) new(2) by auto
      qed (fact new(3) fwd bwd)+
      then show ?thesis unfolding step using pending by auto
    qed
  qed
qed

text \<open>A list of components, each closed, that share neither rows nor columns.\<close>

fun components_ok :: "pairs \<Rightarrow> nat set \<Rightarrow> nat set \<Rightarrow> (nat list \<times> nat list) list \<Rightarrow> bool" where
  "components_ok es rows columns [] \<longleftrightarrow> True"
| "components_ok es rows columns ((ce, cp) # cs) \<longleftrightarrow>
     distinct ce \<and> distinct cp \<and> ce \<noteq> [] \<and> set ce \<subseteq> fst ` set es \<and> set cp \<subseteq> snd ` set es
     \<and> set ce \<inter> rows = {} \<and> set cp \<inter> columns = {} \<and> is_closed es (set ce) (set cp) \<and> components_ok es (rows \<union> set ce) (columns \<union> set cp) cs"

lemma components_end:
  assumes "is_closed es (set visited) columns" "set initials \<subseteq> fst ` set es"
  shows "\<exists>cs. components es initials visited = Some cs \<and> components_ok es (set visited) columns cs
    \<and> set initials \<subseteq> set visited \<union> (\<Union>c\<in>set cs. set (fst c))"
  using assms
proof (induction initials arbitrary: visited columns)
  case (Cons initial initials)
  show ?case
  proof (cases "initial \<in> set visited")
    case True
    with Cons show ?thesis by auto
  next
    case False
    obtain ce cp where c: "component es [initial] [] [] = Some (ce, cp)" "distinct ce" "distinct cp"
      "set ce \<subseteq> fst ` set es" "set cp \<subseteq> snd ` set es" "set ce \<inter> set visited = {}" "set cp \<inter> columns = {}"
      "is_closed es (set ce) (set cp)" "initial \<in> set ce"
      using component_ends [OF Cons.prems(1), of "[]" "[]" "[initial]"] Cons.prems(2) False by auto
    have "is_closed es (set (visited @ ce)) (columns \<union> set cp)"
      using Cons.prems(1) c(8) by (auto simp: is_closed_def)
    from Cons.IH [OF this] Cons.prems(2) obtain cs where
      cs: "components es initials (visited @ ce) = Some cs"
      "components_ok es (set visited \<union> set ce) (columns \<union> set cp) cs"
      "set initials \<subseteq> set visited \<union> set ce \<union> (\<Union>c\<in>set cs. set (fst c))"
      by auto
    then show ?thesis using c False by (auto intro!: exI [of _ "(ce, cp) # cs"])
  qed
qed simp

section \<open>One component is solved best\<close>

definition is_matching :: "(nat \<times> nat) set \<Rightarrow> bool" where
  "is_matching N \<longleftrightarrow> finite N \<and> inj_on fst N \<and> inj_on snd N"

definition total_overlap :: "pairs \<Rightarrow> (nat \<times> nat) set \<Rightarrow> nat" where
  "total_overlap es N = (\<Sum>(r, c)\<in>N. overlaps es r c)"

lemma extend_injection:
  assumes "inj_on f A" "A \<subseteq> {..<n}" "f ` A \<subseteq> {..<n}"
  obtains b where "is_assignment n b" "\<forall>i\<in>A. b ! i = f i"
proof -
  have "card ({..<n} - A) = card ({..<n} - f ` A)"
    using assms card_image [OF assms(1)] by (simp add: card_Diff_subset finite_subset)
  then obtain g where g: "bij_betw g ({..<n} - A) ({..<n} - f ` A)"
    by (metis finite_Diff finite_lessThan finite_same_card_bij)
  define h where "h = (\<lambda>i. if i \<in> A then f i else g i)"
  have "bij_betw h A (f ` A)" using assms(1) by (auto simp: bij_betw_def h_def inj_on_def)
  moreover have "bij_betw h ({..<n} - A) ({..<n} - f ` A)"
    using g by (rule bij_betw_cong [THEN iffD1, rotated]) (simp add: h_def)
  ultimately have "bij_betw h (A \<union> ({..<n} - A)) (f ` A \<union> ({..<n} - f ` A))"
    by (rule bij_betw_combine) auto
  then have h: "bij_betw h {..<n} {..<n}" using assms(2,3) by (simp add: Un_absorb1)
  let ?b = "map h [0..<n]"
  have "set ?b = {..<n}" using h by (auto simp: bij_betw_def atLeast0LessThan)
  moreover have "distinct ?b" using h by (simp add: distinct_map bij_betw_def atLeast0LessThan)
  ultimately have "is_assignment n ?b" by (simp add: is_assignment_def)
  moreover have "\<forall>i\<in>A. ?b ! i = f i" using assms(2) by (auto simp: h_def)
  ultimately show thesis by (rule that)
qed

lemma overlaps_edge: "overlaps es r c \<noteq> 0 \<longleftrightarrow> (r, c) \<in> set es"
  by (simp add: overlaps_def count_list_0_iff)

lemma edge_weight:
  assumes "r \<in> set rows" "(r, c) \<in> set es"
  shows "overlaps es r c \<in> set (concat (map (\<lambda>row. map (overlaps es row) (existing_edges es row)) rows))"
proof -
  have "c \<in> set (existing_edges es r)" using assms(2) by (simp add: set_existing_edges)
  then have "overlaps es r c \<in> overlaps es r ` set (existing_edges es r)" by (rule imageI)
  then show ?thesis using assms(1) by auto
qed

lemma component_maximum_ge:
  assumes "r \<in> set rows"
  shows "overlaps es r c \<le> component_maximum es rows"
proof (cases "(r, c) \<in> set es")
  case True
  then have "overlaps es r c \<in> set (concat (map (\<lambda>row. map (overlaps es row) (existing_edges es row)) rows))"
    using assms by (intro edge_weight)
  then show ?thesis unfolding component_maximum_def by (rule Max_ge [OF finite_set])
next
  case False
  then show ?thesis using overlaps_edge [of es r c] by simp
qed

lemma component_maximum_le:
  assumes "rows \<noteq> []" "set rows \<subseteq> fst ` set es"
  shows "component_maximum es rows \<le> length es"
proof -
  let ?ws = "concat (map (\<lambda>row. map (overlaps es row) (existing_edges es row)) rows)"
  obtain r c where "r \<in> set rows" "(r, c) \<in> set es"
  proof -
    obtain r where "r \<in> set rows" using assms(1) by (cases rows) auto
    then have "r \<in> fst ` set es" using assms(2) by blast
    with \<open>r \<in> set rows\<close> that show thesis by auto
  qed
  then have "overlaps es r c \<in> set ?ws" by (rule edge_weight)
  then have "set ?ws \<noteq> {}" by (metis empty_iff)
  moreover have "w \<le> length es" if "w \<in> set ?ws" for w
    using that count_le_length by (fastforce simp: overlaps_def)
  ultimately show ?thesis unfolding component_maximum_def by (subst Max_le_iff) auto
qed

lemma component_cost_at:
  assumes "n = max (length rows) (length columns)" "r < n" "c < n"
  shows "component_cost es rows columns ! r ! c
    = int (component_maximum es rows) - int (component_weight es rows columns r c)"
  using assms by (simp add: component_cost_def Let_def)

lemma component_weight_le: "component_weight es rows columns r c \<le> component_maximum es rows"
  using component_maximum_ge [of _ rows] by (simp add: component_weight_def)

lemma component_square:
  assumes "rows \<noteq> []" "set rows \<subseteq> fst ` set es"
  shows "square_matrix (component_cost es rows columns) (int (length es))"
proof -
  have "int (component_weight es rows columns r c) \<le> int (component_maximum es rows)" for r c
    using component_weight_le by simp
  moreover have "int (component_maximum es rows) \<le> int (length es)"
    using component_maximum_le [OF assms] by simp
  ultimately show ?thesis
    by (fastforce simp: square_matrix_def component_cost_def Let_def list_all_iff)
qed

text \<open>The cost of an assignment is what it leaves of the maximum in each row.\<close>

lemma component_assignment_cost:
  assumes "n = max (length rows) (length columns)" "is_assignment n b"
  shows "assignment_cost (component_cost es rows columns) b
    = int n * int (component_maximum es rows) - int (\<Sum>r<n. component_weight es rows columns r (b ! r))"
proof -
  have "length (component_cost es rows columns) = n" using assms(1) by (simp add: component_cost_def Let_def)
  then have "assignment_cost (component_cost es rows columns) b
      = (\<Sum>r<n. int (component_maximum es rows) - int (component_weight es rows columns r (b ! r)))"
    using assignment_at [OF assms(2)]
    by (simp add: assignment_cost_def component_cost_at [OF assms(1)])
  then show ?thesis by (simp add: sum_subtractf)
qed

lemma kept_pairs_alt:
  assumes "length rows \<le> length a"
  shows "kept_pairs es rows columns a =
    map (\<lambda>r. (rows ! r, columns ! (a ! r)))
      (filter (\<lambda>r. a ! r < length columns \<and> overlaps es (rows ! r) (columns ! (a ! r)) \<noteq> 0) [0..<length rows])"
proof -
  have "enumerate 0 (take (length rows) a) = map (\<lambda>r. (r, a ! r)) [0..<length rows]"
    using assms by (intro nth_equalityI) (simp_all add: nth_enumerate_eq)
  then show ?thesis
    by (simp add: kept_pairs_def filter_map o_def case_prod_beta conj_commute)
qed

lemma kept_pairs_ok:
  assumes "n = max (length rows) (length columns)" "is_assignment n a" "distinct rows" "distinct columns"
  shows "distinct (map fst (kept_pairs es rows columns a))" "distinct (map snd (kept_pairs es rows columns a))"
    and "set (kept_pairs es rows columns a) \<subseteq> set rows \<times> set columns"
    and "set (kept_pairs es rows columns a) \<subseteq> set es"
    and "total_overlap es (set (kept_pairs es rows columns a)) = (\<Sum>r<n. component_weight es rows columns r (a ! r))"
proof -
  let ?P = "\<lambda>r. a ! r < length columns \<and> overlaps es (rows ! r) (columns ! (a ! r)) \<noteq> 0"
  let ?pair = "\<lambda>r. (rows ! r, columns ! (a ! r))"
  have len: "length rows \<le> length a" "length a = n" using assms(1,2) by (simp_all add: is_assignment_def)
  note alt = kept_pairs_alt [OF len(1), of es columns]
  have inj_rows: "inj_on ((!) rows) {..<length rows}" using assms(3) by (simp add: inj_on_nth)
  show "distinct (map fst (kept_pairs es rows columns a))"
    using inj_rows by (auto simp: alt o_def distinct_map inj_on_def)
  have "inj_on (\<lambda>r. columns ! (a ! r)) {r. r < length rows \<and> ?P r}"
  proof (rule inj_onI)
    fix r s assume rs: "r \<in> {r. r < length rows \<and> ?P r}" "s \<in> {r. r < length rows \<and> ?P r}"
      "columns ! (a ! r) = columns ! (a ! s)"
    then have "a ! r = a ! s" using assms(4) by (simp add: nth_eq_iff_index_eq)
    then show "r = s" using rs len assms(2) by (simp add: is_assignment_def nth_eq_iff_index_eq)
  qed
  then show "distinct (map snd (kept_pairs es rows columns a))"
    by (auto simp: alt o_def distinct_map inj_on_def)
  show "set (kept_pairs es rows columns a) \<subseteq> set rows \<times> set columns" by (auto simp: alt)
  show "set (kept_pairs es rows columns a) \<subseteq> set es"
    using overlaps_edge by (auto simp: kept_pairs_def)
  let ?R = "{r. r < length rows \<and> ?P r}"
  have "set (kept_pairs es rows columns a) = ?pair ` ?R" by (auto simp: alt)
  moreover have "inj_on ?pair ?R" using inj_rows by (auto simp: inj_on_def)
  ultimately have "total_overlap es (set (kept_pairs es rows columns a))
      = (\<Sum>r\<in>?R. overlaps es (rows ! r) (columns ! (a ! r)))"
    by (simp add: total_overlap_def sum.reindex)
  also have "\<dots> = (\<Sum>r\<in>?R. component_weight es rows columns r (a ! r))"
    by (rule sum.cong) (simp_all add: component_weight_def)
  also have "\<dots> = (\<Sum>r<n. component_weight es rows columns r (a ! r))"
    using assms(1) by (intro sum.mono_neutral_left) (auto simp: component_weight_def)
  finally show "total_overlap es (set (kept_pairs es rows columns a))
    = (\<Sum>r<n. component_weight es rows columns r (a ! r))" .
qed

text \<open>A matching within a component costs the assignment that extends it no less.\<close>

lemma matching_assignment:
  assumes N: "is_matching N" "N \<subseteq> set rows \<times> set columns" and n: "n = max (length rows) (length columns)"
    and dist: "distinct rows" "distinct columns"
  obtains b where "is_assignment n b"
    "total_overlap es N \<le> (\<Sum>r<n. component_weight es rows columns r (b ! r))"
proof -
  define ri where "ri = the_inv_into {..<length rows} ((!) rows)"
  define ci where "ci = the_inv_into {..<length columns} ((!) columns)"
  have bij: "bij_betw ((!) rows) {..<length rows} (set rows)"
    "bij_betw ((!) columns) {..<length columns} (set columns)"
    using dist by (simp_all add: bij_betw_nth)
  have ri: "bij_betw ri (set rows) {..<length rows}" "\<And>r. r \<in> set rows \<Longrightarrow> rows ! ri r = r"
    and ci: "bij_betw ci (set columns) {..<length columns}" "\<And>c. c \<in> set columns \<Longrightarrow> columns ! ci c = c"
    unfolding ri_def ci_def
    using bij by (auto intro: bij_betw_the_inv_into f_the_inv_into_f_bij_betw)
  have fst: "fst ` N \<subseteq> set rows" and snd: "snd ` N \<subseteq> set columns" using N(2) by auto
  let ?g = "ri \<circ> fst" and ?h = "ci \<circ> snd"
  have g: "inj_on ?g N" "?g ` N \<subseteq> {..<length rows}"
    using N(1) fst ri(1) by (auto simp: is_matching_def bij_betw_def intro!: comp_inj_on intro: inj_on_subset)
  have h: "inj_on ?h N" "?h ` N \<subseteq> {..<length columns}"
    using N(1) snd ci(1) by (auto simp: is_matching_def bij_betw_def intro!: comp_inj_on intro: inj_on_subset)
  let ?A = "?g ` N" and ?f = "?h \<circ> the_inv_into N ?g"
  have f: "?f (?g e) = ?h e" if "e \<in> N" for e
    by (subst comp_apply [of ?h]) (rule arg_cong [OF the_inv_into_f_f [OF g(1) that]])
  have img: "?f ` ?A = ?h ` N" unfolding image_image using f by (intro image_cong) (simp_all del: o_apply)
  have "inj_on ?f ?A"
  proof (rule inj_onI, elim imageE)
    fix x y d e assume "x = ?g d" "y = ?g e" "d \<in> N" "e \<in> N" "?f x = ?f y"
    then have "?h d = ?h e" using f by metis
    then have "d = e" using h(1) \<open>d \<in> N\<close> \<open>e \<in> N\<close> by (meson inj_onD)
    with \<open>x = ?g d\<close> \<open>y = ?g e\<close> show "x = y" by simp
  qed
  moreover have "?A \<subseteq> {..<n}" "?f ` ?A \<subseteq> {..<n}" using g(2) h(2) unfolding img n by auto
  ultimately obtain b where b: "is_assignment n b" "\<forall>i\<in>?A. b ! i = ?f i"
    by (rule extend_injection)
  have at: "component_weight es rows columns (?g e) (b ! ?g e) = overlaps es (fst e) (snd e)" if e: "e \<in> N" for e
  proof -
    have "b ! ?g e = ?h e" using b(2) f [OF e] e by (metis imageI)
    moreover have "ri (fst e) < length rows" "ci (snd e) < length columns" using e g(2) h(2) by auto
    moreover have "rows ! ri (fst e) = fst e" "columns ! ci (snd e) = snd e" using e fst snd ri(2) ci(2) by auto
    ultimately show ?thesis by (simp add: component_weight_def)
  qed
  have "total_overlap es N = (\<Sum>e\<in>N. component_weight es rows columns (?g e) (b ! ?g e))"
    using at by (simp add: total_overlap_def case_prod_beta del: o_apply)
  also have "\<dots> = (\<Sum>r\<in>?A. component_weight es rows columns r (b ! r))"
    using sum.reindex [OF g(1), of "\<lambda>r. component_weight es rows columns r (b ! r)"] by (simp add: o_def)
  also have "\<dots> \<le> (\<Sum>r<n. component_weight es rows columns r (b ! r))"
    using \<open>?A \<subseteq> {..<n}\<close> by (intro sum_mono2) simp_all
  finally show thesis using b(1) that by blast
qed

lemma component_pairs_best:
  assumes ce: "distinct ce" "ce \<noteq> []" "set ce \<subseteq> fst ` set es" and cp: "distinct cp"
    and big: "(int (max (length ce) (length cp)) + 1) * int (length es) < infinity"
  shows "\<exists>ps. component_pairs es (ce, cp) = Some ps \<and> distinct (map fst ps) \<and> distinct (map snd ps)
    \<and> set ps \<subseteq> set ce \<times> set cp \<and> set ps \<subseteq> set es
    \<and> (\<forall>N. is_matching N \<longrightarrow> N \<subseteq> set ce \<times> set cp \<longrightarrow> total_overlap es N \<le> total_overlap es (set ps))"
proof -
  let ?rows = "sort ce" and ?columns = "sort cp"
  let ?n = "max (length ?rows) (length ?columns)" and ?cost = "component_cost es ?rows ?columns"
  have rows: "?rows \<noteq> []" "set ?rows \<subseteq> fst ` set es" "distinct ?rows" "distinct ?columns"
    using ce cp by (auto simp: set_empty [symmetric] simp del: set_empty)
  have len: "length ?cost = ?n" by (simp add: component_cost_def Let_def)
  obtain a where a: "hungarian_min ?cost = Some a" "is_assignment ?n a"
    and best: "\<And>b. is_assignment ?n b \<Longrightarrow> assignment_cost ?cost a \<le> assignment_cost ?cost b"
    using hungarian_min_correct [OF component_square [OF rows(1,2), of ?columns]] big len by auto
  have best': "(\<Sum>r<?n. component_weight es ?rows ?columns r (b ! r))
      \<le> (\<Sum>r<?n. component_weight es ?rows ?columns r (a ! r))" if "is_assignment ?n b" for b
    using best [OF that] component_assignment_cost [OF refl that, of es]
      component_assignment_cost [OF refl a(2), of es] by (simp del: of_nat_sum)
  note kept = kept_pairs_ok [OF refl a(2) rows(3,4), of es]
  have "total_overlap es N \<le> total_overlap es (set (kept_pairs es ?rows ?columns a))"
    if N: "is_matching N" "N \<subseteq> set ce \<times> set cp" for N
  proof -
    have "N \<subseteq> set ?rows \<times> set ?columns" using N(2) by simp
    from matching_assignment [OF N(1) this refl rows(3,4), of es]
    obtain b where "is_assignment ?n b"
      "total_overlap es N \<le> (\<Sum>r<?n. component_weight es ?rows ?columns r (b ! r))" .
    with best' show ?thesis unfolding kept(5) by fastforce
  qed
  moreover have "component_pairs es (ce, cp) = Some (kept_pairs es ?rows ?columns a)"
    using a(1) by (simp add: component_pairs_def Let_def)
  ultimately show ?thesis using kept by auto
qed

section \<open>The components together\<close>

lemma total_overlap_Un:
  assumes "is_matching N"
  shows "total_overlap es (N \<inter> (A \<union> B)) \<le> total_overlap es (N \<inter> A) + total_overlap es (N \<inter> B)"
proof -
  have fin: "finite (N \<inter> A)" "finite (N \<inter> B)" using assms by (auto simp: is_matching_def)
  then have "total_overlap es (N \<inter> A \<union> N \<inter> B) + total_overlap es (N \<inter> A \<inter> (N \<inter> B))
      = total_overlap es (N \<inter> A) + total_overlap es (N \<inter> B)"
    unfolding total_overlap_def by (rule sum.union_inter)
  then show ?thesis by (simp add: Int_Un_distrib)
qed

lemma matching_subset: "is_matching N \<Longrightarrow> M \<subseteq> N \<Longrightarrow> is_matching M"
  by (auto simp: is_matching_def intro: finite_subset inj_on_subset)

definition block :: "nat list \<times> nat list \<Rightarrow> (nat \<times> nat) set" where
  "block c = set (fst c) \<times> set (snd c)"

lemma all_pairs_best:
  assumes "components_ok es rows columns cs"
    and "\<forall>(ce, cp)\<in>set cs. (int (max (length ce) (length cp)) + 1) * int (length es) < infinity"
  shows "\<exists>ps. all_pairs es cs = Some ps \<and> distinct (map fst ps) \<and> distinct (map snd ps)
    \<and> fst ` set ps \<inter> rows = {} \<and> snd ` set ps \<inter> columns = {} \<and> set ps \<subseteq> set es
    \<and> (\<forall>N. is_matching N \<longrightarrow> total_overlap es (N \<inter> (\<Union>c\<in>set cs. block c)) \<le> total_overlap es (set ps))"
  using assms
proof (induction cs arbitrary: rows columns)
  case Nil
  then show ?case by (simp add: total_overlap_def)
next
  case (Cons c cs)
  obtain ce cp where c: "c = (ce, cp)" by fastforce
  have ok: "distinct ce" "distinct cp" "ce \<noteq> []" "set ce \<subseteq> fst ` set es" "set ce \<inter> rows = {}"
    "set cp \<inter> columns = {}" "components_ok es (rows \<union> set ce) (columns \<union> set cp) cs"
    using Cons.prems(1) by (auto simp: c)
  obtain ps where ps: "component_pairs es c = Some ps" "distinct (map fst ps)" "distinct (map snd ps)"
    "set ps \<subseteq> set ce \<times> set cp" "set ps \<subseteq> set es"
    and best: "\<And>N. is_matching N \<Longrightarrow> N \<subseteq> set ce \<times> set cp \<Longrightarrow> total_overlap es N \<le> total_overlap es (set ps)"
    using component_pairs_best [OF ok(1,3,4,2)] Cons.prems(2) by (auto simp: c)
  obtain qs where qs: "all_pairs es cs = Some qs" "distinct (map fst qs)" "distinct (map snd qs)"
    "fst ` set qs \<inter> (rows \<union> set ce) = {}" "snd ` set qs \<inter> (columns \<union> set cp) = {}" "set qs \<subseteq> set es"
    and rest: "\<And>N. is_matching N \<Longrightarrow>
      total_overlap es (N \<inter> (\<Union>c\<in>set cs. block c)) \<le> total_overlap es (set qs)"
    using Cons.IH [OF ok(7)] Cons.prems(2) by auto
  have fst: "fst ` set ps \<subseteq> set ce" and snd: "snd ` set ps \<subseteq> set cp" using ps(4) by auto
  then have dist: "fst ` set ps \<inter> fst ` set qs = {}" "snd ` set ps \<inter> snd ` set qs = {}"
    using qs(4,5) by blast+
  have "set ps \<inter> set qs = {}" using dist(1) by blast
  then have sum: "total_overlap es (set (ps @ qs)) = total_overlap es (set ps) + total_overlap es (set qs)"
    by (simp add: total_overlap_def sum.union_disjoint)
  have "total_overlap es (N \<inter> (\<Union>c\<in>set (c # cs). block c)) \<le> total_overlap es (set (ps @ qs))"
    if N: "is_matching N" for N
  proof -
    have "total_overlap es (N \<inter> block c) \<le> total_overlap es (set ps)"
      using best [of "N \<inter> block c"] matching_subset [OF N] by (auto simp: block_def c)
    moreover have "total_overlap es (N \<inter> (\<Union>c\<in>set (c # cs). block c))
        \<le> total_overlap es (N \<inter> block c) + total_overlap es (N \<inter> (\<Union>c\<in>set cs. block c))"
      using total_overlap_Un [OF N] by simp
    ultimately show ?thesis using rest [OF N] sum by simp
  qed
  moreover have "distinct (map fst (ps @ qs))" "distinct (map snd (ps @ qs))"
    using ps(2,3) qs(2,3) dist by simp_all
  moreover have "fst ` set (ps @ qs) \<inter> rows = {}" "snd ` set (ps @ qs) \<inter> columns = {}"
    using fst snd ok(5,6) qs(4,5) by auto
  moreover have "all_pairs es (c # cs) = Some (ps @ qs)" using ps(1) qs(1) by simp
  ultimately show ?case using ps(5) qs(6) by auto
qed

text \<open>All pairs of a matching that share a track lie in the components.\<close>

lemma components_cover:
  assumes "components_ok es rows columns cs" "(r, c) \<in> set es" "r \<in> (\<Union>c\<in>set cs. set (fst c))"
  shows "(r, c) \<in> (\<Union>c\<in>set cs. block c)"
  using assms
proof (induction cs arbitrary: rows columns)
  case (Cons d cs)
  then show ?case by (cases d) (auto simp: block_def is_closed_def)
qed simp

lemma components_small:
  assumes "components_ok es rows columns cs" "(ce, cp) \<in> set cs" "\<forall>(r, c)\<in>set es. r < R \<and> c < K"
  shows "length ce \<le> R \<and> length cp \<le> K"
  using assms(1,2)
proof (induction cs arbitrary: rows columns)
  case (Cons d cs)
  show ?case
  proof (cases "d = (ce, cp)")
    case True
    have "fst ` set es \<subseteq> {..<R}" "snd ` set es \<subseteq> {..<K}" using assms(3) by auto
    moreover have "distinct ce" "distinct cp" "set ce \<subseteq> fst ` set es" "set cp \<subseteq> snd ` set es"
      using Cons.prems(1) True by auto
    ultimately have "distinct ce" "distinct cp" "set ce \<subseteq> {..<R}" "set cp \<subseteq> {..<K}"
      by (auto dest: subset_trans)
    then show ?thesis by (metis card_lessThan card_mono distinct_card finite_lessThan)
  next
    case False
    then show ?thesis using Cons by (cases d) auto
  qed
qed simp

lemma kept_pairs_best:
  assumes "\<forall>(r, c)\<in>set es. r < R \<and> c < K" "(int R + int K + 1) * int (length es) < infinity"
  shows "\<exists>cs ps. components es (sort (remdups (map fst es))) [] = Some cs \<and> all_pairs es cs = Some ps
    \<and> distinct (map fst ps) \<and> distinct (map snd ps) \<and> set ps \<subseteq> set es
    \<and> (\<forall>N. is_matching N \<longrightarrow> total_overlap es N \<le> total_overlap es (set ps))"
proof -
  obtain cs where cs: "components es (sort (remdups (map fst es))) [] = Some cs" "components_ok es {} {} cs"
    "fst ` set es \<subseteq> (\<Union>c\<in>set cs. set (fst c))"
    using components_end [of es "[]" "{}" "sort (remdups (map fst es))"] by (auto simp: is_closed_def)
  have "(int (max (length ce) (length cp)) + 1) * int (length es) < infinity" if "(ce, cp) \<in> set cs" for ce cp
  proof -
    have "int (max (length ce) (length cp)) + 1 \<le> int R + int K + 1"
      using components_small [OF cs(2) that assms(1)] by (simp add: max_def)
    then have "(int (max (length ce) (length cp)) + 1) * int (length es) \<le> (int R + int K + 1) * int (length es)"
      by (rule mult_right_mono) simp
    then show ?thesis using assms(2) by linarith
  qed
  then obtain ps where ps: "all_pairs es cs = Some ps" "distinct (map fst ps)" "distinct (map snd ps)" "set ps \<subseteq> set es"
    and best: "\<And>N. is_matching N \<Longrightarrow> total_overlap es (N \<inter> (\<Union>c\<in>set cs. block c)) \<le> total_overlap es (set ps)"
    using all_pairs_best [OF cs(2)] by auto
  have "total_overlap es N \<le> total_overlap es (set ps)" if N: "is_matching N" for N
  proof -
    have "overlaps es (fst e) (snd e) = 0" if "e \<in> N - N \<inter> (\<Union>c\<in>set cs. block c)" for e
    proof (rule ccontr)
      assume "overlaps es (fst e) (snd e) \<noteq> 0"
      then have "(fst e, snd e) \<in> set es" by (simp only: overlaps_edge)
      moreover from this have "fst e \<in> (\<Union>c\<in>set cs. set (fst c))" using cs(3) by force
      ultimately show False using components_cover [OF cs(2)] that by fastforce
    qed
    then have "total_overlap es N = total_overlap es (N \<inter> (\<Union>c\<in>set cs. block c))"
      using N unfolding total_overlap_def case_prod_beta is_matching_def
      by (intro sum.mono_neutral_right) auto
    then show ?thesis using best [OF N] by simp
  qed
  then show ?thesis using cs(1) ps by blast
qed

section \<open>Albums\<close>

definition shared_tracks :: "existing_album \<Rightarrow> proposed_album \<Rightarrow> nat" where
  "shared_tracks old new = sum_list (map (count_list (ea_tracks old)) (pa_tracks new))"

lemma count_list_concat: "count_list (concat (map f xs)) y = sum_list (map (\<lambda>x. count_list (f x) y) xs)"
  by (induction xs) simp_all

lemma sum_enumerate:
  "sum_list (map (\<lambda>p. if fst p = k then h (snd p) else 0) (enumerate n xs)) =
     (if n \<le> k \<and> k < n + length xs then h (xs ! (k - n)) else (0 :: nat))"
  by (induction xs arbitrary: n) (auto simp: nth_Cons' Suc_diff_Suc)

lemma count_list_pairs: "count_list (map (\<lambda>row. (row, column)) rows) (r, c) = (if column = c then count_list rows r else 0)"
  by (induction rows) auto

lemma count_list_same: "count_list (map (\<lambda>_. row) xs) r = (if row = r then length xs else 0)"
  by (induction xs) auto

lemma length_filter_count: "length (filter (\<lambda>t. t = x) xs) = count_list xs x"
  by (induction xs) auto

lemma count_track_rows:
  "count_list (track_rows E t) r = (if r < length E then count_list (ea_tracks (E ! r)) t else 0)"
proof -
  have "count_list (track_rows E t) r
      = sum_list (map (\<lambda>p. if fst p = r then count_list (ea_tracks (snd p)) t else 0) (enumerate 0 E))"
    unfolding track_rows_def count_list_concat map_map
    by (intro arg_cong [of _ _ sum_list] map_cong) (auto simp: count_list_same length_filter_count)
  then show ?thesis using sum_enumerate [of r "\<lambda>album. count_list (ea_tracks album) t" 0 E] by simp
qed

lemma overlaps_shared:
  "overlaps (shared_pairs E P) r c = (if r < length E \<and> c < length P then shared_tracks (E ! r) (P ! c) else 0)"
proof -
  let ?h = "\<lambda>album. sum_list (map (\<lambda>t. count_list (track_rows E t) r) (pa_tracks album))"
  have "overlaps (shared_pairs E P) r c
      = sum_list (map (\<lambda>p. if fst p = c then ?h (snd p) else 0) (enumerate 0 P))"
    unfolding overlaps_def shared_pairs_def count_list_concat map_map
    by (intro arg_cong [of _ _ sum_list] map_cong) (auto simp: count_list_concat count_list_pairs o_def)
  also have "\<dots> = (if c < length P then ?h (P ! c) else 0)"
    using sum_enumerate [of c ?h 0 P] by simp
  finally show ?thesis by (simp add: count_track_rows shared_tracks_def)
qed

lemma shared_pairs_range: "(r, c) \<in> set (shared_pairs E P) \<Longrightarrow> r < length E \<and> c < length P"
  using overlaps_edge [of "shared_pairs E P" r c] overlaps_shared [of E P r c] by (simp split: if_splits)

section \<open>Choices of retained albums\<close>

definition forget :: "proposed_album \<Rightarrow> proposed_album" where
  "forget album = album\<lparr>pa_retained := None, pa_continuity := None\<rparr>"

text \<open>No old album is kept by two new ones.\<close>

definition one_to_one :: "proposed_album list \<Rightarrow> bool" where
  "one_to_one albums \<longleftrightarrow> distinct (filter (\<lambda>r. r \<noteq> None) (map pa_retained albums))"

text \<open>The number of tracks that stay in the album that keeps their album's identity.\<close>

definition kept_tracks :: "existing_album list \<Rightarrow> proposed_album list \<Rightarrow> nat" where
  "kept_tracks existing albums =
     sum_list (map (\<lambda>album. sum_list (map (\<lambda>old. if pa_retained album = Some (ea_id old)
                                                 then shared_tracks old album else 0) existing)) albums)"

lemma distinct_filter_nth:
  assumes "distinct (filter p xs)" "i < length xs" "j < length xs" "xs ! i = xs ! j" "p (xs ! i)"
  shows "i = j"
  using assms
proof (induction xs arbitrary: i j)
  case (Cons x xs)
  have "x \<noteq> xs ! k" if "k < length xs" "p x" for k
    using Cons.prems(1) that nth_mem [of k xs] by auto
  with Cons show ?case by (cases i; cases j) (auto split: if_splits)
qed simp

lemma distinct_filterI:
  "(\<And>i j. i < length xs \<Longrightarrow> j < length xs \<Longrightarrow> xs ! i = xs ! j \<Longrightarrow> p (xs ! i) \<Longrightarrow> i = j) \<Longrightarrow> distinct (filter p xs)"
proof (induction xs)
  case (Cons x xs)
  have "x \<notin> set xs" if "p x"
  proof
    assume "x \<in> set xs"
    then obtain k where "k < length xs" "xs ! k = x" by (auto simp: in_set_conv_nth)
    then show False using Cons.prems [of 0 "Suc k"] that by simp
  qed
  moreover have "distinct (filter p xs)"
    using Cons.prems [of "Suc _" "Suc _"] by (intro Cons.IH) simp
  ultimately show ?case by simp
qed simp

lemma sum_list_perm:
  assumes "mset xs = mset ys"
  shows "sum_list (map f xs) = (sum_list (map f ys) :: nat)"
proof -
  have "mset (map f xs) = mset (map f ys)" using assms by simp
  then show ?thesis using sum_mset_sum_list [of "map f xs"] sum_mset_sum_list [of "map f ys"] by simp
qed

lemma one_to_one_perm: "mset xs = mset ys \<Longrightarrow> one_to_one xs \<longleftrightarrow> one_to_one ys"
  unfolding one_to_one_def by (intro mset_eq_imp_distinct_iff) simp

lemma kept_tracks_perm:
  assumes "mset E = mset existing" "mset xs = mset albums"
  shows "kept_tracks E xs = kept_tracks existing albums"
  unfolding kept_tracks_def by (simp add: sum_list_perm [OF assms(1)] sum_list_perm [OF assms(2)])

lemma sort_key_map: "(\<And>x. k (f x) = k x) \<Longrightarrow> sort_key k (map f xs) = map f (sort_key k xs)"
proof (induction xs)
  case (Cons x xs)
  have "insort_key k (f x) (map f ys) = map f (insort_key k x ys)" for ys
    by (induction ys) (simp_all add: Cons.prems)
  with Cons show ?case by simp
qed simp

text \<open>The pairs of positions that a list of albums, in the order of \<open>P\<close>, keeps.\<close>

definition kept_positions :: "existing_album list \<Rightarrow> proposed_album list \<Rightarrow> (nat \<times> nat) set" where
  "kept_positions E albums =
     {(r, c). r < length E \<and> c < length albums \<and> pa_retained (albums ! c) = Some (ea_id (E ! r))}"

lemma kept_tracks_positions:
  assumes "map forget albums = map forget P"
  shows "kept_tracks E albums = total_overlap (shared_pairs E P) (kept_positions E albums)"
proof -
  let ?es = "shared_pairs E P"
  have len: "length albums = length P" using assms by (metis length_map)
  have same: "shared_tracks e (albums ! c) = shared_tracks e (P ! c)" if "c < length P" for e c
  proof -
    have "forget (albums ! c) = forget (P ! c)" using assms that len by (metis nth_map)
    then have "pa_tracks (forget (albums ! c)) = pa_tracks (forget (P ! c))" by simp
    then have "pa_tracks (albums ! c) = pa_tracks (P ! c)" by (simp add: forget_def)
    then show ?thesis by (simp add: shared_tracks_def)
  qed
  let ?keep = "\<lambda>c r. pa_retained (albums ! c) = Some (ea_id (E ! r))"
  have "kept_tracks E albums =
      (\<Sum>c<length P. \<Sum>r<length E. if ?keep c r then shared_tracks (E ! r) (albums ! c) else 0)"
    by (simp add: kept_tracks_def sum_list_sum_nth atLeast0LessThan len)
  also have "\<dots> = (\<Sum>c<length P. \<Sum>r<length E. if ?keep c r then overlaps ?es r c else 0)"
    by (intro sum.cong refl) (simp add: overlaps_shared same)
  also have "\<dots> = (\<Sum>r<length E. \<Sum>c<length P. if ?keep c r then overlaps ?es r c else 0)"
    by (rule sum.swap)
  also have "\<dots> = (\<Sum>(r, c)\<in>{..<length E} \<times> {..<length P}. if ?keep c r then overlaps ?es r c else 0)"
    by (rule sum.cartesian_product)
  also have "\<dots> = (\<Sum>(r, c)\<in>kept_positions E albums. if ?keep c r then overlaps ?es r c else 0)"
    by (rule sum.mono_neutral_right) (auto simp: kept_positions_def len split: if_splits)
  also have "\<dots> = total_overlap ?es (kept_positions E albums)"
    unfolding total_overlap_def by (rule sum.cong) (auto simp: kept_positions_def)
  finally show ?thesis .
qed

lemma kept_positions_matching:
  assumes "one_to_one albums" "distinct (map ea_id E)"
  shows "is_matching (kept_positions E albums)"
proof -
  have "kept_positions E albums \<subseteq> {..<length E} \<times> {..<length albums}" by (auto simp: kept_positions_def)
  then have "finite (kept_positions E albums)" by (rule finite_subset) simp
  moreover have "c = c'" if "(r, c) \<in> kept_positions E albums" "(r, c') \<in> kept_positions E albums" for r c c'
    using distinct_filter_nth [OF assms(1) [unfolded one_to_one_def], of c c'] that
    by (simp add: kept_positions_def)
  moreover have "r = r'" if "(r, c) \<in> kept_positions E albums" "(r', c) \<in> kept_positions E albums" for r r' c
    using that nth_eq_iff_index_eq [OF assms(2), of r r'] by (simp add: kept_positions_def)
  ultimately show ?thesis by (auto simp: is_matching_def inj_on_def)
qed

section \<open>What the code retains\<close>

lemma retained_get:
  assumes "distinct (map (\<lambda>e. pa_grouping_key (P ! snd e)) ps)"
  shows "(\<forall>e\<in>set ps. map_option fst (dict_get (fold (retain es E P) ps d) (pa_grouping_key (P ! snd e)))
            = Some (ea_id (E ! fst e)))
    \<and> (\<forall>k. k \<notin> (\<lambda>e. pa_grouping_key (P ! snd e)) ` set ps \<longrightarrow> dict_get (fold (retain es E P) ps d) k = dict_get d k)"
  using assms
proof (induction ps arbitrary: d)
  case (Cons e ps)
  then show ?case by (auto simp: retain_def dict_get_set)
qed simp

lemma album_continuity_ends:
  assumes "(int (length existing) + int (length proposed) + 1)
      * int (length (shared_pairs (order_existing existing) (order_proposed proposed))) < infinity"
  shows "\<exists>retained. assign_album_continuity existing proposed = Some (map (with_continuity retained) proposed)"
proof (cases "proposed = []")
  case True
  then show ?thesis by (simp add: assign_album_continuity_def order_proposed_def)
next
  case False
  let ?E = "order_existing existing" and ?P = "order_proposed proposed"
  let ?es = "shared_pairs ?E ?P"
  have len: "length ?E = length existing" "length ?P = length proposed"
    by (simp_all add: order_existing_def order_proposed_def)
  have "\<forall>(r, c)\<in>set ?es. r < length ?E \<and> c < length ?P" using shared_pairs_range by auto
  with kept_pairs_best assms obtain cs ps where
    "components ?es (sort (remdups (map fst ?es))) [] = Some cs" "all_pairs ?es cs = Some ps"
    unfolding len [symmetric] by meson
  moreover have "?P \<noteq> []" using False len(2) by auto
  ultimately show ?thesis by (auto simp: assign_album_continuity_def Let_def)
qed

lemma album_continuity_correct:
  assumes ids: "distinct (map ea_id existing)" and keys: "distinct (map pa_grouping_key proposed)"
    and big: "(int (length existing) + int (length proposed) + 1)
      * int (length (shared_pairs (order_existing existing) (order_proposed proposed))) < infinity"
  shows "\<exists>out. assign_album_continuity existing proposed = Some out \<and> map forget out = map forget proposed
    \<and> one_to_one out
    \<and> (\<forall>a\<in>set out. pa_retained a \<noteq> None \<longrightarrow>
          (\<exists>old\<in>set existing. pa_retained a = Some (ea_id old) \<and> shared_tracks old a \<noteq> 0))
    \<and> (\<forall>alt. map forget alt = map forget proposed \<longrightarrow> one_to_one alt \<longrightarrow>
          kept_tracks existing alt \<le> kept_tracks existing out)"
proof (cases "proposed = []")
  case True
  then show ?thesis
    by (auto simp: assign_album_continuity_def order_proposed_def one_to_one_def kept_tracks_def Let_def)
next
  case False
  define E P where "E = order_existing existing" and "P = order_proposed proposed"
  let ?es = "shared_pairs E P"
  have perm: "mset E = mset existing" "mset P = mset proposed"
    by (simp_all add: E_def P_def order_existing_def order_proposed_def)
  have len: "length E = length existing" "length P = length proposed"
    using perm by (metis size_mset)+
  have ids': "distinct (map ea_id E)" and keys': "distinct (map pa_grouping_key P)"
    using ids keys perm by (metis mset_map mset_eq_imp_distinct_iff)+
  have "\<forall>(r, c)\<in>set ?es. r < length E \<and> c < length P" using shared_pairs_range by auto
  with kept_pairs_best big obtain cs ps where
    cs: "components ?es (sort (remdups (map fst ?es))) [] = Some cs" "all_pairs ?es cs = Some ps"
    and ps: "distinct (map fst ps)" "distinct (map snd ps)" "set ps \<subseteq> set ?es"
    and best: "\<And>N. is_matching N \<Longrightarrow> total_overlap ?es N \<le> total_overlap ?es (set ps)"
    unfolding len [symmetric] E_def [symmetric] P_def [symmetric] by meson
  let ?retained = "fold (retain ?es E P) ps []"
  let ?out = "map (with_continuity ?retained) proposed"
  have run: "assign_album_continuity existing proposed = Some ?out"
  proof -
    have "P \<noteq> []" using False len(2) by auto
    then show ?thesis
      using cs by (simp add: assign_album_continuity_def E_def [symmetric] P_def [symmetric] Let_def)
  qed
  have key [simp]: "pa_grouping_key (with_continuity ?retained a) = pa_grouping_key a" for a
    by (simp add: with_continuity_def)
  let ?outP = "map (with_continuity ?retained) P"
  have outP: "mset ?outP = mset ?out" using perm(2) by simp
  have range: "r < length E \<and> c < length P" if "(r, c) \<in> set ps" for r c
    using that ps(3) shared_pairs_range by blast
  have key_inj: "c = c'" if "c < length P" "c' < length P" "pa_grouping_key (P ! c) = pa_grouping_key (P ! c')" for c c'
    using that nth_eq_iff_index_eq [OF keys', of c c'] by simp
  have snd_inj: "inj_on snd (set ps)" and fst_inj: "inj_on fst (set ps)" using ps(1,2) by (simp_all add: distinct_map)
  have "inj_on (\<lambda>e. pa_grouping_key (P ! snd e)) (set ps)"
  proof (rule inj_onI)
    fix d e assume de: "d \<in> set ps" "e \<in> set ps" "pa_grouping_key (P ! snd d) = pa_grouping_key (P ! snd e)"
    then have "snd d < length P" "snd e < length P" using range by (metis prod.collapse)+
    then have "snd d = snd e" using key_inj de(3) by blast
    then show "d = e" using snd_inj de(1,2) by (meson inj_onD)
  qed
  then have dist: "distinct (map (\<lambda>e. pa_grouping_key (P ! snd e)) ps)"
    using ps(1) by (simp add: distinct_map)
  note get = retained_get [OF dist, of ?es E "[]"]
  have kept: "pa_retained (?outP ! c) = Some (ea_id (E ! r))" if "(r, c) \<in> set ps" for r c
    using get that range [OF that] by (force simp: with_continuity_def)
  have dropped: "pa_retained (?outP ! c) = None" if c: "c < length P" "\<nexists>r. (r, c) \<in> set ps" for c
  proof -
    have "pa_grouping_key (P ! c) \<notin> (\<lambda>e. pa_grouping_key (P ! snd e)) ` set ps"
    proof
      assume "pa_grouping_key (P ! c) \<in> (\<lambda>e. pa_grouping_key (P ! snd e)) ` set ps"
      then obtain r c' where "(r, c') \<in> set ps" "pa_grouping_key (P ! c) = pa_grouping_key (P ! c')" by auto
      then have "(r, c) \<in> set ps" using key_inj [of c c'] range c(1) by auto
      with c(2) show False by blast
    qed
    then show ?thesis using get c(1) by (simp add: with_continuity_def dict_get_def)
  qed
  have same_id: "r = r'" if "(r, c) \<in> set ps" "r' < length E" "ea_id (E ! r) = ea_id (E ! r')" for r r' c
    using nth_eq_iff_index_eq [OF ids', of r r'] range [OF that(1)] that by simp
  have positions: "kept_positions E ?outP = set ps"
  proof (intro equalityI subrelI)
    fix r c assume "(r, c) \<in> kept_positions E ?outP"
    then have rc: "r < length E" "c < length P" "pa_retained (?outP ! c) = Some (ea_id (E ! r))"
      by (auto simp: kept_positions_def)
    then obtain r' where r': "(r', c) \<in> set ps" using dropped by fastforce
    with kept rc(3) have "ea_id (E ! r') = ea_id (E ! r)" by simp
    with same_id [OF r' rc(1)] r' show "(r, c) \<in> set ps" by simp
  next
    fix r c assume "(r, c) \<in> set ps"
    with kept range show "(r, c) \<in> kept_positions E ?outP" by (simp add: kept_positions_def)
  qed
  have "one_to_one ?outP"
    unfolding one_to_one_def
  proof (rule distinct_filterI)
    fix i j assume ij: "i < length (map pa_retained ?outP)" "j < length (map pa_retained ?outP)"
      "map pa_retained ?outP ! i = map pa_retained ?outP ! j" "map pa_retained ?outP ! i \<noteq> None"
    then have eq: "i < length P" "j < length P" "pa_retained (?outP ! i) = pa_retained (?outP ! j)"
      "pa_retained (?outP ! i) \<noteq> None" by simp_all
    then obtain r r' where r: "(r, i) \<in> set ps" "(r', j) \<in> set ps" using dropped by metis
    then have "ea_id (E ! r) = ea_id (E ! r')" using kept eq(3) by simp
    then have "r = r'" using same_id [OF r(1)] range [OF r(2)] by blast
    then show "i = j" using inj_onD [OF fst_inj, of "(r, i)" "(r', j)"] r by simp
  qed
  then have one: "one_to_one ?out" using one_to_one_perm [OF outP] by blast
  have forget_with: "forget (with_continuity ?retained a) = forget a" for a
    by (simp add: forget_def with_continuity_def)
  have sorted: "kept_tracks existing alt = total_overlap ?es (kept_positions E (sort_key pa_grouping_key alt))"
    if alt: "map forget alt = map forget proposed" for alt
  proof -
    have key_forget: "pa_grouping_key (forget a) = pa_grouping_key a" for a by (simp add: forget_def)
    have "map forget (sort_key pa_grouping_key alt) = sort_key pa_grouping_key (map forget alt)"
      using sort_key_map [of pa_grouping_key forget] key_forget by metis
    also have "\<dots> = map forget P"
      using sort_key_map [of pa_grouping_key forget proposed] key_forget alt
      by (simp add: P_def order_proposed_def)
    finally have "kept_tracks E (sort_key pa_grouping_key alt)
        = total_overlap ?es (kept_positions E (sort_key pa_grouping_key alt))"
      by (rule kept_tracks_positions)
    moreover have "kept_tracks E (sort_key pa_grouping_key alt) = kept_tracks existing alt"
      by (rule kept_tracks_perm) (simp_all add: perm)
    ultimately show ?thesis by simp
  qed
  have "kept_tracks E ?outP = kept_tracks existing ?out" by (rule kept_tracks_perm [OF perm(1) outP])
  moreover have "kept_tracks E ?outP = total_overlap ?es (set ps)"
    using kept_tracks_positions [of ?outP P E] positions by (simp add: forget_with)
  moreover have "kept_tracks existing alt \<le> total_overlap ?es (set ps)"
    if alt: "map forget alt = map forget proposed" "one_to_one alt" for alt
  proof -
    have "one_to_one (sort_key pa_grouping_key alt)" using alt(2) one_to_one_perm by (metis mset_sort)
    then show ?thesis using sorted [OF alt(1)] best kept_positions_matching ids' by metis
  qed
  moreover have "map forget ?out = map forget proposed" by (simp add: forget_with)
  moreover have "\<exists>old\<in>set existing. pa_retained a = Some (ea_id old) \<and> shared_tracks old a \<noteq> 0"
    if a: "a \<in> set ?out" "pa_retained a \<noteq> None" for a
  proof -
    have "a \<in> set ?outP" using a(1) outP by (metis mset_eq_setD)
    then obtain c where c: "c < length P" "a = ?outP ! c" by (auto simp: in_set_conv_nth)
    have "\<exists>r. (r, c) \<in> set ps"
    proof (rule ccontr)
      assume "\<nexists>r. (r, c) \<in> set ps"
      then have "pa_retained (?outP ! c) = None" by (rule dropped [OF c(1)])
      then show False using a(2) unfolding c(2) by contradiction
    qed
    then obtain r where r: "(r, c) \<in> set ps" ..
    then have "(r, c) \<in> set ?es" using ps(3) by blast
    then have "overlaps ?es r c \<noteq> 0" by (simp only: overlaps_edge simp_thms)
    then have "shared_tracks (E ! r) (P ! c) \<noteq> 0" using range [OF r] by (simp add: overlaps_shared)
    then have "shared_tracks (E ! r) a \<noteq> 0" using c by (simp add: shared_tracks_def with_continuity_def)
    moreover have "E ! r \<in> set existing" using range [OF r] perm(1) by (metis nth_mem mset_eq_setD)
    moreover have "pa_retained a = Some (ea_id (E ! r))" unfolding c(2) by (rule kept [OF r])
    ultimately show ?thesis by blast
  qed
  ultimately show ?thesis using run one by auto
qed

text \<open>
  C30. \<open>assign_album_continuity\<close> does what its docstring says: when the albums have distinct
  identifiers and grouping keys (and their tracks are not astronomically many), it ends; it
  changes nothing in the new albums but which old album each of them continues; no old album is
  continued twice, and none by an album that shares no track with it; and among all such
  one-to-one choices, the number of tracks that stay in the album that keeps its identity is
  the largest possible.
\<close>
theorem album_continuity_best:
  assumes "distinct (map ea_id existing)" "distinct (map pa_grouping_key proposed)"
    and "(int (length existing) + int (length proposed) + 1)
      * int (length (shared_pairs (order_existing existing) (order_proposed proposed))) < infinity"
  shows "\<exists>out. assign_album_continuity existing proposed = Some out \<and> map forget out = map forget proposed
    \<and> one_to_one out
    \<and> (\<forall>a\<in>set out. pa_retained a \<noteq> None \<longrightarrow>
          (\<exists>old\<in>set existing. pa_retained a = Some (ea_id old) \<and> shared_tracks old a \<noteq> 0))
    \<and> (\<forall>alt. map forget alt = map forget proposed \<longrightarrow> one_to_one alt \<longrightarrow>
          kept_tracks existing alt \<le> kept_tracks existing out)"
  by (rule album_continuity_correct [OF assms])

text \<open>Two albums of three tracks each are split unevenly over two new ones.\<close>

theorem album_continuity_best_witness:
  "let old = \<lambda>k ts. \<lparr>ea_id = lit k, ea_tracks = map lit ts, ea_created_at = 0\<rparr>;
       new = \<lambda>k ts r. \<lparr>pa_grouping_key = lit k, pa_title = [], pa_artist = [], pa_tracks = map lit ts, pa_reason = [],
                       pa_retained = r, pa_continuity = None\<rparr>;
       existing = [old ''A'' [''1'', ''2'', ''3''], old ''B'' [''4'', ''5'', ''6'']];
       proposed = [new ''x'' [''1'', ''4'', ''5''] None, new ''y'' [''2'', ''3'', ''6''] None];
       alt = [new ''x'' [''1'', ''4'', ''5''] (Some (lit ''A'')), new ''y'' [''2'', ''3'', ''6''] (Some (lit ''B''))]
   in case assign_album_continuity existing proposed of
        None \<Rightarrow> False
      | Some out \<Rightarrow> map pa_retained out = [Some (lit ''B''), Some (lit ''A'')]
          \<and> kept_tracks existing alt \<le> kept_tracks existing out"
proof -
  define old where "old = (\<lambda>k ts. \<lparr>ea_id = lit k, ea_tracks = map lit ts, ea_created_at = 0\<rparr>)"
  define new where "new = (\<lambda>k ts r. \<lparr>pa_grouping_key = lit k, pa_title = [], pa_artist = [], pa_tracks = map lit ts,
    pa_reason = [], pa_retained = r, pa_continuity = None\<rparr>)"
  let ?existing = "[old ''A'' [''1'', ''2'', ''3''], old ''B'' [''4'', ''5'', ''6'']]"
  let ?proposed = "[new ''x'' [''1'', ''4'', ''5''] None, new ''y'' [''2'', ''3'', ''6''] None]"
  let ?alt = "[new ''x'' [''1'', ''4'', ''5''] (Some (lit ''A'')), new ''y'' [''2'', ''3'', ''6''] (Some (lit ''B''))]"
  have run: "map_option (map pa_retained) (assign_album_continuity ?existing ?proposed)
      = Some [Some (lit ''B''), Some (lit ''A'')]"
    unfolding old_def new_def by code_simp
  have "length (shared_pairs (order_existing ?existing) (order_proposed ?proposed)) = 6"
    unfolding old_def new_def by code_simp
  moreover have "distinct (map ea_id ?existing)" "distinct (map pa_grouping_key ?proposed)"
    by (simp_all add: old_def new_def lit.simps)
  ultimately obtain out where out: "assign_album_continuity ?existing ?proposed = Some out"
    and best: "\<And>alt. map forget alt = map forget ?proposed \<Longrightarrow> one_to_one alt \<Longrightarrow>
      kept_tracks ?existing alt \<le> kept_tracks ?existing out"
    using album_continuity_best [of ?existing ?proposed] by (auto simp: infinity_def)
  have "map forget ?alt = map forget ?proposed" "one_to_one ?alt"
    by (simp_all add: new_def forget_def one_to_one_def lit.simps)
  with best have "kept_tracks ?existing ?alt \<le> kept_tracks ?existing out" by blast
  with run out show ?thesis by (simp add: old_def [symmetric] new_def [symmetric] Let_def)
qed

end
