(* ===== verification/Album_Grouper.thy ===== *)
theory Album_Grouper
  imports Album_Continuity Py_Regex
begin

text \<open>
  The rest of \<open>services/native/local_album_grouper.py\<close>: how the files of a library are grouped
  into albums before any provider is asked. Files of one album are kept together by their
  directory and their album tags; discs in directories of their own are joined; files without an
  album tag join the only tagged album of their directory when their track numbers are free
  there, and stand alone otherwise. \<open>PurePosixPath\<close> is modelled as its root and its parts. The
  code extends the list of a group while it runs through the groups in the order of their keys:
  the group extended comes later in that order, so it is updated in the dictionary here.
\<close>

section \<open>Paths\<close>

type_synonym posix_path = "pystr \<times> pystr list"

definition posix_path :: "pystr \<Rightarrow> posix_path" where
  "posix_path s =
     (let slashes = length (takeWhile (\<lambda>c. c = c_slash) s);
          root = (if slashes = 0 then [] else if slashes = 2 then [c_slash, c_slash] else [c_slash])
      in (root, filter (\<lambda>p. p \<noteq> [] \<and> p \<noteq> lit ''.'') (split_on c_slash s)))"

definition path_text :: "posix_path \<Rightarrow> pystr" where
  "path_text p = (if p = ([], []) then lit ''.'' else fst p @ py_join [c_slash] (snd p))"

definition path_parent :: "posix_path \<Rightarrow> posix_path" where
  "path_parent p = (fst p, butlast (snd p))"

definition path_name :: "posix_path \<Rightarrow> pystr" where
  "path_name p = (if snd p = [] then [] else last (snd p))"

section \<open>Directories and titles\<close>

record grouping_track =
  gt_local_track_id :: pystr
  gt_root_id :: pystr
  gt_relative_path :: pystr
  gt_title :: pystr
  gt_album_title :: pystr
  gt_album_artist_name :: pystr
  gt_track_number :: int
  gt_disc_number :: int
  gt_duration_seconds :: "rat option"
  gt_recording_mbid :: "pystr option"
  gt_release_track_mbid :: "pystr option"
  gt_is_compilation :: bool
  gt_membership_locked :: bool
  gt_current_album_id :: "pystr option"

text \<open>\<open>^(?:cd|disc|disk)[\s._-]*0*(\d+)$\<close>, ignoring case, in two parts: what comes before the group, and the group.\<close>

definition DISC_DIRECTORY_head :: "unidb \<Rightarrow> re" where
  "DISC_DIRECTORY_head u =
     rseq [RStart, rwords [''cd'', ''disc'', ''disk''],
           RStar (RSet (\<lambda>c. py_isspace u c \<or> List.member (lit ''._-'') c)), RStar (RSet (\<lambda>c. c = 48))]"

definition disc_number :: "unidb \<Rightarrow> pystr \<Rightarrow> pystr option" where
  "disc_number u name =
     (case concat (map (\<lambda>i. map (Pair i) (filter (\<lambda>j. re_ends REnd name j \<noteq> []) (re_ends (RPlus (rdigit u)) name i)))
                     (re_ends (DISC_DIRECTORY_head u) name 0)) of
        [] \<Rightarrow> None
      | m # _ \<Rightarrow> Some (group_text name m))"

definition normalize_group_value :: "unidb \<Rightarrow> pystr \<Rightarrow> pystr" where
  "normalize_group_value u s = py_casefold u (re_sub (RPlus (rspace u)) [c_space] (py_strip u (py_nfkc u s)))"

definition display_consensus :: "unidb \<Rightarrow> pystr list \<Rightarrow> pystr \<Rightarrow> pystr" where
  "display_consensus u vs fallback =
     (let usable = filter (\<lambda>v. v \<noteq> []) (map (py_strip u) vs);
          folded = map (normalize_group_value u) usable
      in if usable = [] then fallback
         else let selected = hd (sort_key (\<lambda>v. (- int (count_list folded v), v)) (remdups folded))
              in hd (sort (filter (\<lambda>v. normalize_group_value u v = selected) usable)))"

definition directory_context :: "unidb \<Rightarrow> grouping_track \<Rightarrow> pystr \<times> pystr option" where
  "directory_context u track =
     (let parent = path_parent (posix_path (gt_relative_path track));
          disc = disc_number u (path_name parent); above = path_text (path_parent parent)
      in if disc \<noteq> None \<and> above \<noteq> [] \<and> above \<noteq> lit ''.'' then (above, disc)
         else (if path_text parent \<noteq> [] then path_text parent else lit ''.'', None))"

definition grouping_directory :: "unidb \<Rightarrow> pystr \<Rightarrow> pystr" where
  "grouping_directory u relative_path =
     (let parent = path_parent (posix_path relative_path); above = path_text (path_parent parent)
      in if disc_number u (path_name parent) \<noteq> None \<and> above \<noteq> [] \<and> above \<noteq> lit ''.'' then above
         else if path_text parent \<noteq> [] then path_text parent else lit ''.'')"

section \<open>Groups\<close>

type_synonym group_key = "pystr \<times> pystr \<times> pystr"

definition is_manual :: "grouping_track \<Rightarrow> bool" where
  "is_manual track \<longleftrightarrow>
     gt_membership_locked track \<and> gt_current_album_id track \<noteq> None \<and> gt_current_album_id track \<noteq> Some []"

definition group_key :: "unidb \<Rightarrow> grouping_track \<Rightarrow> group_key" where
  "group_key u track =
     (if is_manual track then (lit ''manual'', the (gt_current_album_id track), [])
      else let directory = fst (directory_context u track); album = normalize_group_value u (gt_album_title track)
           in if album \<noteq> []
              then (directory, album,
                    if gt_is_compilation track then [] else normalize_group_value u (gt_album_artist_name track))
              else (directory, [], []))"

definition group_reason :: "unidb \<Rightarrow> grouping_track \<Rightarrow> pystr" where
  "group_reason u track =
     (if is_manual track then lit ''MANUAL_MEMBERSHIP_RESTORED''
      else if normalize_group_value u (gt_album_title track) \<noteq> []
      then (if snd (directory_context u track) \<noteq> None then lit ''COMPATIBLE_DISC_DIRECTORIES''
            else lit ''CONSISTENT_ALBUM_TAGS'')
      else lit ''MISSING_ALBUM_TAGS'')"

type_synonym groups = "(group_key, grouping_track list) odict"

definition members_of :: "groups \<Rightarrow> group_key \<Rightarrow> grouping_track list" where
  "members_of groups key = (case dict_get groups key of None \<Rightarrow> [] | Some ms \<Rightarrow> ms)"

definition put_track ::
  "unidb \<Rightarrow> grouping_track \<Rightarrow> groups \<times> (group_key, pystr) odict \<Rightarrow> groups \<times> (group_key, pystr) odict" where
  "put_track u track = (\<lambda>(groups, reasons).
     (let key = group_key u track
      in (dict_set groups key (members_of groups key @ [track]), dict_set reasons key (group_reason u track))))"

text \<open>Files without album tags: whether they join the only tagged group of their directory.\<close>

definition tagged_groups :: "groups \<Rightarrow> pystr \<Rightarrow> groups" where
  "tagged_groups groups directory = filter (\<lambda>(k, ms). fst k = directory \<and> fst (snd k) \<noteq> []) groups"

definition joins :: "grouping_track list \<Rightarrow> grouping_track list \<Rightarrow> bool" where
  "joins members target \<longleftrightarrow>
     list_all (\<lambda>m. 0 < gt_track_number m) members
     \<and> \<not> list_ex (\<lambda>m. gt_track_number m
            \<in> set (filter (\<lambda>n. n \<noteq> 0) (map gt_track_number target))) members"

type_synonym expanded = "(group_key \<times> grouping_track list \<times> pystr) list"

definition single_groups :: "group_key \<Rightarrow> grouping_track list \<Rightarrow> expanded" where
  "single_groups key members =
     map (\<lambda>m. ((fst key, lit ''untagged:'' @ gt_local_track_id m, []), [m], lit ''AMBIGUOUS_FALLBACK_GROUP'')) members"

fun expand_groups :: "(group_key, pystr) odict \<Rightarrow> group_key list \<Rightarrow> groups \<Rightarrow> expanded" where
  "expand_groups reasons [] groups = []"
| "expand_groups reasons (key # keys) groups =
     (let members = members_of groups key
      in if fst (snd key) \<noteq> [] \<or> fst key = lit ''manual''
         then (key, members, case dict_get reasons key of None \<Rightarrow> [] | Some r \<Rightarrow> r) # expand_groups reasons keys groups
         else case tagged_groups groups (fst key) of
                [(target_key, target)] \<Rightarrow>
                  if joins members target
                  then expand_groups reasons keys (dict_set groups target_key (target @ members))
                  else single_groups key members @ expand_groups reasons keys groups
              | _ \<Rightarrow> single_groups key members @ expand_groups reasons keys groups)"

section \<open>Proposed albums\<close>

fun propose :: "unidb \<Rightarrow> pystr list \<Rightarrow> expanded \<Rightarrow> proposed_album list" where
  "propose u seen_keys [] = []"
| "propose u seen_keys ((key, members, reason) # es) =
     (let directory = (if fst key = lit ''manual'' then fst (snd key) else fst key);
          name = path_name (posix_path directory);
          title = display_consensus u (map gt_album_title members) (if name \<noteq> [] then name else lit ''Unknown Album'');
          artist = display_consensus u (map gt_album_artist_name members) (lit ''Unknown Artist'');
          base_key = gt_root_id (hd members) @ lit '':'' @ directory @ lit '':'' @ normalize_group_value u title
                       @ lit '':'' @ normalize_group_value u artist;
          seen = Suc (count_list seen_keys base_key)
      in \<lparr>pa_grouping_key = (if seen = 1 then base_key else base_key @ lit '':'' @ nat_text seen),
          pa_title = title, pa_artist = artist, pa_tracks = sort (map gt_local_track_id members),
          pa_reason = reason, pa_retained = None, pa_continuity = None\<rparr>
         # propose u (seen_keys @ [base_key]) es)"

definition expanded_groups :: "unidb \<Rightarrow> grouping_track list \<Rightarrow> expanded" where
  "expanded_groups u tracks =
     (let (groups, reasons) = fold (put_track u) (sort_key gt_relative_path tracks) ([], [])
      in expand_groups reasons (sort (dict_keys groups)) groups)"

definition proposed_albums :: "unidb \<Rightarrow> grouping_track list \<Rightarrow> proposed_album list" where
  "proposed_albums u tracks = propose u [] (expanded_groups u tracks)"

definition group_albums ::
  "unidb \<Rightarrow> grouping_track list \<Rightarrow> existing_album list \<Rightarrow> proposed_album list option" where
  "group_albums u tracks existing = assign_album_continuity existing (proposed_albums u tracks)"

section \<open>No track is lost or used twice\<close>

lemma members_of_set: "members_of (dict_set groups key ms) k = (if k = key then ms else members_of groups k)"
  by (simp add: members_of_def dict_get_set)

definition track_sum :: "groups \<Rightarrow> group_key list \<Rightarrow> grouping_track multiset" where
  "track_sum groups keys = sum_list (map (\<lambda>k. mset (members_of groups k)) keys)"

lemma track_sum_other: "key \<notin> set keys \<Longrightarrow> track_sum (dict_set groups key ms) keys = track_sum groups keys"
  by (induction keys) (auto simp: track_sum_def members_of_set)

lemma track_sum_set:
  assumes "key \<in> set keys" "distinct keys"
  shows "track_sum (dict_set groups key (members_of groups key @ ms)) keys = track_sum groups keys + mset ms"
  using assms
proof (induction keys)
  case (Cons k keys)
  show ?case
  proof (cases "k = key")
    case True
    then have "track_sum (dict_set groups key (members_of groups key @ ms)) keys = track_sum groups keys"
      using Cons.prems by (intro track_sum_other) simp
    with True show ?thesis by (simp add: track_sum_def members_of_set)
  next
    case False
    with Cons show ?thesis by (simp add: track_sum_def members_of_set)
  qed
qed simp

text \<open>What a group may hold: tracks with its key, and files without album tags of its directory.\<close>

definition fits :: "unidb \<Rightarrow> group_key \<Rightarrow> grouping_track \<Rightarrow> bool" where
  "fits u key t \<longleftrightarrow> group_key u t = key \<or> (fst (group_key u t) = fst key \<and> fst (snd (group_key u t)) = [])"

definition groups_ok :: "unidb \<Rightarrow> groups \<Rightarrow> bool" where
  "groups_ok u groups \<longleftrightarrow> dict_wf groups \<and> list_all (\<lambda>(k, ms). ms \<noteq> [] \<and> list_all (fits u k) ms) groups"

lemma groups_ok_members:
  assumes "groups_ok u groups" "k \<in> set (dict_keys groups)"
  shows "members_of groups k \<noteq> [] \<and> list_all (fits u k) (members_of groups k)"
proof -
  obtain ms where "(k, ms) \<in> set groups" using assms(2) by (auto simp: dict_keys_def)
  moreover from this have "dict_get groups k = Some ms"
    using assms(1) by (simp add: groups_ok_def dict_wf_def dict_get_def)
  ultimately show ?thesis using assms(1) by (auto simp: members_of_def groups_ok_def list_all_iff)
qed

lemma groups_ok_set:
  assumes "groups_ok u groups" "ms \<noteq> []" "list_all (fits u key) ms"
  shows "groups_ok u (dict_set groups key ms)"
proof -
  have "m \<noteq> [] \<and> list_all (fits u k) m" if "(k, m) \<in> set (dict_set groups key ms)" for k m
  proof (cases "(k, m) = (key, ms)")
    case False
    then have "(k, m) \<in> set groups" using that set_dict_set [of groups key ms] by blast
    then show ?thesis using assms(1) by (auto simp: groups_ok_def list_all_iff)
  qed (use assms(2,3) in simp)
  then have "list_all (\<lambda>(k, ms). ms \<noteq> [] \<and> list_all (fits u k) ms) (dict_set groups key ms)"
    unfolding list_all_iff [of "\<lambda>(k, ms). ms \<noteq> [] \<and> list_all (fits u k) ms"] by blast
  then show ?thesis using assms(1) by (simp add: groups_ok_def)
qed

lemma dict_keys_set_keys: "set (dict_keys (dict_set d k v)) = insert k (set (dict_keys d))"
  by (induction d k v rule: dict_set.induct) (auto simp: dict_keys_def)

lemma track_sum_keys:
  assumes "dict_wf groups"
  shows "track_sum (dict_set groups key (members_of groups key @ ms)) (dict_keys (dict_set groups key (members_of groups key @ ms)))
    = track_sum groups (dict_keys groups) + mset ms"
proof (cases "key \<in> set (dict_keys groups)")
  case True
  then have "dict_keys (dict_set groups key (members_of groups key @ ms)) = dict_keys groups"
    by (simp add: dict_keys_def dict_keys_set)
  with True assms show ?thesis by (simp add: track_sum_set dict_wf_def dict_keys_def)
next
  case False
  then have keys: "dict_keys (dict_set groups key (members_of groups key @ ms)) = dict_keys groups @ [key]"
    by (simp add: dict_keys_def dict_keys_set)
  have "members_of groups key = []"
    using False by (simp add: members_of_def dict_get_def dict_keys_def map_of_eq_None_iff [THEN iffD2])
  then show ?thesis unfolding keys
    using track_sum_other [OF False] by (simp add: track_sum_def members_of_set)
qed

lemma put_tracks:
  assumes "groups_ok u groups"
  shows "groups_ok u (fst (fold (put_track u) tracks (groups, reasons)))
    \<and> track_sum (fst (fold (put_track u) tracks (groups, reasons))) (dict_keys (fst (fold (put_track u) tracks (groups, reasons))))
        = track_sum groups (dict_keys groups) + mset tracks"
  using assms
proof (induction tracks arbitrary: groups reasons)
  case (Cons t tracks)
  let ?key = "group_key u t" and ?ms = "members_of groups (group_key u t) @ [t]"
  have "list_all (fits u ?key) (members_of groups ?key)"
  proof (cases "?key \<in> set (dict_keys groups)")
    case True
    then show ?thesis using groups_ok_members [OF Cons.prems] by blast
  next
    case False
    then show ?thesis by (simp add: members_of_def dict_get_def dict_keys_def map_of_eq_None_iff [THEN iffD2])
  qed
  then have "groups_ok u (dict_set groups ?key ?ms)"
    using Cons.prems by (intro groups_ok_set) (simp_all add: fits_def)
  moreover have "track_sum (dict_set groups ?key ?ms) (dict_keys (dict_set groups ?key ?ms))
      = track_sum groups (dict_keys groups) + {#t#}"
    using track_sum_keys [of groups ?key "[t]"] Cons.prems by (simp add: groups_ok_def)
  ultimately show ?case
    using Cons.IH [of "dict_set groups ?key ?ms"] by (simp add: put_track_def Let_def)
qed simp

definition entry_tracks :: "expanded \<Rightarrow> grouping_track list" where
  "entry_tracks es = concat (map (\<lambda>e. fst (snd e)) es)"

definition may_share :: "unidb \<Rightarrow> grouping_track \<Rightarrow> grouping_track \<Rightarrow> bool" where
  "may_share u s t \<longleftrightarrow>
     fst (group_key u s) = fst (group_key u t)
     \<and> (fst (snd (group_key u s)) \<noteq> [] \<and> fst (snd (group_key u t)) \<noteq> [] \<longrightarrow> group_key u s = group_key u t)"

definition part_ok :: "unidb \<Rightarrow> grouping_track list \<Rightarrow> bool" where
  "part_ok u ms \<longleftrightarrow> ms \<noteq> [] \<and> list_all (\<lambda>s. list_all (may_share u s) ms) ms"

lemma fits_share: "fits u key s \<Longrightarrow> fits u key t \<Longrightarrow> may_share u s t"
  by (auto simp: may_share_def fits_def)

lemma fits_part: "ms \<noteq> [] \<Longrightarrow> list_all (fits u key) ms \<Longrightarrow> part_ok u ms"
  using fits_share by (simp add: part_ok_def list_all_iff) blast

lemma single_groups_ok:
  "entry_tracks (single_groups key members) = members"
  "list_all (\<lambda>e. part_ok u (fst (snd e))) (single_groups key members)"
  by (induction members) (auto simp: single_groups_def entry_tracks_def part_ok_def may_share_def)

lemma less_untagged:
  fixes k target :: group_key
  assumes "fst target = fst k" "fst (snd target) \<noteq> []" "fst (snd k) = []"
  shows "k < target"
  using assms by (cases k; cases target) (auto simp: less_prod_simp list_less_def neq_Nil_conv)

lemma expand_groups_ok:
  assumes "groups_ok u groups" "sorted_wrt (<) keys" "set keys \<subseteq> set (dict_keys groups)"
    and "\<forall>k\<in>set (dict_keys groups) - set keys. \<forall>l\<in>set keys. k < l"
  shows "mset (entry_tracks (expand_groups reasons keys groups)) = track_sum groups keys
    \<and> list_all (\<lambda>e. part_ok u (fst (snd e))) (expand_groups reasons keys groups)"
  using assms
proof (induction keys arbitrary: groups)
  case Nil
  then show ?case by (simp add: entry_tracks_def track_sum_def)
next
  case (Cons key keys)
  let ?ms = "members_of groups key"
  have ms: "?ms \<noteq> []" "list_all (fits u key) ?ms"
    using groups_ok_members [OF Cons.prems(1)] Cons.prems(3) by auto
  have below: "\<forall>k\<in>set (dict_keys groups) - set keys. \<forall>l\<in>set keys. k < l"
    using Cons.prems(2,4) by auto
  have plain: "mset (entry_tracks (expand_groups reasons keys groups)) = track_sum groups keys
    \<and> list_all (\<lambda>e. part_ok u (fst (snd e))) (expand_groups reasons keys groups)"
    using Cons.prems below by (intro Cons.IH) auto
  have split: "track_sum groups (key # keys) = mset ?ms + track_sum groups keys" by (simp add: track_sum_def)
  show ?case
  proof (cases "fst (snd key) \<noteq> [] \<or> fst key = lit ''manual''")
    case True
    then show ?thesis using plain split fits_part [OF ms] by (simp add: entry_tracks_def Let_def)
  next
    case False
    have singles: ?thesis if "expand_groups reasons (key # keys) groups = single_groups key ?ms @ expand_groups reasons keys groups"
      using plain split single_groups_ok(1) [of key ?ms] single_groups_ok(2) [of u key ?ms] unfolding that by (simp add: entry_tracks_def)
    show ?thesis
    proof (cases "\<exists>target_key target. tagged_groups groups (fst key) = [(target_key, target)] \<and> joins ?ms target")
      case True
      then obtain target_key target where tag: "tagged_groups groups (fst key) = [(target_key, target)]" "joins ?ms target"
        by blast
      let ?groups = "dict_set groups target_key (target @ ?ms)"
      have "(target_key, target) \<in> set (tagged_groups groups (fst key))" using tag(1) by simp
      then have target: "(target_key, target) \<in> set groups" "fst target_key = fst key" "fst (snd target_key) \<noteq> []"
        by (auto simp: tagged_groups_def)
      have get: "members_of groups target_key = target"
        using target(1) Cons.prems(1) by (simp add: members_of_def groups_ok_def dict_wf_def dict_get_def)
      have in_keys: "target_key \<in> set (dict_keys groups)" using target(1) by (force simp: dict_keys_def)
      have "key < target_key" using less_untagged target False by blast
      then have later: "target_key \<in> set keys"
        using Cons.prems(2,4) in_keys by (metis DiffI less_asym list.set_intros(1) set_ConsD less_irrefl)
      have keys: "set (dict_keys ?groups) = set (dict_keys groups)" using in_keys by (auto simp: dict_keys_set_keys)
      have "list_all (fits u target_key) ?ms"
        using ms(2) target(2) False by (auto simp: list_all_iff fits_def)
      moreover have "list_all (fits u target_key) target" "target \<noteq> []"
        using groups_ok_members [OF Cons.prems(1) in_keys] by (simp_all add: get)
      ultimately have ok: "groups_ok u ?groups" using Cons.prems(1) by (intro groups_ok_set) simp_all
      have "mset (entry_tracks (expand_groups reasons keys ?groups)) = track_sum ?groups keys
        \<and> list_all (\<lambda>e. part_ok u (fst (snd e))) (expand_groups reasons keys ?groups)"
        using Cons.prems(2,3) below keys by (intro Cons.IH ok) auto
      moreover have "distinct keys" using Cons.prems(2) by (simp add: strict_sorted_iff)
      then have "track_sum ?groups keys = track_sum groups keys + mset ?ms"
        using track_sum_set [OF later, of groups ?ms] by (simp add: get)
      ultimately show ?thesis using False tag split by (simp add: Let_def)
    next
      case False': False
      have "expand_groups reasons (key # keys) groups = single_groups key ?ms @ expand_groups reasons keys groups"
        using False False' by (auto simp: Let_def split: list.splits prod.splits)
      then show ?thesis by (rule singles)
    qed
  qed
qed

lemma propose_tracks:
  "map pa_tracks (propose u seen es) = map (\<lambda>e. sort (map gt_local_track_id (fst (snd e)))) es"
  by (induction u seen es rule: propose.induct) (simp_all add: Let_def)

lemma expanded_groups_ok:
  "mset (entry_tracks (expanded_groups u tracks)) = mset tracks
   \<and> list_all (\<lambda>e. part_ok u (fst (snd e))) (expanded_groups u tracks)"
proof -
  let ?tracks = "sort_key gt_relative_path tracks"
  obtain groups reasons where run: "fold (put_track u) ?tracks ([], []) = (groups, reasons)" by fastforce
  have "groups_ok u []" by (simp add: groups_ok_def dict_wf_def)
  from put_tracks [OF this, of ?tracks "[]"] run
  have groups: "groups_ok u groups" "track_sum groups (dict_keys groups) = mset tracks"
    by (simp_all add: track_sum_def dict_keys_def)
  let ?keys = "sort (dict_keys groups)"
  have "distinct (dict_keys groups)" using groups(1) by (simp add: groups_ok_def dict_wf_def dict_keys_def)
  then have "sorted_wrt (<) ?keys" by (simp add: strict_sorted_iff)
  then have "mset (entry_tracks (expand_groups reasons ?keys groups)) = track_sum groups ?keys
    \<and> list_all (\<lambda>e. part_ok u (fst (snd e))) (expand_groups reasons ?keys groups)"
    by (intro expand_groups_ok groups(1)) simp_all
  moreover have "track_sum groups ?keys = track_sum groups (dict_keys groups)"
  proof -
    have "mset (map (\<lambda>k. mset (members_of groups k)) ?keys) = mset (map (\<lambda>k. mset (members_of groups k)) (dict_keys groups))"
      by simp
    then show ?thesis unfolding track_sum_def by (metis sum_mset_sum_list)
  qed
  ultimately show ?thesis using groups(2) run by (simp add: expanded_groups_def)
qed

text \<open>
  Two tracks that may be one album, without the keys: both are locked to the same album, or both lie in
  the same directory (a directory of a disc stands for the one above it) and agree on the normalized
  album title, and on the artist or on being compilations, when both have a title. A locked track comes
  together with another one only when that one lies in a directory called \<open>manual\<close>.
\<close>

definition artist_of :: "unidb \<Rightarrow> grouping_track \<Rightarrow> pystr" where
  "artist_of u t = (if gt_is_compilation t then [] else normalize_group_value u (gt_album_artist_name t))"

definition title_of :: "unidb \<Rightarrow> grouping_track \<Rightarrow> pystr" where
  "title_of u t = normalize_group_value u (gt_album_title t)"

definition one_album :: "unidb \<Rightarrow> grouping_track \<Rightarrow> grouping_track \<Rightarrow> bool" where
  "one_album u s t \<longleftrightarrow>
     (if is_manual s \<and> is_manual t then gt_current_album_id s = gt_current_album_id t
      else if is_manual s then grouping_directory u (gt_relative_path t) = lit ''manual''
      else if is_manual t then grouping_directory u (gt_relative_path s) = lit ''manual''
      else grouping_directory u (gt_relative_path s) = grouping_directory u (gt_relative_path t)
        \<and> (title_of u s = [] \<or> title_of u t = [] \<or> title_of u s = title_of u t \<and> artist_of u s = artist_of u t))"

lemma directory_of_key: "fst (directory_context u t) = grouping_directory u (gt_relative_path t)"
  by (simp add: directory_context_def grouping_directory_def Let_def)

lemma may_share_one_album: "may_share u s t \<Longrightarrow> one_album u s t"
  by (auto simp: may_share_def one_album_def group_key_def Let_def directory_of_key title_of_def artist_of_def is_manual_def
      split: if_splits)

lemma part_one_album: "part_ok u ms \<Longrightarrow> ms \<noteq> [] \<and> list_all (\<lambda>s. list_all (one_album u s) ms) ms"
  using may_share_one_album by (auto simp: part_ok_def list_all_iff)


definition plain_track :: "string \<Rightarrow> string \<Rightarrow> string \<Rightarrow> string \<Rightarrow> int \<Rightarrow> bool \<Rightarrow> grouping_track" where
  "plain_track i path album artist n va =
     \<lparr>gt_local_track_id = lit i, gt_root_id = lit ''r'', gt_relative_path = lit path,
      gt_title = [], gt_album_title = lit album, gt_album_artist_name = lit artist, gt_track_number = n,
      gt_disc_number = 1, gt_duration_seconds = None, gt_recording_mbid = None, gt_release_track_mbid = None,
      gt_is_compilation = va, gt_membership_locked = False, gt_current_album_id = None\<rparr>"

text \<open>Two discs of an album, with an untagged file that joins them and one that cannot.\<close>

definition example_tracks :: "grouping_track list" where
  "example_tracks =
     [plain_track ''1'' ''d/Disc 1/a'' ''T'' ''A'' 1 False, plain_track ''2'' ''d/CD2/b'' ''t'' ''a'' 2 False,
      plain_track ''3'' ''d/c'' '''' '''' 3 False, plain_track ''4'' ''e/f'' '''' '''' 0 False]"


section \<open>Two defects\<close>

text \<open>
  The number that tells groups with the same key apart can make it the key of another group:
  with an artist named like the numbered key of a second group, two albums get one grouping key,
  both continue the same old album, and one of them shares no track with it.
\<close>
theorem grouping_keys_collide:
  "\<exists>tracks existing out. group_albums ascii_db tracks existing = Some out
     \<and> map pa_retained out = [None, Some (lit ''old''), Some (lit ''old'')]
     \<and> map pa_tracks out = [[lit ''1''], [lit ''2''], [lit ''3'']]
     \<and> map ea_tracks existing = [[lit ''2'']] \<and> \<not> distinct (map pa_grouping_key out)"
proof -
  let ?tracks = "[plain_track ''1'' ''d/x'' ''T'' ''A'' 1 True, plain_track ''2'' ''d/y'' ''T'' ''A'' 2 False,
    plain_track ''3'' ''d/z'' ''T'' ''A:2'' 3 False]"
  let ?existing = "[\<lparr>ea_id = lit ''old'', ea_tracks = [lit ''2''], ea_created_at = 0\<rparr>]"
  have "map_option (\<lambda>out. (map pa_retained out, map pa_tracks out, distinct (map pa_grouping_key out)))
      (group_albums ascii_db ?tracks ?existing)
    = Some ([None, Some (lit ''old''), Some (lit ''old'')], [[lit ''1''], [lit ''2''], [lit ''3'']], False)"
    by code_simp
  then obtain out where "group_albums ascii_db ?tracks ?existing = Some out"
    "map pa_retained out = [None, Some (lit ''old''), Some (lit ''old'')]"
    "map pa_tracks out = [[lit ''1''], [lit ''2''], [lit ''3'']]" "\<not> distinct (map pa_grouping_key out)"
    by auto
  moreover have "map ea_tracks ?existing = [[lit ''2'']]" by simp
  ultimately show ?thesis by - (intro exI conjI; assumption)
qed

text \<open>
  A top-level directory named \<open>manual\<close> is taken for the mark of locked memberships: the untagged
  files of any other directory stand alone, those of \<open>manual\<close> become one album.
\<close>

lemma manual_directory_is_special:
  "map_option (map pa_tracks) (group_albums ascii_db
     [plain_track ''1'' ''manual/x'' '''' '''' 0 False, plain_track ''2'' ''manual/y'' '''' '''' 0 False] [])
   = Some [[lit ''1'', lit ''2'']]"
  "map_option (map pa_tracks) (group_albums ascii_db
     [plain_track ''1'' ''other/x'' '''' '''' 0 False, plain_track ''2'' ''other/y'' '''' '''' 0 False] [])
   = Some [[lit ''1''], [lit ''2'']]"
  by code_simp+

end
