(* ===== verification/Py_Difflib.thy ===== *)
theory Py_Difflib
  imports Complex_Main Py_Base
begin

text \<open>
  Python's \<open>difflib.SequenceMatcher(None, a, b).ratio()\<close>: twice the number of characters in
  matching blocks, divided by the number of characters. A block is a longest common piece of the
  two texts; the blocks before and after it are found in the same way. In texts of at least 200
  characters the characters that occur too often cannot start a block.
\<close>

section \<open>Longest blocks\<close>

definition is_popular :: "pystr \<Rightarrow> cp \<Rightarrow> bool" where
  "is_popular b c \<longleftrightarrow> 200 \<le> length b \<and> length b div 100 + 1 < count_list b c"

type_synonym text_block = "nat \<times> nat \<times> nat"

text \<open>One occurrence \<open>j\<close> of \<open>a[i]\<close> in \<open>b\<close>, with the lengths of the matches that end at \<open>i - 1\<close>.\<close>

definition try_match ::
  "nat \<Rightarrow> (nat, nat) odict \<Rightarrow> nat \<Rightarrow> (nat, nat) odict \<times> text_block \<Rightarrow> (nat, nat) odict \<times> text_block" where
  "try_match i j2len j = (\<lambda>(newj2len, best).
     (let k = Suc (if j = 0 then 0 else case dict_get j2len (j - 1) of None \<Rightarrow> 0 | Some l \<Rightarrow> l)
      in (dict_set newj2len j k, if snd (snd best) < k then (Suc i - k, Suc j - k, k) else best)))"

definition match_row ::
  "pystr \<Rightarrow> pystr \<Rightarrow> nat \<Rightarrow> nat \<Rightarrow> nat \<Rightarrow> (nat, nat) odict \<times> text_block \<Rightarrow> (nat, nat) odict \<times> text_block" where
  "match_row a b blo bhi i = (\<lambda>(j2len, best).
     fold (try_match i j2len)
       (if is_popular b (a ! i) then [] else filter (\<lambda>j. b ! j = a ! i) [blo..<bhi]) ([], best))"

fun extend_left :: "pystr \<Rightarrow> pystr \<Rightarrow> nat \<Rightarrow> nat \<Rightarrow> nat \<Rightarrow> nat \<Rightarrow> nat \<Rightarrow> text_block" where
  "extend_left a b alo blo (Suc i) (Suc j) k =
     (if alo < Suc i \<and> blo < Suc j \<and> a ! i = b ! j then extend_left a b alo blo i j (Suc k)
      else (Suc i, Suc j, k))"
| "extend_left a b alo blo i j k = (i, j, k)"

function extend_right :: "pystr \<Rightarrow> pystr \<Rightarrow> nat \<Rightarrow> nat \<Rightarrow> nat \<Rightarrow> nat \<Rightarrow> nat \<Rightarrow> text_block" where
  "extend_right a b ahi bhi i j k =
     (if i + k < ahi \<and> j + k < bhi \<and> a ! (i + k) = b ! (j + k) then extend_right a b ahi bhi i j (Suc k)
      else (i, j, k))"
  by pat_completeness auto
termination
  by (relation "measure (\<lambda>(a, b, ahi, bhi, i, j, k). ahi - (i + k))") auto

declare extend_right.simps [simp del]

definition longest_match :: "pystr \<Rightarrow> pystr \<Rightarrow> nat \<Rightarrow> nat \<Rightarrow> nat \<Rightarrow> nat \<Rightarrow> text_block" where
  "longest_match a b alo ahi blo bhi =
     (let (i, j, k) = snd (fold (match_row a b blo bhi) [alo..<ahi] ([], (alo, blo, 0)));
          (i, j, k) = extend_left a b alo blo i j k
      in extend_right a b ahi bhi i j k)"

text \<open>A block lies in the two ranges that it was looked for in.\<close>

definition lies_within :: "nat \<Rightarrow> nat \<Rightarrow> nat \<Rightarrow> nat \<Rightarrow> text_block \<Rightarrow> bool" where
  "lies_within alo ahi blo bhi m \<longleftrightarrow>
     (case m of (i, j, k) \<Rightarrow> k = 0 \<and> i = alo \<and> j = blo \<or> alo \<le> i \<and> i + k \<le> ahi \<and> blo \<le> j \<and> j + k \<le> bhi)"

definition lengths_ok :: "nat \<Rightarrow> nat \<Rightarrow> nat \<Rightarrow> nat \<Rightarrow> (nat, nat) odict \<Rightarrow> bool" where
  "lengths_ok alo i blo bhi d \<longleftrightarrow> (\<forall>j k. dict_get d j = Some k \<longrightarrow> blo \<le> j \<and> j < bhi \<and> blo + k \<le> Suc j \<and> alo + k \<le> i)"

lemma try_matches_ok:
  assumes "lengths_ok alo i blo bhi d" "set js \<subseteq> {blo..<bhi}" "alo \<le> i" "i < ahi"
    and "lengths_ok alo (Suc i) blo bhi new" "lies_within alo ahi blo bhi best"
  shows "lengths_ok alo (Suc i) blo bhi (fst (fold (try_match i d) js (new, best)))
    \<and> lies_within alo ahi blo bhi (snd (fold (try_match i d) js (new, best)))"
  using assms(2,5,6)
proof (induction js arbitrary: new best)
  case (Cons j js)
  define k where "k = Suc (if j = 0 then 0 else case dict_get d (j - 1) of None \<Rightarrow> 0 | Some l \<Rightarrow> l)"
  let ?best = "if snd (snd best) < k then (Suc i - k, Suc j - k, k) else best"
  have j: "blo \<le> j" "j < bhi" using Cons.prems(1) by auto
  have k: "blo + k \<le> Suc j" "alo + k \<le> Suc i"
  proof -
    have "blo + l \<le> j \<and> alo + l \<le> i" if "dict_get d (j - 1) = Some l" "j \<noteq> 0" for l
      using assms(1) that unfolding lengths_ok_def by fastforce
    then show "blo + k \<le> Suc j" "alo + k \<le> Suc i"
      using j assms(3) by (auto simp: k_def split: option.splits)
  qed
  then have "lengths_ok alo (Suc i) blo bhi (dict_set new j k)"
    using Cons.prems(2) j by (simp add: lengths_ok_def dict_get_set)
  moreover have "lies_within alo ahi blo bhi ?best"
    using Cons.prems(3) k j assms(4) by (auto simp: lies_within_def)
  ultimately have "lengths_ok alo (Suc i) blo bhi (fst (fold (try_match i d) js (dict_set new j k, ?best)))
    \<and> lies_within alo ahi blo bhi (snd (fold (try_match i d) js (dict_set new j k, ?best)))"
    using Cons.prems(1) by (intro Cons.IH) auto
  moreover have "try_match i d j (new, best) = (dict_set new j k, ?best)"
    by (simp add: try_match_def k_def Let_def)
  ultimately show ?case by simp
qed simp

lemma match_rows_ok:
  assumes "m \<le> ahi" "alo \<le> m"
  shows "lengths_ok alo m blo bhi (fst (fold (match_row a b blo bhi) [alo..<m] ([], (alo, blo, 0))))
    \<and> lies_within alo ahi blo bhi (snd (fold (match_row a b blo bhi) [alo..<m] ([], (alo, blo, 0))))"
  using assms(2,1)
proof (induction m rule: dec_induct)
  case base
  then show ?case by (simp add: lengths_ok_def lies_within_def dict_get_def)
next
  case (step n)
  obtain d best where run: "fold (match_row a b blo bhi) [alo..<n] ([], (alo, blo, 0)) = (d, best)"
    by (metis surj_pair)
  let ?js = "if is_popular b (a ! n) then [] else filter (\<lambda>j. b ! j = a ! n) [blo..<bhi]"
  have "lengths_ok alo n blo bhi d" "lies_within alo ahi blo bhi best" using step run by auto
  moreover have "lengths_ok alo (Suc n) blo bhi []" by (simp add: lengths_ok_def dict_get_def)
  moreover have "set ?js \<subseteq> {blo..<bhi}" by auto
  moreover have "n < ahi" using step.prems by simp
  ultimately have "lengths_ok alo (Suc n) blo bhi (fst (fold (try_match n d) ?js ([], best)))
      \<and> lies_within alo ahi blo bhi (snd (fold (try_match n d) ?js ([], best)))"
    using step.hyps(1) by (intro try_matches_ok)
  moreover have "fold (match_row a b blo bhi) [alo..<Suc n] ([], (alo, blo, 0)) = fold (try_match n d) ?js ([], best)"
    using run step.hyps(1) by (simp add: match_row_def del: fold_simps(2) if_split)
  ultimately show ?case by simp
qed

lemma extend_left_range:
  "lies_within alo ahi blo bhi (i, j, k) \<Longrightarrow> lies_within alo ahi blo bhi (extend_left a b alo blo i j k)"
  by (induction a b alo blo i j k rule: extend_left.induct) (auto simp: lies_within_def)

lemma extend_right_range:
  "lies_within alo ahi blo bhi (i, j, k) \<Longrightarrow> lies_within alo ahi blo bhi (extend_right a b ahi bhi i j k)"
proof (induction a b ahi bhi i j k rule: extend_right.induct)
  case (1 a b ahi bhi i j k)
  then show ?case by (subst extend_right.simps) (auto simp: lies_within_def)
qed

lemma longest_match_range:
  "lies_within alo ahi blo bhi (longest_match a b alo ahi blo bhi)"
proof -
  obtain d i j k where run: "fold (match_row a b blo bhi) [alo..<ahi] ([], (alo, blo, 0)) = (d, i, j, k)"
    by (metis prod_cases4)
  have "lies_within alo ahi blo bhi (i, j, k)"
  proof (cases "alo \<le> ahi")
    case True
    then show ?thesis using match_rows_ok [OF order_refl True, of blo bhi a b] run by simp
  next
    case False
    then show ?thesis using run by (simp add: lies_within_def)
  qed
  moreover obtain i' j' k' where left: "extend_left a b alo blo i j k = (i', j', k')" by (metis prod_cases3)
  ultimately have "lies_within alo ahi blo bhi (i', j', k')" using extend_left_range by metis
  then show ?thesis using run left extend_right_range by (simp add: longest_match_def)
qed

lemma found_range:
  assumes "(i, j, k) = longest_match a b alo ahi blo bhi"
  shows "k = 0 \<or> 0 < k \<and> alo \<le> i \<and> i + k \<le> ahi \<and> blo \<le> j \<and> j + k \<le> bhi"
  using longest_match_range [of alo ahi blo bhi a b] by (auto simp: lies_within_def assms [symmetric])

section \<open>The ratio\<close>

text \<open>
  The characters in the blocks of two ranges. The guard on the position of the block always
  holds (\<open>longest_match_range\<close>).
\<close>

function matched :: "pystr \<Rightarrow> pystr \<Rightarrow> nat \<Rightarrow> nat \<Rightarrow> nat \<Rightarrow> nat \<Rightarrow> nat" where
  "matched a b alo ahi blo bhi =
     (case longest_match a b alo ahi blo bhi of (i, j, k) \<Rightarrow>
        if k = 0 then 0
        else k + (if alo < i \<and> blo < j then matched a b alo i blo j else 0)
               + (if i + k < ahi \<and> j + k < bhi then matched a b (i + k) ahi (j + k) bhi else 0))"
  by pat_completeness auto
termination
  by (relation "measure (\<lambda>(a, b, alo, ahi, blo, bhi). ahi - alo + (bhi - blo))") (auto dest!: found_range)

declare matched.simps [simp del]

definition sequence_ratio :: "pystr \<Rightarrow> pystr \<Rightarrow> rat" where
  "sequence_ratio a b =
     (if length a + length b = 0 then 1
      else 2 * of_nat (matched a b 0 (length a) 0 (length b)) / of_nat (length a + length b))"

lemma matched_le: "alo \<le> ahi \<Longrightarrow> blo \<le> bhi \<Longrightarrow> matched a b alo ahi blo bhi \<le> min (ahi - alo) (bhi - blo)"
proof (induction a b alo ahi blo bhi rule: matched.induct)
  case (1 a b alo ahi blo bhi)
  obtain i j k where m: "longest_match a b alo ahi blo bhi = (i, j, k)" by (metis prod_cases3)
  show ?case
  proof (cases "k = 0")
    case True
    then show ?thesis using m by (subst matched.simps) simp
  next
    case False
    then have r: "alo \<le> i" "i + k \<le> ahi" "blo \<le> j" "j + k \<le> bhi"
      using longest_match_range [of alo ahi blo bhi a b] m by (auto simp: lies_within_def)
    let ?L = "if alo < i \<and> blo < j then matched a b alo i blo j else 0"
    let ?R = "if i + k < ahi \<and> j + k < bhi then matched a b (i + k) ahi (j + k) bhi else 0"
    have L: "?L \<le> min (i - alo) (j - blo)"
      using "1.IH"(1) [OF m [symmetric] refl False] r by auto
    have R: "?R \<le> min (ahi - (i + k)) (bhi - (j + k))"
      using "1.IH"(2) [OF m [symmetric] refl False] r by auto
    have "matched a b alo ahi blo bhi = k + ?L + ?R" using m False by (subst matched.simps) simp
    then show ?thesis using L R r by linarith
  qed
qed

lemma sequence_ratio_bounds: "0 \<le> sequence_ratio a b \<and> sequence_ratio a b \<le> 1"
proof -
  have "2 * matched a b 0 (length a) 0 (length b) \<le> length a + length b"
    using matched_le [of 0 "length a" 0 "length b" a b] by simp
  then have "2 * (of_nat (matched a b 0 (length a) 0 (length b)) :: rat) \<le> of_nat (length a + length b)"
    by (metis of_nat_le_iff of_nat_mult of_nat_numeral)
  then show ?thesis by (simp add: sequence_ratio_def divide_le_eq_1 del: of_nat_add)
qed

end
