(* ===== verification/Album_Evidence.thy ===== *)
theory Album_Evidence
  imports Album_Grouper Py_Difflib
begin

text \<open>
  \<open>services/native/album_evidence_engine.py\<close>: how well the files of a local album fit a release
  that a provider proposes, and which proposal, if any, is taken for the album. Numbers that
  Python computes in binary floating point (durations, costs, scores) are rational here; costs
  are not negative, so \<open>int(...)\<close> of one is the integer part.
\<close>

section \<open>Data\<close>

record candidate_track =
  ct_title :: pystr
  ct_position :: int
  ct_disc_number :: int
  ct_absolute_position :: int
  ct_duration_seconds :: "rat option"
  ct_recording_mbid :: "pystr option"
  ct_release_track_mbid :: "pystr option"

record album_candidate =
  ac_release_group_mbid :: pystr
  ac_release_mbid :: "pystr option"
  ac_album_title :: pystr
  ac_album_artist_name :: pystr
  ac_tracks :: "candidate_track list"
  ac_artist_mbid :: "pystr option"
  ac_release_type :: "pystr option"
  ac_secondary_types :: "pystr list"
  ac_release_date :: "pystr option"

datatype evidence_class = Supported | Unknown | Contradictory

record track_evidence =
  te_local_track_id :: pystr
  te_classification :: evidence_class
  te_evidence_kinds :: "pystr list"
  te_candidate_track_title :: "pystr option"
  te_candidate_disc_number :: "int option"
  te_candidate_track_position :: "int option"
  te_recording_mbid :: "pystr option"
  te_release_track_mbid :: "pystr option"

record candidate_evidence =
  ce_release_group_mbid :: pystr
  ce_release_mbid :: "pystr option"
  ce_album_title :: pystr
  ce_album_artist_name :: pystr
  ce_artist_mbid :: "pystr option"
  ce_release_type :: "pystr option"
  ce_release_date :: "pystr option"
  ce_local_album_title :: pystr
  ce_local_album_artist_name :: pystr
  ce_album_title_classification :: evidence_class
  ce_album_artist_classification :: evidence_class
  ce_track_evidence :: "track_evidence list"
  ce_unmatched_expected_tracks :: "pystr list"
  ce_score :: rat
  ce_margin :: rat
  ce_reason_code :: pystr
  ce_matcher_version :: pystr

datatype identification_outcome = Identified | NoCandidate | Ambiguous | ContradictoryOutcome | InsufficientEvidence

record identification_decision =
  id_outcome :: identification_outcome
  id_reason_code :: pystr
  id_selected_candidate_key :: "pystr option"
  id_candidates :: "candidate_evidence list"

definition MATCHER_VERSION :: pystr where "MATCHER_VERSION = lit ''feedback-fixes-v2''"
definition PAIR_COST_CEILING :: rat where "PAIR_COST_CEILING = 40 / 100"
definition ALBUM_DISTANCE_CEILING :: rat where "ALBUM_DISTANCE_CEILING = 35 / 100"
definition CANDIDATE_MARGIN_FLOOR :: rat where "CANDIDATE_MARGIN_FLOOR = 5 / 100"
definition ORDINARY_ALBUM_MAX_FILES :: nat where "ORDINARY_ALBUM_MAX_FILES = 20"
definition ORDINARY_UNKNOWN_LIMIT :: nat where "ORDINARY_UNKNOWN_LIMIT = 1"
definition LARGE_UNKNOWN_LIMIT :: nat where "LARGE_UNKNOWN_LIMIT = 2"
definition DURATION_GRACE_SECONDS :: rat where "DURATION_GRACE_SECONDS = 10"
definition DURATION_HARD_LIMIT_SECONDS :: rat where "DURATION_HARD_LIMIT_SECONDS = 30"
definition MAX_CANDIDATES :: nat where "MAX_CANDIDATES = 10"

section \<open>One local file and one track of a release\<close>

definition fold_value :: "unidb \<Rightarrow> pystr \<Rightarrow> pystr" where
  "fold_value u s =
     filter (is_word u) (py_casefold u (filter (\<lambda>c. c < 128 \<or> \<not> u_combining u c) (py_nfkd u (py_strip u s))))"

definition text_distance :: "unidb \<Rightarrow> pystr \<Rightarrow> pystr \<Rightarrow> rat" where
  "text_distance u left right =
     (let l = fold_value u left; r = fold_value u right
      in if l = [] \<and> r = [] then 0 else if l = [] \<or> r = [] then 1 else 1 - sequence_ratio l r)"

definition duration_difference :: "grouping_track \<Rightarrow> candidate_track \<Rightarrow> rat option" where
  "duration_difference local candidate =
     (case (gt_duration_seconds local, ct_duration_seconds candidate) of
        (Some a, Some b) \<Rightarrow> Some (abs (a - b))
      | _ \<Rightarrow> None)"

record match_pair =
  mp_cost :: rat
  mp_hard_conflict :: bool
  mp_kinds :: "pystr list"

definition is_set :: "pystr option \<Rightarrow> bool" where
  "is_set m \<longleftrightarrow> m \<noteq> None \<and> m \<noteq> Some []"

definition title_cost :: "unidb \<Rightarrow> grouping_track \<Rightarrow> candidate_track \<Rightarrow> rat" where
  "title_cost u local candidate =
     (if gt_title local \<noteq> [] then text_distance u (gt_title local) (ct_title candidate) else 1)"

definition position_known :: "grouping_track \<Rightarrow> candidate_track \<Rightarrow> bool" where
  "position_known local candidate \<longleftrightarrow> 0 < gt_track_number local \<and> 0 < ct_position candidate"

definition position_matches :: "grouping_track \<Rightarrow> candidate_track \<Rightarrow> bool" where
  "position_matches local candidate \<longleftrightarrow>
     position_known local candidate
     \<and> (gt_track_number local = ct_position candidate \<or> gt_track_number local = ct_absolute_position candidate)"

definition duration_cost :: "grouping_track \<Rightarrow> candidate_track \<Rightarrow> rat" where
  "duration_cost local candidate =
     (case duration_difference local candidate of
        None \<Rightarrow> 25 / 100 | Some d \<Rightarrow> min 1 (d / DURATION_HARD_LIMIT_SECONDS))"

definition position_cost :: "grouping_track \<Rightarrow> candidate_track \<Rightarrow> rat" where
  "position_cost local candidate =
     (if \<not> position_known local candidate then 25 / 100
      else if position_matches local candidate then 0 else 1)"

definition weighted_cost :: "unidb \<Rightarrow> grouping_track \<Rightarrow> candidate_track \<Rightarrow> rat" where
  "weighted_cost u local candidate =
     60 / 100 * title_cost u local candidate + 25 / 100 * duration_cost local candidate
     + 10 / 100 * position_cost local candidate
     + 5 / 100 * (if gt_disc_number local = ct_disc_number candidate then 0 else 5 / 10)"

definition descriptive_pair :: "unidb \<Rightarrow> grouping_track \<Rightarrow> candidate_track \<Rightarrow> match_pair" where
  "descriptive_pair u local candidate =
     (let difference = duration_difference local candidate;
          disc_matches = (gt_disc_number local = ct_disc_number candidate);
          exact_title = (gt_title local \<noteq> [] \<and> fold_value u (gt_title local) = fold_value u (ct_title candidate));
          close = (case difference of None \<Rightarrow> False | Some d \<Rightarrow> d \<le> DURATION_GRACE_SECONDS);
          in_place = (position_matches local candidate \<and> disc_matches);
          kinds = (if exact_title then [lit ''normalized_title''] else [])
                  @ (if close then [lit ''compatible_duration''] else [])
                  @ (if in_place then [lit ''compatible_position''] else []);
          cost = weighted_cost u local candidate;
          sufficient = (exact_title \<and> close \<or> exact_title \<and> in_place
                        \<or> cost \<le> PAIR_COST_CEILING \<and> title_cost u local candidate \<le> 35 / 100)
      in if (case difference of None \<Rightarrow> False | Some d \<Rightarrow> DURATION_HARD_LIMIT_SECONDS < d)
         then \<lparr>mp_cost = 2, mp_hard_conflict = True, mp_kinds = [lit ''duration_conflict'']\<rparr>
         else \<lparr>mp_cost = (if sufficient then cost else max cost (75 / 100)), mp_hard_conflict = False, mp_kinds = kinds\<rparr>)"

definition at_position :: "grouping_track \<Rightarrow> candidate_track \<Rightarrow> bool" where
  "at_position local candidate \<longleftrightarrow>
     0 < gt_track_number local \<and> gt_disc_number local = ct_disc_number candidate
     \<and> (gt_track_number local = ct_position candidate \<or> gt_track_number local = ct_absolute_position candidate)"

definition track_pair ::
  "unidb \<Rightarrow> grouping_track \<Rightarrow> candidate_track \<Rightarrow> nat \<Rightarrow> nat \<Rightarrow> match_pair" where
  "track_pair u local candidate recording_occurrences recording_position_occurrences =
     (let both_tracks = (is_set (gt_release_track_mbid local) \<and> is_set (ct_release_track_mbid candidate));
          both_recordings = (is_set (gt_recording_mbid local) \<and> is_set (ct_recording_mbid candidate));
          identity_kinds = (if both_tracks then [lit ''release_track_mbid''] else [])
                           @ (if both_recordings then [lit ''recording_mbid''] else [])
      in if both_tracks \<and> gt_release_track_mbid local \<noteq> ct_release_track_mbid candidate
         then \<lparr>mp_cost = 2, mp_hard_conflict = True, mp_kinds = [lit ''release_track_mbid_conflict'']\<rparr>
         else if both_recordings \<and> gt_recording_mbid local \<noteq> ct_recording_mbid candidate
         then \<lparr>mp_cost = 2, mp_hard_conflict = True, mp_kinds = [lit ''recording_mbid_conflict'']\<rparr>
         else if identity_kinds \<noteq> []
         then (if both_recordings \<and> \<not> both_tracks \<and> 1 < recording_occurrences
               then (if at_position local candidate \<and> recording_position_occurrences = 1
                     then \<lparr>mp_cost = 0, mp_hard_conflict = False,
                           mp_kinds = identity_kinds @ [lit ''compatible_position'']\<rparr>
                     else \<lparr>mp_cost = 75 / 100, mp_hard_conflict = False,
                           mp_kinds = [lit ''ambiguous_release_track_identity'']\<rparr>)
               else \<lparr>mp_cost = 0, mp_hard_conflict = False, mp_kinds = identity_kinds\<rparr>)
         else descriptive_pair u local candidate)"

definition album_metadata_class :: "unidb \<Rightarrow> pystr \<Rightarrow> pystr \<Rightarrow> evidence_class" where
  "album_metadata_class u local candidate =
     (if py_strip u local = [] then Unknown
      else if text_distance u local candidate \<le> 20 / 100 then Supported else Contradictory)"

section \<open>The assignment of the files to the tracks\<close>

definition recording_count :: "candidate_track list \<Rightarrow> pystr option \<Rightarrow> nat" where
  "recording_count tracks mbid = count_list (filter is_set (map ct_recording_mbid tracks)) mbid"

definition pair_at :: "unidb \<Rightarrow> grouping_track list \<Rightarrow> candidate_track list \<Rightarrow> nat \<Rightarrow> nat \<Rightarrow> match_pair" where
  "pair_at u locals tracks r c =
     (let local = locals ! r; candidate = tracks ! c
      in track_pair u local candidate (recording_count tracks (ct_recording_mbid candidate))
           (recording_count (filter (at_position local) tracks) (ct_recording_mbid candidate)))"

definition pair_costs :: "unidb \<Rightarrow> grouping_track list \<Rightarrow> candidate_track list \<Rightarrow> int list list" where
  "pair_costs u locals tracks =
     (let n = length locals; m = length tracks
      in map (\<lambda>r. map (\<lambda>c.
             if n \<le> r then 0
             else if c < m then \<lfloor>mp_cost (pair_at u locals tracks r c) * 1000000\<rfloor>
             else if c = m + r then 650000 else 2000000) [0..<n + m]) [0..<n + m])"

text \<open>The track to which an assignment gives a file, if the pair is good enough.\<close>

definition supporting_track ::
  "unidb \<Rightarrow> grouping_track list \<Rightarrow> candidate_track list \<Rightarrow> nat list \<Rightarrow> nat \<Rightarrow> nat option" where
  "supporting_track u locals tracks assignment r =
     (let c = assignment ! r
      in if c < length tracks \<and> mp_cost (pair_at u locals tracks r c) < 65 / 100 then Some c else None)"

definition track_fields :: "candidate_track option \<Rightarrow> track_evidence \<Rightarrow> track_evidence" where
  "track_fields t e =
     e\<lparr>te_candidate_track_title := map_option ct_title t, te_candidate_disc_number := map_option ct_disc_number t,
       te_candidate_track_position := map_option ct_position t,
       te_recording_mbid := Option.bind t ct_recording_mbid,
       te_release_track_mbid := Option.bind t ct_release_track_mbid\<rparr>"

definition plain_evidence :: "pystr \<Rightarrow> evidence_class \<Rightarrow> pystr list \<Rightarrow> track_evidence" where
  "plain_evidence i c kinds =
     \<lparr>te_local_track_id = i, te_classification = c, te_evidence_kinds = kinds, te_candidate_track_title = None,
      te_candidate_disc_number = None, te_candidate_track_position = None, te_recording_mbid = None,
      te_release_track_mbid = None\<rparr>"

definition is_comparable :: "unidb \<Rightarrow> grouping_track \<Rightarrow> bool" where
  "is_comparable u local \<longleftrightarrow>
     is_set (gt_recording_mbid local) \<or> py_strip u (gt_title local) \<noteq> []
     \<or> 0 < gt_track_number local \<or> gt_duration_seconds local \<noteq> None"

definition conflict_kinds ::
  "unidb \<Rightarrow> grouping_track list \<Rightarrow> candidate_track list \<Rightarrow> nat list \<Rightarrow> nat \<Rightarrow> pystr list" where
  "conflict_kinds u locals tracks assignment r =
     (let local = locals ! r; column = assignment ! r;
          recordings = filter is_set (map ct_recording_mbid tracks);
          release_tracks = filter is_set (map ct_release_track_mbid tracks);
          recording_conflict = (is_set (gt_recording_mbid local) \<and> recordings \<noteq> []
                                \<and> gt_recording_mbid local \<notin> set recordings);
          release_track_conflict = (is_set (gt_release_track_mbid local) \<and> release_tracks \<noteq> []
                                    \<and> gt_release_track_mbid local \<notin> set release_tracks);
          kinds = (if release_track_conflict then [lit ''release_track_mbid_conflict''] else [])
                  @ (if recording_conflict then [lit ''recording_mbid_conflict''] else [])
      in if kinds \<noteq> [] then kinds
         else case List.find (\<lambda>p. List.member (mp_kinds p) (lit ''ambiguous_release_track_identity''))
                     (map (pair_at u locals tracks r) [0..<length tracks]) of
                Some p \<Rightarrow> mp_kinds p
              | None \<Rightarrow> if column < length tracks \<and> mp_hard_conflict (pair_at u locals tracks r column)
                        then mp_kinds (pair_at u locals tracks r column) else [])"

text \<open>The only track, if any, that a file that found no place could be.\<close>

definition proposed_track :: "unidb \<Rightarrow> grouping_track \<Rightarrow> candidate_track list \<Rightarrow> candidate_track option" where
  "proposed_track u local tracks =
     (case filter (\<lambda>t. let kinds = mp_kinds (descriptive_pair u local t)
                       in is_set (gt_release_track_mbid local) \<and> is_set (ct_release_track_mbid t)
                            \<and> gt_release_track_mbid local = ct_release_track_mbid t
                          \<or> List.member kinds (lit ''normalized_title'')
                            \<and> (List.member kinds (lit ''compatible_position'')
                               \<or> List.member kinds (lit ''compatible_duration''))) tracks of
        [t] \<Rightarrow> Some t
      | _ \<Rightarrow> None)"

definition evidence_at ::
  "unidb \<Rightarrow> grouping_track list \<Rightarrow> candidate_track list \<Rightarrow> nat list \<Rightarrow> nat \<Rightarrow> track_evidence" where
  "evidence_at u locals tracks assignment r =
     (let local = locals ! r
      in case supporting_track u locals tracks assignment r of
           Some c \<Rightarrow> track_fields (Some (tracks ! c))
                       (plain_evidence (gt_local_track_id local) Supported (mp_kinds (pair_at u locals tracks r c)))
         | None \<Rightarrow>
             (let comparable = is_comparable u local; kinds = conflict_kinds u locals tracks assignment r
              in track_fields (proposed_track u local tracks)
                   (plain_evidence (gt_local_track_id local) (if comparable then Contradictory else Unknown)
                      (if kinds \<noteq> [] then kinds
                       else if comparable then [lit ''no_acceptable_candidate_track''] else [lit ''incomparable'']))))"

section \<open>One candidate\<close>

definition first_text :: "unidb \<Rightarrow> pystr list \<Rightarrow> pystr" where
  "first_text u texts = (case List.find (\<lambda>t. py_strip u t \<noteq> []) texts of None \<Rightarrow> [] | Some t \<Rightarrow> t)"

definition exact_release_track_proof ::
  "grouping_track list \<Rightarrow> album_candidate \<Rightarrow> track_evidence list \<Rightarrow> bool" where
  "exact_release_track_proof locals candidate evidence \<longleftrightarrow>
     is_set (ac_release_mbid candidate) \<and> locals \<noteq> [] \<and> list_all (\<lambda>t. is_set (gt_release_track_mbid t)) locals
     \<and> length (remdups (map gt_release_track_mbid locals)) = length locals \<and> length evidence = length locals
     \<and> list_all (\<lambda>e. te_classification e = Supported
                       \<and> List.member (te_evidence_kinds e) (lit ''release_track_mbid'')) evidence"

definition candidate_distance :: "unidb \<Rightarrow> rat list \<Rightarrow> pystr \<Rightarrow> pystr \<Rightarrow> album_candidate \<Rightarrow> rat" where
  "candidate_distance u costs title artist candidate =
     65 / 100 * (if costs \<noteq> [] then sum_list costs / of_nat (length costs) else 1)
     + 20 / 100 * (if title \<noteq> [] then text_distance u title (ac_album_title candidate) else 25 / 100)
     + 15 / 100 * (if artist \<noteq> [] then text_distance u artist (ac_album_artist_name candidate) else 25 / 100)"

definition class_count :: "evidence_class \<Rightarrow> track_evidence list \<Rightarrow> nat" where
  "class_count c evidence = length (filter (\<lambda>e. te_classification e = c) evidence)"

definition evidence_reason ::
  "unidb \<Rightarrow> grouping_track list \<Rightarrow> album_candidate \<Rightarrow> track_evidence list
     \<Rightarrow> evidence_class \<Rightarrow> evidence_class \<Rightarrow> rat \<Rightarrow> pystr" where
  "evidence_reason u locals candidate evidence title_class artist_class distance =
     (let supported = class_count Supported evidence;
          unknown = class_count Unknown evidence;
          comparable = length evidence - unknown;
          unknown_limit = (if length locals \<le> ORDINARY_ALBUM_MAX_FILES then ORDINARY_UNKNOWN_LIMIT
                           else LARGE_UNKNOWN_LIMIT);
          secondary = map (py_casefold u) (ac_secondary_types candidate);
          needs_confirmation = (List.member secondary (lit ''live'')
                                \<or> List.member secondary (lit ''compilation'') \<and> \<not> list_ex gt_is_compilation locals)
      in if class_count Contradictory evidence \<noteq> 0 \<or> title_class = Contradictory \<or> artist_class = Contradictory
         then lit ''CONFLICTING_TRACK_EVIDENCE''
         else if supported = 0 then lit ''INSUFFICIENT_METADATA''
         else if unknown_limit < unknown then lit ''UNKNOWN_EXTRAS_EXCEED_LIMIT''
         else if needs_confirmation \<and> \<not> exact_release_track_proof locals candidate evidence
         then lit ''RELEASE_TYPE_REQUIRES_CONFIRMATION''
         else if comparable = 0 \<or> supported \<noteq> comparable then lit ''INSUFFICIENT_METADATA''
         else if ALBUM_DISTANCE_CEILING < distance then lit ''INSUFFICIENT_METADATA''
         else lit ''SUPPORTED'')"

definition unmatched_text :: "candidate_track \<Rightarrow> pystr" where
  "unmatched_text t =
     py_str_int (ct_disc_number t) @ lit '':'' @ py_str_int (ct_position t) @ lit '':'' @ ct_title t"

definition supported_rows ::
  "unidb \<Rightarrow> grouping_track list \<Rightarrow> candidate_track list \<Rightarrow> nat list \<Rightarrow> (nat \<times> nat) list" where
  "supported_rows u locals tracks assignment =
     concat (map (\<lambda>r. case supporting_track u locals tracks assignment r of None \<Rightarrow> [] | Some c \<Rightarrow> [(r, c)])
               [0..<length locals])"

definition evidence_with :: "unidb \<Rightarrow> grouping_track list \<Rightarrow> album_candidate \<Rightarrow> nat list \<Rightarrow> candidate_evidence" where
  "evidence_with u locals candidate assignment =
     (let tracks = ac_tracks candidate;
          evidence = map (evidence_at u locals tracks assignment) [0..<length locals];
          matched = supported_rows u locals tracks assignment;
          title = first_text u (map gt_album_title locals);
          artist = first_text u (map gt_album_artist_name locals);
          title_class = album_metadata_class u title (ac_album_title candidate);
          artist_class = album_metadata_class u artist (ac_album_artist_name candidate);
          distance = candidate_distance u (map (\<lambda>(r, c). mp_cost (pair_at u locals tracks r c)) matched)
                       title artist candidate
      in \<lparr>ce_release_group_mbid = ac_release_group_mbid candidate, ce_release_mbid = ac_release_mbid candidate,
          ce_album_title = ac_album_title candidate, ce_album_artist_name = ac_album_artist_name candidate,
          ce_artist_mbid = ac_artist_mbid candidate, ce_release_type = ac_release_type candidate,
          ce_release_date = ac_release_date candidate, ce_local_album_title = title,
          ce_local_album_artist_name = artist, ce_album_title_classification = title_class,
          ce_album_artist_classification = artist_class, ce_track_evidence = evidence,
          ce_unmatched_expected_tracks =
            map (\<lambda>c. unmatched_text (tracks ! c))
              (filter (\<lambda>c. c \<notin> set (map snd matched)) [0..<length tracks]),
          ce_score = max 0 (1 - distance), ce_margin = 0,
          ce_reason_code = evidence_reason u locals candidate evidence title_class artist_class distance,
          ce_matcher_version = MATCHER_VERSION\<rparr>)"

definition evaluate_candidate ::
  "unidb \<Rightarrow> grouping_track list \<Rightarrow> album_candidate \<Rightarrow> candidate_evidence option" where
  "evaluate_candidate u locals candidate =
     map_option (evidence_with u locals candidate) (hungarian_min (pair_costs u locals (ac_tracks candidate)))"

section \<open>The decision\<close>

fun evaluate_candidates :: "unidb \<Rightarrow> grouping_track list \<Rightarrow> album_candidate list \<Rightarrow> candidate_evidence list option" where
  "evaluate_candidates u locals [] = Some []"
| "evaluate_candidates u locals (c # cs) =
     Option.bind (evaluate_candidate u locals c) (\<lambda>e. map_option (Cons e) (evaluate_candidates u locals cs))"

definition text_or_empty :: "pystr option \<Rightarrow> pystr" where
  "text_or_empty t = (case t of None \<Rightarrow> [] | Some s \<Rightarrow> s)"

definition decision_key :: "candidate_evidence \<Rightarrow> rat \<times> pystr \<times> pystr" where
  "decision_key e = (- ce_score e, ce_release_group_mbid e, text_or_empty (ce_release_mbid e))"

definition eligible_evidence :: "candidate_evidence list \<Rightarrow> (nat \<times> candidate_evidence) list" where
  "eligible_evidence evidence =
     sort_key (\<lambda>(i, e). decision_key e)
       (filter (\<lambda>(i, e). ce_reason_code e = lit ''SUPPORTED'') (enumerate 0 evidence))"

definition refusal :: "candidate_evidence list \<Rightarrow> identification_outcome \<times> pystr" where
  "refusal evidence =
     (let reasons = map ce_reason_code evidence
      in if List.member reasons (lit ''CONFLICTING_TRACK_EVIDENCE'')
         then (ContradictoryOutcome, lit ''CONFLICTING_TRACK_EVIDENCE'')
         else if List.member reasons (lit ''UNKNOWN_EXTRAS_EXCEED_LIMIT'')
         then (InsufficientEvidence, lit ''UNKNOWN_EXTRAS_EXCEED_LIMIT'')
         else if List.member reasons (lit ''RELEASE_TYPE_REQUIRES_CONFIRMATION'')
         then (InsufficientEvidence, lit ''RELEASE_TYPE_REQUIRES_CONFIRMATION'')
         else (InsufficientEvidence, lit ''INSUFFICIENT_METADATA''))"

definition decide_evidence :: "candidate_evidence list \<Rightarrow> identification_decision" where
  "decide_evidence evidence =
     (if evidence = []
      then \<lparr>id_outcome = NoCandidate, id_reason_code = lit ''NO_EXTERNAL_RESULT'',
            id_selected_candidate_key = None, id_candidates = []\<rparr>
      else case eligible_evidence evidence of
             [] \<Rightarrow> \<lparr>id_outcome = fst (refusal evidence), id_reason_code = snd (refusal evidence),
                    id_selected_candidate_key = None, id_candidates = evidence\<rparr>
           | (i, best) # others \<Rightarrow>
               (let margin = (case others of [] \<Rightarrow> 1 | (j, second) # _ \<Rightarrow> ce_score best - ce_score second);
                    evidence = evidence[i := best\<lparr>ce_margin := margin\<rparr>]
                in if others \<noteq> [] \<and> margin < CANDIDATE_MARGIN_FLOOR
                   then \<lparr>id_outcome = Ambiguous, id_reason_code = lit ''MULTIPLE_LIKELY_RELEASES'',
                         id_selected_candidate_key = None, id_candidates = evidence\<rparr>
                   else \<lparr>id_outcome = Identified, id_reason_code = lit ''SUPPORTED'',
                         id_selected_candidate_key =
                           Some (ce_release_group_mbid best @ lit '':'' @ text_or_empty (ce_release_mbid best)),
                         id_candidates = evidence\<rparr>))"

definition decide ::
  "unidb \<Rightarrow> grouping_track list \<Rightarrow> album_candidate list \<Rightarrow> identification_decision option" where
  "decide u locals candidates =
     map_option decide_evidence (evaluate_candidates u locals (take MAX_CANDIDATES candidates))"

section \<open>A mapping that an administrator asked for\<close>

definition local_position :: "grouping_track \<Rightarrow> int \<times> int" where
  "local_position t = (gt_disc_number t, gt_track_number t)"

definition candidate_position :: "candidate_track \<Rightarrow> int \<times> int" where
  "candidate_position t = (ct_disc_number t, ct_position t)"

definition positions_usable :: "(int \<times> int) list \<Rightarrow> bool" where
  "positions_usable ps \<longleftrightarrow> list_all (\<lambda>(disc, n). 1 \<le> disc \<and> 1 \<le> n) ps \<and> distinct ps"

definition durations_agree :: "grouping_track \<times> candidate_track \<Rightarrow> bool" where
  "durations_agree m \<longleftrightarrow>
     (case duration_difference (fst m) (snd m) of None \<Rightarrow> False | Some d \<Rightarrow> d \<le> DURATION_GRACE_SECONDS)"

text \<open>
  The files and tracks paired by disc and number, or, for files that claim to be of one disc, by
  the absolute number; \<open>None\<close> when neither applies. Both positions are without repetitions, so
  a dictionary lookup is the first that is found.
\<close>

definition exact_mapping ::
  "grouping_track list \<Rightarrow> candidate_track list \<Rightarrow> (pystr \<times> (grouping_track \<times> candidate_track) list) option" where
  "exact_mapping locals tracks =
     (let expected = map int [1..<Suc (length locals)]
      in if set (map local_position locals) = set (map candidate_position tracks)
         then Some (lit ''administrator_exact_release_position_duration'',
                    concat (map (\<lambda>l. map (Pair l) (filter (\<lambda>t. candidate_position t = local_position l) tracks)) locals))
         else if list_ex (\<lambda>t. gt_disc_number t \<noteq> 1) locals
                 \<or> set (map gt_track_number locals) \<noteq> set expected
                 \<or> set (map ct_absolute_position tracks) \<noteq> set expected
         then None
         else Some (lit ''administrator_exact_release_absolute_position_duration'',
                    concat (map (\<lambda>p. concat (map (\<lambda>l. map (Pair l) (filter (\<lambda>t. ct_absolute_position t = p) tracks))
                                             (filter (\<lambda>l. gt_track_number l = p) locals))) expected)))"

fun update_first :: "('a \<Rightarrow> bool) \<Rightarrow> ('a \<Rightarrow> 'a) \<Rightarrow> 'a list \<Rightarrow> 'a list" where
  "update_first p f [] = []"
| "update_first p f (x # xs) = (if p x then f x # xs else x # update_first p f xs)"

text \<open>\<open>evidence_by_id\<close> holds the last evidence for an identifier.\<close>

definition map_evidence ::
  "pystr \<Rightarrow> grouping_track \<times> candidate_track \<Rightarrow> track_evidence list \<Rightarrow> track_evidence list" where
  "map_evidence kind m items =
     rev (update_first (\<lambda>e. te_local_track_id e = gt_local_track_id (fst m))
            (\<lambda>e. track_fields (Some (snd m))
                   (e\<lparr>te_evidence_kinds := py_dedup (te_evidence_kinds e @ [kind])\<rparr>))
            (rev items))"

definition complete_exact_mapping ::
  "grouping_track list \<Rightarrow> album_candidate \<Rightarrow> candidate_evidence \<Rightarrow> candidate_evidence option" where
  "complete_exact_mapping locals candidate evidence =
     (let tracks = ac_tracks candidate
      in if locals = [] \<or> length locals \<noteq> length tracks
            \<or> \<not> positions_usable (map local_position locals)
            \<or> \<not> positions_usable (map candidate_position tracks)
            \<or> \<not> list_all (\<lambda>t. is_set (ct_recording_mbid t) \<and> is_set (ct_release_track_mbid t)) tracks
         then None
         else case exact_mapping locals tracks of
                None \<Rightarrow> None
              | Some (kind, mapping) \<Rightarrow>
                  if set (map te_local_track_id (ce_track_evidence evidence)) \<noteq> set (map gt_local_track_id locals)
                     \<or> \<not> list_all durations_agree mapping
                  then None
                  else Some (evidence\<lparr>ce_track_evidence := fold (map_evidence kind) mapping (ce_track_evidence evidence),
                                      ce_unmatched_expected_tracks := []\<rparr>))"

section \<open>Costs and assignments\<close>

lemma text_distance_bounds: "0 \<le> text_distance u a b" "text_distance u a b \<le> 1"
  using sequence_ratio_bounds [of "fold_value u a" "fold_value u b"]
  by (simp_all add: text_distance_def Let_def)

lemma duration_difference_nonneg: "duration_difference l t = Some d \<Longrightarrow> 0 \<le> d"
  by (auto simp: duration_difference_def split: option.splits)

lemma weighted_cost_bounds: "0 \<le> weighted_cost u l t" "weighted_cost u l t \<le> 1"
proof -
  have "0 \<le> title_cost u l t" "title_cost u l t \<le> 1"
    using text_distance_bounds by (simp_all add: title_cost_def)
  moreover have "0 \<le> duration_cost l t" "duration_cost l t \<le> 1"
    using duration_difference_nonneg [of l t]
    by (simp_all add: duration_cost_def DURATION_HARD_LIMIT_SECONDS_def split: option.split)
  moreover have "0 \<le> position_cost l t" "position_cost l t \<le> 1" by (simp_all add: position_cost_def)
  ultimately show "0 \<le> weighted_cost u l t" "weighted_cost u l t \<le> 1"
    unfolding weighted_cost_def by (auto split: if_split)
qed

lemma descriptive_cost: "0 \<le> mp_cost (descriptive_pair u l t) \<and> mp_cost (descriptive_pair u l t) \<le> 2"
  using weighted_cost_bounds [of u l t] by (simp add: descriptive_pair_def Let_def max_def)

lemma pair_cost: "0 \<le> mp_cost (pair_at u locals tracks r c) \<and> mp_cost (pair_at u locals tracks r c) \<le> 2"
  using descriptive_cost by (auto simp: pair_at_def track_pair_def Let_def)

lemma length_pair_costs: "length (pair_costs u locals tracks) = length locals + length tracks"
  by (simp add: pair_costs_def Let_def)

lemma pair_costs_square: "square_matrix (pair_costs u locals tracks) 2000000"
proof -
  have "0 \<le> \<lfloor>mp_cost (pair_at u locals tracks r c) * 1000000\<rfloor>
      \<and> \<lfloor>mp_cost (pair_at u locals tracks r c) * 1000000\<rfloor> \<le> 2000000" for r c
    using pair_cost [of u locals tracks r c] by (simp add: floor_le_iff)
  then show ?thesis by (auto simp: square_matrix_def pair_costs_def list_all_iff Let_def)
qed

definition small_enough :: "grouping_track list \<Rightarrow> album_candidate \<Rightarrow> bool" where
  "small_enough locals candidate \<longleftrightarrow>
     (int (length locals + length (ac_tracks candidate)) + 1) * 2000000 < infinity"

lemma pair_costs_solved:
  assumes "small_enough locals c"
  shows "\<exists>a. hungarian_min (pair_costs u locals (ac_tracks c)) = Some a
    \<and> is_assignment (length locals + length (ac_tracks c)) a"
  using hungarian_min_correct [OF pair_costs_square, of u locals "ac_tracks c"] assms
  by (auto simp: small_enough_def length_pair_costs)

section \<open>What supported evidence means\<close>

text \<open>
  No identifier contradicts the pair, and the durations are not too far apart unless an
  identifier identifies the two.
\<close>

definition no_conflict :: "grouping_track \<Rightarrow> candidate_track \<Rightarrow> bool" where
  "no_conflict local t \<longleftrightarrow>
     (is_set (gt_release_track_mbid local) \<and> is_set (ct_release_track_mbid t) \<longrightarrow>
        gt_release_track_mbid local = ct_release_track_mbid t)
     \<and> (is_set (gt_recording_mbid local) \<and> is_set (ct_recording_mbid t) \<longrightarrow>
        gt_recording_mbid local = ct_recording_mbid t)
     \<and> (is_set (gt_release_track_mbid local) \<and> is_set (ct_release_track_mbid t)
        \<or> is_set (gt_recording_mbid local) \<and> is_set (ct_recording_mbid t)
        \<or> (\<forall>d. duration_difference local t = Some d \<longrightarrow> d \<le> DURATION_HARD_LIMIT_SECONDS))"

lemma descriptive_no_conflict:
  "mp_cost (descriptive_pair u l t) < 65 / 100 \<Longrightarrow> duration_difference l t = Some d \<Longrightarrow> d \<le> DURATION_HARD_LIMIT_SECONDS"
  by (simp add: descriptive_pair_def Let_def split: if_splits)

lemma track_pair_no_conflict: "mp_cost (track_pair u l t o1 o2) < 65 / 100 \<Longrightarrow> no_conflict l t"
  using descriptive_no_conflict [of u l t]
  by (auto simp: track_pair_def no_conflict_def Let_def split: if_splits)

definition unknown_limit :: "grouping_track list \<Rightarrow> nat" where
  "unknown_limit locals =
     (if length locals \<le> ORDINARY_ALBUM_MAX_FILES then ORDINARY_UNKNOWN_LIMIT else LARGE_UNKNOWN_LIMIT)"

text \<open>
  A release fits: the files that say anything about themselves have tracks of their own, without
  a conflict; at least one has; at most one file (two of a large album) says nothing.
\<close>

definition release_fits :: "unidb \<Rightarrow> grouping_track list \<Rightarrow> album_candidate \<Rightarrow> (nat \<Rightarrow> nat option) \<Rightarrow> bool" where
  "release_fits u locals c f \<longleftrightarrow>
     (\<forall>r<length locals. case f r of
         None \<Rightarrow> \<not> is_comparable u (locals ! r)
       | Some k \<Rightarrow> k < length (ac_tracks c) \<and> no_conflict (locals ! r) (ac_tracks c ! k))
     \<and> (\<forall>r<length locals. \<forall>s<length locals. f r \<noteq> None \<and> f r = f s \<longrightarrow> r = s)
     \<and> (\<exists>r<length locals. f r \<noteq> None)
     \<and> length (filter (\<lambda>r. f r = None) [0..<length locals]) \<le> unknown_limit locals"

lemma supporting_track_ok:
  assumes "supporting_track u locals tracks a r = Some k"
  shows "k = a ! r \<and> k < length tracks \<and> no_conflict (locals ! r) (tracks ! k)"
proof -
  have "k = a ! r" "k < length tracks" "mp_cost (pair_at u locals tracks r k) < 65 / 100"
    using assms by (auto simp: supporting_track_def Let_def split: if_splits)
  then show ?thesis using track_pair_no_conflict by (auto simp: pair_at_def Let_def)
qed

lemma evidence_class_at:
  "te_classification (evidence_at u locals tracks a r) =
     (case supporting_track u locals tracks a r of
        Some k \<Rightarrow> Supported | None \<Rightarrow> if is_comparable u (locals ! r) then Contradictory else Unknown)"
  by (auto simp: evidence_at_def track_fields_def plain_evidence_def Let_def split: option.splits)

lemma supported_reason:
  assumes "evidence_reason u locals c evidence tc ac distance = lit ''SUPPORTED''"
  shows "class_count Contradictory evidence = 0" "tc \<noteq> Contradictory" "ac \<noteq> Contradictory"
    "class_count Supported evidence \<noteq> 0" "class_count Unknown evidence \<le> unknown_limit locals"
    "distance \<le> ALBUM_DISTANCE_CEILING"
  using assms by (auto simp: evidence_reason_def unknown_limit_def Let_def lit.simps split: if_splits)

lemma supported_release_fits:
  assumes a: "is_assignment (length locals + length (ac_tracks c)) a"
    and sup: "ce_reason_code (evidence_with u locals c a) = lit ''SUPPORTED''"
  shows "release_fits u locals c (supporting_track u locals (ac_tracks c) a)"
    and "65 / 100 \<le> ce_score (evidence_with u locals c a)"
    and "ce_album_title_classification (evidence_with u locals c a) \<noteq> Contradictory"
    and "ce_album_artist_classification (evidence_with u locals c a) \<noteq> Contradictory"
proof -
  let ?f = "supporting_track u locals (ac_tracks c) a" and ?n = "length locals"
  let ?ev = "map (evidence_at u locals (ac_tracks c) a) [0..<?n]"
  note R = supported_reason [OF sup [unfolded evidence_with_def Let_def, simplified]]
  have no_contra: "te_classification (evidence_at u locals (ac_tracks c) a r) \<noteq> Contradictory" if "r < ?n" for r
    using R(1) that by (auto simp: class_count_def filter_empty_conv)
  have unknown: "(?f r = None) = (te_classification (evidence_at u locals (ac_tracks c) a r) = Unknown)"
    if "r < ?n" for r
    using no_contra [OF that] by (auto simp: evidence_class_at split: option.splits if_splits)
  have "\<exists>r<?n. te_classification (evidence_at u locals (ac_tracks c) a r) = Supported"
    using R(4) by (auto simp: class_count_def filter_empty_conv)
  then have "\<exists>r<?n. ?f r \<noteq> None" by (force simp: evidence_class_at split: option.splits if_splits)
  moreover have "filter (\<lambda>r. ?f r = None) [0..<?n]
      = filter (\<lambda>r. te_classification (evidence_at u locals (ac_tracks c) a r) = Unknown) [0..<?n]"
    using unknown by (intro filter_cong refl) simp
  then have "length (filter (\<lambda>r. ?f r = None) [0..<?n]) \<le> unknown_limit locals"
    using R(5) by (simp add: class_count_def filter_map o_def)
  moreover have "case ?f r of None \<Rightarrow> \<not> is_comparable u (locals ! r)
      | Some k \<Rightarrow> k < length (ac_tracks c) \<and> no_conflict (locals ! r) (ac_tracks c ! k)" if "r < ?n" for r
    using no_contra [OF that] supporting_track_ok [of u locals "ac_tracks c" a r]
    by (auto simp: evidence_class_at split: option.splits if_splits)
  moreover have "r = s" if "r < ?n" "s < ?n" and same: "?f r \<noteq> None" "?f r = ?f s" for r s
  proof -
    obtain k where k: "?f r = Some k" using same(1) by blast
    with same(2) have "?f s = Some k" by simp
    with k have "a ! r = a ! s" using supporting_track_ok by metis
    then show ?thesis using a that by (simp add: is_assignment_def nth_eq_iff_index_eq)
  qed
  ultimately show "release_fits u locals c ?f" unfolding release_fits_def by blast
  show "65 / 100 \<le> ce_score (evidence_with u locals c a)"
    using R(6) by (simp add: evidence_with_def Let_def ALBUM_DISTANCE_CEILING_def)
  show "ce_album_title_classification (evidence_with u locals c a) \<noteq> Contradictory"
    "ce_album_artist_classification (evidence_with u locals c a) \<noteq> Contradictory"
    using R(2,3) by (simp_all add: evidence_with_def Let_def)
qed

section \<open>The decision\<close>

lemma in_eligible:
  "(i, e) \<in> set (eligible_evidence ev) \<longleftrightarrow> i < length ev \<and> e = ev ! i \<and> ce_reason_code e = lit ''SUPPORTED''"
  by (auto simp: eligible_evidence_def in_set_enumerate_eq)

lemma eligible_sorted: "sorted (map (\<lambda>(i, e). decision_key e) (eligible_evidence ev))"
  unfolding eligible_evidence_def by (rule sorted_sort_key)

lemma eligible_best:
  assumes el: "eligible_evidence ev = (i, best) # (k, second) # others"
    and j: "j < length ev" "j \<noteq> i" "ce_reason_code (ev ! j) = lit ''SUPPORTED''"
  shows "ce_score (ev ! j) \<le> ce_score second"
proof -
  have "(j, ev ! j) \<in> set (eligible_evidence ev)" using j by (simp add: in_eligible)
  then have "(j, ev ! j) \<in> set ((k, second) # others)" using el j(2) by auto
  then have "decision_key second \<le> decision_key (ev ! j)"
    using eligible_sorted [of ev] unfolding el by auto
  then show ?thesis by (auto simp: decision_key_def less_eq_prod_simp)
qed

text \<open>A decision for the candidate \<open>i\<close>: it is supported, and every other supported one is well behind.\<close>

definition clear_winner :: "candidate_evidence list \<Rightarrow> nat \<Rightarrow> bool" where
  "clear_winner ev i \<longleftrightarrow>
     i < length ev \<and> ce_reason_code (ev ! i) = lit ''SUPPORTED''
     \<and> (\<forall>j<length ev. j \<noteq> i \<and> ce_reason_code (ev ! j) = lit ''SUPPORTED'' \<longrightarrow>
          ce_score (ev ! j) + CANDIDATE_MARGIN_FLOOR \<le> ce_score (ev ! i))"

definition candidate_key :: "pystr \<Rightarrow> pystr option \<Rightarrow> pystr" where
  "candidate_key rg release = rg @ lit '':'' @ text_or_empty release"

lemma decided_winner:
  assumes "id_outcome (decide_evidence ev) = Identified"
  shows "\<exists>i. clear_winner ev i \<and> id_selected_candidate_key (decide_evidence ev)
      = Some (candidate_key (ce_release_group_mbid (ev ! i)) (ce_release_mbid (ev ! i)))"
proof -
  have "eligible_evidence ev \<noteq> []"
    using assms by (auto simp: decide_evidence_def refusal_def Let_def split: if_splits)
  then obtain i best others where el: "eligible_evidence ev = (i, best) # others"
    by (cases "eligible_evidence ev") auto
  have i: "i < length ev" "best = ev ! i" "ce_reason_code best = lit ''SUPPORTED''"
    using in_eligible [of i best ev] by (auto simp: el)
  have "ce_score (ev ! j) + CANDIDATE_MARGIN_FLOOR \<le> ce_score best"
    if j: "j < length ev" "j \<noteq> i" "ce_reason_code (ev ! j) = lit ''SUPPORTED''" for j
  proof -
    have "(j, ev ! j) \<in> set (eligible_evidence ev)" using j by (simp add: in_eligible)
    then obtain k second rest where o: "others = (k, second) # rest" using el j(2) by (cases others) auto
    have "CANDIDATE_MARGIN_FLOOR \<le> ce_score best - ce_score second"
      using assms by (auto simp: decide_evidence_def el o Let_def split: if_splits)
    then show ?thesis using eligible_best [OF el [unfolded o] j] by simp
  qed
  then have "clear_winner ev i" using i by (simp add: clear_winner_def)
  moreover have "id_selected_candidate_key (decide_evidence ev)
      = Some (candidate_key (ce_release_group_mbid (ev ! i)) (ce_release_mbid (ev ! i)))"
    using assms i(2) by (auto simp: decide_evidence_def el candidate_key_def Let_def split: if_splits)
  ultimately show ?thesis by blast
qed

lemma evaluate_candidates_solved:
  assumes "list_all (small_enough locals) cs"
  shows "\<exists>as. list_all2 (\<lambda>c a. is_assignment (length locals + length (ac_tracks c)) a) cs as
    \<and> evaluate_candidates u locals cs = Some (map2 (evidence_with u locals) cs as)"
  using assms
proof (induction cs)
  case Nil
  then show ?case by simp
next
  case (Cons c cs)
  then obtain a as where
    "hungarian_min (pair_costs u locals (ac_tracks c)) = Some a"
    "is_assignment (length locals + length (ac_tracks c)) a"
    "list_all2 (\<lambda>c a. is_assignment (length locals + length (ac_tracks c)) a) cs as"
    "evaluate_candidates u locals cs = Some (map2 (evidence_with u locals) cs as)"
    using pair_costs_solved [of locals c u] by auto
  then show ?case by (intro exI [of _ "a # as"]) (simp add: evaluate_candidate_def)
qed

text \<open>What an identification rests on.\<close>

definition identified_as ::
  "unidb \<Rightarrow> grouping_track list \<Rightarrow> album_candidate list \<Rightarrow> candidate_evidence list \<Rightarrow> nat \<Rightarrow> bool" where
  "identified_as u locals cs ev i \<longleftrightarrow>
     length ev = length cs \<and> clear_winner ev i \<and> 65 / 100 \<le> ce_score (ev ! i)
     \<and> ce_album_title_classification (ev ! i) \<noteq> Contradictory
     \<and> ce_album_artist_classification (ev ! i) \<noteq> Contradictory
     \<and> (\<exists>f. release_fits u locals (cs ! i) f)"

lemma identification_correct:
  assumes "list_all (small_enough locals) (take MAX_CANDIDATES candidates)"
  shows "\<exists>d ev. decide u locals candidates = Some d
    \<and> evaluate_candidates u locals (take MAX_CANDIDATES candidates) = Some ev
    \<and> (id_outcome d = Identified \<longrightarrow>
         (\<exists>i. identified_as u locals (take MAX_CANDIDATES candidates) ev i
            \<and> id_selected_candidate_key d = Some (candidate_key (ac_release_group_mbid (candidates ! i))
                                                     (ac_release_mbid (candidates ! i)))))"
proof -
  let ?cs = "take MAX_CANDIDATES candidates"
  obtain as where as: "list_all2 (\<lambda>c a. is_assignment (length locals + length (ac_tracks c)) a) ?cs as"
    and ev: "evaluate_candidates u locals ?cs = Some (map2 (evidence_with u locals) ?cs as)"
    using evaluate_candidates_solved [OF assms] by blast
  let ?ev = "map2 (evidence_with u locals) ?cs as"
  have d: "decide u locals candidates = Some (decide_evidence ?ev)" by (simp add: decide_def ev)
  have "\<exists>i. identified_as u locals ?cs ?ev i
      \<and> id_selected_candidate_key (decide_evidence ?ev)
        = Some (candidate_key (ac_release_group_mbid (candidates ! i)) (ac_release_mbid (candidates ! i)))"
    if w: "id_outcome (decide_evidence ?ev) = Identified"
  proof -
    obtain i where win: "clear_winner ?ev i" and key: "id_selected_candidate_key (decide_evidence ?ev)
        = Some (candidate_key (ce_release_group_mbid (?ev ! i)) (ce_release_mbid (?ev ! i)))"
      using decided_winner [OF w] by blast
    have len: "length as = length ?cs" using as by (rule list_all2_lengthD [symmetric])
    then have i: "i < length ?cs" "i < length as" using win by (simp_all add: clear_winner_def)
    then have at_i: "?ev ! i = evidence_with u locals (?cs ! i) (as ! i)" "?cs ! i = candidates ! i" by simp_all
    have a: "is_assignment (length locals + length (ac_tracks (?cs ! i))) (as ! i)"
      using as i(1) by (rule list_all2_nthD)
    have sup: "ce_reason_code (evidence_with u locals (?cs ! i) (as ! i)) = lit ''SUPPORTED''"
      using win by (simp only: clear_winner_def at_i)
    note F = supported_release_fits [OF a sup]
    have "identified_as u locals ?cs ?ev i"
      unfolding identified_as_def at_i(1) using F win len by auto
    moreover have "ce_release_group_mbid (?ev ! i) = ac_release_group_mbid (candidates ! i)"
      "ce_release_mbid (?ev ! i) = ac_release_mbid (candidates ! i)"
      unfolding at_i(1) at_i(2) by (simp_all add: evidence_with_def Let_def)
    ultimately show ?thesis using key by auto
  qed
  then show ?thesis using d ev by blast
qed

text \<open>
  C32. The engine always comes to a decision. When it identifies the album, the selected candidate
  is one of the first ten: every local file that says anything about itself has a track of its own
  on it with no contradicting identifier (and, without a common identifier, at most 30 seconds of
  difference), at most one file (two of a large album) says nothing, title and artist do not
  contradict, the score is at least 0.65, and every other supported candidate scores at least 0.05
  less.
\<close>

theorem identification_sound:
  assumes "list_all (small_enough locals) (take MAX_CANDIDATES candidates)"
  shows "\<exists>d ev. decide u locals candidates = Some d
    \<and> evaluate_candidates u locals (take MAX_CANDIDATES candidates) = Some ev
    \<and> (id_outcome d = Identified \<longrightarrow>
         (\<exists>i. identified_as u locals (take MAX_CANDIDATES candidates) ev i
            \<and> id_selected_candidate_key d = Some (candidate_key (ac_release_group_mbid (candidates ! i))
                                                     (ac_release_mbid (candidates ! i)))))"
  using assms by (rule identification_correct)

definition example_album :: "grouping_track list" where
  "example_album =
     [(plain_track ''1'' ''d/a'' ''Blue'' ''Ann'' 1 False)\<lparr>gt_title := lit ''One''\<rparr>]"

definition example_release :: "string \<Rightarrow> string \<Rightarrow> album_candidate" where
  "example_release key name =
     \<lparr>ac_release_group_mbid = lit key, ac_release_mbid = None, ac_album_title = lit ''Blue'',
       ac_album_artist_name = lit ''Ann'',
       ac_tracks = [\<lparr>ct_title = lit name, ct_position = 1, ct_disc_number = 1, ct_absolute_position = 1,
                     ct_duration_seconds = None, ct_recording_mbid = None, ct_release_track_mbid = None\<rparr>],
       ac_artist_mbid = None, ac_release_type = None, ac_secondary_types = [], ac_release_date = None\<rparr>"

theorem identification_sound_witness:
  "\<exists>d ev i. decide ascii_db example_album [example_release ''k'' ''two'', example_release ''g'' ''one''] = Some d
    \<and> id_outcome d = Identified
    \<and> identified_as ascii_db example_album [example_release ''k'' ''two'', example_release ''g'' ''one''] ev i
    \<and> id_selected_candidate_key d = Some (lit ''g:'')"
proof -
  let ?cs = "[example_release ''k'' ''two'', example_release ''g'' ''one'']"
  have small: "list_all (small_enough example_album) (take MAX_CANDIDATES ?cs)"
    by (simp add: small_enough_def MAX_CANDIDATES_def example_album_def example_release_def infinity_def)
  have "map_option (\<lambda>d. (id_outcome d, id_selected_candidate_key d)) (decide ascii_db example_album ?cs)
      = Some (Identified, Some (lit ''g:''))"
    by code_simp
  then obtain d where "decide ascii_db example_album ?cs = Some d" "id_outcome d = Identified"
    "id_selected_candidate_key d = Some (lit ''g:'')"
    by auto
  with identification_sound [OF small, of ascii_db] show ?thesis by (auto simp: MAX_CANDIDATES_def)
qed

end
