(* ===== verification/Library_Leases.thy ===== *)
theory Library_Leases
  imports Py_Base "HOL-Library.List_Lexorder"
begin

text \<open>
  \<open>services/native/library_filesystem_coordinator.py\<close>: read and write leases of library roots,
  shared by scans and publishers. The lock of a condition is held only for short stretches, and
  each stretch is one step; the event loop and the threads interleave in any order. A task that
  acquires several leases hands each acquisition to a pool of threads and waits for it; a thread
  that finds the lease taken sleeps until the condition is notified, and keeps its place in the
  pool. \<open>read_sync\<close> waits in a thread of its caller's own.
\<close>

section \<open>One root\<close>

record root_lease =
  rl_readers :: int
  rl_writer_active :: bool
  rl_waiting_writers :: int
  rl_revision :: int

definition new_lease :: root_lease where
  "new_lease = \<lparr>rl_readers = 0, rl_writer_active = False, rl_waiting_writers = 0, rl_revision = 0\<rparr>"

definition read_blocked :: "root_lease \<Rightarrow> bool" where
  "read_blocked l \<longleftrightarrow> rl_writer_active l \<or> rl_waiting_writers l \<noteq> 0"

definition write_blocked :: "root_lease \<Rightarrow> bool" where
  "write_blocked l \<longleftrightarrow> rl_writer_active l \<or> rl_readers l \<noteq> 0"

definition enter_read :: "root_lease \<Rightarrow> root_lease" where
  "enter_read l = l\<lparr>rl_readers := rl_readers l + 1\<rparr>"

definition release_read :: "root_lease \<Rightarrow> root_lease" where
  "release_read l = l\<lparr>rl_readers := rl_readers l - 1\<rparr>"

definition register_write_waiter :: "root_lease \<Rightarrow> root_lease" where
  "register_write_waiter l = l\<lparr>rl_waiting_writers := rl_waiting_writers l + 1\<rparr>"

definition enter_registered_write :: "root_lease \<Rightarrow> root_lease" where
  "enter_registered_write l =
     l\<lparr>rl_writer_active := True, rl_waiting_writers := rl_waiting_writers l - 1\<rparr>"

definition release_write :: "root_lease \<Rightarrow> root_lease" where
  "release_write l = l\<lparr>rl_writer_active := False, rl_revision := rl_revision l + 1\<rparr>"

section \<open>Tasks and threads\<close>

datatype lease_mode = ReadLease | WriteLease

text \<open>
  Where a task is: its acquisition waits for a thread, has one (\<open>True\<close>: it may look at the lease,
  \<open>False\<close>: it sleeps on the condition), or was granted and the task has not resumed yet; the task
  runs its body, or it gives its leases back, the latest first.
\<close>

datatype lease_phase = Queued | InThread bool | Granted | Body | Closing

record lease_task =
  lt_mode :: lease_mode
  lt_pooled :: bool
  lt_cancelled :: bool
  lt_todo :: "pystr list"
  lt_held :: "pystr list"
  lt_phase :: lease_phase

record lease_system =
  ls_pool :: nat
  ls_roots :: "pystr \<Rightarrow> root_lease"
  ls_tasks :: "lease_task list"

definition new_system :: "nat \<Rightarrow> lease_system" where
  "new_system pool = \<lparr>ls_pool = pool, ls_roots = (\<lambda>_. new_lease), ls_tasks = []\<rparr>"

definition blocked :: "lease_mode \<Rightarrow> root_lease \<Rightarrow> bool" where
  "blocked m l = (case m of ReadLease \<Rightarrow> read_blocked l | WriteLease \<Rightarrow> write_blocked l)"

definition enter :: "lease_mode \<Rightarrow> root_lease \<Rightarrow> root_lease" where
  "enter m l = (case m of ReadLease \<Rightarrow> enter_read l | WriteLease \<Rightarrow> enter_registered_write l)"

definition leave :: "lease_mode \<Rightarrow> root_lease \<Rightarrow> root_lease" where
  "leave m l = (case m of ReadLease \<Rightarrow> release_read l | WriteLease \<Rightarrow> release_write l)"

definition notifies :: "lease_mode \<Rightarrow> root_lease \<Rightarrow> bool" where
  "notifies m l \<longleftrightarrow> (case m of ReadLease \<Rightarrow> rl_readers l = 0 | WriteLease \<Rightarrow> True)"

definition ordered_states :: "pystr list \<Rightarrow> pystr list option" where
  "ordered_states root_ids =
     (let ordered = sort (remdups root_ids)
      in if ordered = [] \<or> [] \<in> set ordered then None else Some ordered)"

text \<open>The next turn of the loop over the roots; a writer is registered before its thread starts.\<close>

definition submit_next :: "lease_task \<Rightarrow> (pystr \<Rightarrow> root_lease) \<Rightarrow> lease_task \<times> (pystr \<Rightarrow> root_lease)" where
  "submit_next t roots =
     (case lt_todo t of
        [] \<Rightarrow> (t\<lparr>lt_phase := Body\<rparr>, roots)
      | r # _ \<Rightarrow> (t\<lparr>lt_phase := Queued\<rparr>,
                  if lt_mode t = WriteLease then roots(r := register_write_waiter (roots r)) else roots))"

definition begin_lease :: "lease_mode \<Rightarrow> pystr list \<Rightarrow> lease_system \<Rightarrow> lease_system option" where
  "begin_lease m root_ids s =
     (case ordered_states root_ids of
        None \<Rightarrow> None
      | Some ordered \<Rightarrow>
          (let (t, roots) = submit_next \<lparr>lt_mode = m, lt_pooled = True, lt_cancelled = False, lt_todo = ordered,
                                         lt_held = [], lt_phase = Queued\<rparr> (ls_roots s)
           in Some (s\<lparr>ls_roots := roots, ls_tasks := ls_tasks s @ [t]\<rparr>)))"

definition begin_read_sync :: "pystr \<Rightarrow> lease_system \<Rightarrow> lease_system option" where
  "begin_read_sync r s =
     (if r = [] then None
      else Some (s\<lparr>ls_tasks := ls_tasks s @ [\<lparr>lt_mode = ReadLease, lt_pooled = False, lt_cancelled = False,
                    lt_todo = [r], lt_held = [], lt_phase = InThread True\<rparr>]\<rparr>))"

definition uses_thread :: "lease_task \<Rightarrow> bool" where
  "uses_thread t \<longleftrightarrow> lt_pooled t \<and> (case lt_phase t of InThread _ \<Rightarrow> True | _ \<Rightarrow> False)"

definition may_look :: "lease_system \<Rightarrow> lease_task \<Rightarrow> bool" where
  "may_look s t \<longleftrightarrow>
     (case lt_phase t of
        Queued \<Rightarrow> length (filter uses_thread (ls_tasks s)) < ls_pool s
      | InThread awake \<Rightarrow> awake
      | _ \<Rightarrow> False)"

text \<open>One look of a thread at the lease: it takes it or goes to sleep.\<close>

definition thread_step :: "nat \<Rightarrow> lease_system \<Rightarrow> lease_system option" where
  "thread_step i s =
     (let t = ls_tasks s ! i; r = hd (lt_todo t); l = ls_roots s r
      in if length (ls_tasks s) \<le> i \<or> \<not> may_look s t then None
         else if blocked (lt_mode t) l
         then Some (s\<lparr>ls_tasks := (ls_tasks s)[i := t\<lparr>lt_phase := InThread False\<rparr>]\<rparr>)
         else Some (s\<lparr>ls_roots := (ls_roots s)(r := enter (lt_mode t) l),
                      ls_tasks := (ls_tasks s)[i := t\<lparr>lt_phase := Granted\<rparr>]\<rparr>))"

text \<open>
  The task goes on once its acquisition is granted; a task that was cancelled meanwhile releases
  the lease it has just got, and then the ones before it.
\<close>

definition resume :: "nat \<Rightarrow> lease_system \<Rightarrow> lease_system option" where
  "resume i s =
     (let t = ls_tasks s ! i
      in if length (ls_tasks s) \<le> i \<or> lt_phase t \<noteq> Granted then None
         else let t = t\<lparr>lt_held := hd (lt_todo t) # lt_held t, lt_todo := tl (lt_todo t)\<rparr>;
                  (t, roots) = (if lt_cancelled t then (t\<lparr>lt_phase := Closing\<rparr>, ls_roots s)
                                else submit_next t (ls_roots s))
              in Some (s\<lparr>ls_roots := roots, ls_tasks := (ls_tasks s)[i := t]\<rparr>))"

definition is_waiting :: "lease_task \<Rightarrow> bool" where
  "is_waiting t \<longleftrightarrow> (case lt_phase t of Queued \<Rightarrow> True | InThread _ \<Rightarrow> True | _ \<Rightarrow> False)"

definition cancel_task :: "nat \<Rightarrow> lease_system \<Rightarrow> lease_system option" where
  "cancel_task i s =
     (let t = ls_tasks s ! i
      in if length (ls_tasks s) \<le> i \<or> \<not> lt_pooled t \<or> \<not> (is_waiting t \<or> lt_phase t = Granted) then None
         else Some (s\<lparr>ls_tasks := (ls_tasks s)[i := t\<lparr>lt_cancelled := True\<rparr>]\<rparr>))"

text \<open>The body ends, normally or with an exception.\<close>

definition finish_body :: "nat \<Rightarrow> lease_system \<Rightarrow> lease_system option" where
  "finish_body i s =
     (let t = ls_tasks s ! i
      in if length (ls_tasks s) \<le> i \<or> lt_phase t \<noteq> Body then None
         else Some (s\<lparr>ls_tasks := (ls_tasks s)[i := t\<lparr>lt_phase := Closing\<rparr>]\<rparr>))"

definition wake :: "pystr \<Rightarrow> lease_task \<Rightarrow> lease_task" where
  "wake r t = (if lt_phase t = InThread False \<and> hd (lt_todo t) = r then t\<lparr>lt_phase := InThread True\<rparr> else t)"

definition release_one :: "nat \<Rightarrow> lease_system \<Rightarrow> lease_system option" where
  "release_one i s =
     (let t = ls_tasks s ! i; r = hd (lt_held t); l = leave (lt_mode t) (ls_roots s r);
          tasks = (ls_tasks s)[i := t\<lparr>lt_held := tl (lt_held t)\<rparr>]
      in if length (ls_tasks s) \<le> i \<or> lt_phase t \<noteq> Closing \<or> lt_held t = [] then None
         else Some (s\<lparr>ls_roots := (ls_roots s)(r := l),
                      ls_tasks := (if notifies (lt_mode t) l then map (wake r) tasks else tasks)\<rparr>))"

datatype lease_event =
  Begin lease_mode "pystr list" | BeginReadSync pystr | CancelTask nat
  | ThreadStep nat | Resume nat | FinishBody nat | ReleaseOne nat

definition lease_step :: "lease_event \<Rightarrow> lease_system \<Rightarrow> lease_system option" where
  "lease_step e =
     (case e of
        Begin m root_ids \<Rightarrow> begin_lease m root_ids
      | BeginReadSync r \<Rightarrow> begin_read_sync r
      | CancelTask i \<Rightarrow> cancel_task i
      | ThreadStep i \<Rightarrow> thread_step i
      | Resume i \<Rightarrow> resume i
      | FinishBody i \<Rightarrow> finish_body i
      | ReleaseOne i \<Rightarrow> release_one i)"

fun lease_run :: "lease_event list \<Rightarrow> lease_system \<Rightarrow> lease_system option" where
  "lease_run [] s = Some s"
| "lease_run (e # es) s = Option.bind (lease_step e s) (lease_run es)"

inductive lease_reachable :: "nat \<Rightarrow> lease_system \<Rightarrow> bool" for pool where
  start: "lease_reachable pool (new_system pool)"
| step: "lease_reachable pool s \<Longrightarrow> lease_step e s = Some s' \<Longrightarrow> lease_reachable pool s'"

section \<open>Counting tasks\<close>

definition task_count :: "(lease_task \<Rightarrow> bool) \<Rightarrow> lease_task list \<Rightarrow> int" where
  "task_count p ts = sum_list (map (\<lambda>t. of_bool (p t)) ts)"

lemma task_count_update:
  "i < length ts \<Longrightarrow> task_count p (ts[i := t]) = task_count p ts - of_bool (p (ts ! i)) + of_bool (p t)"
  unfolding task_count_def by (induction ts arbitrary: i) (auto simp: nth_Cons' split: nat.splits)

lemma task_count_append: "task_count p (ts @ [t]) = task_count p ts + of_bool (p t)"
  by (simp add: task_count_def)

lemma task_count_map: "(\<And>t. p (f t) = p t) \<Longrightarrow> task_count p (map f ts) = task_count p ts"
  by (simp add: task_count_def o_def)

lemma task_count_nonneg: "0 \<le> task_count p ts"
  unfolding task_count_def by (rule sum_list_nonneg) auto

lemma task_count_pos: "t \<in> set ts \<Longrightarrow> p t \<Longrightarrow> 0 < task_count p ts"
proof (induction ts)
  case (Cons u ts)
  then show ?case using task_count_nonneg [of p ts] by (auto simp: task_count_def)
qed simp

lemma task_count_zero: "task_count p ts = 0 \<Longrightarrow> t \<in> set ts \<Longrightarrow> \<not> p t"
  using task_count_pos [of t ts p] by auto

lemma task_count_none: "(\<And>t. t \<in> set ts \<Longrightarrow> \<not> p t) \<Longrightarrow> task_count p ts = 0"
  unfolding task_count_def by (induction ts) auto

lemma list_all_update: "list_all p xs \<Longrightarrow> p x \<Longrightarrow> list_all p (xs[i := x])"
  by (auto simp: list_all_iff dest: set_update_subset_insert [THEN subsetD])

definition holds :: "pystr \<Rightarrow> lease_task \<Rightarrow> bool" where
  "holds r t \<longleftrightarrow> r \<in> set (lt_held t) \<or> lt_phase t = Granted \<and> hd (lt_todo t) = r"

definition reads :: "pystr \<Rightarrow> lease_task \<Rightarrow> bool" where
  "reads r t \<longleftrightarrow> lt_mode t = ReadLease \<and> holds r t"

definition writes :: "pystr \<Rightarrow> lease_task \<Rightarrow> bool" where
  "writes r t \<longleftrightarrow> lt_mode t = WriteLease \<and> holds r t"

definition waits_to_write :: "pystr \<Rightarrow> lease_task \<Rightarrow> bool" where
  "waits_to_write r t \<longleftrightarrow> lt_mode t = WriteLease \<and> is_waiting t \<and> hd (lt_todo t) = r"

definition asleep :: "pystr \<Rightarrow> lease_task \<Rightarrow> bool" where
  "asleep r t \<longleftrightarrow> lt_phase t = InThread False \<and> hd (lt_todo t) = r"

text \<open>The leases of a task are in order: those it has, then those it still wants.\<close>

definition task_ok :: "lease_task \<Rightarrow> bool" where
  "task_ok t \<longleftrightarrow>
     sorted_wrt (<) (rev (lt_held t) @ lt_todo t)
     \<and> (lt_phase t = Body \<longrightarrow> lt_todo t = [])
     \<and> (is_waiting t \<or> lt_phase t = Granted \<longrightarrow> lt_todo t \<noteq> [])"

definition lease_ok :: "lease_system \<Rightarrow> pystr \<Rightarrow> bool" where
  "lease_ok s r \<longleftrightarrow>
     rl_readers (ls_roots s r) = task_count (reads r) (ls_tasks s)
     \<and> of_bool (rl_writer_active (ls_roots s r)) = task_count (writes r) (ls_tasks s)
     \<and> rl_waiting_writers (ls_roots s r) = task_count (waits_to_write r) (ls_tasks s)
     \<and> (rl_writer_active (ls_roots s r) \<longrightarrow> rl_readers (ls_roots s r) = 0)
     \<and> list_all (\<lambda>t. asleep r t \<longrightarrow> blocked (lt_mode t) (ls_roots s r)) (ls_tasks s)"

definition system_ok :: "lease_system \<Rightarrow> bool" where
  "system_ok s \<longleftrightarrow> list_all task_ok (ls_tasks s) \<and> (\<forall>r. lease_ok s r)"


section \<open>Every step keeps the invariant\<close>

lemmas lease_ops = read_blocked_def write_blocked_def enter_read_def release_read_def
  register_write_waiter_def enter_registered_write_def release_write_def
  blocked_def enter_def leave_def notifies_def

lemmas task_facts = holds_def reads_def writes_def waits_to_write_def asleep_def is_waiting_def

lemma new_system_ok: "system_ok (new_system pool)"
  by (simp add: system_ok_def lease_ok_def new_system_def new_lease_def task_count_def)

lemma wake_same:
  "reads r (wake x t) = reads r t" "writes r (wake x t) = writes r t"
  "waits_to_write r (wake x t) = waits_to_write r t" "task_ok (wake x t) = task_ok t"
  "lt_mode (wake x t) = lt_mode t" "asleep r (wake x t) \<longleftrightarrow> asleep r t \<and> r \<noteq> x"
  by (auto simp: wake_def task_facts task_ok_def)

lemma wake_counts:
  "task_count (reads r) (map (wake x) ts) = task_count (reads r) ts"
  "task_count (writes r) (map (wake x) ts) = task_count (writes r) ts"
  "task_count (waits_to_write r) (map (wake x) ts) = task_count (waits_to_write r) ts"
  by (rule task_count_map, simp add: wake_same)+

lemma submit_next_ok:
  assumes "submit_next t roots = (t', roots')" "sorted_wrt (<) (rev (lt_held t) @ lt_todo t)"
  shows "task_ok t'" "lt_mode t' = lt_mode t" "lt_held t' = lt_held t" "lt_todo t' = lt_todo t"
    "holds r t' \<longleftrightarrow> r \<in> set (lt_held t)" "\<not> asleep r t'"
    "rl_readers (roots' r) = rl_readers (roots r)" "rl_writer_active (roots' r) = rl_writer_active (roots r)"
    "rl_waiting_writers (roots' r) = rl_waiting_writers (roots r) + of_bool (waits_to_write r t')"
  using assms
  by (auto simp: submit_next_def task_ok_def task_facts register_write_waiter_def split: list.splits if_splits)

text \<open>What has to be shown of one root when one task and the lease of the root change.\<close>

lemma replace_task:
  assumes ok: "lease_ok s r" and i: "i < length (ls_tasks s)"
    and counts: "rl_readers (roots r) = rl_readers (ls_roots s r) - of_bool (reads r (ls_tasks s ! i)) + of_bool (reads r t)"
      "of_bool (rl_writer_active (roots r)) = (of_bool (rl_writer_active (ls_roots s r)) :: int)
         - of_bool (writes r (ls_tasks s ! i)) + of_bool (writes r t)"
      "rl_waiting_writers (roots r) = rl_waiting_writers (ls_roots s r)
         - of_bool (waits_to_write r (ls_tasks s ! i)) + of_bool (waits_to_write r t)"
    and excl: "rl_writer_active (roots r) \<Longrightarrow> rl_readers (roots r) = 0"
    and own: "asleep r t \<Longrightarrow> blocked (lt_mode t) (roots r)"
    and others: "\<And>u. u \<in> set (ls_tasks s) \<Longrightarrow> asleep r u \<Longrightarrow> blocked (lt_mode u) (ls_roots s r)
        \<Longrightarrow> blocked (lt_mode u) (roots r)"
  shows "lease_ok (s\<lparr>ls_roots := roots, ls_tasks := (ls_tasks s)[i := t]\<rparr>) r"
proof -
  have "list_all (\<lambda>u. asleep r u \<longrightarrow> blocked (lt_mode u) (roots r)) ((ls_tasks s)[i := t])"
    using ok own others by (intro list_all_update) (auto simp: lease_ok_def list_all_iff)
  then show ?thesis using ok counts excl by (simp add: lease_ok_def task_count_update [OF i])
qed

lemma lease_okD:
  assumes "lease_ok s r"
  shows "0 \<le> rl_readers (ls_roots s r)" "0 \<le> rl_waiting_writers (ls_roots s r)"
    "rl_writer_active (ls_roots s r) \<Longrightarrow> rl_readers (ls_roots s r) = 0"
  using assms by (simp_all add: lease_ok_def task_count_nonneg)

lemma thread_step_ok:
  assumes "thread_step i s = Some s'" "system_ok s"
  shows "system_ok s'"
proof -
  let ?t = "ls_tasks s ! i"
  have i: "i < length (ls_tasks s)" and look: "may_look s ?t" using assms by (auto simp: thread_step_def Let_def split: if_splits)
  have ok: "task_ok ?t" using assms i by (simp add: system_ok_def list_all_length)
  have waiting: "is_waiting ?t" using look by (auto simp: may_look_def is_waiting_def split: lease_phase.splits)
  have unheld: "hd (lt_todo ?t) \<notin> set (lt_held ?t)" "lt_phase ?t \<noteq> Granted"
    using ok waiting by (auto simp: task_ok_def is_waiting_def sorted_wrt_append neq_Nil_conv split: lease_phase.splits)
  show ?thesis
    unfolding system_ok_def
  proof (intro conjI allI)
    show "list_all task_ok (ls_tasks s')"
      using assms i ok waiting
      by (auto simp: thread_step_def system_ok_def task_ok_def is_waiting_def Let_def
          intro!: list_all_update split: if_splits)
    fix r
    have L: "lease_ok s r" using assms by (simp add: system_ok_def)
    note N = lease_okD [OF L]
    show "lease_ok s' r"
    proof (cases "blocked (lt_mode ?t) (ls_roots s (hd (lt_todo ?t)))")
      case True
      then have s': "s' = s\<lparr>ls_roots := ls_roots s, ls_tasks := (ls_tasks s)[i := ?t\<lparr>lt_phase := InThread False\<rparr>]\<rparr>"
        using assms by (simp add: thread_step_def Let_def split: if_splits)
      show ?thesis
        unfolding s' by (rule replace_task [OF L i])
          (use True waiting unheld N in \<open>auto simp: task_facts split: lease_phase.splits\<close>)
    next
      case False
      then have s': "s' = s\<lparr>ls_roots := (ls_roots s)(hd (lt_todo ?t) := enter (lt_mode ?t) (ls_roots s (hd (lt_todo ?t)))),
          ls_tasks := (ls_tasks s)[i := ?t\<lparr>lt_phase := Granted\<rparr>]\<rparr>"
        using assms by (simp add: thread_step_def Let_def split: if_splits)
      show ?thesis
        unfolding s' by (rule replace_task [OF L i])
          (use False waiting unheld N in
            \<open>auto simp: task_facts lease_ops split: lease_phase.splits lease_mode.splits\<close>)
    qed
  qed
qed

lemma replace_ok:
  assumes "system_ok s" "task_ok t"
    and "\<And>r. lease_ok s r \<Longrightarrow> lease_ok (s\<lparr>ls_roots := roots, ls_tasks := (ls_tasks s)[i := t]\<rparr>) r"
  shows "system_ok (s\<lparr>ls_roots := roots, ls_tasks := (ls_tasks s)[i := t]\<rparr>)"
  using assms by (simp add: system_ok_def list_all_update)

lemma resume_ok:
  assumes "resume i s = Some s'" "system_ok s"
  shows "system_ok s'"
proof -
  let ?t = "ls_tasks s ! i"
  let ?u = "?t\<lparr>lt_held := hd (lt_todo ?t) # lt_held ?t, lt_todo := tl (lt_todo ?t)\<rparr>"
  have i: "i < length (ls_tasks s)" and granted: "lt_phase ?t = Granted"
    using assms by (auto simp: resume_def Let_def split: if_splits)
  have ok: "task_ok ?t" using assms i by (simp add: system_ok_def list_all_length)
  have sorted: "sorted_wrt (<) (rev (lt_held ?u) @ lt_todo ?u)" and same: "\<And>r. holds r ?t \<longleftrightarrow> r \<in> set (lt_held ?u)"
    using ok granted by (cases "lt_todo ?t"; auto simp: task_ok_def holds_def)+
  show ?thesis
  proof (cases "lt_cancelled ?t")
    case True
    then have s': "s' = s\<lparr>ls_roots := ls_roots s, ls_tasks := (ls_tasks s)[i := ?u\<lparr>lt_phase := Closing\<rparr>]\<rparr>"
      using assms i granted by (simp add: resume_def Let_def)
    have "task_ok (?u\<lparr>lt_phase := Closing\<rparr>)" using sorted by (simp add: task_ok_def is_waiting_def)
    moreover have "lease_ok s' r" if "lease_ok s r" for r
      unfolding s' by (rule replace_task [OF that i])
        (use granted same [of r] lease_okD [OF that] in \<open>auto simp: reads_def writes_def waits_to_write_def
          asleep_def is_waiting_def holds_def\<close>)
    ultimately show ?thesis using assms(2) unfolding s' by (intro replace_ok)
  next
    case False
    obtain v roots where sub: "submit_next ?u (ls_roots s) = (v, roots)" by fastforce
    then have s': "s' = s\<lparr>ls_roots := roots, ls_tasks := (ls_tasks s)[i := v]\<rparr>"
      using assms i granted False by (simp add: resume_def Let_def)
    note S = submit_next_ok [OF sub sorted]
    have "lease_ok s' r" if "lease_ok s r" for r
      unfolding s'
    proof (rule replace_task [OF that i])
      note N = lease_okD [OF that]
      have W: "\<not> waits_to_write r ?t" using granted by (simp add: waits_to_write_def is_waiting_def)
      show "rl_readers (roots r) = rl_readers (ls_roots s r) - of_bool (reads r ?t) + of_bool (reads r v)"
        "of_bool (rl_writer_active (roots r)) = (of_bool (rl_writer_active (ls_roots s r)) :: int)
           - of_bool (writes r ?t) + of_bool (writes r v)"
        "rl_waiting_writers (roots r) = rl_waiting_writers (ls_roots s r)
           - of_bool (waits_to_write r ?t) + of_bool (waits_to_write r v)"
        "rl_writer_active (roots r) \<Longrightarrow> rl_readers (roots r) = 0"
        "asleep r v \<Longrightarrow> blocked (lt_mode v) (roots r)"
        using S(2) S(5-9) [of r] N same [of r] W by (simp_all add: reads_def writes_def)
      show "blocked (lt_mode w) (roots r)" if "blocked (lt_mode w) (ls_roots s r)" for w
        using that S(7,8,9) [of r] N by (auto simp: lease_ops split: lease_mode.splits)
    qed
    with S(1) assms(2) show ?thesis unfolding s' by (intro replace_ok)
  qed
qed

lemma cancel_task_ok:
  assumes "cancel_task i s = Some s'" "system_ok s"
  shows "system_ok s'"
proof -
  let ?t = "ls_tasks s ! i"
  have i: "i < length (ls_tasks s)"
    and s': "s' = s\<lparr>ls_roots := ls_roots s, ls_tasks := (ls_tasks s)[i := ?t\<lparr>lt_cancelled := True\<rparr>]\<rparr>"
    using assms by (auto simp: cancel_task_def Let_def split: if_splits)
  have ok: "task_ok ?t" using assms i by (simp add: system_ok_def list_all_length)
  have "lease_ok s' r" if L: "lease_ok s r" for r
  proof -
    have "asleep r ?t \<Longrightarrow> blocked (lt_mode ?t) (ls_roots s r)"
      using L i by (simp add: lease_ok_def list_all_length)
    then show ?thesis
      unfolding s' by (intro replace_task [OF L i])
        (use lease_okD [OF L] in \<open>auto simp: task_facts\<close>)
  qed
  with ok assms(2) show ?thesis unfolding s' by (intro replace_ok) (auto simp: task_ok_def is_waiting_def)
qed

lemma finish_body_ok:
  assumes "finish_body i s = Some s'" "system_ok s"
  shows "system_ok s'"
proof -
  let ?t = "ls_tasks s ! i"
  have i: "i < length (ls_tasks s)" and body: "lt_phase ?t = Body"
    and s': "s' = s\<lparr>ls_roots := ls_roots s, ls_tasks := (ls_tasks s)[i := ?t\<lparr>lt_phase := Closing\<rparr>]\<rparr>"
    using assms by (auto simp: finish_body_def Let_def split: if_splits)
  have ok: "task_ok ?t" using assms i by (simp add: system_ok_def list_all_length)
  have "lease_ok s' r" if L: "lease_ok s r" for r
    unfolding s' by (rule replace_task [OF L i])
      (use body lease_okD [OF L] in \<open>auto simp: task_facts\<close>)
  with ok body assms(2) show ?thesis unfolding s' by (intro replace_ok) (auto simp: task_ok_def is_waiting_def)
qed

text \<open>A release that notifies wakes everyone who sleeps for the root.\<close>

lemma lease_ok_wake:
  "lease_ok (s\<lparr>ls_roots := roots, ls_tasks := ts\<rparr>) r \<Longrightarrow>
     lease_ok (s\<lparr>ls_roots := roots, ls_tasks := map (wake x) ts\<rparr>) r"
  by (auto simp: lease_ok_def wake_counts wake_same list_all_iff)

lemma release_one_ok:
  assumes "release_one i s = Some s'" "system_ok s"
  shows "system_ok s'"
proof -
  let ?t = "ls_tasks s ! i" and ?r = "hd (lt_held (ls_tasks s ! i))"
  let ?u = "?t\<lparr>lt_held := tl (lt_held ?t)\<rparr>"
  let ?l = "leave (lt_mode ?t) (ls_roots s ?r)" and ?ts = "(ls_tasks s)[i := ?u]"
  have i: "i < length (ls_tasks s)" and closing: "lt_phase ?t = Closing" "lt_held ?t \<noteq> []"
    and s': "s' = s\<lparr>ls_roots := (ls_roots s)(?r := ?l),
      ls_tasks := (if notifies (lt_mode ?t) ?l then map (wake ?r) ?ts else ?ts)\<rparr>"
    using assms by (auto simp: release_one_def Let_def split: if_splits)
  have ok: "task_ok ?t" using assms i by (simp add: system_ok_def list_all_length)
  have left: "?r \<notin> set (tl (lt_held ?t))" "?r \<in> set (lt_held ?t)" "\<And>r. r \<in> set (lt_held ?t) \<longleftrightarrow> r = ?r \<or> r \<in> set (tl (lt_held ?t))"
    using ok closing by (cases "lt_held ?t"; auto simp: task_ok_def sorted_wrt_append)+
  have ok': "task_ok ?u"
    using ok closing by (cases "lt_held ?t") (auto simp: task_ok_def is_waiting_def sorted_wrt_append)
  have tasks: "list_all task_ok (ls_tasks s')"
    using assms(2) ok' by (simp add: s' system_ok_def list_all_update list.pred_map o_def wake_same)
  have same: "lease_ok s' r" if L: "lease_ok s r" and "r \<noteq> ?r" for r
  proof -
    have "lease_ok (s\<lparr>ls_roots := (ls_roots s)(?r := ?l), ls_tasks := ?ts\<rparr>) r"
      by (rule replace_task [OF L i])
        (use that(2) closing left lease_okD [OF L] in \<open>auto simp: task_facts\<close>)
    then show ?thesis unfolding s' using lease_ok_wake by simp
  qed
  have L: "lease_ok s ?r" using assms(2) by (simp add: system_ok_def)
  have present: "writes ?r ?t \<Longrightarrow> 0 < task_count (writes ?r) (ls_tasks s)"
      "reads ?r ?t \<Longrightarrow> 0 < task_count (reads ?r) (ls_tasks s)"
    using task_count_pos [OF nth_mem [OF i]] by blast+
  have one: "rl_writer_active (ls_roots s ?r) \<longleftrightarrow> task_count (writes ?r) (ls_tasks s) = 1"
    using L by (auto simp: lease_ok_def)
  have reader: "reads ?r ?t \<Longrightarrow> \<not> rl_writer_active (ls_roots s ?r)"
    using present(2) L by (auto simp: lease_ok_def)
  have "lease_ok s' ?r"
  proof (cases "notifies (lt_mode ?t) ?l")
    case False
    then have m: "lt_mode ?t = ReadLease" "rl_readers ?l \<noteq> 0"
      by (auto simp: notifies_def split: lease_mode.splits)
    have "lease_ok (s\<lparr>ls_roots := (ls_roots s)(?r := ?l), ls_tasks := ?ts\<rparr>) ?r"
      by (rule replace_task [OF L i])
        (use m reader closing left lease_okD [OF L] in \<open>auto simp: task_facts lease_ops split: lease_mode.splits\<close>)
    then show ?thesis using False by (simp add: s')
  next
    case True
    then show ?thesis
      using L present one reader closing left
      by (cases "lt_mode ?t") (auto simp: s' lease_ok_def wake_counts wake_same task_count_update [OF i]
          holds_def reads_def writes_def waits_to_write_def is_waiting_def lease_ops list_all_iff)
  qed
  then have "lease_ok s' r" for r using same [of r] assms(2) by (cases "r = ?r") (simp_all add: system_ok_def)
  with tasks show ?thesis by (simp add: system_ok_def)
qed

lemma append_task:
  assumes "lease_ok s r"
    and "rl_readers (roots r) = rl_readers (ls_roots s r) + of_bool (reads r t)"
      "of_bool (rl_writer_active (roots r)) = (of_bool (rl_writer_active (ls_roots s r)) :: int) + of_bool (writes r t)"
      "rl_waiting_writers (roots r) = rl_waiting_writers (ls_roots s r) + of_bool (waits_to_write r t)"
    and "rl_writer_active (roots r) \<Longrightarrow> rl_readers (roots r) = 0" "\<not> asleep r t"
    and "\<And>m. blocked m (ls_roots s r) \<Longrightarrow> blocked m (roots r)"
  shows "lease_ok (s\<lparr>ls_roots := roots, ls_tasks := ls_tasks s @ [t]\<rparr>) r"
  using assms by (auto simp: lease_ok_def task_count_append list_all_iff)

lemma begin_ok:
  assumes "begin_lease m ids s = Some s' \<or> begin_read_sync x s = Some s'" "system_ok s"
  shows "system_ok s'"
  using assms(1)
proof
  assume b: "begin_lease m ids s = Some s'"
  then obtain ordered t roots where o: "ordered_states ids = Some ordered"
    and sub: "submit_next \<lparr>lt_mode = m, lt_pooled = True, lt_cancelled = False, lt_todo = ordered,
                lt_held = [], lt_phase = Queued\<rparr> (ls_roots s) = (t, roots)"
    and s': "s' = s\<lparr>ls_roots := roots, ls_tasks := ls_tasks s @ [t]\<rparr>"
    by (auto simp: begin_lease_def split: option.splits prod.splits)
  have "sorted_wrt (<) ordered"
    using o by (auto simp: ordered_states_def Let_def strict_sorted_iff split: if_splits)
  note S = submit_next_ok [OF sub, simplified, OF this]
  have "lease_ok s' r" if "lease_ok s r" for r
    unfolding s'
  proof (rule append_task [OF that])
    note N = lease_okD [OF that]
    show "rl_readers (roots r) = rl_readers (ls_roots s r) + of_bool (reads r t)"
      "of_bool (rl_writer_active (roots r)) = (of_bool (rl_writer_active (ls_roots s r)) :: int) + of_bool (writes r t)"
      "rl_waiting_writers (roots r) = rl_waiting_writers (ls_roots s r) + of_bool (waits_to_write r t)"
      "rl_writer_active (roots r) \<Longrightarrow> rl_readers (roots r) = 0" "\<not> asleep r t"
      using S(5-9) [of r] N by (simp_all add: reads_def writes_def)
    show "blocked w (roots r)" if "blocked w (ls_roots s r)" for w
      using that S(7-9) [of r] N by (auto simp: lease_ops split: lease_mode.splits)
  qed
  with S(1) assms(2) show ?thesis by (simp add: s' system_ok_def)
next
  assume "begin_read_sync x s = Some s'"
  then have s': "s' = s\<lparr>ls_roots := ls_roots s, ls_tasks := ls_tasks s @ [\<lparr>lt_mode = ReadLease, lt_pooled = False,
      lt_cancelled = False, lt_todo = [x], lt_held = [], lt_phase = InThread True\<rparr>]\<rparr>"
    by (auto simp: begin_read_sync_def split: if_splits)
  have "lease_ok s' r" if "lease_ok s r" for r
    unfolding s' by (rule append_task [OF that]) (use lease_okD [OF that] in \<open>auto simp: task_facts\<close>)
  with assms(2) show ?thesis by (simp add: s' system_ok_def task_ok_def)
qed

lemma lease_step_ok: "lease_step e s = Some s' \<Longrightarrow> system_ok s \<Longrightarrow> system_ok s'"
  by (cases e) (auto simp: lease_step_def intro: begin_ok cancel_task_ok thread_step_ok resume_ok finish_body_ok release_one_ok)

lemma reachable_ok: "lease_reachable pool s \<Longrightarrow> system_ok s"
  by (induction rule: lease_reachable.induct) (auto simp: new_system_ok intro: lease_step_ok)

lemma reachable_pool: "lease_reachable pool s \<Longrightarrow> ls_pool s = pool"
proof (induction rule: lease_reachable.induct)
  case (step s e s')
  then show ?case
    by (cases e) (auto simp: lease_step_def begin_lease_def begin_read_sync_def cancel_task_def thread_step_def
        resume_def finish_body_def release_one_def Let_def split: option.splits prod.splits if_splits)
qed (simp add: new_system_def)

section \<open>Exclusion\<close>

lemma count_two:
  assumes "i < length ts" "j < length ts" "i \<noteq> j" "p (ts ! i)" "p (ts ! j)"
  shows "2 \<le> task_count p ts"
proof -
  define vs where "vs = map (\<lambda>t. of_bool (p t) :: int) ts"
  have v: "vs ! i = 1" "vs ! j = 1" "length vs = length ts" using assms by (simp_all add: vs_def)
  have "0 \<le> task_count p (ts[i := ts ! i])" by (rule task_count_nonneg)
  have "{i, j} \<subseteq> {..<length vs}" using assms v by auto
  then have "(\<Sum>k\<in>{i, j}. vs ! k) \<le> (\<Sum>k<length vs. vs ! k)"
    by (intro sum_mono2) (auto simp: vs_def)
  moreover have "task_count p ts = (\<Sum>k<length vs. vs ! k)"
    by (simp add: task_count_def vs_def sum_list_sum_nth atLeast0LessThan)
  ultimately show ?thesis using assms(3) v by simp
qed

lemma exclusion:
  assumes "system_ok s" "i < length (ls_tasks s)" "j < length (ls_tasks s)" "i \<noteq> j"
    and "writes r (ls_tasks s ! i)" "holds r (ls_tasks s ! j)"
  shows False
proof -
  have L: "lease_ok s r" using assms(1) by (simp add: system_ok_def)
  have w: "0 < task_count (writes r) (ls_tasks s)" using assms by (intro task_count_pos [OF nth_mem])
  show False
  proof (cases "lt_mode (ls_tasks s ! j)")
    case WriteLease
    then have "2 \<le> task_count (writes r) (ls_tasks s)"
      using assms by (intro count_two [of i _ j]) (auto simp: writes_def)
    then show False using L by (cases "rl_writer_active (ls_roots s r)") (auto simp: lease_ok_def)
  next
    case ReadLease
    then have "0 < task_count (reads r) (ls_tasks s)"
      using assms by (intro task_count_pos [OF nth_mem]) (auto simp: reads_def)
    then show False using L w by (cases "rl_writer_active (ls_roots s r)") (auto simp: lease_ok_def)
  qed
qed

section \<open>Progress\<close>

definition open_task :: "lease_task \<Rightarrow> bool" where
  "open_task t \<longleftrightarrow> lt_phase t \<noteq> Closing \<or> lt_held t \<noteq> []"

definition task_work :: "lease_task \<Rightarrow> nat" where
  "task_work t =
     (case lt_phase t of
        Closing \<Rightarrow> length (lt_held t)
      | Body \<Rightarrow> length (lt_held t) + 1
      | Granted \<Rightarrow> 4 * length (lt_todo t) + length (lt_held t)
      | _ \<Rightarrow> 4 * length (lt_todo t) + length (lt_held t) + 1)"

definition system_work :: "lease_system \<Rightarrow> nat" where
  "system_work s = sum_list (map task_work (ls_tasks s))"

definition completes :: "lease_event \<Rightarrow> bool" where
  "completes e \<longleftrightarrow> (case e of Begin _ _ \<Rightarrow> False | BeginReadSync _ \<Rightarrow> False | CancelTask _ \<Rightarrow> False | _ \<Rightarrow> True)"

text \<open>A step towards the end: no task is added or reopened, and less is left to do.\<close>

definition advances :: "lease_system \<Rightarrow> lease_system \<Rightarrow> bool" where
  "advances s s' \<longleftrightarrow>
     (\<exists>e. completes e \<and> lease_step e s = Some s') \<and> system_work s' < system_work s
     \<and> length (filter open_task (ls_tasks s')) \<le> length (filter open_task (ls_tasks s))
     \<and> ls_pool s' = ls_pool s"

lemma update_advances:
  assumes "i < length (ls_tasks s)" "task_work t < task_work (ls_tasks s ! i)" "open_task (ls_tasks s ! i)"
  shows "sum_list (map task_work ((ls_tasks s)[i := t])) < sum_list (map task_work (ls_tasks s))"
    and "length (filter open_task ((ls_tasks s)[i := t])) \<le> length (filter open_task (ls_tasks s))"
proof -
  define ts where "ts = ls_tasks s"
  have "i < length ts" "task_work t < task_work (ts ! i)" "open_task (ts ! i)" using assms by (simp_all add: ts_def)
  then have "sum_list (map task_work (ts[i := t])) < sum_list (map task_work ts)
      \<and> length (filter open_task (ts[i := t])) \<le> length (filter open_task ts)"
  proof (induction ts arbitrary: i)
    case (Cons u ts)
    then show ?case by (cases i) auto
  qed simp
  then show "sum_list (map task_work ((ls_tasks s)[i := t])) < sum_list (map task_work (ls_tasks s))"
    "length (filter open_task ((ls_tasks s)[i := t])) \<le> length (filter open_task (ls_tasks s))"
    by (simp_all add: ts_def)
qed

lemma wake_open: "open_task (wake r t) = open_task t" "task_work (wake r t) = task_work t"
  by (auto simp: wake_def open_task_def task_work_def)

lemma wake_sums:
  "sum_list (map task_work (map (wake r) ts)) = sum_list (map task_work ts)"
  "length (filter open_task (map (wake r) ts)) = length (filter open_task ts)"
  by (simp_all add: o_def wake_open filter_map)

lemma resume_advances:
  assumes "i < length (ls_tasks s)" "task_ok (ls_tasks s ! i)" "lt_phase (ls_tasks s ! i) = Granted"
  shows "\<exists>s'. advances s s'"
proof -
  let ?t = "ls_tasks s ! i"
  obtain r rs where todo: "lt_todo ?t = r # rs" using assms by (cases "lt_todo ?t") (auto simp: task_ok_def)
  let ?v = "?t\<lparr>lt_held := hd (lt_todo ?t) # lt_held ?t, lt_todo := tl (lt_todo ?t)\<rparr>"
  obtain u roots where u: "(if lt_cancelled ?v then (?v\<lparr>lt_phase := Closing\<rparr>, ls_roots s)
      else submit_next ?v (ls_roots s)) = (u, roots)"
    by fastforce
  have "resume i s = Some (s\<lparr>ls_roots := roots, ls_tasks := (ls_tasks s)[i := u]\<rparr>)"
    unfolding resume_def Let_def u using assms by simp
  moreover have "task_work u < task_work ?t"
    using u assms(3) todo by (cases rs) (auto simp: submit_next_def task_work_def split: if_splits)
  ultimately show ?thesis
    using update_advances [OF assms(1), of u] assms(3)
    by (intro exI [of _ "s\<lparr>ls_roots := roots, ls_tasks := (ls_tasks s)[i := u]\<rparr>"])
      (auto simp: advances_def system_work_def open_task_def lease_step_def completes_def intro!: exI [of _ "Resume i"])
qed

lemma finish_advances:
  assumes "i < length (ls_tasks s)" "lt_phase (ls_tasks s ! i) = Body"
  shows "\<exists>s'. advances s s'"
proof -
  let ?u = "(ls_tasks s ! i)\<lparr>lt_phase := Closing\<rparr>"
  have "finish_body i s = Some (s\<lparr>ls_tasks := (ls_tasks s)[i := ?u]\<rparr>)"
    using assms by (simp add: finish_body_def Let_def)
  then show ?thesis
    using update_advances [OF assms(1), of ?u] assms(2)
    by (intro exI [of _ "s\<lparr>ls_tasks := (ls_tasks s)[i := ?u]\<rparr>"])
      (auto simp: advances_def system_work_def open_task_def task_work_def lease_step_def completes_def
        intro!: exI [of _ "FinishBody i"])
qed

lemma release_advances:
  assumes "i < length (ls_tasks s)" "lt_phase (ls_tasks s ! i) = Closing" "lt_held (ls_tasks s ! i) \<noteq> []"
  shows "\<exists>s'. advances s s'"
proof -
  let ?u = "(ls_tasks s ! i)\<lparr>lt_held := tl (lt_held (ls_tasks s ! i))\<rparr>"
  obtain roots ts where s': "release_one i s = Some (s\<lparr>ls_roots := roots, ls_tasks := ts\<rparr>)"
    and ts: "ts = (ls_tasks s)[i := ?u] \<or> ts = map (wake (hd (lt_held (ls_tasks s ! i)))) ((ls_tasks s)[i := ?u])"
    using assms by (auto simp: release_one_def Let_def)
  have "task_work ?u < task_work (ls_tasks s ! i)" "open_task (ls_tasks s ! i)"
    using assms by (cases "lt_held (ls_tasks s ! i)"; simp add: task_work_def open_task_def)+
  then have "sum_list (map task_work ts) < sum_list (map task_work (ls_tasks s))"
    "length (filter open_task ts) \<le> length (filter open_task (ls_tasks s))"
    using update_advances [OF assms(1), of ?u] ts wake_sums by auto
  then show ?thesis
    using s' by (intro exI [of _ "s\<lparr>ls_roots := roots, ls_tasks := ts\<rparr>"])
      (auto simp: advances_def system_work_def lease_step_def completes_def intro!: exI [of _ "ReleaseOne i"])
qed

lemma grant_advances:
  assumes "i < length (ls_tasks s)" "is_waiting (ls_tasks s ! i)" "may_look s (ls_tasks s ! i)"
    and "\<not> blocked (lt_mode (ls_tasks s ! i)) (ls_roots s (hd (lt_todo (ls_tasks s ! i))))"
  shows "\<exists>s'. advances s s'"
proof -
  let ?u = "(ls_tasks s ! i)\<lparr>lt_phase := Granted\<rparr>"
  obtain roots where "thread_step i s = Some (s\<lparr>ls_roots := roots, ls_tasks := (ls_tasks s)[i := ?u]\<rparr>)"
    using assms by (auto simp: thread_step_def Let_def)
  moreover have "task_work ?u < task_work (ls_tasks s ! i)" "open_task (ls_tasks s ! i)"
    using assms(2) by (auto simp: task_work_def open_task_def is_waiting_def split: lease_phase.splits)
  ultimately show ?thesis
    using update_advances [OF assms(1), of ?u]
    by (intro exI [of _ "s\<lparr>ls_roots := roots, ls_tasks := (ls_tasks s)[i := ?u]\<rparr>"])
      (auto simp: advances_def system_work_def lease_step_def completes_def intro!: exI [of _ "ThreadStep i"])
qed

lemma filter_strict:
  assumes "\<And>x. p x \<Longrightarrow> q x" "x \<in> set xs" "q x" "\<not> p x"
  shows "length (filter p xs) < length (filter q xs)"
  using assms(2)
proof (induction xs)
  case (Cons y ys)
  have "length (filter p ys) \<le> length (filter q ys)" using assms(1) by (induction ys) auto
  then show ?case using Cons assms by auto
qed simp

lemma can_advance:
  assumes ok: "system_ok s" and pool: "length (filter open_task (ls_tasks s)) \<le> ls_pool s"
    and t: "t \<in> set (ls_tasks s)" "open_task t"
  shows "\<exists>s'. advances s s'"
proof (cases "\<exists>u\<in>set (ls_tasks s). open_task u \<and> \<not> is_waiting u")
  case True
  then obtain i where i: "i < length (ls_tasks s)" "open_task (ls_tasks s ! i)" "\<not> is_waiting (ls_tasks s ! i)"
    by (auto simp: in_set_conv_nth)
  have "task_ok (ls_tasks s ! i)" using ok i by (simp add: system_ok_def list_all_length)
  then show ?thesis
    using i resume_advances [of i s] finish_advances [of i s] release_advances [of i s]
    by (auto simp: open_task_def is_waiting_def split: lease_phase.splits)
next
  case False
  let ?W = "{u \<in> set (ls_tasks s). is_waiting u}"
  define r where "r = Max ((\<lambda>u. hd (lt_todo u)) ` ?W)"
  have "?W \<noteq> {}" using False t by auto
  then have "r \<in> (\<lambda>u. hd (lt_todo u)) ` ?W" unfolding r_def by (intro Max_in) auto
  then obtain m where m: "m \<in> set (ls_tasks s)" "is_waiting m" "hd (lt_todo m) = r" by auto
  have below: "hd (lt_todo u) \<le> r" if "u \<in> set (ls_tasks s)" "is_waiting u" for u
    unfolding r_def using that by (intro Max_ge) auto
  have free: "\<not> holds r u" if u: "u \<in> set (ls_tasks s)" for u
  proof
    assume h: "holds r u"
    then have "open_task u" by (auto simp: holds_def open_task_def)
    then have w: "is_waiting u" using False u by blast
    then have held: "r \<in> set (lt_held u)" using h by (auto simp: holds_def is_waiting_def)
    have "task_ok u" using ok u by (auto simp: system_ok_def list_all_iff)
    then have "r < hd (lt_todo u)" using held w by (auto simp: task_ok_def sorted_wrt_append neq_Nil_conv)
    then show False using below [OF u w] by simp
  qed
  have L: "lease_ok s r" using ok by (simp add: system_ok_def)
  have "task_count (reads r) (ls_tasks s) = 0" "task_count (writes r) (ls_tasks s) = 0"
    using free by (auto simp: reads_def writes_def intro!: task_count_none)
  then have idle: "rl_readers (ls_roots s r) = 0" "\<not> rl_writer_active (ls_roots s r)"
    using L by (auto simp: lease_ok_def)
  obtain u where u: "u \<in> set (ls_tasks s)" "is_waiting u" "hd (lt_todo u) = r"
    and unblocked: "\<not> blocked (lt_mode u) (ls_roots s r)"
  proof (cases "\<exists>v\<in>set (ls_tasks s). waits_to_write r v")
    case True
    then show thesis using that idle by (auto simp: waits_to_write_def lease_ops)
  next
    case False
    then have "task_count (waits_to_write r) (ls_tasks s) = 0" by (intro task_count_none) blast
    then have "\<not> blocked ReadLease (ls_roots s r)" using L idle by (auto simp: lease_ok_def lease_ops)
    moreover have "lt_mode m = ReadLease" using False m by (cases "lt_mode m") (auto simp: waits_to_write_def)
    ultimately show thesis using that m by auto
  qed
  have "\<not> asleep r u" using L u unblocked by (auto simp: lease_ok_def list_all_iff)
  moreover have "length (filter uses_thread (ls_tasks s)) < ls_pool s" if "lt_phase u = Queued"
  proof -
    have "length (filter uses_thread (ls_tasks s)) < length (filter open_task (ls_tasks s))"
      using u(1) that by (intro filter_strict) (auto simp: uses_thread_def open_task_def split: lease_phase.splits)
    then show ?thesis using pool by simp
  qed
  ultimately have "may_look s u"
    using u by (auto simp: may_look_def asleep_def is_waiting_def split: lease_phase.splits)
  then show ?thesis using u unblocked grant_advances by (auto simp: in_set_conv_nth)
qed

lemma all_complete:
  assumes "system_ok s" "length (filter open_task (ls_tasks s)) \<le> ls_pool s"
  shows "\<exists>es s'. list_all completes es \<and> lease_run es s = Some s' \<and> \<not> list_ex open_task (ls_tasks s')"
  using assms
proof (induction "system_work s" arbitrary: s rule: less_induct)
  case less
  show ?case
  proof (cases "list_ex open_task (ls_tasks s)")
    case False
    then show ?thesis by (intro exI [of _ "[]"] exI [of _ s]) simp
  next
    case True
    then obtain s1 where "advances s s1" using can_advance [OF less.prems] by (auto simp: list_ex_iff)
    then obtain e where e: "completes e" "lease_step e s = Some s1" and adv: "system_work s1 < system_work s"
      "length (filter open_task (ls_tasks s1)) \<le> length (filter open_task (ls_tasks s))" "ls_pool s1 = ls_pool s"
      by (auto simp: advances_def)
    then obtain es s' where "list_all completes es" "lease_run es s1 = Some s'" "\<not> list_ex open_task (ls_tasks s')"
      using less.hyps [OF adv(1)] lease_step_ok [OF e(2) less.prems(1)] less.prems(2) by auto
    then show ?thesis using e by (intro exI [of _ "e # es"] exI [of _ s']) simp
  qed
qed

section \<open>Writers before readers, and revisions\<close>

lemma submit_next_revision:
  "submit_next t roots = (t', roots') \<Longrightarrow> rl_revision (roots' r) = rl_revision (roots r)"
  by (auto simp: submit_next_def register_write_waiter_def split: list.splits if_splits)

lemma writers_first:
  assumes "lease_step e s = Some s'" "rl_waiting_writers (ls_roots s r) \<noteq> 0"
  shows "rl_readers (ls_roots s' r) \<le> rl_readers (ls_roots s r)"
proof -
  have sub: "rl_readers (roots' r) = rl_readers (roots r)" if "submit_next t roots = (t', roots')" for t t' roots roots'
    using that by (auto simp: submit_next_def register_write_waiter_def split: list.splits if_splits)
  show ?thesis
    using assms
    by (cases e) (auto simp: lease_step_def begin_lease_def begin_read_sync_def cancel_task_def thread_step_def resume_def
        finish_body_def release_one_def lease_ops Let_def sub
        split: option.splits prod.splits if_splits lease_mode.splits)
qed

text \<open>The events that end a write lease of a root.\<close>

definition publishes :: "lease_event \<Rightarrow> lease_system \<Rightarrow> pystr \<Rightarrow> bool" where
  "publishes e s r \<longleftrightarrow>
     (case e of
        ReleaseOne i \<Rightarrow> lt_mode (ls_tasks s ! i) = WriteLease \<and> hd (lt_held (ls_tasks s ! i)) = r
      | _ \<Rightarrow> False)"

lemma revision_step:
  "lease_step e s = Some s' \<Longrightarrow>
     rl_revision (ls_roots s' r) = rl_revision (ls_roots s r) + of_bool (publishes e s r)"
  by (cases e) (auto simp: lease_step_def begin_lease_def begin_read_sync_def cancel_task_def thread_step_def resume_def
      finish_body_def release_one_def lease_ops publishes_def Let_def submit_next_revision
      split: option.splits prod.splits if_splits lease_mode.splits)

fun published :: "lease_event list \<Rightarrow> lease_system \<Rightarrow> pystr \<Rightarrow> nat" where
  "published [] s r = 0"
| "published (e # es) s r =
     of_bool (publishes e s r) + (case lease_step e s of None \<Rightarrow> 0 | Some s' \<Rightarrow> published es s' r)"

lemma revision_run:
  "lease_run es s = Some s' \<Longrightarrow> rl_revision (ls_roots s' r) = rl_revision (ls_roots s r) + int (published es s r)"
proof (induction es arbitrary: s)
  case (Cons e es)
  then obtain s1 where "lease_step e s = Some s1" "lease_run es s1 = Some s'" by (auto split: bind_splits)
  then show ?case using Cons.IH [of s1] revision_step [of e s s1 r] by simp
qed simp

text \<open>The revisions that scans remember.\<close>

type_synonym scan_revisions = "(pystr \<times> pystr, int) odict"

definition record_scan_revision :: "pystr \<Rightarrow> pystr \<Rightarrow> lease_system \<Rightarrow> scan_revisions \<Rightarrow> scan_revisions" where
  "record_scan_revision run r s scans = dict_set scans (run, r) (rl_revision (ls_roots s r))"

definition scan_revision :: "pystr \<Rightarrow> pystr \<Rightarrow> lease_system \<Rightarrow> scan_revisions \<Rightarrow> int" where
  "scan_revision run r s scans =
     (case dict_get scans (run, r) of None \<Rightarrow> rl_revision (ls_roots s r) | Some n \<Rightarrow> n)"

definition forget_scan :: "pystr \<Rightarrow> scan_revisions \<Rightarrow> scan_revisions" where
  "forget_scan run scans = filter (\<lambda>((k, _), _). k \<noteq> run) scans"

lemma scan_notices:
  assumes "lease_run es s = Some s'"
  shows "scan_revision run r s' (record_scan_revision run r s scans) = rl_revision (ls_roots s' r)
    \<longleftrightarrow> published es s r = 0"
  using revision_run [OF assms, of r] by (simp add: scan_revision_def record_scan_revision_def dict_get_set)

section \<open>Properties of the leases\<close>

lemma run_reachable: "lease_run es s = Some s' \<Longrightarrow> lease_reachable pool s \<Longrightarrow> lease_reachable pool s'"
  by (induction es arbitrary: s) (auto split: bind_splits intro: lease_reachable.step)

text \<open>The roots a task asked for: those it has, then those it still wants.\<close>

definition wanted :: "lease_task \<Rightarrow> pystr list" where
  "wanted t = rev (lt_held t) @ lt_todo t"

lemma wanted_wake: "wanted (wake r t) = wanted t"
  by (simp add: wanted_def wake_def)

lemma wanted_submit: "submit_next t roots = (t', roots') \<Longrightarrow> wanted t' = wanted t"
  by (auto simp: submit_next_def wanted_def split: list.splits if_splits)

lemma step_length: "lease_step e s = Some s' \<Longrightarrow> length (ls_tasks s) \<le> length (ls_tasks s')"
  by (cases e) (auto simp: lease_step_def begin_lease_def begin_read_sync_def cancel_task_def thread_step_def
      resume_def finish_body_def release_one_def Let_def split: option.splits prod.splits if_splits)

lemma begin_wants:
  assumes "lease_step (Begin m ids) s = Some s'"
  shows "set (wanted (last (ls_tasks s'))) = set ids"
proof -
  obtain ordered t roots where "ordered_states ids = Some ordered"
    and "submit_next \<lparr>lt_mode = m, lt_pooled = True, lt_cancelled = False, lt_todo = ordered,
      lt_held = [], lt_phase = Queued\<rparr> (ls_roots s) = (t, roots)" and "ls_tasks s' = ls_tasks s @ [t]"
    using assms by (auto simp: lease_step_def begin_lease_def split: option.splits prod.splits)
  then show ?thesis
    using wanted_submit [of _ "ls_roots s" t roots]
    by (auto simp: wanted_def ordered_states_def Let_def split: if_splits)
qed

lemma wanted_step:
  assumes "lease_step e s = Some s'" "list_all task_ok (ls_tasks s)" "i < length (ls_tasks s)"
    and "lt_phase (ls_tasks s' ! i) \<noteq> Closing"
  shows "wanted (ls_tasks s' ! i) = wanted (ls_tasks s ! i)"
proof (cases e)
  case (Resume k)
  let ?t = "ls_tasks s ! k"
  let ?v = "?t\<lparr>lt_held := hd (lt_todo ?t) # lt_held ?t, lt_todo := tl (lt_todo ?t)\<rparr>"
  obtain t roots where k: "k < length (ls_tasks s)" "lt_phase ?t = Granted"
    and t: "(if lt_cancelled ?v then (?v\<lparr>lt_phase := Closing\<rparr>, ls_roots s) else submit_next ?v (ls_roots s)) = (t, roots)"
    and s': "ls_tasks s' = (ls_tasks s)[k := t]"
    using assms(1) unfolding Resume lease_step_def resume_def Let_def
    by (auto split: if_splits prod.splits)
  have "lt_todo ?t \<noteq> []" using assms(2) k by (auto simp: list_all_length task_ok_def)
  then have "wanted ?v = wanted ?t" by (cases "lt_todo ?t") (simp_all add: wanted_def)
  then have "wanted t = wanted ?t"
    using t wanted_submit [of ?v] by (auto simp: wanted_def split: if_splits)
  then show ?thesis using assms(3) k s' by (auto simp: nth_list_update)
qed (use assms in \<open>auto simp: lease_step_def begin_lease_def begin_read_sync_def cancel_task_def thread_step_def
    finish_body_def release_one_def Let_def nth_append nth_list_update wanted_def wake_def
    split: option.splits prod.splits if_splits\<close>)

text \<open>A reader that has a root while a writer waits for it had it before the step.\<close>

lemma reads_rest: "reads r (t\<lparr>lt_held := tl (lt_held t)\<rparr>) \<Longrightarrow> reads r t"
  by (cases "lt_held t") (auto simp: reads_def holds_def)

lemma reads_submit:
  "submit_next t roots = (t', roots') \<Longrightarrow> reads r t' \<longleftrightarrow> lt_mode t = ReadLease \<and> r \<in> set (lt_held t)"
  by (auto simp: submit_next_def reads_def holds_def split: list.splits if_splits)

lemma no_new_reader:
  assumes "lease_step e s = Some s'" "rl_waiting_writers (ls_roots s r) \<noteq> 0"
    and "k < length (ls_tasks s')" "reads r (ls_tasks s' ! k)"
  shows "k < length (ls_tasks s) \<and> reads r (ls_tasks s ! k)"
proof (cases e)
  case (Begin m ids)
  then show ?thesis
    using assms by (auto simp: lease_step_def begin_lease_def nth_append reads_submit
        split: option.splits prod.splits if_splits)
next
  case (BeginReadSync x)
  then show ?thesis
    using assms by (auto simp: lease_step_def begin_read_sync_def nth_append reads_def holds_def split: if_splits)
next
  case (CancelTask i)
  then show ?thesis
    using assms by (auto simp: lease_step_def cancel_task_def Let_def nth_list_update reads_def holds_def split: if_splits)
next
  case (ThreadStep i)
  then show ?thesis
    using assms by (auto simp: lease_step_def thread_step_def Let_def nth_list_update blocked_def read_blocked_def
        reads_def holds_def split: if_splits)
next
  case (Resume i)
  then show ?thesis
    using assms by (auto simp: lease_step_def resume_def Let_def nth_list_update reads_submit
        split: if_splits prod.splits) (auto simp: reads_def holds_def)
next
  case (FinishBody i)
  then show ?thesis
    using assms by (auto simp: lease_step_def finish_body_def Let_def nth_list_update reads_def holds_def split: if_splits)
next
  case (ReleaseOne i)
  then show ?thesis
    using assms by (auto simp: lease_step_def release_one_def Let_def nth_list_update wake_same
        dest: reads_rest split: if_splits)
qed

lemma waiting_counted:
  "system_ok s \<Longrightarrow> list_ex (waits_to_write r) (ls_tasks s) \<Longrightarrow> rl_waiting_writers (ls_roots s r) \<noteq> 0"
  using task_count_pos [of _ "ls_tasks s" "waits_to_write r"] by (auto simp: system_ok_def lease_ok_def list_ex_iff)

text \<open>
  C33. In every reachable system: while a task has a write lease of a root (in its body, or on the
  way to it or from it), no other task has any lease of that root. A task, reader or writer, whose
  body runs has a lease of every root it asked for: nothing is left to acquire, and no step before
  it closes changes what it asked for, which at the start are the roots of the call. While a writer
  waits for a root, whoever reads it was reading it before: no reader gets in.
\<close>

theorem leases_exclude:
  assumes "lease_reachable pool s"
  shows "(\<forall>i j r. i < length (ls_tasks s) \<and> j < length (ls_tasks s) \<and> writes r (ls_tasks s ! i) \<and> holds r (ls_tasks s ! j)
        \<longrightarrow> i = j)
    \<and> (\<forall>t r. t \<in> set (ls_tasks s) \<and> lt_phase t = Body \<and> r \<in> set (wanted t) \<longrightarrow> holds r t)
    \<and> (\<forall>m ids s'. lease_step (Begin m ids) s = Some s' \<longrightarrow> set (wanted (last (ls_tasks s'))) = set ids)
    \<and> (\<forall>e s' i. lease_step e s = Some s' \<and> i < length (ls_tasks s) \<and> lt_phase (ls_tasks s' ! i) \<noteq> Closing
        \<longrightarrow> wanted (ls_tasks s' ! i) = wanted (ls_tasks s ! i))
    \<and> (\<forall>e s' k r. lease_step e s = Some s' \<and> list_ex (waits_to_write r) (ls_tasks s)
          \<and> k < length (ls_tasks s') \<and> reads r (ls_tasks s' ! k)
        \<longrightarrow> k < length (ls_tasks s) \<and> reads r (ls_tasks s ! k))"
proof -
  have ok: "system_ok s" using assms by (rule reachable_ok)
  then have tasks: "list_all task_ok (ls_tasks s)" by (simp add: system_ok_def)
  have "holds r t" if "t \<in> set (ls_tasks s)" "lt_phase t = Body" "r \<in> set (wanted t)" for t r
    using tasks that by (auto simp: list_all_iff task_ok_def wanted_def holds_def)
  then show ?thesis
    using exclusion [OF ok] begin_wants wanted_step [OF _ tasks] no_new_reader waiting_counted [OF ok] by blast
qed

definition example_leases :: "lease_event list" where
  "example_leases = [Begin WriteLease [lit ''b'', lit ''a''], ThreadStep 0, Resume 0, Begin ReadLease [lit ''b''],
     ThreadStep 0, Resume 0, ThreadStep 1]"

theorem leases_exclude_witness:
  "\<exists>s. lease_run example_leases (new_system 2) = Some s \<and> lt_held (ls_tasks s ! 0) = [lit ''b'', lit ''a'']
    \<and> lt_phase (ls_tasks s ! 0) = Body \<and> lt_phase (ls_tasks s ! 1) = InThread False
    \<and> \<not> holds (lit ''b'') (ls_tasks s ! 1)"
proof -
  have "map_option (\<lambda>s. map (\<lambda>t. (lt_mode t, lt_held t, lt_phase t)) (ls_tasks s)) (lease_run example_leases (new_system 2))
      = Some [(WriteLease, [lit ''b'', lit ''a''], Body), (ReadLease, [], InThread False)]"
    by code_simp
  then obtain s where run: "lease_run example_leases (new_system 2) = Some s"
    and s: "map (\<lambda>t. (lt_mode t, lt_held t, lt_phase t)) (ls_tasks s)
      = [(WriteLease, [lit ''b'', lit ''a''], Body), (ReadLease, [], InThread False)]"
    by auto
  then obtain t u where ts: "ls_tasks s = [t, u]" and "lt_mode t = WriteLease" "lt_held t = [lit ''b'', lit ''a'']"
    "lt_phase t = Body" "lt_phase u = InThread False"
    by auto
  then show ?thesis
    using run leases_exclude [OF run_reachable [OF run lease_reachable.start], THEN conjunct1,
        rule_format, of 0 1 "lit ''b''"]
    by (auto simp: writes_def holds_def)
qed

text \<open>
  C34. As long as the pool has a thread for every task that is not finished, no deadlock can
  happen: from every reachable state, whatever was cancelled, the tasks that are there can all
  get their leases, run and give them back.
\<close>

theorem leases_complete:
  assumes "lease_reachable pool s" "length (filter open_task (ls_tasks s)) \<le> pool"
  shows "\<exists>es s'. list_all completes es \<and> lease_run es s = Some s' \<and> \<not> list_ex open_task (ls_tasks s')"
  by (rule all_complete [OF reachable_ok [OF assms(1)]]) (simp add: reachable_pool [OF assms(1)] assms(2))

theorem leases_complete_witness:
  "\<exists>s es s'. lease_run example_leases (new_system 2) = Some s \<and> length (filter open_task (ls_tasks s)) = 2
    \<and> lease_run es s = Some s' \<and> \<not> list_ex open_task (ls_tasks s')"
proof -
  have "map_option (\<lambda>s. length (filter open_task (ls_tasks s))) (lease_run example_leases (new_system 2)) = Some 2"
    by code_simp
  then obtain s where run: "lease_run example_leases (new_system 2) = Some s"
    and two: "length (filter open_task (ls_tasks s)) = 2"
    by auto
  with leases_complete [OF run_reachable [OF run lease_reachable.start]] show ?thesis by auto
qed

section \<open>A pool without a free thread\<close>

text \<open>
  A writer that has the first of its two roots, and \<open>k\<close> readers of that root that sleep in the
  pool.
\<close>

definition crowd_writer :: lease_task where
  "crowd_writer = \<lparr>lt_mode = WriteLease, lt_pooled = True, lt_cancelled = False, lt_todo = [[1], [2]],
     lt_held = [], lt_phase = Granted\<rparr>"

definition crowd_reader :: "lease_phase \<Rightarrow> lease_task" where
  "crowd_reader p = \<lparr>lt_mode = ReadLease, lt_pooled = True, lt_cancelled = False, lt_todo = [[1]],
     lt_held = [], lt_phase = p\<rparr>"

definition crowd_roots :: "pystr \<Rightarrow> root_lease" where
  "crowd_roots = (\<lambda>_. new_lease)([1] := enter_registered_write (register_write_waiter new_lease))"

definition crowd :: "nat \<Rightarrow> nat \<Rightarrow> lease_system" where
  "crowd pool k = \<lparr>ls_pool = pool, ls_roots = crowd_roots,
     ls_tasks = crowd_writer # replicate k (crowd_reader (InThread False))\<rparr>"

lemma crowd_start: "0 < pool \<Longrightarrow> lease_reachable pool (crowd pool 0)"
  by (rule run_reachable [OF _ lease_reachable.start, of "[Begin WriteLease [[1], [2]], ThreadStep 0]"])
    (simp add: lease_step_def begin_lease_def ordered_states_def submit_next_def thread_step_def may_look_def
      uses_thread_def lease_ops new_system_def new_lease_def crowd_def crowd_roots_def crowd_writer_def Let_def
      insort_key.simps)

lemma crowd_grows: "k < pool \<Longrightarrow> lease_reachable pool (crowd pool k) \<Longrightarrow> lease_reachable pool (crowd pool (Suc k))"
proof (rule run_reachable [of "[Begin ReadLease [[1]], ThreadStep (Suc k)]" "crowd pool k"])
  assume "k < pool"
  then show "lease_run [Begin ReadLease [[1]], ThreadStep (Suc k)] (crowd pool k) = Some (crowd pool (Suc k))"
    by (simp add: lease_step_def begin_lease_def ordered_states_def submit_next_def thread_step_def may_look_def
        crowd_def crowd_writer_def crowd_reader_def crowd_roots_def uses_thread_def lease_ops nth_append Let_def
        new_lease_def list_update_append flip: replicate_append_same)
qed

lemma crowd_reachable: "0 < pool \<Longrightarrow> k \<le> pool \<Longrightarrow> lease_reachable pool (crowd pool k)"
  by (induction k) (auto simp: crowd_start intro: crowd_grows)

definition stuck :: "nat \<Rightarrow> lease_system" where
  "stuck pool = \<lparr>ls_pool = pool, ls_roots = crowd_roots([2] := register_write_waiter new_lease),
     ls_tasks = crowd_writer\<lparr>lt_todo := [[2]], lt_held := [[1]], lt_phase := Queued\<rparr>
                # replicate pool (crowd_reader (InThread False))\<rparr>"

lemma stuck_reachable: "0 < pool \<Longrightarrow> lease_reachable pool (stuck pool)"
  by (rule run_reachable [OF _ crowd_reachable [of pool pool], of "[Resume 0]"])
    (simp_all add: lease_step_def resume_def crowd_def crowd_writer_def submit_next_def stuck_def crowd_roots_def)

lemma stuck_stops:
  assumes "completes e"
  shows "lease_step e (stuck pool) = None"
proof -
  have task: "lt_phase (ls_tasks (stuck pool) ! i) = (if i = 0 then Queued else InThread False)"
    if "i < length (ls_tasks (stuck pool))" for i
    using that by (cases i) (auto simp: stuck_def crowd_reader_def)
  have "length (filter uses_thread (ls_tasks (stuck pool))) = pool"
    by (simp add: stuck_def uses_thread_def crowd_writer_def crowd_reader_def)
  then have look: "\<not> may_look (stuck pool) (ls_tasks (stuck pool) ! i)"
    and phase: "lt_phase (ls_tasks (stuck pool) ! i) \<notin> {Granted, Body, Closing}"
    if "i < length (ls_tasks (stuck pool))" for i
    using task [OF that] by (simp_all add: may_look_def) (simp add: stuck_def)
  show ?thesis
  proof (cases e)
    case (ThreadStep i)
    then show ?thesis using look [of i] by (auto simp: lease_step_def thread_step_def Let_def)
  next
    case (Resume i)
    then show ?thesis using phase [of i] by (auto simp: lease_step_def resume_def Let_def)
  next
    case (FinishBody i)
    then show ?thesis using phase [of i] by (auto simp: lease_step_def finish_body_def Let_def)
  next
    case (ReleaseOne i)
    then show ?thesis using phase [of i] by (cases "i < length (ls_tasks (stuck pool))") (auto simp: lease_step_def release_one_def Let_def)
  qed (use assms in \<open>simp_all add: completes_def\<close>)
qed

text \<open>
  With a pool of any fixed number of threads a deadlock can happen: a publisher has the first
  of two roots, so many readers of that root that every thread is theirs go to sleep in the
  pool, and the publisher's acquisition of the second root waits for a thread for ever. No task is
  in its body and none can take another step.
\<close>

theorem pool_exhaustion_deadlock:
  "\<exists>s. lease_reachable (Suc n) s \<and> length (ls_tasks s) = Suc (Suc n)
    \<and> list_all (\<lambda>t. is_waiting t \<and> open_task t) (ls_tasks s)
    \<and> {e. completes e \<and> lease_step e s \<noteq> None} = {}"
proof (intro exI conjI)
  show "lease_reachable (Suc n) (stuck (Suc n))" by (rule stuck_reachable) simp
  show "length (ls_tasks (stuck (Suc n))) = Suc (Suc n)" by (simp add: stuck_def)
  show "list_all (\<lambda>t. is_waiting t \<and> open_task t) (ls_tasks (stuck (Suc n)))"
    by (simp add: stuck_def is_waiting_def open_task_def crowd_reader_def list_all_iff)
  show "{e. completes e \<and> lease_step e (stuck (Suc n)) \<noteq> None} = {}" using stuck_stops by auto
qed

end
