(* ===== verification/Policy_Resolver.thy ===== *)
theory Policy_Resolver
  imports Py_Text "HOL-Library.List_Lexorder" "HOL-Library.Product_Lexorder"
begin

text \<open>
  \<open>services/native/library_policy_resolver.py\<close>: the settings of the library roots are checked
  and put into normal form, and the policy of a path is that of its most specific rule. Paths are
  POSIX paths. What the operating system says of them (\<open>Path.resolve\<close>, \<open>Path.exists\<close>) is a
  parameter; the hash that identifies a revision of the settings is not modelled.
\<close>

section \<open>Data\<close>

datatype identification_policy = LocalMetadata | Automatic | Excluded

record policy_rule =
  pr_id :: pystr
  pr_relative_path :: pystr
  pr_policy :: identification_policy

record root_settings =
  rs_id :: pystr
  rs_path :: pystr
  rs_label :: pystr
  rs_policy :: identification_policy
  rs_rules :: "policy_rule list"

record typed_settings =
  ts_library_roots :: "root_settings list"
  ts_staging_path :: pystr
  ts_naming_template :: pystr
  ts_acoustid_api_key :: pystr
  ts_enabled :: bool

record resolved_policy =
  rp_root_id :: pystr
  rp_relative_path :: pystr
  rp_policy :: identification_policy
  rp_inherited_from_id :: pystr

record path_system =
  ps_resolve :: "pypath \<Rightarrow> pypath"
  ps_exists :: "pypath \<Rightarrow> bool"

text \<open>One constructor for each \<open>ConfigurationError\<close>, with the names that its message gives.\<close>

datatype config_error =
  RootWithoutPath | RootNotAbsolute pystr | RootIdNotUnique | RootLabelNotUnique | RootInStaging pystr
| SamePath pystr pystr | OverlappingRoots pystr pystr
| RuleWithoutPath | RuleWithBackslash | RuleLeavesRoot pystr | RuleIdNotUnique pystr | RuleRepeated pystr pystr
| RuleOutsideRoot pystr pystr | PathInSeveralRoots pystr

section \<open>Paths\<close>

text \<open>\<open>os.path.normpath\<close>; the components kept so far are in reverse order.\<close>

fun norm_components :: "bool \<Rightarrow> pystr list \<Rightarrow> pystr list \<Rightarrow> pystr list" where
  "norm_components absolute kept [] = rev kept"
| "norm_components absolute kept (c # cs) =
     (if c = [] \<or> c = [c_dot] then norm_components absolute kept cs
      else if c \<noteq> [c_dot, c_dot] \<or> (\<not> absolute \<and> kept = []) \<or> (kept \<noteq> [] \<and> hd kept = [c_dot, c_dot])
      then norm_components absolute (c # kept) cs
      else norm_components absolute (tl kept) cs)"

definition normpath :: "pystr \<Rightarrow> pystr" where
  "normpath s =
     (let anchor = p_anchor (path_of s);
          text = anchor @ py_join [c_slash] (norm_components (anchor \<noteq> []) [] (split_on c_slash s))
      in if text = [] then [c_dot] else text)"

definition is_relative_to :: "pypath \<Rightarrow> pypath \<Rightarrow> bool" where
  "is_relative_to p q \<longleftrightarrow> p_anchor p = p_anchor q \<and> take (length (p_parts q)) (p_parts p) = p_parts q"

definition canonical_root :: "unidb \<Rightarrow> path_system \<Rightarrow> pystr \<Rightarrow> config_error + pypath" where
  "canonical_root u ps path =
     (if py_strip u path = [] then Inl RootWithoutPath
      else let candidate = path_of (normpath (py_strip u path))
           in if p_anchor candidate = [] then Inl (RootNotAbsolute path) else Inr (ps_resolve ps candidate))"

definition normalise_rule_path :: "unidb \<Rightarrow> pystr \<Rightarrow> config_error + pystr" where
  "normalise_rule_path u path =
     (let candidate = py_strip u path; parsed = path_of candidate; parts = p_parts parsed
      in if candidate = [] then Inl RuleWithoutPath
         else if List.member candidate c_backslash then Inl RuleWithBackslash
         else if p_anchor parsed \<noteq> [] \<or> (parts \<noteq> [] \<and> py_endswith (hd parts) [c_colon])
                 \<or> list_ex (\<lambda>p. List.member [[], [c_dot], [c_dot, c_dot]] p) parts
         then Inl (RuleLeavesRoot path)
         else Inr (path_str parsed))"

section \<open>Checking the settings\<close>

definition warning :: "string \<Rightarrow> pystr \<Rightarrow> string \<Rightarrow> pystr \<Rightarrow> string \<Rightarrow> pystr" where
  "warning a x b y c = lit a @ x @ lit b @ y @ lit c"

fun validate_rules ::
  "unidb \<Rightarrow> path_system \<Rightarrow> pystr \<Rightarrow> pypath \<Rightarrow> pystr list \<Rightarrow> pystr list \<Rightarrow> policy_rule list
     \<Rightarrow> config_error + policy_rule list \<times> pystr list" where
  "validate_rules u ps label canonical rule_ids rule_paths [] = Inr ([], [])"
| "validate_rules u ps label canonical rule_ids rule_paths (rule # rules) =
     (if py_strip u (pr_id rule) = [] \<or> List.member rule_ids (pr_id rule) then Inl (RuleIdNotUnique label)
      else rbind (normalise_rule_path u (pr_relative_path rule)) (\<lambda>relative.
        let resolved = ps_resolve ps (path_div canonical \<lparr>p_anchor = [], p_parts = p_parts (path_of relative)\<rparr>)
        in if List.member rule_paths relative then Inl (RuleRepeated label relative)
           else if \<not> is_relative_to resolved canonical then Inl (RuleOutsideRoot relative label)
           else rbind (validate_rules u ps label canonical (pr_id rule # rule_ids) (relative # rule_paths) rules)
             (\<lambda>(rules', warnings).
               Inr (rule\<lparr>pr_relative_path := relative\<rparr> # rules',
                    (if ps_exists ps resolved then []
                     else [warning ''Policy path '' relative '' under '' label '' is not currently available.''])
                    @ warnings))))"

definition rule_order :: "policy_rule \<Rightarrow> nat \<times> pystr" where
  "rule_order rule = (length (p_parts (path_of (pr_relative_path rule))), pr_relative_path rule)"

fun check_overlap :: "pystr \<Rightarrow> pypath \<Rightarrow> (pystr \<times> pypath) list \<Rightarrow> config_error + unit" where
  "check_overlap label canonical [] = Inr ()"
| "check_overlap label canonical ((other_label, other) # paths) =
     (if canonical = other then Inl (SamePath other_label label)
      else if is_relative_to canonical other \<or> is_relative_to other canonical
      then Inl (OverlappingRoots other_label label)
      else check_overlap label canonical paths)"

definition validate_root ::
  "unidb \<Rightarrow> path_system \<Rightarrow> pypath option \<Rightarrow> pystr list \<Rightarrow> pystr list \<Rightarrow> (pystr \<times> pypath) list \<Rightarrow> root_settings
     \<Rightarrow> config_error + root_settings \<times> pypath \<times> pystr list" where
  "validate_root u ps staging root_ids labels paths root =
     (let label = py_strip u (rs_label root)
      in if py_strip u (rs_id root) = [] \<or> List.member root_ids (rs_id root) then Inl RootIdNotUnique
         else if label = [] \<or> List.member labels (py_casefold u label) then Inl RootLabelNotUnique
         else rbind (canonical_root u ps (rs_path root)) (\<lambda>canonical.
           if (case staging of None \<Rightarrow> False | Some s \<Rightarrow> is_relative_to canonical s) then Inl (RootInStaging label)
           else rbind (check_overlap label canonical paths) (\<lambda>_.
             rbind (validate_rules u ps label canonical [] [] (rs_rules root)) (\<lambda>(rules, warnings).
               Inr (root\<lparr>rs_path := path_str canonical, rs_label := label, rs_rules := sort_key rule_order rules\<rparr>,
                    canonical,
                    warnings @ (if ps_exists ps canonical then []
                                else [warning ''Library root '' label '' is not currently available.'' [] '''']))))))"

fun validate_roots ::
  "unidb \<Rightarrow> path_system \<Rightarrow> pypath option \<Rightarrow> pystr list \<Rightarrow> pystr list \<Rightarrow> (pystr \<times> pypath) list \<Rightarrow> root_settings list
     \<Rightarrow> config_error + root_settings list \<times> pystr list" where
  "validate_roots u ps staging root_ids labels paths [] = Inr ([], [])"
| "validate_roots u ps staging root_ids labels paths (root # roots) =
     rbind (validate_root u ps staging root_ids labels paths root) (\<lambda>(root', canonical, warnings).
       rbind (validate_roots u ps staging (rs_id root # root_ids) (py_casefold u (rs_label root') # labels)
                (paths @ [(rs_label root', canonical)]) roots) (\<lambda>(roots', warnings').
         Inr (root' # roots', warnings @ warnings')))"

definition normalise_and_validate ::
  "unidb \<Rightarrow> path_system \<Rightarrow> typed_settings \<Rightarrow> config_error + typed_settings \<times> pystr list" where
  "normalise_and_validate u ps settings =
     (let staging = (if py_strip u (ts_staging_path settings) = [] then None
                     else Some (ps_resolve ps (path_of (ts_staging_path settings))))
      in rbind (validate_roots u ps staging [] [] [] (ts_library_roots settings)) (\<lambda>(roots, warnings).
           Inr (settings\<lparr>ts_library_roots := roots,
                         ts_staging_path := (case staging of None \<Rightarrow> [] | Some s \<Rightarrow> path_str s)\<rparr>, warnings)))"

section \<open>The policy of a path\<close>

definition rule_parts :: "policy_rule \<Rightarrow> pystr list" where
  "rule_parts rule = p_parts (path_of (pr_relative_path rule))"

definition applies :: "pystr list \<Rightarrow> policy_rule \<Rightarrow> bool" where
  "applies relative_parts rule \<longleftrightarrow> take (length (rule_parts rule)) relative_parts = rule_parts rule"

definition select_rule :: "pystr list \<Rightarrow> policy_rule list \<Rightarrow> policy_rule option" where
  "select_rule relative_parts rules =
     fold (\<lambda>rule selected. if applies relative_parts rule then Some rule else selected) rules None"

definition root_path :: "root_settings \<Rightarrow> pypath" where
  "root_path root = path_of (rs_path root)"

definition resolve_policy ::
  "path_system \<Rightarrow> typed_settings \<Rightarrow> pystr \<Rightarrow> config_error + resolved_policy option" where
  "resolve_policy ps settings path =
     (let candidate = ps_resolve ps (path_of path)
      in case filter (\<lambda>root. is_relative_to candidate (root_path root)) (ts_library_roots settings) of
           [] \<Rightarrow> Inr None
         | [root] \<Rightarrow>
             (let relative_parts = drop (length (p_parts (root_path root))) (p_parts candidate);
                  selected = select_rule relative_parts (rs_rules root)
              in Inr (Some \<lparr>rp_root_id = rs_id root,
                            rp_relative_path = path_str \<lparr>p_anchor = [], p_parts = relative_parts\<rparr>,
                            rp_policy = (case selected of None \<Rightarrow> rs_policy root | Some rule \<Rightarrow> pr_policy rule),
                            rp_inherited_from_id = (case selected of None \<Rightarrow> rs_id root | Some rule \<Rightarrow> pr_id rule)\<rparr>))
         | _ \<Rightarrow> Inl (PathInSeveralRoots path))"

section \<open>Valid settings\<close>

text \<open>Paths in normal form are read back as they were written.\<close>

definition path_normal :: "pypath \<Rightarrow> bool" where
  "path_normal p \<longleftrightarrow> path_of (path_str p) = p"

definition paths_normal :: "path_system \<Rightarrow> bool" where
  "paths_normal ps \<longleftrightarrow> (\<forall>p. path_normal (ps_resolve ps p))"

lemma in_split_on: "x \<in> set (split_on d s) \<Longrightarrow> d \<notin> set x"
  by (induction s arbitrary: x) (auto split: list.splits if_splits)

lemma relative_normal:
  assumes "list_all contained parts"
  shows "p_parts (path_of (path_str \<lparr>p_anchor = [], p_parts = parts\<rparr>)) = parts"
proof (cases "parts = []")
  case True
  then show ?thesis by (simp add: path_str_def path_of_def)
next
  case False
  then show ?thesis using path_of_join [OF False assms] by (simp add: path_str_def)
qed

lemma normalise_rule_path_Inr:
  assumes "normalise_rule_path u path = Inr relative"
  shows "relative = path_str \<lparr>p_anchor = [], p_parts = p_parts (path_of relative)\<rparr>"
proof -
  let ?p = "path_of (py_strip u path)"
  have r: "relative = path_str ?p" "p_anchor ?p = []"
    and dots: "list_all (\<lambda>p. p \<noteq> [] \<and> p \<noteq> [c_dot] \<and> p \<noteq> [c_dot, c_dot]) (p_parts ?p)"
    using assms by (auto simp: normalise_rule_path_def Let_def list_ex_iff list_all_iff split: if_splits)
  have "c_slash \<notin> set x" if "x \<in> set (p_parts ?p)" for x
    using that by (auto simp: path_of_def Let_def dest: in_split_on)
  then have "list_all contained (p_parts ?p)" using dots by (auto simp: list_all_iff contained_def)
  moreover have "?p = \<lparr>p_anchor = [], p_parts = p_parts ?p\<rparr>" using r(2) by simp
  ultimately show ?thesis using relative_normal [of "p_parts ?p"] r(1) by simp
qed

lemma validate_rules_Inr:
  assumes "validate_rules u ps label canonical ids rule_paths rules = Inr (rules', warnings)"
  shows "distinct (map pr_relative_path rules') \<and> set rule_paths \<inter> set (map pr_relative_path rules') = {}
    \<and> list_all (\<lambda>r. pr_relative_path r = path_str \<lparr>p_anchor = [], p_parts = rule_parts r\<rparr>) rules'"
  using assms
proof (induction rules arbitrary: ids rule_paths rules' warnings)
  case (Cons rule rules)
  then obtain relative more w where rel: "normalise_rule_path u (pr_relative_path rule) = Inr relative"
    and fresh: "relative \<notin> set rule_paths"
    and rest: "validate_rules u ps label canonical (pr_id rule # ids) (relative # rule_paths) rules = Inr (more, w)"
    and rules': "rules' = rule\<lparr>pr_relative_path := relative\<rparr> # more"
    by (auto simp: ok_simps Let_def split: if_splits prod.splits)
  show ?case
    using Cons.IH [OF rest] fresh normalise_rule_path_Inr [OF rel] by (auto simp: rules' rule_parts_def)
qed simp

text \<open>What checked settings guarantee.\<close>

definition rules_ok :: "policy_rule list \<Rightarrow> bool" where
  "rules_ok rules \<longleftrightarrow>
     distinct (map pr_relative_path rules) \<and> sorted (map rule_order rules)
     \<and> list_all (\<lambda>r. pr_relative_path r = path_str \<lparr>p_anchor = [], p_parts = rule_parts r\<rparr>) rules"

definition disjoint_roots :: "pypath list \<Rightarrow> bool" where
  "disjoint_roots ps \<longleftrightarrow> sorted_wrt (\<lambda>p q. \<not> is_relative_to p q \<and> \<not> is_relative_to q p) ps"

lemma check_overlap_Inr:
  "check_overlap label canonical paths = Inr () \<longleftrightarrow>
     list_all (\<lambda>(_, other). \<not> is_relative_to canonical other \<and> \<not> is_relative_to other canonical) paths"
  by (induction paths rule: check_overlap.induct) (auto simp: is_relative_to_def)

lemma canonical_root_Inr: "canonical_root u ps path = Inr c \<Longrightarrow> paths_normal ps \<Longrightarrow> path_normal c"
  by (auto simp: canonical_root_def paths_normal_def Let_def split: if_splits)

lemma validate_root_Inr:
  assumes "validate_root u ps staging ids labels paths root = Inr (root', canonical, warnings)" "paths_normal ps"
  shows "root_path root' = canonical" "rules_ok (rs_rules root')"
    "list_all (\<lambda>(_, other). \<not> is_relative_to canonical other \<and> \<not> is_relative_to other canonical) paths"
proof -
  obtain rules w where c: "canonical_root u ps (rs_path root) = Inr canonical"
    and o: "check_overlap (py_strip u (rs_label root)) canonical paths = Inr ()"
    and r: "validate_rules u ps (py_strip u (rs_label root)) canonical [] [] (rs_rules root) = Inr (rules, w)"
    and root': "root' = root\<lparr>rs_path := path_str canonical, rs_label := py_strip u (rs_label root),
      rs_rules := sort_key rule_order rules\<rparr>"
    using assms(1) by (auto simp: validate_root_def ok_simps Let_def split: if_splits prod.splits)
  show "root_path root' = canonical"
    using canonical_root_Inr [OF c assms(2)] by (simp add: root' root_path_def path_normal_def)
  show "rules_ok (rs_rules root')"
    using validate_rules_Inr [OF r]
    by (simp add: root' rules_ok_def list_all_iff distinct_map)
  show "list_all (\<lambda>(_, other). \<not> is_relative_to canonical other \<and> \<not> is_relative_to other canonical) paths"
    using o by (simp add: check_overlap_Inr)
qed

lemma validate_roots_Inr:
  assumes "validate_roots u ps staging ids labels paths roots = Inr (roots', warnings)" "paths_normal ps"
    and "disjoint_roots (map snd paths)"
  shows "disjoint_roots (map snd paths @ map root_path roots') \<and> list_all (\<lambda>r. rules_ok (rs_rules r)) roots'"
  using assms
proof (induction roots arbitrary: ids labels paths roots' warnings)
  case (Cons root roots)
  then obtain root' canonical w rest w' where
    root: "validate_root u ps staging ids labels paths root = Inr (root', canonical, w)"
    and rest: "validate_roots u ps staging (rs_id root # ids) (py_casefold u (rs_label root') # labels)
      (paths @ [(rs_label root', canonical)]) roots = Inr (rest, w')"
    and roots': "roots' = root' # rest"
    by (auto simp: ok_simps split: prod.splits)
  note R = validate_root_Inr [OF root Cons.prems(2)]
  have "disjoint_roots (map snd (paths @ [(rs_label root', canonical)]))"
    using Cons.prems(3) R(3) by (auto simp: disjoint_roots_def sorted_wrt_append list_all_iff)
  from Cons.IH [OF rest Cons.prems(2) this] R(1,2) show ?case by (simp add: roots')
qed simp

section \<open>The resolved policy\<close>

lemma select_rule_last:
  "fold (\<lambda>rule selected. if applies parts rule then Some rule else selected) rules start
    = (if filter (applies parts) rules = [] then start else Some (last (filter (applies parts) rules)))"
  by (induction rules arbitrary: start) auto

lemma sorted_last: "sorted xs \<Longrightarrow> x \<in> set xs \<Longrightarrow> x \<le> last xs"
  by (induction xs) auto

text \<open>The rule that applies and has more components than every other one that does.\<close>

definition deepest :: "pystr list \<Rightarrow> policy_rule list \<Rightarrow> policy_rule \<Rightarrow> bool" where
  "deepest parts rules rule \<longleftrightarrow>
     rule \<in> set rules \<and> applies parts rule
     \<and> (\<forall>other\<in>set rules. applies parts other \<longrightarrow> other = rule \<or> length (rule_parts other) < length (rule_parts rule))"

lemma select_rule_correct:
  assumes "rules_ok rules"
  shows "case select_rule parts rules of None \<Rightarrow> \<not> list_ex (applies parts) rules | Some rule \<Rightarrow> deepest parts rules rule"
proof (cases "filter (applies parts) rules = []")
  case True
  then show ?thesis by (simp add: select_rule_def select_rule_last filter_empty_conv list_ex_iff)
next
  case False
  let ?r = "last (filter (applies parts) rules)"
  have r: "?r \<in> set rules" "applies parts ?r" using last_in_set [OF False] by auto
  have "other = ?r \<or> length (rule_parts other) < length (rule_parts ?r)"
    if other: "other \<in> set rules" "applies parts other" for other
  proof -
    have "sorted (map rule_order (filter (applies parts) rules))"
      using assms by (simp add: rules_ok_def sorted_filter)
    then have "rule_order other \<le> last (map rule_order (filter (applies parts) rules))"
      using other by (intro sorted_last) auto
    then have le: "rule_order other \<le> rule_order ?r" by (simp add: last_map [OF False])
    show ?thesis
    proof (cases "length (rule_parts other) = length (rule_parts ?r)")
      case True
      then have "rule_parts other = rule_parts ?r" using other(2) r(2) by (metis applies_def)
      then have "pr_relative_path other = pr_relative_path ?r"
        using assms other(1) r(1) by (simp add: rules_ok_def list_all_iff)
      then show ?thesis using assms other(1) r(1) by (auto simp: rules_ok_def distinct_map dest: inj_onD)
    next
      case False
      then show ?thesis using le by (auto simp: rule_order_def rule_parts_def less_eq_prod_def)
    qed
  qed
  then have "deepest parts rules ?r" using r unfolding deepest_def by blast
  then show ?thesis using False by (simp add: select_rule_def select_rule_last)
qed

lemma common_path: "is_relative_to p q \<Longrightarrow> is_relative_to p r \<Longrightarrow> is_relative_to q r \<or> is_relative_to r q"
  unfolding is_relative_to_def
  by (metis linear min_def take_take)

lemma sorted_wrt_single:
  assumes "sorted_wrt R xs" "\<And>a b. a \<in> set xs \<Longrightarrow> b \<in> set xs \<Longrightarrow> \<not> R a b" "x \<in> set xs"
  shows "xs = [x]"
proof (cases xs)
  case (Cons y ys)
  then show ?thesis using assms(1) assms(2) [of y "hd ys"] assms(3) by (cases ys) auto
qed (use assms(3) in simp)

lemma one_root:
  assumes "disjoint_roots (map root_path roots)" "is_relative_to p (root_path root)" "root \<in> set roots"
  shows "filter (\<lambda>r. is_relative_to p (root_path r)) roots = [root]"
proof (rule sorted_wrt_single)
  let ?f = "filter (\<lambda>r. is_relative_to p (root_path r)) roots"
  let ?R = "\<lambda>a b. \<not> is_relative_to (root_path a) (root_path b) \<and> \<not> is_relative_to (root_path b) (root_path a)"
  show "sorted_wrt ?R ?f" using assms(1) by (simp add: disjoint_roots_def sorted_wrt_map sorted_wrt_filter)
  show "root \<in> set ?f" using assms by simp
  show "\<not> ?R a b" if "a \<in> set ?f" "b \<in> set ?f" for a b
    using that common_path [of p "root_path a" "root_path b"] by simp
qed

text \<open>
  What a resolution says: the one root that the path is below, the path below it, and the policy
  of the deepest rule that applies, or that of the root.
\<close>

definition resolution_correct :: "root_settings list \<Rightarrow> pypath \<Rightarrow> resolved_policy option \<Rightarrow> bool" where
  "resolution_correct roots candidate resolved \<longleftrightarrow>
     (case resolved of
        None \<Rightarrow> \<not> list_ex (\<lambda>root. is_relative_to candidate (root_path root)) roots
      | Some p \<Rightarrow>
          (\<exists>root parts. root \<in> set roots \<and> candidate = (root_path root)\<lparr>p_parts := p_parts (root_path root) @ parts\<rparr>
             \<and> (\<forall>other\<in>set roots. is_relative_to candidate (root_path other) \<longrightarrow> other = root)
             \<and> rp_root_id p = rs_id root \<and> rp_relative_path p = path_str \<lparr>p_anchor = [], p_parts = parts\<rparr>
             \<and> (if list_ex (applies parts) (rs_rules root)
                then \<exists>rule. deepest parts (rs_rules root) rule
                       \<and> rp_policy p = pr_policy rule \<and> rp_inherited_from_id p = pr_id rule
                else rp_policy p = rs_policy root \<and> rp_inherited_from_id p = rs_id root)))"

lemma below_parts:
  assumes "is_relative_to p q"
  obtains parts where "p = q\<lparr>p_parts := p_parts q @ parts\<rparr>" "drop (length (p_parts q)) (p_parts p) = parts"
proof -
  have "p_parts p = p_parts q @ drop (length (p_parts q)) (p_parts p)"
    using assms append_take_drop_id [of "length (p_parts q)" "p_parts p"] by (simp add: is_relative_to_def)
  then have "p = q\<lparr>p_parts := p_parts q @ drop (length (p_parts q)) (p_parts p)\<rparr>"
    using assms by (cases p; cases q) (simp add: is_relative_to_def)
  then show thesis using that by blast
qed

lemma resolve_correct:
  assumes "normalise_and_validate u ps settings = Inr (valid, warnings)" "paths_normal ps"
  shows "\<exists>r. resolve_policy ps valid path = Inr r
    \<and> resolution_correct (ts_library_roots valid) (ps_resolve ps (path_of path)) r"
proof -
  let ?roots = "ts_library_roots valid" and ?c = "ps_resolve ps (path_of path)"
  obtain staging roots w where "validate_roots u ps staging [] [] [] (ts_library_roots settings) = Inr (roots, w)"
    and "ts_library_roots valid = roots"
    using assms(1) by (auto simp: normalise_and_validate_def ok_simps Let_def)
  with validate_roots_Inr [OF _ assms(2)] have disjoint: "disjoint_roots (map root_path ?roots)"
    and rules: "list_all (\<lambda>r. rules_ok (rs_rules r)) ?roots"
    by (fastforce simp: disjoint_roots_def)+
  show ?thesis
  proof (cases "list_ex (\<lambda>root. is_relative_to ?c (root_path root)) ?roots")
    case False
    then have "filter (\<lambda>root. is_relative_to ?c (root_path root)) ?roots = []"
      by (simp add: list_ex_iff filter_empty_conv)
    then show ?thesis using False by (simp add: resolve_policy_def resolution_correct_def)
  next
    case True
    then obtain root where root: "root \<in> set ?roots" "is_relative_to ?c (root_path root)" by (auto simp: list_ex_iff)
    note one = one_root [OF disjoint root(2,1)]
    obtain parts where c: "?c = (root_path root)\<lparr>p_parts := p_parts (root_path root) @ parts\<rparr>"
      and parts: "drop (length (p_parts (root_path root))) (p_parts ?c) = parts"
      using below_parts [OF root(2)] .
    have only: "other = root" if "other \<in> set ?roots" "is_relative_to ?c (root_path other)" for other
    proof -
      have "other \<in> set (filter (\<lambda>r. is_relative_to ?c (root_path r)) ?roots)" using that by simp
      then show ?thesis unfolding one by simp
    qed
    have "rules_ok (rs_rules root)" using rules root(1) by (simp add: list_all_iff)
    note S = select_rule_correct [OF this, of parts]
    let ?sel = "select_rule parts (rs_rules root)"
    let ?r = "\<lparr>rp_root_id = rs_id root, rp_relative_path = path_str \<lparr>p_anchor = [], p_parts = parts\<rparr>,
        rp_policy = (case ?sel of None \<Rightarrow> rs_policy root | Some rule \<Rightarrow> pr_policy rule),
        rp_inherited_from_id = (case ?sel of None \<Rightarrow> rs_id root | Some rule \<Rightarrow> pr_id rule)\<rparr>"
    have run: "resolve_policy ps valid path = Inr (Some ?r)"
      by (simp add: resolve_policy_def one parts Let_def)
    have "if list_ex (applies parts) (rs_rules root)
        then \<exists>rule. deepest parts (rs_rules root) rule \<and> rp_policy ?r = pr_policy rule \<and> rp_inherited_from_id ?r = pr_id rule
        else rp_policy ?r = rs_policy root \<and> rp_inherited_from_id ?r = rs_id root"
    proof (cases ?sel)
      case None
      then show ?thesis using S by simp
    next
      case (Some rule)
      then have d: "deepest parts (rs_rules root) rule" using S by simp
      then have "list_ex (applies parts) (rs_rules root)" by (auto simp: deepest_def list_ex_iff)
      then show ?thesis using d Some by auto
    qed
    then have "resolution_correct ?roots ?c (Some ?r)"
      unfolding resolution_correct_def option.case
      by (intro exI [of _ root] exI [of _ parts] conjI ballI impI root(1) c) (use only in \<open>simp_all split del: if_split\<close>)
    then show ?thesis using run by blast
  qed
qed

section \<open>Properties\<close>

text \<open>
  C35. Once the settings have passed the check, resolving a path never fails. A path below no root
  has no policy; any other path is below exactly one root, and it gets the policy of the rule with
  the most components that applies to it, which is unique, or that of the root when none applies.
\<close>

theorem policy_resolution_sound:
  assumes "normalise_and_validate u ps settings = Inr (valid, warnings)" "paths_normal ps"
  shows "\<exists>r. resolve_policy ps valid path = Inr r
    \<and> resolution_correct (ts_library_roots valid) (ps_resolve ps (path_of path)) r"
  using assms by (rule resolve_correct)

text \<open>A file system without links, where every path exists.\<close>

lemma split_on_slashes:
  "split_on d (replicate n d @ s) = replicate n [] @ split_on d s"
  by (induction n) auto

lemma path_of_normal: "path_normal (path_of s)"
proof -
  let ?a = "p_anchor (path_of s)" and ?ts = "p_parts (path_of s)"
  have parts: "t \<noteq> []" "t \<noteq> [c_dot]" "c_slash \<notin> set t" if "t \<in> set ?ts" for t
    using that by (auto simp: path_of_def Let_def dest: in_split_on)
  obtain n where a: "?a = replicate n c_slash" "n \<le> 2"
  proof -
    have "?a = replicate 0 c_slash \<or> ?a = replicate 1 c_slash \<or> ?a = replicate 2 c_slash"
      by (auto simp: path_of_def Let_def numeral_2_eq_2)
    then show thesis using that [of 0] that [of 1] that [of 2] by auto
  qed
  show ?thesis
  proof (cases ?ts)
    case Nil
    then show ?thesis
      using a by (cases "path_of s") (auto simp: path_normal_def path_str_def path_of_def Let_def numeral_2_eq_2 le_Suc_eq
          py_startswith_def)
  next
    case (Cons t ts)
    then obtain c r where c: "py_join [c_slash] ?ts = c # r" "c \<noteq> c_slash"
      using parts [of t] by (cases t; cases ts) auto
    have "split_on c_slash (py_join [c_slash] ?ts) = ?ts"
      using Cons parts by (intro split_on_join) (auto simp: list_all_iff)
    then have "split_on c_slash (path_str (path_of s)) = replicate n [] @ ?ts"
      using a(1) Cons by (simp add: path_str_def split_on_slashes)
    moreover have "filter (\<lambda>p. p \<noteq> [] \<and> p \<noteq> [c_dot]) ?ts = ?ts" using parts by (simp add: filter_id_conv)
    moreover have "path_str (path_of s) = replicate n c_slash @ c # r" using a(1) Cons c(1) by (simp add: path_str_def)
    then have anchor: "p_anchor (path_of (path_str (path_of s))) = replicate n c_slash"
      using a(2) c(2) by (auto simp: path_of_def Let_def py_startswith_def numeral_2_eq_2 le_Suc_eq)
    ultimately have "p_parts (path_of (path_str (path_of s))) = ?ts" by (simp add: path_of_def Let_def)
    with anchor a(1) show ?thesis by (simp add: path_normal_def)
  qed
qed

definition plain_system :: path_system where
  "plain_system = \<lparr>ps_resolve = (\<lambda>p. path_of (path_str p)), ps_exists = (\<lambda>p. True)\<rparr>"

lemma plain_system_normal: "paths_normal plain_system"
  by (simp add: paths_normal_def plain_system_def path_of_normal)

definition example_settings :: "(string \<times> string \<times> identification_policy) list \<Rightarrow> typed_settings" where
  "example_settings rules =
     \<lparr>ts_library_roots = [\<lparr>rs_id = lit ''r'', rs_path = lit '' /m/./music/'', rs_label = lit ''Music'', rs_policy = Automatic,
        rs_rules = map (\<lambda>(i, path, policy). \<lparr>pr_id = lit i, pr_relative_path = lit path, pr_policy = policy\<rparr>) rules\<rparr>],
      ts_staging_path = [], ts_naming_template = [], ts_acoustid_api_key = [], ts_enabled = True\<rparr>"

definition check_and_resolve ::
  "path_system \<Rightarrow> typed_settings \<Rightarrow> pystr \<Rightarrow> config_error + pystr list \<times> (identification_policy \<times> pystr) option" where
  "check_and_resolve ps settings path =
     rbind (normalise_and_validate ascii_db ps settings) (\<lambda>(valid, warnings).
       rbind (resolve_policy ps valid path) (\<lambda>r.
         Inr (warnings, map_option (\<lambda>r. (rp_policy r, rp_relative_path r)) r)))"

theorem policy_resolution_sound_witness:
  "\<exists>valid r. normalise_and_validate ascii_db plain_system
      (example_settings [(''2'', ''Jazz//Live'', Excluded), (''1'', ''Jazz'', LocalMetadata)]) = Inr (valid, [])
    \<and> resolve_policy plain_system valid (lit ''/m/music/Jazz/Live/x'') = Inr (Some r)
    \<and> rp_policy r = Excluded \<and> rp_relative_path r = lit ''Jazz/Live/x''
    \<and> resolution_correct (ts_library_roots valid) (path_of (lit ''/m/music/Jazz/Live/x'')) (Some r)"
proof -
  let ?s = "example_settings [(''2'', ''Jazz//Live'', Excluded), (''1'', ''Jazz'', LocalMetadata)]"
  have "check_and_resolve plain_system ?s (lit ''/m/music/Jazz/Live/x'') = Inr ([], Some (Excluded, lit ''Jazz/Live/x''))"
    by code_simp
  then obtain valid r where v: "normalise_and_validate ascii_db plain_system ?s = Inr (valid, [])"
    and r: "resolve_policy plain_system valid (lit ''/m/music/Jazz/Live/x'') = Inr (Some r)"
      "rp_policy r = Excluded" "rp_relative_path r = lit ''Jazz/Live/x''"
    by (auto simp: check_and_resolve_def ok_simps)
  have "ps_resolve plain_system (path_of (lit ''/m/music/Jazz/Live/x'')) = path_of (lit ''/m/music/Jazz/Live/x'')"
    using path_of_normal by (simp add: plain_system_def path_normal_def)
  then show ?thesis using v r policy_resolution_sound [OF v plain_system_normal, of "lit ''/m/music/Jazz/Live/x''"] by auto
qed

text \<open>
  A rule for a directory that is a link to another directory of the root passes the check, but
  never applies: the paths below it are resolved first.
\<close>

definition linked_system :: path_system where
  "linked_system =
     \<lparr>ps_resolve = (\<lambda>p. let q = path_of (path_str p); link = path_of (lit ''/m/music/link'')
                        in if is_relative_to q link
                           then path_of (path_str (path_div (path_of (lit ''/m/music/real''))
                                  \<lparr>p_anchor = [], p_parts = drop 3 (p_parts q)\<rparr>))
                           else q),
      ps_exists = (\<lambda>p. True)\<rparr>"

lemma linked_rule_never_applies:
  "\<exists>valid r. normalise_and_validate ascii_db linked_system (example_settings [(''1'', ''link'', Excluded)]) = Inr (valid, [])
    \<and> resolve_policy linked_system valid (lit ''/m/music/link/x'') = Inr (Some r) \<and> rp_policy r = Automatic"
proof -
  have "check_and_resolve linked_system (example_settings [(''1'', ''link'', Excluded)]) (lit ''/m/music/link/x'')
      = Inr ([], Some (Automatic, lit ''real/x''))"
    by code_simp
  then show ?thesis by (auto simp: check_and_resolve_def ok_simps)
qed

end
