(* ===== verification/Genre_Normalizer.thy ===== *)
theory Genre_Normalizer
  imports Title_Match
begin

text \<open>
  \<open>services/native/genre_normalizer.py\<close>: genres are brought to the names of a vocabulary with
  aliases and a hierarchy, which is read from a file and checked when the application starts. The
  content of the file is a parameter, \<open>None\<close> when it cannot be read or lacks a part; what is
  not a string in it is \<open>None\<close>.
\<close>

section \<open>Data\<close>

datatype genre_provider = FromMusicBrainz | FromListenBrainz | FromLastFm | FromExistingLocal | FromOverride

record genre_candidate =
  gc_display_name :: pystr
  gc_folded_name :: pystr
  gc_provider :: genre_provider
  gc_provider_entity :: pystr
  gc_genre_mbid :: "pystr option"
  gc_count :: "int option"
  gc_weight :: "int option"
  gc_curated :: bool
  gc_passed_gate :: bool
  gc_canonicalization_path :: "pystr list"
  gc_fetched_at :: "rat option"
  gc_source_document_revision :: "pystr option"

datatype genre_mode = ReplaceGenres | MergeGenres | FillMissing
datatype genre_source = MusicBrainz | ListenBrainz | LastFm | ExistingLocal

record genre_alias =
  ga_source :: pystr
  ga_target :: pystr

record genre_settings =
  gs_enabled :: bool
  gs_mode :: genre_mode
  gs_sources :: "genre_source list"
  gs_maximum_count :: int
  gs_musicbrainz_minimum_count :: int
  gs_listenbrainz_minimum_count :: int
  gs_lastfm_minimum_weight :: int
  gs_listenbrainz_curated_only :: bool
  gs_lastfm_whitelist_only :: bool
  gs_canonicalize :: bool
  gs_maximum_ancestry_depth :: int
  gs_allowlist :: "pystr list"
  gs_denylist :: "pystr list"
  gs_aliases :: "genre_alias list"
  gs_preferred_casing :: "pystr list"

record genre_asset =
  as_genres :: "pystr option list"
  as_aliases :: "(pystr \<times> pystr option) list"
  as_parents :: "(pystr \<times> pystr option) list"

record normalizer =
  nz_display_by_folded :: "(pystr, pystr) odict"
  nz_aliases :: "(pystr, pystr) odict"
  nz_parents :: "(pystr, pystr) odict"

datatype genre_error = InvalidVocabulary | UnknownAliasTarget | UnknownParent | HierarchyCycle | NoDisplayName

section \<open>The vocabulary\<close>

definition fold_genre :: "unidb \<Rightarrow> pystr \<Rightarrow> pystr" where
  "fold_genre u s = py_casefold u (py_join [c_space] (py_split u (py_strip u (py_nfc u s))))"

definition folded_pairs :: "unidb \<Rightarrow> (pystr \<times> pystr option) list \<Rightarrow> (pystr, pystr) odict" where
  "folded_pairs u pairs =
     dict_update [] (concat (map (\<lambda>(source, target).
       case target of None \<Rightarrow> [] | Some t \<Rightarrow> [(fold_genre u source, fold_genre u t)]) pairs))"

definition display_names :: "unidb \<Rightarrow> pystr option list \<Rightarrow> (pystr, pystr) odict" where
  "display_names u genres =
     dict_update [] (concat (map (\<lambda>g. case g of
         None \<Rightarrow> []
       | Some v \<Rightarrow> if fold_genre u v = [] then [] else [(fold_genre u v, py_nfc u v)]) genres))"

lemma dict_get_keys: "dict_get d k = Some v \<Longrightarrow> k \<in> set (dict_keys d)"
  by (force simp: dict_get_def dict_keys_def dest: map_of_SomeD)

text \<open>The walk upwards from a genre; \<open>False\<close> when it comes back to a genre it has seen.\<close>

function walk_up :: "(pystr, pystr) odict \<Rightarrow> pystr \<Rightarrow> pystr list \<Rightarrow> bool" where
  "walk_up parents current seen =
     (case dict_get parents current of
        None \<Rightarrow> True
      | Some parent \<Rightarrow> if current \<in> set seen then False else walk_up parents parent (current # seen))"
  by pat_completeness auto

termination
proof (relation "measure (\<lambda>(parents, _, seen). card (set (dict_keys parents) - set seen))", goal_cases)
  case (2 parents current seen parent)
  have "current \<in> set (dict_keys parents) - set seen" using 2 dict_get_keys by auto
  then have "card (set (dict_keys parents) - set (current # seen)) < card (set (dict_keys parents) - set seen)"
    by (intro psubset_card_mono) auto
  then show ?case by simp
qed simp

declare walk_up.simps [simp del]

definition new_normalizer :: "unidb \<Rightarrow> genre_asset option \<Rightarrow> genre_error + normalizer" where
  "new_normalizer u asset =
     (case asset of
        None \<Rightarrow> Inl InvalidVocabulary
      | Some a \<Rightarrow>
          (let display = display_names u (as_genres a);
               aliases = folded_pairs u (as_aliases a);
               parents = folded_pairs u (as_parents a);
               known = (\<lambda>g. dict_get display g \<noteq> None)
           in if list_ex (\<lambda>(_, target). \<not> known target) aliases then Inl UnknownAliasTarget
              else if list_ex (\<lambda>(child, parent). \<not> known child \<or> \<not> known parent) parents then Inl UnknownParent
              else if list_ex (\<lambda>start. \<not> walk_up parents start []) (dict_keys parents) then Inl HierarchyCycle
              else Inr \<lparr>nz_display_by_folded = display, nz_aliases = aliases, nz_parents = parents\<rparr>))"

section \<open>Normalization\<close>

fun ancestry ::
  "normalizer \<Rightarrow> nat \<Rightarrow> pystr \<Rightarrow> pystr list \<Rightarrow> pystr list \<Rightarrow> genre_error + pystr list" where
  "ancestry n 0 current seen path = Inr path"
| "ancestry n (Suc k) current seen path =
     (case dict_get (nz_parents n) current of
        None \<Rightarrow> Inr path
      | Some parent \<Rightarrow>
          if parent \<in> set seen then Inl HierarchyCycle
          else case dict_get (nz_display_by_folded n) parent of
                 None \<Rightarrow> Inl NoDisplayName
               | Some display \<Rightarrow> ancestry n k parent (parent # seen) (path @ [display]))"

definition get_or :: "('k, 'v) odict \<Rightarrow> 'k \<Rightarrow> 'v \<Rightarrow> 'v" where
  "get_or d k v = (case dict_get d k of None \<Rightarrow> v | Some x \<Rightarrow> x)"

definition canonical_name :: "unidb \<Rightarrow> normalizer \<Rightarrow> genre_settings \<Rightarrow> pystr \<Rightarrow> pystr" where
  "canonical_name u n settings name =
     (let folded = fold_genre u name;
          profile_aliases = dict_update [] (map (\<lambda>a. (fold_genre u (ga_source a), fold_genre u (ga_target a))) (gs_aliases settings))
      in if gs_canonicalize settings then get_or profile_aliases folded (get_or (nz_aliases n) folded folded) else folded)"

definition is_admitted :: "unidb \<Rightarrow> normalizer \<Rightarrow> genre_settings \<Rightarrow> bool \<Rightarrow> pystr \<Rightarrow> bool" where
  "is_admitted u n settings require_vocabulary folded \<longleftrightarrow>
     (let allowlist = map (fold_genre u) (gs_allowlist settings)
      in \<not> List.member (map (fold_genre u) (gs_denylist settings)) folded
         \<and> (allowlist = [] \<or> List.member allowlist folded)
         \<and> (require_vocabulary \<longrightarrow> dict_get (nz_display_by_folded n) folded \<noteq> None \<or> List.member allowlist folded))"

definition shown_name :: "unidb \<Rightarrow> normalizer \<Rightarrow> genre_settings \<Rightarrow> pystr \<Rightarrow> pystr \<Rightarrow> pystr" where
  "shown_name u n settings name folded =
     (let preferred = dict_update [] (map (\<lambda>v. (fold_genre u v, py_strip u (py_nfc u v))) (gs_preferred_casing settings))
      in get_or preferred folded
           (get_or (nz_display_by_folded n) folded (py_join [c_space] (py_split u (py_nfc u name)))))"

definition normalize_genre ::
  "unidb \<Rightarrow> normalizer \<Rightarrow> genre_candidate \<Rightarrow> genre_settings \<Rightarrow> bool \<Rightarrow> genre_error + genre_candidate option" where
  "normalize_genre u n candidate settings require_vocabulary =
     (let name = gc_display_name candidate; folded = canonical_name u n settings name
      in if fold_genre u name = [] \<or> \<not> is_admitted u n settings require_vocabulary folded then Inr None
         else let display = shown_name u n settings name folded;
                  depth = nat (gs_maximum_ancestry_depth settings)
              in rbind (if gs_canonicalize settings then ancestry n depth folded [folded] [display] else Inr [display])
                   (\<lambda>path. Inr (Some (candidate\<lparr>gc_display_name := display, gc_folded_name := folded,
                      gc_passed_gate := True, gc_canonicalization_path := path\<rparr>))))"

section \<open>The hierarchy never fails\<close>

text \<open>The vocabulary of a normalizer that was built.\<close>

definition vocabulary_ok :: "normalizer \<Rightarrow> bool" where
  "vocabulary_ok n \<longleftrightarrow>
     list_all (\<lambda>start. walk_up (nz_parents n) start []) (dict_keys (nz_parents n))
     \<and> list_all (\<lambda>(_, parent). dict_get (nz_display_by_folded n) parent \<noteq> None) (nz_parents n)"

lemma new_normalizer_ok: "new_normalizer u asset = Inr n \<Longrightarrow> vocabulary_ok n"
  by (auto simp: new_normalizer_def vocabulary_ok_def list_all_iff list_ex_iff Let_def split: option.splits if_splits)

text \<open>The ancestors of a genre, the nearest first, up to a depth.\<close>

fun ancestors :: "normalizer \<Rightarrow> nat \<Rightarrow> pystr \<Rightarrow> pystr list" where
  "ancestors n 0 g = []"
| "ancestors n (Suc k) g =
     (case dict_get (nz_parents n) g of None \<Rightarrow> [] | Some parent \<Rightarrow> parent # ancestors n k parent)"

definition ancestor_names :: "normalizer \<Rightarrow> nat \<Rightarrow> pystr \<Rightarrow> pystr list" where
  "ancestor_names n k g = map (\<lambda>a. get_or (nz_display_by_folded n) a []) (ancestors n k g)"

lemma length_ancestors: "length (ancestors n k g) \<le> k"
  by (induction k arbitrary: g) (auto split: option.splits)

lemma ancestry_walk:
  assumes "walk_up (nz_parents n) current seen" "current \<notin> set seen"
    and "\<And>g. g \<in> set seen \<Longrightarrow> dict_get (nz_parents n) g \<noteq> None"
    and "list_all (\<lambda>(_, parent). dict_get (nz_display_by_folded n) parent \<noteq> None) (nz_parents n)"
  shows "ancestry n k current (current # seen) path = Inr (path @ ancestor_names n k current)
    \<and> distinct (current # ancestors n k current) \<and> set (ancestors n k current) \<inter> set seen = {}"
  using assms
proof (induction k arbitrary: current seen path)
  case 0
  then show ?case by (simp add: ancestor_names_def)
next
  case (Suc k)
  show ?case
  proof (cases "dict_get (nz_parents n) current")
    case None
    then show ?thesis by (simp add: ancestor_names_def)
  next
    case (Some parent)
    have up: "walk_up (nz_parents n) parent (current # seen)"
      using Suc.prems(1,2) Some by (subst (asm) walk_up.simps) auto
    have keys: "dict_get (nz_parents n) g \<noteq> None" if "g \<in> set (current # seen)" for g
      using that Some Suc.prems(3) by auto
    have fresh: "parent \<notin> set (current # seen)"
    proof
      assume p: "parent \<in> set (current # seen)"
      then obtain q where "dict_get (nz_parents n) parent = Some q" using keys by blast
      then show False using up p by (subst (asm) walk_up.simps) auto
    qed
    obtain display where display: "dict_get (nz_display_by_folded n) parent = Some display"
      using Suc.prems(4) Some by (fastforce simp: list_all_iff dict_get_def dest: map_of_SomeD)
    from Suc.IH [OF up fresh keys Suc.prems(4), of "path @ [display]"] show ?thesis
      using Some fresh display by (auto simp: ancestor_names_def get_or_def)
  qed
qed

lemma ancestry_total:
  assumes "vocabulary_ok n"
  shows "ancestry n k g [g] path = Inr (path @ ancestor_names n k g) \<and> distinct (g # ancestors n k g)"
proof -
  have "walk_up (nz_parents n) g []"
  proof (cases "dict_get (nz_parents n) g")
    case None
    then show ?thesis by (subst walk_up.simps) simp
  next
    case (Some p)
    then show ?thesis using assms dict_get_keys [OF Some] by (simp add: vocabulary_ok_def list_all_iff)
  qed
  then show ?thesis using ancestry_walk [of n g "[]" k path] assms by (simp add: vocabulary_ok_def)
qed

text \<open>What normalization gives: nothing for a genre that is empty or not admitted.\<close>

definition normalized :: "unidb \<Rightarrow> normalizer \<Rightarrow> genre_candidate \<Rightarrow> genre_settings \<Rightarrow> bool \<Rightarrow> genre_candidate option" where
  "normalized u n candidate settings require_vocabulary =
     (let name = gc_display_name candidate; folded = canonical_name u n settings name;
          display = shown_name u n settings name folded
      in if fold_genre u name = [] \<or> \<not> is_admitted u n settings require_vocabulary folded then None
         else Some (candidate\<lparr>gc_display_name := display, gc_folded_name := folded, gc_passed_gate := True,
           gc_canonicalization_path := display # (if gs_canonicalize settings
             then ancestor_names n (nat (gs_maximum_ancestry_depth settings)) folded else [])\<rparr>))"

lemma normalize_genre_eq:
  assumes "vocabulary_ok n"
  shows "normalize_genre u n candidate settings require = Inr (normalized u n candidate settings require)"
  using ancestry_total [OF assms]
  by (simp add: normalize_genre_def normalized_def Let_def)

lemma normalized_admitted:
  "normalized u n candidate settings require = Some g \<Longrightarrow>
     is_admitted u n settings require (gc_folded_name g) \<and> gc_passed_gate g
     \<and> gc_folded_name g = canonical_name u n settings (gc_display_name candidate)"
  by (auto simp: normalized_def Let_def split: if_splits)

text \<open>
  With a vocabulary that was accepted, normalization never fails: the hierarchy has no cycle
  and every ancestor a name. It admits exactly the genres that the lists allow, and the path of an
  admitted genre is its name and the names of its ancestors, which are all different, up to the
  maximum depth.
\<close>

theorem genre_normalization_total:
  assumes "new_normalizer u asset = Inr n"
  shows "normalize_genre u n candidate settings require = Inr (normalized u n candidate settings require)
    \<and> distinct (g # ancestors n k g) \<and> length (ancestors n k g) \<le> k"
  using normalize_genre_eq ancestry_total new_normalizer_ok [OF assms] length_ancestors by blast

definition example_asset :: genre_asset where
  "example_asset =
     \<lparr>as_genres = [Some (lit ''Rock''), Some (lit ''alternative rock''), None],
      as_aliases = [(lit ''alt  rock'', Some (lit ''alternative rock''))],
      as_parents = [(lit ''alternative rock'', Some (lit ''rock''))]\<rparr>"

definition example_genre_settings :: genre_settings where
  "example_genre_settings =
     \<lparr>gs_enabled = True, gs_mode = MergeGenres, gs_sources = [MusicBrainz], gs_maximum_count = 1,
      gs_musicbrainz_minimum_count = 1, gs_listenbrainz_minimum_count = 1, gs_lastfm_minimum_weight = 10,
      gs_listenbrainz_curated_only = True, gs_lastfm_whitelist_only = True, gs_canonicalize = True,
      gs_maximum_ancestry_depth = 4, gs_allowlist = [], gs_denylist = [], gs_aliases = [], gs_preferred_casing = []\<rparr>"

definition plain_genre :: "string \<Rightarrow> genre_candidate" where
  "plain_genre name =
     \<lparr>gc_display_name = lit name, gc_folded_name = lit name, gc_provider = FromMusicBrainz, gc_provider_entity = [],
      gc_genre_mbid = None, gc_count = None, gc_weight = None, gc_curated = True, gc_passed_gate = False,
      gc_canonicalization_path = [], gc_fetched_at = None, gc_source_document_revision = None\<rparr>"

theorem genre_normalization_total_witness:
  "\<exists>n g. new_normalizer ascii_db (Some example_asset) = Inr n
    \<and> normalize_genre ascii_db n (plain_genre '' Alt Rock '') example_genre_settings True = Inr (Some g)
    \<and> gc_folded_name g = lit ''alternative rock''
    \<and> gc_canonicalization_path g = [lit ''alternative rock'', lit ''Rock'']"
proof -
  have "rbind (new_normalizer ascii_db (Some example_asset)) (\<lambda>n.
      Inr (map_option (\<lambda>g. (gc_folded_name g, gc_canonicalization_path g))
        (normalized ascii_db n (plain_genre '' Alt Rock '') example_genre_settings True)))
      = Inr (Some (lit ''alternative rock'', [lit ''alternative rock'', lit ''Rock'']))"
    by code_simp
  then obtain n g where n: "new_normalizer ascii_db (Some example_asset) = Inr n"
    and g: "normalized ascii_db n (plain_genre '' Alt Rock '') example_genre_settings True = Some g"
      "gc_folded_name g = lit ''alternative rock''"
      "gc_canonicalization_path g = [lit ''alternative rock'', lit ''Rock'']"
    by (auto simp: ok_simps)
  then show ?thesis
    using genre_normalization_total [OF n, of "plain_genre '' Alt Rock ''" example_genre_settings True] by auto
qed

end
