(* ===== verification/Genre_Projection.thy ===== *)
theory Genre_Projection
  imports Genre_Normalizer
begin

text \<open>
  \<open>services/native/genre_projection_service.py\<close>, with the record of degraded sources of a request
  (\<open>infrastructure/degradation.py\<close>): the genres of several sources are put in order, normalized
  and cut, and a source that is down never costs the genres that a file has. The answers of the
  providers, the clock and the hash of the existing genres are parameters.
\<close>

section \<open>Degraded sources\<close>

datatype integration_status = StatusOk | StatusDegraded | StatusError

fun severity :: "integration_status \<Rightarrow> nat" where
  "severity StatusOk = 0" | "severity StatusDegraded = 1" | "severity StatusError = 2"

type_synonym degradation_context = "(pystr, integration_status) odict"

definition record_status :: "pystr \<Rightarrow> integration_status \<Rightarrow> degradation_context \<Rightarrow> degradation_context" where
  "record_status source status context =
     (case dict_get context source of
        None \<Rightarrow> dict_set context source status
      | Some previous \<Rightarrow>
          if severity previous < severity status then dict_set context source status else context)"

definition degraded_summary :: "degradation_context \<Rightarrow> degradation_context" where
  "degraded_summary context = filter (\<lambda>(_, status). status \<noteq> StatusOk) context"

definition has_degradation :: "degradation_context \<Rightarrow> bool" where
  "has_degradation context \<longleftrightarrow> list_ex (\<lambda>(_, status). status \<noteq> StatusOk) context"

definition aggregate_status :: "integration_status list \<Rightarrow> integration_status" where
  "aggregate_status statuses =
     (if List.member statuses StatusError then StatusError
      else if List.member statuses StatusDegraded then StatusDegraded else StatusOk)"

lemma severity_inj: "severity a = severity b \<longleftrightarrow> a = b"
  by (cases a; cases b) simp_all

lemma record_status_get:
  "dict_get (record_status s status d) k =
     (if k = s then Some (case dict_get d s of None \<Rightarrow> status
        | Some previous \<Rightarrow> if severity previous < severity status then status else previous)
      else dict_get d k)"
  by (auto simp: record_status_def dict_get_set split: option.splits)

lemma aggregate_worst:
  "severity (aggregate_status statuses) = Max (set (map severity (StatusOk # statuses)))"
proof (rule sym, rule Max_eqI)
  show "severity (aggregate_status statuses) \<in> set (map severity (StatusOk # statuses))"
    by (cases "StatusError \<in> set statuses"; cases "StatusDegraded \<in> set statuses")
      (auto simp: aggregate_status_def intro: image_eqI [of _ _ StatusError] image_eqI [of _ _ StatusDegraded])
  have le: "severity st \<le> severity (aggregate_status statuses)" if "st \<in> set statuses" for st
    by (cases st) (use that in \<open>auto simp: aggregate_status_def\<close>)
  fix n assume "n \<in> set (map severity (StatusOk # statuses))"
  then show "n \<le> severity (aggregate_status statuses)" using le by auto
qed simp

text \<open>After any sequence of results a source has the worst status that was recorded for it.\<close>

lemma recorded_worst:
  assumes "\<exists>status. (source, status) \<in> set results"
  shows "map_option severity (dict_get (fold (\<lambda>(s, status). record_status s status) results []) source)
    = Some (Max {severity status | status. (source, status) \<in> set results})"
  using assms
proof (induction results rule: rev_induct)
  case (snoc r results)
  obtain s status where r: "r = (s, status)" by (cases r)
  let ?d = "fold (\<lambda>(s, status). record_status s status) results []"
  let ?S = "{severity st | st. (source, st) \<in> set results}"
  have fin: "finite ?S" by (rule finite_subset [of _ "severity ` snd ` set results"]) (force simp: image_iff)+
  have none: "dict_get ?d source = None" if "\<not> (\<exists>st. (source, st) \<in> set results)"
    using that by (induction results rule: rev_induct) (auto simp: record_status_get, simp add: dict_get_def)
  have step: "fold (\<lambda>(s, status). record_status s status) (results @ [r]) [] = record_status s status ?d"
    by (simp add: r)
  show ?case
  proof (cases "s = source")
    case False
    then have "{severity st | st. (source, st) \<in> set (results @ [r])} = ?S" using r by auto
    then show ?thesis using snoc False r unfolding step by (simp add: record_status_get)
  next
    case True
    then have all: "{severity st | st. (source, st) \<in> set (results @ [r])} = insert (severity status) ?S"
      using r by auto
    show ?thesis
    proof (cases "\<exists>st. (source, st) \<in> set results")
      case False
      then have "?S = {}" by auto
      then show ?thesis using none [OF False] True unfolding step all by (simp add: record_status_get)
    next
      case some: True
      then obtain worst where w: "dict_get ?d source = Some worst" "severity worst = Max ?S" using snoc.IH by auto
      have "?S \<noteq> {}" using some by auto
      then have "Max (insert (severity status) ?S) = max (severity status) (severity worst)" using fin w(2) by simp
      then show ?thesis using w(1) True unfolding step all by (auto simp: record_status_get max_def)
    qed
  qed
qed simp

section \<open>Candidates\<close>

record canonical_genre =
  cg_display_name :: pystr
  cg_provider_entity :: pystr
  cg_genre_mbid :: "pystr option"
  cg_count :: "int option"

record release_document =
  rd_genres :: "canonical_genre list"
  rd_media :: "canonical_genre list list list"
  rd_release_mbid :: "pystr option"

record genre_projection =
  gp_genres :: "genre_candidate list"
  gp_deferred_sources :: "pystr list"
  gp_preserved_existing :: bool

text \<open>What a provider answers: it is not configured, it raised one of the errors that are caught, or its values.\<close>

datatype 'a answer = NotConfigured | Unavailable | Answer 'a

definition musicbrainz_candidates :: "unidb \<Rightarrow> rat \<Rightarrow> release_document \<Rightarrow> genre_settings \<Rightarrow> genre_candidate list" where
  "musicbrainz_candidates u now release settings =
     map (\<lambda>v. \<lparr>gc_display_name = cg_display_name v, gc_folded_name = fold_genre u (cg_display_name v),
               gc_provider = FromMusicBrainz, gc_provider_entity = cg_provider_entity v, gc_genre_mbid = cg_genre_mbid v,
               gc_count = cg_count v, gc_weight = None, gc_curated = True, gc_passed_gate = False,
               gc_canonicalization_path = [], gc_fetched_at = Some now,
               gc_source_document_revision = rd_release_mbid release\<rparr>)
       (filter (\<lambda>v. case cg_count v of None \<Rightarrow> True | Some c \<Rightarrow> gs_musicbrainz_minimum_count settings \<le> c)
          (rd_genres release @ concat (concat (rd_media release))))"

definition existing_candidate :: "unidb \<Rightarrow> pystr \<Rightarrow> pystr \<Rightarrow> genre_candidate" where
  "existing_candidate u revision v =
     \<lparr>gc_display_name = v, gc_folded_name = fold_genre u v, gc_provider = FromExistingLocal,
      gc_provider_entity = lit ''audio_tag'', gc_genre_mbid = None, gc_count = None, gc_weight = None,
      gc_curated = False, gc_passed_gate = False, gc_canonicalization_path = [], gc_fetched_at = None,
      gc_source_document_revision = Some revision\<rparr>"

text \<open>The folded names that were seen are those of the genres chosen so far.\<close>

fun collect_existing ::
  "unidb \<Rightarrow> normalizer \<Rightarrow> genre_settings \<Rightarrow> pystr \<Rightarrow> genre_candidate list \<Rightarrow> pystr list
     \<Rightarrow> genre_error + genre_candidate list" where
  "collect_existing u n settings revision result [] = Inr result"
| "collect_existing u n settings revision result (v # vs) =
     rbind (normalize_genre u n (existing_candidate u revision v) settings False) (\<lambda>r.
       collect_existing u n settings revision
         (case r of
            None \<Rightarrow> result
          | Some g \<Rightarrow> if gc_folded_name g \<in> gc_folded_name ` set result then result else result @ [g]) vs)"

definition existing_candidates ::
  "unidb \<Rightarrow> normalizer \<Rightarrow> (pystr list \<Rightarrow> pystr) \<Rightarrow> pystr list \<Rightarrow> genre_settings
     \<Rightarrow> genre_error + genre_candidate list" where
  "existing_candidates u n revision existing settings = collect_existing u n settings (revision existing) [] existing"

definition listenbrainz_candidates :: "genre_settings \<Rightarrow> genre_candidate list \<Rightarrow> genre_candidate list" where
  "listenbrainz_candidates settings =
     filter (\<lambda>c. (case gc_count c of None \<Rightarrow> True | Some k \<Rightarrow> gs_listenbrainz_minimum_count settings \<le> k)
                 \<and> (\<not> gs_listenbrainz_curated_only settings \<or> gc_curated c))"

definition lastfm_candidates :: "genre_settings \<Rightarrow> genre_candidate list \<Rightarrow> genre_candidate list" where
  "lastfm_candidates settings =
     filter (\<lambda>c. case gc_weight c of None \<Rightarrow> True | Some w \<Rightarrow> gs_lastfm_minimum_weight settings \<le> w)"

section \<open>The projection\<close>

definition requires_vocabulary :: "genre_settings \<Rightarrow> genre_source \<Rightarrow> genre_candidate \<Rightarrow> bool" where
  "requires_vocabulary settings source candidate \<longleftrightarrow>
     source = ListenBrainz \<and> \<not> gc_curated candidate \<or> source = LastFm \<and> gs_lastfm_whitelist_only settings"

definition is_full :: "genre_settings \<Rightarrow> genre_candidate list \<Rightarrow> bool" where
  "is_full settings selected \<longleftrightarrow> gs_maximum_count settings \<le> int (length selected)"

fun select_from ::
  "unidb \<Rightarrow> normalizer \<Rightarrow> genre_settings \<Rightarrow> genre_source \<Rightarrow> genre_candidate list \<Rightarrow> genre_candidate list
     \<Rightarrow> genre_error + genre_candidate list" where
  "select_from u n settings source selected [] = Inr selected"
| "select_from u n settings source selected (c # cs) =
     rbind (normalize_genre u n c settings (requires_vocabulary settings source c)) (\<lambda>r.
       case r of
         None \<Rightarrow> select_from u n settings source selected cs
       | Some g \<Rightarrow>
           if gc_folded_name g \<in> gc_folded_name ` set selected then select_from u n settings source selected cs
           else if is_full settings (selected @ [g]) then Inr (selected @ [g])
           else select_from u n settings source (selected @ [g]) cs)"

fun select_sources ::
  "unidb \<Rightarrow> normalizer \<Rightarrow> genre_settings \<Rightarrow> (genre_source \<Rightarrow> genre_candidate list) \<Rightarrow> genre_candidate list
     \<Rightarrow> genre_source list \<Rightarrow> genre_error + genre_candidate list" where
  "select_sources u n settings by_source selected [] = Inr selected"
| "select_sources u n settings by_source selected (source # sources) =
     rbind (select_from u n settings source selected (by_source source)) (\<lambda>selected.
       if is_full settings selected then Inr selected
       else select_sources u n settings by_source selected sources)"

fun merge_existing :: "genre_settings \<Rightarrow> genre_candidate list \<Rightarrow> genre_candidate list \<Rightarrow> genre_candidate list" where
  "merge_existing settings selected [] = selected"
| "merge_existing settings selected (c # cs) =
     (if gc_folded_name c \<in> gc_folded_name ` set selected then merge_existing settings selected cs
      else if is_full settings (selected @ [c]) then selected @ [c]
      else merge_existing settings (selected @ [c]) cs)"

definition cut :: "int \<Rightarrow> 'a list \<Rightarrow> 'a list" where
  "cut k xs = py_slice 0 (Some k) xs"

definition record_deferred :: "pystr \<Rightarrow> degradation_context option \<Rightarrow> degradation_context option" where
  "record_deferred source = map_option (record_status source StatusError)"

text \<open>The candidates of a remote source that is asked for, whether it is deferred, and the context.\<close>

definition ask ::
  "bool \<Rightarrow> pystr \<Rightarrow> (genre_candidate list \<Rightarrow> genre_candidate list) \<Rightarrow> genre_candidate list answer
     \<Rightarrow> degradation_context option \<Rightarrow> genre_candidate list \<times> pystr list \<times> degradation_context option" where
  "ask wanted name keep answer context =
     (if \<not> wanted then ([], [], context)
      else case answer of
             NotConfigured \<Rightarrow> ([], [name], context)
           | Unavailable \<Rightarrow> ([], [name], record_deferred name context)
           | Answer vs \<Rightarrow> (keep vs, [], context))"

definition project_genres ::
  "unidb \<Rightarrow> normalizer \<Rightarrow> (pystr list \<Rightarrow> pystr) \<Rightarrow> rat \<Rightarrow> genre_candidate list answer \<Rightarrow> genre_candidate list answer
     \<Rightarrow> genre_settings \<Rightarrow> release_document \<Rightarrow> pystr list \<Rightarrow> degradation_context option
     \<Rightarrow> genre_error + genre_projection \<times> degradation_context option" where
  "project_genres u n revision now listenbrainz lastfm settings release existing_genres context =
     (let existing = existing_candidates u n revision existing_genres settings;
          sources = gs_sources settings; maximum = gs_maximum_count settings
      in if \<not> gs_enabled settings
         then rbind existing (\<lambda>existing.
                Inr (\<lparr>gp_genres = existing, gp_deferred_sources = [], gp_preserved_existing = True\<rparr>, context))
         else
           let (lb, lb_deferred, context) = ask (List.member sources ListenBrainz) (lit ''listenbrainz'')
                 (listenbrainz_candidates settings) listenbrainz context;
               (lf, lf_deferred, context) = ask (List.member sources LastFm) (lit ''lastfm'')
                 (lastfm_candidates settings) lastfm context;
               deferred = lb_deferred @ lf_deferred
           in rbind existing (\<lambda>existing.
                if gs_mode settings = FillMissing \<and> existing \<noteq> []
                then Inr (\<lparr>gp_genres = cut maximum existing, gp_deferred_sources = deferred,
                           gp_preserved_existing = True\<rparr>, context)
                else
                  let by_source = (\<lambda>source. case source of
                          MusicBrainz \<Rightarrow> musicbrainz_candidates u now release settings
                        | ListenBrainz \<Rightarrow> lb | LastFm \<Rightarrow> lf | ExistingLocal \<Rightarrow> existing)
                  in rbind (select_sources u n settings by_source [] sources) (\<lambda>selected.
                       let selected = (if gs_mode settings = MergeGenres \<and> \<not> List.member sources ExistingLocal
                                       then merge_existing settings selected existing else selected)
                       in if selected = [] \<and> existing \<noteq> []
                          then Inr (\<lparr>gp_genres = cut maximum existing, gp_deferred_sources = deferred,
                                     gp_preserved_existing = True\<rparr>, context)
                          else Inr (\<lparr>gp_genres = selected, gp_deferred_sources = deferred,
                                     gp_preserved_existing = False\<rparr>, context))))"

section \<open>What a projection guarantees\<close>

text \<open>Different genres, all admitted by the lists.\<close>

definition genres_ok :: "unidb \<Rightarrow> normalizer \<Rightarrow> genre_settings \<Rightarrow> genre_candidate list \<Rightarrow> bool" where
  "genres_ok u n settings gs \<longleftrightarrow>
     distinct (map gc_folded_name gs) \<and> list_all (\<lambda>g. is_admitted u n settings False (gc_folded_name g)) gs"

lemma genres_ok_Nil: "genres_ok u n settings []"
  by (simp add: genres_ok_def)

lemma genres_ok_snoc:
  "genres_ok u n settings gs \<Longrightarrow> gc_folded_name g \<notin> gc_folded_name ` set gs
     \<Longrightarrow> is_admitted u n settings False (gc_folded_name g) \<Longrightarrow> genres_ok u n settings (gs @ [g])"
  by (simp add: genres_ok_def)

lemma genres_ok_take: "genres_ok u n settings gs \<Longrightarrow> genres_ok u n settings (take k gs)"
  by (auto simp: genres_ok_def list_all_iff take_map [symmetric] dest: in_set_takeD)

lemma admitted_weaken: "is_admitted u n settings req g \<Longrightarrow> is_admitted u n settings False g"
  by (simp add: is_admitted_def Let_def)

lemma collect_existing_ok:
  assumes "vocabulary_ok n" "genres_ok u n settings result"
  shows "\<exists>gs. collect_existing u n settings revision result vs = Inr gs \<and> genres_ok u n settings gs"
  using assms(2)
proof (induction vs arbitrary: result)
  case (Cons v vs)
  let ?r = "normalized u n (existing_candidate u revision v) settings False"
  have "genres_ok u n settings (case ?r of None \<Rightarrow> result
      | Some g \<Rightarrow> if gc_folded_name g \<in> gc_folded_name ` set result then result else result @ [g])"
  proof (cases ?r)
    case (Some g)
    then show ?thesis using normalized_admitted [OF Some, THEN conjunct1] genres_ok_snoc [OF Cons.prems, of g] Cons.prems by simp
  qed (use Cons.prems in simp)
  from Cons.IH [OF this] show ?case by (simp add: normalize_genre_eq [OF assms(1)])
qed simp

lemma select_from_ok:
  assumes "vocabulary_ok n" "genres_ok u n settings selected" "int (length selected) < gs_maximum_count settings"
  shows "\<exists>gs. select_from u n settings source selected cs = Inr gs \<and> genres_ok u n settings gs
    \<and> int (length gs) \<le> gs_maximum_count settings"
  using assms(2,3)
proof (induction cs arbitrary: selected)
  case (Cons c cs)
  let ?r = "normalized u n c settings (requires_vocabulary settings source c)"
  show ?case
  proof (cases ?r)
    case None
    then show ?thesis using Cons by (simp add: normalize_genre_eq [OF assms(1)])
  next
    case (Some g)
    then have "is_admitted u n settings False (gc_folded_name g)"
      using normalized_admitted admitted_weaken by blast
    then have ok: "genres_ok u n settings (selected @ [g])" if "gc_folded_name g \<notin> gc_folded_name ` set selected"
      using Cons.prems(1) that genres_ok_snoc by blast
    show ?thesis
    proof (cases "gc_folded_name g \<in> gc_folded_name ` set selected")
      case True
      then show ?thesis using Cons Some by (simp add: normalize_genre_eq [OF assms(1)])
    next
      case False
      then show ?thesis
        using Cons.IH [OF ok [OF False]] ok [OF False] Cons.prems(2) Some
        by (auto simp: normalize_genre_eq [OF assms(1)] is_full_def)
    qed
  qed
qed simp

lemma select_sources_ok:
  assumes "vocabulary_ok n" "genres_ok u n settings selected" "int (length selected) < gs_maximum_count settings"
  shows "\<exists>gs. select_sources u n settings by_source selected sources = Inr gs \<and> genres_ok u n settings gs
    \<and> int (length gs) \<le> gs_maximum_count settings"
  using assms(2,3)
proof (induction sources arbitrary: selected)
  case (Cons source sources)
  then obtain gs where "select_from u n settings source selected (by_source source) = Inr gs"
    "genres_ok u n settings gs" "int (length gs) \<le> gs_maximum_count settings"
    using select_from_ok [OF assms(1)] by blast
  then show ?case using Cons.IH [of gs] by (auto simp: is_full_def)
qed simp

lemma merge_existing_ok:
  assumes "genres_ok u n settings selected" "genres_ok u n settings existing"
    and "int (length selected) \<le> gs_maximum_count settings"
  shows "genres_ok u n settings (merge_existing settings selected existing)
    \<and> int (length (merge_existing settings selected existing)) \<le> gs_maximum_count settings + 1"
  using assms
proof (induction existing arbitrary: selected)
  case (Cons c cs)
  have cs: "genres_ok u n settings cs" "is_admitted u n settings False (gc_folded_name c)"
    using Cons.prems(2) by (simp_all add: genres_ok_def)
  show ?case
  proof (cases "gc_folded_name c \<in> gc_folded_name ` set selected")
    case True
    then show ?thesis using Cons cs by simp
  next
    case False
    have "genres_ok u n settings (selected @ [c])" using Cons.prems(1) False cs(2) by (rule genres_ok_snoc)
    then show ?thesis using Cons.IH [of "selected @ [c]"] Cons.prems(3) False cs by (auto simp: is_full_def)
  qed
qed simp

lemma merge_existing_longer: "length selected \<le> length (merge_existing settings selected existing)"
proof (induction existing arbitrary: selected)
  case (Cons c cs)
  then show ?case using Cons.IH [of selected] Cons.IH [of "selected @ [c]"] by simp
qed simp

lemma merge_existing_nonempty:
  assumes "existing \<noteq> []"
  shows "merge_existing settings selected existing \<noteq> []"
proof (cases selected)
  case Nil
  obtain c cs where "existing = c # cs" using assms by (cases existing) auto
  then show ?thesis using Nil merge_existing_longer [of "[c]" settings cs] by auto
next
  case (Cons g gs)
  then show ?thesis using merge_existing_longer [of selected settings existing] by auto
qed

lemma cut_take: "0 \<le> k \<Longrightarrow> cut k xs = take (nat k) xs"
  by (cases "k \<le> int (length xs)") (simp_all add: cut_def py_slice_def clamp_index_def)

text \<open>
  A projection with an accepted vocabulary and a valid maximum: it is made, its genres are
  different and admitted, and a file that has admitted genres keeps some genre.
\<close>

lemma project_correct:
  assumes ok: "vocabulary_ok n" and max: "1 \<le> gs_maximum_count settings" and on: "gs_enabled settings"
  shows "\<exists>p ctx kept. project_genres u n revision now lb lf settings release existing context = Inr (p, ctx)
    \<and> existing_candidates u n revision existing settings = Inr kept
    \<and> genres_ok u n settings (gp_genres p)
    \<and> int (length (gp_genres p)) \<le> gs_maximum_count settings + of_bool (gs_mode settings = MergeGenres)
    \<and> (gp_genres p = [] \<longrightarrow> kept = [])"
proof -
  obtain kept where kept: "existing_candidates u n revision existing settings = Inr kept" "genres_ok u n settings kept"
    using collect_existing_ok [OF ok genres_ok_Nil] by (simp add: existing_candidates_def) blast
  obtain b d c where lb: "ask (ListenBrainz \<in> set (gs_sources settings)) (lit ''listenbrainz'')
      (listenbrainz_candidates settings) lb context = (b, d, c)" using prod_cases3 by blast
  obtain b' d' c' where lf: "ask (LastFm \<in> set (gs_sources settings)) (lit ''lastfm'')
      (lastfm_candidates settings) lf c = (b', d', c')" using prod_cases3 by blast
  have cut: "genres_ok u n settings (cut (gs_maximum_count settings) kept)"
    "int (length (cut (gs_maximum_count settings) kept)) \<le> gs_maximum_count settings"
    "cut (gs_maximum_count settings) kept = [] \<longleftrightarrow> kept = []"
    using max kept(2) by (simp_all add: cut_take genres_ok_take)
  let ?by = "\<lambda>source. case source of MusicBrainz \<Rightarrow> musicbrainz_candidates u now release settings
      | ListenBrainz \<Rightarrow> b | LastFm \<Rightarrow> b' | ExistingLocal \<Rightarrow> kept"
  obtain gs where gs: "select_sources u n settings ?by [] (gs_sources settings) = Inr gs"
    "genres_ok u n settings gs" "int (length gs) \<le> gs_maximum_count settings"
    using select_sources_ok [OF ok genres_ok_Nil, of settings u ?by "gs_sources settings"] max by auto
  define merged where "merged = (if gs_mode settings = MergeGenres \<and> ExistingLocal \<notin> set (gs_sources settings)
      then merge_existing settings gs kept else gs)"
  have m: "genres_ok u n settings merged"
    "int (length merged) \<le> gs_maximum_count settings + of_bool (gs_mode settings = MergeGenres)"
    using merge_existing_ok [OF gs(2) kept(2) gs(3)] gs by (simp_all add: merged_def)
  let ?p = "if gs_mode settings = FillMissing \<and> kept \<noteq> [] \<or> merged = [] \<and> kept \<noteq> []
      then \<lparr>gp_genres = cut (gs_maximum_count settings) kept, gp_deferred_sources = d @ d', gp_preserved_existing = True\<rparr>
      else \<lparr>gp_genres = merged, gp_deferred_sources = d @ d', gp_preserved_existing = False\<rparr>"
  have "project_genres u n revision now lb lf settings release existing context = Inr (?p, c')"
    using on by (auto simp: project_genres_def kept(1) lb lf gs(1) merged_def Let_def)
  then show ?thesis using kept(1) cut m by (intro exI [of _ ?p] exI [of _ c'] exI [of _ kept]) auto
qed

section \<open>Properties\<close>


definition example_release_document :: release_document where
  "example_release_document =
     \<lparr>rd_genres = [\<lparr>cg_display_name = lit ''alt rock'', cg_provider_entity = [], cg_genre_mbid = None, cg_count = Some 2\<rparr>],
      rd_media = [], rd_release_mbid = None\<rparr>"

definition example_projection ::
  "genre_mode \<Rightarrow> genre_source list \<Rightarrow> genre_error + genre_projection \<times> degradation_context option" where
  "example_projection mode sources =
     rbind (new_normalizer ascii_db (Some example_asset)) (\<lambda>n.
       project_genres ascii_db n (\<lambda>_. []) 0 Unavailable NotConfigured
         (example_genre_settings\<lparr>gs_mode := mode, gs_sources := sources\<rparr>)
         example_release_document [lit ''jazz'', lit ''Rock''] (Some []))"


text \<open>Merging adds one genre to a list that is already full.\<close>

lemma merge_exceeds_maximum:
  "rbind (example_projection MergeGenres [MusicBrainz]) (\<lambda>(p, ctx). Inr (map gc_display_name (gp_genres p)))
    = Inr [lit ''alternative rock'', lit ''jazz'']"
  "gs_maximum_count example_genre_settings = 1"
  by code_simp (simp add: example_genre_settings_def)

end
