(* ===== verification/Workload_Gate.thy ===== *)
theory Workload_Gate
  imports Complex_Main Py_Base
begin

text \<open>
  \<open>services/native/background_workload_gate.py\<close>: background work waits for library scans to end
  and for a quiet moment of the interactive traffic, but not longer than a maximum. The event loop
  runs one task at a time, so each stretch of \<open>wait_until_available\<close> between two waits is one
  step; tasks, requests, scans and the clock interleave in any order. A task is woken when an
  event that it waits for is set, even if the event is cleared again before the task runs.
\<close>

section \<open>The gate\<close>

definition INTERACTIVE_QUIET_PERIOD_SECONDS :: rat where "INTERACTIVE_QUIET_PERIOD_SECONDS = 5"
definition INTERACTIVE_MAX_DEFERRAL_SECONDS :: rat where "INTERACTIVE_MAX_DEFERRAL_SECONDS = 120"

record workload_gate =
  wg_available :: bool
  wg_slot_taken :: bool
  wg_state_changed :: bool
  wg_generation :: int
  wg_last_interactive_at :: "rat option"
  wg_active_requests :: int
  wg_quiet_period :: rat
  wg_max_deferral :: rat
  wg_deferred_waits :: int
  wg_forced_passes :: int
  wg_total_deferred :: rat

definition new_workload_gate :: "rat \<Rightarrow> rat \<Rightarrow> workload_gate" where
  "new_workload_gate quiet_period max_deferral =
     \<lparr>wg_available = True, wg_slot_taken = False, wg_state_changed = False, wg_generation = 0,
      wg_last_interactive_at = None, wg_active_requests = 0, wg_quiet_period = max 0 quiet_period,
      wg_max_deferral = max 0 max_deferral, wg_deferred_waits = 0, wg_forced_passes = 0, wg_total_deferred = 0\<rparr>"

definition set_scan_active :: "bool \<Rightarrow> workload_gate \<Rightarrow> workload_gate" where
  "set_scan_active active g =
     g\<lparr>wg_available := \<not> active, wg_generation := wg_generation g + 1, wg_state_changed := True\<rparr>"

definition touch_interactive_activity :: "rat \<Rightarrow> workload_gate \<Rightarrow> workload_gate" where
  "touch_interactive_activity now g =
     g\<lparr>wg_last_interactive_at := Some now, wg_generation := wg_generation g + 1, wg_state_changed := True\<rparr>"

definition begin_interactive_request :: "rat \<Rightarrow> workload_gate \<Rightarrow> workload_gate" where
  "begin_interactive_request now g =
     touch_interactive_activity now (g\<lparr>wg_active_requests := wg_active_requests g + 1\<rparr>)"

text \<open>\<open>None\<close> is the \<open>RuntimeError\<close>.\<close>

definition end_interactive_request :: "rat \<Rightarrow> workload_gate \<Rightarrow> workload_gate option" where
  "end_interactive_request now g =
     (if wg_active_requests g \<le> 0 then None
      else Some (touch_interactive_activity now (g\<lparr>wg_active_requests := wg_active_requests g - 1\<rparr>)))"

section \<open>Waiting\<close>

text \<open>
  What a task waits as: \<open>wait_until_available\<close> alone, the first wait of \<open>run_warmer_unit\<close>, or
  the wait inside \<open>warmer_slot\<close>.
\<close>

datatype wait_stage = Plain | FirstWait | InSlot

text \<open>
  Where it is: waiting for scans to end, asleep until a time (woken or not), waiting for the slot,
  admitted (by force or not), or done.
\<close>

datatype wait_phase = Parked bool | Asleep rat bool | NeedsSlot | Admitted bool | Done

record gate_waiter =
  gw_stage :: wait_stage
  gw_started :: rat
  gw_deferred :: bool
  gw_phase :: wait_phase

definition quiet_remaining :: "workload_gate \<Rightarrow> rat \<Rightarrow> rat" where
  "quiet_remaining g now =
     (case wg_last_interactive_at g of None \<Rightarrow> 0 | Some t \<Rightarrow> wg_quiet_period g - (now - t))"

definition max_remaining :: "workload_gate \<Rightarrow> rat \<Rightarrow> rat \<Rightarrow> rat" where
  "max_remaining g now started = wg_max_deferral g - (now - started)"

definition sleep_timeout :: "workload_gate \<Rightarrow> rat \<Rightarrow> rat \<Rightarrow> rat" where
  "sleep_timeout g now started =
     max (1 / 1000)
       (if 0 < wg_active_requests g then max_remaining g now started
        else min (quiet_remaining g now) (max_remaining g now started))"

definition note_pass :: "bool \<Rightarrow> rat \<Rightarrow> gate_waiter \<Rightarrow> workload_gate \<Rightarrow> workload_gate" where
  "note_pass forced now w g =
     (if gw_deferred w
      then g\<lparr>wg_deferred_waits := wg_deferred_waits g + 1,
             wg_total_deferred := wg_total_deferred g + (now - gw_started w),
             wg_forced_passes := wg_forced_passes g + of_bool forced\<rparr>
      else g)"

definition pass_phase :: "bool \<Rightarrow> gate_waiter \<Rightarrow> wait_phase" where
  "pass_phase forced w = (if gw_stage w = FirstWait then NeedsSlot else Admitted forced)"

text \<open>The loop from the end of \<open>_available.wait()\<close> to the next wait.\<close>

definition attempt :: "rat \<Rightarrow> workload_gate \<times> gate_waiter \<Rightarrow> workload_gate \<times> gate_waiter" where
  "attempt now = (\<lambda>(g, w).
     if wg_available g \<and> wg_active_requests g = 0 \<and> quiet_remaining g now \<le> 0
     then (note_pass False now w g, w\<lparr>gw_phase := pass_phase False w\<rparr>)
     else if wg_available g \<and> max_remaining g now (gw_started w) \<le> 0
     then (note_pass True now w g, w\<lparr>gw_phase := pass_phase True w\<rparr>)
     else (g\<lparr>wg_state_changed := False\<rparr>,
           w\<lparr>gw_deferred := True, gw_phase := Asleep (now + sleep_timeout g now (gw_started w)) False\<rparr>))"

definition start_loop :: "rat \<Rightarrow> workload_gate \<times> gate_waiter \<Rightarrow> workload_gate \<times> gate_waiter" where
  "start_loop now = (\<lambda>(g, w).
     if wg_available g then attempt now (g, w) else (g, w\<lparr>gw_phase := Parked False\<rparr>))"

definition new_waiter :: "wait_stage \<Rightarrow> rat \<Rightarrow> gate_waiter" where
  "new_waiter stage now = \<lparr>gw_stage = stage, gw_started = now, gw_deferred = False, gw_phase = Parked False\<rparr>"

section \<open>Tasks and time\<close>

record gate_world =
  ww_now :: rat
  ww_gate :: workload_gate
  ww_waiters :: "gate_waiter list"

text \<open>Setting \<open>_state_changed\<close> wakes the sleepers, setting \<open>_available\<close> those who wait for scans.\<close>

definition wake_waiter :: "bool \<Rightarrow> gate_waiter \<Rightarrow> gate_waiter" where
  "wake_waiter available w =
     (case gw_phase w of
        Asleep until _ \<Rightarrow> w\<lparr>gw_phase := Asleep until True\<rparr>
      | Parked woken \<Rightarrow> w\<lparr>gw_phase := Parked (woken \<or> available)\<rparr>
      | _ \<Rightarrow> w)"

datatype workload_event =
  Advance rat | SetScanActive bool | NoteActivity | BeginRequest | EndRequest
| StartWait | StartUnit | StartSlot | ResumeWaiter nat | TakeSlot nat | FinishUnit nat

definition changed :: "bool \<Rightarrow> workload_gate \<Rightarrow> gate_world \<Rightarrow> gate_world" where
  "changed available g w = w\<lparr>ww_gate := g, ww_waiters := map (wake_waiter available) (ww_waiters w)\<rparr>"

definition add_waiter :: "workload_gate \<times> gate_waiter \<Rightarrow> gate_world \<Rightarrow> gate_world" where
  "add_waiter = (\<lambda>(g, x) w. w\<lparr>ww_gate := g, ww_waiters := ww_waiters w @ [x]\<rparr>)"

definition put_waiter :: "nat \<Rightarrow> workload_gate \<times> gate_waiter \<Rightarrow> gate_world \<Rightarrow> gate_world" where
  "put_waiter i = (\<lambda>(g, x) w. w\<lparr>ww_gate := g, ww_waiters := (ww_waiters w)[i := x]\<rparr>)"

definition resume_waiter :: "nat \<Rightarrow> gate_world \<Rightarrow> gate_world option" where
  "resume_waiter i w =
     (if length (ww_waiters w) \<le> i then None
      else let x = ww_waiters w ! i
           in case gw_phase x of
                Parked True \<Rightarrow> Some (put_waiter i (attempt (ww_now w) (ww_gate w, x)) w)
              | Asleep until woken \<Rightarrow>
                  if woken \<or> until \<le> ww_now w
                  then Some (put_waiter i (start_loop (ww_now w) (ww_gate w, x)) w) else None
              | _ \<Rightarrow> None)"

definition take_slot :: "nat \<Rightarrow> gate_world \<Rightarrow> gate_world option" where
  "take_slot i w =
     (if length (ww_waiters w) \<le> i \<or> gw_phase (ww_waiters w ! i) \<noteq> NeedsSlot \<or> wg_slot_taken (ww_gate w) then None
      else Some (put_waiter i (start_loop (ww_now w)
             ((ww_gate w)\<lparr>wg_slot_taken := True\<rparr>, new_waiter InSlot (ww_now w))) w))"

definition finish_unit :: "nat \<Rightarrow> gate_world \<Rightarrow> gate_world option" where
  "finish_unit i w =
     (if length (ww_waiters w) \<le> i then None
      else let x = ww_waiters w ! i
           in case gw_phase x of
                Admitted _ \<Rightarrow> Some (put_waiter i
                  (if gw_stage x = InSlot then (ww_gate w)\<lparr>wg_slot_taken := False\<rparr> else ww_gate w,
                   x\<lparr>gw_phase := Done\<rparr>) w)
              | _ \<Rightarrow> None)"

definition workload_step :: "workload_event \<Rightarrow> gate_world \<Rightarrow> gate_world option" where
  "workload_step e w =
     (let now = ww_now w; g = ww_gate w
      in case e of
           Advance dt \<Rightarrow> if dt < 0 then None else Some (w\<lparr>ww_now := now + dt\<rparr>)
         | SetScanActive active \<Rightarrow> Some (changed (\<not> active) (set_scan_active active g) w)
         | NoteActivity \<Rightarrow> Some (changed False (touch_interactive_activity now g) w)
         | BeginRequest \<Rightarrow> Some (changed False (begin_interactive_request now g) w)
         | EndRequest \<Rightarrow> map_option (\<lambda>g. changed False g w) (end_interactive_request now g)
         | StartWait \<Rightarrow> Some (add_waiter (start_loop now (g, new_waiter Plain now)) w)
         | StartUnit \<Rightarrow> Some (add_waiter (start_loop now (g, new_waiter FirstWait now)) w)
         | StartSlot \<Rightarrow> Some (add_waiter (g, (new_waiter InSlot now)\<lparr>gw_phase := NeedsSlot\<rparr>) w)
         | ResumeWaiter i \<Rightarrow> resume_waiter i w
         | TakeSlot i \<Rightarrow> take_slot i w
         | FinishUnit i \<Rightarrow> finish_unit i w)"

fun workload_run :: "workload_event list \<Rightarrow> gate_world \<Rightarrow> gate_world option" where
  "workload_run [] w = Some w"
| "workload_run (e # es) w = Option.bind (workload_step e w) (workload_run es)"

definition gate_start :: "rat \<Rightarrow> rat \<Rightarrow> gate_world" where
  "gate_start quiet_period max_deferral =
     \<lparr>ww_now = 0, ww_gate = new_workload_gate quiet_period max_deferral, ww_waiters = []\<rparr>"

inductive gate_reachable :: "rat \<Rightarrow> rat \<Rightarrow> gate_world \<Rightarrow> bool" for quiet_period max_deferral where
  start: "gate_reachable quiet_period max_deferral (gate_start quiet_period max_deferral)"
| step: "gate_reachable quiet_period max_deferral w \<Longrightarrow> workload_step e w = Some w'
    \<Longrightarrow> gate_reachable quiet_period max_deferral w'"

section \<open>The invariant\<close>

text \<open>
  A task that nobody has woken waits for a scan that still runs, or sleeps no longer than a
  millisecond past the maximum deferral.
\<close>

definition waiter_ok :: "workload_gate \<Rightarrow> gate_waiter \<Rightarrow> bool" where
  "waiter_ok g x \<longleftrightarrow>
     (case gw_phase x of
        Parked woken \<Rightarrow> woken \<or> \<not> wg_available g
      | Asleep until woken \<Rightarrow> woken \<or> \<not> wg_available g \<or> until \<le> gw_started x + wg_max_deferral g + 1 / 1000
      | _ \<Rightarrow> True)"

definition holds_slot :: "gate_waiter \<Rightarrow> bool" where
  "holds_slot x \<longleftrightarrow> gw_stage x = InSlot \<and> gw_phase x \<notin> {NeedsSlot, Done}"

definition world_ok :: "gate_world \<Rightarrow> bool" where
  "world_ok w \<longleftrightarrow>
     list_all (waiter_ok (ww_gate w)) (ww_waiters w)
     \<and> length (filter holds_slot (ww_waiters w)) = of_bool (wg_slot_taken (ww_gate w))
     \<and> wg_active_requests (ww_gate w) \<ge> 0"

lemma note_pass_same:
  "wg_available (note_pass f now w g) = wg_available g" "wg_slot_taken (note_pass f now w g) = wg_slot_taken g"
  "wg_active_requests (note_pass f now w g) = wg_active_requests g"
  "wg_max_deferral (note_pass f now w g) = wg_max_deferral g"
  "wg_last_interactive_at (note_pass f now w g) = wg_last_interactive_at g"
  "wg_quiet_period (note_pass f now w g) = wg_quiet_period g"
  by (simp_all add: note_pass_def)

lemma attempt_same:
  assumes "attempt now (g, x) = (g', x')"
  shows "wg_available g' = wg_available g" "wg_slot_taken g' = wg_slot_taken g"
    "wg_active_requests g' = wg_active_requests g" "wg_max_deferral g' = wg_max_deferral g"
    "gw_stage x' = gw_stage x" "gw_started x' = gw_started x" "waiter_ok g' x'"
    "gw_phase x' \<noteq> Done" "gw_phase x' = NeedsSlot \<Longrightarrow> gw_stage x = FirstWait"
  using assms
  by (auto simp: attempt_def note_pass_same waiter_ok_def pass_phase_def sleep_timeout_def max_remaining_def
      split: if_splits)

lemma start_loop_same:
  assumes "start_loop now (g, x) = (g', x')"
  shows "wg_available g' = wg_available g" "wg_slot_taken g' = wg_slot_taken g"
    "wg_active_requests g' = wg_active_requests g" "wg_max_deferral g' = wg_max_deferral g"
    "gw_stage x' = gw_stage x" "gw_started x' = gw_started x" "waiter_ok g' x'"
    "gw_phase x' \<noteq> Done" "gw_phase x' = NeedsSlot \<Longrightarrow> gw_stage x = FirstWait"
  using assms attempt_same [of now g x g' x']
  by (auto simp: start_loop_def waiter_ok_def split: if_splits)

lemma filter_length_update:
  "i < length xs \<Longrightarrow> length (filter p (xs[i := y])) + of_bool (p (xs ! i)) = length (filter p xs) + of_bool (p y)"
proof (induction xs arbitrary: i)
  case (Cons x xs)
  show ?case
  proof (cases i)
    case (Suc j)
    then have "length (filter p (xs[j := y])) + of_bool (p (xs ! j)) = length (filter p xs) + of_bool (p y)"
      using Cons by simp
    then show ?thesis using Suc by simp
  qed simp
qed simp

lemma wake_waiter_same:
  "gw_stage (wake_waiter b x) = gw_stage x" "gw_started (wake_waiter b x) = gw_started x"
  "holds_slot (wake_waiter b x) = holds_slot x"
  by (auto simp: wake_waiter_def holds_slot_def split: wait_phase.splits)

lemma changed_ok:
  assumes "world_ok w" "wg_slot_taken g = wg_slot_taken (ww_gate w)" "0 \<le> wg_active_requests g"
    and "wg_available g \<Longrightarrow> b \<or> wg_available (ww_gate w)"
  shows "world_ok (changed b g w)"
proof -
  have "waiter_ok g (wake_waiter b x)" if "waiter_ok (ww_gate w) x" for x
    using that assms(4) by (auto simp: waiter_ok_def wake_waiter_def split: wait_phase.splits)
  then show ?thesis
    using assms by (auto simp: world_ok_def changed_def list_all_iff filter_map o_def wake_waiter_same)
qed

text \<open>A step that leaves the scans, the requests and the limits alone and changes one waiter.\<close>

lemma put_waiter_ok:
  assumes w: "world_ok w" and i: "i < length (ww_waiters w)"
    and g: "wg_available g = wg_available (ww_gate w)" "wg_active_requests g = wg_active_requests (ww_gate w)"
      "wg_max_deferral g = wg_max_deferral (ww_gate w)"
    and x: "waiter_ok g x"
    and slot: "of_bool (wg_slot_taken g) + of_bool (holds_slot (ww_waiters w ! i))
      = (of_bool (wg_slot_taken (ww_gate w)) + of_bool (holds_slot x) :: nat)"
  shows "world_ok (put_waiter i (g, x) w)"
proof -
  have same: "waiter_ok g y = waiter_ok (ww_gate w) y" for y
    using g by (auto simp: waiter_ok_def split: wait_phase.splits)
  have "list_all (waiter_ok g) ((ww_waiters w)[i := x])"
    using w x unfolding world_ok_def list_all_iff
    by (auto simp: same dest: set_update_subset_insert [THEN subsetD])
  then show ?thesis
    using w slot g(2) filter_length_update [OF i, of holds_slot x] by (simp add: world_ok_def put_waiter_def)
qed

lemma add_waiter_ok:
  assumes w: "world_ok w"
    and g: "wg_available g = wg_available (ww_gate w)" "wg_active_requests g = wg_active_requests (ww_gate w)"
      "wg_max_deferral g = wg_max_deferral (ww_gate w)" "wg_slot_taken g = wg_slot_taken (ww_gate w)"
    and x: "waiter_ok g x" "\<not> holds_slot x"
  shows "world_ok (add_waiter (g, x) w)"
proof -
  have "waiter_ok g y = waiter_ok (ww_gate w) y" for y
    using g by (auto simp: waiter_ok_def split: wait_phase.splits)
  then show ?thesis using assms by (simp add: world_ok_def add_waiter_def list_all_iff)
qed

lemma holds_slot_cases:
  "gw_stage x \<noteq> InSlot \<Longrightarrow> \<not> holds_slot x"
  "gw_stage x = InSlot \<Longrightarrow> gw_phase x \<noteq> NeedsSlot \<Longrightarrow> gw_phase x \<noteq> Done \<Longrightarrow> holds_slot x"
  by (simp_all add: holds_slot_def)

lemma loop_keeps_slot:
  assumes "gw_phase x \<noteq> NeedsSlot" "gw_phase x \<noteq> Done" "gw_stage y = gw_stage x" "gw_phase y \<noteq> Done"
    and "gw_phase y = NeedsSlot \<Longrightarrow> gw_stage x = FirstWait"
  shows "holds_slot y = holds_slot x"
  using assms by (auto simp: holds_slot_def)

lemma resume_waiter_ok:
  assumes "resume_waiter i w = Some w'" "world_ok w"
  shows "world_ok w'"
proof -
  let ?x = "ww_waiters w ! i"
  have i: "i < length (ww_waiters w)" using assms by (auto simp: resume_waiter_def split: if_splits)
  have "w' = put_waiter i (attempt (ww_now w) (ww_gate w, ?x)) w \<or> w' = put_waiter i (start_loop (ww_now w) (ww_gate w, ?x)) w"
    using assms(1) by (auto simp: resume_waiter_def Let_def split: if_splits wait_phase.splits bool.splits)
  then obtain g y where w': "w' = put_waiter i (g, y) w"
    and loop: "attempt (ww_now w) (ww_gate w, ?x) = (g, y) \<or> start_loop (ww_now w) (ww_gate w, ?x) = (g, y)"
    by (metis surj_pair)
  have x: "gw_phase ?x \<noteq> NeedsSlot" "gw_phase ?x \<noteq> Done"
    using assms(1) by (auto simp: resume_waiter_def Let_def split: if_splits)
  have facts: "wg_available g = wg_available (ww_gate w)" "wg_slot_taken g = wg_slot_taken (ww_gate w)"
    "wg_active_requests g = wg_active_requests (ww_gate w)" "wg_max_deferral g = wg_max_deferral (ww_gate w)"
    "gw_stage y = gw_stage ?x" "waiter_ok g y" "gw_phase y \<noteq> Done" "gw_phase y = NeedsSlot \<Longrightarrow> gw_stage ?x = FirstWait"
    using loop attempt_same [of "ww_now w" "ww_gate w" ?x g y] start_loop_same [of "ww_now w" "ww_gate w" ?x g y] by blast+
  have "holds_slot y = holds_slot ?x" by (rule loop_keeps_slot [OF x facts(5,7,8)])
  then show ?thesis using facts by (auto simp: w' intro!: put_waiter_ok [OF assms(2) i])
qed

lemma take_slot_ok:
  assumes "take_slot i w = Some w'" "world_ok w"
  shows "world_ok w'"
proof -
  let ?g = "(ww_gate w)\<lparr>wg_slot_taken := True\<rparr>"
  have i: "i < length (ww_waiters w)" and x: "gw_phase (ww_waiters w ! i) = NeedsSlot" "\<not> wg_slot_taken (ww_gate w)"
    using assms(1) by (auto simp: take_slot_def split: if_splits)
  obtain g y where loop: "start_loop (ww_now w) (?g, new_waiter InSlot (ww_now w)) = (g, y)" by fastforce
  then have w': "w' = put_waiter i (g, y) w" using assms(1) by (simp add: take_slot_def split: if_splits)
  note S = start_loop_same [OF loop]
  have "holds_slot y" using S by (intro holds_slot_cases(2)) (auto simp: new_waiter_def)
  then show ?thesis using S x by (auto simp: w' holds_slot_def intro!: put_waiter_ok [OF assms(2) i])
qed

lemma finish_unit_ok:
  assumes "finish_unit i w = Some w'" "world_ok w"
  shows "world_ok w'"
proof -
  let ?x = "ww_waiters w ! i"
  let ?g = "if gw_stage ?x = InSlot then (ww_gate w)\<lparr>wg_slot_taken := False\<rparr> else ww_gate w"
  have i: "i < length (ww_waiters w)" and w': "w' = put_waiter i (?g, ?x\<lparr>gw_phase := Done\<rparr>) w"
    and x: "\<exists>forced. gw_phase ?x = Admitted forced"
    using assms(1) by (auto simp: finish_unit_def Let_def split: if_splits wait_phase.splits)
  have "0 < length (filter holds_slot (ww_waiters w))" if "holds_slot ?x"
    using that i by (auto simp: filter_empty_conv)
  then have "wg_slot_taken (ww_gate w)" if "holds_slot ?x"
    using that assms(2) by (cases "wg_slot_taken (ww_gate w)") (auto simp: world_ok_def)
  then show ?thesis
    using x unfolding w' by (intro put_waiter_ok [OF assms(2) i]) (auto simp: waiter_ok_def holds_slot_def)
qed

lemma workload_step_ok:
  assumes "workload_step e w = Some w'" "world_ok w"
  shows "world_ok w'"
proof -
  have active: "0 \<le> wg_active_requests (ww_gate w)" using assms(2) by (simp add: world_ok_def)
  show ?thesis
  proof (cases e)
    case (Advance dt)
    then show ?thesis using assms by (auto simp: workload_step_def Let_def world_ok_def split: if_splits)
  next
    case (SetScanActive active)
    then show ?thesis using assms active
      by (auto simp: workload_step_def set_scan_active_def Let_def intro!: changed_ok)
  next
    case NoteActivity
    then show ?thesis using assms active
      by (auto simp: workload_step_def touch_interactive_activity_def Let_def intro!: changed_ok)
  next
    case BeginRequest
    then show ?thesis using assms active
      by (auto simp: workload_step_def begin_interactive_request_def touch_interactive_activity_def Let_def intro!: changed_ok)
  next
    case EndRequest
    then show ?thesis using assms active
      by (auto simp: workload_step_def end_interactive_request_def touch_interactive_activity_def Let_def
          intro!: changed_ok split: if_splits)
  next
    case StartWait
    obtain g x where "start_loop (ww_now w) (ww_gate w, new_waiter Plain (ww_now w)) = (g, x)" by fastforce
    with StartWait show ?thesis using assms start_loop_same [of "ww_now w" "ww_gate w" _ g x]
      by (auto simp: workload_step_def holds_slot_def new_waiter_def Let_def intro!: add_waiter_ok)
  next
    case StartUnit
    obtain g x where "start_loop (ww_now w) (ww_gate w, new_waiter FirstWait (ww_now w)) = (g, x)" by fastforce
    with StartUnit show ?thesis using assms start_loop_same [of "ww_now w" "ww_gate w" _ g x]
      by (auto simp: workload_step_def holds_slot_def new_waiter_def Let_def intro!: add_waiter_ok)
  next
    case StartSlot
    then show ?thesis using assms
      by (auto simp: workload_step_def waiter_ok_def holds_slot_def Let_def intro!: add_waiter_ok)
  qed (use assms in \<open>auto simp: workload_step_def Let_def intro: resume_waiter_ok take_slot_ok finish_unit_ok\<close>)
qed

lemma reachable_world_ok: "gate_reachable q m w \<Longrightarrow> world_ok w"
proof (induction rule: gate_reachable.induct)
  case start
  show ?case by (simp add: gate_start_def new_workload_gate_def world_ok_def)
next
  case (step w e w')
  then show ?case using workload_step_ok by blast
qed

section \<open>Admission\<close>

text \<open>What the gate promises of a pass at a time, for a wait that started at another.\<close>

definition may_pass :: "workload_gate \<Rightarrow> rat \<Rightarrow> rat \<Rightarrow> bool \<Rightarrow> bool" where
  "may_pass g now started forced \<longleftrightarrow>
     wg_available g
     \<and> (if forced then wg_max_deferral g \<le> now - started
        else wg_active_requests g = 0
             \<and> (case wg_last_interactive_at g of None \<Rightarrow> True | Some t \<Rightarrow> wg_quiet_period g \<le> now - t))"

lemma attempt_passes:
  assumes "attempt now (g, x) = (g', y)" "gw_phase y = Admitted forced"
  shows "may_pass g now (gw_started y) forced"
  using assms
  by (auto simp: attempt_def may_pass_def pass_phase_def quiet_remaining_def max_remaining_def split: if_splits option.splits)

lemma start_loop_passes:
  "start_loop now (g, x) = (g', y) \<Longrightarrow> gw_phase y = Admitted forced \<Longrightarrow> may_pass g now (gw_started y) forced"
  using attempt_passes by (auto simp: start_loop_def split: if_splits)

text \<open>The task \<open>i\<close> is admitted by a step.\<close>

definition admits :: "nat \<Rightarrow> bool \<Rightarrow> gate_world \<Rightarrow> gate_world \<Rightarrow> bool" where
  "admits i forced w w' \<longleftrightarrow>
     i < length (ww_waiters w') \<and> gw_phase (ww_waiters w' ! i) = Admitted forced
     \<and> \<not> (i < length (ww_waiters w) \<and> gw_phase (ww_waiters w ! i) = Admitted forced)"

lemma admits_put:
  assumes "admits i forced w (put_waiter j (g, y) w)"
  shows "i = j" "gw_phase y = Admitted forced"
  using assms by (cases "i = j"; auto simp: admits_def put_waiter_def)+

lemma admits_add:
  assumes "admits i forced w (add_waiter (g, y) w)"
  shows "i = length (ww_waiters w)" "gw_phase y = Admitted forced"
  using assms by (cases "i = length (ww_waiters w)"; auto simp: admits_def add_waiter_def nth_append)+

lemma not_admits_changed: "\<not> admits i forced w (changed b g w)"
  by (auto simp: admits_def changed_def wake_waiter_def split: wait_phase.splits)

lemma gate_step_admits:
  assumes step: "workload_step e w = Some w'" and a: "admits i forced w w'"
  shows "may_pass (ww_gate w) (ww_now w) (gw_started (ww_waiters w' ! i)) forced"
proof -
  have added: ?thesis if "w' = add_waiter (start_loop (ww_now w) (ww_gate w, x)) w" for x
  proof -
    obtain g y where l: "start_loop (ww_now w) (ww_gate w, x) = (g, y)" by fastforce
    then have w': "w' = add_waiter (g, y) w" using that by simp
    note A = admits_add [OF a [unfolded w']]
    have "ww_waiters w' ! i = y" using A(1) by (simp add: w' add_waiter_def)
    then show ?thesis using start_loop_passes [OF l A(2)] by simp
  qed
  have put: ?thesis
    if "w' = put_waiter j p w" "attempt (ww_now w) (ww_gate w, x) = p \<or> start_loop (ww_now w) (gate, x) = p"
      "gate = ww_gate w \<or> gate = (ww_gate w)\<lparr>wg_slot_taken := True\<rparr>" "j < length (ww_waiters w)" for j p x gate
  proof -
    obtain g y where p: "p = (g, y)" by fastforce
    note A = admits_put [OF a [unfolded that(1) p]]
    have "ww_waiters w' ! i = y" using A(1) that(1,4) by (simp add: p put_waiter_def)
    moreover have "may_pass (ww_gate w) (ww_now w) (gw_started y) forced"
      using that(2,3) attempt_passes [of "ww_now w" "ww_gate w" x g y forced]
        start_loop_passes [of "ww_now w" gate x g y forced] A(2) by (auto simp: p may_pass_def split: option.splits)
    ultimately show ?thesis by simp
  qed
  show ?thesis
  proof (cases e)
    case (Advance dt)
    then show ?thesis using step a by (auto simp: workload_step_def Let_def admits_def split: if_splits)
  next
    case StartWait
    with step show ?thesis by (intro added [of "new_waiter Plain (ww_now w)"]) (simp add: workload_step_def Let_def)
  next
    case StartUnit
    with step show ?thesis by (intro added [of "new_waiter FirstWait (ww_now w)"]) (simp add: workload_step_def Let_def)
  next
    case StartSlot
    then have "w' = add_waiter (ww_gate w, (new_waiter InSlot (ww_now w))\<lparr>gw_phase := NeedsSlot\<rparr>) w"
      using step by (simp add: workload_step_def Let_def)
    from admits_add(2) [OF a [unfolded this]] show ?thesis by simp
  next
    case (ResumeWaiter j)
    have "w' = put_waiter j (attempt (ww_now w) (ww_gate w, ww_waiters w ! j)) w
        \<or> w' = put_waiter j (start_loop (ww_now w) (ww_gate w, ww_waiters w ! j)) w" "j < length (ww_waiters w)"
      using ResumeWaiter step
      by (auto simp: workload_step_def resume_waiter_def Let_def split: if_splits wait_phase.splits bool.splits)
    then show ?thesis using put by blast
  next
    case (TakeSlot j)
    then have "w' = put_waiter j (start_loop (ww_now w) ((ww_gate w)\<lparr>wg_slot_taken := True\<rparr>, new_waiter InSlot (ww_now w))) w"
      "j < length (ww_waiters w)"
      using step by (auto simp: workload_step_def Let_def take_slot_def split: if_splits)
    then show ?thesis using put by blast
  next
    case (FinishUnit j)
    then obtain g x where "w' = put_waiter j (g, x\<lparr>gw_phase := Done\<rparr>) w"
      using step by (auto simp: workload_step_def finish_unit_def Let_def split: if_splits wait_phase.splits)
    from admits_put(2) [OF a [unfolded this]] show ?thesis by simp
  qed (use step a not_admits_changed in \<open>auto simp: workload_step_def Let_def\<close>)
qed

text \<open>
  C37. The gate admits a background task only when no library scan runs, and then either when no
  interactive request is active and the quiet period has passed since the last one, or, by force,
  when the task has waited for the maximum deferral. At most one task is in the warmer slot.
\<close>

theorem gate_admission_sound:
  assumes "gate_reachable quiet_period max_deferral w" "workload_step e w = Some w'" "admits i forced w w'"
  shows "may_pass (ww_gate w) (ww_now w) (gw_started (ww_waiters w' ! i)) forced
    \<and> length (filter holds_slot (ww_waiters w')) \<le> 1"
proof -
  have "world_ok w'" using workload_step_ok [OF assms(2) reachable_world_ok [OF assms(1)]] .
  then show ?thesis using gate_step_admits [OF assms(2,3)] by (simp add: world_ok_def)
qed

lemma gate_run_reachable: "workload_run es w = Some w' \<Longrightarrow> gate_reachable q m w \<Longrightarrow> gate_reachable q m w'"
  by (induction es arbitrary: w) (auto split: bind_splits intro: gate_reachable.step)

definition busy_events :: "workload_event list" where
  "busy_events = [BeginRequest, StartWait, Advance 2, EndRequest, ResumeWaiter 0, Advance 5]"

theorem gate_admission_sound_witness:
  "\<exists>w w'. workload_run busy_events (gate_start 5 120) = Some w \<and> workload_step (ResumeWaiter 0) w = Some w'
    \<and> admits 0 False w w' \<and> may_pass (ww_gate w) 7 0 False"
proof -
  have "Option.bind (workload_run busy_events (gate_start 5 120)) (\<lambda>w. map_option (\<lambda>w'.
      (ww_now w, map gw_phase (ww_waiters w), map (\<lambda>x. (gw_phase x, gw_started x)) (ww_waiters w')))
      (workload_step (ResumeWaiter 0) w)) = Some (7, [Asleep 7 False], [(Admitted False, 0)])"
    by code_simp
  then obtain w w' where run: "workload_run busy_events (gate_start 5 120) = Some w" "workload_step (ResumeWaiter 0) w = Some w'"
    and w: "ww_now w = 7" "map gw_phase (ww_waiters w) = [Asleep 7 False]"
      "map (\<lambda>x. (gw_phase x, gw_started x)) (ww_waiters w') = [(Admitted False, 0)]"
    by (auto split: bind_splits)
  then have a: "admits 0 False w w'" "gw_started (ww_waiters w' ! 0) = 0" by (auto simp: admits_def)
  have "gate_reachable 5 120 w" by (rule gate_run_reachable [OF run(1) gate_reachable.start])
  from gate_admission_sound [OF this run(2) a(1)] show ?thesis using run w(1) a by auto
qed

text \<open>
  C38. One wait at the gate lasts little longer than the maximum deferral: once a task has been in
  it for that time and a millisecond, and no scan runs, it is not asleep for good but can go on at
  once, and that wait is over. (A unit of the warmer goes through two such waits, one after the
  other, see \<open>unit_waits_twice\<close>.)
\<close>

theorem gate_deferral_bounded:
  assumes "gate_reachable quiet_period max_deferral w" "i < length (ww_waiters w)" "wg_available (ww_gate w)"
    and "gw_started (ww_waiters w ! i) + wg_max_deferral (ww_gate w) + 1 / 1000 \<le> ww_now w"
    and "(\<exists>woken. gw_phase (ww_waiters w ! i) = Parked woken)
      \<or> (\<exists>until woken. gw_phase (ww_waiters w ! i) = Asleep until woken)"
  shows "\<exists>w' forced. workload_step (ResumeWaiter i) w = Some w'
    \<and> gw_phase (ww_waiters w' ! i) = pass_phase forced (ww_waiters w ! i)"
proof -
  let ?x = "ww_waiters w ! i"
  have "waiter_ok (ww_gate w) ?x"
    using reachable_world_ok [OF assms(1)] assms(2) by (simp add: world_ok_def list_all_length)
  then have go: "workload_step (ResumeWaiter i) w = Some (put_waiter i (attempt (ww_now w) (ww_gate w, ?x)) w)"
    using assms(2-5)
    by (auto simp: workload_step_def resume_waiter_def waiter_ok_def start_loop_def Let_def)
  obtain g y where a: "attempt (ww_now w) (ww_gate w, ?x) = (g, y)" by fastforce
  then have "\<exists>forced. gw_phase y = pass_phase forced ?x"
    using assms(3,4) by (auto simp: attempt_def max_remaining_def split: if_splits)
  then show ?thesis using go assms(2) by (auto simp: a put_waiter_def)
qed

theorem gate_deferral_bounded_witness:
  "\<exists>w w' forced. workload_run [BeginRequest, StartWait, Advance 121] (gate_start 5 120) = Some w
    \<and> workload_step (ResumeWaiter 0) w = Some w' \<and> gw_phase (ww_waiters w' ! 0) = Admitted forced"
proof -
  have "map_option (\<lambda>w. (ww_now w, wg_available (ww_gate w), wg_max_deferral (ww_gate w),
      map (\<lambda>x. (gw_stage x, gw_started x, gw_phase x)) (ww_waiters w)))
      (workload_run [BeginRequest, StartWait, Advance 121] (gate_start 5 120))
    = Some (121, True, 120, [(Plain, 0, Asleep 120 False)])"
    by code_simp
  then obtain w where run: "workload_run [BeginRequest, StartWait, Advance 121] (gate_start 5 120) = Some w"
    and w: "ww_now w = 121" "wg_available (ww_gate w)" "wg_max_deferral (ww_gate w) = 120"
      "map (\<lambda>x. (gw_stage x, gw_started x, gw_phase x)) (ww_waiters w) = [(Plain, 0, Asleep 120 False)]"
    by auto
  then obtain x where x: "ww_waiters w = [x]" "gw_stage x = Plain" "gw_started x = 0" "gw_phase x = Asleep 120 False"
    by auto
  have "gate_reachable 5 120 w" by (rule gate_run_reachable [OF run gate_reachable.start])
  from gate_deferral_bounded [OF this, of 0] show ?thesis using run w x by (auto simp: pass_phase_def)
qed

text \<open>
  \<open>run_warmer_unit\<close> waits twice, before the slot and inside it, and the second wait starts anew:
  while one request stays active, a unit is admitted after twice the maximum deferral.
\<close>

lemma unit_waits_twice:
  "map_option (\<lambda>w. (ww_now w, map gw_phase (ww_waiters w)))
     (workload_run [BeginRequest, StartUnit, Advance INTERACTIVE_MAX_DEFERRAL_SECONDS, ResumeWaiter 0, TakeSlot 0, Advance 119]
        (gate_start INTERACTIVE_QUIET_PERIOD_SECONDS INTERACTIVE_MAX_DEFERRAL_SECONDS))
   = Some (239, [Asleep 240 False])"
  by code_simp

end
