(* ===== verification/Durable_Wakeups.thy ===== *)
theory Durable_Wakeups
  imports Complex_Main Py_Base
begin

text \<open>
  \<open>infrastructure/queue/durable_work_wakeup.py\<close>: workers of a durable queue sleep until a
  producer notifies them, until a scheduled deadline, or until a timeout. The event loop runs one
  task at a time, so every operation up to its wait is one step. The heap of deadlines is a sorted
  list; a timer of the loop fires once its time has come, up to the resolution of the clock early.
\<close>

section \<open>The queues\<close>

record wake_queue =
  wq_event :: bool
  wq_revision :: int
  wq_deadlines :: "rat list"
  wq_handle :: "rat option"

definition new_wake_queue :: wake_queue where
  "new_wake_queue = \<lparr>wq_event = False, wq_revision = 0, wq_deadlines = [], wq_handle = None\<rparr>"

record queue_waiter =
  wk_kind :: pystr
  wk_after_revision :: int
  wk_timeout_at :: rat
  wk_woken :: bool
  wk_result :: "bool option"

record wake_world =
  wr_now :: rat
  wr_resolution :: rat
  wr_queues :: "pystr \<Rightarrow> wake_queue"
  wr_waiters :: "queue_waiter list"

definition wake_start :: "rat \<Rightarrow> wake_world" where
  "wake_start resolution =
     \<lparr>wr_now = 0, wr_resolution = resolution, wr_queues = (\<lambda>_. new_wake_queue), wr_waiters = []\<rparr>"

definition set_queue :: "pystr \<Rightarrow> wake_queue \<Rightarrow> wake_world \<Rightarrow> wake_world" where
  "set_queue k q w = w\<lparr>wr_queues := (wr_queues w)(k := q)\<rparr>"

definition notify :: "pystr \<Rightarrow> wake_world \<Rightarrow> wake_world" where
  "notify k w =
     (let q = wr_queues w k
      in (set_queue k (q\<lparr>wq_revision := wq_revision q + 1, wq_event := True\<rparr>) w)
           \<lparr>wr_waiters := map (\<lambda>x. if wk_kind x = k then x\<lparr>wk_woken := True\<rparr> else x) (wr_waiters w)\<rparr>)"

definition notify_after :: "pystr \<Rightarrow> rat \<Rightarrow> wake_world \<Rightarrow> wake_world" where
  "notify_after k delay w =
     (if delay \<le> 0 then notify k w
      else let q = wr_queues w k; deadline = wr_now w + delay;
               earlier = (case wq_handle q of None \<Rightarrow> True | Some t \<Rightarrow> deadline < t)
           in set_queue k (q\<lparr>wq_deadlines := insort deadline (wq_deadlines q),
                             wq_handle := (if earlier then Some deadline else wq_handle q)\<rparr>) w)"

definition notify_due :: "pystr \<Rightarrow> wake_world \<Rightarrow> wake_world" where
  "notify_due k w =
     (let q = wr_queues w k;
          deadlines = dropWhile (\<lambda>d. d \<le> wr_now w) (wq_deadlines q);
          w = notify k (set_queue k (q\<lparr>wq_handle := None, wq_deadlines := deadlines\<rparr>) w);
          q = wr_queues w k
      in case deadlines of
           [] \<Rightarrow> w
         | d # _ \<Rightarrow> set_queue k (q\<lparr>wq_handle := Some d\<rparr>) w)"

text \<open>\<open>wait\<close> up to its sleep; it returns at once when the revision has changed.\<close>

definition start_wait :: "pystr \<Rightarrow> int \<Rightarrow> rat \<Rightarrow> wake_world \<Rightarrow> wake_world" where
  "start_wait k after timeout w =
     (let q = wr_queues w k;
          waiter = \<lparr>wk_kind = k, wk_after_revision = after, wk_timeout_at = wr_now w + timeout,
                    wk_woken = False, wk_result = None\<rparr>
      in if wq_revision q \<noteq> after then w\<lparr>wr_waiters := wr_waiters w @ [waiter\<lparr>wk_result := Some True\<rparr>]\<rparr>
         else (set_queue k (q\<lparr>wq_event := False\<rparr>) w)\<lparr>wr_waiters := wr_waiters w @ [waiter]\<rparr>)"

text \<open>The waiter goes on: woken, or because its time is over.\<close>

definition end_wait :: "nat \<Rightarrow> wake_world \<Rightarrow> wake_world option" where
  "end_wait i w =
     (if length (wr_waiters w) \<le> i then None
      else let x = wr_waiters w ! i
           in if wk_result x \<noteq> None then None
              else if wk_woken x then Some (w\<lparr>wr_waiters := (wr_waiters w)[i := x\<lparr>wk_result := Some True\<rparr>]\<rparr>)
              else if wk_timeout_at x \<le> wr_now w
              then Some (w\<lparr>wr_waiters := (wr_waiters w)[i := x\<lparr>wk_result := Some False\<rparr>]\<rparr>)
              else None)"

inductive wake_step :: "wake_world \<Rightarrow> wake_world \<Rightarrow> bool" where
  advance: "0 \<le> dt \<Longrightarrow> wake_step w (w\<lparr>wr_now := wr_now w + dt\<rparr>)"
| notify: "wake_step w (notify k w)"
| notify_after: "wake_step w (notify_after k delay w)"
| timer: "wq_handle (wr_queues w k) = Some t \<Longrightarrow> t \<le> wr_now w + wr_resolution w \<Longrightarrow> wake_step w (notify_due k w)"
| wait: "wake_step w (start_wait k after timeout w)"
| wait_ends: "end_wait i w = Some w' \<Longrightarrow> wake_step w w'"

inductive wake_reachable :: "rat \<Rightarrow> wake_world \<Rightarrow> bool" for resolution where
  start: "wake_reachable resolution (wake_start resolution)"
| step: "wake_reachable resolution w \<Longrightarrow> wake_step w w' \<Longrightarrow> wake_reachable resolution w'"

section \<open>The invariant\<close>

text \<open>The timer of a queue stands at its earliest deadline.\<close>

definition queue_ok :: "wake_queue \<Rightarrow> bool" where
  "queue_ok q \<longleftrightarrow>
     sorted (wq_deadlines q) \<and> wq_handle q = (case wq_deadlines q of [] \<Rightarrow> None | d # _ \<Rightarrow> Some d)"

text \<open>Whoever sleeps and was not woken has seen the current revision.\<close>

definition sleeper_ok :: "(pystr \<Rightarrow> wake_queue) \<Rightarrow> queue_waiter \<Rightarrow> bool" where
  "sleeper_ok queues x \<longleftrightarrow>
     wk_result x \<noteq> None \<or> wk_woken x \<or> wk_after_revision x = wq_revision (queues (wk_kind x))"

definition wakeups_ok :: "wake_world \<Rightarrow> bool" where
  "wakeups_ok w \<longleftrightarrow> (\<forall>k. queue_ok (wr_queues w k)) \<and> list_all (sleeper_ok (wr_queues w)) (wr_waiters w)"

lemma wake_start_ok: "wakeups_ok (wake_start resolution)"
  by (simp add: wakeups_ok_def wake_start_def new_wake_queue_def queue_ok_def)

lemma notify_ok: "wakeups_ok w \<Longrightarrow> wakeups_ok (notify k w)"
  by (auto simp: wakeups_ok_def notify_def set_queue_def queue_ok_def sleeper_ok_def list_all_iff Let_def)

lemma set_queue_ok:
  "wakeups_ok w \<Longrightarrow> queue_ok q \<Longrightarrow> wq_revision q = wq_revision (wr_queues w k) \<Longrightarrow> wakeups_ok (set_queue k q w)"
  by (auto simp: wakeups_ok_def set_queue_def sleeper_ok_def list_all_iff)

lemma push_deadline_ok:
  assumes "queue_ok q"
  shows "queue_ok (q\<lparr>wq_deadlines := insort d (wq_deadlines q),
    wq_handle := (if case wq_handle q of None \<Rightarrow> True | Some t \<Rightarrow> d < t then Some d else wq_handle q)\<rparr>)"
  using assms by (cases "wq_deadlines q") (auto simp: queue_ok_def sorted_insort set_insort_key)

lemma notify_after_ok: "wakeups_ok w \<Longrightarrow> wakeups_ok (notify_after k delay w)"
  using push_deadline_ok [of "wr_queues w k"]
  by (simp add: notify_after_def Let_def notify_ok set_queue_ok wakeups_ok_def [THEN iffD1])

text \<open>What a timer does: the deadlines that are due go, the others and the timer stay.\<close>

lemma notify_due_queues:
  "wq_revision (wr_queues (notify_due k w) k) = wq_revision (wr_queues w k) + 1"
  "wq_deadlines (wr_queues (notify_due k w) k) = dropWhile (\<lambda>d. d \<le> wr_now w) (wq_deadlines (wr_queues w k))"
  "wq_handle (wr_queues (notify_due k w) k)
    = (case dropWhile (\<lambda>d. d \<le> wr_now w) (wq_deadlines (wr_queues w k)) of [] \<Rightarrow> None | d # _ \<Rightarrow> Some d)"
  "k' \<noteq> k \<Longrightarrow> wr_queues (notify_due k w) k' = wr_queues w k'"
  "wr_waiters (notify_due k w) = map (\<lambda>x. if wk_kind x = k then x\<lparr>wk_woken := True\<rparr> else x) (wr_waiters w)"
  by (simp_all add: notify_due_def notify_def set_queue_def Let_def split: list.split del: dropWhile_eq_Nil_conv)

lemma notify_due_ok: "wakeups_ok w \<Longrightarrow> wakeups_ok (notify_due k w)"
proof -
  assume ok: "wakeups_ok w"
  have "queue_ok (wr_queues (notify_due k w) k')" for k'
    using ok by (cases "k' = k")
      (auto simp: notify_due_queues wakeups_ok_def queue_ok_def Let_def sorted_dropWhile split: list.splits)
  moreover have "sleeper_ok (wr_queues (notify_due k w)) y" if "y \<in> set (wr_waiters (notify_due k w))" for y
  proof -
    have "y \<in> (\<lambda>x. if wk_kind x = k then x\<lparr>wk_woken := True\<rparr> else x) ` set (wr_waiters w)"
      using that by (simp add: notify_due_queues(5))
    then obtain x where "y = (if wk_kind x = k then x\<lparr>wk_woken := True\<rparr> else x)" "x \<in> set (wr_waiters w)"
      by (rule imageE)
    then show ?thesis using ok by (auto simp: wakeups_ok_def list_all_iff sleeper_ok_def notify_due_queues(4))
  qed
  ultimately show ?thesis by (simp add: wakeups_ok_def list_all_iff)
qed

lemma wake_step_ok: "wake_step w w' \<Longrightarrow> wakeups_ok w \<Longrightarrow> wakeups_ok w'"
proof (induction rule: wake_step.induct)
  case (advance dt w)
  then show ?case by (simp add: wakeups_ok_def)
next
  case (wait w k after timeout)
  then show ?case
    by (auto simp: start_wait_def wakeups_ok_def set_queue_def queue_ok_def sleeper_ok_def list_all_iff Let_def)
next
  case (wait_ends i w w')
  then have "\<exists>r. w' = w\<lparr>wr_waiters := (wr_waiters w)[i := (wr_waiters w ! i)\<lparr>wk_result := Some r\<rparr>]\<rparr>"
    by (auto simp: end_wait_def Let_def split: if_splits)
  then obtain x where w': "w' = w\<lparr>wr_waiters := (wr_waiters w)[i := x]\<rparr>" and "wk_result x \<noteq> None" by auto
  moreover have "y = x \<or> y \<in> set (wr_waiters w)" if "y \<in> set ((wr_waiters w)[i := x])" for y
    using that set_update_subset_insert [of "wr_waiters w" i x] by blast
  ultimately show ?case using wait_ends by (fastforce simp: wakeups_ok_def sleeper_ok_def list_all_iff)
qed (simp_all add: notify_ok notify_after_ok notify_due_ok)

lemma wake_reachable_ok: "wake_reachable resolution w \<Longrightarrow> wakeups_ok w"
  by (induction rule: wake_reachable.induct) (auto intro: wake_start_ok wake_step_ok)

section \<open>Properties\<close>

text \<open>
  C39. No wake-up is lost: a worker that sleeps although nobody has woken it has seen the current
  revision of its queue, and the timer of every queue stands at its earliest deadline. Once a
  deadline has passed, the timer can fire, and then the deadline is gone, the revision is a new
  one and everybody who sleeps for the queue is woken.
\<close>

theorem wakeups_never_lost:
  assumes "wake_reachable resolution w" "0 \<le> resolution"
  shows "list_all (sleeper_ok (wr_queues w)) (wr_waiters w) \<and> queue_ok (wr_queues w k)
    \<and> (d \<in> set (wq_deadlines (wr_queues w k)) \<and> d \<le> wr_now w \<longrightarrow>
        wake_step w (notify_due k w) \<and> d \<notin> set (wq_deadlines (wr_queues (notify_due k w) k))
        \<and> wq_revision (wr_queues (notify_due k w) k) = wq_revision (wr_queues w k) + 1
        \<and> list_all (\<lambda>x. wk_kind x = k \<longrightarrow> wk_woken x) (wr_waiters (notify_due k w)))"
proof -
  have ok: "wakeups_ok w" using assms(1) by (rule wake_reachable_ok)
  then have q: "queue_ok (wr_queues w k)" by (simp add: wakeups_ok_def)
  have res: "wr_resolution w = resolution" using assms(1)
  proof (induction rule: wake_reachable.induct)
    case (step w w')
    from step(2,3) show ?case
      by (induction rule: wake_step.induct)
        (auto simp: notify_def notify_after_def notify_due_def start_wait_def end_wait_def set_queue_def Let_def
          split: if_splits list.splits)
  qed (simp add: wake_start_def)
  have fires: "wake_step w (notify_due k w)" and gone: "d \<notin> set (wq_deadlines (wr_queues (notify_due k w) k))"
    if d: "d \<in> set (wq_deadlines (wr_queues w k))" "d \<le> wr_now w"
  proof -
    obtain t ts where ts: "wq_deadlines (wr_queues w k) = t # ts" using d(1) by (cases "wq_deadlines (wr_queues w k)") auto
    then have "t \<le> d" "wq_handle (wr_queues w k) = Some t" using q d(1) by (auto simp: queue_ok_def)
    then show "wake_step w (notify_due k w)" using d(2) assms(2) res by (intro wake_step.timer [of w k t]) auto
    have late: "x > wr_now w" if "x \<in> set (dropWhile (\<lambda>d. d \<le> wr_now w) (wq_deadlines (wr_queues w k)))" for x
    proof -
      let ?ds = "dropWhile (\<lambda>d. d \<le> wr_now w) (wq_deadlines (wr_queues w k))"
      have "sorted ?ds" using q by (simp add: queue_ok_def sorted_dropWhile)
      then show ?thesis using that by (cases ?ds) (auto simp: dropWhile_eq_Cons_conv)
    qed
    show "d \<notin> set (wq_deadlines (wr_queues (notify_due k w) k))"
    proof
      assume "d \<in> set (wq_deadlines (wr_queues (notify_due k w) k))"
      then have "d \<in> set (dropWhile (\<lambda>d. d \<le> wr_now w) (wq_deadlines (wr_queues w k)))"
        by (simp add: notify_due_queues(2))
      from late [OF this] d(2) show False by simp
    qed
  qed
  have woken: "list_all (\<lambda>x. wk_kind x = k \<longrightarrow> wk_woken x) (wr_waiters (notify_due k w))"
    unfolding notify_due_queues(5) list.pred_map by (simp add: o_def list.pred_True)
  show ?thesis
  proof (intro conjI impI)
    show "list_all (sleeper_ok (wr_queues w)) (wr_waiters w)" using ok by (simp add: wakeups_ok_def)
    assume "d \<in> set (wq_deadlines (wr_queues w k)) \<and> d \<le> wr_now w"
    then show "wake_step w (notify_due k w)" "d \<notin> set (wq_deadlines (wr_queues (notify_due k w) k))"
      using fires gone by simp_all
  qed (rule q notify_due_queues(1) woken)+
qed

theorem wakeups_never_lost_witness:
  "\<exists>w. wake_reachable 0 w \<and> wq_deadlines (wr_queues w [1]) = [5, 8] \<and> wr_now w = 6
    \<and> map wk_woken (wr_waiters w) = [False] \<and> wake_step w (notify_due [1] w)
    \<and> wq_deadlines (wr_queues (notify_due [1] w) [1]) = [8]"
proof -
  define a where "a = notify_after [1] 8 (wake_start 0)"
  define b where "b = notify_after [1] 5 a"
  define c where "c = start_wait [1] 0 20 b"
  define w where "w = c\<lparr>wr_now := wr_now c + 6\<rparr>"
  have "wake_reachable 0 a" unfolding a_def by (rule wake_reachable.step [OF wake_reachable.start]) (rule wake_step.notify_after)
  then have "wake_reachable 0 b" unfolding b_def by (rule wake_reachable.step) (rule wake_step.notify_after)
  then have "wake_reachable 0 c" unfolding c_def by (rule wake_reachable.step) (rule wake_step.wait)
  then have reach: "wake_reachable 0 w" unfolding w_def by (rule wake_reachable.step) (rule wake_step.advance, simp)
  have w: "wq_deadlines (wr_queues w [1]) = [5, 8]" "wr_now w = 6" "map wk_woken (wr_waiters w) = [False]"
    by (simp_all add: a_def b_def c_def w_def notify_after_def start_wait_def set_queue_def wake_start_def
        new_wake_queue_def Let_def)
  have "wake_step w (notify_due [1] w)" using wakeups_never_lost [OF reach, of "[1]" 5] w by simp
  moreover have "wq_deadlines (wr_queues (notify_due [1] w) [1]) = [8]" using w(1,2) by (simp add: notify_due_queues)
  ultimately show ?thesis using reach w by (intro exI [of _ w] conjI)
qed

end
