(* ===== verification/Coverage.thy ===== *)
theory Coverage
  imports Title_Match
begin

text \<open>
  \<open>services/native/coverage.py\<close>, with \<open>row_covers_track\<close> of \<open>services/native/file_processor.py\<close>:
  which tracks of a release the rows of the library cover. The completeness gate and the album page
  share it. Durations are rationals; an absent field of a row and an empty one are \<open>None\<close> or
  empty, as the code reads them.
\<close>

section \<open>Data\<close>

record library_row =
  lr_id :: "pystr option"
  lr_recording_mbid :: "pystr option"
  lr_disc_number :: "int option"
  lr_track_number :: "int option"
  lr_track_title :: "pystr option"
  lr_duration_seconds :: "rat option"

record expected_track =
  et_position :: int
  et_title :: "pystr"
  et_disc_number :: int
  et_length :: "int option"
  et_recording_id :: "pystr option"

definition TAG_TITLE_WEAK :: rat where "TAG_TITLE_WEAK = 60 / 100"

definition clean_id :: "unidb \<Rightarrow> pystr option \<Rightarrow> pystr" where
  "clean_id u i = py_lower u (py_strip u (case i of None \<Rightarrow> [] | Some s \<Rightarrow> s))"

definition clean_text :: "unidb \<Rightarrow> pystr option \<Rightarrow> pystr" where
  "clean_text u t = py_strip u (case t of None \<Rightarrow> [] | Some s \<Rightarrow> s)"

definition number_or_one :: "int option \<Rightarrow> int" where
  "number_or_one n = (case n of None \<Rightarrow> 1 | Some k \<Rightarrow> if k = 0 then 1 else k)"

text \<open>A number that is there and not zero.\<close>

definition known :: "rat option \<Rightarrow> rat option" where
  "known d = (if d = Some 0 then None else d)"

definition tolerance :: "rat \<Rightarrow> rat" where
  "tolerance expected = max 15 (10 / 100 * expected)"

section \<open>One row and one track\<close>

definition row_covers_track ::
  "matchlib \<Rightarrow> library_row \<Rightarrow> pystr option \<Rightarrow> pystr \<Rightarrow> rat option \<Rightarrow> bool" where
  "row_covers_track ml row recording_mbid title duration =
     (let u = ml_unidb ml;
          row_rec = clean_id u (lr_recording_mbid row);
          wanted = (case recording_mbid of None \<Rightarrow> [] | Some s \<Rightarrow> s);
          row_title = clean_text u (lr_track_title row)
      in if wanted \<noteq> [] \<and> row_rec \<noteq> [] then row_rec = py_lower u (py_strip u wanted)
         else case (known duration, known (lr_duration_seconds row)) of
                (Some e, Some d) \<Rightarrow> abs (d - e) \<le> tolerance e
              | _ \<Rightarrow> title \<noteq> [] \<and> row_title \<noteq> [] \<longrightarrow>
                     TAG_TITLE_WEAK \<le> title_containment_score ml title row_title [])"

definition same_recording :: "unidb \<Rightarrow> expected_track \<Rightarrow> library_row \<Rightarrow> bool" where
  "same_recording u track row \<longleftrightarrow>
     (let want = clean_id u (et_recording_id track); has = clean_id u (lr_recording_mbid row)
      in want \<noteq> [] \<and> has \<noteq> [] \<and> has = want)"

definition in_position :: "matchlib \<Rightarrow> expected_track \<Rightarrow> rat option \<Rightarrow> library_row \<Rightarrow> bool" where
  "in_position ml track expected_seconds row \<longleftrightarrow>
     (number_or_one (lr_disc_number row), lr_track_number row)
       = (number_or_one (Some (et_disc_number track)), Some (et_position track))
     \<and> row_covers_track ml row (et_recording_id track) (et_title track) expected_seconds"

definition shifted_numbering :: "matchlib \<Rightarrow> expected_track \<Rightarrow> rat option \<Rightarrow> library_row \<Rightarrow> bool" where
  "shifted_numbering ml track expected_seconds row \<longleftrightarrow>
     (let row_title = clean_text (ml_unidb ml) (lr_track_title row)
      in et_title track \<noteq> [] \<and> row_title \<noteq> []
         \<and> \<not> title_containment_score ml (et_title track) row_title [] < TAG_TITLE_WEAK
         \<and> (case known expected_seconds of
              None \<Rightarrow> True
            | Some e \<Rightarrow> (case known (lr_duration_seconds row) of
                None \<Rightarrow> False | Some d \<Rightarrow> abs (d - e) \<le> tolerance e)))"

section \<open>The match\<close>

type_synonym numbered_rows = "(nat \<times> library_row) list"

definition first_row :: "(library_row \<Rightarrow> bool) \<Rightarrow> numbered_rows \<Rightarrow> nat option" where
  "first_row p remaining = map_option fst (List.find (\<lambda>(_, row). p row) remaining)"

definition find_cover :: "matchlib \<Rightarrow> numbered_rows \<Rightarrow> expected_track \<Rightarrow> rat option \<Rightarrow> nat option" where
  "find_cover ml remaining track expected_seconds =
     (case first_row (same_recording (ml_unidb ml) track) remaining of
        Some i \<Rightarrow> Some i
      | None \<Rightarrow>
          (case first_row (in_position ml track expected_seconds) remaining of
             Some i \<Rightarrow> Some i
           | None \<Rightarrow> first_row (shifted_numbering ml track expected_seconds) remaining))"

definition expected_seconds :: "expected_track \<Rightarrow> rat option" where
  "expected_seconds track =
     (case et_length track of None \<Rightarrow> None | Some l \<Rightarrow> if l = 0 then None else Some (of_int l / 1000))"

text \<open>The tracks from the number \<open>index\<close> on: the pairs of a covered track and its row, and the rows left.\<close>

fun match_from ::
  "matchlib \<Rightarrow> nat \<Rightarrow> numbered_rows \<Rightarrow> expected_track list \<Rightarrow> (nat \<times> nat) list \<times> numbered_rows" where
  "match_from ml index remaining [] = ([], remaining)"
| "match_from ml index remaining (track # tracks) =
     (case find_cover ml remaining track (expected_seconds track) of
        None \<Rightarrow> match_from ml (Suc index) remaining tracks
      | Some hit \<Rightarrow>
          (let (pairs, rest) = match_from ml (Suc index) (filter (\<lambda>(j, _). j \<noteq> hit) remaining) tracks
           in ((index, hit) # pairs, rest)))"

definition match_rows ::
  "matchlib \<Rightarrow> library_row list \<Rightarrow> expected_track list \<Rightarrow> nat list \<times> library_row list \<times> pystr list" where
  "match_rows ml rows tracks =
     (let (pairs, rest) = match_from ml 0 (enumerate 0 rows) tracks
      in (map fst pairs, map snd rest,
          concat (map (\<lambda>(_, hit). case lr_id (rows ! hit) of None \<Rightarrow> [] | Some i \<Rightarrow> if i = [] then [] else [i]) pairs)))"

definition match_rows_to_tracks ::
  "matchlib \<Rightarrow> library_row list \<Rightarrow> expected_track list \<Rightarrow> nat \<times> library_row list \<times> pystr list" where
  "match_rows_to_tracks ml rows tracks =
     (let (covered, orphans, ids) = match_rows ml rows tracks in (length covered, orphans, ids))"

definition uncovered_tracks :: "matchlib \<Rightarrow> library_row list \<Rightarrow> expected_track list \<Rightarrow> expected_track list" where
  "uncovered_tracks ml rows tracks =
     (let covered = fst (match_rows ml rows tracks)
      in map snd (filter (\<lambda>(index, _). index \<notin> set covered) (enumerate 0 tracks)))"

section \<open>What a match is\<close>

text \<open>The evidence that a row is a track, from the strongest on.\<close>

definition covers :: "matchlib \<Rightarrow> expected_track \<Rightarrow> library_row \<Rightarrow> bool" where
  "covers ml track row \<longleftrightarrow>
     same_recording (ml_unidb ml) track row \<or> in_position ml track (expected_seconds track) row
     \<or> shifted_numbering ml track (expected_seconds track) row"

lemma first_row_Some: "first_row p remaining = Some i \<Longrightarrow> \<exists>row. (i, row) \<in> set remaining \<and> p row"
  by (induction remaining) (auto simp: first_row_def split: if_splits)

lemma first_row_None: "first_row p remaining = None \<longleftrightarrow> (\<forall>(i, row)\<in>set remaining. \<not> p row)"
  by (auto simp: first_row_def find_None_iff)

lemma find_cover_Some:
  "find_cover ml remaining track (expected_seconds track) = Some i \<Longrightarrow>
     \<exists>row. (i, row) \<in> set remaining \<and> covers ml track row"
  by (auto simp: find_cover_def covers_def split: option.splits dest!: first_row_Some)

lemma find_cover_None:
  "find_cover ml remaining track (expected_seconds track) = None \<Longrightarrow>
     \<forall>(i, row)\<in>set remaining. \<not> covers ml track row"
  by (auto simp: find_cover_def covers_def first_row_None split: option.splits)

text \<open>A row with the same recording is taken before any other.\<close>

lemma recording_first:
  "find_cover ml remaining track d = Some i \<Longrightarrow> (j, row) \<in> set remaining \<Longrightarrow> same_recording (ml_unidb ml) track row
     \<Longrightarrow> \<exists>row. (i, row) \<in> set remaining \<and> same_recording (ml_unidb ml) track row"
  by (auto simp: find_cover_def first_row_None split: option.splits dest!: first_row_Some)

lemma match_from_rest: "match_from ml k remaining tracks = (pairs, rest) \<Longrightarrow> set rest \<subseteq> set remaining"
proof (induction tracks arbitrary: k remaining pairs)
  case (Cons t ts)
  show ?case
  proof (cases "find_cover ml remaining t (expected_seconds t)")
    case None
    then show ?thesis using Cons by auto
  next
    case (Some hit)
    then obtain ps where "match_from ml (Suc k) (filter (\<lambda>(j, _). j \<noteq> hit) remaining) ts = (ps, rest)"
      using Cons.prems by (auto split: prod.splits)
    from Cons.IH [OF this] show ?thesis by auto
  qed
qed simp

lemma match_from_correct:
  assumes "match_from ml k remaining tracks = (pairs, rest)" "distinct (map fst remaining)"
  shows "sorted_wrt (<) (map fst pairs) \<and> set (map fst pairs) \<subseteq> {k..<k + length tracks}
    \<and> distinct (map snd pairs)
    \<and> rest = filter (\<lambda>(j, _). j \<notin> set (map snd pairs)) remaining
    \<and> (\<forall>(i, j)\<in>set pairs. \<exists>row. (j, row) \<in> set remaining \<and> covers ml (tracks ! (i - k)) row)
    \<and> (\<forall>i<length tracks. k + i \<notin> set (map fst pairs) \<longrightarrow> (\<forall>(j, row)\<in>set rest. \<not> covers ml (tracks ! i) row))"
  using assms
proof (induction tracks arbitrary: k remaining pairs)
  case Nil
  then show ?case by (auto simp: filter_id_conv)
next
  case (Cons t ts)
  show ?case
  proof (cases "find_cover ml remaining t (expected_seconds t)")
    case None
    then have m: "match_from ml (Suc k) remaining ts = (pairs, rest)" using Cons.prems by simp
    note I = Cons.IH [OF m Cons.prems(2)]
    have "\<forall>(j, row)\<in>set rest. \<not> covers ml t row"
      using find_cover_None [OF None] match_from_rest [OF m] by blast
    then have "\<forall>i<length (t # ts). k + i \<notin> set (map fst pairs) \<longrightarrow> (\<forall>(j, row)\<in>set rest. \<not> covers ml ((t # ts) ! i) row)"
      using I by (auto simp: less_Suc_eq_0_disj)
    moreover have "\<exists>row. (j, row) \<in> set remaining \<and> covers ml ((t # ts) ! (i - k)) row" if "(i, j) \<in> set pairs" for i j
    proof -
      have "Suc k \<le> i" using I that by force
      then have "(t # ts) ! (i - k) = ts ! (i - Suc k)" by (simp add: nth_Cons' Suc_diff_le)
      then show ?thesis using I that by force
    qed
    ultimately show ?thesis using I by auto
  next
    case (Some hit)
    let ?rem = "filter (\<lambda>(j, _). j \<noteq> hit) remaining"
    obtain ps where m: "match_from ml (Suc k) ?rem ts = (ps, rest)" and pairs: "pairs = (k, hit) # ps"
      using Cons.prems Some by (auto split: prod.splits)
    have "distinct (map fst ?rem)" using Cons.prems(2) by (simp add: distinct_map_filter)
    note I = Cons.IH [OF m this]
    have hits: "j \<noteq> hit" if "(i, j) \<in> set ps" for i j using I that by force
    have "\<exists>row. (j, row) \<in> set remaining \<and> covers ml ((t # ts) ! (i - k)) row" if "(i, j) \<in> set ps" for i j
    proof -
      have "Suc k \<le> i" using I that by force
      then have "(t # ts) ! (i - k) = ts ! (i - Suc k)" by (simp add: nth_Cons' Suc_diff_le)
      then show ?thesis using I that by force
    qed
    moreover have "rest = filter (\<lambda>(j, _). j \<notin> set (map snd pairs)) remaining"
      using I by (auto simp: pairs case_prod_unfold conj_commute intro!: filter_cong)
    moreover have "\<forall>i<length (t # ts). k + i \<notin> set (map fst pairs) \<longrightarrow> (\<forall>(j, row)\<in>set rest. \<not> covers ml ((t # ts) ! i) row)"
      using I unfolding pairs by (auto simp: less_Suc_eq_0_disj)
    ultimately show ?thesis
      using I find_cover_Some [OF Some] hits by (auto simp: pairs)
  qed
qed

text \<open>
  What the covered tracks and the orphaned rows have to be: every covered track has a row of its
  own that covers it, the orphans are the other rows in their order, and no orphan would cover a
  track that is not covered.
\<close>

definition coverage_correct ::
  "matchlib \<Rightarrow> library_row list \<Rightarrow> expected_track list \<Rightarrow> nat list \<Rightarrow> library_row list \<Rightarrow> bool" where
  "coverage_correct ml rows tracks covered orphans \<longleftrightarrow>
     sorted_wrt (<) covered \<and> set covered \<subseteq> {..<length tracks}
     \<and> (\<exists>hits. length hits = length covered \<and> distinct hits \<and> set hits \<subseteq> {..<length rows}
         \<and> list_all2 (\<lambda>i j. covers ml (tracks ! i) (rows ! j)) covered hits
         \<and> orphans = map (nth rows) (filter (\<lambda>j. j \<notin> set hits) [0..<length rows]))
     \<and> (\<forall>i<length tracks. i \<notin> set covered \<longrightarrow> (\<forall>row\<in>set orphans. \<not> covers ml (tracks ! i) row))"

lemma enumerate_filter:
  "map snd (filter (\<lambda>(j, _). P j) (enumerate 0 xs)) = map (nth xs) (filter P [0..<length xs])"
proof -
  have "enumerate 0 xs = map (\<lambda>j. (j, xs ! j)) [0..<length xs]"
    by (rule nth_equalityI) (simp_all add: nth_enumerate_eq)
  then show ?thesis by (simp add: filter_map o_def)
qed

lemma match_rows_correct:
  "coverage_correct ml rows tracks (fst (match_rows ml rows tracks)) (fst (snd (match_rows ml rows tracks)))"
proof -
  obtain pairs rest where m: "match_from ml 0 (enumerate 0 rows) tracks = (pairs, rest)" by fastforce
  have "distinct (map fst (enumerate 0 rows))" by simp
  note M = match_from_correct [OF m this]
  have row: "(j, row) \<in> set (enumerate 0 rows) \<longleftrightarrow> j < length rows \<and> row = rows ! j" for j row
    by (auto simp: in_set_enumerate_eq)
  have pair: "j < length rows \<and> covers ml (tracks ! i) (rows ! j)" if ij: "(i, j) \<in> set pairs" for i j
  proof -
    obtain r where "(j, r) \<in> set (enumerate 0 rows)" "covers ml (tracks ! (i - 0)) r"
      using bspec [OF M [THEN conjunct2, THEN conjunct2, THEN conjunct2, THEN conjunct2, THEN conjunct1] ij]
      unfolding prod.case by blast
    with row [of j r] show ?thesis by simp
  qed
  have "covers ml (tracks ! fst (pairs ! n)) (rows ! snd (pairs ! n))" if "n < length pairs" for n
    using pair [of "fst (pairs ! n)" "snd (pairs ! n)"] nth_mem [OF that] by simp
  then have "list_all2 (\<lambda>i j. covers ml (tracks ! i) (rows ! j)) (map fst pairs) (map snd pairs)"
    by (simp add: list_all2_conv_all_nth)
  moreover have "set (map snd pairs) \<subseteq> {..<length rows}" using pair by auto
  moreover have "map snd rest = map (nth rows) (filter (\<lambda>j. j \<notin> set (map snd pairs)) [0..<length rows])"
    using M enumerate_filter [of "\<lambda>j. j \<notin> set (map snd pairs)" rows] by simp
  moreover have "distinct (map snd pairs)" using M by blast
  ultimately have hits: "\<exists>hits. length hits = length (map fst pairs) \<and> distinct hits \<and> set hits \<subseteq> {..<length rows}
      \<and> list_all2 (\<lambda>i j. covers ml (tracks ! i) (rows ! j)) (map fst pairs) hits
      \<and> map snd rest = map (nth rows) (filter (\<lambda>j. j \<notin> set hits) [0..<length rows])"
    by (intro exI [of _ "map snd pairs"]) simp
  have "\<not> covers ml (tracks ! i) r"
    if u: "i < length tracks" "i \<notin> set (map fst pairs)" and r: "r \<in> set (map snd rest)" for i r
  proof -
    obtain k where k: "(k, r) \<in> set rest" using r by auto
    have "\<forall>(j, row)\<in>set rest. \<not> covers ml (tracks ! i) row"
      using M [THEN conjunct2, THEN conjunct2, THEN conjunct2, THEN conjunct2, THEN conjunct2, rule_format, of i] u
      by simp
    with k show ?thesis by auto
  qed
  moreover have "set (map fst pairs) \<subseteq> {..<length tracks}" "sorted_wrt (<) (map fst pairs)" using M by auto
  ultimately have "coverage_correct ml rows tracks (map fst pairs) (map snd rest)"
    using hits unfolding coverage_correct_def by blast
  then show ?thesis by (simp add: match_rows_def m)
qed

lemma length_coverage:
  assumes "coverage_correct ml rows tracks covered orphans"
  shows "length covered + length orphans = length rows"
proof -
  obtain hits where h: "length hits = length covered" "distinct hits" "set hits \<subseteq> {..<length rows}"
    and o: "orphans = map (nth rows) (filter (\<lambda>j. j \<notin> set hits) [0..<length rows])"
    using assms by (auto simp: coverage_correct_def)
  have "{x. x \<notin> set hits} \<inter> set [0..<length rows] = {..<length rows} - set hits" by auto
  then have "length orphans = card ({..<length rows} - set hits)" by (simp add: o distinct_length_filter)
  moreover have "card ({..<length rows} - set hits) = length rows - length covered"
    using h by (simp add: card_Diff_subset distinct_card)
  moreover have "length covered \<le> length rows" using h card_mono [OF _ h(3)] by (simp add: distinct_card)
  ultimately show ?thesis by simp
qed

text \<open>The covered and the uncovered tracks are all the tracks.\<close>

lemma length_uncovered:
  "length (fst (match_rows ml rows tracks)) + length (uncovered_tracks ml rows tracks) = length tracks"
proof -
  let ?c = "fst (match_rows ml rows tracks)"
  have c: "sorted_wrt (<) ?c" "set ?c \<subseteq> {..<length tracks}"
    using match_rows_correct [of ml rows tracks] by (auto simp: coverage_correct_def)
  have d: "distinct ?c" using c(1) by (simp add: strict_sorted_iff)
  have "{x. x \<notin> set ?c} \<inter> set [0..<length tracks] = {..<length tracks} - set ?c" by auto
  then have "length (uncovered_tracks ml rows tracks) = card ({..<length tracks} - set ?c)"
    using enumerate_filter [of "\<lambda>i. i \<notin> set ?c" tracks]
    by (simp add: uncovered_tracks_def Let_def distinct_length_filter)
  moreover have "length ?c \<le> length tracks"
    using c(2) d card_mono [OF _ c(2)] by (simp add: distinct_card)
  ultimately show ?thesis using c(2) d by (simp add: card_Diff_subset distinct_card)
qed

lemma count_covered: "fst (match_rows_to_tracks ml rows tracks) = length (fst (match_rows ml rows tracks))"
  by (simp add: match_rows_to_tracks_def case_prod_unfold Let_def)

lemma orphans_same: "fst (snd (match_rows_to_tracks ml rows tracks)) = fst (snd (match_rows ml rows tracks))"
  by (simp add: match_rows_to_tracks_def case_prod_unfold Let_def)

section \<open>The property\<close>

text \<open>
  C40. The coverage of a release is sound, and it leaves no row aside: the covered tracks are
  pairwise different, each has a row of its own whose recording, position, or title and length
  name it; the orphans are exactly the rows no track took; no orphan would cover a track that is
  reported missing; covered and orphaned rows add up to the rows of the library, and the count that
  \<open>match_rows_to_tracks\<close> gives and the tracks that \<open>uncovered_tracks\<close> gives add up to
  the tracks of the release.
\<close>

theorem coverage_sound:
  "coverage_correct ml rows tracks (fst (match_rows ml rows tracks)) (fst (snd (match_rows_to_tracks ml rows tracks)))
   \<and> fst (match_rows_to_tracks ml rows tracks) + length (fst (snd (match_rows_to_tracks ml rows tracks))) = length rows
   \<and> fst (match_rows_to_tracks ml rows tracks) + length (uncovered_tracks ml rows tracks) = length tracks"
  using match_rows_correct [of ml rows tracks] length_coverage [OF match_rows_correct [of ml rows tracks]]
    length_uncovered [of ml rows tracks]
  by (simp only: count_covered orphans_same)

end
