(* ===== verification/Rooted_Files.thy ===== *)
theory Rooted_Files
  imports Py_Text
begin

text \<open>
  The rooted file operations of \<open>services/native/library_filesystem_coordinator.py\<close> and the way
  the library-management services look at a path, over a model of the disk.

  The disk maps the components of an absolute path to what is there. Every operation that reaches
  the system meets one hazard of a list that the theorems quantify over: it happens, it fails with an
  input/output error and changes nothing, or the process ends right before it. An operation that
  the system does atomically (a rename, an unlink) is one such operation; a copy is two, so that a
  crash can leave a part of a file. Times and permissions are not modelled, and \<open>fsync\<close> does nothing:
  what was done is on the disk.
\<close>

named_theorems wp_simps \<open>the weakest preconditions of the operations\<close>

section \<open>Operations that fail or end\<close>

datatype io_failure =
    OS_Error | Conflict_Error | Stale_Revision | Validation_Error
  | Not_Found | Unexpected
  | Uncertain string

datatype 'a outcome = Done 'a | Raised io_failure | Crashed

type_synonym ('w, 'a) io = "'w \<Rightarrow> 'a outcome \<times> 'w"

definition ret :: "'a \<Rightarrow> ('w, 'a) io" where
  "ret a w = (Done a, w)"

definition throw :: "io_failure \<Rightarrow> ('w, 'a) io" where
  "throw e w = (Raised e, w)"

definition bind :: "('w, 'a) io \<Rightarrow> ('a \<Rightarrow> ('w, 'b) io) \<Rightarrow> ('w, 'b) io" where
  "bind m f w =
     (case m w of (Done a, w') \<Rightarrow> f a w' | (Raised e, w') \<Rightarrow> (Raised e, w') | (Crashed, w') \<Rightarrow> (Crashed, w'))"

definition andthen :: "('w, 'a) io \<Rightarrow> ('w, 'b) io \<Rightarrow> ('w, 'b) io" where
  "andthen m n = bind m (\<lambda>_. n)"

definition handle :: "(io_failure \<Rightarrow> bool) \<Rightarrow> ('w, 'a) io \<Rightarrow> (io_failure \<Rightarrow> ('w, 'a) io) \<Rightarrow> ('w, 'a) io" where
  "handle p m h w =
     (case m w of
        (Done a, w') \<Rightarrow> (Done a, w')
      | (Raised e, w') \<Rightarrow> if p e then h e w' else (Raised e, w')
      | (Crashed, w') \<Rightarrow> (Crashed, w'))"

definition assert_that :: "bool \<Rightarrow> io_failure \<Rightarrow> ('w, unit) io" where
  "assert_that b e = (if b then ret () else throw e)"

definition when_true :: "bool \<Rightarrow> ('w, unit) io \<Rightarrow> ('w, unit) io" where
  "when_true b m = (if b then m else ret ())"

definition io_reads :: "('w \<Rightarrow> 'a) \<Rightarrow> ('w, 'a) io" where
  "io_reads f w = (Done (f w), w)"

definition modifies :: "('w \<Rightarrow> 'w) \<Rightarrow> ('w, unit) io" where
  "modifies f w = (Done (), f w)"

definition lift_result :: "io_failure + 'a \<Rightarrow> ('w, 'a) io" where
  "lift_result r = (case r of Inl e \<Rightarrow> throw e | Inr a \<Rightarrow> ret a)"

fun io_each :: "('a \<Rightarrow> ('w, unit) io) \<Rightarrow> 'a list \<Rightarrow> ('w, unit) io" where
  "io_each f [] = ret ()"
| "io_each f (x # xs) = andthen (f x) (io_each f xs)"

fun io_map :: "('a \<Rightarrow> ('w, 'b) io) \<Rightarrow> 'a list \<Rightarrow> ('w, 'b list) io" where
  "io_map f [] = ret []"
| "io_map f (x # xs) = bind (f x) (\<lambda>y. bind (io_map f xs) (\<lambda>ys. ret (y # ys)))"

text \<open>
  The weakest precondition: what has to hold for a normal end to satisfy \<open>Q\<close>, and an exception
  (\<open>Some\<close>) or a crash (\<open>None\<close>) to satisfy \<open>E\<close>.
\<close>

definition wp ::
  "('w, 'a) io \<Rightarrow> ('a \<Rightarrow> 'w \<Rightarrow> bool) \<Rightarrow> (io_failure option \<Rightarrow> 'w \<Rightarrow> bool) \<Rightarrow> 'w \<Rightarrow> bool" where
  "wp m Q E w \<longleftrightarrow>
     (case m w of (Done a, w') \<Rightarrow> Q a w' | (Raised e, w') \<Rightarrow> E (Some e) w' | (Crashed, w') \<Rightarrow> E None w')"

lemma wp_ret [wp_simps]: "wp (ret a) Q E w \<longleftrightarrow> Q a w"
  by (simp add: wp_def ret_def)

lemma wp_throw [wp_simps]: "wp (throw e) Q E w \<longleftrightarrow> E (Some e) w"
  by (simp add: wp_def throw_def)

lemma wp_bind [wp_simps]: "wp (bind m f) Q E w \<longleftrightarrow> wp m (\<lambda>a. wp (f a) Q E) E w"
  by (simp add: wp_def bind_def split: outcome.splits prod.splits)

lemma wp_andthen [wp_simps]: "wp (andthen m n) Q E w \<longleftrightarrow> wp m (\<lambda>_. wp n Q E) E w"
  by (simp add: andthen_def wp_bind)

lemma wp_handle [wp_simps]:
  "wp (handle p m h) Q E w \<longleftrightarrow>
     wp m Q (\<lambda>e w. case e of Some x \<Rightarrow> if p x then wp (h x) Q E w else E (Some x) w | None \<Rightarrow> E None w) w"
  by (simp add: wp_def handle_def split: outcome.splits prod.splits)

lemma wp_assert_that [wp_simps]: "wp (assert_that b e) Q E w \<longleftrightarrow> (if b then Q () w else E (Some e) w)"
  by (simp add: assert_that_def wp_simps)

lemma wp_when_true [wp_simps]: "wp (when_true b m) Q E w \<longleftrightarrow> (if b then wp m Q E w else Q () w)"
  by (simp add: when_true_def wp_simps)

lemma wp_reads [wp_simps]: "wp (io_reads f) Q E w \<longleftrightarrow> Q (f w) w"
  by (simp add: wp_def io_reads_def)

lemma wp_modifies [wp_simps]: "wp (modifies f) Q E w \<longleftrightarrow> Q () (f w)"
  by (simp add: wp_def modifies_def)

lemma wp_lift_result [wp_simps]:
  "wp (lift_result r) Q E w \<longleftrightarrow> (case r of Inl e \<Rightarrow> E (Some e) w | Inr a \<Rightarrow> Q a w)"
  by (simp add: lift_result_def wp_simps split: sum.splits)

lemma wp_if [wp_simps]: "wp (if b then m else n) Q E w \<longleftrightarrow> (if b then wp m Q E w else wp n Q E w)"
  by simp

lemma wp_case_option [wp_simps]:
  "wp (case v of None \<Rightarrow> m | Some x \<Rightarrow> f x) Q E w \<longleftrightarrow> (case v of None \<Rightarrow> wp m Q E w | Some x \<Rightarrow> wp (f x) Q E w)"
  by (simp split: option.splits)

lemma wp_mono:
  assumes "wp m Q E w" "\<And>a w. Q a w \<Longrightarrow> Q' a w" "\<And>e w. E e w \<Longrightarrow> E' e w"
  shows "wp m Q' E' w"
  using assms by (auto simp: wp_def split: outcome.splits prod.splits)

lemma wp_io_each:
  assumes "I xs w"
    and "\<And>x xs w. I (x # xs) w \<Longrightarrow> wp (f x) (\<lambda>_. I xs) E w"
  shows "wp (io_each f xs) (\<lambda>_. I []) E w"
  using assms(1)
proof (induction xs arbitrary: w)
  case (Cons x xs)
  show ?case using assms(2) [OF Cons.prems] Cons.IH by (auto simp: wp_simps elim: wp_mono)
qed (simp add: wp_simps)

section \<open>The disk\<close>

type_synonym location = "pystr list"

datatype node = Regular "nat list" | Symlink | Directory | Special

datatype hazard = Fine | Io_Error | Crash

record disk =
  nodes :: "(location, node) odict"
  sha256_hex :: "nat list \<Rightarrow> pystr"
  hazards :: "hazard list"

definition node_at :: "'z disk_scheme \<Rightarrow> location \<Rightarrow> node option" where
  "node_at w p = dict_get (nodes w) p"

text \<open>An operation of the system, which meets the next hazard.\<close>

definition effect ::
  "'a outcome \<Rightarrow> ('z disk_scheme \<Rightarrow> 'a outcome \<times> 'z disk_scheme) \<Rightarrow> ('z disk_scheme, 'a) io" where
  "effect failed f w =
     (case hazards w of
        [] \<Rightarrow> f w
      | h # hs \<Rightarrow>
          (case h of Fine \<Rightarrow> f (w\<lparr>hazards := hs\<rparr>)
           | Io_Error \<Rightarrow> (failed, w\<lparr>hazards := hs\<rparr>)
           | Crash \<Rightarrow> (Crashed, w\<lparr>hazards := hs\<rparr>)))"

subsection \<open>Rooted names\<close>

type_synonym roots = "(pystr, location) odict"

definition safe_parts :: "pystr \<Rightarrow> bool" where
  "safe_parts relative \<longleftrightarrow>
     p_anchor (path_of relative) = [] \<and> p_parts (path_of relative) \<noteq> []
     \<and> [c_dot, c_dot] \<notin> set (p_parts (path_of relative))"

text \<open>The directories from the root down to the parent of a path.\<close>

definition parents_of :: "location \<Rightarrow> pystr list \<Rightarrow> location list" where
  "parents_of root parts = map (\<lambda>n. root @ take n parts) [0..<length parts]"

definition rooted_location :: "roots \<Rightarrow> pystr \<Rightarrow> pystr \<Rightarrow> location option" where
  "rooted_location roots root_id relative =
     (case dict_get roots root_id of
        None \<Rightarrow> None
      | Some root \<Rightarrow> if safe_parts relative then Some (root @ p_parts (path_of relative)) else None)"

text \<open>
  \<open>_rooted_parent\<close>: opens the directories on the way one after another and follows no link.
  An unknown root and an unsafe path raise \<open>ValueError\<close>, which no caller expects.
\<close>

definition rooted_parent :: "roots \<Rightarrow> pystr \<Rightarrow> pystr \<Rightarrow> 'z disk_scheme \<Rightarrow> io_failure + location" where
  "rooted_parent roots root_id relative w =
     (case dict_get roots root_id of
        None \<Rightarrow> Inl Unexpected
      | Some root \<Rightarrow>
          if \<not> safe_parts relative then Inl Unexpected
          else if list_all (\<lambda>p. node_at w p = Some Directory) (parents_of root (p_parts (path_of relative)))
          then Inr (root @ p_parts (path_of relative)) else Inl OS_Error)"

subsection \<open>Renaming, removing, copying\<close>

definition below :: "location \<Rightarrow> location \<Rightarrow> bool" where
  "below p q \<longleftrightarrow> length p < length q \<and> take (length p) q = p"

definition empty_directory :: "'z disk_scheme \<Rightarrow> location \<Rightarrow> bool" where
  "empty_directory w p \<longleftrightarrow> node_at w p = Some Directory \<and> list_all (\<lambda>(q, _). \<not> below p q) (nodes w)"

definition put :: "'z disk_scheme \<Rightarrow> location \<Rightarrow> node \<Rightarrow> 'z disk_scheme" where
  "put w p n = w\<lparr>nodes := dict_set (nodes w) p n\<rparr>"

definition take_away :: "'z disk_scheme \<Rightarrow> location \<Rightarrow> 'z disk_scheme" where
  "take_away w p = w\<lparr>nodes := dict_pop (nodes w) p\<rparr>"

text \<open>A directory is moved with everything below it.\<close>

definition moved_tree :: "'z disk_scheme \<Rightarrow> location \<Rightarrow> location \<Rightarrow> 'z disk_scheme" where
  "moved_tree w source destination =
     w\<lparr>nodes := map (\<lambda>(p, n). if p = source \<or> below source p then (destination @ drop (length source) p, n) else (p, n))
         (dict_pop (nodes w) destination)\<rparr>"

definition os_replace :: "location \<Rightarrow> location \<Rightarrow> 'z disk_scheme \<Rightarrow> unit outcome \<times> 'z disk_scheme" where
  "os_replace source destination w =
     (case node_at w source of
        None \<Rightarrow> (Raised OS_Error, w)
      | Some Directory \<Rightarrow>
          if source = destination then (Done (), w)
          else if below source destination \<or> \<not> (node_at w destination = None \<or> empty_directory w destination)
          then (Raised OS_Error, w) else (Done (), moved_tree w source destination)
      | Some n \<Rightarrow>
          if node_at w destination = Some Directory then (Raised OS_Error, w)
          else if source = destination then (Done (), w)
          else (Done (), put (take_away w source) destination n))"

definition replace_rooted ::
  "roots \<Rightarrow> pystr \<times> pystr \<Rightarrow> pystr \<times> pystr \<Rightarrow> ('z disk_scheme, unit) io" where
  "replace_rooted roots source destination =
     effect (Raised OS_Error) (\<lambda>w.
       (case (dict_get roots (fst source), dict_get roots (fst destination)) of
          (Some _, Some _) \<Rightarrow>
            (case rooted_parent roots (fst source) (snd source) w of
               Inl e \<Rightarrow> (Raised e, w)
             | Inr s \<Rightarrow>
                 (case rooted_parent roots (fst destination) (snd destination) w of
                    Inl e \<Rightarrow> (Raised e, w)
                  | Inr d \<Rightarrow> os_replace s d w))
        | _ \<Rightarrow> (Raised Unexpected, w)))"

definition os_unlink :: "location \<Rightarrow> bool \<Rightarrow> 'z disk_scheme \<Rightarrow> unit outcome \<times> 'z disk_scheme" where
  "os_unlink p missing_ok w =
     (case node_at w p of
        None \<Rightarrow> (if missing_ok then Done () else Raised OS_Error, w)
      | Some Directory \<Rightarrow> (Raised OS_Error, w)
      | Some _ \<Rightarrow> (Done (), take_away w p))"

definition unlink_rooted :: "roots \<Rightarrow> pystr \<times> pystr \<Rightarrow> bool \<Rightarrow> ('z disk_scheme, unit) io" where
  "unlink_rooted roots name missing_ok =
     effect (Raised OS_Error) (\<lambda>w.
       (case rooted_parent roots (fst name) (snd name) w of
          Inl e \<Rightarrow> (Raised e, w) | Inr p \<Rightarrow> os_unlink p missing_ok w))"

text \<open>The copy is created empty, filled in a second step, and removed again when that fails.\<close>

definition copy_rooted :: "roots \<Rightarrow> pystr \<times> pystr \<Rightarrow> pystr \<times> pystr \<Rightarrow> ('z disk_scheme, unit) io" where
  "copy_rooted roots source destination =
     bind (effect (Raised OS_Error) (\<lambda>w.
       (case (dict_get roots (fst source), dict_get roots (fst destination)) of
          (Some _, Some _) \<Rightarrow>
            (case rooted_parent roots (fst source) (snd source) w of
               Inl e \<Rightarrow> (Raised e, w)
             | Inr s \<Rightarrow>
                 (case rooted_parent roots (fst destination) (snd destination) w of
                    Inl e \<Rightarrow> (Raised e, w)
                  | Inr d \<Rightarrow>
                      (case node_at w s of
                         Some (Regular content) \<Rightarrow>
                           if node_at w d = None then (Done (content, d), put w d (Regular []))
                           else (Raised OS_Error, w)
                       | _ \<Rightarrow> (Raised OS_Error, w))))
        | _ \<Rightarrow> (Raised Unexpected, w))))
       (\<lambda>(content, d).
          handle (\<lambda>_. True)
            (effect (Raised OS_Error) (\<lambda>w. (Done (), put w d (Regular content))))
            (\<lambda>e. andthen (effect (Raised OS_Error) (os_unlink d False)) (throw e)))"

subsection \<open>Looking at a path\<close>

datatype evidence = Ev_Missing | Ev_Regular "pystr option" | Ev_Symlink | Ev_Other | Ev_Error

definition exact :: "evidence \<Rightarrow> pystr option \<Rightarrow> bool" where
  "exact ev expected \<longleftrightarrow> expected \<noteq> None \<and> ev = Ev_Regular expected"

definition evidence_of :: "'z disk_scheme \<Rightarrow> location option \<Rightarrow> evidence" where
  "evidence_of w path =
     (case path of
        None \<Rightarrow> Ev_Missing
      | Some p \<Rightarrow>
          (case node_at w p of
             None \<Rightarrow> Ev_Missing
           | Some (Regular content) \<Rightarrow> Ev_Regular (Some (sha256_hex w content))
           | Some Symlink \<Rightarrow> Ev_Symlink
           | Some _ \<Rightarrow> Ev_Other))"

definition inspect :: "location option \<Rightarrow> ('z disk_scheme, evidence) io" where
  "inspect path =
     (if path = None then ret Ev_Missing
      else effect (Done Ev_Error) (\<lambda>w. (Done (evidence_of w path), w)))"

text \<open>\<open>_inspect_kind\<close> does not read the file.\<close>

definition kind_of :: "evidence \<Rightarrow> evidence" where
  "kind_of ev = (case ev of Ev_Regular _ \<Rightarrow> Ev_Regular None | _ \<Rightarrow> ev)"

definition inspect_kind :: "location option \<Rightarrow> ('z disk_scheme, evidence) io" where
  "inspect_kind path =
     (if path = None then ret Ev_Missing
      else effect (Done Ev_Error) (\<lambda>w. (Done (kind_of (evidence_of w path)), w)))"

text \<open>\<open>_hash_file\<close>: the fingerprint of a regular file, else an \<open>OSError\<close>.\<close>

definition hash_file :: "location \<Rightarrow> ('z disk_scheme, pystr) io" where
  "hash_file p =
     effect (Raised OS_Error) (\<lambda>w.
       (case node_at w p of
          Some (Regular content) \<Rightarrow> (Done (sha256_hex w content), w)
        | _ \<Rightarrow> (Raised OS_Error, w)))"

text \<open>Whether something, even a broken link, is at a path.\<close>

definition occupied :: "location \<Rightarrow> ('z disk_scheme, bool) io" where
  "occupied p = effect (Raised OS_Error) (\<lambda>w. (Done (node_at w p \<noteq> None), w))"

subsection \<open>Removing empty directories\<close>

definition os_rmdir :: "location \<Rightarrow> 'z disk_scheme \<Rightarrow> unit outcome \<times> 'z disk_scheme" where
  "os_rmdir p w = (if empty_directory w p then (Done (), take_away w p) else (Raised OS_Error, w))"

text \<open>From a directory upwards to the root, until a directory cannot be removed.\<close>

fun remove_upwards :: "nat \<Rightarrow> location \<Rightarrow> location \<Rightarrow> ('z disk_scheme, unit) io" where
  "remove_upwards 0 root current = ret ()"
| "remove_upwards (Suc n) root current =
     (if current \<noteq> root \<and> below root current
      then handle (\<lambda>e. e = OS_Error)
             (andthen (effect (Raised OS_Error) (os_rmdir current)) (remove_upwards n root (butlast current)))
             (\<lambda>_. ret ())
      else ret ())"

definition remove_empty_directories :: "(location \<times> location) list \<Rightarrow> ('z disk_scheme, unit) io" where
  "remove_empty_directories candidates =
     io_each (\<lambda>(directory, root). remove_upwards (length directory) root directory)
       (rev (sort_key (\<lambda>(directory, _). length directory) (remdups candidates)))"

end
