(* ===== verification/Mutation_Journal.thy ===== *)
theory Mutation_Journal
  imports Complex_Main Rooted_Files
begin

text \<open>
  The durable side of library management in \<open>infrastructure/persistence/native_library_store.py\<close>: the
  journal of file mutations of one bundle, its state machine, and the operations on the operation
  job and its work that publishing and recovery use. A write of the database is one atomic operation
  that can fail or be cut off by a crash. The columns that nothing here reads (times, JSON texts of the
  history, most of the catalog) are left out; the checks of the catalog in the commit are a parameter.
\<close>

section \<open>The journal\<close>

definition MAX_REVISION :: int where "MAX_REVISION = 9223372036854775807"

definition MANAGEMENT_PERSISTENCE_BATCH_SIZE :: nat where "MANAGEMENT_PERSISTENCE_BATCH_SIZE = 500"

datatype journal_state =
    Planned | Snapshot_Saved | Staged | Validated | Source_Backed_Up | Published
  | Catalog_Committed | Cleanup_Pending | Completed | Rollback_Pending | Rolled_Back | Needs_Attention

fun journal_transitions :: "journal_state \<Rightarrow> journal_state list" where
  "journal_transitions Planned = [Snapshot_Saved, Rollback_Pending, Needs_Attention]"
| "journal_transitions Snapshot_Saved = [Staged, Rollback_Pending, Needs_Attention]"
| "journal_transitions Staged = [Validated, Rollback_Pending, Needs_Attention]"
| "journal_transitions Validated = [Source_Backed_Up, Published, Rollback_Pending, Needs_Attention]"
| "journal_transitions Source_Backed_Up = [Published, Rollback_Pending, Needs_Attention]"
| "journal_transitions Published = [Catalog_Committed, Rollback_Pending, Needs_Attention]"
| "journal_transitions Catalog_Committed = [Cleanup_Pending, Completed, Needs_Attention]"
| "journal_transitions Cleanup_Pending = [Completed, Needs_Attention]"
| "journal_transitions Rollback_Pending = [Rolled_Back, Needs_Attention]"
| "journal_transitions Completed = []"
| "journal_transitions Rolled_Back = [Planned]"
| "journal_transitions Needs_Attention = []"

datatype subject_kind = Audio | Sidecar | External_Art

text \<open>What the JSON of the evidence column says: a kind of mutation, or the reason of a recovery.\<close>

datatype recovery_note = No_Note | Mutation_Note string | Reason_Note string

type_synonym rooted_name = "pystr option \<times> pystr option"

record journal =
  jr_id :: pystr
  jr_plan_item_ordinal :: nat
  jr_subject_kind :: subject_kind
  jr_subject_key :: pystr
  jr_state :: journal_state
  jr_local_track_id :: "pystr option"
  jr_source :: rooted_name
  jr_temporary :: rooted_name
  jr_backup :: rooted_name
  jr_destination :: rooted_name
  jr_source_fingerprint :: "pystr option"
  jr_staged_fingerprint :: "pystr option"
  jr_attempts :: nat
  jr_failure_code :: "string option"
  jr_recovery_evidence :: recovery_note
  jr_row_revision :: int

definition is_delete_mutation :: "journal \<Rightarrow> bool" where
  "is_delete_mutation j \<longleftrightarrow>
     jr_subject_kind j = External_Art \<and> py_startswith (jr_subject_key j) (lit ''delete:'')
     \<and> jr_recovery_evidence j = Mutation_Note ''delete''"

definition is_recycle_mutation :: "journal \<Rightarrow> bool" where
  "is_recycle_mutation j \<longleftrightarrow> jr_recovery_evidence j = Mutation_Note ''recycle''"

definition terminal_state :: "journal_state \<Rightarrow> bool" where
  "terminal_state s \<longleftrightarrow> s \<in> {Completed, Rolled_Back, Needs_Attention}"

section \<open>The job, its work, the catalog\<close>

datatype job_state = J_Queued | J_Running | J_Paused | J_Stopped | J_Failed | J_Cancelled | J_Succeeded

datatype work_state = W_Pending | W_Running | W_Succeeded | W_Failed | W_Skipped

datatype phase = Planning | Applying | Undoing | Restoring | Other_Phase

record operation_job =
  oj_state :: job_state
  oj_lease_owner :: "pystr option"
  oj_lease_expires_at :: "rat option"
  oj_terminal_code :: "string option"
  oj_completed_count :: nat
  oj_succeeded_count :: nat
  oj_failed_count :: nat

record catalog_track =
  ct_root_id :: pystr
  ct_relative_path :: pystr
  ct_indexed :: bool

record catalog_mutation =
  cm_journal_id :: pystr
  cm_plan_item_ordinal :: nat
  cm_local_track_id :: pystr
  cm_destination_root_id :: pystr
  cm_destination_relative_path :: pystr
  cm_recycle_only :: bool

text \<open>A mutation as the publisher keeps it in memory.\<close>

record prepared_mutation =
  pm_journal :: journal
  pm_source :: "location option"
  pm_temporary :: location
  pm_destination :: location
  pm_backup :: "location option"
  pm_source_fingerprint :: "pystr option"
  pm_staged_fingerprint :: pystr
  pm_catalog_mutation :: "catalog_mutation option"
  pm_published :: bool
  pm_source_backed_up :: bool
  pm_remove_source :: bool
  pm_delete_only :: bool
  pm_recycle_move :: bool

text \<open>
  The world of one bundle: the disk, the rows of the bundle in the order of their plan item, kind and
  key, the job with its work, the phase of its snapshot, the tracks of the catalog, the collisions that
  were recorded, and the memory of the process.
\<close>

record world = disk +
  journals :: "journal list"
  job :: "operation_job option"
  works :: "(nat, work_state) odict"
  phase_of :: "phase option"
  tracks :: "(pystr, catalog_track) odict"
  collisions :: "pystr list"
  memory :: "prepared_mutation list"

text \<open>A transaction: it fails as a whole or is done as a whole.\<close>

definition transaction :: "(world \<Rightarrow> 'a outcome \<times> world) \<Rightarrow> (world, 'a) io" where
  "transaction f = effect (Raised Unexpected) f"

definition row :: "world \<Rightarrow> pystr \<Rightarrow> journal option" where
  "row w i = List.find (\<lambda>j. jr_id j = i) (journals w)"

definition set_row :: "world \<Rightarrow> journal \<Rightarrow> world" where
  "set_row w j = w\<lparr>journals := map (\<lambda>k. if jr_id k = jr_id j then j else k) (journals w)\<rparr>"

text \<open>Recycle mutations come first, in the order of the rows otherwise.\<close>

definition list_journals :: "(world, journal list) io" where
  "list_journals = transaction (\<lambda>w.
     (Done (filter is_recycle_mutation (journals w) @ filter (\<lambda>j. \<not> is_recycle_mutation j) (journals w)), w))"

section \<open>Transitions\<close>

record transition_options =
  to_failure_code :: "string option"
  to_increment_attempts :: bool
  to_staged_fingerprint :: "pystr option"
  to_recovery_evidence :: "recovery_note option"

definition plain :: transition_options where
  "plain = \<lparr>to_failure_code = None, to_increment_attempts = False, to_staged_fingerprint = None,
            to_recovery_evidence = None\<rparr>"

definition moved_row :: "transition_options \<Rightarrow> journal_state \<Rightarrow> journal \<Rightarrow> journal" where
  "moved_row opts new_state j = j\<lparr>
     jr_state := new_state,
     jr_failure_code := to_failure_code opts,
     jr_staged_fingerprint :=
       (case to_staged_fingerprint opts of None \<Rightarrow> jr_staged_fingerprint j | Some f \<Rightarrow> Some f),
     jr_recovery_evidence :=
       (case to_recovery_evidence opts of None \<Rightarrow> jr_recovery_evidence j | Some n \<Rightarrow> n),
     jr_attempts := jr_attempts j + (if to_increment_attempts opts then 1 else 0),
     jr_row_revision := jr_row_revision j + 1\<rparr>"

definition transition_journal ::
  "journal \<Rightarrow> journal_state \<Rightarrow> int \<Rightarrow> journal_state \<Rightarrow> transition_options \<Rightarrow> (world, journal) io" where
  "transition_journal j expected_state expected_revision new_state opts =
     andthen (assert_that (new_state \<in> set (journal_transitions expected_state)) Validation_Error)
       (transaction (\<lambda>w.
          case row w (jr_id j) of
            None \<Rightarrow> (Raised Not_Found, w)
          | Some current \<Rightarrow>
              if MAX_REVISION \<le> jr_row_revision current then (Raised Unexpected, w)
              else if jr_state current \<noteq> expected_state \<or> jr_row_revision current \<noteq> expected_revision
              then (Raised Stale_Revision, w)
              else (Done (moved_row opts new_state current), set_row w (moved_row opts new_state current))))"

text \<open>The usual call: from the state and the revision that the caller has in hand.\<close>

definition advance :: "journal \<Rightarrow> journal_state \<Rightarrow> transition_options \<Rightarrow> (world, journal) io" where
  "advance j new_state opts = transition_journal j (jr_state j) (jr_row_revision j) new_state opts"

section \<open>Operations on the job\<close>

definition claim_for_recovery :: "nat \<Rightarrow> pystr \<Rightarrow> rat \<Rightarrow> rat \<Rightarrow> bool \<Rightarrow> (world, bool) io" where
  "claim_for_recovery ordinal worker now lease_seconds forced = transaction (\<lambda>w.
     (case (job w, phase_of w, dict_get (works w) ordinal) of
        (Some jb, Some ph, Some wk) \<Rightarrow>
          if ph \<noteq> Applying \<or> wk \<notin> {W_Pending, W_Running} then (Done False, w)
          else if oj_state jb = J_Running
               \<and> oj_lease_owner jb \<noteq> Some worker
               \<and> (case oj_lease_expires_at jb of None \<Rightarrow> False | Some t \<Rightarrow> now \<le> t)
               \<and> \<not> forced then (Done False, w)
          else if oj_state jb \<noteq> J_Running \<and> oj_state jb \<noteq> J_Queued then (Done False, w)
          else (Done True, w\<lparr>
                  job := Some (jb\<lparr>oj_state := J_Running, oj_lease_owner := Some worker,
                                  oj_lease_expires_at := Some (now + lease_seconds)\<rparr>),
                  works := dict_set (works w) ordinal W_Running\<rparr>)
      | _ \<Rightarrow> (Done False, w)))"

definition active_work :: "world \<Rightarrow> bool" where
  "active_work w \<longleftrightarrow> list_ex (\<lambda>(_, s). s \<in> {W_Pending, W_Running}) (works w)"

definition failed_work :: "world \<Rightarrow> bool" where
  "failed_work w \<longleftrightarrow> list_ex (\<lambda>(_, s). s = W_Failed) (works w)"

definition ended_job :: "world \<Rightarrow> operation_job \<Rightarrow> operation_job" where
  "ended_job w jb = jb\<lparr>
     oj_state := (if failed_work w then J_Failed else J_Succeeded),
     oj_terminal_code := Some (if failed_work w then ''RECOVERY_FAILED'' else ''COMPLETED''),
     oj_lease_owner := None, oj_lease_expires_at := None\<rparr>"

definition release_recovery_lease :: "pystr \<Rightarrow> (world, bool) io" where
  "release_recovery_lease worker = transaction (\<lambda>w.
     (case job w of
        None \<Rightarrow> (Done False, w)
      | Some jb \<Rightarrow>
          if oj_state jb \<noteq> J_Running \<or> oj_lease_owner jb \<noteq> Some worker then (Done False, w)
          else (Done True, w\<lparr>job := Some
                 (if works w \<noteq> [] \<and> \<not> active_work w then ended_job w jb
                  else jb\<lparr>oj_state := J_Queued, oj_terminal_code := None, oj_lease_owner := None,
                          oj_lease_expires_at := None\<rparr>)\<rparr>)))"

definition settle_recovery_job :: "(world, bool) io" where
  "settle_recovery_job = transaction (\<lambda>w.
     (case job w of
        None \<Rightarrow> (Done False, w)
      | Some jb \<Rightarrow>
          if works w = [] \<or> active_work w then (Done False, w)
          else if oj_state jb \<in> {J_Queued, J_Running} then (Done True, w\<lparr>job := Some (ended_job w jb)\<rparr>)
          else (Done False, w)))"

definition fail_bundle_recovery :: "nat \<Rightarrow> string \<Rightarrow> (world, unit) io" where
  "fail_bundle_recovery ordinal failure_code = transaction (\<lambda>w.
     (case dict_get (works w) ordinal of
        None \<Rightarrow> (Done (), w)
      | Some wk \<Rightarrow>
          let was_active = (wk \<in> {W_Pending, W_Running});
              one = (if was_active then 1 else 0);
              w' = (if was_active then w\<lparr>works := dict_set (works w) ordinal W_Failed\<rparr> else w)
          in (Done (), w'\<lparr>job := map_option (\<lambda>jb. jb\<lparr>
                 oj_state := J_Failed, oj_terminal_code := Some failure_code, oj_lease_owner := None,
                 oj_lease_expires_at := None,
                 oj_completed_count := oj_completed_count jb + one,
                 oj_failed_count := oj_failed_count jb + one\<rparr>) (job w')\<rparr>)))"

definition mark_destination_missing :: "pystr \<Rightarrow> pystr \<Rightarrow> pystr \<Rightarrow> (world, bool) io" where
  "mark_destination_missing track root_id relative = transaction (\<lambda>w.
     (case dict_get (tracks w) track of
        Some t \<Rightarrow>
          if ct_root_id t = root_id \<and> ct_relative_path t = relative \<and> ct_indexed t
          then (Done True, w\<lparr>tracks := dict_set (tracks w) track (t\<lparr>ct_indexed := False\<rparr>)\<rparr>)
          else (Done False, w)
      | None \<Rightarrow> (Done False, w)))"

section \<open>The commit of a bundle\<close>

definition committed_state :: "journal_state \<Rightarrow> bool" where
  "committed_state s \<longleftrightarrow> s \<in> {Catalog_Committed, Cleanup_Pending, Completed}"

definition audio_rows :: "world \<Rightarrow> journal list" where
  "audio_rows w = filter (\<lambda>j. jr_subject_kind j = Audio) (journals w)"

definition fits_journal :: "world \<Rightarrow> catalog_mutation \<Rightarrow> bool" where
  "fits_journal w m \<longleftrightarrow>
     (case row w (cm_journal_id m) of
        None \<Rightarrow> False
      | Some j \<Rightarrow> jr_plan_item_ordinal j = cm_plan_item_ordinal m \<and> jr_local_track_id j = Some (cm_local_track_id m))"

definition apply_mutation :: "catalog_mutation \<Rightarrow> (pystr, catalog_track) odict \<Rightarrow> (pystr, catalog_track) odict" where
  "apply_mutation m ts = dict_set ts (cm_local_track_id m)
     \<lparr>ct_root_id = cm_destination_root_id m, ct_relative_path = cm_destination_relative_path m,
      ct_indexed = (\<not> cm_recycle_only m)\<rparr>"

definition commit_row :: "journal \<Rightarrow> journal" where
  "commit_row j = (if jr_state j = Published
     then j\<lparr>jr_state := Catalog_Committed, jr_row_revision := jr_row_revision j + 1\<rparr> else j)"

definition committed_world :: "nat \<Rightarrow> catalog_mutation list \<Rightarrow> operation_job \<Rightarrow> world \<Rightarrow> world" where
  "committed_world ordinal mutations jb w = w\<lparr>
     tracks := fold apply_mutation mutations (tracks w),
     journals := map commit_row (journals w),
     works := dict_set (works w) ordinal W_Succeeded,
     job := Some (jb\<lparr>oj_completed_count := Suc (oj_completed_count jb),
                      oj_succeeded_count := Suc (oj_succeeded_count jb)\<rparr>)\<rparr>"

text \<open>\<open>accepts\<close> stands for the checks of the catalog: the revisions, the identities, the intent of an edit.\<close>

definition commit_bundle ::
  "(world \<Rightarrow> catalog_mutation list \<Rightarrow> io_failure option) \<Rightarrow> nat \<Rightarrow> pystr \<Rightarrow> catalog_mutation list \<Rightarrow> (world, unit) io" where
  "commit_bundle accepts ordinal worker mutations =
     andthen (assert_that (mutations \<noteq> [] \<and> length mutations \<le> MANAGEMENT_PERSISTENCE_BATCH_SIZE) Validation_Error)
    (andthen (assert_that (distinct (map cm_local_track_id mutations)) Validation_Error)
    (andthen (assert_that (distinct (map cm_journal_id mutations)) Validation_Error)
       (transaction (\<lambda>w.
          (case (job w, phase_of w, dict_get (works w) ordinal) of
             (Some jb, Some ph, Some wk) \<Rightarrow>
               if set (map cm_journal_id mutations) \<noteq> set (map jr_id (audio_rows w)) then (Raised Validation_Error, w)
               else if \<not> list_all (fits_journal w) mutations then (Raised Validation_Error, w)
               else if journals w \<noteq> [] \<and> list_all (\<lambda>j. committed_state (jr_state j)) (journals w)
               then (if wk \<noteq> W_Succeeded then (Raised Conflict_Error, w) else (Done (), w))
               else if journals w = [] \<or> list_ex (\<lambda>j. jr_state j \<noteq> Published) (journals w)
               then (Raised Stale_Revision, w)
               else if oj_state jb \<noteq> J_Running \<or> oj_lease_owner jb \<noteq> Some worker
                    \<or> ph \<notin> {Applying, Undoing, Restoring} \<or> wk \<noteq> W_Running
               then (Raised Stale_Revision, w)
               else (case accepts w mutations of
                  Some e \<Rightarrow> (Raised e, w)
                | None \<Rightarrow>
                    (Done (), committed_world ordinal mutations jb w))
           | _ \<Rightarrow> (Raised Not_Found, w))))))"

end
