(* ===== verification/Management_Publisher.thy ===== *)
theory Management_Publisher
  imports Mutation_Journal
begin

text \<open>
  The publication of one bundle in \<open>services/native/library_management_publisher.py\<close>: the last
  check of the prepared mutations, their publication one by one, the commit, the clean-up, and the
  rollback in the process. How the mutations are prepared (planning, tags, artwork) is a parameter.
  Whoever publishes holds the write leases of the roots, which are modelled with the leases.
\<close>

definition MAX_DIRECTORY_COLLISION_ENTRIES :: nat where "MAX_DIRECTORY_COLLISION_ENTRIES = 10000"

record bundle_env =
  be_unicode :: unidb
  be_worker :: pystr
  be_now :: rat
  be_ordinal :: nat
  be_mode :: string
  be_cleanup_moves :: bool
  be_remove_empty :: bool
  be_item_ordinals :: "nat list"
  be_items_eligible :: bool
  be_roots :: roots
  be_pinned_configuration :: "world \<Rightarrow> io_failure option"
  be_policy_current :: "world \<Rightarrow> io_failure option"
  be_accepts :: "world \<Rightarrow> catalog_mutation list \<Rightarrow> io_failure option"
  be_rebuild :: "world \<Rightarrow> journal \<Rightarrow> io_failure + catalog_mutation"
  be_prepare :: "(world, unit) io"

definition must_hold :: "(world \<Rightarrow> io_failure option) \<Rightarrow> (world, unit) io" where
  "must_hold f = bind (io_reads f) (\<lambda>r. case r of None \<Rightarrow> ret () | Some e \<Rightarrow> throw e)"

definition is_conflict :: "io_failure \<Rightarrow> bool" where
  "is_conflict e \<longleftrightarrow> e \<in> {Conflict_Error, Stale_Revision}"

definition expected_failure :: "io_failure \<Rightarrow> bool" where
  "expected_failure e \<longleftrightarrow> e \<in> {OS_Error, Conflict_Error, Stale_Revision, Validation_Error}"

definition attempt_io :: "(io_failure \<Rightarrow> bool) \<Rightarrow> ('w, 'a) io \<Rightarrow> ('w, io_failure + 'a) io" where
  "attempt_io p m = handle p (bind m (\<lambda>a. ret (Inr a))) (\<lambda>e. ret (Inl e))"

text \<open>\<open>assert\<close> that a name of the journal is there.\<close>

definition named :: "rooted_name \<Rightarrow> ('w, pystr \<times> pystr) io" where
  "named n = (case n of
     (Some r, Some p) \<Rightarrow> if r \<noteq> [] \<and> p \<noteq> [] then ret (r, p) else throw Unexpected
   | _ \<Rightarrow> throw Unexpected)"

section \<open>The memory of the process\<close>

definition prepared_at :: "nat \<Rightarrow> (world, prepared_mutation) io" where
  "prepared_at i = io_reads (\<lambda>w. memory w ! i)"

definition remember :: "nat \<Rightarrow> (prepared_mutation \<Rightarrow> prepared_mutation) \<Rightarrow> (world, unit) io" where
  "remember i f = modifies (\<lambda>w. w\<lparr>memory := (memory w)[i := f (memory w ! i)]\<rparr>)"

section \<open>The last check\<close>

text \<open>
  \<open>_safe_path\<close> without making parents.
\<close>

definition check_directory :: "node option \<Rightarrow> io_failure option" where
  "check_directory n = (case n of
     None \<Rightarrow> Some OS_Error | Some Directory \<Rightarrow> None | Some _ \<Rightarrow> Some Validation_Error)"

definition safe_path :: "roots \<Rightarrow> pystr \<Rightarrow> pystr \<Rightarrow> world \<Rightarrow> io_failure + location" where
  "safe_path roots root_id relative w =
     (case dict_get roots root_id of
        None \<Rightarrow> Inl Stale_Revision
      | Some base \<Rightarrow>
          if \<not> safe_parts relative then Inl Validation_Error
          else if node_at w base = None then Inl OS_Error
          else if node_at w base = Some Symlink then Inl Validation_Error
          else (let parts = p_parts (path_of relative)
                in case List.find (\<lambda>p. check_directory (node_at w p) \<noteq> None) (tl (parents_of base parts)) of
                     Some p \<Rightarrow> Inl (the (check_directory (node_at w p)))
                   | None \<Rightarrow> Inr (base @ parts)))"

definition recheck_name :: "roots \<Rightarrow> rooted_name \<Rightarrow> location option \<Rightarrow> (world, unit) io" where
  "recheck_name roots n expected =
     (case (n, expected) of
        ((Some root_id, Some relative), Some p) \<Rightarrow>
          effect (Raised OS_Error) (\<lambda>w.
            (case safe_path roots root_id relative w of
               Inl e \<Rightarrow> (Raised e, w)
             | Inr q \<Rightarrow> (if q = p then Done () else Raised Stale_Revision, w)))
      | _ \<Rightarrow> ret ())"

definition check_hash :: "location \<Rightarrow> pystr option \<Rightarrow> (world, unit) io" where
  "check_hash p expected = bind (hash_file p) (\<lambda>h. assert_that (Some h = expected) Stale_Revision)"

definition check_free :: "location \<Rightarrow> (world, unit) io" where
  "check_free p = bind (occupied p) (\<lambda>b. assert_that (\<not> b) Conflict_Error)"

text \<open>The names of a directory that are another name's NFC case-fold.\<close>

definition directory_names :: "world \<Rightarrow> location \<Rightarrow> pystr list" where
  "directory_names w d = map (\<lambda>(p, _). last p) (filter (\<lambda>(p, _). p \<noteq> [] \<and> butlast p = d) (nodes w))"

definition folded_file_name :: "unidb \<Rightarrow> pystr \<Rightarrow> pystr" where
  "folded_file_name u n = py_casefold u (py_nfc u n)"

definition same_folded :: "unidb \<Rightarrow> location \<Rightarrow> pystr \<Rightarrow> bool" where
  "same_folded u p name \<longleftrightarrow> name \<noteq> last p \<and> folded_file_name u name = folded_file_name u (last p)"

definition check_siblings :: "unidb \<Rightarrow> location option \<Rightarrow> location list \<Rightarrow> location \<Rightarrow> (world, unit) io" where
  "check_siblings u source recycled destination =
     effect (Raised OS_Error) (\<lambda>w.
       if node_at w (butlast destination) \<noteq> Some Directory then (Done (), w)
       else (let names = directory_names w (butlast destination);
                 bad = (\<lambda>name. same_folded u destination name
                          \<and> Some (butlast destination @ [name]) \<noteq> source
                          \<and> butlast destination @ [name] \<notin> set recycled)
             in (if MAX_DIRECTORY_COLLISION_ENTRIES < length names \<or> list_ex bad names
                 then Raised Conflict_Error else Done (), w)))"

definition needs_backup :: "prepared_mutation \<Rightarrow> bool" where
  "needs_backup v \<longleftrightarrow>
     pm_source v = Some (pm_destination v) \<or> pm_recycle_move v
     \<or> (jr_subject_kind (pm_journal v) = External_Art \<and> pm_source v \<noteq> None)"

definition recheck_mutation :: "unidb \<Rightarrow> roots \<Rightarrow> location list \<Rightarrow> prepared_mutation \<Rightarrow> (world, unit) io" where
  "recheck_mutation u roots recycled v =
     (let j = pm_journal v; moved = (pm_source v \<noteq> Some (pm_destination v))
      in andthen (recheck_name roots (jr_source j) (pm_source v))
        (andthen (recheck_name roots (jr_temporary j) (Some (pm_temporary v)))
        (andthen (recheck_name roots (jr_destination j) (Some (pm_destination v)))
        (andthen (recheck_name roots (jr_backup j) (pm_backup v))
        (andthen (case pm_backup v of None \<Rightarrow> ret () | Some b \<Rightarrow> when_true (needs_backup v) (check_free b))
        (andthen (check_hash (pm_temporary v) (Some (pm_staged_fingerprint v)))
        (andthen (case pm_source v of None \<Rightarrow> ret ()
                  | Some s \<Rightarrow> when_true moved (check_hash s (pm_source_fingerprint v)))
        (andthen
          (if jr_subject_kind j \<in> {Audio, Sidecar}
           then when_true moved
                  (bind (occupied (pm_destination v))
                     (\<lambda>b. assert_that (\<not> b \<or> pm_destination v \<in> set recycled) Conflict_Error))
           else (case pm_source v of
                   Some s \<Rightarrow> andthen (check_hash s (pm_source_fingerprint v))
                               (when_true (pm_recycle_move v) (check_free (pm_destination v)))
                 | None \<Rightarrow> check_free (pm_destination v)))
          (when_true moved (check_siblings u (pm_source v) recycled (pm_destination v)))))))))))"

definition recheck_prepared :: "bundle_env \<Rightarrow> (world, unit) io" where
  "recheck_prepared env =
     bind (io_reads memory) (\<lambda>vs.
       io_each (recheck_mutation (be_unicode env) (be_roots env)
                  (concat (map (\<lambda>v. case pm_source v of Some s \<Rightarrow> if pm_recycle_move v then [s] else [] | None \<Rightarrow> []) vs))) vs)"

definition late_collision :: "unidb \<Rightarrow> world \<Rightarrow> prepared_mutation \<Rightarrow> bool" where
  "late_collision u w v \<longleftrightarrow>
     pm_source v \<noteq> Some (pm_destination v)
     \<and> (node_at w (pm_destination v) \<noteq> None
        \<or> (node_at w (butlast (pm_destination v)) = Some Directory
           \<and> list_ex (\<lambda>name. same_folded u (pm_destination v) name
                        \<and> Some (butlast (pm_destination v) @ [name]) \<noteq> pm_source v)
               (directory_names w (butlast (pm_destination v)))))"

definition record_late_collisions :: "bundle_env \<Rightarrow> (world, unit) io" where
  "record_late_collisions env =
     bind (effect (Raised OS_Error) (\<lambda>w. (Done (filter (late_collision (be_unicode env) w) (memory w)), w)))
       (\<lambda>late. when_true (late \<noteq> [])
          (transaction (\<lambda>w. (Done (), w\<lparr>collisions := collisions w @ map (jr_id \<circ> pm_journal) late\<rparr>))))"

section \<open>Publishing\<close>

definition replace_names :: "roots \<Rightarrow> rooted_name \<Rightarrow> rooted_name \<Rightarrow> (world, unit) io" where
  "replace_names roots a b = bind (named a) (\<lambda>x. bind (named b) (\<lambda>y. replace_rooted roots x y))"

definition unlink_name :: "roots \<Rightarrow> rooted_name \<Rightarrow> bool \<Rightarrow> (world, unit) io" where
  "unlink_name roots a missing_ok = bind (named a) (\<lambda>x. unlink_rooted roots x missing_ok)"

definition remember_journal :: "nat \<Rightarrow> journal \<Rightarrow> (world, unit) io" where
  "remember_journal i j = remember i (\<lambda>v. v\<lparr>pm_journal := j\<rparr>)"

definition back_up_source :: "roots \<Rightarrow> nat \<Rightarrow> (world, unit) io" where
  "back_up_source roots i =
     bind (prepared_at i) (\<lambda>v.
       andthen (assert_that (pm_backup v \<noteq> None \<and> pm_source v \<noteq> None) Unexpected)
      (andthen (replace_names roots (jr_source (pm_journal v)) (jr_backup (pm_journal v)))
      (andthen (remember i (\<lambda>v. v\<lparr>pm_source_backed_up := True\<rparr>))
         (bind (transition_journal (pm_journal v) Validated (jr_row_revision (pm_journal v)) Source_Backed_Up plain)
            (remember_journal i)))))"

definition mark_published :: "nat \<Rightarrow> (world, unit) io" where
  "mark_published i =
     andthen (remember i (\<lambda>v. v\<lparr>pm_published := True\<rparr>))
       (bind (prepared_at i) (\<lambda>v. bind (advance (pm_journal v) Published plain) (remember_journal i)))"

definition stat_file :: "location \<Rightarrow> (world, unit) io" where
  "stat_file p = effect (Raised OS_Error) (\<lambda>w. (if node_at w p = None then Raised OS_Error else Done (), w))"

definition publish_one :: "roots \<Rightarrow> nat \<Rightarrow> (world, unit) io" where
  "publish_one roots i =
     bind (prepared_at i) (\<lambda>v.
       andthen (when_true (needs_backup v) (back_up_source roots i))
         (if pm_delete_only v then mark_published i
          else andthen (replace_names roots (jr_temporary (pm_journal v)) (jr_destination (pm_journal v)))
              (andthen (mark_published i)
                 (when_true (pm_catalog_mutation v \<noteq> None) (stat_file (pm_destination v))))))"

section \<open>The rollback in the process\<close>

text \<open>A link at the destination is taken to lead somewhere.\<close>

definition restore_prepared :: "roots \<Rightarrow> nat \<Rightarrow> (world, unit) io" where
  "restore_prepared roots i =
     bind (prepared_at i) (\<lambda>v.
       andthen
         (when_true (pm_published v)
            (bind (occupied (pm_destination v)) (\<lambda>there.
               when_true there
                 (bind (inspect_kind (Some (pm_destination v))) (\<lambda>kind.
                    andthen (assert_that (kind = Ev_Regular None \<and> jr_staged_fingerprint (pm_journal v) \<noteq> None) Conflict_Error)
                   (andthen (bind (hash_file (pm_destination v))
                               (\<lambda>h. assert_that (Some h = jr_staged_fingerprint (pm_journal v)) Conflict_Error))
                      (unlink_name roots (jr_destination (pm_journal v)) False)))))))
      (andthen
         (when_true (pm_source_backed_up v \<and> pm_backup v \<noteq> None \<and> pm_source v \<noteq> None)
            (replace_names roots (jr_backup (pm_journal v)) (jr_source (pm_journal v))))
         (unlink_name roots (jr_temporary (pm_journal v)) True)))"

definition give_up :: "journal \<Rightarrow> (world, unit) io" where
  "give_up j =
     handle (\<lambda>e. e \<in> {Stale_Revision, Validation_Error})
       (bind (advance j Needs_Attention (plain\<lparr>to_failure_code := Some ''RECOVERY_NEEDS_ATTENTION''\<rparr>)) (\<lambda>_. ret ()))
       (\<lambda>_. ret ())"

definition rollback_one :: "roots \<Rightarrow> nat \<Rightarrow> (world, unit) io" where
  "rollback_one roots i =
     bind (prepared_at i) (\<lambda>v.
       when_true (jr_state (pm_journal v) \<in> {Published, Source_Backed_Up, Validated, Staged, Snapshot_Saved, Planned})
         (bind (attempt_io expected_failure (advance (pm_journal v) Rollback_Pending plain)) (\<lambda>r.
            case r of
              Inl _ \<Rightarrow> give_up (pm_journal v)
            | Inr j \<Rightarrow>
                handle expected_failure
                  (andthen (restore_prepared roots i)
                     (bind (advance j Rolled_Back plain) (remember_journal i)))
                  (\<lambda>_. give_up j))))"

definition rollback :: "roots \<Rightarrow> (world, unit) io" where
  "rollback roots = bind (io_reads memory) (\<lambda>vs. io_each (rollback_one roots) (rev [0..<length vs]))"

definition remove_unpublished_temporaries :: "roots \<Rightarrow> (world, unit) io" where
  "remove_unpublished_temporaries roots =
     bind (io_reads memory) (io_each (\<lambda>v.
       when_true (\<not> pm_published v)
         (case jr_temporary (pm_journal v) of
            (Some r, Some p) \<Rightarrow> unlink_rooted roots (r, p) True
          | _ \<Rightarrow> ret ())))"

section \<open>The clean-up after the commit\<close>

definition clean_up_files :: "roots \<Rightarrow> prepared_mutation \<Rightarrow> (world, unit) io" where
  "clean_up_files roots v =
     (let j = pm_journal v in
      andthen
        (case (pm_source_backed_up v, pm_backup v) of
           (True, Some b) \<Rightarrow>
             andthen (bind (hash_file b) (\<lambda>h. assert_that (Some h = pm_source_fingerprint v) Conflict_Error))
               (unlink_name roots (jr_backup j) False)
         | _ \<Rightarrow>
             (case pm_source v of
                Some s \<Rightarrow>
                  when_true (pm_remove_source v \<and> s \<noteq> pm_destination v)
                    (andthen (bind (hash_file s) (\<lambda>h. assert_that (Some h = pm_source_fingerprint v) Conflict_Error))
                       (unlink_name roots (jr_source j) False))
              | None \<Rightarrow> ret ()))
        (when_true (pm_temporary v \<noteq> pm_destination v) (unlink_name roots (jr_temporary j) True)))"

definition clean_up_one :: "roots \<Rightarrow> nat \<Rightarrow> (world, unit) io" where
  "clean_up_one roots i =
     bind (prepared_at i) (\<lambda>v.
       let j = pm_journal v in
       handle (\<lambda>e. e = OS_Error \<or> is_conflict e)
         (andthen (clean_up_files roots v)
            (bind (transition_journal j Catalog_Committed (jr_row_revision j + 1) Completed plain) (remember_journal i)))
         (\<lambda>_. bind (transition_journal j Catalog_Committed (jr_row_revision j + 1) Cleanup_Pending
                       (plain\<lparr>to_failure_code := Some ''SOURCE_CLEANUP_FAILED''\<rparr>)) (remember_journal i)))"

definition clean_up_committed :: "roots \<Rightarrow> (world, unit) io" where
  "clean_up_committed roots = bind (io_reads memory) (\<lambda>vs. io_each (clean_up_one roots) [0..<length vs])"

definition source_directories :: "roots \<Rightarrow> prepared_mutation list \<Rightarrow> (location \<times> location) list" where
  "source_directories roots vs = concat (map (\<lambda>v.
     case (pm_source v, jr_source (pm_journal v)) of
       (Some s, (Some root_id, _)) \<Rightarrow>
         (case dict_get roots root_id of
            Some base \<Rightarrow> if pm_remove_source v \<and> s \<noteq> pm_destination v then [(butlast s, base)] else []
          | None \<Rightarrow> [])
     | _ \<Rightarrow> []) vs)"

section \<open>The critical section\<close>

definition commit_prepared :: "bundle_env \<Rightarrow> (world, unit) io" where
  "commit_prepared env =
     bind (io_reads memory) (\<lambda>vs.
       commit_bundle (be_accepts env) (be_ordinal env) (be_worker env)
         (concat (map (\<lambda>v. case pm_catalog_mutation v of None \<Rightarrow> [] | Some m \<Rightarrow> [m]) vs)))"

definition publish_all :: "bundle_env \<Rightarrow> (world, unit) io" where
  "publish_all env =
     andthen (must_hold (be_pinned_configuration env))
    (andthen (must_hold (be_policy_current env))
    (andthen (handle is_conflict (recheck_prepared env)
                (\<lambda>e. andthen (record_late_collisions env) (throw e)))
    (andthen (bind (io_reads memory) (\<lambda>vs. io_each (publish_one (be_roots env)) [0..<length vs]))
    (andthen (must_hold (be_pinned_configuration env))
    (andthen (must_hold (be_policy_current env))
    (andthen (commit_prepared env)
    (andthen (clean_up_committed (be_roots env))
       (bind (io_reads memory) (\<lambda>vs.
          when_true (be_remove_empty env \<and> be_cleanup_moves env
                     \<and> list_all (\<lambda>v. jr_state (pm_journal v) = Completed) vs)
            (remove_empty_directories (source_directories (be_roots env) vs)))))))))))"

definition publish_critical_section :: "bundle_env \<Rightarrow> (world, unit) io" where
  "publish_critical_section env =
     handle (\<lambda>_. True) (publish_all env) (\<lambda>e. andthen (rollback (be_roots env)) (throw e))"

definition with_rollback :: "bundle_env \<Rightarrow> (world, unit) io \<Rightarrow> (world, unit) io" where
  "with_rollback env m =
     handle (\<lambda>_. True) m
       (\<lambda>e. andthen (rollback (be_roots env)) (andthen (remove_unpublished_temporaries (be_roots env)) (throw e)))"

definition publish_bundle :: "bundle_env \<Rightarrow> (world, unit) io" where
  "publish_bundle env =
     bind (transaction (\<lambda>w. (Done (phase_of w), w))) (\<lambda>ph.
       andthen (assert_that (ph \<in> {Some Applying, Some Undoing, Some Restoring}) Stale_Revision)
      (andthen (assert_that (be_item_ordinals env \<noteq> [] \<and> be_items_eligible env) Validation_Error)
         (bind list_journals (\<lambda>existing.
            if existing \<noteq> [] \<and> list_all (\<lambda>j. committed_state (jr_state j)) existing then ret ()
            else andthen (must_hold (be_pinned_configuration env))
                (andthen (must_hold (be_policy_current env))
                (andthen (modifies (\<lambda>w. w\<lparr>memory := []\<rparr>))
                   (with_rollback env (andthen (be_prepare env) (publish_critical_section env)))))))))"

end
