(* ===== verification/Management_Recovery.thy ===== *)
theory Management_Recovery
  imports Management_Publisher
begin

text \<open>
  The recovery of one bundle in \<open>services/native/library_management_recovery_service.py\<close>: what an
  interrupted publication left is looked at, and is finished, taken back, or given to a person.
  The scan over all bundles and the recovery of imports are not modelled.
\<close>

definition RECOVERY_LEASE_SECONDS :: rat where "RECOVERY_LEASE_SECONDS = 60"

datatype recovery_result = D_Recovered | D_Rolled_Back | D_Needs_Attention | D_Skipped

record journal_paths =
  jp_journal :: journal
  jp_source :: "location option"
  jp_temporary :: "location option"
  jp_backup :: "location option"
  jp_destination :: location

definition is_uncertain :: "io_failure \<Rightarrow> bool" where
  "is_uncertain e = (case e of Uncertain _ \<Rightarrow> True | _ \<Rightarrow> False)"

section \<open>Resolving the paths of the journals\<close>

text \<open>\<open>_required_path\<close>: parents that are missing are left alone.\<close>

definition required_path :: "roots \<Rightarrow> pystr \<Rightarrow> pystr \<Rightarrow> (world, location) io" where
  "required_path roots root_id relative =
     (case dict_get roots root_id of
        None \<Rightarrow> throw Stale_Revision
      | Some base \<Rightarrow>
          if \<not> safe_parts relative then throw Validation_Error
          else effect (Raised OS_Error) (\<lambda>w.
            (let parts = p_parts (path_of relative)
             in (if node_at w base = None then Raised OS_Error
                 else if node_at w base \<noteq> Some Directory
                      \<or> list_ex (\<lambda>p. node_at w p \<noteq> None \<and> node_at w p \<noteq> Some Directory) (parents_of base parts)
                 then Raised Validation_Error else Done (base @ parts), w))))"

definition optional_path :: "roots \<Rightarrow> rooted_name \<Rightarrow> (world, location option) io" where
  "optional_path roots n = (case n of
     (None, None) \<Rightarrow> ret None
   | (Some r, Some p) \<Rightarrow> bind (required_path roots r p) (\<lambda>q. ret (Some q))
   | _ \<Rightarrow> throw Validation_Error)"

definition resolve_journal :: "roots \<Rightarrow> journal \<Rightarrow> (world, journal_paths) io" where
  "resolve_journal roots j = (case jr_destination j of
     (Some r, Some p) \<Rightarrow>
       bind (required_path roots r p) (\<lambda>destination.
       bind (optional_path roots (jr_source j)) (\<lambda>source.
       bind (optional_path roots (jr_temporary j)) (\<lambda>temporary.
       bind (optional_path roots (jr_backup j)) (\<lambda>backup.
         ret \<lparr>jp_journal = j,
              jp_source = (if source = None \<and> jr_subject_kind j = External_Art \<and> jr_source_fingerprint j \<noteq> None
                           then Some destination else source),
              jp_temporary = temporary, jp_backup = backup, jp_destination = destination\<rparr>))))
   | _ \<Rightarrow> throw Validation_Error)"

definition resolve_paths :: "roots \<Rightarrow> journal list \<Rightarrow> (world, journal_paths list) io" where
  "resolve_paths roots js = io_map (resolve_journal roots) js"

definition same_path :: "journal_paths \<Rightarrow> bool" where
  "same_path v \<longleftrightarrow> jp_source v = Some (jp_destination v)"

type_synonym four_evidence = "evidence \<times> evidence \<times> evidence \<times> evidence"

definition inspect_paths :: "journal_paths \<Rightarrow> (world, four_evidence) io" where
  "inspect_paths v =
     bind (inspect (jp_source v)) (\<lambda>source. bind (inspect (jp_temporary v)) (\<lambda>temporary.
     bind (inspect (jp_backup v)) (\<lambda>backup. bind (inspect (Some (jp_destination v))) (\<lambda>destination.
       ret (source, temporary, backup, destination)))))"

definition affected_roots :: "journal list \<Rightarrow> (world, unit) io" where
  "affected_roots js =
     assert_that (list_ex (\<lambda>j. list_ex (\<lambda>n. fst n \<noteq> None)
       [jr_source j, jr_temporary j, jr_backup j, jr_destination j]) js) Validation_Error"

section \<open>Finishing the publication\<close>

definition before_backup :: "journal \<Rightarrow> four_evidence \<Rightarrow> bool" where
  "before_backup j = (\<lambda>(source, temporary, backup, destination).
     exact source (jr_source_fingerprint j) \<and> backup = Ev_Missing)"

definition after_backup :: "journal \<Rightarrow> four_evidence \<Rightarrow> bool" where
  "after_backup j = (\<lambda>(source, temporary, backup, destination).
     source = Ev_Missing \<and> exact backup (jr_source_fingerprint j))"

definition before_publish :: "journal \<Rightarrow> four_evidence \<Rightarrow> bool" where
  "before_publish j = (\<lambda>(source, temporary, backup, destination).
     exact temporary (jr_staged_fingerprint j) \<and> destination = Ev_Missing)"

definition after_publish :: "journal \<Rightarrow> four_evidence \<Rightarrow> bool" where
  "after_publish j = (\<lambda>(source, temporary, backup, destination).
     temporary = Ev_Missing \<and> exact destination (jr_staged_fingerprint j))"

definition unreadable :: "evidence \<Rightarrow> bool" where
  "unreadable ev \<longleftrightarrow> ev \<in> {Ev_Symlink, Ev_Other, Ev_Error}"

text \<open>The check of one journal, with the reason of the refusal.\<close>

definition publish_refusal :: "journal_paths \<Rightarrow> four_evidence \<Rightarrow> string option" where
  "publish_refusal v ev =
     (let j = jp_journal v; (source, temporary, backup, destination) = ev in
      if is_delete_mutation j then
        (if \<not> same_path v \<or> \<not> exact temporary (jr_staged_fingerprint j) then Some ''RECOVERY_DELETE_EVIDENCE_CHANGED''
         else if jr_state j = Validated \<and> \<not> (before_backup j ev \<or> after_backup j ev)
         then Some ''RECOVERY_SOURCE_OR_BACKUP_CHANGED''
         else if jr_state j \<in> {Source_Backed_Up, Published} \<and> \<not> after_backup j ev
         then Some ''RECOVERY_BACKUP_CHANGED'' else None)
      else if is_recycle_mutation j then
        (if unreadable temporary then Some ''RECOVERY_STAGED_OUTPUT_CHANGED''
         else if jr_state j = Validated \<and> \<not> (before_backup j ev \<or> after_backup j ev)
         then Some ''RECOVERY_SOURCE_OR_BACKUP_CHANGED''
         else if jr_state j \<in> {Source_Backed_Up, Published} \<and> \<not> after_backup j ev
         then Some ''RECOVERY_BACKUP_CHANGED''
         else if \<not> (before_publish j ev \<or> after_publish j ev)
         then Some ''RECOVERY_PUBLISH_FINGERPRINT_AMBIGUOUS'' else None)
      else if jr_state j = Validated then
        (if same_path v then
           (if \<not> (before_backup j ev \<or> after_backup j ev) then Some ''RECOVERY_SOURCE_OR_BACKUP_CHANGED''
            else if \<not> exact temporary (jr_staged_fingerprint j) then Some ''RECOVERY_STAGED_OUTPUT_CHANGED'' else None)
         else
           (if jp_source v \<noteq> None \<and> \<not> exact source (jr_source_fingerprint j) then Some ''RECOVERY_SOURCE_CHANGED''
            else if \<not> (before_publish j ev \<or> after_publish j ev) then Some ''RECOVERY_PUBLISH_FINGERPRINT_AMBIGUOUS''
            else if backup \<noteq> Ev_Missing then Some ''RECOVERY_UNEXPECTED_BACKUP'' else None))
      else if jr_state j = Source_Backed_Up then
        (if \<not> same_path v \<or> \<not> exact backup (jr_source_fingerprint j) then Some ''RECOVERY_BACKUP_CHANGED''
         else if destination = Ev_Missing then
           (if \<not> exact temporary (jr_staged_fingerprint j) then Some ''RECOVERY_STAGED_OUTPUT_CHANGED'' else None)
         else if \<not> exact destination (jr_staged_fingerprint j) then Some ''RECOVERY_DESTINATION_CHANGED'' else None)
      else if jr_state j = Published then
        (if \<not> exact destination (jr_staged_fingerprint j) then Some ''RECOVERY_DESTINATION_CHANGED''
         else if same_path v then
           (if \<not> exact backup (jr_source_fingerprint j) then Some ''RECOVERY_BACKUP_CHANGED'' else None)
         else if jp_source v \<noteq> None \<and> \<not> exact source (jr_source_fingerprint j) then Some ''RECOVERY_SOURCE_CHANGED''
         else if backup \<noteq> Ev_Missing then Some ''RECOVERY_UNEXPECTED_BACKUP'' else None)
      else Some ''RECOVERY_UNEXPECTED_PUBLISH_STATE'')"

definition refuse :: "string option \<Rightarrow> (world, unit) io" where
  "refuse r = (case r of None \<Rightarrow> ret () | Some reason \<Rightarrow> throw (Uncertain reason))"

definition preflight_publish :: "journal_paths list \<Rightarrow> (world, unit) io" where
  "preflight_publish paths =
     io_each (\<lambda>v. bind (inspect_paths v) (\<lambda>ev. refuse (publish_refusal v ev))) paths"

text \<open>A transition that also counts an attempt.\<close>

definition counted :: transition_options where
  "counted = plain\<lparr>to_increment_attempts := True\<rparr>"

definition back_up_remaining :: "roots \<Rightarrow> journal_paths \<Rightarrow> (world, journal) io" where
  "back_up_remaining roots v =
     (let j = jp_journal v in
      andthen (assert_that (jp_backup v \<noteq> None \<and> jp_source v \<noteq> None) Unexpected)
        (bind (inspect (jp_source v)) (\<lambda>source. bind (inspect (jp_backup v)) (\<lambda>backup.
           andthen
             (if exact source (jr_source_fingerprint j) then replace_names roots (jr_source j) (jr_backup j)
              else assert_that (source = Ev_Missing \<and> exact backup (jr_source_fingerprint j))
                     (Uncertain ''RECOVERY_SOURCE_OR_BACKUP_CHANGED''))
             (transition_journal j Validated (jr_row_revision j) Source_Backed_Up counted)))))"

definition publish_validated :: "roots \<Rightarrow> journal_paths \<Rightarrow> (world, journal) io" where
  "publish_validated roots v =
     bind (if same_path v \<or> is_recycle_mutation (jp_journal v) then back_up_remaining roots v else ret (jp_journal v))
       (\<lambda>j.
         if is_delete_mutation (jp_journal v) then advance j Published plain
         else bind (inspect (jp_temporary v)) (\<lambda>temporary. bind (inspect (Some (jp_destination v))) (\<lambda>destination.
           andthen
             (if exact destination (jr_staged_fingerprint j)
              then assert_that (temporary = Ev_Missing) (Uncertain ''RECOVERY_PUBLISH_FINGERPRINT_AMBIGUOUS'')
              else andthen (assert_that (jp_temporary v \<noteq> None) Unexpected)
                     (replace_names roots (jr_temporary j) (jr_destination j)))
             (advance j Published plain))))"

definition publish_backed_up :: "roots \<Rightarrow> journal_paths \<Rightarrow> (world, journal) io" where
  "publish_backed_up roots v =
     (let j = jp_journal v in
      andthen
        (when_true (\<not> is_delete_mutation j)
           (bind (inspect (Some (jp_destination v))) (\<lambda>destination.
              when_true (destination = Ev_Missing)
                (andthen (assert_that (jp_temporary v \<noteq> None) Unexpected)
                   (replace_names roots (jr_temporary j) (jr_destination j))))))
        (transition_journal j Source_Backed_Up (jr_row_revision j) Published counted))"

definition publish_remaining_one :: "roots \<Rightarrow> journal_paths \<Rightarrow> (world, journal_paths) io" where
  "publish_remaining_one roots v =
     bind (if jr_state (jp_journal v) = Validated then publish_validated roots v
           else if jr_state (jp_journal v) = Source_Backed_Up then publish_backed_up roots v
           else ret (jp_journal v))
       (\<lambda>j. ret (v\<lparr>jp_journal := j\<rparr>))"

definition publish_remaining :: "roots \<Rightarrow> journal_paths list \<Rightarrow> (world, journal_paths list) io" where
  "publish_remaining roots paths = andthen (preflight_publish paths) (io_map (publish_remaining_one roots) paths)"

section \<open>The clean-up of a committed bundle\<close>

definition path_suffix :: "pystr \<Rightarrow> pystr" where
  "path_suffix name =
     (let tail = takeWhile (\<lambda>c. c \<noteq> c_dot) (rev name)
      in if c_dot \<in> set name \<and> tail \<noteq> [] \<and> length tail + 1 < length name then c_dot # rev tail else [])"

definition journal_path_identity :: "journal_paths \<Rightarrow> location \<Rightarrow> (world, pystr \<times> pystr) io" where
  "journal_path_identity v p =
     (let j = jp_journal v in
      case concat (map (\<lambda>(q, n). case n of (Some r, Some s) \<Rightarrow> if q = Some p then [(r, s)] else [] | _ \<Rightarrow> [])
             [(jp_source v, jr_source j), (jp_temporary v, jr_temporary j), (jp_backup v, jr_backup j),
              (Some (jp_destination v), jr_destination j)]) of
        [] \<Rightarrow> throw Validation_Error
      | x # _ \<Rightarrow> ret x)"

definition restore_committed_destination ::
  "roots \<Rightarrow> location \<Rightarrow> pystr \<Rightarrow> pystr \<times> pystr \<Rightarrow> pystr \<times> pystr \<Rightarrow> (world, unit) io" where
  "restore_committed_destination roots destination expected source_identity destination_identity =
     (let name = lit ''.songseek-management-recovery-'' @ take 16 expected @ path_suffix (last destination);
          temporary = butlast destination @ [name];
          relative = py_join [c_slash] (butlast (p_parts (path_of (snd destination_identity))) @ [name])
      in andthen (check_free destination)
        (andthen
           (bind (occupied temporary) (\<lambda>there.
              if there then bind (inspect (Some temporary)) (\<lambda>ev. assert_that (exact ev (Some expected)) Conflict_Error)
              else copy_rooted roots source_identity (fst destination_identity, relative)))
        (andthen (bind (inspect (Some temporary)) (\<lambda>ev. assert_that (exact ev (Some expected)) Conflict_Error))
           (replace_rooted roots (fst destination_identity, relative) destination_identity))))"

definition catalog_agrees :: "world \<Rightarrow> journal \<Rightarrow> bool" where
  "catalog_agrees w j \<longleftrightarrow>
     (case jr_local_track_id j of
        None \<Rightarrow> False
      | Some t \<Rightarrow>
          (case dict_get (tracks w) t of
             None \<Rightarrow> False
           | Some r \<Rightarrow> (Some (ct_root_id r), Some (ct_relative_path r)) = jr_destination j))"

definition check_committed_delete :: "journal \<Rightarrow> four_evidence \<Rightarrow> bool" where
  "check_committed_delete j = (\<lambda>(source, temporary, backup, destination).
     source = Ev_Missing \<and> destination = Ev_Missing
     \<and> (exact backup (jr_source_fingerprint j) \<and> exact temporary (jr_staged_fingerprint j)
        \<or> backup = Ev_Missing \<and> (exact temporary (jr_staged_fingerprint j) \<or> temporary = Ev_Missing)))"

definition restore_candidates :: "journal_paths \<Rightarrow> four_evidence \<Rightarrow> location list" where
  "restore_candidates v = (\<lambda>(source, temporary, backup, destination).
     concat (map (\<lambda>(p, ev). case p of None \<Rightarrow> [] | Some q \<Rightarrow>
         if exact ev (jr_staged_fingerprint (jp_journal v)) then [q] else [])
       [(jp_temporary v, temporary), (jp_source v, source), (jp_backup v, backup)]))"

definition verify_committed :: "roots \<Rightarrow> journal_paths \<Rightarrow> (world, journal_paths \<times> four_evidence) io" where
  "verify_committed roots v =
     (let j = jp_journal v in
      bind (inspect_paths v) (\<lambda>ev.
        if is_delete_mutation j
        then andthen (assert_that (check_committed_delete j ev) (Uncertain ''RECOVERY_COMMITTED_DELETE_CHANGED'')) (ret (v, ev))
        else
          andthen
            (when_true (jr_subject_kind j = Audio)
               (bind (transaction (\<lambda>w. (Done (catalog_agrees w j), w)))
                  (\<lambda>ok. assert_that ok (Uncertain ''RECOVERY_CATALOG_DESTINATION_MISMATCH''))))
            (case ev of (source, temporary, backup, destination) \<Rightarrow>
               if exact destination (jr_staged_fingerprint j) then ret (v, ev)
               else andthen (assert_that (destination = Ev_Missing) (Uncertain ''RECOVERY_COMMITTED_DESTINATION_CHANGED''))
                 (case restore_candidates v ev of
                    [] \<Rightarrow> throw (Uncertain ''RECOVERY_COMMITTED_DESTINATION_MISSING'')
                  | c # _ \<Rightarrow>
                      bind (journal_path_identity v c) (\<lambda>identity.
                      bind (named (jr_destination j)) (\<lambda>destination_identity.
                        andthen (restore_committed_destination roots (jp_destination v) (the (jr_staged_fingerprint j))
                                   identity destination_identity)
                          (bind (inspect (Some (jp_destination v)))
                             (\<lambda>destination. ret (v, (source, temporary, backup, destination))))))))))"

definition clean_up_recovered :: "roots \<Rightarrow> bool \<Rightarrow> journal_paths \<times> four_evidence \<Rightarrow> (world, unit) io" where
  "clean_up_recovered roots remove_source = (\<lambda>(v, source, temporary, backup, destination).
     (let j = jp_journal v in
      andthen (when_true (backup \<noteq> Ev_Missing)
        (andthen (assert_that (exact backup (jr_source_fingerprint j)) (Uncertain ''RECOVERY_CLEANUP_BACKUP_CHANGED''))
           (unlink_name roots (jr_backup j) False)))
     (andthen (when_true (remove_source \<and> jp_source v \<noteq> None \<and> \<not> same_path v \<and> source \<noteq> Ev_Missing)
        (andthen (assert_that (exact source (jr_source_fingerprint j)) (Uncertain ''RECOVERY_CLEANUP_SOURCE_CHANGED''))
           (unlink_name roots (jr_source j) False)))
     (andthen (when_true (temporary \<noteq> Ev_Missing)
        (andthen (assert_that (\<not> unreadable temporary) (Uncertain ''RECOVERY_CLEANUP_TEMP_AMBIGUOUS''))
           (unlink_name roots (jr_temporary j) False)))
       (when_true (jr_state j \<in> {Catalog_Committed, Cleanup_Pending})
          (bind (advance j Completed counted) (\<lambda>_. ret ())))))))"

definition removes_sources :: "bundle_env \<Rightarrow> bool" where
  "removes_sources env \<longleftrightarrow>
     be_mode env \<in> {''undo'', ''baseline_restore'', ''duplicate_resolution''} \<or> be_cleanup_moves env"

definition recovered_directories :: "roots \<Rightarrow> journal_paths list \<Rightarrow> (location \<times> location) list" where
  "recovered_directories roots paths = concat (map (\<lambda>v.
     case (jp_source v, fst (jr_source (jp_journal v))) of
       (Some s, Some root_id) \<Rightarrow>
         (case dict_get roots root_id of
            Some base \<Rightarrow> if s \<noteq> jp_destination v then [(butlast s, base)] else [] | None \<Rightarrow> [])
     | _ \<Rightarrow> []) paths)"

definition cleanup_committed_locked :: "bundle_env \<Rightarrow> roots \<Rightarrow> journal_paths list \<Rightarrow> (world, unit) io" where
  "cleanup_committed_locked env roots paths =
     bind (io_map (verify_committed roots) paths) (\<lambda>evidence_rows.
       andthen (io_each (clean_up_recovered roots (removes_sources env)) evidence_rows)
         (when_true (removes_sources env \<and> be_remove_empty env)
            (remove_empty_directories (recovered_directories roots paths))))"

section \<open>Attention\<close>

definition attention_bundle :: "bundle_env \<Rightarrow> string \<Rightarrow> (world, recovery_result) io" where
  "attention_bundle env failure_code =
     bind list_journals (\<lambda>js.
       andthen
         (io_each (\<lambda>j. when_true (\<not> terminal_state (jr_state j))
            (handle (\<lambda>e. e \<in> {Stale_Revision, Validation_Error})
               (bind (advance j Needs_Attention (counted\<lparr>to_failure_code := Some failure_code,
                        to_recovery_evidence := Some (Reason_Note failure_code)\<rparr>)) (\<lambda>_. ret ()))
               (\<lambda>_. ret ()))) js)
         (andthen (fail_bundle_recovery (be_ordinal env) ''RECOVERY_NEEDS_ATTENTION'') (ret D_Needs_Attention)))"

section \<open>Taking a publication back\<close>

definition compensation_refusal :: "journal_paths \<Rightarrow> four_evidence \<Rightarrow> string option" where
  "compensation_refusal v ev =
     (let j = jp_journal v; (source, temporary, backup, destination) = ev in
      case (if is_recycle_mutation j then
              (if \<not> (exact backup (jr_source_fingerprint j)
                     \<or> backup = Ev_Missing \<and> exact source (jr_source_fingerprint j))
               then Some ''RECOVERY_ORIGINAL_FINGERPRINT_AMBIGUOUS''
               else if \<not> (destination = Ev_Missing \<or> exact destination (jr_staged_fingerprint j))
               then Some ''RECOVERY_DESTINATION_CHANGED'' else None)
            else if same_path v then
              (if \<not> (exact backup (jr_source_fingerprint j)
                     \<or> backup = Ev_Missing \<and> exact destination (jr_source_fingerprint j))
               then Some ''RECOVERY_ORIGINAL_FINGERPRINT_AMBIGUOUS''
               else if \<not> (destination = Ev_Missing \<or> exact destination (jr_staged_fingerprint j)
                          \<or> exact destination (jr_source_fingerprint j))
               then Some ''RECOVERY_DESTINATION_CHANGED'' else None)
            else
              (if jp_source v \<noteq> None \<and> \<not> exact source (jr_source_fingerprint j)
               then Some ''RECOVERY_ORIGINAL_FINGERPRINT_AMBIGUOUS''
               else if \<not> (destination = Ev_Missing \<or> exact destination (jr_staged_fingerprint j))
               then Some ''RECOVERY_DESTINATION_CHANGED''
               else if backup \<noteq> Ev_Missing then Some ''RECOVERY_UNEXPECTED_BACKUP'' else None)) of
        Some r \<Rightarrow> Some r
      | None \<Rightarrow> if unreadable temporary then Some ''RECOVERY_TEMP_FINGERPRINT_AMBIGUOUS'' else None)"

definition inspect_for_compensation :: "journal_paths \<Rightarrow> (world, four_evidence) io" where
  "inspect_for_compensation v =
     bind (inspect (jp_source v)) (\<lambda>source. bind (inspect_kind (jp_temporary v)) (\<lambda>temporary.
     bind (inspect (jp_backup v)) (\<lambda>backup. bind (inspect (Some (jp_destination v))) (\<lambda>destination.
       ret (source, temporary, backup, destination)))))"

definition preflight_compensation :: "journal_paths list \<Rightarrow> (world, unit) io" where
  "preflight_compensation paths =
     io_each (\<lambda>v. when_true (\<not> terminal_state (jr_state (jp_journal v)))
       (bind (inspect_for_compensation v) (\<lambda>ev. refuse (compensation_refusal v ev)))) paths"

definition note_reason :: "string \<Rightarrow> transition_options" where
  "note_reason reason = counted\<lparr>to_recovery_evidence := Some (Reason_Note reason)\<rparr>"

definition transition_rollback_pending :: "string \<Rightarrow> journal_paths list \<Rightarrow> (world, journal_paths list) io" where
  "transition_rollback_pending reason paths =
     io_map (\<lambda>v.
       if terminal_state (jr_state (jp_journal v)) \<or> jr_state (jp_journal v) = Rollback_Pending then ret v
       else bind (advance (jp_journal v) Rollback_Pending (note_reason reason)) (\<lambda>j. ret (v\<lparr>jp_journal := j\<rparr>))) paths"

definition restore_original :: "roots \<Rightarrow> journal_paths \<Rightarrow> (world, unit) io" where
  "restore_original roots v =
     (let j = jp_journal v in
      when_true (jr_state j = Rollback_Pending)
        (bind (inspect_for_compensation v) (\<lambda>(source, temporary, backup, destination).
           andthen
             (if is_recycle_mutation j then
                andthen (when_true (exact destination (jr_staged_fingerprint j)) (unlink_name roots (jr_destination j) False))
                  (when_true (exact backup (jr_source_fingerprint j)) (replace_names roots (jr_backup j) (jr_source j)))
              else if same_path v then
                when_true (exact backup (jr_source_fingerprint j))
                  (andthen (when_true (exact destination (jr_staged_fingerprint j)) (unlink_name roots (jr_destination j) False))
                     (replace_names roots (jr_backup j) (jr_destination j)))
              else when_true (exact destination (jr_staged_fingerprint j)) (unlink_name roots (jr_destination j) False))
             (when_true (temporary = Ev_Regular None \<and> jp_temporary v \<noteq> None)
                (unlink_name roots (jr_temporary j) False)))))"

definition restore_originals :: "roots \<Rightarrow> journal_paths list \<Rightarrow> (world, unit) io" where
  "restore_originals roots paths = io_each (restore_original roots) (rev paths)"

definition compensate_locked :: "bundle_env \<Rightarrow> journal list \<Rightarrow> string \<Rightarrow> journal_paths list \<Rightarrow> (world, recovery_result) io" where
  "compensate_locked env js reason paths =
     andthen (affected_roots js)
    (andthen (preflight_compensation paths)
       (bind (transition_rollback_pending reason paths) (\<lambda>current.
          andthen (restore_originals (be_roots env) current)
         (andthen
            (io_each (\<lambda>v. when_true (jr_state (jp_journal v) = Rollback_Pending)
               (bind (advance (jp_journal v) Rolled_Back (note_reason reason)) (\<lambda>_. ret ()))) current)
         (andthen (fail_bundle_recovery (be_ordinal env) ''RECOVERY_ROLLED_BACK'') (ret D_Rolled_Back))))))"

definition reason_of :: "io_failure \<Rightarrow> string" where
  "reason_of e = (case e of Uncertain r \<Rightarrow> r | _ \<Rightarrow> ''RECOVERY_INTERNAL_ERROR'')"

definition compensate_bundle :: "bundle_env \<Rightarrow> journal list \<Rightarrow> string \<Rightarrow> (world, recovery_result) io" where
  "compensate_bundle env js reason =
     (if list_all (\<lambda>j. terminal_state (jr_state j)) js
      then andthen (fail_bundle_recovery (be_ordinal env) ''RECOVERY_ROLLED_BACK'') (ret D_Rolled_Back)
      else bind (attempt_io expected_failure
                  (andthen (must_hold (be_policy_current env)) (resolve_paths (be_roots env) js))) (\<lambda>r.
        case r of
          Inl _ \<Rightarrow> attention_bundle env ''RECOVERY_COMPENSATION_CONFIGURATION_STALE''
        | Inr paths \<Rightarrow>
            handle is_uncertain (compensate_locked env js reason paths) (\<lambda>e. attention_bundle env (reason_of e))))"

section \<open>The recovery of one bundle\<close>

definition complete_bundle :: "bundle_env \<Rightarrow> journal list \<Rightarrow> bool" where
  "complete_bundle env js \<longleftrightarrow>
     set (map jr_plan_item_ordinal (filter (\<lambda>j. jr_subject_kind j = Audio) js)) = set (be_item_ordinals env)"

definition rebuild_mutations :: "bundle_env \<Rightarrow> journal_paths list \<Rightarrow> (world, catalog_mutation list) io" where
  "rebuild_mutations env paths =
     io_map (\<lambda>v. bind (io_reads (\<lambda>w. be_rebuild env w (jp_journal v))) lift_result)
       (filter (\<lambda>v. jr_subject_kind (jp_journal v) = Audio) paths)"

definition finish_locked :: "bundle_env \<Rightarrow> journal list \<Rightarrow> journal_paths list \<Rightarrow> (world, recovery_result) io" where
  "finish_locked env js paths =
     andthen (affected_roots js)
       (bind (publish_remaining (be_roots env) paths) (\<lambda>current.
        bind (rebuild_mutations env current) (\<lambda>mutations.
          andthen (commit_bundle (be_accepts env) (be_ordinal env) (be_worker env) mutations)
            (bind list_journals (\<lambda>committed.
             bind (resolve_paths (be_roots env) committed) (\<lambda>committed_paths.
               andthen (cleanup_committed_locked env (be_roots env) committed_paths)
                 (bind (release_recovery_lease (be_worker env)) (\<lambda>_. ret D_Recovered))))))))"

text \<open>The class of the error goes into the reason; the subclasses of \<open>OSError\<close> are not told apart.\<close>

fun error_name :: "io_failure \<Rightarrow> string" where
  "error_name OS_Error = ''OSERROR''"
| "error_name Conflict_Error = ''CONFLICTERROR''"
| "error_name Stale_Revision = ''STALEREVISIONERROR''"
| "error_name Validation_Error = ''VALIDATIONERROR''"
| "error_name _ = ''EXCEPTION''"

definition finish_published_bundle :: "bundle_env \<Rightarrow> journal list \<Rightarrow> (world, recovery_result) io" where
  "finish_published_bundle env js =
     bind (attempt_io expected_failure
             (andthen (must_hold (be_pinned_configuration env))
             (andthen (must_hold (be_policy_current env))
             (andthen (assert_that (complete_bundle env js) Validation_Error)
                (resolve_paths (be_roots env) js))))) (\<lambda>r.
       case r of
         Inl e \<Rightarrow> compensate_bundle env js (''RECOVERY_CONFIGURATION_'' @ error_name e)
       | Inr paths \<Rightarrow>
           handle (\<lambda>e. is_uncertain e \<or> expected_failure e) (finish_locked env js paths) (\<lambda>e.
             if is_uncertain e then attention_bundle env (reason_of e)
             else bind list_journals (\<lambda>current. compensate_bundle env current ''RECOVERY_COMMIT_REJECTED'')))"

definition mark_missing_catalog_destinations :: "journal_paths list \<Rightarrow> (world, unit) io" where
  "mark_missing_catalog_destinations paths =
     io_each (\<lambda>v. case (jr_subject_kind (jp_journal v), jr_local_track_id (jp_journal v)) of
       (Audio, Some track) \<Rightarrow>
         bind (inspect (Some (jp_destination v))) (\<lambda>destination.
           when_true (\<not> exact destination (jr_staged_fingerprint (jp_journal v)))
             (bind (named (jr_destination (jp_journal v))) (\<lambda>(root_id, relative).
                bind (mark_destination_missing track root_id relative) (\<lambda>_. ret ()))))
     | _ \<Rightarrow> ret ()) paths"

definition recover_committed_bundle :: "bundle_env \<Rightarrow> journal list \<Rightarrow> (world, recovery_result) io" where
  "recover_committed_bundle env js =
     bind (attempt_io expected_failure
             (andthen (must_hold (be_policy_current env)) (resolve_paths (be_roots env) js))) (\<lambda>r.
       case r of
         Inl _ \<Rightarrow> attention_bundle env ''RECOVERY_COMMITTED_CONFIGURATION_STALE''
       | Inr paths \<Rightarrow>
           handle is_uncertain
             (andthen (affected_roots js)
             (andthen (cleanup_committed_locked env (be_roots env) paths)
                (bind settle_recovery_job (\<lambda>_. ret D_Recovered))))
             (\<lambda>e. andthen
                (when_true (e = Uncertain ''RECOVERY_COMMITTED_DESTINATION_MISSING''
                            \<or> e = Uncertain ''RECOVERY_COMMITTED_DESTINATION_CHANGED'')
                   (mark_missing_catalog_destinations paths))
                (attention_bundle env (reason_of e))))"

definition resume_prepared_bundle :: "bundle_env \<Rightarrow> journal list \<Rightarrow> (world, recovery_result) io" where
  "resume_prepared_bundle env js =
     bind (attempt_io expected_failure (publish_bundle env)) (\<lambda>r.
       case r of
         Inl _ \<Rightarrow> bind list_journals (\<lambda>current.
             compensate_bundle env (if current = [] then js else current) ''RECOVERY_RESUME_STALE'')
       | Inr _ \<Rightarrow> bind (release_recovery_lease (be_worker env)) (\<lambda>_. ret D_Recovered))"

definition precommit_state :: "journal_state \<Rightarrow> bool" where
  "precommit_state s \<longleftrightarrow>
     s \<in> {Planned, Snapshot_Saved, Staged, Validated, Source_Backed_Up, Published, Rollback_Pending, Rolled_Back}"

definition recover_bundle :: "bundle_env \<Rightarrow> bool \<Rightarrow> (world, recovery_result) io" where
  "recover_bundle env forced =
     bind list_journals (\<lambda>js.
       if list_all (\<lambda>j. terminal_state (jr_state j)) js then ret D_Skipped
       else bind (transaction (\<lambda>w. (Done (phase_of w), w))) (\<lambda>snapshot.
         if snapshot = None \<or> be_item_ordinals env = [] then attention_bundle env ''RECOVERY_DURABLE_STATE_MISSING''
         else if list_ex (\<lambda>j. committed_state (jr_state j)) js then
           (if list_ex (\<lambda>j. \<not> committed_state (jr_state j)) js then attention_bundle env ''RECOVERY_MIXED_COMMIT_STATE''
            else recover_committed_bundle env js)
         else if list_ex (\<lambda>j. \<not> precommit_state (jr_state j)) js then attention_bundle env ''RECOVERY_UNKNOWN_STATE''
         else if list_ex (\<lambda>j. jr_state j \<in> {Rollback_Pending, Rolled_Back}) js
         then compensate_bundle env js ''RECOVERY_RESUME_COMPENSATION''
         else bind (transaction (\<lambda>w. (Done (job w), w))) (\<lambda>jb.
           if (case jb of None \<Rightarrow> True
               | Some b \<Rightarrow> oj_state b \<in> {J_Paused, J_Stopped, J_Failed, J_Cancelled, J_Succeeded})
           then compensate_bundle env js ''RECOVERY_OPERATION_NOT_RESUMABLE''
           else bind (claim_for_recovery (be_ordinal env) (be_worker env) (be_now env) RECOVERY_LEASE_SECONDS forced)
             (\<lambda>claimed.
               if \<not> claimed then
                 (if forced then attention_bundle env ''RECOVERY_OPERATION_STATE_MISMATCH'' else ret D_Skipped)
               else if list_all (\<lambda>j. jr_state j \<in> {Planned, Snapshot_Saved, Staged, Validated}) js
                       \<and> list_ex (\<lambda>j. jr_state j \<noteq> Validated) js
               then resume_prepared_bundle env js
               else finish_published_bundle env js))))"

text \<open>One turn of \<open>recover_once\<close>: whatever else goes wrong is left to a person.\<close>

definition recover_turn :: "bundle_env \<Rightarrow> bool \<Rightarrow> (world, recovery_result) io" where
  "recover_turn env forced =
     handle (\<lambda>_. True) (recover_bundle env forced) (\<lambda>_. attention_bundle env ''RECOVERY_INTERNAL_ERROR'')"

end
