(* ===== verification/Step_Relations.thy ===== *)
theory Step_Relations
  imports Management_Recovery
begin

text \<open>
  What publication and recovery keep wherever they fail or are cut off. A relation between the world
  before and the world after that every single step respects is respected by whole runs; this is
  proved once, in a locale, for all relations. Three of them are read off at the end: the journals move
  along the table of transitions, the catalog changes with the commit or not at all, and a bundle
  is counted once.
\<close>

named_theorems keeps_rules \<open>how operations keep a relation\<close>

definition keeps :: "('w \<Rightarrow> 'w \<Rightarrow> bool) \<Rightarrow> ('w, 'a) io \<Rightarrow> bool" where
  "keeps R m \<longleftrightarrow> (\<forall>w. R w (snd (m w)))"

lemma keepsI: "(\<And>w. R w (snd (m w))) \<Longrightarrow> keeps R m"
  by (simp add: keeps_def)

lemma keepsD: "keeps R m \<Longrightarrow> m w = (r, w') \<Longrightarrow> R w w'"
  by (metis keeps_def snd_conv)

lemma keeps_cases [keeps_rules]:
  "(b \<Longrightarrow> keeps R m) \<Longrightarrow> (\<not> b \<Longrightarrow> keeps R n) \<Longrightarrow> keeps R (if b then m else n)"
  "(v = None \<Longrightarrow> keeps R m) \<Longrightarrow> (\<And>x. v = Some x \<Longrightarrow> keeps R (f x))
    \<Longrightarrow> keeps R (case v of None \<Rightarrow> m | Some x \<Rightarrow> f x)"
  "(\<And>x. s = Inl x \<Longrightarrow> keeps R (g x)) \<Longrightarrow> (\<And>y. s = Inr y \<Longrightarrow> keeps R (h y))
    \<Longrightarrow> keeps R (case s of Inl x \<Rightarrow> g x | Inr y \<Rightarrow> h y)"
  "(\<And>x y. p = (x, y) \<Longrightarrow> keeps R (k x y)) \<Longrightarrow> keeps R (case p of (x, y) \<Rightarrow> k x y)"
  "(l = [] \<Longrightarrow> keeps R m) \<Longrightarrow> (\<And>x xs. l = x # xs \<Longrightarrow> keeps R (q x xs))
    \<Longrightarrow> keeps R (case l of [] \<Rightarrow> m | x # xs \<Rightarrow> q x xs)"
  by (auto split: option.splits sum.splits prod.splits list.splits)

lemma keeps_kind [keeps_rules]:
  "(a = Audio \<Longrightarrow> keeps R m) \<Longrightarrow> (a = Sidecar \<Longrightarrow> keeps R n) \<Longrightarrow> (a = External_Art \<Longrightarrow> keeps R k)
    \<Longrightarrow> keeps R (case a of Audio \<Rightarrow> m | Sidecar \<Rightarrow> n | External_Art \<Rightarrow> k)"
  by (cases a) auto

section \<open>Relations that the steps respect\<close>

text \<open>A relation that does not look at the files, the memory of the process or the hazards.\<close>

locale disk_relation =
  fixes R :: "world \<Rightarrow> world \<Rightarrow> bool"
  assumes refl: "R w w"
    and trans: "R u v \<Longrightarrow> R v w \<Longrightarrow> R u w"
    and scratch: "journals w' = journals w \<Longrightarrow> job w' = job w \<Longrightarrow> works w' = works w \<Longrightarrow> tracks w' = tracks w
      \<Longrightarrow> phase_of w' = phase_of w \<Longrightarrow> R w w'"
begin

lemma keeps_pure [keeps_rules]: "keeps R (ret a)" "keeps R (throw e)" "keeps R (io_reads f)"
  by (auto simp: keeps_def ret_def throw_def io_reads_def refl)

lemma keeps_checks [keeps_rules]: "keeps R (assert_that b e)" "keeps R (lift_result r)"
  by (auto simp: assert_that_def lift_result_def intro!: keeps_rules)

lemma keeps_bind [keeps_rules]: "keeps R m \<Longrightarrow> (\<And>a. keeps R (f a)) \<Longrightarrow> keeps R (bind m f)"
proof (rule keepsI)
  fix w
  assume m: "keeps R m" and f: "\<And>a. keeps R (f a)"
  obtain r w' where r: "m w = (r, w')" by (cases "m w")
  have "R w w'" using m r by (rule keepsD)
  moreover have "R w' (snd (f a w'))" for a using f by (simp add: keeps_def)
  ultimately show "R w (snd (bind m f w))" using trans by (cases r) (simp_all add: bind_def r)
qed

lemma keeps_andthen [keeps_rules]: "keeps R m \<Longrightarrow> keeps R n \<Longrightarrow> keeps R (andthen m n)"
  by (simp add: andthen_def keeps_bind)

lemma keeps_handle [keeps_rules]: "keeps R m \<Longrightarrow> (\<And>e. keeps R (h e)) \<Longrightarrow> keeps R (handle p m h)"
proof (rule keepsI)
  fix w
  assume m: "keeps R m" and f: "\<And>a. keeps R (h a)"
  obtain r w' where r: "m w = (r, w')" by (cases "m w")
  have "R w w'" using m r by (rule keepsD)
  moreover have "R w' (snd (h a w'))" for a using f by (simp add: keeps_def)
  ultimately show "R w (snd (handle p m h w))" using trans by (cases r) (simp_all add: handle_def r)
qed

lemma keeps_when_true [keeps_rules]: "(b \<Longrightarrow> keeps R m) \<Longrightarrow> keeps R (when_true b m)"
  by (auto simp: when_true_def keeps_pure)

lemma keeps_attempt [keeps_rules]: "keeps R m \<Longrightarrow> keeps R (attempt_io p m)"
  by (auto simp: attempt_io_def intro!: keeps_rules)

lemma keeps_io_each [keeps_rules]: "(\<And>x. keeps R (f x)) \<Longrightarrow> keeps R (io_each f xs)"
  by (induction xs) (auto intro!: keeps_rules)

lemma keeps_io_map [keeps_rules]: "(\<And>x. keeps R (f x)) \<Longrightarrow> keeps R (io_map f xs)"
  by (induction xs) (auto intro!: keeps_rules)

lemma hazards_only: "R w (w\<lparr>hazards := hs\<rparr>)"
  by (rule scratch) simp_all

lemma keeps_effect [keeps_rules]: "(\<And>w. R w (snd (f w))) \<Longrightarrow> keeps R (effect x f)"
  by (rule keepsI) (auto simp: effect_def hazards_only split: list.splits hazard.splits intro: trans [OF hazards_only])

lemma keeps_transaction [keeps_rules]: "(\<And>w. R w (snd (f w))) \<Longrightarrow> keeps R (transaction f)"
  unfolding transaction_def by (rule keeps_effect)

subsection \<open>The disk\<close>

lemma nodes_only: "R w (w\<lparr>nodes := ns\<rparr>)"
  by (rule scratch) simp_all

lemmas disk_kept = nodes_only refl

lemma keeps_replace [keeps_rules]: "keeps R (replace_rooted roots a b)"
  unfolding replace_rooted_def
  by (rule keeps_effect)
    (auto simp: os_replace_def moved_tree_def put_def take_away_def disk_kept split: option.splits sum.splits node.splits)

lemma keeps_unlink_at: "R w (snd (os_unlink p m w))"
  by (auto simp: os_unlink_def take_away_def disk_kept split: option.splits node.splits)

lemma keeps_unlink [keeps_rules]: "keeps R (unlink_rooted roots a m)"
  unfolding unlink_rooted_def
  by (rule keeps_effect) (auto simp: keeps_unlink_at refl split: sum.splits)

lemma keeps_copy [keeps_rules]: "keeps R (copy_rooted roots a b)"
  unfolding copy_rooted_def
  by (auto intro!: keeps_rules keeps_unlink_at simp: disk_kept put_def split: option.splits sum.splits node.splits)

lemma keeps_inspect [keeps_rules]: "keeps R (inspect p)" "keeps R (inspect_kind p)" "keeps R (hash_file q)" "keeps R (occupied q)"
  "keeps R (stat_file q)"
  by (auto simp: inspect_def inspect_kind_def hash_file_def occupied_def stat_file_def refl intro!: keeps_rules
      split: option.splits node.splits)

lemma keeps_remove_upwards: "keeps R (remove_upwards n base p)"
proof (induction n arbitrary: p)
  case (Suc n)
  have "keeps R (effect (Raised OS_Error) (os_rmdir p))"
    by (rule keeps_effect) (auto simp: os_rmdir_def take_away_def disk_kept)
  then show ?case using Suc by (auto intro!: keeps_rules)
qed (simp add: keeps_pure)

lemma keeps_remove_directories [keeps_rules]: "keeps R (remove_empty_directories ds)"
  unfolding remove_empty_directories_def by (auto intro!: keeps_rules keeps_remove_upwards)

subsection \<open>Reading, and the files of a bundle\<close>

lemma keeps_list [keeps_rules]: "keeps R list_journals"
  by (auto simp: list_journals_def refl intro!: keeps_rules)

lemma keeps_memory [keeps_rules]: "keeps R (remember i f)" "keeps R (modifies (\<lambda>w. w\<lparr>memory := g w\<rparr>))"
  by (auto simp: remember_def keeps_def modifies_def intro!: scratch)

lemma keeps_read_only [keeps_rules]:
  "keeps R (must_hold f)" "keeps R (named n)" "keeps R (prepared_at i)" "keeps R (recheck_name roots n e)"
  "keeps R (check_siblings u s rs d)"
  by (auto simp: must_hold_def named_def prepared_at_def recheck_name_def check_siblings_def refl Let_def intro!: keeps_rules
      split: option.splits sum.splits)

lemma keeps_recheck [keeps_rules]: "keeps R (recheck_prepared env)"
  by (auto simp: recheck_prepared_def recheck_mutation_def check_free_def check_hash_def Let_def intro!: keeps_rules)

lemma keeps_collisions [keeps_rules]: "keeps R (record_late_collisions env)"
  by (auto simp: record_late_collisions_def refl intro!: keeps_rules scratch)

lemma keeps_names [keeps_rules]: "keeps R (replace_names roots a b)" "keeps R (unlink_name roots a m)"
  by (auto simp: replace_names_def unlink_name_def intro!: keeps_rules)

lemma keeps_resolve [keeps_rules]: "keeps R (resolve_paths roots js)"
  by (auto simp: resolve_paths_def resolve_journal_def required_path_def optional_path_def refl Let_def intro!: keeps_rules
      split: option.splits)

lemma keeps_paths [keeps_rules]: "keeps R (inspect_paths v)" "keeps R (inspect_for_compensation v)" "keeps R (affected_roots js)"
  "keeps R (refuse r)"
  by (auto simp: inspect_paths_def inspect_for_compensation_def affected_roots_def refuse_def intro!: keeps_rules)

lemma keeps_verify [keeps_rules]: "keeps R (verify_committed roots v)"
  by (auto simp: verify_committed_def restore_committed_destination_def journal_path_identity_def check_free_def Let_def refl
      intro!: keeps_rules)

lemma keeps_preflight [keeps_rules]: "keeps R (preflight_publish vs)" "keeps R (preflight_compensation vs)"
  by (auto simp: preflight_publish_def preflight_compensation_def intro!: keeps_rules)

lemma keeps_restore [keeps_rules]: "keeps R (restore_originals roots vs)"
  by (auto simp: restore_originals_def restore_original_def Let_def intro!: keeps_rules)

lemma keeps_rebuild [keeps_rules]: "keeps R (rebuild_mutations env vs)"
  by (auto simp: rebuild_mutations_def intro!: keeps_rules)

end

text \<open>
  \<open>ordinal\<close> is the bundle at hand. Only the commit writes \<open>catalog_committed\<close>, whatever the table allows.
\<close>

definition active :: "nat \<Rightarrow> world \<Rightarrow> bool" where
  "active ordinal w \<longleftrightarrow> dict_get (works w) ordinal \<in> {Some W_Pending, Some W_Running}"

definition failed_world :: "nat \<Rightarrow> string \<Rightarrow> world \<Rightarrow> world" where
  "failed_world ordinal code w =
     (let one = (if active ordinal w then 1 else 0);
          w' = (if active ordinal w then w\<lparr>works := dict_set (works w) ordinal W_Failed\<rparr> else w)
      in w'\<lparr>job := map_option (\<lambda>jb. jb\<lparr>
           oj_state := J_Failed, oj_terminal_code := Some code, oj_lease_owner := None, oj_lease_expires_at := None,
           oj_completed_count := oj_completed_count jb + one, oj_failed_count := oj_failed_count jb + one\<rparr>) (job w')\<rparr>)"

text \<open>The job changes its state and its lease, not its counts.\<close>

definition same_counts :: "operation_job \<Rightarrow> operation_job \<Rightarrow> bool" where
  "same_counts a b \<longleftrightarrow>
     oj_completed_count a = oj_completed_count b \<and> oj_succeeded_count a = oj_succeeded_count b
     \<and> oj_failed_count a = oj_failed_count b"

locale step_relation = disk_relation R for R +
  fixes ordinal :: nat
  assumes row_moves: "row w (jr_id j) = Some j \<Longrightarrow> t \<in> set (journal_transitions (jr_state j))
      \<Longrightarrow> t \<noteq> Catalog_Committed \<Longrightarrow> R w (set_row w (moved_row opts t j))"
    and job_moves: "job w = Some jb \<Longrightarrow> same_counts jb jb' \<Longrightarrow> R w (w\<lparr>job := Some jb'\<rparr>)"
    and work_starts: "active ordinal w \<Longrightarrow> R w (w\<lparr>works := dict_set (works w) ordinal W_Running\<rparr>)"
    and work_fails: "R w (failed_world ordinal code w)"
    and track_vanishes: "dict_get (tracks w) i = Some ct \<Longrightarrow> R w (w\<lparr>tracks := dict_set (tracks w) i (ct\<lparr>ct_indexed := False\<rparr>)\<rparr>)"
    and bundle_commits: "job w = Some jb \<Longrightarrow> dict_get (works w) ordinal = Some W_Running
      \<Longrightarrow> journals w \<noteq> [] \<Longrightarrow> list_all (\<lambda>j. jr_state j = Published) (journals w)
      \<Longrightarrow> R w (committed_world ordinal mutations jb w)"
begin

subsection \<open>The durable state\<close>

lemma keeps_transition [keeps_rules]:
  assumes "t \<noteq> Catalog_Committed"
  shows "keeps R (transition_journal j s r t opts)" "keeps R (advance j t opts)"
proof -
  have row: "R w (set_row w (moved_row opts t k))"
    if "row w i = Some k" "t \<in> set (journal_transitions (jr_state k))" for w i k
  proof -
    have "jr_id k = i" using that(1) by (auto simp: row_def find_Some_iff)
    then show ?thesis using row_moves [of w k t opts] that assms by simp
  qed
  have "keeps R (transition_journal j s r t opts)" for s r
  proof (cases "t \<in> set (journal_transitions s)")
    case True
    then show ?thesis
      unfolding transition_journal_def
      by (auto intro!: keeps_rules row simp: refl split: option.splits)
  next
    case False
    then show ?thesis
      by (auto simp: transition_journal_def keeps_def andthen_def bind_def assert_that_def throw_def refl)
  qed
  then show "keeps R (transition_journal j s r t opts)" "keeps R (advance j t opts)"
    by (simp_all add: advance_def)
qed

lemma keeps_claim: "keeps R (claim_for_recovery ordinal worker now lease forced)"
proof -
  have "R w (w\<lparr>job := Some jb', works := dict_set (works w) ordinal W_Running\<rparr>)"
    if "active ordinal w" "job w = Some jb" "same_counts jb jb'" for w jb jb'
    using trans [OF job_moves [OF that(2,3)] work_starts [of "w\<lparr>job := Some jb'\<rparr>"]] that(1) by (simp add: active_def)
  then show ?thesis
    unfolding claim_for_recovery_def
    by (auto intro!: keeps_rules simp: refl active_def same_counts_def split: option.splits)
qed

lemma keeps_settle [keeps_rules]: "keeps R (release_recovery_lease worker)" "keeps R settle_recovery_job"
proof -
  have "R w (w\<lparr>job := Some (ended_job w jb)\<rparr>)" if "job w = Some jb" for w jb
    using job_moves [OF that] by (simp add: same_counts_def ended_job_def)
  then show "keeps R (release_recovery_lease worker)" "keeps R settle_recovery_job"
    unfolding release_recovery_lease_def settle_recovery_job_def
    by (auto intro!: keeps_rules job_moves simp: refl same_counts_def split: option.splits)
qed

lemma keeps_fail: "keeps R (fail_bundle_recovery ordinal code)"
proof -
  have "R w (snd (case dict_get (works w) ordinal of
        None \<Rightarrow> (Done (), w)
      | Some wk \<Rightarrow>
          let was_active = (wk \<in> {W_Pending, W_Running});
              one = (if was_active then 1 else 0);
              w' = (if was_active then w\<lparr>works := dict_set (works w) ordinal W_Failed\<rparr> else w)
          in (Done (), w'\<lparr>job := map_option (\<lambda>jb. jb\<lparr>
                 oj_state := J_Failed, oj_terminal_code := Some code, oj_lease_owner := None,
                 oj_lease_expires_at := None,
                 oj_completed_count := oj_completed_count jb + one,
                 oj_failed_count := oj_failed_count jb + one\<rparr>) (job w')\<rparr>)))" for w
    using work_fails [of w code]
    by (cases "dict_get (works w) ordinal") (auto simp: refl failed_world_def active_def Let_def)
  then show ?thesis unfolding fail_bundle_recovery_def by (rule keeps_transaction)
qed

lemma keeps_missing [keeps_rules]: "keeps R (mark_destination_missing i r p)"
  unfolding mark_destination_missing_def
  by (auto intro!: keeps_rules track_vanishes simp: refl split: option.splits)

lemma keeps_commit: "keeps R (commit_bundle accepts ordinal worker ms)"
  unfolding commit_bundle_def
  by (auto intro!: keeps_rules bundle_commits simp: refl list_all_iff list_ex_iff split: option.splits)

lemma keeps_bundle [keeps_rules]:
  "n = ordinal \<Longrightarrow> keeps R (claim_for_recovery n worker now lease forced)"
  "n = ordinal \<Longrightarrow> keeps R (fail_bundle_recovery n code)"
  "n = ordinal \<Longrightarrow> keeps R (commit_bundle accepts n worker ms)"
  by (simp_all add: keeps_claim keeps_fail keeps_commit)

subsection \<open>The publisher\<close>

lemma keeps_publish_one [keeps_rules]: "keeps R (publish_one roots i)"
  by (auto simp: publish_one_def back_up_source_def mark_published_def remember_journal_def intro!: keeps_rules)

lemma keeps_rollback [keeps_rules]: "keeps R (rollback roots)"
  by (auto simp: rollback_def rollback_one_def restore_prepared_def give_up_def remember_journal_def intro!: keeps_rules)

lemma keeps_cleanup [keeps_rules]: "keeps R (clean_up_committed roots)" "keeps R (remove_unpublished_temporaries roots)"
  by (auto simp: clean_up_committed_def clean_up_one_def clean_up_files_def remember_journal_def Let_def
      remove_unpublished_temporaries_def intro!: keeps_rules split: option.splits bool.splits prod.splits)

lemma keeps_publish_critical [keeps_rules]:
  "be_ordinal env = ordinal \<Longrightarrow> keeps R (publish_critical_section env)"
  by (auto simp: publish_critical_section_def publish_all_def commit_prepared_def intro!: keeps_rules)

lemma keeps_publish_bundle [keeps_rules]:
  "be_ordinal env = ordinal \<Longrightarrow> keeps R (be_prepare env) \<Longrightarrow> keeps R (publish_bundle env)"
  by (auto simp: publish_bundle_def with_rollback_def refl intro!: keeps_rules)

subsection \<open>The recovery\<close>

lemma keeps_publish_remaining [keeps_rules]: "keeps R (publish_remaining roots vs)"
  by (auto simp: publish_remaining_def preflight_publish_def publish_remaining_one_def publish_validated_def
      back_up_remaining_def publish_backed_up_def Let_def intro!: keeps_rules)

lemma keeps_attention [keeps_rules]: "be_ordinal env = ordinal \<Longrightarrow> keeps R (attention_bundle env code)"
  by (auto simp: attention_bundle_def intro!: keeps_rules)

lemma keeps_cleanup_locked [keeps_rules]: "keeps R (cleanup_committed_locked env roots vs)"
  by (auto simp: cleanup_committed_locked_def clean_up_recovered_def Let_def intro!: keeps_rules)

lemma keeps_locked [keeps_rules]:
  "be_ordinal env = ordinal \<Longrightarrow> keeps R (compensate_locked env js reason vs)"
  "be_ordinal env = ordinal \<Longrightarrow> keeps R (finish_locked env js vs)"
  by (auto simp: compensate_locked_def transition_rollback_pending_def finish_locked_def intro!: keeps_rules)

lemma keeps_compensate [keeps_rules]: "be_ordinal env = ordinal \<Longrightarrow> keeps R (compensate_bundle env js reason)"
  by (auto simp: compensate_bundle_def intro!: keeps_rules)

lemma keeps_recover_bundle [keeps_rules]:
  "be_ordinal env = ordinal \<Longrightarrow> keeps R (be_prepare env) \<Longrightarrow> keeps R (recover_bundle env forced)"
  by (auto simp: recover_bundle_def recover_committed_bundle_def mark_missing_catalog_destinations_def
      resume_prepared_bundle_def finish_published_bundle_def finish_locked_def rebuild_mutations_def refl
      intro!: keeps_rules)

lemma keeps_recover_turn:
  "be_ordinal env = ordinal \<Longrightarrow> keeps R (be_prepare env) \<Longrightarrow> keeps R (recover_turn env forced)"
  by (auto simp: recover_turn_def intro!: keeps_rules)

end

end
