(* ===== verification/Bundle_Examples.thy ===== *)
theory Bundle_Examples
  imports Management_Recovery
begin

text \<open>
  A bundle of one track that goes to the recycle folder, as the planner makes it for a duplicate: the
  original is kept under a hidden backup name beside it until the bundle is committed.
\<close>

definition ex_name :: "string \<Rightarrow> string \<Rightarrow> rooted_name" where
  "ex_name r p = (Some (lit r), Some (lit p))"

definition ex_place :: "string \<Rightarrow> string \<Rightarrow> location" where
  "ex_place r p = [lit r, lit p]"

definition ex_dir :: "string \<Rightarrow> location" where
  "ex_dir r = [lit r]"

definition ex_row :: journal where
  "ex_row = \<lparr>jr_id = lit ''j'', jr_plan_item_ordinal = 0, jr_subject_kind = Audio, jr_subject_key = lit ''t'',
     jr_state = Validated, jr_local_track_id = Some (lit ''t''),
     jr_source = ex_name ''lib'' ''a'', jr_temporary = ex_name ''bin'' ''t'', jr_backup = ex_name ''lib'' ''b'',
     jr_destination = ex_name ''bin'' ''d'',
     jr_source_fingerprint = Some [7], jr_staged_fingerprint = Some [7], jr_attempts = 0, jr_failure_code = None,
     jr_recovery_evidence = Mutation_Note ''recycle'', jr_row_revision = 4\<rparr>"

definition ex_catalog_mutation :: catalog_mutation where
  "ex_catalog_mutation = \<lparr>cm_journal_id = lit ''j'', cm_plan_item_ordinal = 0, cm_local_track_id = lit ''t'',
     cm_destination_root_id = lit ''bin'', cm_destination_relative_path = lit ''d'', cm_recycle_only = True\<rparr>"

definition ex_prepared :: prepared_mutation where
  "ex_prepared = \<lparr>pm_journal = ex_row, pm_source = Some (ex_place ''lib'' ''a''), pm_temporary = ex_place ''bin'' ''t'',
     pm_destination = ex_place ''bin'' ''d'', pm_backup = Some (ex_place ''lib'' ''b''),
     pm_source_fingerprint = Some [7], pm_staged_fingerprint = [7], pm_catalog_mutation = Some ex_catalog_mutation,
     pm_published = False, pm_source_backed_up = False, pm_remove_source = True, pm_delete_only = False,
     pm_recycle_move = True\<rparr>"

definition ex_job :: operation_job where
  "ex_job = \<lparr>oj_state = J_Running, oj_lease_owner = Some (lit ''w''), oj_lease_expires_at = Some 10, oj_terminal_code = None,
     oj_completed_count = 0, oj_succeeded_count = 0, oj_failed_count = 0\<rparr>"

text \<open>The original at \<open>lib/a\<close>; its copy is staged at \<open>bin/t\<close> when the bundle is prepared.\<close>

definition ex_world :: "phase \<Rightarrow> world" where
  "ex_world ph = \<lparr>nodes = [(ex_dir ''lib'', Directory), (ex_dir ''bin'', Directory), (ex_place ''lib'' ''a'', Regular [7])],
     sha256_hex = id, hazards = [], journals = [], job = Some ex_job, works = [(0, W_Running)], phase_of = Some ph,
     tracks = [(lit ''t'', \<lparr>ct_root_id = lit ''lib'', ct_relative_path = lit ''a'', ct_indexed = True\<rparr>)],
     collisions = [], memory = []\<rparr>"

definition ex_prepare :: "(world, unit) io" where
  "ex_prepare = modifies (\<lambda>w. (put w (ex_place ''bin'' ''t'') (Regular [7]))\<lparr>journals := [ex_row], memory := [ex_prepared]\<rparr>)"

definition ex_env :: "io_failure option \<Rightarrow> bundle_env" where
  "ex_env refusal = \<lparr>be_unicode = ascii_db, be_worker = lit ''w'', be_now = 0, be_ordinal = 0, be_mode = ''apply'',
     be_cleanup_moves = True, be_remove_empty = False, be_item_ordinals = [0], be_items_eligible = True,
     be_roots = [(lit ''lib'', ex_dir ''lib''), (lit ''bin'', ex_dir ''bin'')],
     be_pinned_configuration = (\<lambda>_. None), be_policy_current = (\<lambda>_. None),
     be_accepts = (\<lambda>_ _. refusal), be_rebuild = (\<lambda>_ _. Inr ex_catalog_mutation), be_prepare = ex_prepare\<rparr>"

text \<open>The bundle after a publication that ended before its \<open>n\<close>-th operation.\<close>

definition ex_interrupted :: "phase \<Rightarrow> nat \<Rightarrow> world" where
  "ex_interrupted ph n =
     (snd (publish_bundle (ex_env None) ((ex_world ph)\<lparr>hazards := replicate n Fine @ [Crash]\<rparr>)))\<lparr>hazards := [], memory := []\<rparr>"

text \<open>The same without preparation.\<close>

definition ex_idle :: "io_failure option \<Rightarrow> bundle_env" where
  "ex_idle refusal = (ex_env refusal)\<lparr>be_prepare := ret ()\<rparr>"

end
