(* ===== verification/Bundle_Histories.thy ===== *)
theory Bundle_Histories
  imports Step_Relations Bundle_Examples
begin

text \<open>
  Histories of one bundle: processes that publish it or recover it, one after another, each of which may
  meet any failures and may end anywhere. What every history keeps.
\<close>

section \<open>Histories\<close>

text \<open>A process begins with an empty memory, and meets the hazards it meets.\<close>

datatype process = Publishes bundle_env "hazard list" | Recovers bundle_env bool "hazard list"

fun environment :: "process \<Rightarrow> bundle_env" where
  "environment (Publishes env _) = env"
| "environment (Recovers env _ _) = env"

fun run_process :: "process \<Rightarrow> world \<Rightarrow> world" where
  "run_process (Publishes env hs) w = snd (publish_bundle env (w\<lparr>hazards := hs, memory := []\<rparr>))"
| "run_process (Recovers env forced hs) w = snd (recover_turn env forced (w\<lparr>hazards := hs, memory := []\<rparr>))"

definition run_history :: "process list \<Rightarrow> world \<Rightarrow> world" where
  "run_history ps w = fold run_process ps w"

text \<open>All of them are about one bundle, and its preparation respects the relation too.\<close>

definition about :: "nat \<Rightarrow> (world \<Rightarrow> world \<Rightarrow> bool) \<Rightarrow> process \<Rightarrow> bool" where
  "about ordinal R p \<longleftrightarrow> be_ordinal (environment p) = ordinal \<and> keeps R (be_prepare (environment p))"

text \<open>A recovery that is cut off and one that ends.\<close>

definition ex_history :: "process list" where
  "ex_history = [Recovers (ex_idle None) True [Fine, Fine, Fine, Fine, Crash], Recovers (ex_idle None) True []]"

context step_relation
begin

lemma about_ex_history: "\<forall>p\<in>set ex_history. about 0 R p"
  by (simp add: ex_history_def about_def ex_idle_def ex_env_def keeps_pure)

lemma process_kept: "about ordinal R p \<Longrightarrow> R w (run_process p w)"
proof -
  assume a: "about ordinal R p"
  have "R w (w\<lparr>hazards := hs, memory := []\<rparr>)" for hs by (rule scratch) simp_all
  moreover have "R v (snd (publish_bundle (environment p) v))" "R v (snd (recover_turn (environment p) forced v))" for v forced
    using a keeps_publish_bundle keeps_recover_turn by (auto simp: about_def keeps_def)
  ultimately show ?thesis using trans by (cases p; simp) (metis environment.simps)+
qed

lemma history_kept: "\<forall>p\<in>set ps. about ordinal R p \<Longrightarrow> R w (run_history ps w)"
  unfolding run_history_def
  by (induction ps arbitrary: w) (auto intro: trans process_kept refl)

end

section \<open>The journals move along the table\<close>

fun along :: "journal_state \<Rightarrow> journal_state list \<Rightarrow> bool" where
  "along s [] \<longleftrightarrow> True"
| "along s (t # ts) \<longleftrightarrow> t \<in> set (journal_transitions s) \<and> along t ts"

definition same_mutation :: "journal \<Rightarrow> journal \<Rightarrow> bool" where
  "same_mutation j k \<longleftrightarrow>
     jr_id k = jr_id j \<and> jr_plan_item_ordinal k = jr_plan_item_ordinal j \<and> jr_subject_kind k = jr_subject_kind j
     \<and> jr_subject_key k = jr_subject_key j \<and> jr_local_track_id k = jr_local_track_id j \<and> jr_source k = jr_source j
     \<and> jr_temporary k = jr_temporary j \<and> jr_backup k = jr_backup j \<and> jr_destination k = jr_destination j
     \<and> jr_source_fingerprint k = jr_source_fingerprint j"

text \<open>Every move costs one revision, and a row that made none is as it was.\<close>

definition moved_along :: "journal_state list \<Rightarrow> journal \<Rightarrow> journal \<Rightarrow> bool" where
  "moved_along ts j k \<longleftrightarrow>
     along (jr_state j) ts \<and> jr_state k = last (jr_state j # ts)
     \<and> jr_row_revision k = jr_row_revision j + int (length ts) \<and> same_mutation j k \<and> (ts = [] \<longrightarrow> k = j)"

definition rows_move :: "world \<Rightarrow> world \<Rightarrow> bool" where
  "rows_move w w' \<longleftrightarrow> (\<forall>i j. row w i = Some j \<longrightarrow> (\<exists>k ts. row w' i = Some k \<and> moved_along ts j k))"

lemma along_append: "along s (ts @ us) \<longleftrightarrow> along s ts \<and> along (last (s # ts)) us"
  by (induction ts arbitrary: s) auto

lemma moved_along_refl: "moved_along [] j j"
  by (simp add: moved_along_def same_mutation_def)

lemma moved_along_trans: "moved_along ts i j \<Longrightarrow> moved_along us j k \<Longrightarrow> moved_along (ts @ us) i k"
  by (auto simp: moved_along_def same_mutation_def along_append)

lemma rows_same: "journals w' = journals w \<Longrightarrow> rows_move w w'"
  using moved_along_refl by (auto simp: rows_move_def row_def)

lemma row_set_row: "row (set_row w k) i = (if i = jr_id k then map_option (\<lambda>_. k) (row w i) else row w i)"
proof -
  have "List.find (\<lambda>j. jr_id j = i) (map (\<lambda>j. if jr_id j = jr_id k then k else j) js) =
      (if i = jr_id k then map_option (\<lambda>_. k) (List.find (\<lambda>j. jr_id j = i) js) else List.find (\<lambda>j. jr_id j = i) js)" for js
    by (induction js) auto
  then show ?thesis by (simp add: row_def set_row_def)
qed

lemma row_committed: "row (committed_world n ms jb w) i = map_option commit_row (row w i)"
proof -
  have "List.find (\<lambda>j. jr_id j = i) (map commit_row js) = map_option commit_row (List.find (\<lambda>j. jr_id j = i) js)" for js
    by (induction js) (auto simp: commit_row_def)
  then show ?thesis by (simp add: row_def committed_world_def)
qed

lemma moved_row_along: "t \<in> set (journal_transitions (jr_state j)) \<Longrightarrow> moved_along [t] j (moved_row opts t j)"
  by (simp add: moved_along_def moved_row_def same_mutation_def)

lemma commit_row_along: "\<exists>ts. moved_along ts j (commit_row j)"
proof (cases "jr_state j = Published")
  case True
  then have "moved_along [Catalog_Committed] j (commit_row j)"
    by (simp add: moved_along_def commit_row_def same_mutation_def)
  then show ?thesis by blast
next
  case False
  then show ?thesis using moved_along_refl by (auto simp: commit_row_def)
qed

interpretation rows: step_relation rows_move ordinal for ordinal
proof
  show "rows_move w w" for w by (rule rows_same) simp
  show "rows_move u w" if "rows_move u v" "rows_move v w" for u v w
    using that unfolding rows_move_def by (meson moved_along_trans)
  show "rows_move w (set_row w (moved_row opts t j))"
    if "row w (jr_id j) = Some j" "t \<in> set (journal_transitions (jr_state j))" "t \<noteq> Catalog_Committed" for w j t opts
    using that moved_row_along [of t j opts] moved_along_refl
    by (auto simp: rows_move_def row_set_row) (auto simp: moved_row_def)
  show "rows_move w (committed_world ordinal ms jb w)" for w ms jb and ordinal :: nat
    by (auto simp: rows_move_def row_committed commit_row_along)
qed (auto intro!: rows_same simp: failed_world_def Let_def)

text \<open>C4. Whatever processes publish and recover a bundle, whatever fails and wherever they end: every row
  of its journal has only made moves of the table of transitions, one per revision, and still describes
  the same mutation. In particular a completed row and one that was left to a person are never touched again.\<close>

theorem journals_follow_the_table:
  assumes "\<forall>p\<in>set ps. about ordinal rows_move p" "row w i = Some j"
  shows "\<exists>k ts. row (run_history ps w) i = Some k \<and> moved_along ts j k
     \<and> (jr_state j \<in> {Completed, Needs_Attention} \<longrightarrow> k = j)"
proof -
  obtain k ts where k: "row (run_history ps w) i = Some k" "moved_along ts j k"
    using rows.history_kept [OF assms(1)] assms(2) unfolding rows_move_def by blast
  moreover have "k = j" if "jr_state j \<in> {Completed, Needs_Attention}"
    using k(2) that by (cases ts) (auto simp: moved_along_def)
  ultimately show ?thesis by blast
qed

theorem journals_follow_the_table_witness:
  "\<exists>k ts. row (run_history ex_history (ex_interrupted Applying 16)) (lit ''j'') = Some k
     \<and> moved_along ts (the (row (ex_interrupted Applying 16) (lit ''j''))) k
     \<and> (jr_state (the (row (ex_interrupted Applying 16) (lit ''j''))) \<in> {Completed, Needs_Attention}
        \<longrightarrow> k = the (row (ex_interrupted Applying 16) (lit ''j'')))"
proof (rule journals_follow_the_table)
  show "\<forall>p\<in>set ex_history. about 0 rows_move p" by (rule rows.about_ex_history)
  have "row (ex_interrupted Applying 16) (lit ''j'') \<noteq> None" by code_simp
  then show "row (ex_interrupted Applying 16) (lit ''j'') = Some (the (row (ex_interrupted Applying 16) (lit ''j'')))" by simp
qed

section \<open>A bundle is committed as a whole\<close>

text \<open>The work of the bundle has succeeded exactly when its rows are committed; attention may come later.\<close>

definition commit_consistent :: "nat \<Rightarrow> world \<Rightarrow> bool" where
  "commit_consistent ordinal w \<longleftrightarrow>
     (if dict_get (works w) ordinal = Some W_Succeeded
      then list_all (\<lambda>j. committed_state (jr_state j) \<or> jr_state j = Needs_Attention) (journals w)
      else list_all (\<lambda>j. \<not> committed_state (jr_state j)) (journals w))"

definition place_in_catalog :: "world \<Rightarrow> pystr \<Rightarrow> (pystr \<times> pystr) option" where
  "place_in_catalog w i = map_option (\<lambda>t. (ct_root_id t, ct_relative_path t)) (dict_get (tracks w) i)"

definition atomic_commit :: "nat \<Rightarrow> world \<Rightarrow> world \<Rightarrow> bool" where
  "atomic_commit ordinal w w' \<longleftrightarrow>
     (commit_consistent ordinal w \<longrightarrow> commit_consistent ordinal w')
     \<and> (dict_get (works w) ordinal = Some W_Succeeded \<longrightarrow> dict_get (works w') ordinal = Some W_Succeeded)
     \<and> (place_in_catalog w' = place_in_catalog w
        \<or> dict_get (works w) ordinal \<noteq> Some W_Succeeded \<and> dict_get (works w') ordinal = Some W_Succeeded)"

lemma atomic_same:
  "journals w' = journals w \<Longrightarrow> works w' = works w \<Longrightarrow> place_in_catalog w' = place_in_catalog w \<Longrightarrow> atomic_commit n w w'"
  by (simp add: atomic_commit_def commit_consistent_def)

lemma active_not_succeeded: "active n w \<Longrightarrow> dict_get (works w) n \<noteq> Some W_Succeeded"
  by (auto simp: active_def)

lemma list_all_set_row:
  "list_all P (journals w) \<Longrightarrow> P j \<Longrightarrow> list_all P (journals (set_row w j))"
  by (auto simp: list_all_iff set_row_def)

lemma committed_moves:
  "t \<in> set (journal_transitions s) \<Longrightarrow> committed_state s \<or> s = Needs_Attention \<Longrightarrow> committed_state t \<or> t = Needs_Attention"
  "t \<in> set (journal_transitions s) \<Longrightarrow> t \<noteq> Catalog_Committed \<Longrightarrow> \<not> committed_state s \<Longrightarrow> \<not> committed_state t"
  by (cases s; auto simp: committed_state_def)+

lemma row_in: "row w i = Some j \<Longrightarrow> j \<in> set (journals w)"
  by (auto simp: row_def find_Some_iff)

lemma work_change_consistent:
  assumes "dict_get (works w) n \<noteq> Some W_Succeeded" "v \<noteq> W_Succeeded"
  shows "atomic_commit n w (w\<lparr>works := dict_set (works w) n v\<rparr>)"
  using assms by (simp add: atomic_commit_def commit_consistent_def place_in_catalog_def fun_eq_iff dict_get_set)

interpretation commits: step_relation "atomic_commit ordinal" ordinal for ordinal
proof
  show "atomic_commit ordinal w w" for w by (rule atomic_same) simp_all
  show "atomic_commit ordinal u w" if "atomic_commit ordinal u v" "atomic_commit ordinal v w" for u v w
    using that unfolding atomic_commit_def by metis
  show "atomic_commit ordinal w (set_row w (moved_row opts t j))"
    if "row w (jr_id j) = Some j" "t \<in> set (journal_transitions (jr_state j))" "t \<noteq> Catalog_Committed" for w j t opts
  proof -
    have "commit_consistent ordinal (set_row w (moved_row opts t j))" if c: "commit_consistent ordinal w"
    proof -
      note m = committed_moves [OF \<open>t \<in> _\<close>] and j = row_in [OF \<open>row w (jr_id j) = Some j\<close>]
      have s: "jr_state (moved_row opts u j) = u" "works (set_row w k) = works w" for u k
        by (simp_all add: moved_row_def set_row_def)
      show ?thesis
        using c m j \<open>t \<noteq> Catalog_Committed\<close>
        by (auto simp: commit_consistent_def s list_all_iff [of _ "journals w"] intro!: list_all_set_row split: if_splits)
    qed
    then show ?thesis by (simp add: atomic_commit_def set_row_def place_in_catalog_def fun_eq_iff)
  qed
  show "atomic_commit ordinal w (failed_world ordinal code w)" for w code
  proof -
    have "atomic_commit ordinal w (if active ordinal w then w\<lparr>works := dict_set (works w) ordinal W_Failed\<rparr> else w)"
      using work_change_consistent [OF active_not_succeeded] by (auto intro: atomic_same)
    then show ?thesis
      by (simp add: failed_world_def Let_def atomic_commit_def commit_consistent_def place_in_catalog_def fun_eq_iff)
  qed
  show "atomic_commit ordinal w (w\<lparr>works := dict_set (works w) ordinal W_Running\<rparr>)" if "active ordinal w" for w
    using active_not_succeeded [OF that] by (rule work_change_consistent) simp
  show "atomic_commit ordinal w (w\<lparr>tracks := dict_set (tracks w) i (ct\<lparr>ct_indexed := False\<rparr>)\<rparr>)"
    if "dict_get (tracks w) i = Some ct" for w i ct
    by (rule atomic_same) (auto simp: place_in_catalog_def fun_eq_iff dict_get_set that)
  show "atomic_commit ordinal w (committed_world ordinal ms jb w)"
    if "dict_get (works w) ordinal = Some W_Running" "list_all (\<lambda>j. jr_state j = Published) (journals w)" for w ms jb
    using that
    by (simp add: atomic_commit_def commit_consistent_def committed_world_def dict_get_set list_all_iff commit_row_def
        committed_state_def)
qed (auto intro!: atomic_same simp: place_in_catalog_def fun_eq_iff)





section \<open>A bundle is counted once\<close>

definition one_if :: "bool \<Rightarrow> nat" where "one_if b = (if b then 1 else 0)"

definition counted_once :: "nat \<Rightarrow> world \<Rightarrow> world \<Rightarrow> bool" where
  "counted_once ordinal w w' \<longleftrightarrow>
     (active ordinal w' \<longrightarrow> active ordinal w)
     \<and> (\<not> active ordinal w \<longrightarrow> dict_get (works w') ordinal = dict_get (works w) ordinal)
     \<and> (\<forall>jb. job w = Some jb \<longrightarrow> (\<exists>jb'. job w' = Some jb'
          \<and> oj_completed_count jb' = oj_completed_count jb + one_if (active ordinal w \<and> \<not> active ordinal w')
          \<and> oj_succeeded_count jb' = oj_succeeded_count jb
              + one_if (active ordinal w \<and> dict_get (works w') ordinal = Some W_Succeeded)
          \<and> oj_failed_count jb' = oj_failed_count jb
              + one_if (active ordinal w \<and> dict_get (works w') ordinal = Some W_Failed)))"

lemma counted_onceD:
  assumes "counted_once n w w'"
  shows "active n w' \<Longrightarrow> active n w"
    "\<not> active n w \<Longrightarrow> dict_get (works w') n = dict_get (works w) n"
proof -
  assume a: "active n w'"
  show "active n w" using assms [unfolded counted_once_def, THEN conjunct1] a by (rule mp)
next
  assume a: "\<not> active n w"
  show "dict_get (works w') n = dict_get (works w) n"
    using assms [unfolded counted_once_def, THEN conjunct2, THEN conjunct1] a by (rule mp)
qed

lemma counted_onceE:
  assumes "counted_once n w w'" "job w = Some jb"
  obtains jb' where "job w' = Some jb'"
    "oj_completed_count jb' = oj_completed_count jb + one_if (active n w \<and> \<not> active n w')"
    "oj_succeeded_count jb' = oj_succeeded_count jb + one_if (active n w \<and> dict_get (works w') n = Some W_Succeeded)"
    "oj_failed_count jb' = oj_failed_count jb + one_if (active n w \<and> dict_get (works w') n = Some W_Failed)"
  using assms(1) [unfolded counted_once_def, THEN conjunct2, THEN conjunct2, rule_format, OF assms(2)]
  by (elim exE conjE)

lemma counted_same: "works w' = works w \<Longrightarrow> job w' = job w \<Longrightarrow> counted_once n w w'"
  by (auto simp: counted_once_def active_def one_if_def)

interpretation counts: step_relation "counted_once ordinal" ordinal for ordinal
proof
  show "counted_once ordinal w w" for w by (rule counted_same) simp_all
  show "counted_once ordinal u w" if uv: "counted_once ordinal u v" and vw: "counted_once ordinal v w" for u v w
  proof -
    note c = counted_onceD [OF uv] counted_onceD [OF vw]
    have later: "one_if (active ordinal u \<and> dict_get (works w) ordinal = Some s) =
        one_if (active ordinal u \<and> dict_get (works v) ordinal = Some s)
        + one_if (active ordinal v \<and> dict_get (works w) ordinal = Some s)" if "s \<in> {W_Succeeded, W_Failed}" for s
    proof (cases "active ordinal v")
      case True
      then have "active ordinal u" using c(1) by blast
      moreover have "dict_get (works v) ordinal \<noteq> Some s" using True that by (auto simp: active_def)
      ultimately show ?thesis using True by (simp add: one_if_def)
    next
      case False
      then have "dict_get (works w) ordinal = dict_get (works v) ordinal" using c(4) by blast
      with False show ?thesis by (simp add: one_if_def)
    qed
    have ended: "one_if (active ordinal u \<and> \<not> active ordinal w) =
        one_if (active ordinal u \<and> \<not> active ordinal v) + one_if (active ordinal v \<and> \<not> active ordinal w)"
      by (cases "active ordinal u"; cases "active ordinal v"; cases "active ordinal w") (use c(1,3) in \<open>simp_all add: one_if_def\<close>)
    have "\<exists>jb'. job w = Some jb'
          \<and> oj_completed_count jb' = oj_completed_count jb + one_if (active ordinal u \<and> \<not> active ordinal w)
          \<and> oj_succeeded_count jb' = oj_succeeded_count jb
              + one_if (active ordinal u \<and> dict_get (works w) ordinal = Some W_Succeeded)
          \<and> oj_failed_count jb' = oj_failed_count jb
              + one_if (active ordinal u \<and> dict_get (works w) ordinal = Some W_Failed)"
      if ju: "job u = Some jb" for jb
    proof -
      obtain jb1 where 1: "job v = Some jb1"
        "oj_completed_count jb1 = oj_completed_count jb + one_if (active ordinal u \<and> \<not> active ordinal v)"
        "oj_succeeded_count jb1 = oj_succeeded_count jb
           + one_if (active ordinal u \<and> dict_get (works v) ordinal = Some W_Succeeded)"
        "oj_failed_count jb1 = oj_failed_count jb + one_if (active ordinal u \<and> dict_get (works v) ordinal = Some W_Failed)"
        using uv ju by (rule counted_onceE)
      obtain jb2 where 2: "job w = Some jb2"
        "oj_completed_count jb2 = oj_completed_count jb1 + one_if (active ordinal v \<and> \<not> active ordinal w)"
        "oj_succeeded_count jb2 = oj_succeeded_count jb1
           + one_if (active ordinal v \<and> dict_get (works w) ordinal = Some W_Succeeded)"
        "oj_failed_count jb2 = oj_failed_count jb1 + one_if (active ordinal v \<and> dict_get (works w) ordinal = Some W_Failed)"
        using vw 1(1) by (rule counted_onceE)
      show ?thesis using 1 2 later [of W_Succeeded] later [of W_Failed] ended by simp
    qed
    moreover have "active ordinal w \<longrightarrow> active ordinal u" using c(1,3) by blast
    moreover have "dict_get (works w) ordinal = dict_get (works u) ordinal" if "\<not> active ordinal u"
    proof -
      have "\<not> active ordinal v" using c(1) that by blast
      then show ?thesis using c(2,4) that by simp
    qed
    ultimately show ?thesis unfolding counted_once_def by blast
  qed
  show "counted_once ordinal w (w\<lparr>job := Some jb'\<rparr>)" if "job w = Some jb" "same_counts jb jb'" for w jb jb'
    using that by (auto simp: counted_once_def same_counts_def active_def one_if_def)
  show "counted_once ordinal w (w\<lparr>works := dict_set (works w) ordinal W_Running\<rparr>)" if "active ordinal w" for w
    using that by (simp add: counted_once_def active_def one_if_def dict_get_set)
  show "counted_once ordinal w (failed_world ordinal code w)" for w code
    by (cases "active ordinal w")
      (simp_all add: counted_once_def failed_world_def one_if_def dict_get_set, simp_all add: active_def dict_get_set)
  show "counted_once ordinal w (committed_world ordinal ms jb w)"
    if "job w = Some jb" "dict_get (works w) ordinal = Some W_Running" for w ms jb
    using that by (simp add: counted_once_def committed_world_def active_def one_if_def dict_get_set)
qed (auto intro!: counted_same simp: set_row_def)

text \<open>C5. However often a bundle is published, cut off and recovered, the job counts it at most once: its
  completed count grows by one exactly when the work of the bundle ends, and then either the count of
  successes or that of failures grows with it.\<close>

theorem bundle_counted_once:
  assumes "\<forall>p\<in>set ps. about ordinal (counted_once ordinal) p" "job w = Some jb" "active ordinal w"
  shows "\<exists>jb'. job (run_history ps w) = Some jb'
     \<and> oj_completed_count jb' = oj_completed_count jb + one_if (\<not> active ordinal (run_history ps w))
     \<and> oj_succeeded_count jb' = oj_succeeded_count jb
          + one_if (dict_get (works (run_history ps w)) ordinal = Some W_Succeeded)
     \<and> oj_failed_count jb' = oj_failed_count jb + one_if (dict_get (works (run_history ps w)) ordinal = Some W_Failed)"
  using counts.history_kept [OF assms(1), of w] assms(2,3) unfolding counted_once_def by auto

theorem bundle_counted_once_witness:
  "\<exists>jb'. job (run_history ex_history (ex_interrupted Applying 16)) = Some jb'
     \<and> oj_completed_count jb' = oj_completed_count ex_job
          + one_if (\<not> active 0 (run_history ex_history (ex_interrupted Applying 16)))
     \<and> oj_succeeded_count jb' = oj_succeeded_count ex_job
          + one_if (dict_get (works (run_history ex_history (ex_interrupted Applying 16))) 0 = Some W_Succeeded)
     \<and> oj_failed_count jb' = oj_failed_count ex_job
          + one_if (dict_get (works (run_history ex_history (ex_interrupted Applying 16))) 0 = Some W_Failed)"
proof (rule bundle_counted_once)
  show "\<forall>p\<in>set ex_history. about 0 (counted_once 0) p" by (rule counts.about_ex_history)
  show "job (ex_interrupted Applying 16) = Some ex_job" by code_simp
  show "active 0 (ex_interrupted Applying 16)" by code_simp
qed

end
