(* ===== verification/Recovery_Settles.thy ===== *)
theory Recovery_Settles
  imports Bundle_Histories
begin

text \<open>
  A forced turn of the recovery leaves no row of the bundle between two states: when it returns a
  disposition, every row is completed, rolled back or given to a person, whatever input/output errors
  it met on the way.
\<close>

section \<open>Weakest preconditions of what keeps the journal\<close>

interpretation stored: disk_relation "\<lambda>w w'. journals w' = journals w"
  by unfold_locales simp_all

lemma wp_keeps:
  "keeps R m \<Longrightarrow> (\<And>a w'. R w w' \<Longrightarrow> Q a w') \<Longrightarrow> (\<And>e w'. R w w' \<Longrightarrow> E e w') \<Longrightarrow> wp m Q E w"
  by (auto simp: wp_def split: outcome.splits prod.splits dest: keepsD)

lemma wp_both:
  "wp m Q E w \<Longrightarrow> keeps R m \<Longrightarrow> wp m (\<lambda>a w'. Q a w' \<and> R w w') (\<lambda>e w'. E e w' \<and> R w w') w"
  by (auto simp: wp_def split: outcome.splits prod.splits dest: keepsD)

lemmas wp_stored = wp_keeps [where R = "\<lambda>w w'. journals w' = journals w"]

abbreviation ids :: "world \<Rightarrow> pystr list" where
  "ids w \<equiv> map jr_id (journals w)"

lemma ids_set_row: "ids (set_row w k) = ids w"
  by (simp add: set_row_def)

interpretation rows_stay: step_relation "\<lambda>w w'. ids w' = ids w" ordinal for ordinal
proof
  show "ids (set_row w (moved_row opts t j)) = ids w" for w opts t j by (rule ids_set_row)
  show "ids (committed_world ordinal ms jb w) = ids w" for ordinal ms jb w
    by (simp add: committed_world_def commit_row_def)
qed (auto simp: failed_world_def Let_def)

lemma wp_transaction:
  assumes "\<And>hs. wp f Q E (w\<lparr>hazards := hs\<rparr>)" "\<And>hs. E (Some Unexpected) (w\<lparr>hazards := hs\<rparr>)" "\<And>hs. E None (w\<lparr>hazards := hs\<rparr>)"
  shows "wp (transaction f) Q E w"
proof (cases "hazards w")
  case Nil
  then have "w\<lparr>hazards := []\<rparr> = w" by (cases w) simp
  then have "wp f Q E w" using assms(1) [of "[]"] by metis
  then show ?thesis using Nil by (simp add: transaction_def wp_def effect_def)
next
  case (Cons h hs)
  then show ?thesis using assms by (cases h) (simp_all add: transaction_def wp_def effect_def)
qed

lemma row_iff: "distinct (ids w) \<Longrightarrow> row w i = Some j \<longleftrightarrow> j \<in> set (journals w) \<and> jr_id j = i"
proof -
  have "distinct (map jr_id js) \<Longrightarrow> List.find (\<lambda>j. jr_id j = i) js = Some j \<longleftrightarrow> j \<in> set js \<and> jr_id j = i" for js
    by (induction js) auto
  then show "distinct (ids w) \<Longrightarrow> row w i = Some j \<longleftrightarrow> j \<in> set (journals w) \<and> jr_id j = i" by (simp add: row_def)
qed

text \<open>A transition of a row that the caller has in hand.\<close>

definition replaced :: "journal list \<Rightarrow> journal \<Rightarrow> journal list" where
  "replaced js k = map (\<lambda>j. if jr_id j = jr_id k then k else j) js"

lemma wp_advance:
  assumes "distinct (ids w)" "j \<in> set (journals w)"
    and "\<And>w'. journals w' = replaced (journals w) (moved_row opts t j) \<Longrightarrow> t \<in> set (journal_transitions (jr_state j))
      \<Longrightarrow> Q (moved_row opts t j) w'"
    and "\<And>e w'. journals w' = journals w \<Longrightarrow> e = None \<or> e = Some Unexpected
      \<or> e = Some Validation_Error \<and> t \<notin> set (journal_transitions (jr_state j)) \<Longrightarrow> E e w'"
  shows "wp (advance j t opts) Q E w"
proof -
  have r: "row (w\<lparr>hazards := hs\<rparr>) (jr_id j) = Some j" for hs using assms(1,2) by (simp add: row_iff)
  show ?thesis
  proof (cases "t \<in> set (journal_transitions (jr_state j))")
    case True
    then have a: "assert_that (t \<in> set (journal_transitions (jr_state j))) Validation_Error = (ret () :: (world, unit) io)"
      by (simp add: assert_that_def)
    show ?thesis
      unfolding advance_def transition_journal_def a wp_andthen wp_ret
      by (rule wp_transaction) (use True assms(3,4) in \<open>auto simp: wp_def r replaced_def set_row_def\<close>)
  next
    case False
    then show ?thesis
      using assms(4) by (simp add: advance_def transition_journal_def wp_simps)
  qed
qed

lemma set_replaced:
  assumes "distinct (map jr_id js)" "j \<in> set js" "jr_id k = jr_id j"
  shows "x \<in> set (replaced js k) \<longleftrightarrow> x = k \<or> x \<in> set js \<and> x \<noteq> j"
proof -
  have "jr_id y = jr_id j \<longleftrightarrow> y = j" if "y \<in> set js" for y
    using assms(1,2) that by (auto simp: distinct_map inj_on_def)
  then show ?thesis using assms(2,3) by (force simp: replaced_def image_iff)
qed

lemma ids_replaced: "map jr_id (replaced js k) = map jr_id js"
  by (simp add: replaced_def)

lemma moved_row_basic [simp]: "jr_id (moved_row opts t j) = jr_id j" "jr_state (moved_row opts t j) = t"
  by (simp_all add: moved_row_def)

text \<open>The rows of a list are in the store, and all others are settled.\<close>

definition waiting :: "journal list \<Rightarrow> world \<Rightarrow> bool" where
  "waiting xs w \<longleftrightarrow>
     distinct (ids w) \<and> distinct (map jr_id xs) \<and> set xs \<subseteq> set (journals w)
     \<and> (\<forall>j\<in>set (journals w). terminal_state (jr_state j) \<or> j \<in> set xs)"

definition settled :: "world \<Rightarrow> bool" where
  "settled w \<longleftrightarrow> list_all (\<lambda>j. terminal_state (jr_state j)) (journals w)"

lemma waiting_nil: "waiting [] w \<Longrightarrow> settled w"
  by (simp add: waiting_def settled_def list_all_iff)

lemma waiting_same: "waiting xs w \<Longrightarrow> journals w' = journals w \<Longrightarrow> waiting xs w'"
  by (simp add: waiting_def)

lemma waiting_terminal: "waiting (j # xs) w \<Longrightarrow> terminal_state (jr_state j) \<Longrightarrow> waiting xs w"
  by (auto simp: waiting_def)

lemma waiting_moved:
  assumes "waiting (j # xs) w" "terminal_state t" "journals w' = replaced (journals w) (moved_row opts t j)"
  shows "waiting xs w'"
proof -
  have d: "distinct (ids w)" "j \<in> set (journals w)" "set xs \<subseteq> set (journals w)" "j \<notin> set xs" "distinct (map jr_id xs)"
    using assms(1) by (auto simp: waiting_def)
  have m: "x \<in> set (journals w') \<longleftrightarrow> x = moved_row opts t j \<or> x \<in> set (journals w) \<and> x \<noteq> j" for x
    unfolding assms(3) by (rule set_replaced [OF d(1,2)]) simp
  have "distinct (ids w')" using d(1) by (simp add: assms(3) ids_replaced)
  moreover have "set xs \<subseteq> set (journals w')" using d(3,4) m by blast
  moreover have "\<forall>x\<in>set (journals w'). terminal_state (jr_state x) \<or> x \<in> set xs"
    using assms(1,2) m by (auto simp: waiting_def)
  ultimately show ?thesis using d(5) by (simp add: waiting_def)
qed

lemma wp_settle_one:
  assumes "waiting (j # xs) w" "terminal_state t"
  shows "wp (advance j t opts) (\<lambda>_. waiting xs)
     (\<lambda>e w'. journals w' = journals w \<and> (e = None \<or> e = Some Unexpected
        \<or> e = Some Validation_Error \<and> t \<notin> set (journal_transitions (jr_state j)))) w"
  by (rule wp_advance) (use assms in \<open>auto simp: waiting_def [of "_ # _"] intro: waiting_moved\<close>)

section \<open>Attention\<close>

definition listing :: "journal list \<Rightarrow> world \<Rightarrow> bool" where
  "listing js w \<longleftrightarrow> distinct (map jr_id js) \<and> set js = set (journals w)"

lemma listing_waiting: "listing js w \<Longrightarrow> distinct (ids w) \<Longrightarrow> waiting js w"
  by (auto simp: listing_def waiting_def)

lemma listing_same: "listing js w \<Longrightarrow> journals w' = journals w \<Longrightarrow> listing js w'"
  by (simp add: listing_def)

lemma wp_list_journals:
  assumes "distinct (ids w)"
    and "\<And>js w'. journals w' = journals w \<Longrightarrow> listing js w' \<Longrightarrow> Q js w'"
    and "\<And>e w'. journals w' = journals w \<Longrightarrow> e = None \<or> e = Some Unexpected \<Longrightarrow> E e w'"
  shows "wp list_journals Q E w"
proof -
  have "listing (filter is_recycle_mutation js @ filter (\<lambda>j. \<not> is_recycle_mutation j) js) v"
    if d: "distinct (map jr_id js)" "journals v = js" for js v
  proof -
    let ?f = "filter is_recycle_mutation js @ filter (\<lambda>j. \<not> is_recycle_mutation j) js"
    have s: "set ?f = set js" by auto
    have "distinct ?f" using d(1) by (auto simp: distinct_map)
    moreover have "inj_on jr_id (set ?f)" unfolding s using d(1) by (simp add: distinct_map)
    ultimately have "distinct (map jr_id ?f)" unfolding distinct_map by blast
    then show ?thesis unfolding listing_def s d(2) by blast
  qed
  then show ?thesis
    unfolding list_journals_def by (intro wp_transaction) (use assms in \<open>auto simp: wp_def\<close>)
qed

lemma needs_attention_moves: "\<not> terminal_state s \<Longrightarrow> Needs_Attention \<in> set (journal_transitions s)"
  by (cases s) (simp_all add: terminal_state_def)

lemma wp_fail_bundle:
  assumes "\<And>w'. journals w' = journals w \<Longrightarrow> Q () w'" "\<And>e w'. journals w' = journals w \<Longrightarrow> e = None \<or> e = Some Unexpected \<Longrightarrow> E e w'"
  shows "wp (fail_bundle_recovery n code) Q E w"
  unfolding fail_bundle_recovery_def
  by (rule wp_transaction) (use assms in \<open>auto simp: wp_def Let_def split: option.splits\<close>)

abbreviation broken_off :: "io_failure option \<Rightarrow> bool" where
  "broken_off e \<equiv> e = None \<or> e = Some Unexpected"

lemma wp_attention:
  assumes "distinct (ids w)"
  shows "wp (attention_bundle env code) (\<lambda>_. settled) (\<lambda>e _. broken_off e) w"
proof -
  let ?one = "\<lambda>j. when_true (\<not> terminal_state (jr_state j))
            (handle (\<lambda>e. e \<in> {Stale_Revision, Validation_Error})
               (bind (advance j Needs_Attention (counted\<lparr>to_failure_code := Some code,
                        to_recovery_evidence := Some (Reason_Note code)\<rparr>)) (\<lambda>_. ret ()))
               (\<lambda>_. ret ()))"
  have one: "wp (?one j) (\<lambda>_. waiting xs) (\<lambda>e _. broken_off e) w'" if "waiting (j # xs) w'" for j xs w'
  proof (cases "terminal_state (jr_state j)")
    case True
    then show ?thesis using waiting_terminal [OF that] by (simp add: wp_when_true)
  next
    case False
    have t: "terminal_state Needs_Attention" by (simp add: terminal_state_def)
    show ?thesis
      unfolding wp_when_true if_P [OF False] wp_handle wp_bind wp_ret
      by (rule wp_mono [OF wp_settle_one [OF that t]])
        (use needs_attention_moves [OF False] in \<open>auto\<close>)
  qed
  have "wp (io_each ?one js) (\<lambda>_. waiting []) (\<lambda>e _. broken_off e) w'" if "waiting js w'" for js w'
    by (rule wp_io_each [where I = waiting]) (use that one in auto)
  then have each: "wp (io_each ?one js) (\<lambda>_. waiting []) (\<lambda>e _. broken_off e) w'" if "waiting js w'" for js w'
    using that by blast
  show ?thesis
    unfolding attention_bundle_def wp_bind wp_andthen wp_ret
  proof (rule wp_list_journals [OF assms])
    fix js w'
    assume "journals w' = journals w" "listing js w'"
    then have wt: "waiting js w'" using assms by (simp add: listing_waiting)
    have "wp (fail_bundle_recovery n c) (\<lambda>_. settled) (\<lambda>e _. broken_off e) v" if "waiting [] v" for n c v
      using waiting_nil [OF that] by (auto intro!: wp_fail_bundle simp: settled_def)
    then show "wp (io_each ?one js)
        (\<lambda>_. wp (fail_bundle_recovery (be_ordinal env) ''RECOVERY_NEEDS_ATTENTION'') (\<lambda>_. settled) (\<lambda>e _. broken_off e))
        (\<lambda>e _. broken_off e) w'"
      by (intro wp_mono [OF each [OF wt]])
  qed simp
qed

section \<open>Compensation\<close>

lemma wp_ids:
  assumes "keeps (\<lambda>w w'. ids w' = ids w) m" "wp m Q (\<lambda>_ _. True) w" "distinct (ids w)"
  shows "wp m Q (\<lambda>_ w'. distinct (ids w')) w"
  by (rule wp_mono [OF wp_both [OF assms(2,1)]]) (use assms(3) in auto)

lemma wp_funs: "wp (bind m f) Q E = wp m (\<lambda>a. wp (f a) Q E) E" "wp (ret a) Q E = Q a"
  by (simp_all add: fun_eq_iff wp_simps)

lemma wp_io_map:
  assumes "I xs [] w"
    and "\<And>x xs ys w. I (x # xs) ys w \<Longrightarrow> wp (f x) (\<lambda>y. I xs (ys @ [y])) E w"
  shows "wp (io_map f xs) (\<lambda>ys. I [] ys) E w"
proof -
  have "wp (io_map f xs) (\<lambda>zs. I [] (ys @ zs)) E w" if "I xs ys w" for ys
    using that
  proof (induction xs arbitrary: ys w)
    case (Cons x xs)
    have "wp (f x) (\<lambda>y. wp (io_map f xs) (\<lambda>zs. I [] ((ys @ [y]) @ zs)) E) E w"
      using assms(2) [OF Cons.prems] Cons.IH by (rule wp_mono) auto
    then show ?case by (simp add: wp_funs)
  qed (simp add: wp_simps)
  then show ?thesis using assms(1) by fastforce
qed

lemma wp_yields: "(\<And>a w. wp (f a) Q (\<lambda>_ _. True) w) \<Longrightarrow> wp (bind m f) Q (\<lambda>_ _. True) w"
  unfolding wp_bind by (auto simp: wp_def [of m] split: outcome.splits prod.splits)

text \<open>Resolving the paths changes nothing and keeps the rows in their order.\<close>

lemma wp_resolve_journal:
  "wp (resolve_journal roots j) (\<lambda>v w'. jp_journal v = j \<and> journals w' = journals w) (\<lambda>_ w'. journals w' = journals w) w"
proof -
  have k: "keeps (\<lambda>w w'. journals w' = journals w) (resolve_journal roots j)"
    by (auto simp: resolve_journal_def required_path_def optional_path_def Let_def intro!: keeps_rules
        split: option.splits)
  have "wp (resolve_journal roots j) (\<lambda>v w'. jp_journal v = j) (\<lambda>_ _. True) w"
    unfolding resolve_journal_def
    by (auto simp: wp_ret wp_throw intro!: wp_yields split: option.splits prod.splits)
  from wp_both [OF this k] show ?thesis by (rule wp_mono) auto
qed

lemma wp_resolve_paths:
  "wp (resolve_paths roots js) (\<lambda>vs w'. map jp_journal vs = js \<and> journals w' = journals w)
     (\<lambda>_ w'. journals w' = journals w) w"
proof -
  let ?I = "\<lambda>xs (ys :: journal_paths list) (w' :: world). map jp_journal ys @ xs = js \<and> journals w' = journals w"
  have "wp (io_map (resolve_journal roots) js) (\<lambda>ys. ?I [] ys) (\<lambda>_ w'. journals w' = journals w) w"
  proof (rule wp_io_map [where I = ?I])
    fix x xs ys v
    assume i: "?I (x # xs) ys v"
    show "wp (resolve_journal roots x) (\<lambda>y. ?I xs (ys @ [y])) (\<lambda>_ w'. journals w' = journals w) v"
      by (rule wp_mono [OF wp_resolve_journal]) (use i in auto)
  qed simp
  then show ?thesis by (simp add: resolve_paths_def)
qed

lemma listing_replaced:
  assumes "listing (xs @ j # ys) w" "distinct (ids w)" "jr_id k = jr_id j" "journals w' = replaced (journals w) k"
  shows "listing (xs @ k # ys) w'"
proof -
  have j: "j \<in> set (journals w)" "j \<notin> set xs \<union> set ys" using assms(1) by (auto simp: listing_def)
  have "set (xs @ k # ys) = set (journals w')"
    using set_replaced [OF assms(2) j(1) assms(3)] assms(1,4) j(2) by (fastforce simp: listing_def)
  then show ?thesis using assms(1,3) by (simp add: listing_def)
qed

definition pending :: "journal_paths \<Rightarrow> bool" where
  "pending v \<longleftrightarrow> terminal_state (jr_state (jp_journal v)) \<or> jr_state (jp_journal v) = Rollback_Pending"

lemma wp_rollback_pending:
  assumes "distinct (ids w)" "listing (map jp_journal vs) w"
  shows "wp (transition_rollback_pending reason vs)
     (\<lambda>cs w'. distinct (ids w') \<and> listing (map jp_journal cs) w' \<and> list_all pending cs) (\<lambda>_ _. True) w"
proof -
  let ?I = "\<lambda>(xs :: journal_paths list) ys w'. distinct (ids w') \<and> listing (map jp_journal (ys @ xs)) w' \<and> list_all pending ys"
  have "wp (transition_rollback_pending reason vs) (\<lambda>ys. ?I [] ys) (\<lambda>_ _. True) w"
    unfolding transition_rollback_pending_def
  proof (rule wp_io_map [where I = ?I])
    fix x xs ys v
    assume i: "?I (x # xs) ys v"
    let ?j = "jp_journal x"
    show "wp (if terminal_state (jr_state ?j) \<or> jr_state ?j = Rollback_Pending then ret x
              else bind (advance ?j Rollback_Pending (note_reason reason)) (\<lambda>j. ret (x\<lparr>jp_journal := j\<rparr>)))
            (\<lambda>y. ?I xs (ys @ [y])) (\<lambda>_ _. True) v"
    proof (cases "pending x")
      case True
      then show ?thesis using i by (simp add: wp_ret pending_def)
    next
      case False
      have "wp (advance ?j Rollback_Pending (note_reason reason))
          (\<lambda>a. ?I xs (ys @ [x\<lparr>jp_journal := a\<rparr>])) (\<lambda>_ _. True) v"
      proof (rule wp_advance)
        show "distinct (ids v)" "?j \<in> set (journals v)" using i by (auto simp: listing_def)
        fix w' :: world
        assume w': "journals w' = replaced (journals v) (moved_row (note_reason reason) Rollback_Pending ?j)"
        have "listing (map jp_journal ys @ moved_row (note_reason reason) Rollback_Pending ?j # map jp_journal xs) w'"
          by (rule listing_replaced [OF _ _ _ w', of _ ?j]) (use i in auto)
        then show "?I xs (ys @ [x\<lparr>jp_journal := moved_row (note_reason reason) Rollback_Pending ?j\<rparr>]) w'"
          using i by (simp add: w' ids_replaced pending_def)
      qed simp
      then show ?thesis using False [unfolded pending_def] by (simp add: wp_funs)
    qed
  qed (use assms in auto)
  then show ?thesis by simp
qed

lemma wp_compensate_locked:
  assumes "distinct (ids w)" "listing (map jp_journal vs) w"
  shows "wp (compensate_locked env js reason vs) (\<lambda>_. settled) (\<lambda>_ _. True) w"
proof -
  let ?one = "\<lambda>v. when_true (jr_state (jp_journal v) = Rollback_Pending)
               (bind (advance (jp_journal v) Rolled_Back (note_reason reason)) (\<lambda>_. ret ()))"
  let ?I = "\<lambda>(xs :: journal_paths list) w'. waiting (map jp_journal xs) w' \<and> list_all pending xs"
  have one: "wp (?one x) (\<lambda>_. ?I xs) (\<lambda>_ _. True) v" if i: "?I (x # xs) v" for x xs v
  proof (cases "jr_state (jp_journal x) = Rollback_Pending")
    case True
    have "wp (advance (jp_journal x) Rolled_Back (note_reason reason)) (\<lambda>_. ?I xs) (\<lambda>_ _. True) v"
      by (rule wp_mono [OF wp_settle_one]) (use i in \<open>auto simp: terminal_state_def\<close>)
    then show ?thesis using True by (simp add: wp_when_true wp_funs)
  next
    case False
    then show ?thesis using i by (auto simp: wp_when_true pending_def intro: waiting_terminal)
  qed
  have each: "wp (io_each ?one cs) (\<lambda>_ w'. settled w') (\<lambda>_ _. True) v"
    if "distinct (ids v)" "listing (map jp_journal cs) v" "list_all pending cs" for cs v
  proof -
    have "wp (io_each ?one cs) (\<lambda>_. ?I []) (\<lambda>_ _. True) v"
      by (rule wp_io_each [where I = ?I]) (use that one listing_waiting in auto)
    then show ?thesis by (rule wp_mono) (simp_all add: waiting_nil)
  qed
  have last: "wp (andthen (fail_bundle_recovery n c) (ret d)) (\<lambda>_. settled) (\<lambda>_ _. True) v" if "settled v" for n c d v
    using that by (auto simp: wp_simps settled_def intro!: wp_fail_bundle)
  have settle: "wp (andthen (restore_originals (be_roots env) cs) (andthen (io_each ?one cs)
        (andthen (fail_bundle_recovery (be_ordinal env) ''RECOVERY_ROLLED_BACK'') (ret D_Rolled_Back))))
        (\<lambda>_. settled) (\<lambda>_ _. True) v"
    if "distinct (ids v)" "listing (map jp_journal cs) v" "list_all pending cs" for cs v
    unfolding wp_andthen [of "restore_originals _ _"]
  proof (rule wp_stored [OF stored.keeps_restore])
    fix a and w' :: world
    assume w': "journals w' = journals v"
    have "wp (io_each ?one cs) (\<lambda>_. settled) (\<lambda>_ _. True) w'"
      by (rule each) (use that w' listing_same in auto)
    then show "wp (andthen (io_each ?one cs)
        (andthen (fail_bundle_recovery (be_ordinal env) ''RECOVERY_ROLLED_BACK'') (ret D_Rolled_Back)))
        (\<lambda>_. settled) (\<lambda>_ _. True) w'"
      unfolding wp_andthen [of "io_each _ _"] by (rule wp_mono) (simp_all add: last)
  qed simp
  have "wp (transition_rollback_pending reason vs) (\<lambda>cs. wp (andthen (restore_originals (be_roots env) cs)
      (andthen (io_each ?one cs)
        (andthen (fail_bundle_recovery (be_ordinal env) ''RECOVERY_ROLLED_BACK'') (ret D_Rolled_Back))))
        (\<lambda>_. settled) (\<lambda>_ _. True)) (\<lambda>_ _. True) w'" if "journals w' = journals w" for w'
    by (rule wp_mono [OF wp_rollback_pending]) (use that assms settle listing_same in auto)
  then show ?thesis
    unfolding compensate_locked_def wp_andthen [of "affected_roots _"] wp_andthen [of "preflight_compensation _"] wp_bind
    by (intro wp_stored [OF stored.keeps_paths(3)] wp_stored [OF stored.keeps_preflight(2)]) simp_all
qed

text \<open>An attempt that leaves the journal alone, and what follows it.\<close>

lemma wp_attempted:
  assumes "wp m (\<lambda>a w'. P a \<and> journals w' = journals w) (\<lambda>_ w'. journals w' = journals w) w"
    and "\<And>a w'. P a \<Longrightarrow> journals w' = journals w \<Longrightarrow> wp (g (Inr a)) Q E w'"
    and "\<And>e w'. journals w' = journals w \<Longrightarrow> wp (g (Inl e)) Q E w'"
    and "\<And>e w'. journals w' = journals w \<Longrightarrow> E e w'"
  shows "wp (bind (attempt_io p m) g) Q E w"
  unfolding attempt_io_def wp_bind wp_handle wp_funs
  by (rule wp_mono [OF assms(1)]) (use assms(2-4) in \<open>auto simp: wp_ret split: option.splits\<close>)

text \<open>Checks before it.\<close>

lemma wp_checked:
  assumes "keeps (\<lambda>w w'. journals w' = journals w) c" "journals w = js"
    and "\<And>w'. journals w' = js \<Longrightarrow> wp m (\<lambda>a w'. P a \<and> journals w' = js) (\<lambda>_ w'. journals w' = js) w'"
  shows "wp (andthen c m) (\<lambda>a w'. P a \<and> journals w' = js) (\<lambda>_ w'. journals w' = js) w"
  unfolding wp_andthen by (rule wp_stored [OF assms(1)]) (simp_all add: assms(2,3))

lemma wp_resolve_paths_from:
  "journals w = ks \<Longrightarrow>
     wp (resolve_paths roots js) (\<lambda>vs w'. map jp_journal vs = js \<and> journals w' = ks) (\<lambda>_ w'. journals w' = ks) w"
  using wp_resolve_paths [of roots js w] by simp

lemma wp_attention_ids:
  "distinct (ids w) \<Longrightarrow> wp (attention_bundle env code) (\<lambda>_. settled) (\<lambda>_ w'. distinct (ids w')) w"
  by (rule wp_ids [OF rows_stay.keeps_attention [OF refl] wp_mono [OF wp_attention]]) auto

lemma wp_compensate_bundle:
  assumes "distinct (ids w)" "listing js w"
  shows "wp (compensate_bundle env js reason) (\<lambda>_. settled) (\<lambda>_ w'. distinct (ids w')) w"
proof (cases "list_all (\<lambda>j. terminal_state (jr_state j)) js")
  case True
  then have "settled w" using assms(2) by (auto simp: settled_def listing_def list_all_iff)
  then show ?thesis
    using True assms(1) by (auto simp: compensate_bundle_def wp_simps settled_def intro!: wp_fail_bundle)
next
  case False
  have handled: "wp (handle is_uncertain (compensate_locked env ks reason vs) (\<lambda>e. attention_bundle env (reason_of e)))
      (\<lambda>_. settled) (\<lambda>_ w'. distinct (ids w')) v"
    if "distinct (ids v)" "listing (map jp_journal vs) v" for ks vs v
  proof -
    have "keeps (\<lambda>w w'. ids w' = ids w) (compensate_locked env ks reason vs)" by (rule rows_stay.keeps_locked) simp
    then have "wp (compensate_locked env ks reason vs) (\<lambda>_. settled) (\<lambda>_ w'. distinct (ids w')) v"
      by (rule wp_ids [OF _ wp_compensate_locked [OF that] that(1)])
    then show ?thesis
      unfolding wp_handle by (rule wp_mono) (auto intro: wp_attention_ids split: option.splits)
  qed
  show ?thesis
    unfolding compensate_bundle_def if_not_P [OF False]
  proof (rule wp_attempted [where P = "\<lambda>vs. map jp_journal vs = js"])
    show "wp (andthen (must_hold (be_policy_current env)) (resolve_paths (be_roots env) js))
        (\<lambda>vs w'. map jp_journal vs = js \<and> journals w' = journals w) (\<lambda>_ w'. journals w' = journals w) w"
      by (intro wp_checked stored.keeps_read_only wp_resolve_paths_from) simp_all
  qed (use assms in \<open>auto intro!: handled wp_attention_ids intro: listing_same\<close>)
qed

section \<open>Finishing a publication\<close>

lemma wp_commit_bundle:
  "wp (commit_bundle accepts n worker ms) (\<lambda>_ w'. list_all (\<lambda>j. committed_state (jr_state j)) (journals w')) (\<lambda>_ _. True) w"
  unfolding commit_bundle_def wp_andthen wp_assert_that
  by (intro conjI impI if_bool_eq_conj [THEN iffD2] wp_transaction TrueI)
    (simp_all add: wp_def committed_world_def commit_row_def committed_state_def list_all_iff list_ex_iff split: option.splits)

lemma wp_verify_committed:
  "wp (verify_committed roots v) (\<lambda>r w'. fst r = v \<and> journals w' = journals w) (\<lambda>_ w'. journals w' = journals w) w"
proof -
  have "wp (verify_committed roots v) (\<lambda>r w'. fst r = v) (\<lambda>_ _. True) w"
    unfolding verify_committed_def Let_def andthen_def
    by (auto simp: wp_ret wp_throw intro!: wp_yields split: option.splits prod.splits list.splits)
  from wp_both [OF this stored.keeps_verify] show ?thesis by (rule wp_mono) auto
qed

lemma wp_cleanup_locked:
  assumes "distinct (ids w)" "listing (map jp_journal vs) w" "list_all (\<lambda>j. committed_state (jr_state j)) (journals w)"
  shows "wp (cleanup_committed_locked env roots vs) (\<lambda>_. settled) (\<lambda>_ _. True) w"
proof -
  let ?I = "\<lambda>(xs :: (journal_paths \<times> four_evidence) list) w'. waiting (map (jp_journal \<circ> fst) xs) w'
     \<and> (\<forall>x\<in>set xs. committed_state (jr_state (jp_journal (fst x))))"
  have one: "wp (clean_up_recovered roots b x) (\<lambda>_. ?I xs) (\<lambda>_ _. True) w'" if i: "?I (x # xs) w'" for b x xs w'
  proof -
    obtain v so te ba de where x: "x = (v, so, te, ba, de)" by (cases x) auto
    have last: "wp (when_true (jr_state (jp_journal v) \<in> {Catalog_Committed, Cleanup_Pending})
          (bind (advance (jp_journal v) Completed counted) (\<lambda>_. ret ()))) (\<lambda>_. ?I xs) (\<lambda>_ _. True) w''"
      if w'': "journals w'' = journals w'" for w''
    proof (cases "jr_state (jp_journal v) \<in> {Catalog_Committed, Cleanup_Pending}")
      case True
      have "wp (advance (jp_journal v) Completed counted) (\<lambda>_. ?I xs) (\<lambda>_ _. True) w''"
        by (rule wp_mono [OF wp_settle_one])
          (use i x w'' in \<open>auto simp: terminal_state_def intro: waiting_same\<close>)
      then show ?thesis using True by (simp add: wp_when_true wp_funs)
    next
      case False
      then have "terminal_state (jr_state (jp_journal v))" using i x by (auto simp: committed_state_def terminal_state_def)
      then show ?thesis
        unfolding wp_when_true if_not_P [OF False] using i x w'' by (auto intro: waiting_same waiting_terminal)
    qed
    show ?thesis
      unfolding clean_up_recovered_def x prod.case Let_def wp_andthen
      by (rule wp_stored, (intro keeps_rules; fail))+ (use last in auto)
  qed
  let ?J = "\<lambda>xs (rs :: (journal_paths \<times> four_evidence) list) (w' :: world). map fst rs @ xs = vs \<and> journals w' = journals w"
  have verified: "wp (io_map (verify_committed roots) vs) (\<lambda>rs. ?J [] rs) (\<lambda>_ _. True) w"
  proof (rule wp_io_map [where I = ?J])
    fix x xs ys and v :: world
    assume j: "?J (x # xs) ys v"
    show "wp (verify_committed roots x) (\<lambda>y. ?J xs (ys @ [y])) (\<lambda>_ _. True) v"
      by (rule wp_mono [OF wp_verify_committed]) (use j in auto)
  qed simp
  have each: "wp (io_each (clean_up_recovered roots b) rs) (\<lambda>_. settled) (\<lambda>_ _. True) w'" if r: "?J [] rs w'" for b rs w'
  proof -
    have m: "map (jp_journal \<circ> fst) rs = map jp_journal vs" using r by (simp flip: map_map)
    have "distinct (ids w')" "listing (map jp_journal vs) w'" using r assms(1,2) listing_same by auto
    then have "waiting (map (jp_journal \<circ> fst) rs) w'" unfolding m by (rule listing_waiting [rotated])
    moreover have "committed_state (jr_state (jp_journal (fst x)))" if "x \<in> set rs" for x
    proof -
      have "jp_journal (fst x) \<in> set (map (jp_journal \<circ> fst) rs)" using that by auto
      then have "jp_journal (fst x) \<in> set (journals w)" unfolding m using assms(2) by (simp add: listing_def)
      then show ?thesis using assms(3) by (simp add: list_all_iff)
    qed
    ultimately have "wp (io_each (clean_up_recovered roots b) rs) (\<lambda>_. ?I []) (\<lambda>_ _. True) w'"
      by (intro wp_io_each [where I = ?I] one) auto
    then show ?thesis by (rule wp_mono) (simp_all add: waiting_nil)
  qed
  have "wp (andthen (io_each (clean_up_recovered roots b) rs) (when_true c (remove_empty_directories ds)))
      (\<lambda>_. settled) (\<lambda>_ _. True) w'" if r: "?J [] rs w'" for b c ds rs w'
    unfolding wp_andthen
  proof (rule wp_mono [OF each [OF r]])
    fix a v
    assume "settled v"
    then show "wp (when_true c (remove_empty_directories ds)) (\<lambda>_. settled) (\<lambda>_ _. True) v"
      by (intro wp_stored stored.keeps_when_true stored.keeps_remove_directories) (simp_all add: settled_def)
  qed
  then show ?thesis
    unfolding cleanup_committed_locked_def wp_bind by (intro wp_mono [OF verified]) auto
qed

lemma wp_job_only:
  assumes "\<And>b w'. journals w' = journals w \<Longrightarrow> Q b w'" "\<And>e w'. journals w' = journals w \<Longrightarrow> E e w'"
  shows "wp (release_recovery_lease worker) Q E w" "wp settle_recovery_job Q E w"
    "wp (claim_for_recovery n worker now lease forced) Q E w"
  unfolding release_recovery_lease_def settle_recovery_job_def claim_for_recovery_def
  by (intro wp_transaction; use assms in \<open>simp add: wp_def split: option.splits\<close>)+

lemma wp_finish_locked:
  assumes "distinct (ids w)"
  shows "wp (finish_locked env js vs) (\<lambda>_. settled) (\<lambda>_ w'. distinct (ids w')) w"
proof (rule wp_ids [OF rows_stay.keeps_locked(2) [OF refl] _ assms])
  have last: "wp (andthen (cleanup_committed_locked env (be_roots env) cs)
      (bind (release_recovery_lease (be_worker env)) (\<lambda>_. ret D_Recovered))) (\<lambda>_. settled) (\<lambda>_ _. True) v"
    if "distinct (ids v)" "listing (map jp_journal cs) v" "list_all (\<lambda>j. committed_state (jr_state j)) (journals v)" for cs v
    unfolding wp_andthen wp_bind wp_ret
    by (rule wp_mono [OF wp_cleanup_locked [OF that]]) (auto intro!: wp_job_only simp: settled_def)
  have resolved: "wp (bind (resolve_paths (be_roots env) ks) (\<lambda>cs. andthen (cleanup_committed_locked env (be_roots env) cs)
      (bind (release_recovery_lease (be_worker env)) (\<lambda>_. ret D_Recovered)))) (\<lambda>_. settled) (\<lambda>_ _. True) v"
    if "distinct (ids v)" "listing ks v" "list_all (\<lambda>j. committed_state (jr_state j)) (journals v)" for ks v
    unfolding wp_bind [of "resolve_paths _ _"]
    by (rule wp_mono [OF wp_resolve_paths]) (use that in \<open>auto intro!: last intro: listing_same\<close>)
  have listed: "wp (bind list_journals (\<lambda>ks. bind (resolve_paths (be_roots env) ks) (\<lambda>cs.
      andthen (cleanup_committed_locked env (be_roots env) cs)
      (bind (release_recovery_lease (be_worker env)) (\<lambda>_. ret D_Recovered))))) (\<lambda>_. settled) (\<lambda>_ _. True) v"
    if "distinct (ids v)" "list_all (\<lambda>j. committed_state (jr_state j)) (journals v)" for v
    unfolding wp_bind [of list_journals]
    by (rule wp_list_journals) (use that in \<open>auto intro!: resolved\<close>)
  have committed: "wp (andthen (commit_bundle (be_accepts env) (be_ordinal env) (be_worker env) ms)
      (bind list_journals (\<lambda>ks. bind (resolve_paths (be_roots env) ks) (\<lambda>cs.
      andthen (cleanup_committed_locked env (be_roots env) cs)
      (bind (release_recovery_lease (be_worker env)) (\<lambda>_. ret D_Recovered)))))) (\<lambda>_. settled) (\<lambda>_ _. True) v"
    if "distinct (ids v)" for ms v
    unfolding wp_andthen [of "commit_bundle _ _ _ _"]
    by (rule wp_mono [OF wp_both [OF wp_commit_bundle rows_stay.keeps_bundle(3) [OF refl]]])
      (use that in \<open>auto intro!: listed\<close>)
  show "wp (finish_locked env js vs) (\<lambda>_. settled) (\<lambda>_ _. True) w"
    unfolding finish_locked_def wp_andthen [of "affected_roots _"] wp_bind [of "publish_remaining _ _"]
      wp_bind [of "rebuild_mutations _ _"]
    by (rule wp_stored [OF stored.keeps_paths(3)], rule wp_keeps [OF rows_stay.keeps_publish_remaining],
        rule wp_stored [OF stored.keeps_rebuild])
      (use assms in \<open>auto intro!: committed\<close>)
qed

lemma wp_finish_published:
  assumes "distinct (ids w)" "listing js w"
  shows "wp (finish_published_bundle env js) (\<lambda>_. settled) (\<lambda>_ w'. distinct (ids w')) w"
  unfolding finish_published_bundle_def
proof (rule wp_attempted [where P = "\<lambda>vs. map jp_journal vs = js"])
  show "wp (andthen (must_hold (be_pinned_configuration env)) (andthen (must_hold (be_policy_current env))
          (andthen (assert_that (complete_bundle env js) Validation_Error) (resolve_paths (be_roots env) js))))
        (\<lambda>vs w'. map jp_journal vs = js \<and> journals w' = journals w) (\<lambda>_ w'. journals w' = journals w) w"
    by (intro wp_checked stored.keeps_read_only stored.keeps_checks wp_resolve_paths_from) simp_all
next
  fix vs :: "journal_paths list" and w' :: world
  assume vs: "map jp_journal vs = js" and w': "journals w' = journals w"
  have again: "wp (bind list_journals (\<lambda>current. compensate_bundle env current ''RECOVERY_COMMIT_REJECTED''))
      (\<lambda>_. settled) (\<lambda>_ w'. distinct (ids w')) v" if "distinct (ids v)" for v
    unfolding wp_bind by (rule wp_list_journals [OF that]) (use that in \<open>auto intro!: wp_compensate_bundle\<close>)
  have "wp (handle (\<lambda>e. is_uncertain e \<or> expected_failure e) (finish_locked env js vs) (\<lambda>e.
             if is_uncertain e then attention_bundle env (reason_of e)
             else bind list_journals (\<lambda>current. compensate_bundle env current ''RECOVERY_COMMIT_REJECTED'')))
      (\<lambda>_. settled) (\<lambda>_ w'. distinct (ids w')) w'"
    unfolding wp_handle
    by (rule wp_mono [OF wp_finish_locked]) (use w' assms(1) again wp_attention_ids in \<open>auto split: option.splits\<close>)
  then show "wp (case Inr vs of Inl e \<Rightarrow> compensate_bundle env js (''RECOVERY_CONFIGURATION_'' @ error_name e)
      | Inr paths \<Rightarrow> handle (\<lambda>e. is_uncertain e \<or> expected_failure e) (finish_locked env js paths) (\<lambda>e.
             if is_uncertain e then attention_bundle env (reason_of e)
             else bind list_journals (\<lambda>current. compensate_bundle env current ''RECOVERY_COMMIT_REJECTED'')))
      (\<lambda>_. settled) (\<lambda>_ w'. distinct (ids w')) w'" by simp
qed (use assms in \<open>auto intro!: wp_compensate_bundle intro: listing_same\<close>)

section \<open>A committed bundle\<close>

lemma keeps_mark_missing: "keeps (\<lambda>w w'. journals w' = journals w) (mark_missing_catalog_destinations vs)"
proof -
  have "keeps (\<lambda>w w'. journals w' = journals w) (mark_destination_missing i r q)" for i r q
    unfolding mark_destination_missing_def
    by (rule stored.keeps_transaction) (auto split: option.splits)
  then show ?thesis
    unfolding mark_missing_catalog_destinations_def
    by (intro stored.keeps_io_each) (auto intro!: keeps_rules)
qed

lemma wp_recover_committed:
  assumes "distinct (ids w)" "listing js w" "list_all (\<lambda>j. committed_state (jr_state j)) js"
  shows "wp (recover_committed_bundle env js) (\<lambda>_. settled) (\<lambda>_ w'. distinct (ids w')) w"
  unfolding recover_committed_bundle_def
proof (rule wp_attempted [where P = "\<lambda>vs. map jp_journal vs = js"])
  show "wp (andthen (must_hold (be_policy_current env)) (resolve_paths (be_roots env) js))
      (\<lambda>vs w'. map jp_journal vs = js \<and> journals w' = journals w) (\<lambda>_ w'. journals w' = journals w) w"
    by (intro wp_checked stored.keeps_read_only wp_resolve_paths_from) simp_all
next
  fix vs :: "journal_paths list" and w' :: world
  assume vs: "map jp_journal vs = js" and w': "journals w' = journals w"
  let ?m = "andthen (affected_roots js) (andthen (cleanup_committed_locked env (be_roots env) vs)
      (bind settle_recovery_job (\<lambda>_. ret D_Recovered)))"
  have d: "distinct (ids w')" "listing js w'" using assms(1,2) w' listing_same by auto
  have c: "list_all (\<lambda>j. committed_state (jr_state j)) (journals w')"
    using assms(3) d(2) by (simp add: listing_def list_all_iff)
  have "wp ?m (\<lambda>_. settled) (\<lambda>_ _. True) w'"
    unfolding wp_andthen wp_bind wp_ret
  proof (rule wp_stored [OF stored.keeps_paths(3)])
    fix a and w'' :: world
    assume w'': "journals w'' = journals w'"
    show "wp (cleanup_committed_locked env (be_roots env) vs)
        (\<lambda>_. wp settle_recovery_job (\<lambda>_. settled) (\<lambda>_ _. True)) (\<lambda>_ _. True) w''"
      by (rule wp_mono [OF wp_cleanup_locked])
        (use d c w'' vs in \<open>auto intro!: wp_job_only intro: listing_same simp: settled_def\<close>)
  qed simp
  moreover have "keeps (\<lambda>w w'. ids w' = ids w) ?m" by (intro keeps_rules)
  ultimately have m: "wp ?m (\<lambda>_. settled) (\<lambda>_ w'. distinct (ids w')) w'" by (intro wp_ids d(1))
  have after: "wp (andthen (when_true b (mark_missing_catalog_destinations vs)) (attention_bundle env code))
      (\<lambda>_. settled) (\<lambda>_ w'. distinct (ids w')) v" if "distinct (ids v)" for b code v
    unfolding wp_andthen
    by (rule wp_stored [OF stored.keeps_when_true]) (use keeps_mark_missing that in \<open>auto intro!: wp_attention_ids\<close>)
  have "wp (handle is_uncertain ?m (\<lambda>e. andthen
                (when_true (e = Uncertain ''RECOVERY_COMMITTED_DESTINATION_MISSING''
                            \<or> e = Uncertain ''RECOVERY_COMMITTED_DESTINATION_CHANGED'')
                   (mark_missing_catalog_destinations vs))
                (attention_bundle env (reason_of e)))) (\<lambda>_. settled) (\<lambda>_ w'. distinct (ids w')) w'"
    unfolding wp_handle by (rule wp_mono [OF m]) (auto intro: after split: option.splits)
  then show "wp (case Inr vs of Inl _ \<Rightarrow> attention_bundle env ''RECOVERY_COMMITTED_CONFIGURATION_STALE''
       | Inr paths \<Rightarrow>
           handle is_uncertain
             (andthen (affected_roots js)
             (andthen (cleanup_committed_locked env (be_roots env) paths)
                (bind settle_recovery_job (\<lambda>_. ret D_Recovered))))
             (\<lambda>e. andthen
                (when_true (e = Uncertain ''RECOVERY_COMMITTED_DESTINATION_MISSING''
                            \<or> e = Uncertain ''RECOVERY_COMMITTED_DESTINATION_CHANGED'')
                   (mark_missing_catalog_destinations paths))
                (attention_bundle env (reason_of e)))) (\<lambda>_. settled) (\<lambda>_ w'. distinct (ids w')) w'" by simp
qed (use assms(1) in \<open>auto intro!: wp_attention_ids\<close>)

section \<open>A turn\<close>

text \<open>The publication of the bundle had been prepared when the process ended.\<close>

definition prepared_bundle :: "world \<Rightarrow> bool" where
  "prepared_bundle w \<longleftrightarrow> list_all (\<lambda>j. jr_state j \<notin> {Planned, Snapshot_Saved, Staged}) (journals w)"

lemma wp_query:
  assumes "\<And>hs. g (w\<lparr>hazards := hs\<rparr>) = g w" "\<And>w'. journals w' = journals w \<Longrightarrow> Q (g w) w'" "\<And>e w'. journals w' = journals w \<Longrightarrow> E e w'"
  shows "wp (transaction (\<lambda>w. (Done (g w), w))) Q E w"
  by (rule wp_transaction) (use assms in \<open>simp_all add: wp_def\<close>)

lemma wp_recover_bundle:
  assumes "distinct (ids w)" "prepared_bundle w"
  shows "wp (recover_bundle env True) (\<lambda>_. settled) (\<lambda>_ w'. distinct (ids w')) w"
  unfolding recover_bundle_def wp_bind [of list_journals]
proof (rule wp_list_journals [OF assms(1)])
  fix js and w' :: world
  assume w': "journals w' = journals w" and js: "listing js w'"
  have d: "distinct (ids v)" "listing js v" if "journals v = journals w" for v
    using assms(1) js w' that by (auto simp: listing_def)
  let ?claimed = "(\<lambda>claimed.
               if \<not> claimed then
                 (if True then attention_bundle env ''RECOVERY_OPERATION_STATE_MISMATCH'' else ret D_Skipped)
               else if list_all (\<lambda>j. jr_state j \<in> {Planned, Snapshot_Saved, Staged, Validated}) js
                       \<and> list_ex (\<lambda>j. jr_state j \<noteq> Validated) js
               then resume_prepared_bundle env js
               else finish_published_bundle env js)"
  let ?jb = "(\<lambda>jb.
           if (case jb of None \<Rightarrow> True
               | Some b \<Rightarrow> oj_state b \<in> {J_Paused, J_Stopped, J_Failed, J_Cancelled, J_Succeeded})
           then compensate_bundle env js ''RECOVERY_OPERATION_NOT_RESUMABLE''
           else bind (claim_for_recovery (be_ordinal env) (be_worker env) (be_now env) RECOVERY_LEASE_SECONDS True)
             ?claimed)"
  let ?snapshot = "(\<lambda>snapshot.
         if snapshot = None \<or> be_item_ordinals env = [] then attention_bundle env ''RECOVERY_DURABLE_STATE_MISSING''
         else if list_ex (\<lambda>j. committed_state (jr_state j)) js then
           (if list_ex (\<lambda>j. \<not> committed_state (jr_state j)) js then attention_bundle env ''RECOVERY_MIXED_COMMIT_STATE''
            else recover_committed_bundle env js)
         else if list_ex (\<lambda>j. \<not> precommit_state (jr_state j)) js then attention_bundle env ''RECOVERY_UNKNOWN_STATE''
         else if list_ex (\<lambda>j. jr_state j \<in> {Rollback_Pending, Rolled_Back}) js
         then compensate_bundle env js ''RECOVERY_RESUME_COMPENSATION''
         else bind (transaction (\<lambda>w. (Done (job w), w))) ?jb)"
  let ?ok = "\<lambda>m. wp m (\<lambda>_. settled) (\<lambda>_ w'. distinct (ids w'))"
  have "\<not> (list_all (\<lambda>j. jr_state j \<in> {Planned, Snapshot_Saved, Staged, Validated}) js
        \<and> list_ex (\<lambda>j. jr_state j \<noteq> Validated) js)"
    using assms(2) js w' by (auto simp: prepared_bundle_def listing_def list_all_iff list_ex_iff)
  then have c: "?ok (?claimed b) v" if "journals v = journals w" for b v
    using d [OF that] by (auto intro: wp_attention_ids wp_finish_published)
  have j: "?ok (?jb b) v" if "journals v = journals w" for b v
  proof -
    have "?ok (bind (claim_for_recovery (be_ordinal env) (be_worker env) (be_now env) RECOVERY_LEASE_SECONDS True) ?claimed) v"
      unfolding wp_bind by (rule wp_job_only, rule c, simp only: that, rule d(1), simp only: that)
    moreover have "?ok (compensate_bundle env js code) v" for code using d [OF that] by (rule wp_compensate_bundle)
    ultimately show ?thesis by (simp only: split: if_split) blast
  qed
  have s: "?ok (?snapshot b) v" if "journals v = journals w" for b v
  proof -
    have "?ok (bind (transaction (\<lambda>w. (Done (job w), w))) ?jb) v"
      unfolding wp_bind by (rule wp_query, simp, rule j, simp only: that, rule d(1), simp only: that)
    moreover have "?ok (compensate_bundle env js code) v" "?ok (attention_bundle env code) v" for code
      using d [OF that] by (auto intro: wp_compensate_bundle wp_attention_ids)
    moreover have "?ok (recover_committed_bundle env js) v" if "\<not> list_ex (\<lambda>j. \<not> committed_state (jr_state j)) js"
      using d [OF \<open>journals v = journals w\<close>] that by (intro wp_recover_committed) (auto simp: list_all_iff list_ex_iff)
    ultimately show ?thesis by (simp only: split: if_split) blast
  qed
  have q: "?ok (bind (transaction (\<lambda>w. (Done (phase_of w), w))) ?snapshot) w'"
    unfolding wp_bind by (rule wp_query, simp, rule s, simp only: w', rule d(1), simp only: w')
  have t: "?ok (ret D_Skipped) w'" if "list_all (\<lambda>j. terminal_state (jr_state j)) js"
    using that js by (simp add: wp_ret settled_def listing_def list_all_iff)
  show "wp (if list_all (\<lambda>j. terminal_state (jr_state j)) js then ret D_Skipped
       else bind (transaction (\<lambda>w. (Done (phase_of w), w))) (\<lambda>snapshot.
         if snapshot = None \<or> be_item_ordinals env = [] then attention_bundle env ''RECOVERY_DURABLE_STATE_MISSING''
         else if list_ex (\<lambda>j. committed_state (jr_state j)) js then
           (if list_ex (\<lambda>j. \<not> committed_state (jr_state j)) js then attention_bundle env ''RECOVERY_MIXED_COMMIT_STATE''
            else recover_committed_bundle env js)
         else if list_ex (\<lambda>j. \<not> precommit_state (jr_state j)) js then attention_bundle env ''RECOVERY_UNKNOWN_STATE''
         else if list_ex (\<lambda>j. jr_state j \<in> {Rollback_Pending, Rolled_Back}) js
         then compensate_bundle env js ''RECOVERY_RESUME_COMPENSATION''
         else bind (transaction (\<lambda>w. (Done (job w), w))) (\<lambda>jb.
           if (case jb of None \<Rightarrow> True
               | Some b \<Rightarrow> oj_state b \<in> {J_Paused, J_Stopped, J_Failed, J_Cancelled, J_Succeeded})
           then compensate_bundle env js ''RECOVERY_OPERATION_NOT_RESUMABLE''
           else bind (claim_for_recovery (be_ordinal env) (be_worker env) (be_now env) RECOVERY_LEASE_SECONDS True)
             (\<lambda>claimed.
               if \<not> claimed then
                 (if True then attention_bundle env ''RECOVERY_OPERATION_STATE_MISMATCH'' else ret D_Skipped)
               else if list_all (\<lambda>j. jr_state j \<in> {Planned, Snapshot_Saved, Staged, Validated}) js
                       \<and> list_ex (\<lambda>j. jr_state j \<noteq> Validated) js
               then resume_prepared_bundle env js
               else finish_published_bundle env js))))
     (\<lambda>_. settled) (\<lambda>_ w'. distinct (ids w')) w'"
    using q t by (simp only: split: if_split) blast
qed (use assms(1) in simp)

text \<open>C1. A forced turn of the recovery on a bundle whose mutations had all been prepared (no row is still
  planned, snapshot-saved or staged), whatever input/output errors it meets: it returns with every row of the bundle completed, rolled back or given to a person; or
  the process was cut off again, or the database failed. It never gives up with another error, and never
  leaves a row between two states behind a disposition.\<close>

theorem forced_recovery_settles:
  assumes "distinct (map jr_id (journals w))" "prepared_bundle w"
  shows "case recover_turn env True w of
       (Done d, w') \<Rightarrow> settled w'
     | (Raised e, w') \<Rightarrow> e = Unexpected
     | (Crashed, w') \<Rightarrow> True"
proof -
  have "wp (recover_turn env True) (\<lambda>_. settled) (\<lambda>e _. broken_off e) w"
    unfolding recover_turn_def wp_handle
    by (rule wp_mono [OF wp_recover_bundle [OF assms]]) (auto intro: wp_attention split: option.splits)
  then show ?thesis by (auto simp: wp_def split: outcome.splits prod.splits)
qed

theorem forced_recovery_settles_witness:
  "case recover_turn (ex_env (Some OS_Error)) True ((ex_interrupted Applying 14)\<lparr>hazards := [Fine, Fine, Fine, Io_Error]\<rparr>) of
       (Done d, w') \<Rightarrow> settled w'
     | (Raised e, w') \<Rightarrow> e = Unexpected
     | (Crashed, w') \<Rightarrow> True"
proof (rule forced_recovery_settles)
  show "distinct (map jr_id (journals ((ex_interrupted Applying 14)\<lparr>hazards := [Fine, Fine, Fine, Io_Error]\<rparr>)))" by code_simp
  show "prepared_bundle ((ex_interrupted Applying 14)\<lparr>hazards := [Fine, Fine, Fine, Io_Error]\<rparr>)" by code_simp
qed

end
