(* ===== verification/Recovery_Gaps.thy ===== *)
theory Recovery_Gaps
  imports Bundle_Examples
begin

text \<open>
  Two ways in which the recovery does not do what it is for: a recycle mutation that it takes back
  leaves the original under its backup name, and an interrupted undo or restore of a running job is not resumed.
\<close>

definition ex_outcome :: "recovery_result outcome \<times> world \<Rightarrow>
    recovery_result outcome \<times> journal_state list \<times> node option \<times> node option \<times> node option" where
  "ex_outcome rw = (case rw of (r, w) \<Rightarrow>
     (r, map jr_state (journals w), node_at w (ex_place ''lib'' ''a''), node_at w (ex_place ''lib'' ''b''),
      node_at w (ex_place ''bin'' ''d'')))"

text \<open>A recycle move is cut off right before its commit, and the recovery finds that the catalog has
  changed and takes the bundle back. It reports the bundle as rolled back and removes the copy in the
  recycle folder, but the original stays under its hidden backup name: the transition to
  \<open>rollback_pending\<close> has overwritten the note that says that the row is a recycle mutation. The rollback
  in the process, which meets the same refusal, puts the original back.\<close>

theorem recycle_rollback_strands_the_original:
  "ex_outcome (recover_turn (ex_env (Some Stale_Revision)) True (ex_interrupted Applying 16)) =
     (Done D_Rolled_Back, [Rolled_Back], None, Some (Regular [7]), None)
   \<and> (case publish_bundle (ex_env (Some Stale_Revision)) (ex_world Applying) of (r, w) \<Rightarrow>
        r = Raised Stale_Revision \<and> map jr_state (journals w) = [Rolled_Back]
        \<and> node_at w (ex_place ''lib'' ''a'') = Some (Regular [7]) \<and> node_at w (ex_place ''lib'' ''b'') = None)"
  by code_simp

text \<open>C6. A bundle of an undo or of a baseline restore that was cut off while it was being published (its
  rows are validated, backed up or published), whose job is still queued or running, is not resumed: the
  recovery cannot claim it, because the claim asks for the phase \<open>applying\<close>, so at start-up it goes to a
  person, and later turns skip it. (The publisher and the commit accept these phases. A bundle whose job
  was stopped, or that is being rolled back, does not need the claim and is taken back.)\<close>

theorem interrupted_undo_goes_to_a_person:
  assumes "hazards w = []" "phase_of w = Some ph" "ph \<in> {Undoing, Restoring}" "be_item_ordinals env \<noteq> []"
    and "job w = Some jb" "oj_state jb \<in> {J_Queued, J_Running}"
    and "journals w \<noteq> []" "\<forall>j\<in>set (journals w). jr_state j \<in> {Validated, Source_Backed_Up, Published}"
  shows "recover_bundle env True w = attention_bundle env ''RECOVERY_OPERATION_STATE_MISMATCH'' w
     \<and> recover_bundle env False w = (Done D_Skipped, w)"
proof -
  let ?js = "filter is_recycle_mutation (journals w) @ filter (\<lambda>j. \<not> is_recycle_mutation j) (journals w)"
  have set: "set ?js = set (journals w)" by auto
  have l: "list_journals w = (Done ?js, w)" using assms(1) by (simp add: list_journals_def transaction_def effect_def)
  have s: "\<not> list_all (\<lambda>j. terminal_state (jr_state j)) ?js" "\<not> list_ex (\<lambda>j. committed_state (jr_state j)) ?js"
    "\<not> list_ex (\<lambda>j. \<not> precommit_state (jr_state j)) ?js" "\<not> list_ex (\<lambda>j. jr_state j \<in> {Rollback_Pending, Rolled_Back}) ?js"
    using assms(7,8) unfolding list_all_iff list_ex_iff set
    by (fastforce simp: terminal_state_def committed_state_def precommit_state_def neq_Nil_conv)+
  have c: "claim_for_recovery (be_ordinal env) (be_worker env) (be_now env) RECOVERY_LEASE_SECONDS f w = (Done False, w)" for f
    using assms(1-3) by (auto simp: claim_for_recovery_def transaction_def effect_def split: option.splits)
  have q: "transaction (\<lambda>w. (Done (g w), w)) w = (Done (g w), w)" for g :: "world \<Rightarrow> 'a"
    using assms(1) by (simp add: transaction_def effect_def)
  show ?thesis
    using s assms(2,4,5,6) by (auto simp: recover_bundle_def bind_def l q c ret_def simp del: set_append)
qed

theorem interrupted_undo_goes_to_a_person_witness:
  "recover_bundle (ex_env None) True (ex_interrupted Undoing 16) =
     attention_bundle (ex_env None) ''RECOVERY_OPERATION_STATE_MISMATCH'' (ex_interrupted Undoing 16)
   \<and> recover_bundle (ex_env None) False (ex_interrupted Undoing 16) = (Done D_Skipped, ex_interrupted Undoing 16)"
proof (rule interrupted_undo_goes_to_a_person)
  show "hazards (ex_interrupted Undoing 16) = []" by (simp add: ex_interrupted_def)
  show "phase_of (ex_interrupted Undoing 16) = Some Undoing" by code_simp
  show "be_item_ordinals (ex_env None) \<noteq> []" by code_simp
  show "job (ex_interrupted Undoing 16) = Some ex_job" by code_simp
  show "oj_state ex_job \<in> {J_Queued, J_Running}" by code_simp
  show "journals (ex_interrupted Undoing 16) \<noteq> []" by code_simp
  show "\<forall>j\<in>set (journals (ex_interrupted Undoing 16)). jr_state j \<in> {Validated, Source_Backed_Up, Published}" by code_simp
qed simp

end
