(* ===== verification/Crash_Logic.thy ===== *)
theory Crash_Logic
  imports Mutation_Journal
begin

text \<open>
  A logic for operations that a crash can cut off: what holds after a normal end, after an exception,
  and after a crash.
\<close>

section \<open>Triples with a crash condition\<close>

text \<open>
  \<open>spec\<close> says what a run does from a world whatever hazards it meets: none but crashes when \<open>c\<close>
  holds, none at all otherwise. Worlds are compared without the hazards that are left.
\<close>

definition allowed :: "bool \<Rightarrow> hazard set" where
  "allowed c = (if c then {Fine, Crash} else {Fine})"

definition spec ::
  "bool \<Rightarrow> (world, 'a) io \<Rightarrow> ('a \<Rightarrow> world \<Rightarrow> bool) \<Rightarrow> (io_failure option \<Rightarrow> world \<Rightarrow> bool) \<Rightarrow> world \<Rightarrow> bool" where
  "spec c m Q E w \<longleftrightarrow>
     (hazards w = [] \<longrightarrow> (\<forall>hs. set hs \<subseteq> allowed c \<longrightarrow>
        wp m (\<lambda>a w'. set (hazards w') \<subseteq> allowed c \<and> Q a (w'\<lparr>hazards := []\<rparr>))
          (\<lambda>e w'. set (hazards w') \<subseteq> allowed c \<and> E e (w'\<lparr>hazards := []\<rparr>)) (w\<lparr>hazards := hs\<rparr>)))"

lemma world_hazards [simp]:
  fixes w :: world
  shows "w\<lparr>hazards := hs, hazards := hs'\<rparr> = w\<lparr>hazards := hs'\<rparr>" "hazards w = [] \<Longrightarrow> w\<lparr>hazards := []\<rparr> = w"
    "w\<lparr>hazards := hazards w\<rparr> = w"
  by (cases w; simp)+

lemma spec_ret: "Q a w \<Longrightarrow> spec c (ret a) Q E w"
  by (simp add: spec_def wp_simps)

lemma spec_throw: "E (Some e) w \<Longrightarrow> spec c (throw e) Q E w"
  by (simp add: spec_def wp_simps)

lemma specI:
  "(\<And>hs. hazards w = [] \<Longrightarrow> set hs \<subseteq> allowed c \<Longrightarrow>
      wp m (\<lambda>a w'. set (hazards w') \<subseteq> allowed c \<and> Q a (w'\<lparr>hazards := []\<rparr>))
        (\<lambda>e w'. set (hazards w') \<subseteq> allowed c \<and> E e (w'\<lparr>hazards := []\<rparr>)) (w\<lparr>hazards := hs\<rparr>))
    \<Longrightarrow> spec c m Q E w"
  by (simp add: spec_def)

lemma specE:
  assumes "spec c m Q E w" "hazards w = []" "set hs \<subseteq> allowed c"
  shows "wp m (\<lambda>a w'. set (hazards w') \<subseteq> allowed c \<and> Q a (w'\<lparr>hazards := []\<rparr>))
      (\<lambda>e w'. set (hazards w') \<subseteq> allowed c \<and> E e (w'\<lparr>hazards := []\<rparr>)) (w\<lparr>hazards := hs\<rparr>)"
  using assms by (simp add: spec_def)

lemma specD:
  assumes "spec c m Q E (w\<lparr>hazards := []\<rparr>)" "set (hazards w) \<subseteq> allowed c"
  shows "wp m (\<lambda>a w'. set (hazards w') \<subseteq> allowed c \<and> Q a (w'\<lparr>hazards := []\<rparr>))
        (\<lambda>e w'. set (hazards w') \<subseteq> allowed c \<and> E e (w'\<lparr>hazards := []\<rparr>)) w"
  using assms(1) [unfolded spec_def, rule_format, of "hazards w"] assms(2) by simp

lemma spec_bind: "spec c m (\<lambda>a. spec c (f a) Q E) E w \<Longrightarrow> spec c (bind m f) Q E w"
proof (rule specI)
  fix hs
  assume s: "spec c m (\<lambda>a. spec c (f a) Q E) E w" and h: "hazards w = []" "set hs \<subseteq> allowed c"
  show "wp (bind m f) (\<lambda>a w'. set (hazards w') \<subseteq> allowed c \<and> Q a (w'\<lparr>hazards := []\<rparr>))
      (\<lambda>e w'. set (hazards w') \<subseteq> allowed c \<and> E e (w'\<lparr>hazards := []\<rparr>)) (w\<lparr>hazards := hs\<rparr>)"
    unfolding wp_bind by (rule wp_mono [OF specE [OF s h]]) (auto intro: specD)
qed

lemma spec_andthen: "spec c m (\<lambda>_. spec c n Q E) E w \<Longrightarrow> spec c (andthen m n) Q E w"
  unfolding andthen_def by (rule spec_bind)

lemma spec_handle:
  "spec c m Q (\<lambda>e w. case e of Some x \<Rightarrow> if p x then spec c (h x) Q E w else E (Some x) w | None \<Rightarrow> E None w) w
    \<Longrightarrow> spec c (handle p m h) Q E w"
proof (rule specI)
  fix hs
  assume s: "spec c m Q (\<lambda>e w. case e of Some x \<Rightarrow> if p x then spec c (h x) Q E w else E (Some x) w | None \<Rightarrow> E None w) w"
    and h: "hazards w = []" "set hs \<subseteq> allowed c"
  show "wp (handle p m h) (\<lambda>a w'. set (hazards w') \<subseteq> allowed c \<and> Q a (w'\<lparr>hazards := []\<rparr>))
      (\<lambda>e w'. set (hazards w') \<subseteq> allowed c \<and> E e (w'\<lparr>hazards := []\<rparr>)) (w\<lparr>hazards := hs\<rparr>)"
    unfolding wp_handle
    by (rule wp_mono [OF specE [OF s h]]) (auto split: option.splits if_splits intro: specD)
qed

lemma spec_mono:
  assumes "spec c m Q E w" "\<And>a w. Q a w \<Longrightarrow> Q' a w" "\<And>e w. E e w \<Longrightarrow> E' e w"
  shows "spec c m Q' E' w"
  using assms unfolding spec_def by (auto elim!: wp_mono)

lemma spec_assert_that: "(b \<Longrightarrow> Q () w) \<Longrightarrow> (\<not> b \<Longrightarrow> E (Some e) w) \<Longrightarrow> spec c (assert_that b e) Q E w"
  by (simp add: assert_that_def spec_ret spec_throw)

lemma spec_when_true: "(b \<Longrightarrow> spec c m Q E w) \<Longrightarrow> (\<not> b \<Longrightarrow> Q () w) \<Longrightarrow> spec c (when_true b m) Q E w"
  by (simp add: when_true_def spec_ret)

lemma spec_if: "(b \<Longrightarrow> spec c m Q E w) \<Longrightarrow> (\<not> b \<Longrightarrow> spec c n Q E w) \<Longrightarrow> spec c (if b then m else n) Q E w"
  by simp

lemma spec_reads:
  assumes "\<And>hs. f (w\<lparr>hazards := hs\<rparr>) = f w" "Q (f w) w"
  shows "spec c (io_reads f) Q E w"
  by (rule specI) (simp add: wp_simps assms)

lemma spec_modifies:
  assumes "\<And>hs. f (w\<lparr>hazards := hs\<rparr>) = (f w)\<lparr>hazards := hs\<rparr>" "hazards w = [] \<Longrightarrow> Q () (f w)"
  shows "spec c (modifies f) Q E w"
proof (rule specI)
  fix hs
  assume h: "hazards w = []" "set hs \<subseteq> allowed c"
  then have "(f w)\<lparr>hazards := []\<rparr> = f w" using assms(1) [of "[]"] by simp
  then show "wp (modifies f) (\<lambda>a w'. set (hazards w') \<subseteq> allowed c \<and> Q a (w'\<lparr>hazards := []\<rparr>))
      (\<lambda>e w'. set (hazards w') \<subseteq> allowed c \<and> E e (w'\<lparr>hazards := []\<rparr>)) (w\<lparr>hazards := hs\<rparr>)"
    using assms(2) h by (simp add: wp_simps assms(1))
qed

lemma spec_lift_result:
  "(\<And>e. r = Inl e \<Longrightarrow> E (Some e) w) \<Longrightarrow> (\<And>a. r = Inr a \<Longrightarrow> Q a w) \<Longrightarrow> spec c (lift_result r) Q E w"
  by (cases r) (simp_all add: lift_result_def spec_ret spec_throw)

text \<open>A step of the system that does not look at the hazards.\<close>

lemma spec_effect:
  assumes f: "\<And>hs. f (w\<lparr>hazards := hs\<rparr>) = (r, w'\<lparr>hazards := hs\<rparr>)"
    and "\<And>a. r = Done a \<Longrightarrow> hazards w = [] \<Longrightarrow> Q a (w'\<lparr>hazards := []\<rparr>)"
    and "\<And>e. r = Raised e \<Longrightarrow> hazards w = [] \<Longrightarrow> E (Some e) (w'\<lparr>hazards := []\<rparr>)"
    and "r \<noteq> Crashed" and crash: "c \<Longrightarrow> E None w"
  shows "spec c (effect x f) Q E w"
proof (rule specI)
  fix hs
  assume h: "hazards w = []" "set hs \<subseteq> allowed c"
  show "wp (effect x f) (\<lambda>a w'. set (hazards w') \<subseteq> allowed c \<and> Q a (w'\<lparr>hazards := []\<rparr>))
      (\<lambda>e w'. set (hazards w') \<subseteq> allowed c \<and> E e (w'\<lparr>hazards := []\<rparr>)) (w\<lparr>hazards := hs\<rparr>)"
  proof (cases hs)
    case Nil
    then show ?thesis using assms h f [of "[]"] by (cases r) (simp_all add: wp_def effect_def)
  next
    case (Cons k ks)
    then consider "k = Fine" | "k = Crash" c using h(2) by (auto simp: allowed_def split: if_splits)
    then show ?thesis
    proof cases
      case 1
      then show ?thesis using assms h Cons by (cases r) (simp_all add: wp_def effect_def f)
    next
      case 2
      then show ?thesis using crash h Cons by (simp add: wp_def effect_def)
    qed
  qed
qed

lemma spec_io_each:
  assumes "I xs w"
    and "\<And>x xs w. I (x # xs) w \<Longrightarrow> spec c (f x) (\<lambda>_. I xs) E w"
  shows "spec c (io_each f xs) (\<lambda>_. I []) E w"
  using assms(1)
proof (induction xs arbitrary: w)
  case (Cons x xs)
  have "spec c (f x) (\<lambda>_. spec c (io_each f xs) (\<lambda>_. I []) E) E w"
    using assms(2) [OF Cons.prems] Cons.IH by (rule spec_mono) auto
  then show ?case by (simp add: spec_andthen)
qed (simp add: spec_ret)

lemma spec_io_map:
  assumes "I xs [] w"
    and "\<And>x xs ys w. I (x # xs) ys w \<Longrightarrow> spec c (f x) (\<lambda>y. I xs (ys @ [y])) E w"
  shows "spec c (io_map f xs) (\<lambda>ys. I [] ys) E w"
proof -
  have "spec c (io_map f xs) (\<lambda>zs. I [] (ys @ zs)) E w" if "I xs ys w" for ys
    using that
  proof (induction xs arbitrary: ys w)
    case (Cons x xs)
    have "spec c (f x) (\<lambda>y. spec c (io_map f xs) (\<lambda>zs. I [] ((ys @ [y]) @ zs)) E) E w"
      using assms(2) [OF Cons.prems] Cons.IH by (rule spec_mono) auto
    then show ?case by (auto intro!: spec_bind spec_ret elim: spec_mono)
  qed (simp add: spec_ret)
  then show ?thesis using assms(1) by fastforce
qed

section \<open>What a look at the disk does not depend on\<close>

lemma node_at_put [simp]: "node_at (put w p n) q = (if q = p then Some n else node_at w q)"
  by (simp add: node_at_def put_def dict_get_set)

lemma node_at_take_away [simp]: "node_at (take_away w p) q = (if q = p then None else node_at w q)"
  by (simp add: node_at_def take_away_def dict_get_pop)

lemma node_at_updates [simp]:
  fixes w :: world
  shows "node_at (w\<lparr>hazards := hs\<rparr>) = node_at w" "node_at (w\<lparr>journals := js\<rparr>) = node_at w"
    "node_at (w\<lparr>job := jb\<rparr>) = node_at w" "node_at (w\<lparr>works := ws\<rparr>) = node_at w"
    "node_at (w\<lparr>tracks := ts\<rparr>) = node_at w" "node_at (w\<lparr>memory := ms\<rparr>) = node_at w"
    "node_at (w\<lparr>collisions := cs\<rparr>) = node_at w" "node_at (set_row w j) = node_at w"
  by (simp_all add: node_at_def fun_eq_iff set_row_def)

lemma evidence_cong:
  "node_at w' p = node_at w p \<Longrightarrow> sha256_hex w' = sha256_hex w \<Longrightarrow> evidence_of w' (Some p) = evidence_of w (Some p)"
  by (auto simp: evidence_of_def split: option.splits node.splits)

lemma evidence_same:
  "nodes w' = nodes w \<Longrightarrow> sha256_hex w' = sha256_hex w \<Longrightarrow> evidence_of w' = evidence_of w"
  by (auto simp: evidence_of_def node_at_def fun_eq_iff split: option.splits node.splits)

lemma evidence_updates [simp]:
  fixes w :: world
  shows "evidence_of (w\<lparr>hazards := hs\<rparr>) = evidence_of w" "evidence_of (w\<lparr>journals := js\<rparr>) = evidence_of w"
    "evidence_of (w\<lparr>job := jb\<rparr>) = evidence_of w" "evidence_of (w\<lparr>works := ws\<rparr>) = evidence_of w"
    "evidence_of (w\<lparr>tracks := ts\<rparr>) = evidence_of w" "evidence_of (w\<lparr>memory := ms\<rparr>) = evidence_of w"
    "evidence_of (w\<lparr>collisions := cs\<rparr>) = evidence_of w" "evidence_of (set_row w j) = evidence_of w"
  by (rule evidence_same; simp add: set_row_def)+

lemma rooted_parent_cong:
  assumes "\<And>p. node_at w p = Some Directory \<Longrightarrow> node_at w' p = Some Directory" "rooted_parent R r n w = Inr l"
  shows "rooted_parent R r n w' = Inr l"
  using assms by (auto simp: rooted_parent_def list_all_iff split: option.splits if_splits)

lemma rooted_parent_updates [simp]:
  fixes w :: world
  shows "rooted_parent R r n (w\<lparr>hazards := hs\<rparr>) = rooted_parent R r n w"
  by (auto simp: rooted_parent_def split: option.splits)

lemma put_hazards:
  fixes w :: world
  shows "put (w\<lparr>hazards := hs\<rparr>) p n = (put w p n)\<lparr>hazards := hs\<rparr>"
    "take_away (w\<lparr>hazards := hs\<rparr>) p = (take_away w p)\<lparr>hazards := hs\<rparr>"
  by (simp_all add: put_def take_away_def)

lemma hazards_put [simp]: "hazards (put w p n) = hazards w" "hazards (take_away w p) = hazards w"
  by (simp_all add: put_def take_away_def)

section \<open>The operations\<close>

lemma spec_inspect:
  assumes "Q (evidence_of w p) w" "c \<Longrightarrow> E None w"
  shows "spec c (inspect p) Q E w"
proof (cases p)
  case None
  then show ?thesis using assms by (simp add: inspect_def spec_ret evidence_of_def)
next
  case (Some q)
  show ?thesis unfolding inspect_def Some
    by simp (rule spec_effect [where w' = w and r = "Done (evidence_of w (Some q))"], use assms Some in simp_all)
qed

lemma spec_inspect_kind:
  assumes "Q (kind_of (evidence_of w p)) w" "c \<Longrightarrow> E None w"
  shows "spec c (inspect_kind p) Q E w"
proof (cases p)
  case None
  then show ?thesis using assms by (simp add: inspect_kind_def spec_ret evidence_of_def kind_of_def)
next
  case (Some q)
  show ?thesis unfolding inspect_kind_def Some
    by simp (rule spec_effect [where w' = w and r = "Done (kind_of (evidence_of w (Some q)))"], use assms Some in simp_all)
qed

lemma spec_hash_file:
  assumes "node_at w p = Some (Regular x)" "Q (sha256_hex w x) w" "c \<Longrightarrow> E None w"
  shows "spec c (hash_file p) Q E w"
  unfolding hash_file_def
  by (rule spec_effect [where w' = w and r = "Done (sha256_hex w x)"]) (simp_all add: assms)

lemma spec_occupied:
  "Q (node_at w p \<noteq> None) w \<Longrightarrow> (c \<Longrightarrow> E None w) \<Longrightarrow> spec c (occupied p) Q E w"
  unfolding occupied_def by (rule spec_effect [where w' = w and r = "Done (node_at w p \<noteq> None)"]) simp_all

lemma spec_replace_rooted:
  assumes "rooted_parent R (fst a) (snd a) w = Inr s" "rooted_parent R (fst b) (snd b) w = Inr d"
    and "node_at w s = Some (Regular x)" "node_at w d \<noteq> Some Directory" "s \<noteq> d"
    and "hazards w = [] \<Longrightarrow> Q () (put (take_away w s) d (Regular x))" "c \<Longrightarrow> E None w"
  shows "spec c (replace_rooted R a b) Q E w"
proof -
  obtain ra where ra: "dict_get R (fst a) = Some ra" using assms(1) by (auto simp: rooted_parent_def split: option.splits)
  obtain rb where rb: "dict_get R (fst b) = Some rb" using assms(2) by (auto simp: rooted_parent_def split: option.splits)
  show ?thesis
    unfolding replace_rooted_def
    by (rule spec_effect [where w' = "put (take_away w s) d (Regular x)" and r = "Done ()"])
      (simp_all add: assms ra rb os_replace_def put_hazards)
qed

lemma spec_unlink_rooted:
  assumes "rooted_parent R (fst a) (snd a) w = Inr p" "node_at w p = Some (Regular x)"
    and "hazards w = [] \<Longrightarrow> Q () (take_away w p)" "c \<Longrightarrow> E None w"
  shows "spec c (unlink_rooted R a m) Q E w"
  unfolding unlink_rooted_def
  by (rule spec_effect [where w' = "take_away w p" and r = "Done ()"])
    (simp_all add: assms os_unlink_def put_hazards)

lemma spec_unlink_missing:
  assumes "rooted_parent R (fst a) (snd a) w = Inr p" "node_at w p = None"
    and "hazards w = [] \<Longrightarrow> Q () w" "c \<Longrightarrow> E None w"
  shows "spec c (unlink_rooted R a True) Q E w"
  unfolding unlink_rooted_def
  by (rule spec_effect [where w' = w and r = "Done ()"]) (simp_all add: assms os_unlink_def)

lemma spec_transaction:
  assumes "\<And>hs. f (w\<lparr>hazards := hs\<rparr>) = (r, w'\<lparr>hazards := hs\<rparr>)"
    and "\<And>a. r = Done a \<Longrightarrow> hazards w = [] \<Longrightarrow> Q a (w'\<lparr>hazards := []\<rparr>)"
    and "\<And>e. r = Raised e \<Longrightarrow> hazards w = [] \<Longrightarrow> E (Some e) (w'\<lparr>hazards := []\<rparr>)"
    and "r \<noteq> Crashed" "c \<Longrightarrow> E None w"
  shows "spec c (transaction f) Q E w"
  unfolding transaction_def by (rule spec_effect [where w' = w' and r = r]) (use assms in auto)

text \<open>A transaction that only reads.\<close>

lemma spec_query:
  assumes "\<And>hs. g (w\<lparr>hazards := hs\<rparr>) = g w" "Q (g w) w" "c \<Longrightarrow> E None w"
  shows "spec c (transaction (\<lambda>w. (Done (g w), w))) Q E w"
  by (rule spec_transaction [where w' = w and r = "Done (g w)"]) (simp_all add: assms)

definition listed :: "world \<Rightarrow> journal list" where
  "listed w = filter is_recycle_mutation (journals w) @ filter (\<lambda>j. \<not> is_recycle_mutation j) (journals w)"

lemma set_listed [simp]: "set (listed w) = set (journals w)"
  by (auto simp: listed_def)

lemma spec_list_journals:
  "Q (listed w) w \<Longrightarrow> (c \<Longrightarrow> E None w) \<Longrightarrow> spec c list_journals Q E w"
  unfolding list_journals_def by (rule spec_query) (simp_all add: listed_def)

lemma row_hazards [simp]: "row (w\<lparr>hazards := hs\<rparr>) i = row w i"
  by (simp add: row_def)

lemma set_row_hazards: "set_row (w\<lparr>hazards := hs\<rparr>) j = (set_row w j)\<lparr>hazards := hs\<rparr>"
  by (simp add: set_row_def)

lemma hazards_set_row [simp]: "hazards (set_row w j) = hazards w"
  by (simp add: set_row_def)

lemma spec_transition:
  assumes "row w (jr_id j) = Some k" "jr_state k = old" "jr_row_revision k = r" "r < MAX_REVISION"
    and "new \<in> set (journal_transitions old)"
    and "hazards w = [] \<Longrightarrow> Q (moved_row opts new k) (set_row w (moved_row opts new k))" "c \<Longrightarrow> E None w"
  shows "spec c (transition_journal j old r new opts) Q E w"
  unfolding transition_journal_def
  by (intro spec_andthen spec_assert_that
      spec_transaction [where w' = "set_row w (moved_row opts new k)" and r = "Done (moved_row opts new k)"])
    (use assms in \<open>auto simp: set_row_hazards\<close>)

text \<open>A transition from a state that the row is no longer in.\<close>

lemma spec_transition_stale:
  assumes "row w (jr_id j) = Some k" "jr_state k \<noteq> old \<or> jr_row_revision k \<noteq> r" "jr_row_revision k < MAX_REVISION"
    and "new \<in> set (journal_transitions old)"
    and "E (Some Stale_Revision) w" "c \<Longrightarrow> E None w"
  shows "spec c (transition_journal j old r new opts) Q E w"
  unfolding transition_journal_def
  by (intro spec_andthen spec_assert_that spec_transaction [where w' = w and r = "Raised Stale_Revision"])
    (use assms in \<open>auto\<close>)

end
