(* ===== verification/Journal_Invariant.thy ===== *)
theory Journal_Invariant
  imports Management_Recovery Crash_Logic
begin

text \<open>
  What is true of the files of a bundle in each state of its journal, and that it stays true under
  the steps of publishing and recovery. Between two steps the process can end.
\<close>

section \<open>The places of a journal\<close>

definition usable :: "roots \<Rightarrow> rooted_name \<Rightarrow> bool" where
  "usable R n \<longleftrightarrow> (case n of (Some r, Some p) \<Rightarrow> r \<noteq> [] \<and> rooted_location R r p \<noteq> None | _ \<Rightarrow> False)"

definition place :: "roots \<Rightarrow> rooted_name \<Rightarrow> location" where
  "place R n = the (rooted_location R (the (fst n)) (the (snd n)))"

definition optional_place :: "roots \<Rightarrow> rooted_name \<Rightarrow> location option" where
  "optional_place R n = (if n = (None, None) then None else Some (place R n))"

definition src :: "roots \<Rightarrow> journal \<Rightarrow> location option" where "src R j = optional_place R (jr_source j)"
definition tmp :: "roots \<Rightarrow> journal \<Rightarrow> location" where "tmp R j = place R (jr_temporary j)"
definition bak :: "roots \<Rightarrow> journal \<Rightarrow> location option" where "bak R j = optional_place R (jr_backup j)"
definition dst :: "roots \<Rightarrow> journal \<Rightarrow> location" where "dst R j = place R (jr_destination j)"

definition in_place :: "roots \<Rightarrow> journal \<Rightarrow> bool" where "in_place R j \<longleftrightarrow> src R j = Some (dst R j)"

definition deleting :: "journal \<Rightarrow> bool" where
  "deleting j \<longleftrightarrow> jr_subject_kind j = External_Art \<and> py_startswith (jr_subject_key j) (lit ''delete:'')"

definition places :: "roots \<Rightarrow> journal \<Rightarrow> location list" where
  "places R j = tmp R j # dst R j # (case bak R j of None \<Rightarrow> [] | Some b \<Rightarrow> [b])
     @ (case src R j of None \<Rightarrow> [] | Some s \<Rightarrow> if s = dst R j then [] else [s])"

text \<open>A journal as the publisher makes it, recycle mutations apart.\<close>

definition wf_row :: "roots \<Rightarrow> journal \<Rightarrow> bool" where
  "wf_row R j \<longleftrightarrow>
     usable R (jr_destination j) \<and> usable R (jr_temporary j)
     \<and> (jr_source j = (None, None) \<and> jr_source_fingerprint j = None
        \<or> usable R (jr_source j) \<and> jr_source_fingerprint j \<noteq> None)
     \<and> (jr_backup j = (None, None) \<or> usable R (jr_backup j))
     \<and> jr_staged_fingerprint j \<noteq> None
     \<and> (in_place R j \<longrightarrow> bak R j \<noteq> None)
     \<and> (jr_subject_kind j = External_Art \<longrightarrow> in_place R j \<or> src R j = None)
     \<and> (deleting j \<longrightarrow> in_place R j \<and> jr_staged_fingerprint j = jr_source_fingerprint j)
     \<and> (jr_subject_kind j = Audio \<longrightarrow> jr_local_track_id j \<noteq> None)
     \<and> \<not> is_recycle_mutation j
     \<and> (jr_state j \<notin> {Rollback_Pending, Rolled_Back, Needs_Attention} \<longrightarrow> (is_delete_mutation j \<longleftrightarrow> deleting j))
     \<and> distinct (places R j)"

section \<open>The files\<close>

definition file_holds :: "'z disk_scheme \<Rightarrow> location \<Rightarrow> pystr option \<Rightarrow> bool" where
  "file_holds w p f \<longleftrightarrow> exact (evidence_of w (Some p)) f"

definition gone :: "'z disk_scheme \<Rightarrow> location \<Rightarrow> bool" where
  "gone w p \<longleftrightarrow> node_at w p = None"

definition opt_gone :: "'z disk_scheme \<Rightarrow> location option \<Rightarrow> bool" where
  "opt_gone w p = (case p of None \<Rightarrow> True | Some q \<Rightarrow> gone w q)"

definition opt_holds :: "'z disk_scheme \<Rightarrow> location option \<Rightarrow> pystr option \<Rightarrow> bool" where
  "opt_holds w p f = (case p of None \<Rightarrow> True | Some q \<Rightarrow> file_holds w q f)"

abbreviation T_ok :: "roots \<Rightarrow> world \<Rightarrow> journal \<Rightarrow> bool" where
  "T_ok R w j \<equiv> file_holds w (tmp R j) (jr_staged_fingerprint j)"
abbreviation D_ok :: "roots \<Rightarrow> world \<Rightarrow> journal \<Rightarrow> bool" where
  "D_ok R w j \<equiv> file_holds w (dst R j) (jr_staged_fingerprint j)"
abbreviation B_ok :: "roots \<Rightarrow> world \<Rightarrow> journal \<Rightarrow> bool" where
  "B_ok R w j \<equiv> opt_holds w (bak R j) (jr_source_fingerprint j)"
abbreviation S_ok :: "roots \<Rightarrow> world \<Rightarrow> journal \<Rightarrow> bool" where
  "S_ok R w j \<equiv> opt_holds w (src R j) (jr_source_fingerprint j)"

fun in_place_fits :: "bool \<Rightarrow> roots \<Rightarrow> world \<Rightarrow> journal \<Rightarrow> journal_state \<Rightarrow> bool" where
  "in_place_fits c R w j Validated \<longleftrightarrow>
     T_ok R w j \<and> (S_ok R w j \<and> opt_gone w (bak R j) \<or> gone w (dst R j) \<and> B_ok R w j)"
| "in_place_fits c R w j Source_Backed_Up \<longleftrightarrow>
     B_ok R w j \<and> (T_ok R w j \<and> gone w (dst R j) \<or> \<not> deleting j \<and> gone w (tmp R j) \<and> D_ok R w j)"
| "in_place_fits c R w j Published \<longleftrightarrow>
     B_ok R w j \<and> (if deleting j then T_ok R w j \<and> gone w (dst R j) else gone w (tmp R j) \<and> D_ok R w j)"
| "in_place_fits c R w j Completed \<longleftrightarrow>
     opt_gone w (bak R j) \<and> gone w (tmp R j) \<and> (if deleting j then gone w (dst R j) else D_ok R w j)"
| "in_place_fits c R w j Rollback_Pending \<longleftrightarrow>
     (T_ok R w j \<or> gone w (tmp R j))
     \<and> (B_ok R w j \<and> (gone w (dst R j) \<or> D_ok R w j) \<or> opt_gone w (bak R j) \<and> S_ok R w j)"
| "in_place_fits c R w j Rolled_Back \<longleftrightarrow> opt_gone w (bak R j) \<and> gone w (tmp R j) \<and> S_ok R w j"
| "in_place_fits c R w j Needs_Attention \<longleftrightarrow>
     B_ok R w j \<or> S_ok R w j \<or> c \<and> (if deleting j then gone w (dst R j) else D_ok R w j)"
| "in_place_fits c R w j Planned \<longleftrightarrow> False"
| "in_place_fits c R w j Snapshot_Saved \<longleftrightarrow> False"
| "in_place_fits c R w j Staged \<longleftrightarrow> False"
| "in_place_fits c R w j s \<longleftrightarrow>
     (if deleting j then gone w (dst R j) \<and> (B_ok R w j \<and> T_ok R w j \<or> opt_gone w (bak R j) \<and> (T_ok R w j \<or> gone w (tmp R j)))
      else D_ok R w j \<and> gone w (tmp R j) \<and> (B_ok R w j \<or> opt_gone w (bak R j)))"

fun moving_fits :: "bool \<Rightarrow> roots \<Rightarrow> world \<Rightarrow> journal \<Rightarrow> journal_state \<Rightarrow> bool" where
  "moving_fits c R w j Validated \<longleftrightarrow>
     S_ok R w j \<and> opt_gone w (bak R j)
     \<and> (T_ok R w j \<and> gone w (dst R j) \<or> gone w (tmp R j) \<and> D_ok R w j)"
| "moving_fits c R w j Published \<longleftrightarrow>
     S_ok R w j \<and> opt_gone w (bak R j) \<and> gone w (tmp R j) \<and> D_ok R w j"
| "moving_fits c R w j Rollback_Pending \<longleftrightarrow>
     S_ok R w j \<and> opt_gone w (bak R j) \<and> (T_ok R w j \<or> gone w (tmp R j)) \<and> (gone w (dst R j) \<or> D_ok R w j)"
| "moving_fits c R w j Rolled_Back \<longleftrightarrow>
     S_ok R w j \<and> opt_gone w (bak R j) \<and> gone w (tmp R j) \<and> gone w (dst R j)"
| "moving_fits c R w j Needs_Attention \<longleftrightarrow> S_ok R w j \<or> c \<and> D_ok R w j"
| "moving_fits c R w j Planned \<longleftrightarrow> False"
| "moving_fits c R w j Snapshot_Saved \<longleftrightarrow> False"
| "moving_fits c R w j Staged \<longleftrightarrow> False"
| "moving_fits c R w j Source_Backed_Up \<longleftrightarrow> False"
| "moving_fits c R w j s \<longleftrightarrow>
     opt_gone w (bak R j) \<and> gone w (tmp R j) \<and> D_ok R w j \<and> (S_ok R w j \<or> opt_gone w (src R j))"

definition row_fits :: "bool \<Rightarrow> roots \<Rightarrow> world \<Rightarrow> journal \<Rightarrow> bool" where
  "row_fits c R w j \<longleftrightarrow>
     (if in_place R j then in_place_fits c R w j (jr_state j) else moving_fits c R w j (jr_state j))"

section \<open>The bundle\<close>

definition committed :: "nat \<Rightarrow> world \<Rightarrow> bool" where
  "committed n w \<longleftrightarrow> dict_get (works w) n = Some W_Succeeded"

definition apart :: "roots \<Rightarrow> journal list \<Rightarrow> bool" where
  "apart R js \<longleftrightarrow> (\<forall>j\<in>set js. \<forall>k\<in>set js. jr_id j \<noteq> jr_id k \<longrightarrow> set (places R j) \<inter> set (places R k) = {})"

definition reachable_name :: "roots \<Rightarrow> 'z disk_scheme \<Rightarrow> rooted_name \<Rightarrow> bool" where
  "reachable_name R w n \<longleftrightarrow>
     (case n of (Some r, Some p) \<Rightarrow> rooted_parent R r p w = Inr (place R n) | _ \<Rightarrow> True)"

definition reachable_names :: "roots \<Rightarrow> 'z disk_scheme \<Rightarrow> journal \<Rightarrow> bool" where
  "reachable_names R w j \<longleftrightarrow>
     reachable_name R w (jr_source j) \<and> reachable_name R w (jr_temporary j)
     \<and> reachable_name R w (jr_backup j) \<and> reachable_name R w (jr_destination j)"

text \<open>How many transitions a journal can still make.\<close>

fun steps_left :: "journal_state \<Rightarrow> int" where
  "steps_left Validated = 6"
| "steps_left Source_Backed_Up = 5"
| "steps_left Published = 4"
| "steps_left Catalog_Committed = 3"
| "steps_left Cleanup_Pending = 2"
| "steps_left Rollback_Pending = 2"
| "steps_left _ = 0"

definition bundle_row_ok :: "nat \<Rightarrow> roots \<Rightarrow> world \<Rightarrow> journal \<Rightarrow> bool" where
  "bundle_row_ok n R w j \<longleftrightarrow>
     wf_row R j \<and> row_fits (committed n w) R w j
     \<and> jr_row_revision j + steps_left (jr_state j) < MAX_REVISION
     \<and> (if committed n w then committed_state (jr_state j) \<or> jr_state j = Needs_Attention
        else \<not> committed_state (jr_state j))
     \<and> (committed_state (jr_state j) \<and> jr_subject_kind j = Audio \<longrightarrow> catalog_agrees w j)"

definition fitting :: "nat \<Rightarrow> roots \<Rightarrow> world \<Rightarrow> bool" where
  "fitting n R w \<longleftrightarrow>
     distinct (map jr_id (journals w)) \<and> apart R (journals w)
     \<and> (\<forall>j\<in>set (journals w). bundle_row_ok n R w j)
     \<and> distinct (map jr_local_track_id (audio_rows w))
     \<and> ((\<forall>j\<in>set (journals w). terminal_state (jr_state j))
        \<or> (\<forall>j\<in>set (journals w). reachable_names R w j)
          \<and> (committed n w \<or> dict_get (works w) n \<in> {Some W_Pending, Some W_Running}))"

section \<open>Frames\<close>

lemma holds_node: "file_holds w p f \<Longrightarrow> \<exists>x. node_at w p = Some (Regular x) \<and> f = Some (sha256_hex w x)"
  by (auto simp: file_holds_def exact_def evidence_of_def split: option.splits node.splits)

lemma holds_iff: "file_holds w p f \<longleftrightarrow> (\<exists>x. node_at w p = Some (Regular x) \<and> f = Some (sha256_hex w x))"
  by (auto simp: file_holds_def exact_def evidence_of_def split: option.splits node.splits)

lemma places_mem:
  "tmp R j \<in> set (places R j)" "dst R j \<in> set (places R j)"
  "bak R j = Some b \<Longrightarrow> b \<in> set (places R j)" "src R j = Some s \<Longrightarrow> s \<in> set (places R j)"
  by (auto simp: places_def split: option.splits)

lemma fits_frame:
  assumes n: "\<And>p. p \<in> set (places R j) \<Longrightarrow> node_at w' p = node_at w p" and sha: "sha256_hex w' = sha256_hex w"
  shows "row_fits c R w' j = row_fits c R w j"
proof -
  have h: "file_holds w' p f = file_holds w p f" "gone w' p = gone w p" if "p \<in> set (places R j)" for p f
    using n [OF that] sha by (simp_all add: holds_iff gone_def)
  have "opt_holds w' (bak R j) f = opt_holds w (bak R j) f" "opt_gone w' (bak R j) = opt_gone w (bak R j)"
    "opt_holds w' (src R j) f = opt_holds w (src R j) f" "opt_gone w' (src R j) = opt_gone w (src R j)" for f
    using h places_mem by (auto simp: opt_holds_def opt_gone_def split: option.splits)
  then show ?thesis
    using h [OF places_mem(1)] h [OF places_mem(2)] by (cases "jr_state j") (simp_all add: row_fits_def)
qed

lemma reachable_name_frame:
  assumes "\<And>p. node_at w p = Some Directory \<Longrightarrow> node_at w' p = Some Directory" "reachable_name R w n"
  shows "reachable_name R w' n"
  using assms(2) rooted_parent_cong [OF assms(1)]
  by (auto simp: reachable_name_def split: option.splits prod.splits)

lemma reachable_frame:
  assumes "\<And>p. node_at w p = Some Directory \<Longrightarrow> node_at w' p = Some Directory" "reachable_names R w j"
  shows "reachable_names R w' j"
  using assms reachable_name_frame [of w w'] unfolding reachable_names_def by blast

lemma find_id: "distinct (map jr_id js) \<Longrightarrow> List.find (\<lambda>j. jr_id j = i) js = Some j \<longleftrightarrow> j \<in> set js \<and> jr_id j = i"
  by (induction js) auto

lemma row_in_store:
  "distinct (map jr_id (journals w)) \<Longrightarrow> row w i = Some j \<longleftrightarrow> j \<in> set (journals w) \<and> jr_id j = i"
  by (simp add: row_def find_id)

section \<open>Steps that keep the invariant\<close>

lemma apart_places:
  "apart R js \<Longrightarrow> j \<in> set js \<Longrightarrow> k \<in> set js \<Longrightarrow> jr_id j \<noteq> jr_id k \<Longrightarrow> p \<in> set (places R j) \<Longrightarrow> p \<notin> set (places R k)"
  unfolding apart_def by blast

lemma same_id: "distinct (map jr_id js) \<Longrightarrow> j \<in> set js \<Longrightarrow> k \<in> set js \<Longrightarrow> jr_id j = jr_id k \<longleftrightarrow> j = k"
  by (auto simp: distinct_map inj_on_def)

lemma inv_row_fits: "fitting n R w \<Longrightarrow> j \<in> set (journals w) \<Longrightarrow> bundle_row_ok n R w j"
  by (simp add: fitting_def)

lemma catalog_same: "tracks w' = tracks w \<Longrightarrow> catalog_agrees w' k = catalog_agrees w k"
  by (simp add: catalog_agrees_def cong: option.case_cong)

text \<open>The disk changes at places of one row only, and no directory goes.\<close>

lemma inv_disk:
  assumes "fitting n R w" "j \<in> set (journals w)"
    and w': "journals w' = journals w" "works w' = works w" "tracks w' = tracks w" "sha256_hex w' = sha256_hex w"
    and change: "\<And>p. node_at w' p \<noteq> node_at w p \<Longrightarrow> p \<in> set (places R j) \<and> node_at w p \<noteq> Some Directory"
    and row_fits: "row_fits (committed n w) R w' j"
  shows "fitting n R w'"
proof -
  have c: "committed n w' = committed n w" by (simp add: committed_def w')
  have a: "catalog_agrees w' k = catalog_agrees w k" for k by (rule catalog_same) (rule w')
  have "bundle_row_ok n R w' k" if k: "k \<in> set (journals w)" for k
  proof -
    have r: "bundle_row_ok n R w k" using assms(1) k by (rule inv_row_fits)
    have "row_fits (committed n w) R w' k"
    proof (cases "k = j")
      case True
      then show ?thesis using row_fits by simp
    next
      case False
      then have "jr_id j \<noteq> jr_id k" using assms(1,2) k by (auto simp: fitting_def same_id)
      then have "node_at w' p = node_at w p" if "p \<in> set (places R k)" for p
        using apart_places [OF _ assms(2) k, of R p] assms(1) change that by (auto simp: fitting_def)
      then show ?thesis using r fits_frame [of R k w' w] w'(4) by (simp add: bundle_row_ok_def)
    qed
    then show ?thesis using r by (simp add: bundle_row_ok_def c a)
  qed
  moreover have "reachable_names R w' k" if "reachable_names R w k" for k
    by (rule reachable_frame [OF _ that]) (use change in metis)
  ultimately show ?thesis using assms(1) by (auto simp: fitting_def c w' audio_rows_def committed_def)
qed

lemma map_filter_map:
  "(\<And>x. x \<in> set xs \<Longrightarrow> P (g x) = P x \<and> f (g x) = f x) \<Longrightarrow> map f (filter P (map g xs)) = map f (filter P xs)"
  by (induction xs) auto

text \<open>One row moves to another state.\<close>

lemma moved_row_simps [simp]:
  "jr_id (moved_row opts s j) = jr_id j" "jr_state (moved_row opts s j) = s"
  "jr_source (moved_row opts s j) = jr_source j" "jr_temporary (moved_row opts s j) = jr_temporary j"
  "jr_backup (moved_row opts s j) = jr_backup j" "jr_destination (moved_row opts s j) = jr_destination j"
  "jr_subject_kind (moved_row opts s j) = jr_subject_kind j" "jr_subject_key (moved_row opts s j) = jr_subject_key j"
  "jr_source_fingerprint (moved_row opts s j) = jr_source_fingerprint j"
  "jr_local_track_id (moved_row opts s j) = jr_local_track_id j"
  "jr_plan_item_ordinal (moved_row opts s j) = jr_plan_item_ordinal j"
  "jr_row_revision (moved_row opts s j) = jr_row_revision j + 1"
  "to_staged_fingerprint opts = None \<Longrightarrow> jr_staged_fingerprint (moved_row opts s j) = jr_staged_fingerprint j"
  by (simp_all add: moved_row_def)

lemma moved_row_places [simp]:
  "src R (moved_row opts s j) = src R j" "tmp R (moved_row opts s j) = tmp R j"
  "bak R (moved_row opts s j) = bak R j" "dst R (moved_row opts s j) = dst R j"
  "in_place R (moved_row opts s j) = in_place R j" "deleting (moved_row opts s j) = deleting j"
  "places R (moved_row opts s j) = places R j"
  by (simp_all add: src_def tmp_def bak_def dst_def in_place_def deleting_def places_def cong: option.case_cong)

lemma journals_set_row [simp]:
  "journals (set_row w j) = map (\<lambda>k. if jr_id k = jr_id j then j else k) (journals w)"
  "works (set_row w j) = works w" "tracks (set_row w j) = tracks w" "job (set_row w j) = job w"
  "memory (set_row w j) = memory w" "sha256_hex (set_row w j) = sha256_hex w" "nodes (set_row w j) = nodes w"
  "phase_of (set_row w j) = phase_of w" "collisions (set_row w j) = collisions w"
  by (simp_all add: set_row_def)

lemma fits_same_disk: "nodes w' = nodes w \<Longrightarrow> sha256_hex w' = sha256_hex w \<Longrightarrow> row_fits c R w' j = row_fits c R w j"
  by (rule fits_frame) (simp_all add: node_at_def)

lemma reachable_same_disk: "nodes w' = nodes w \<Longrightarrow> reachable_names R w' j = reachable_names R w j"
  by (metis node_at_def reachable_frame)

lemma committed_set_row [simp]: "committed n (set_row w j) = committed n w"
  by (simp add: committed_def)

lemma inv_row:
  assumes i: "fitting n R w" and j: "j \<in> set (journals w)"
    and ok: "bundle_row_ok n R w (moved_row opts s j)" and active: "\<not> terminal_state (jr_state j)"
  shows "fitting n R (set_row w (moved_row opts s j))"
proof -
  let ?k = "moved_row opts s j" and ?w = "set_row w (moved_row opts s j)"
  have ids: "distinct (map jr_id (journals w))" using i by (simp add: fitting_def)
  have mem: "x \<in> set (journals ?w) \<longleftrightarrow> x = ?k \<or> x \<in> set (journals w) \<and> x \<noteq> j" for x
    using j same_id [OF ids _ j] by (auto split: if_splits)
  have "map jr_id (journals ?w) = map jr_id (journals w)" by auto
  then have "distinct (map jr_id (journals ?w))" using ids by (simp only:)
  moreover have "apart R (journals ?w)"
    using i j unfolding fitting_def apart_def
    by (auto simp: mem simp del: journals_set_row(1)) (metis moved_row_simps(1) disjoint_iff)+
  moreover have "bundle_row_ok n R ?w x" if "x \<in> set (journals ?w)" for x
  proof -
    have "bundle_row_ok n R w x" using that ok i by (auto simp: mem fitting_def simp del: journals_set_row(1))
    then show ?thesis
      by (simp add: bundle_row_ok_def catalog_same [of ?w w] fits_same_disk [of ?w w])
  qed
  moreover have "map jr_local_track_id (audio_rows ?w) = map jr_local_track_id (audio_rows w)"
  proof -
    have "jr_subject_kind x = jr_subject_kind j \<and> jr_local_track_id x = jr_local_track_id j"
      if "x \<in> set (journals w)" "jr_id x = jr_id j" for x
      using that same_id [OF ids that(1) j] by simp
    then show ?thesis
      unfolding audio_rows_def journals_set_row(1) by (intro map_filter_map) auto
  qed
  moreover have "committed n w \<or> dict_get (works w) n \<in> {Some W_Pending, Some W_Running}"
    using i j active by (auto simp: fitting_def)
  moreover have "reachable_names R ?w x" if "x \<in> set (journals ?w)" for x
  proof -
    have "reachable_names R w y" if "y \<in> set (journals w)" for y using i j active that by (auto simp: fitting_def)
    moreover have "reachable_names R w ?k = reachable_names R w j" by (simp add: reachable_names_def)
    ultimately show ?thesis
      using that j by (auto simp: mem reachable_same_disk [of ?w w] simp del: journals_set_row(1))
  qed
  ultimately show ?thesis using i by (auto simp: fitting_def simp del: journals_set_row(1))
qed

end
