(* ===== verification/Recovery_Base.thy ===== *)
theory Recovery_Base
  imports Journal_Invariant
begin

text \<open>
  How the recovery reads a bundle that satisfies the invariant, and the steps on one row of it.
\<close>

section \<open>Resolving\<close>

definition paths_of :: "roots \<Rightarrow> journal \<Rightarrow> journal_paths" where
  "paths_of R j = \<lparr>jp_journal = j, jp_source = src R j, jp_temporary = Some (tmp R j), jp_backup = bak R j,
                   jp_destination = dst R j\<rparr>"

lemma paths_of_simps [simp]:
  "jp_journal (paths_of R j) = j" "jp_source (paths_of R j) = src R j" "jp_temporary (paths_of R j) = Some (tmp R j)"
  "jp_backup (paths_of R j) = bak R j" "jp_destination (paths_of R j) = dst R j"
  "same_path (paths_of R j) = in_place R j"
  by (simp_all add: paths_of_def same_path_def in_place_def)

lemma usableE:
  assumes "usable R n" "reachable_name R w n"
  obtains r p where "n = (Some r, Some p)" "r \<noteq> []" "p \<noteq> []" "rooted_parent R r p w = Inr (place R n)"
    "rooted_location R r p = Some (place R n)"
proof -
  obtain r p where n: "n = (Some r, Some p)" "r \<noteq> []" "rooted_location R r p \<noteq> None"
    using assms(1) by (auto simp: usable_def split: option.splits prod.splits)
  have p: "p \<noteq> []"
  proof
    assume "p = []"
    then have "\<not> safe_parts p" by (simp add: safe_parts_def path_of_def)
    then show False using n(3) by (simp add: rooted_location_def split: option.splits)
  qed
  have "rooted_parent R r p w = Inr (place R n)" using assms(2) by (simp add: n(1) reachable_name_def)
  moreover have "rooted_location R r p = Some (place R n)" using n by (simp add: place_def)
  ultimately show thesis using that n p by blast
qed

lemma optional_place_usable: "usable R n \<Longrightarrow> optional_place R n = Some (place R n)"
  by (auto simp: usable_def optional_place_def split: option.splits prod.splits)

lemma spec_required_path:
  assumes "rooted_parent R r p w = Inr l" "Q l w" "c \<Longrightarrow> E None w"
  shows "spec c (required_path R r p) Q E w"
proof -
  obtain base where b: "dict_get R r = Some base" "safe_parts p" "l = base @ p_parts (path_of p)"
    and d: "\<forall>q\<in>set (parents_of base (p_parts (path_of p))). node_at w q = Some Directory"
    using assms(1) by (auto simp: rooted_parent_def list_all_iff split: option.splits if_splits)
  have "base \<in> set (parents_of base (p_parts (path_of p)))"
    using b(2) by (force simp: parents_of_def safe_parts_def image_iff)
  then have "node_at w base = Some Directory" using d by blast
  then show ?thesis
    unfolding required_path_def using b d assms(2,3)
    by (auto intro!: spec_effect [where w' = w and r = "Done l"] simp: list_ex_iff Let_def)
qed

lemma spec_optional_path:
  assumes "n = (None, None) \<or> usable R n" "reachable_name R w n"
    and "Q (optional_place R n) w" "c \<Longrightarrow> E None w"
  shows "spec c (optional_path R n) Q E w"
proof (cases "n = (None, None)")
  case True
  then show ?thesis using assms(3) by (simp add: optional_path_def optional_place_def spec_ret)
next
  case False
  then have u: "usable R n" using assms(1) by blast
  with assms(2) obtain r p where n: "n = (Some r, Some p)" "rooted_parent R r p w = Inr (place R n)"
    by (auto elim: usableE)
  show ?thesis
    unfolding n(1) optional_path_def
    using n assms(3,4) u by (auto intro!: spec_bind spec_required_path [where l = "place R n"] spec_ret simp: optional_place_usable)
qed

lemma wf_usable:
  assumes "wf_row R j"
  shows "usable R (jr_destination j)" "usable R (jr_temporary j)"
    "jr_source j = (None, None) \<or> usable R (jr_source j)" "jr_backup j = (None, None) \<or> usable R (jr_backup j)"
    "src R j = None \<Longrightarrow> jr_source_fingerprint j = None"
proof -
  have w: "jr_source j = (None, None) \<and> jr_source_fingerprint j = None
      \<or> usable R (jr_source j) \<and> jr_source_fingerprint j \<noteq> None"
    using assms unfolding wf_row_def by blast
  then show "jr_source j = (None, None) \<or> usable R (jr_source j)" by blast
  show "jr_source_fingerprint j = None" if "src R j = None"
    using that w by (auto simp: src_def optional_place_def usable_def split: if_splits)
qed (use assms in \<open>simp_all add: wf_row_def\<close>)

lemma spec_resolve_journal:
  assumes "wf_row R j" "reachable_names R w j" "Q (paths_of R j) w" "c \<Longrightarrow> E None w"
  shows "spec c (resolve_journal R j) Q E w"
proof -
  note u = wf_usable [OF assms(1)]
  from u(1) assms(2) obtain r p where d: "jr_destination j = (Some r, Some p)" "rooted_parent R r p w = Inr (dst R j)"
    unfolding dst_def reachable_names_def by (auto elim: usableE)
  have s: "(if src R j = None \<and> jr_subject_kind j = External_Art \<and> jr_source_fingerprint j \<noteq> None
      then Some (dst R j) else src R j) = src R j" by (cases "src R j") (use u(5) in auto)
  show ?thesis
    unfolding resolve_journal_def d(1) option.case prod.case
    using assms(2-4) u d(2) s optional_place_usable [OF u(2)]
    by (auto intro!: spec_bind spec_required_path [where l = "dst R j"] spec_optional_path spec_ret
        simp: reachable_names_def paths_of_def src_def bak_def tmp_def)
qed

lemma spec_resolve_paths:
  assumes "\<And>j. j \<in> set js \<Longrightarrow> wf_row R j \<and> reachable_names R w j" "Q (map (paths_of R) js) w" "c \<Longrightarrow> E None w"
  shows "spec c (resolve_paths R js) Q E w"
proof -
  have "spec c (io_map (resolve_journal R) js)
      (\<lambda>ys. (\<lambda>xs ys v. v = w \<and> ys @ map (paths_of R) xs = map (paths_of R) js \<and> set xs \<subseteq> set js) [] ys) E w"
    by (rule spec_io_map) (use assms in \<open>auto intro!: spec_resolve_journal\<close>)
  then show ?thesis unfolding resolve_paths_def by (rule spec_mono) (use assms in auto)
qed

section \<open>What the journals say about the files\<close>

definition four :: "roots \<Rightarrow> world \<Rightarrow> journal \<Rightarrow> four_evidence" where
  "four R w j = (evidence_of w (src R j), evidence_of w (Some (tmp R j)), evidence_of w (bak R j),
                 evidence_of w (Some (dst R j)))"

lemma spec_inspect_paths: "Q (four R w j) w \<Longrightarrow> (c \<Longrightarrow> E None w) \<Longrightarrow> spec c (inspect_paths (paths_of R j)) Q E w"
  unfolding inspect_paths_def by (auto intro!: spec_bind spec_inspect spec_ret simp: four_def)

lemma missing_iff: "evidence_of w (Some p) = Ev_Missing \<longleftrightarrow> gone w p"
  by (auto simp: evidence_of_def gone_def split: option.splits node.splits)

lemma opt_missing_iff: "evidence_of w q = Ev_Missing \<longleftrightarrow> opt_gone w q"
  by (cases q) (simp_all add: missing_iff opt_gone_def evidence_of_def [of w None])

lemma exact_iff: "exact (evidence_of w (Some p)) f \<longleftrightarrow> file_holds w p f"
  by (simp add: file_holds_def)

lemma opt_exact_iff: "q \<noteq> None \<Longrightarrow> exact (evidence_of w q) f \<longleftrightarrow> opt_holds w q f"
  by (cases q) (simp_all add: exact_iff opt_holds_def)

lemma opt_gone_Some [simp]: "opt_gone w (Some p) = gone w p" by (simp add: opt_gone_def)

lemma source_changed_iff: "(\<exists>y. q = Some y) \<and> \<not> exact (evidence_of w q) f \<longleftrightarrow> \<not> opt_holds w q f"
  by (cases q) (simp_all add: exact_iff opt_holds_def)

lemma holds_not_gone: "file_holds w p f \<Longrightarrow> \<not> gone w p"
  by (auto simp: holds_iff gone_def)

lemma opt_holds_not_gone: "q \<noteq> None \<Longrightarrow> opt_holds w q f \<Longrightarrow> \<not> opt_gone w q"
  by (cases q) (auto simp: opt_holds_def opt_gone_def holds_not_gone)

lemma unreadable_iff: "unreadable (evidence_of w q) \<longleftrightarrow> \<not> (evidence_of w q = Ev_Missing \<or> (\<exists>f. evidence_of w q = Ev_Regular f))"
  by (cases "evidence_of w q") (simp_all add: unreadable_def)

lemmas evidence_simps = missing_iff opt_missing_iff exact_iff opt_exact_iff

lemma wf_shape:
  assumes "wf_row R j"
  shows "in_place R j \<Longrightarrow> src R j = Some (dst R j) \<and> bak R j \<noteq> None" "deleting j \<Longrightarrow> in_place R j"
    "\<not> is_recycle_mutation j" "jr_staged_fingerprint j \<noteq> None"
    "jr_state j \<notin> {Rollback_Pending, Rolled_Back, Needs_Attention} \<Longrightarrow> is_delete_mutation j \<longleftrightarrow> deleting j"
    "deleting j \<Longrightarrow> jr_staged_fingerprint j = jr_source_fingerprint j"
  using assms by (auto simp: wf_row_def in_place_def)

lemma publish_refusal_None:
  assumes "wf_row R j" "row_fits c R w j" "jr_state j \<in> {Validated, Source_Backed_Up, Published}"
  shows "publish_refusal (paths_of R j) (four R w j) = None"
proof -
  note s = wf_shape [OF assms(1)]
  have d: "is_delete_mutation j = deleting j" using s(5) assms(3) by auto
  show ?thesis
  proof (cases "in_place R j")
    case True
    then obtain b where b: "bak R j = Some b" "src R j = Some (dst R j)" using s(1) by auto
    note simps = publish_refusal_def four_def before_backup_def after_backup_def row_fits_def Let_def
      missing_iff exact_iff opt_holds_def opt_gone_def True b d s(3)
    consider "jr_state j = Validated" | "jr_state j = Source_Backed_Up" | "jr_state j = Published"
      using assms(3) by blast
    then show ?thesis
    proof cases
      case 1
      show ?thesis using assms(2) s(6) by (auto simp: simps 1)
    next
      case 2
      show ?thesis using assms(2) s(6) by (auto simp: simps 2 dest: holds_not_gone)
    next
      case 3
      show ?thesis using assms(2) s(6) by (auto simp: simps 3 split: if_splits)
    qed
  next
    case False
    then have "\<not> deleting j" using s(2) by blast
    note simps = publish_refusal_def four_def before_publish_def after_publish_def row_fits_def Let_def
      opt_missing_iff exact_iff source_changed_iff False d this s(3)
    consider "jr_state j = Validated" | "jr_state j = Source_Backed_Up" | "jr_state j = Published"
      using assms(3) by blast
    then show ?thesis
    proof cases
      case 1
      show ?thesis using assms(2) by (auto simp: simps 1)
    next
      case 2
      show ?thesis using assms(2) by (simp add: simps 2)
    next
      case 3
      show ?thesis using assms(2) by (auto simp: simps 3)
    qed
  qed
qed

lemma spec_preflight_publish:
  assumes "\<And>j. j \<in> set js \<Longrightarrow> wf_row R j \<and> row_fits (committed n w) R w j \<and> jr_state j \<in> {Validated, Source_Backed_Up, Published}"
    and "Q () w" "c \<Longrightarrow> E None w"
  shows "spec c (preflight_publish (map (paths_of R) js)) Q E w"
proof -
  have r: "publish_refusal (paths_of R j) (four R w j) = None" if "j \<in> set js" for j
    using assms(1) [OF that] publish_refusal_None by blast
  have "spec c (preflight_publish (map (paths_of R) js))
     (\<lambda>_. (\<lambda>xs v. v = w \<and> set xs \<subseteq> paths_of R ` set js) []) E w"
    unfolding preflight_publish_def
    by (rule spec_io_each)
      (use assms(1,3) in \<open>auto intro!: spec_bind spec_inspect_paths spec_ret simp: refuse_def r\<close>)
  then show ?thesis by (rule spec_mono) (use assms(2) in auto)
qed

section \<open>Steps on one row\<close>

definition static_row :: "journal \<Rightarrow> journal" where
  "static_row j = j\<lparr>jr_state := Planned, jr_attempts := 0, jr_failure_code := None, jr_recovery_evidence := No_Note,
     jr_row_revision := 0\<rparr>"

definition evolved :: "world \<Rightarrow> world \<Rightarrow> bool" where
  "evolved w w' \<longleftrightarrow>
     map static_row (journals w') = map static_row (journals w) \<and> works w' = works w \<and> job w' = job w
     \<and> phase_of w' = phase_of w \<and> tracks w' = tracks w \<and> sha256_hex w' = sha256_hex w"

definition row_step :: "nat \<Rightarrow> roots \<Rightarrow> pystr \<Rightarrow> world \<Rightarrow> world \<Rightarrow> bool" where
  "row_step n R i w w' \<longleftrightarrow>
     fitting n R w' \<and> evolved w w' \<and> (\<forall>k. jr_id k \<noteq> i \<longrightarrow> (k \<in> set (journals w') \<longleftrightarrow> k \<in> set (journals w)))"

lemma evolved_refl [simp]: "evolved w w" by (simp add: evolved_def)

lemma evolved_trans: "evolved w w' \<Longrightarrow> evolved w' w'' \<Longrightarrow> evolved w w''" by (simp add: evolved_def)

lemma evolved_committed: "evolved w w' \<Longrightarrow> committed n w' = committed n w" by (simp add: evolved_def committed_def)

lemma row_step_refl: "fitting n R w \<Longrightarrow> row_step n R i w w" by (simp add: row_step_def)

lemma row_step_trans: "row_step n R i w w' \<Longrightarrow> row_step n R i w' w'' \<Longrightarrow> row_step n R i w w''"
  unfolding row_step_def using evolved_trans by blast

text \<open>A change of the disk at the places of one row.\<close>

definition moved :: "world \<Rightarrow> location \<Rightarrow> location \<Rightarrow> nat list \<Rightarrow> world" where
  "moved w p q x = put (take_away w p) q (Regular x)"

lemma moved_simps [simp]:
  "journals (moved w p q x) = journals w" "works (moved w p q x) = works w" "tracks (moved w p q x) = tracks w"
  "job (moved w p q x) = job w" "phase_of (moved w p q x) = phase_of w" "sha256_hex (moved w p q x) = sha256_hex w"
  "memory (moved w p q x) = memory w"
  "journals (take_away w p) = journals w" "works (take_away w p) = works w" "tracks (take_away w p) = tracks w"
  "job (take_away w p) = job w" "phase_of (take_away w p) = phase_of w" "sha256_hex (take_away w p) = sha256_hex w"
  "memory (take_away w p) = memory w"
  "hazards (moved w p q x) = hazards w"
  "node_at (moved w p q x) r = (if r = q then Some (Regular x) else if r = p then None else node_at w r)"
  by (simp_all add: moved_def put_def take_away_def) (simp add: node_at_def dict_get_set dict_get_pop)

lemma gone_moved: "gone (moved w p q x) r \<longleftrightarrow> r \<noteq> q \<and> (r = p \<or> gone w r)"
  by (simp add: gone_def)

lemma holds_moved:
  "file_holds (moved w p q x) r f \<longleftrightarrow> (if r = q then f = Some (sha256_hex w x) else r \<noteq> p \<and> file_holds w r f)"
  by (auto simp: holds_iff)

lemma gone_take_away: "gone (take_away w p) r \<longleftrightarrow> r = p \<or> gone w r"
  by (simp add: gone_def)

lemma holds_take_away: "file_holds (take_away w p :: world) r f \<longleftrightarrow> r \<noteq> p \<and> file_holds w r f"
  by (auto simp: holds_iff)

lemmas disk_simps = gone_moved holds_moved gone_take_away holds_take_away

lemma row_step_moved:
  assumes "fitting n R w" "j \<in> set (journals w)" "p \<in> set (places R j)" "q \<in> set (places R j)"
    and "node_at w p = Some (Regular x)" "node_at w q \<noteq> Some Directory"
    and "row_fits (committed n w) R (moved w p q x) j"
  shows "row_step n R (jr_id j) w (moved w p q x)"
proof -
  have "fitting n R (moved w p q x)"
    by (rule inv_disk [OF assms(1,2)]) (use assms(3-7) in \<open>auto split: if_splits\<close>)
  then show ?thesis by (simp add: row_step_def evolved_def)
qed

lemma row_step_removed:
  assumes "fitting n R w" "j \<in> set (journals w)" "p \<in> set (places R j)"
    and "node_at w p = Some (Regular x)" "row_fits (committed n w) R (take_away w p) j"
  shows "row_step n R (jr_id j) w (take_away w p)"
proof -
  have "fitting n R (take_away w p)"
    by (rule inv_disk [OF assms(1,2)]) (use assms(3-5) in \<open>auto split: if_splits\<close>)
  then show ?thesis by (simp add: row_step_def evolved_def)
qed

text \<open>A transition of one row.\<close>

lemma steps_less:
  "s \<in> set (journal_transitions t) \<Longrightarrow> t \<notin> {Planned, Snapshot_Saved, Staged, Rolled_Back} \<Longrightarrow> steps_left s < steps_left t"
  by (cases t) auto

lemma fits_state: "row_fits c R w j \<Longrightarrow> jr_state j \<notin> {Planned, Snapshot_Saved, Staged}"
  by (cases "jr_state j") (auto simp: row_fits_def split: if_splits)

definition keeps_note :: "transition_options \<Rightarrow> journal_state \<Rightarrow> journal_state \<Rightarrow> bool" where
  "keeps_note opts old new \<longleftrightarrow>
     to_staged_fingerprint opts = None
     \<and> (to_recovery_evidence opts = None
          \<and> (old \<notin> {Rollback_Pending, Rolled_Back, Needs_Attention} \<or> new \<in> {Rollback_Pending, Rolled_Back, Needs_Attention})
        \<or> (\<exists>r. to_recovery_evidence opts = Some (Reason_Note r)) \<and> new \<in> {Rollback_Pending, Rolled_Back, Needs_Attention})"

lemma wf_moved:
  assumes "wf_row R j" "keeps_note opts (jr_state j) s"
  shows "wf_row R (moved_row opts s j)"
proof -
  have t: "to_staged_fingerprint opts = None" using assms(2) by (simp add: keeps_note_def)
  have "\<not> is_recycle_mutation (moved_row opts s j)"
    using wf_shape(3) [OF assms(1)] assms(2)
    by (auto simp: is_recycle_mutation_def moved_row_def keeps_note_def)
  moreover have "s \<notin> {Rollback_Pending, Rolled_Back, Needs_Attention} \<longrightarrow>
      (is_delete_mutation (moved_row opts s j) \<longleftrightarrow> deleting j)"
  proof
    assume s: "s \<notin> {Rollback_Pending, Rolled_Back, Needs_Attention}"
    then have "to_recovery_evidence opts = None" "jr_state j \<notin> {Rollback_Pending, Rolled_Back, Needs_Attention}"
      using assms(2) by (auto simp: keeps_note_def)
    then show "is_delete_mutation (moved_row opts s j) \<longleftrightarrow> deleting j"
      using wf_shape(5) [OF assms(1)] by (auto simp: is_delete_mutation_def moved_row_def)
  qed
  ultimately show ?thesis using assms(1) t unfolding wf_row_def by simp
qed

lemma bundle_row_ok_moved:
  assumes "bundle_row_ok n R w j" "s \<in> set (journal_transitions (jr_state j))" "keeps_note opts (jr_state j) s"
    and "\<not> terminal_state (jr_state j)" "row_fits (committed n w) R w (moved_row opts s j)"
    and "committed_state s \<longrightarrow> committed n w"
  shows "bundle_row_ok n R w (moved_row opts s j)"
proof -
  have st: "jr_state j \<notin> {Planned, Snapshot_Saved, Staged, Rolled_Back}"
    using assms(1,4) fits_state by (auto simp: bundle_row_ok_def terminal_state_def)
  then have "steps_left s < steps_left (jr_state j)" using steps_less [OF assms(2)] by blast
  moreover have "if committed n w then committed_state s \<or> s = Needs_Attention else \<not> committed_state s"
    using assms(1,2,4,6) by (cases "jr_state j") (auto simp: bundle_row_ok_def committed_state_def terminal_state_def split: if_splits)
  moreover have "catalog_agrees w (moved_row opts s j) = catalog_agrees w j"
    by (simp add: catalog_agrees_def cong: option.case_cong)
  moreover have "committed_state s \<and> jr_subject_kind j = Audio \<longrightarrow> catalog_agrees w j"
    using assms(1,2,4,6) by (cases "jr_state j") (auto simp: bundle_row_ok_def committed_state_def terminal_state_def split: if_splits)
  ultimately show ?thesis
    using assms(1,5) wf_moved [OF _ assms(3)] by (simp add: bundle_row_ok_def)
qed

lemma static_moved: "to_staged_fingerprint opts = None \<Longrightarrow> static_row (moved_row opts s j) = static_row j"
  by (simp add: static_row_def moved_row_def)

lemma row_step_row:
  assumes "fitting n R w" "j \<in> set (journals w)" "s \<in> set (journal_transitions (jr_state j))"
    and "keeps_note opts (jr_state j) s" "\<not> terminal_state (jr_state j)"
    and "row_fits (committed n w) R w (moved_row opts s j)" "committed_state s \<longrightarrow> committed n w"
  shows "row_step n R (jr_id j) w (set_row w (moved_row opts s j))"
    and "moved_row opts s j \<in> set (journals (set_row w (moved_row opts s j)))"
proof -
  let ?w = "set_row w (moved_row opts s j)"
  have ids: "distinct (map jr_id (journals w))" using assms(1) by (simp add: fitting_def)
  have "fitting n R ?w"
    by (rule inv_row [OF assms(1,2) bundle_row_ok_moved [OF inv_row_fits [OF assms(1,2)] assms(3-7)] assms(5)])
  moreover have "static_row (moved_row opts s j) = static_row k" if "k \<in> set (journals w)" "jr_id k = jr_id j" for k
  proof -
    have "k = j" using that same_id [OF ids that(1) assms(2)] by simp
    then show ?thesis using assms(4) static_moved by (simp add: keeps_note_def)
  qed
  then have "map static_row (journals ?w) = map static_row (journals w)" by simp
  then have "evolved w ?w" by (simp add: evolved_def del: journals_set_row(1))
  moreover have "k \<in> set (journals ?w) \<longleftrightarrow> k \<in> set (journals w)" if "jr_id k \<noteq> jr_id j" for k
    using that by (auto split: if_splits simp: image_iff)
  ultimately show "row_step n R (jr_id j) w ?w" unfolding row_step_def by blast
  show "moved_row opts s j \<in> set (journals ?w)" using assms(2) by (auto simp: image_iff)
qed

text \<open>The transition of a row that the caller has in hand.\<close>

lemma spec_advance_row:
  assumes i: "fitting n R w" "j \<in> set (journals w)" and s: "s \<in> set (journal_transitions (jr_state j))"
    and k: "keeps_note opts (jr_state j) s" "\<not> terminal_state (jr_state j)"
    and f: "row_fits (committed n w) R w (moved_row opts s j)" "committed_state s \<longrightarrow> committed n w"
    and Q: "\<And>j' w'. j' \<in> set (journals w') \<Longrightarrow> row_step n R (jr_id j) w w' \<Longrightarrow> static_row j' = static_row j
        \<Longrightarrow> j' = moved_row opts s j \<Longrightarrow> w' = set_row w j' \<Longrightarrow> hazards w = [] \<Longrightarrow> Q j' w'"
    and E: "c \<Longrightarrow> E None w"
  shows "spec c (advance j s opts) Q E w"
proof -
  have ids: "distinct (map jr_id (journals w))" using i by (simp add: fitting_def)
  have ok: "bundle_row_ok n R w j" using i by (rule inv_row_fits)
  have "0 \<le> steps_left (jr_state j)" by (cases "jr_state j") simp_all
  then have "jr_row_revision j < MAX_REVISION" using ok by (simp add: bundle_row_ok_def)
  then show ?thesis
    unfolding advance_def
    using row_step_row [OF i s k f] static_moved [of opts s j] k(1)
    by (intro spec_transition [where k = j])
      (auto simp: row_in_store [OF ids] i(2) s E keeps_note_def simp del: journals_set_row(1) intro!: Q)
qed

end
