(* ===== verification/Compensation.thy ===== *)
theory Compensation
  imports Recovery_Base Bundle_Histories
begin

text \<open>
  Taking a publication back: wherever the recovery is cut off, the files of the bundle still fit its
  journal, and when it is not, every original is where it was and nothing else is left.
\<close>

section \<open>Moving and removing files by their names\<close>

lemma spec_named: "n = (Some r, Some p) \<Longrightarrow> r \<noteq> [] \<Longrightarrow> p \<noteq> [] \<Longrightarrow> Q (r, p) w \<Longrightarrow> spec c (named n) Q E w"
  by (simp add: named_def spec_ret)

lemma spec_replace_names:
  assumes "usable R a" "reachable_name R w a" "usable R b" "reachable_name R w b"
    and "node_at w (place R a) = Some (Regular x)" "node_at w (place R b) \<noteq> Some Directory" "place R a \<noteq> place R b"
    and "hazards w = [] \<Longrightarrow> Q () (moved w (place R a) (place R b) x)" "c \<Longrightarrow> E None w"
  shows "spec c (replace_names R a b) Q E w"
proof -
  obtain r p where a: "a = (Some r, Some p)" "r \<noteq> []" "p \<noteq> []" "rooted_parent R r p w = Inr (place R a)"
    using assms(1,2) by (rule usableE)
  obtain r' p' where b: "b = (Some r', Some p')" "r' \<noteq> []" "p' \<noteq> []" "rooted_parent R r' p' w = Inr (place R b)"
    using assms(3,4) by (rule usableE)
  show ?thesis
    unfolding replace_names_def
    by (intro spec_bind spec_named [OF a(1-3)] spec_named [OF b(1-3)]
        spec_replace_rooted [where s = "place R a" and d = "place R b" and x = x])
      (use a(4) b(4) assms(5-9) in \<open>simp_all add: moved_def\<close>)
qed

lemma spec_unlink_names:
  assumes "usable R a" "reachable_name R w a" "node_at w (place R a) = Some (Regular x)"
    and "hazards w = [] \<Longrightarrow> Q () (take_away w (place R a))" "c \<Longrightarrow> E None w"
  shows "spec c (unlink_name R a m) Q E w"
proof -
  obtain r p where a: "a = (Some r, Some p)" "r \<noteq> []" "p \<noteq> []" "rooted_parent R r p w = Inr (place R a)"
    using assms(1,2) by (rule usableE)
  show ?thesis
    unfolding unlink_name_def
    by (intro spec_bind spec_named [OF a(1-3)] spec_unlink_rooted [where p = "place R a" and x = x])
      (use a(4) assms(3-5) in simp_all)
qed

lemma spec_unlink_gone:
  assumes "usable R a" "reachable_name R w a" "node_at w (place R a) = None"
    and "hazards w = [] \<Longrightarrow> Q () w" "c \<Longrightarrow> E None w"
  shows "spec c (unlink_name R a True) Q E w"
proof -
  obtain r p where a: "a = (Some r, Some p)" "r \<noteq> []" "p \<noteq> []" "rooted_parent R r p w = Inr (place R a)"
    using assms(1,2) by (rule usableE)
  show ?thesis
    unfolding unlink_name_def
    by (intro spec_bind spec_named [OF a(1-3)] spec_unlink_missing [where p = "place R a"])
      (use a(4) assms(3-5) in simp_all)
qed

text \<open>A row of the bundle that is still active.\<close>

lemma inv_active:
  assumes "fitting n R w" "j \<in> set (journals w)" "\<not> terminal_state (jr_state j)" "k \<in> set (journals w)"
  shows "reachable_names R w k"
  using assms by (auto simp: fitting_def)

lemma row_facts:
  assumes "fitting n R w" "j \<in> set (journals w)"
  shows "wf_row R j" "row_fits (committed n w) R w j"
  using inv_row_fits [OF assms] by (simp_all add: bundle_row_ok_def)

lemma distinct_places:
  assumes "wf_row R j"
  shows "tmp R j \<noteq> dst R j" "bak R j \<noteq> Some (tmp R j)" "bak R j \<noteq> Some (dst R j)" "src R j \<noteq> Some (tmp R j)"
    "\<And>b. bak R j = Some b \<Longrightarrow> b \<noteq> tmp R j \<and> b \<noteq> dst R j \<and> src R j \<noteq> Some b"
proof -
  have d: "distinct (places R j)" using assms by (simp add: wf_row_def)
  then show "tmp R j \<noteq> dst R j" "bak R j \<noteq> Some (tmp R j)" "bak R j \<noteq> Some (dst R j)" "src R j \<noteq> Some (tmp R j)"
    "\<And>b. bak R j = Some b \<Longrightarrow> b \<noteq> tmp R j \<and> b \<noteq> dst R j \<and> src R j \<noteq> Some b"
    by (auto simp: places_def split: option.splits if_splits)
qed

lemma optional_placeD: "optional_place R a = Some p \<Longrightarrow> place R a = p"
  by (simp add: optional_place_def split: if_splits)

text \<open>The names of a row and their places.\<close>

lemma row_names:
  assumes "wf_row R j" "reachable_names R w j"
  shows "usable R (jr_temporary j)" "reachable_name R w (jr_temporary j)" "place R (jr_temporary j) = tmp R j"
    "usable R (jr_destination j)" "reachable_name R w (jr_destination j)" "place R (jr_destination j) = dst R j"
    "bak R j = Some b \<Longrightarrow> usable R (jr_backup j) \<and> reachable_name R w (jr_backup j) \<and> place R (jr_backup j) = b"
    "src R j = Some s \<Longrightarrow> usable R (jr_source j) \<and> reachable_name R w (jr_source j) \<and> place R (jr_source j) = s"
  using assms wf_usable [OF assms(1)]
  by (auto simp: reachable_names_def tmp_def dst_def bak_def src_def dest: optional_placeD)
    (auto simp: optional_place_def)

lemma static_same:
  assumes "static_row j' = static_row j"
  shows "jr_id j' = jr_id j" "jr_subject_kind j' = jr_subject_kind j" "jr_local_track_id j' = jr_local_track_id j"
    "jr_plan_item_ordinal j' = jr_plan_item_ordinal j" "jr_source j' = jr_source j" "jr_temporary j' = jr_temporary j"
    "jr_backup j' = jr_backup j" "jr_destination j' = jr_destination j"
    "jr_source_fingerprint j' = jr_source_fingerprint j" "jr_staged_fingerprint j' = jr_staged_fingerprint j"
    "tmp R j' = tmp R j" "dst R j' = dst R j" "bak R j' = bak R j" "src R j' = src R j"
    "in_place R j' = in_place R j" "deleting j' = deleting j" "places R j' = places R j"
proof -
  have "\<And>f. f (static_row j') = f (static_row j)" using assms by simp
  note f = this
  show s: "jr_id j' = jr_id j" "jr_subject_kind j' = jr_subject_kind j" "jr_local_track_id j' = jr_local_track_id j"
    "jr_plan_item_ordinal j' = jr_plan_item_ordinal j" "jr_source j' = jr_source j" "jr_temporary j' = jr_temporary j"
    "jr_backup j' = jr_backup j" "jr_destination j' = jr_destination j"
    "jr_source_fingerprint j' = jr_source_fingerprint j" "jr_staged_fingerprint j' = jr_staged_fingerprint j"
    using f [of jr_id] f [of jr_subject_kind] f [of jr_local_track_id] f [of jr_plan_item_ordinal] f [of jr_source]
      f [of jr_temporary] f [of jr_backup] f [of jr_destination] f [of jr_source_fingerprint] f [of jr_staged_fingerprint]
    by (simp_all add: static_row_def)
  have "jr_subject_key j' = jr_subject_key j" using f [of jr_subject_key] by (simp add: static_row_def)
  then show "tmp R j' = tmp R j" "dst R j' = dst R j" "bak R j' = bak R j" "src R j' = src R j"
    "in_place R j' = in_place R j" "deleting j' = deleting j" "places R j' = places R j"
    using s by (simp_all add: tmp_def dst_def bak_def src_def in_place_def deleting_def places_def cong: option.case_cong)
qed

section \<open>Restoring one row\<close>

definition shape :: "bool \<Rightarrow> roots \<Rightarrow> world \<Rightarrow> journal \<Rightarrow> journal_state \<Rightarrow> bool" where
  "shape c R w j s \<longleftrightarrow> (if in_place R j then in_place_fits c R w j s else moving_fits c R w j s)"

lemma fits_shape: "row_fits c R w j = shape c R w j (jr_state j)"
  by (simp add: row_fits_def shape_def)

text \<open>A change of the disk at the places of one row.\<close>

definition disk_step :: "nat \<Rightarrow> roots \<Rightarrow> journal \<Rightarrow> world \<Rightarrow> world \<Rightarrow> bool" where
  "disk_step n R j w w' \<longleftrightarrow>
     fitting n R w' \<and> evolved w w' \<and> journals w' = journals w
     \<and> (\<forall>p. p \<notin> set (places R j) \<longrightarrow> node_at w' p = node_at w p)"

lemma disk_step_refl: "fitting n R w \<Longrightarrow> disk_step n R j w w"
  by (simp add: disk_step_def)

lemma disk_step_trans: "disk_step n R j w w' \<Longrightarrow> disk_step n R j w' w'' \<Longrightarrow> disk_step n R j w w''"
  unfolding disk_step_def using evolved_trans by metis

lemma disk_step_moved:
  assumes "fitting n R w" "j \<in> set (journals w)" "p \<in> set (places R j)" "q \<in> set (places R j)"
    and "node_at w p = Some (Regular x)" "node_at w q \<noteq> Some Directory"
    and "row_fits (committed n w) R (moved w p q x) j"
  shows "disk_step n R j w (moved w p q x)"
  using row_step_moved [OF assms] assms(3,4) by (auto simp: disk_step_def row_step_def)

lemma disk_step_removed:
  assumes "fitting n R w" "j \<in> set (journals w)" "p \<in> set (places R j)"
    and "node_at w p = Some (Regular x)" "row_fits (committed n w) R (take_away w p) j"
  shows "disk_step n R j w (take_away w p)"
  using row_step_removed [OF assms] assms(3) by (auto simp: disk_step_def row_step_def)

lemma disk_step_names:
  assumes "disk_step n R j w w'" "j \<in> set (journals w)" "\<not> terminal_state (jr_state j)"
  shows "fitting n R w'" "j \<in> set (journals w')" "reachable_names R w' j" "committed n w' = committed n w"
    "sha256_hex w' = sha256_hex w"
proof -
  show a: "fitting n R w'" "j \<in> set (journals w')" using assms by (simp_all add: disk_step_def)
  then show "reachable_names R w' j" using assms(3) by (rule inv_active [OF _ _ _ a(2)])
  show "committed n w' = committed n w" "sha256_hex w' = sha256_hex w"
    using assms(1) by (auto simp: disk_step_def evolved_def committed_def)
qed

definition cut_off :: "bool \<Rightarrow> nat \<Rightarrow> roots \<Rightarrow> journal \<Rightarrow> world \<Rightarrow> io_failure option \<Rightarrow> world \<Rightarrow> bool" where
  "cut_off c n R j w e w' \<longleftrightarrow> e = None \<and> c \<and> disk_step n R j w w'"

text \<open>What is left to do is the temporary file.\<close>

definition back_in_place :: "roots \<Rightarrow> world \<Rightarrow> journal \<Rightarrow> bool" where
  "back_in_place R w j \<longleftrightarrow>
     opt_gone w (bak R j) \<and> S_ok R w j \<and> (\<not> in_place R j \<longrightarrow> gone w (dst R j))"

lemma rolled_back_shape: "shape c R w j Rolled_Back \<longleftrightarrow> back_in_place R w j \<and> gone w (tmp R j)"
  by (auto simp: shape_def back_in_place_def)

lemma pending_back_in_place:
  "back_in_place R w j \<Longrightarrow> T_ok R w j \<or> gone w (tmp R j) \<Longrightarrow> shape c R w j Rollback_Pending"
  by (auto simp: shape_def back_in_place_def)

lemma spec_drop_temporary:
  assumes i: "fitting n R w" "j \<in> set (journals w)" "jr_state j = Rollback_Pending"
    and b: "back_in_place R w j" and t: "T_ok R w j \<or> gone w (tmp R j)"
    and tk: "tk = kind_of (evidence_of w (Some (tmp R j)))"
  shows "spec c (when_true (tk = Ev_Regular None) (unlink_name R (jr_temporary j) False))
     (\<lambda>_ w'. disk_step n R j w w' \<and> shape False R w' j Rolled_Back) (cut_off c n R j w) w"
proof -
  note wf = row_facts(1) [OF i(1,2)]
  have act: "\<not> terminal_state (jr_state j)" using i(3) by (simp add: terminal_state_def)
  note nm = row_names [OF wf inv_active [OF i(1,2) act i(2)]] and dp = distinct_places [OF wf]
  show ?thesis
  proof (cases "gone w (tmp R j)")
    case True
    then have "evidence_of w (Some (tmp R j)) = Ev_Missing" by (simp add: missing_iff)
    then have "tk = Ev_Missing" using tk by (simp add: kind_of_def)
    then show ?thesis using True b i(1) by (auto intro!: spec_when_true simp: disk_step_refl rolled_back_shape)
  next
    case False
    then obtain x where x: "node_at w (tmp R j) = Some (Regular x)" using t holds_node by blast
    have bip: "back_in_place R (take_away w (tmp R j)) j"
      using b dp by (auto simp: back_in_place_def opt_gone_def opt_holds_def disk_simps split: option.splits)
    have gone: "gone (take_away w (tmp R j)) (tmp R j)" by (simp add: gone_take_away)
    have "row_fits (committed n w) R (take_away w (tmp R j)) j"
      unfolding fits_shape i(3) by (rule pending_back_in_place [OF bip]) (simp add: gone)
    then have step: "disk_step n R j w (take_away w (tmp R j))"
      using i(1,2) places_mem(1) x by (intro disk_step_removed)
    show ?thesis
      by (intro spec_when_true spec_unlink_names [where x = x])
        (use nm x step bip gone i(1) tk in
          \<open>auto simp: rolled_back_shape cut_off_def disk_step_refl kind_of_def evidence_of_def\<close>)
  qed
qed

lemma tmp_kind_kept:
  assumes "disk_step n R j w w'" "node_at w' (tmp R j) = node_at w (tmp R j)"
  shows "evidence_of w' (Some (tmp R j)) = evidence_of w (Some (tmp R j))"
    "T_ok R w j \<or> gone w (tmp R j) \<longleftrightarrow> T_ok R w' j \<or> gone w' (tmp R j)"
proof -
  have sha: "sha256_hex w' = sha256_hex w" using assms(1) by (simp add: disk_step_def evolved_def)
  show e: "evidence_of w' (Some (tmp R j)) = evidence_of w (Some (tmp R j))"
    by (rule evidence_cong [OF assms(2) sha])
  show "T_ok R w j \<or> gone w (tmp R j) \<longleftrightarrow> T_ok R w' j \<or> gone w' (tmp R j)"
    by (simp add: file_holds_def gone_def e assms(2))
qed

lemma spec_then_drop:
  assumes i: "fitting n R w" "j \<in> set (journals w)" "jr_state j = Rollback_Pending"
    and t: "T_ok R w j \<or> gone w (tmp R j)"
    and tk: "tk = kind_of (evidence_of w (Some (tmp R j)))"
    and v: "disk_step n R j w v" "node_at v (tmp R j) = node_at w (tmp R j)" "back_in_place R v j"
  shows "spec c (when_true (tk = Ev_Regular None) (unlink_name R (jr_temporary j) False))
     (\<lambda>_ w'. disk_step n R j w w' \<and> shape False R w' j Rolled_Back) (cut_off c n R j w) v"
proof (rule spec_mono [OF spec_drop_temporary])
  show "fitting n R v" "j \<in> set (journals v)" using v(1) i(2) by (simp_all add: disk_step_def)
  show "T_ok R v j \<or> gone v (tmp R j)" using tmp_kind_kept [OF v(1,2)] t by blast
  show "tk = kind_of (evidence_of v (Some (tmp R j)))" using tmp_kind_kept [OF v(1,2)] tk by simp
next
  show "jr_state j = Rollback_Pending" "back_in_place R v j" by (fact i(3), fact v(3))
next
  fix a :: unit and w'
  assume "disk_step n R j v w' \<and> shape False R w' j Rolled_Back"
  then show "disk_step n R j w w' \<and> shape False R w' j Rolled_Back" using disk_step_trans [OF v(1)] by blast
next
  fix e w'
  assume "cut_off c n R j v e w'"
  then show "cut_off c n R j w e w'" unfolding cut_off_def using disk_step_trans [OF v(1)] by blast
qed

lemma spec_inspect_for_compensation:
  "Q (evidence_of w (src R j), kind_of (evidence_of w (Some (tmp R j))), evidence_of w (bak R j),
      evidence_of w (Some (dst R j))) w \<Longrightarrow> (c \<Longrightarrow> E None w) \<Longrightarrow> spec c (inspect_for_compensation (paths_of R j)) Q E w"
  unfolding inspect_for_compensation_def
  by (auto intro!: spec_bind spec_inspect spec_inspect_kind spec_ret)

lemma spec_restore_original:
  assumes i: "fitting n R w" "j \<in> set (journals w)" "jr_state j = Rollback_Pending" and c: "\<not> committed n w"
  shows "spec c (restore_original R (paths_of R j))
     (\<lambda>_ w'. disk_step n R j w w' \<and> shape False R w' j Rolled_Back) (cut_off c n R j w) w"
proof -
  note wf = row_facts(1) [OF i(1,2)]
  have act: "\<not> terminal_state (jr_state j)" using i(3) by (simp add: terminal_state_def)
  note nm = row_names [OF wf inv_active [OF i(1,2) act i(2)]] and dp = distinct_places [OF wf]
  have f: "shape False R w j Rollback_Pending"
    using row_facts(2) [OF i(1,2)] c by (simp add: fits_shape i(3))
  have nr: "\<not> is_recycle_mutation j" using wf_shape(3) [OF wf] .
  have t: "T_ok R w j \<or> gone w (tmp R j)" using f by (auto simp: shape_def split: if_splits)
  let ?tk = "kind_of (evidence_of w (Some (tmp R j)))"
  let ?drop = "when_true (?tk = Ev_Regular None) (unlink_name R (jr_temporary j) False)"
  let ?Q = "\<lambda>_ :: unit. \<lambda>w'. disk_step n R j w w' \<and> shape False R w' j Rolled_Back"
  note drop = spec_then_drop [OF i t refl]
  have here: "spec c ?drop ?Q (cut_off c n R j w) w" if "back_in_place R w j"
    by (rule drop) (use i(1) that in \<open>simp_all add: disk_step_refl\<close>)
  have E: "cut_off c n R j w None w'" if "c" "disk_step n R j w w'" for w' using that by (simp add: cut_off_def)
  show ?thesis
  proof (cases "in_place R j")
    case True
    then obtain b where b: "bak R j = Some b" "src R j = Some (dst R j)" using wf_shape(1) [OF wf] by auto
    note dpb = dp(5) [OF b(1)]
    show ?thesis
    proof (cases "file_holds w b (jr_source_fingerprint j)")
      case False
      then have "back_in_place R w j" using f b True by (auto simp: shape_def back_in_place_def opt_holds_def)
      then show ?thesis
        using False here i(1) E disk_step_refl
        by (auto simp: restore_original_def Let_def nr i(3) True b exact_iff
            intro!: spec_when_true spec_bind spec_inspect_for_compensation spec_andthen)
    next
      case B: True
      then obtain x where x: "node_at w b = Some (Regular x)" "jr_source_fingerprint j = Some (sha256_hex w x)"
        by (auto simp: holds_iff)
      have gd: "gone w (dst R j) \<or> D_ok R w j" using f b True B by (auto simp: shape_def opt_holds_def holds_not_gone)
      have replace: "spec c (replace_names R (jr_backup j) (jr_destination j)) (\<lambda>_. spec c ?drop ?Q (cut_off c n R j w)) (cut_off c n R j w) v"
        if v: "disk_step n R j w v" "node_at v (tmp R j) = node_at w (tmp R j)" "node_at v b = node_at w b" "gone v (dst R j)" for v
      proof -
        note s = disk_step_names [OF v(1) i(2) act]
        let ?v = "moved v b (dst R j) x"
        have bip: "back_in_place R ?v j"
          using True b dpb x s(5) by (auto simp: back_in_place_def opt_holds_def disk_simps)
        have t': "T_ok R ?v j \<or> gone ?v (tmp R j)"
          using tmp_kind_kept(2) [OF v(1,2)] t dp dpb by (auto simp: disk_simps)
        have "disk_step n R j v ?v"
        proof (rule disk_step_moved [OF s(1,2)])
          show "b \<in> set (places R j)" "dst R j \<in> set (places R j)" using places_mem b(1) by auto
          show "node_at v b = Some (Regular x)" using v(3) x(1) by simp
          show "node_at v (dst R j) \<noteq> Some Directory" using v(4) by (simp add: gone_def)
          show "row_fits (committed n v) R ?v j" unfolding fits_shape i(3) using bip t' by (rule pending_back_in_place)
        qed
        then have step: "disk_step n R j w ?v" by (rule disk_step_trans [OF v(1)])
        have tm: "node_at ?v (tmp R j) = node_at w (tmp R j)" using v(2) dp(1) dpb by auto
        note nm' = row_names [OF wf s(3)]
        show ?thesis
          by (intro spec_replace_names [where x = x])
            (use nm'(4-6) nm'(7) [OF b(1)] v x dpb drop [OF step tm bip] E in \<open>auto simp: gone_def\<close>)
      qed
      have unlink: "spec c (unlink_name R (jr_destination j) False)
          (\<lambda>_. spec c (replace_names R (jr_backup j) (jr_destination j)) (\<lambda>_. spec c ?drop ?Q (cut_off c n R j w)) (cut_off c n R j w))
          (cut_off c n R j w) w" if D: "D_ok R w j"
      proof -
        obtain y where y: "node_at w (dst R j) = Some (Regular y)" using D by (auto simp: holds_iff)
        let ?v = "take_away w (dst R j)"
        have "T_ok R ?v j \<or> gone ?v (tmp R j)" using t dp(1) by (auto simp: disk_simps)
        moreover have "B_ok R ?v j" using b B dpb by (simp add: opt_holds_def disk_simps)
        ultimately have "shape (committed n w) R ?v j Rollback_Pending" using True by (simp add: shape_def disk_simps)
        then have step: "disk_step n R j w ?v"
          by (intro disk_step_removed [OF i(1,2) places_mem(2) y]) (simp add: fits_shape i(3))
        show ?thesis
          by (intro spec_unlink_names [where x = y])
            (use nm(4-6) y i(1) E disk_step_refl step replace [OF step] dp(1) dpb in \<open>auto simp: disk_simps\<close>)
      qed
      show ?thesis
        using B gd unlink replace [OF disk_step_refl [OF i(1)]] E disk_step_refl [OF i(1)] holds_not_gone
        by (auto simp: restore_original_def Let_def nr i(3) True b exact_iff
            intro!: spec_when_true spec_bind spec_inspect_for_compensation spec_andthen)
    qed
  next
    case False
    have fm: "S_ok R w j" "opt_gone w (bak R j)" "gone w (dst R j) \<or> D_ok R w j"
      using f False by (auto simp: shape_def)
    have unlink: "spec c (unlink_name R (jr_destination j) False) (\<lambda>_. spec c ?drop ?Q (cut_off c n R j w)) (cut_off c n R j w) w"
      if D: "D_ok R w j"
    proof -
      obtain y where y: "node_at w (dst R j) = Some (Regular y)" using D by (auto simp: holds_iff)
      let ?v = "take_away w (dst R j)"
      have "src R j \<noteq> Some (dst R j)" using False by (simp add: in_place_def)
      then have bip: "back_in_place R ?v j"
        using fm(1,2) dp(3) by (auto simp: back_in_place_def opt_gone_def opt_holds_def disk_simps split: option.splits)
      have t': "T_ok R ?v j \<or> gone ?v (tmp R j)" using t dp(1) by (auto simp: disk_simps)
      have step: "disk_step n R j w ?v"
        by (intro disk_step_removed [OF i(1,2) places_mem(2) y])
          (unfold fits_shape i(3), rule pending_back_in_place [OF bip t'])
      show ?thesis
        by (intro spec_unlink_names [where x = y])
          (use nm(4-6) y i(1) E disk_step_refl drop [OF step _ bip] dp(1) in auto)
    qed
    show ?thesis
    proof (cases "D_ok R w j")
      case True
      then show ?thesis
        using unlink E disk_step_refl [OF i(1)]
        by (auto simp: restore_original_def Let_def nr i(3) False exact_iff
            intro!: spec_when_true spec_bind spec_inspect_for_compensation spec_andthen)
    next
      case nd: False
      then have "back_in_place R w j" using fm False by (simp add: back_in_place_def)
      then show ?thesis
        using nd here E disk_step_refl [OF i(1)]
        by (auto simp: restore_original_def Let_def nr i(3) False exact_iff
            intro!: spec_when_true spec_bind spec_inspect_for_compensation spec_andthen)
    qed
  qed
qed

section \<open>All rows\<close>

lemma shape_frame:
  assumes n: "\<And>p. p \<in> set (places R j) \<Longrightarrow> node_at w' p = node_at w p" and sha: "sha256_hex w' = sha256_hex w"
  shows "shape c R w' j s = shape c R w j s"
proof -
  have p: "set (places R (j\<lparr>jr_state := t\<rparr>)) = set (places R j)" "in_place R (j\<lparr>jr_state := t\<rparr>) = in_place R j"
    "tmp R (j\<lparr>jr_state := t\<rparr>) = tmp R j" "dst R (j\<lparr>jr_state := t\<rparr>) = dst R j" "bak R (j\<lparr>jr_state := t\<rparr>) = bak R j"
    "src R (j\<lparr>jr_state := t\<rparr>) = src R j" "deleting (j\<lparr>jr_state := t\<rparr>) = deleting j" for t
    by (simp_all add: places_def in_place_def tmp_def dst_def bak_def src_def deleting_def cong: option.case_cong)
  have s: "shape c R v j s = row_fits c R v (j\<lparr>jr_state := s\<rparr>)" for v
    by (cases s) (simp_all add: shape_def row_fits_def p)
  show ?thesis unfolding s by (rule fits_frame) (use n sha p in auto)
qed

lemma shape_moved_row [simp]:
  "to_staged_fingerprint opts = None \<Longrightarrow> shape c R w (moved_row opts t j) s = shape c R w j s"
  by (cases s) (simp_all add: shape_def)

lemma shape_same_disk: "nodes w' = nodes w \<Longrightarrow> sha256_hex w' = sha256_hex w \<Longrightarrow> shape c R w' j s = shape c R w j s"
  by (rule shape_frame) (simp_all add: node_at_def)

definition crashed :: "bool \<Rightarrow> nat \<Rightarrow> roots \<Rightarrow> world \<Rightarrow> io_failure option \<Rightarrow> world \<Rightarrow> bool" where
  "crashed c n R w e w' \<longleftrightarrow>
     e = None \<and> c \<and> fitting n R w' \<and> evolved w w' \<and> (\<forall>j\<in>set (journals w'). jr_state j \<noteq> Needs_Attention)"

text \<open>The rows of a list, and which of them have been restored.\<close>

definition restored_rows :: "roots \<Rightarrow> journal list \<Rightarrow> world \<Rightarrow> bool" where
  "restored_rows R ks w \<longleftrightarrow> (\<forall>k\<in>set ks. jr_state k = Rollback_Pending \<longrightarrow> shape False R w k Rolled_Back)"

lemma restored_frame:
  assumes "disk_step n R j w w'" "restored_rows R ks w" "apart R (journals w)" "j \<in> set (journals w)"
    and "set ks \<subseteq> set (journals w)" "jr_id j \<notin> jr_id ` set ks"
  shows "restored_rows R ks w'"
  unfolding restored_rows_def
proof (intro ballI impI)
  fix k
  assume k: "k \<in> set ks" "jr_state k = Rollback_Pending"
  have "node_at w' p = node_at w p" if "p \<in> set (places R k)" for p
  proof -
    have "jr_id k \<noteq> jr_id j" using imageI [OF k(1), of jr_id] assms(6) by metis
    then have "p \<notin> set (places R j)" using apart_places [OF assms(3) _ assms(4) _ that] assms(5) k(1) by auto
    then show ?thesis using assms(1) by (simp add: disk_step_def)
  qed
  then have "shape False R w' k Rolled_Back = shape False R w k Rolled_Back"
    by (rule shape_frame) (use assms(1) in \<open>simp_all add: disk_step_def evolved_def\<close>)
  then show "shape False R w' k Rolled_Back" using assms(2) k by (simp add: restored_rows_def)
qed

lemma spec_restore_originals:
  assumes i: "fitting n R w" "\<not> committed n w" and ks: "set ks \<subseteq> set (journals w)" "distinct (map jr_id ks)"
    and na: "\<forall>j\<in>set (journals w). jr_state j \<noteq> Needs_Attention"
  shows "spec c (restore_originals R (map (paths_of R) ks))
     (\<lambda>_ w'. fitting n R w' \<and> evolved w w' \<and> journals w' = journals w \<and> restored_rows R ks w') (crashed c n R w) w"
proof -
  let ?I = "\<lambda>xs w'. fitting n R w' \<and> evolved w w' \<and> journals w' = journals w
     \<and> (\<exists>ys zs. xs = map (paths_of R) zs \<and> rev ks = ys @ zs \<and> restored_rows R ys w')"
  have "spec c (io_each (restore_original R) (rev (map (paths_of R) ks))) (\<lambda>_. ?I []) (crashed c n R w) w"
  proof (rule spec_io_each [where I = ?I])
    show "?I (rev (map (paths_of R) ks)) w" using i(1)
      by (intro conjI exI [of _ "[]"] exI [of _ "rev ks"]) (simp_all add: rev_map restored_rows_def)
  next
    fix x xs v
    assume I: "?I (x # xs) v"
    then obtain ys j zs where s: "x = paths_of R j" "xs = map (paths_of R) zs" "rev ks = ys @ j # zs" "restored_rows R ys v"
      by auto
    have j: "j \<in> set (journals v)" "set ys \<subseteq> set (journals v)"
    proof -
      have "set (rev ks) \<subseteq> set (journals w)" using ks(1) by simp
      then show "j \<in> set (journals v)" "set ys \<subseteq> set (journals v)" using I unfolding s(3) by auto
    qed
    have d: "jr_id j \<notin> jr_id ` set ys"
    proof -
      have "distinct (map jr_id (rev ks))" using ks(2) by (simp add: rev_map [symmetric])
      then show ?thesis unfolding s(3) by auto
    qed
    have c: "\<not> committed n v" using I i(2) evolved_committed by blast
    show "spec c (restore_original R x) (\<lambda>_. ?I xs) (crashed c n R w) v"
    proof (cases "jr_state j = Rollback_Pending")
      case True
      have "fitting n R v" using I by blast
      then have ap: "apart R (journals v)" unfolding fitting_def by blast
      show ?thesis
        unfolding s(1)
      proof (rule spec_mono [OF spec_restore_original [OF _ j(1) True c]])
        show "fitting n R v" using I by blast
      next
        fix a :: unit and w'
        assume w': "disk_step n R j v w' \<and> shape False R w' j Rolled_Back"
        have "restored_rows R (ys @ [j]) w'"
          using restored_frame [OF _ s(4) ap j d] w' by (auto simp: restored_rows_def)
        moreover have "fitting n R w' \<and> evolved w w' \<and> journals w' = journals w"
          using w' I evolved_trans by (auto simp: disk_step_def)
        ultimately show "?I xs w'" using s(2,3) by (intro conjI exI [of _ "ys @ [j]"] exI [of _ zs]) auto
      next
        fix e w'
        assume "cut_off c n R j v e w'"
        then show "crashed c n R w e w'" using I na evolved_trans by (auto simp: cut_off_def crashed_def disk_step_def)
      qed
    next
      case False
      have "restored_rows R (ys @ [j]) v" using s(4) False by (auto simp: restored_rows_def)
      then have "?I xs v" using I s(2,3) by (intro conjI exI [of _ "ys @ [j]"] exI [of _ zs]) auto
      then show ?thesis using False s(1) by (auto simp: restore_original_def Let_def intro!: spec_when_true)
    qed
  qed
  then show ?thesis
    unfolding restore_originals_def by (rule spec_mono) (auto simp: restored_rows_def)
qed

section \<open>Transitions of all rows\<close>

definition before_end :: "nat \<Rightarrow> roots \<Rightarrow> world \<Rightarrow> world \<Rightarrow> bool" where
  "before_end n R w w' \<longleftrightarrow>
     fitting n R w' \<and> evolved w w' \<and> (\<forall>j\<in>set (journals w'). jr_state j \<noteq> Needs_Attention)"

lemma before_end_trans: "evolved w v \<Longrightarrow> before_end n R v w' \<Longrightarrow> before_end n R w w'"
  unfolding before_end_def using evolved_trans by blast

lemma crashed_iff: "crashed c n R w e w' \<longleftrightarrow> e = None \<and> c \<and> before_end n R w w'"
  by (auto simp: crashed_def before_end_def)

lemma fits_pending:
  assumes "shape False R w j s" "s \<in> {Validated, Source_Backed_Up, Published}"
  shows "shape False R w j Rollback_Pending"
  using assms by (auto simp: shape_def split: if_splits)

lemma uncommitted_state:
  assumes "fitting n R w" "j \<in> set (journals w)" "\<not> committed n w" "\<not> terminal_state (jr_state j)" "jr_state j \<noteq> Rollback_Pending"
  shows "jr_state j \<in> {Validated, Source_Backed_Up, Published}"
  using inv_row_fits [OF assms(1,2)] assms(3-5) fits_state
  by (cases "jr_state j") (auto simp: bundle_row_ok_def committed_state_def terminal_state_def row_fits_def)

lemma note_reason_simps [simp]:
  "to_staged_fingerprint (note_reason r) = None" "to_recovery_evidence (note_reason r) = Some (Reason_Note r)"
  by (simp_all add: note_reason_def counted_def plain_def)

lemma paths_of_moved [simp]:
  "(paths_of R j)\<lparr>jp_journal := moved_row opts s j\<rparr> = paths_of R (moved_row opts s j)"
  by (simp add: paths_of_def)

text \<open>The move of a row, as seen by all rows of a list.\<close>

lemma spec_move_row:
  assumes i: "fitting n R w" "set (xs @ j # ys) = set (journals w)" "distinct (map jr_id (xs @ j # ys))"
    and na: "\<forall>j\<in>set (journals w). jr_state j \<noteq> Needs_Attention"
    and s: "s \<in> set (journal_transitions (jr_state j))" "s \<in> {Rollback_Pending, Rolled_Back}" "\<not> terminal_state (jr_state j)"
    and f: "shape (committed n w) R w j s"
    and Q: "\<And>w'. before_end n R w w' \<Longrightarrow> set (xs @ moved_row (note_reason r) s j # ys) = set (journals w')
        \<Longrightarrow> nodes w' = nodes w \<Longrightarrow> Q (moved_row (note_reason r) s j) w'"
    and E: "c \<Longrightarrow> E None w"
  shows "spec c (advance j s (note_reason r)) Q E w"
proof (rule spec_advance_row [OF i(1)])
  show j: "j \<in> set (journals w)" using i(2) by auto
  show "keeps_note (note_reason r) (jr_state j) s" using s(2) by (auto simp: keeps_note_def)
  show "row_fits (committed n w) R w (moved_row (note_reason r) s j)" using f by (simp add: fits_shape)
  show "committed_state s \<longrightarrow> committed n w" using s(2) by (auto simp: committed_state_def)
next
  fix j' w'
  assume j': "j' \<in> set (journals w')" "row_step n R (jr_id j) w w'" "static_row j' = static_row j"
    "j' = moved_row (note_reason r) s j" "w' = set_row w j'"
  have ids: "distinct (map jr_id (journals w))" using i(1) by (simp add: fitting_def)
  have m: "x \<in> set (journals w') \<longleftrightarrow> x = j' \<or> x \<in> set (journals w) \<and> x \<noteq> j" for x
    using i(2) same_id [OF ids _, of _ j] by (auto simp: j'(4,5) split: if_splits)
  have "j \<notin> set xs \<union> set ys" using i(3) by auto
  then have "set (xs @ j' # ys) = set (journals w')" using m i(2) by auto
  moreover have "before_end n R w w'"
    using j'(2) na s(2) m by (auto simp: before_end_def row_step_def j'(4))
  ultimately show "Q j' w'" using Q j'(4,5) by simp
qed (use s E in auto)

lemma spec_rollback_pending:
  assumes i: "fitting n R w" "\<not> committed n w" and js: "set js = set (journals w)" "distinct (map jr_id js)"
    and na: "\<forall>j\<in>set (journals w). jr_state j \<noteq> Needs_Attention"
  shows "spec c (transition_rollback_pending reason (map (paths_of R) js))
     (\<lambda>cs w'. before_end n R w w' \<and> (\<exists>ks. cs = map (paths_of R) ks \<and> set ks = set (journals w') \<and> distinct (map jr_id ks)
        \<and> (\<forall>k\<in>set ks. jr_state k \<in> {Rollback_Pending, Rolled_Back}))) (crashed c n R w) w"
proof -
  let ?I = "\<lambda>xs ys w'. before_end n R w w' \<and> (\<exists>ks zs. ys = map (paths_of R) ks \<and> xs = map (paths_of R) zs
     \<and> set (ks @ zs) = set (journals w') \<and> distinct (map jr_id (ks @ zs))
     \<and> (\<forall>k\<in>set ks. jr_state k \<in> {Rollback_Pending, Rolled_Back}))"
  have "spec c (transition_rollback_pending reason (map (paths_of R) js)) (\<lambda>ys. ?I [] ys) (crashed c n R w) w"
    unfolding transition_rollback_pending_def
  proof (rule spec_io_map [where I = ?I])
    show "?I (map (paths_of R) js) [] w"
      using i(1) js na by (intro conjI exI [of _ "[]"] exI [of _ js]) (simp_all add: before_end_def)
  next
    fix x xs ys v
    assume I: "?I (x # xs) ys v"
    then obtain ks j zs where s: "ys = map (paths_of R) ks" "x = paths_of R j" "xs = map (paths_of R) zs"
      "set (ks @ j # zs) = set (journals v)" "distinct (map jr_id (ks @ j # zs))"
      "\<forall>k\<in>set ks. jr_state k \<in> {Rollback_Pending, Rolled_Back}" by auto
    have v: "fitting n R v" "evolved w v" "\<forall>j\<in>set (journals v). jr_state j \<noteq> Needs_Attention"
      using I by (simp_all add: before_end_def)
    have c: "\<not> committed n v" using v(2) i(2) evolved_committed by blast
    have j: "j \<in> set (journals v)" using s(4) by auto
    let ?go = "\<lambda>k. ?I xs (ys @ [paths_of R k])"
    have go: "?go k w'" if "before_end n R w w'" "set (ks @ k # zs) = set (journals w')" "jr_id k = jr_id j"
      "jr_state k \<in> {Rollback_Pending, Rolled_Back}" for k w'
      using that s by (intro conjI exI [of _ "ks @ [k]"] exI [of _ zs]) auto
    show "spec c (if terminal_state (jr_state (jp_journal x)) \<or> jr_state (jp_journal x) = Rollback_Pending then ret x
       else bind (advance (jp_journal x) Rollback_Pending (note_reason reason)) (\<lambda>j. ret (x\<lparr>jp_journal := j\<rparr>)))
       (\<lambda>y. ?I xs (ys @ [y])) (crashed c n R w) v"
    proof (cases "terminal_state (jr_state j) \<or> jr_state j = Rollback_Pending")
      case True
      have "jr_state j \<in> {Rollback_Pending, Rolled_Back}"
        using True v(3) j c inv_row_fits [OF v(1) j] by (auto simp: terminal_state_def bundle_row_ok_def committed_state_def)
      then have "?go j v" using go I s(4) by simp
      then show ?thesis using True s(2) by (simp add: spec_ret)
    next
      case False
      then have st: "jr_state j \<in> {Validated, Source_Backed_Up, Published}"
        using uncommitted_state [OF v(1) j c] by blast
      have sh: "shape (committed n v) R v j Rollback_Pending"
        using inv_row_fits [OF v(1) j] st c fits_pending by (auto simp: bundle_row_ok_def fits_shape)
      have "spec c (advance j Rollback_Pending (note_reason reason))
          (\<lambda>k. ?I xs (ys @ [(paths_of R j)\<lparr>jp_journal := k\<rparr>])) (crashed c n R w) v"
      proof (rule spec_move_row [OF v(1) s(4,5) v(3)])
        fix w'
        assume "before_end n R v w'" "set (ks @ moved_row (note_reason reason) Rollback_Pending j # zs) = set (journals w')"
        then have "?go (moved_row (note_reason reason) Rollback_Pending j) w'"
          using v(2) evolved_trans by (intro go) (auto simp: before_end_def)
        then show "?I xs (ys @ [(paths_of R j)\<lparr>jp_journal := moved_row (note_reason reason) Rollback_Pending j\<rparr>]) w'"
          unfolding paths_of_moved .
      qed (use False st sh I in \<open>auto simp: crashed_iff\<close>)
      then show ?thesis
        using False s(2) by (simp, intro spec_bind) (rule spec_mono, assumption, rule spec_ret, assumption, assumption)
    qed
  qed
  then show ?thesis by (rule spec_mono) auto
qed

text \<open>The last transition of every row that has been restored.\<close>

lemma spec_rolled_back:
  assumes i: "fitting n R w" "\<not> committed n w" and ks: "set ks = set (journals w)" "distinct (map jr_id ks)"
    and st: "\<forall>k\<in>set ks. jr_state k \<in> {Rollback_Pending, Rolled_Back}" and re: "restored_rows R ks w"
  shows "spec c (io_each (\<lambda>v. when_true (jr_state (jp_journal v) = Rollback_Pending)
          (bind (advance (jp_journal v) Rolled_Back (note_reason reason)) (\<lambda>_. ret ()))) (map (paths_of R) ks))
     (\<lambda>_ w'. before_end n R w w' \<and> (\<forall>j\<in>set (journals w'). jr_state j = Rolled_Back)) (crashed c n R w) w"
proof -
  let ?one = "\<lambda>v. when_true (jr_state (jp_journal v) = Rollback_Pending)
          (bind (advance (jp_journal v) Rolled_Back (note_reason reason)) (\<lambda>_. ret ()))"
  let ?I = "\<lambda>xs w'. before_end n R w w' \<and> (\<exists>ds zs. xs = map (paths_of R) zs
     \<and> set (ds @ zs) = set (journals w') \<and> distinct (map jr_id (ds @ zs))
     \<and> (\<forall>k\<in>set ds. jr_state k = Rolled_Back) \<and> (\<forall>k\<in>set zs. jr_state k \<in> {Rollback_Pending, Rolled_Back})
     \<and> restored_rows R zs w')"
  have na: "\<forall>j\<in>set (journals w). jr_state j \<noteq> Needs_Attention" using ks(1) st by auto
  have "spec c (io_each ?one (map (paths_of R) ks)) (\<lambda>_. ?I []) (crashed c n R w) w"
  proof (rule spec_io_each [where I = ?I])
    show "?I (map (paths_of R) ks) w"
      using i(1) ks st re na by (intro conjI exI [of _ "[]"] exI [of _ ks]) (simp_all add: before_end_def)
  next
    fix x xs v
    assume I: "?I (x # xs) v"
    obtain ds zz where z: "x # xs = map (paths_of R) zz" "set (ds @ zz) = set (journals v)"
      "distinct (map jr_id (ds @ zz))" "\<forall>k\<in>set ds. jr_state k = Rolled_Back"
      "\<forall>k\<in>set zz. jr_state k \<in> {Rollback_Pending, Rolled_Back}" "restored_rows R zz v"
      using I by (elim conjE exE) (rule that)
    from z(1) obtain j zs where zz: "zz = j # zs" by (cases zz) auto
    have s: "x = paths_of R j" "xs = map (paths_of R) zs"
      "set (ds @ j # zs) = set (journals v)" "distinct (map jr_id (ds @ j # zs))"
      "\<forall>k\<in>set ds. jr_state k = Rolled_Back" "\<forall>k\<in>set (j # zs). jr_state k \<in> {Rollback_Pending, Rolled_Back}"
      "restored_rows R (j # zs) v" using z zz by (simp_all only: list.map list.inject)
    have v: "fitting n R v" "evolved w v" "\<forall>j\<in>set (journals v). jr_state j \<noteq> Needs_Attention"
      using I by (simp_all add: before_end_def)
    have c: "\<not> committed n v" using v(2) i(2) evolved_committed by blast
    have go: "?I xs w'" if "before_end n R w w'" "set (ds @ k # zs) = set (journals w')" "jr_id k = jr_id j"
      "jr_state k = Rolled_Back" "restored_rows R zs w'" for k w'
      using that s by (intro conjI exI [of _ "ds @ [k]"] exI [of _ zs]) auto
    show "spec c (?one x) (\<lambda>_. ?I xs) (crashed c n R w) v"
    proof (cases "jr_state j = Rollback_Pending")
      case False
      then have "jr_state j = Rolled_Back" using s(6) by simp
      moreover have "restored_rows R zs v" using s(7) by (simp add: restored_rows_def)
      ultimately have "?I xs v" using go I s(3) by blast
      then show ?thesis using False s(1) by (simp add: when_true_def spec_ret)
    next
      case True
      have "spec c (advance j Rolled_Back (note_reason reason)) (\<lambda>_. ?I xs) (crashed c n R w) v"
      proof (rule spec_move_row [OF v(1) s(3,4) v(3)])
        show "shape (committed n v) R v j Rolled_Back" using s(7) True c by (simp add: restored_rows_def)
      next
        fix w'
        assume w': "before_end n R v w'" "set (ds @ moved_row (note_reason reason) Rolled_Back j # zs) = set (journals w')"
          "nodes w' = nodes v"
        have "shape False R w' k Rolled_Back = shape False R v k Rolled_Back" for k
          by (rule shape_same_disk [OF w'(3)]) (use w'(1) in \<open>simp add: before_end_def evolved_def\<close>)
        then have "restored_rows R zs w'" using s(7) by (simp add: restored_rows_def)
        moreover have "before_end n R w w'" by (rule before_end_trans [OF v(2) w'(1)])
        ultimately show "?I xs w'" by (intro go [OF _ w'(2)]) simp_all
      qed (use True I in \<open>auto simp: terminal_state_def crashed_iff\<close>)
      then have "spec c (bind (advance j Rolled_Back (note_reason reason)) (\<lambda>_. ret ())) (\<lambda>_. ?I xs) (crashed c n R w) v"
        by (intro spec_bind) (rule spec_mono, assumption, rule spec_ret, assumption, assumption)
      then show ?thesis using True s(1) by (simp add: when_true_def)
    qed
  qed
  then show ?thesis by (rule spec_mono) auto
qed

section \<open>The end of a compensation\<close>

definition stopped :: "world \<Rightarrow> bool" where
  "stopped w \<longleftrightarrow>
     (case job w of None \<Rightarrow> True
      | Some b \<Rightarrow> oj_state b \<in> {J_Paused, J_Stopped, J_Failed, J_Cancelled, J_Succeeded})"

definition taken_back :: "nat \<Rightarrow> roots \<Rightarrow> world \<Rightarrow> world \<Rightarrow> bool" where
  "taken_back n R w w' \<longleftrightarrow>
     fitting n R w' \<and> \<not> committed n w' \<and> map static_row (journals w') = map static_row (journals w)
     \<and> phase_of w' = phase_of w \<and> (stopped w \<longrightarrow> stopped w') \<and> (\<forall>j\<in>set (journals w'). jr_state j = Rolled_Back)"

lemma fitting_settled:
  assumes "fitting n R w" "\<forall>j\<in>set (journals w). jr_state j = Rolled_Back" "\<not> committed n w"
    and "journals w' = journals w" "nodes w' = nodes w" "tracks w' = tracks w" "sha256_hex w' = sha256_hex w" "\<not> committed n w'"
  shows "fitting n R w'"
proof -
  have "bundle_row_ok n R w' j" if "bundle_row_ok n R w j" for j
    using that assms(3,8) fits_same_disk [OF assms(5,7)] catalog_same [OF assms(6)] by (simp add: bundle_row_ok_def)
  then show ?thesis
    using assms(1,2,4) by (auto simp: fitting_def audio_rows_def terminal_state_def)
qed

lemma spec_fail_bundle:
  assumes i: "fitting n R w" "\<not> committed n w" "\<forall>j\<in>set (journals w). jr_state j = Rolled_Back"
    and Q: "\<And>w'. taken_back n R w w' \<Longrightarrow> Q () w'" and E: "c \<Longrightarrow> E None w"
  shows "spec c (fail_bundle_recovery n code) Q E w"
proof -
  have f: "(case dict_get (works v) n of
        None \<Rightarrow> (Done (), v)
      | Some wk \<Rightarrow>
          let was_active = (wk \<in> {W_Pending, W_Running});
              one = (if was_active then 1 else 0);
              w' = (if was_active then v\<lparr>works := dict_set (works v) n W_Failed\<rparr> else v)
          in (Done (), w'\<lparr>job := map_option (\<lambda>jb. jb\<lparr>
                 oj_state := J_Failed, oj_terminal_code := Some code, oj_lease_owner := None,
                 oj_lease_expires_at := None,
                 oj_completed_count := oj_completed_count jb + one,
                 oj_failed_count := oj_failed_count jb + one\<rparr>) (job w')\<rparr>)) =
      (Done (), if dict_get (works v) n = None then v else failed_world n code v)" for v
    by (auto simp: failed_world_def active_def Let_def split: option.splits)
  let ?w = "if dict_get (works w) n = None then w else failed_world n code w"
  have s: "journals ?w = journals w" "nodes ?w = nodes w" "tracks ?w = tracks w" "sha256_hex ?w = sha256_hex w"
    "hazards ?w = hazards w" by (simp_all add: failed_world_def Let_def)
  have nc: "\<not> committed n ?w"
    using i(2) by (auto simp: committed_def failed_world_def Let_def dict_get_set)
  have t: "taken_back n R w ?w"
    using fitting_settled [OF i(1,3,2) s(1-4) nc] nc i(3)
    by (auto simp: taken_back_def s(1) stopped_def failed_world_def Let_def split: option.splits)
  have h: "failed_world n code (w\<lparr>hazards := hs\<rparr>) = (failed_world n code w)\<lparr>hazards := hs\<rparr>" for hs
    by (simp add: failed_world_def active_def Let_def)
  show ?thesis
    unfolding fail_bundle_recovery_def f
  proof (rule spec_transaction [where w' = ?w and r = "Done ()"])
    show "(Done (), if dict_get (works (w\<lparr>hazards := hs\<rparr>)) n = None then w\<lparr>hazards := hs\<rparr>
        else failed_world n code (w\<lparr>hazards := hs\<rparr>)) = (Done (), ?w\<lparr>hazards := hs\<rparr>)" for hs
      by (simp add: h)
  next
    assume "hazards w = []"
    then have "?w\<lparr>hazards := []\<rparr> = ?w" using s(5) by (metis world_hazards(2))
    then show "Q a (?w\<lparr>hazards := []\<rparr>)" for a using Q [OF t] by simp
  qed (use E in simp_all)
qed

section \<open>The check before a compensation\<close>

lemma compensation_refusal_None:
  assumes wf: "wf_row R j" and f: "shape False R w j Rollback_Pending"
  shows "compensation_refusal (paths_of R j)
     (evidence_of w (src R j), kind_of (evidence_of w (Some (tmp R j))), evidence_of w (bak R j),
      evidence_of w (Some (dst R j))) = None"
proof -
  have nr: "\<not> is_recycle_mutation j" using wf_shape(3) [OF wf] .
  have "T_ok R w j \<or> gone w (tmp R j)" using f by (auto simp: shape_def split: if_splits)
  then have t: "\<not> unreadable (kind_of (evidence_of w (Some (tmp R j))))"
    by (auto simp: holds_iff gone_def evidence_of_def kind_of_def unreadable_def)
  show ?thesis
  proof (cases "in_place R j")
    case True
    then obtain b where b: "bak R j = Some b" "src R j = Some (dst R j)" using wf_shape(1) [OF wf] by auto
    show ?thesis
      using f True by (auto simp: compensation_refusal_def Let_def nr b t shape_def missing_iff exact_iff opt_holds_def)
  next
    case False
    then have "\<not> (src R j \<noteq> None \<and> \<not> exact (evidence_of w (src R j)) (jr_source_fingerprint j))"
      using f by (cases "src R j") (auto simp: shape_def opt_holds_def exact_iff)
    then show ?thesis
      using f False by (auto simp: compensation_refusal_def Let_def nr t shape_def opt_missing_iff missing_iff exact_iff)
  qed
qed

lemma uncommitted_shape:
  assumes "fitting n R w" "j \<in> set (journals w)" "\<not> committed n w" "\<not> terminal_state (jr_state j)"
  shows "shape False R w j Rollback_Pending"
proof (cases "jr_state j = Rollback_Pending")
  case True
  then show ?thesis using inv_row_fits [OF assms(1,2)] assms(3) by (simp add: bundle_row_ok_def fits_shape)
next
  case False
  show ?thesis
    using fits_pending [OF _ uncommitted_state [OF assms False]] inv_row_fits [OF assms(1,2)] assms(3)
    by (simp add: bundle_row_ok_def fits_shape)
qed

lemma spec_preflight_compensation:
  assumes i: "fitting n R w" "\<not> committed n w" "set js \<subseteq> set (journals w)" and Q: "Q () w" and E: "c \<Longrightarrow> E None w"
  shows "spec c (preflight_compensation (map (paths_of R) js)) Q E w"
proof -
  let ?I = "\<lambda>xs (v :: world). v = w \<and> set xs \<subseteq> paths_of R ` set js"
  have "spec c (preflight_compensation (map (paths_of R) js)) (\<lambda>_. ?I []) E w"
    unfolding preflight_compensation_def
  proof (rule spec_io_each [where I = ?I])
    fix x xs v
    assume I: "?I (x # xs) v"
    then obtain j where j: "j \<in> set js" "x = paths_of R j" by auto
    have r: "compensation_refusal (paths_of R j)
       (evidence_of w (src R j), kind_of (evidence_of w (Some (tmp R j))), evidence_of w (bak R j),
        evidence_of w (Some (dst R j))) = None" if "\<not> terminal_state (jr_state j)"
      using compensation_refusal_None [OF row_facts(1) [OF i(1)] uncommitted_shape [OF i(1) _ i(2) that]] i(3) j(1) by blast
    show "spec c (when_true (\<not> terminal_state (jr_state (jp_journal x)))
        (bind (inspect_for_compensation x) (\<lambda>ev. refuse (compensation_refusal x ev)))) (\<lambda>_. ?I xs) E v"
      using I r E j(2)
      by (auto intro!: spec_when_true spec_bind spec_inspect_for_compensation simp: refuse_def spec_ret)
  qed simp
  then show ?thesis by (rule spec_mono) (use Q in auto)
qed

lemma spec_affected_roots:
  assumes "j \<in> set js" "wf_row R j" "Q () w"
  shows "spec c (affected_roots js) Q E w"
proof -
  have "fst (jr_destination j) \<noteq> None" using wf_usable(1) [OF assms(2)] by (auto simp: usable_def split: prod.splits option.splits)
  then have "list_ex (\<lambda>j. list_ex (\<lambda>n. fst n \<noteq> None) [jr_source j, jr_temporary j, jr_backup j, jr_destination j]) js"
    using assms(1) by (auto simp: list_ex_iff)
  then show ?thesis unfolding affected_roots_def by (intro spec_assert_that) (use assms(3) in auto)
qed

section \<open>The whole compensation\<close>

lemma taken_back_from: "evolved w v \<Longrightarrow> taken_back n R v w' \<Longrightarrow> taken_back n R w w'"
  by (simp add: taken_back_def evolved_def stopped_def)

lemma spec_compensate_locked:
  assumes i: "fitting (be_ordinal env) (be_roots env) w" "\<not> committed (be_ordinal env) w"
    and js: "set js = set (journals w)" "distinct (map jr_id js)" "js \<noteq> []"
    and na: "\<forall>j\<in>set (journals w). jr_state j \<noteq> Needs_Attention"
  shows "spec c (compensate_locked env js reason (map (paths_of (be_roots env)) js))
     (\<lambda>_. taken_back (be_ordinal env) (be_roots env) w) (crashed c (be_ordinal env) (be_roots env) w) w"
proof -
  let ?R = "be_roots env" and ?n = "be_ordinal env"
  let ?E = "crashed c ?n ?R w" and ?Q = "\<lambda>_ :: recovery_result. taken_back ?n ?R w"
  let ?one = "\<lambda>v. when_true (jr_state (jp_journal v) = Rollback_Pending)
               (bind (advance (jp_journal v) Rolled_Back (note_reason reason)) (\<lambda>_. ret ()))"
  let ?fail = "andthen (fail_bundle_recovery ?n ''RECOVERY_ROLLED_BACK'') (ret D_Rolled_Back)"
  have E: "?E e v" if "crashed c ?n ?R u e v" "evolved w u" for e u v
    using that evolved_trans by (auto simp: crashed_def)
  have here: "?E None w" if c using that i(1) na by (simp add: crashed_def)
  have fail: "spec c ?fail ?Q ?E v" if v: "before_end ?n ?R w v" "\<forall>j\<in>set (journals v). jr_state j = Rolled_Back" for v
  proof -
    have "\<not> committed ?n v" using v(1) i(2) evolved_committed by (auto simp: before_end_def)
    then show ?thesis
      using v taken_back_from
      by (intro spec_andthen spec_fail_bundle [where R = ?R]) (auto simp: before_end_def crashed_iff intro: spec_ret)
  qed
  have restore: "spec c (andthen (restore_originals ?R (map (paths_of ?R) ks)) (andthen (io_each ?one (map (paths_of ?R) ks)) ?fail)) ?Q ?E v"
    if v: "before_end ?n ?R w v" "set ks = set (journals v)" "distinct (map jr_id ks)"
      "\<forall>k\<in>set ks. jr_state k \<in> {Rollback_Pending, Rolled_Back}" for ks v
  proof (rule spec_andthen)
    have a: "fitting ?n ?R v" "evolved w v" using v(1) by (simp_all add: before_end_def)
    have nc: "\<not> committed ?n v" using a(2) i(2) evolved_committed by blast
    have nn: "\<forall>j\<in>set (journals v). jr_state j \<noteq> Needs_Attention" using v(2,4) by auto
    show "spec c (restore_originals ?R (map (paths_of ?R) ks))
       (\<lambda>_. spec c (andthen (io_each ?one (map (paths_of ?R) ks)) ?fail) ?Q ?E) ?E v"
    proof (rule spec_mono [OF spec_restore_originals [OF a(1) nc _ v(3) nn]])
      fix x :: unit and u
      assume u: "fitting ?n ?R u \<and> evolved v u \<and> journals u = journals v \<and> restored_rows ?R ks u"
      have wu: "evolved w u" using a(2) u evolved_trans by blast
      have ncu: "\<not> committed ?n u" using wu i(2) evolved_committed by blast
      show "spec c (andthen (io_each ?one (map (paths_of ?R) ks)) ?fail) ?Q ?E u"
      proof (rule spec_andthen, rule spec_mono [OF spec_rolled_back [OF _ ncu _ v(3,4)]])
        fix y :: unit and t
        assume t: "before_end ?n ?R u t \<and> (\<forall>j\<in>set (journals t). jr_state j = Rolled_Back)"
        show "spec c ?fail ?Q ?E t" by (rule fail) (use t before_end_trans [OF wu] in blast)+
      next
        show "crashed c ?n ?R u e t \<Longrightarrow> ?E e t" for e t using E wu by blast
      qed (use u v(2) in auto)
    next
      show "crashed c ?n ?R v e t \<Longrightarrow> ?E e t" for e t using E a(2) by blast
    qed (use v(2) in auto)
  qed
  obtain j where j: "j \<in> set js" using js(3) by (cases js) auto
  have wf: "wf_row ?R j" using row_facts(1) [OF i(1)] j js(1) by blast
  show ?thesis
    unfolding compensate_locked_def
  proof (rule spec_andthen, rule spec_affected_roots [OF j wf], rule spec_andthen, rule spec_preflight_compensation [OF i],
      goal_cases)
    case 1
    show ?case using js(1) by simp
  next
    case 2
    show ?case
      by (rule spec_bind, rule spec_mono [OF spec_rollback_pending [OF i js(1,2) na]]) (auto intro: restore)
  next
    case 3
    then show ?case by (rule here)
  qed
qed

end
