(* ===== verification/Crash_Safety.thy ===== *)
theory Crash_Safety
  imports Compensation
begin

text \<open>
  The recovery of a bundle whose operation was stopped: however often it is cut off, the files of the
  bundle fit its journal, and as soon as one turn is not, every original is where it was and nothing
  else of the bundle is left.
\<close>

section \<open>The compensation of a bundle\<close>

lemma spec_must_hold:
  assumes "\<And>v. f v = None" "Q () w"
  shows "spec c (must_hold f) Q E w"
  unfolding must_hold_def by (intro spec_bind spec_reads) (simp_all add: assms spec_ret)

lemma spec_attempt_done:
  assumes "spec c m (\<lambda>a. spec c (g (Inr a)) Q E) (\<lambda>e w'. e = None \<and> E None w') w"
  shows "spec c (bind (attempt_io p m) g) Q E w"
  unfolding attempt_io_def
proof (intro spec_bind spec_handle)
  have r: "spec c (ret (Inr a)) (\<lambda>a. spec c (g a) Q E) E' v" if "spec c (g (Inr a)) Q E v" for a v E'
    using that by (rule spec_ret)
  show "spec c m (\<lambda>a. spec c (ret (Inr a)) (\<lambda>a. spec c (g a) Q E)
       (\<lambda>e w. case e of Some x \<Rightarrow> if p x then spec c (ret (Inl x)) (\<lambda>a. spec c (g a) Q E) E w else E (Some x) w
              | None \<Rightarrow> E None w))
     (\<lambda>e w. case e of Some x \<Rightarrow> if p x then spec c (ret (Inl x)) (\<lambda>a. spec c (g a) Q E) E w else E (Some x) w
              | None \<Rightarrow> E None w) w"
    by (rule spec_mono [OF assms]) (auto intro: r)
qed

lemma spec_handle_none:
  assumes "spec c m Q (\<lambda>e w'. e = None \<and> E None w') w"
  shows "spec c (handle p m h) Q E w"
  by (rule spec_handle, rule spec_mono [OF assms]) auto

lemma crashed_none: "crashed c n R w e w' \<Longrightarrow> e = None \<and> crashed c n R w None w'"
  by (simp add: crashed_def)

lemma terminal_rolled_back:
  assumes "fitting n R w" "\<not> committed n w" "j \<in> set (journals w)" "terminal_state (jr_state j)" "jr_state j \<noteq> Needs_Attention"
  shows "jr_state j = Rolled_Back"
  using inv_row_fits [OF assms(1,3)] assms(2,4,5) by (auto simp: bundle_row_ok_def terminal_state_def committed_state_def)

lemma spec_compensate_bundle:
  assumes i: "fitting (be_ordinal env) (be_roots env) w" "\<not> committed (be_ordinal env) w"
    and js: "set js = set (journals w)" "distinct (map jr_id js)"
    and na: "\<forall>j\<in>set (journals w). jr_state j \<noteq> Needs_Attention"
    and policy: "\<And>v. be_policy_current env v = None"
  shows "spec c (compensate_bundle env js reason)
     (\<lambda>_. taken_back (be_ordinal env) (be_roots env) w) (crashed c (be_ordinal env) (be_roots env) w) w"
proof (cases "list_all (\<lambda>j. terminal_state (jr_state j)) js")
  case True
  then have rb: "\<forall>j\<in>set (journals w). jr_state j = Rolled_Back"
    using terminal_rolled_back [OF i] na js(1) by (auto simp: list_all_iff)
  have "spec c (fail_bundle_recovery (be_ordinal env) ''RECOVERY_ROLLED_BACK'')
      (\<lambda>_. spec c (ret D_Rolled_Back) (\<lambda>_. taken_back (be_ordinal env) (be_roots env) w)
         (crashed c (be_ordinal env) (be_roots env) w)) (crashed c (be_ordinal env) (be_roots env) w) w"
    by (rule spec_fail_bundle [OF i rb]) (use i(1) na in \<open>auto intro: spec_ret simp: crashed_def\<close>)
  then show ?thesis using True by (simp add: compensate_bundle_def spec_andthen)
next
  case False
  then obtain j where j: "j \<in> set (journals w)" "\<not> terminal_state (jr_state j)" using js(1) by (auto simp: list_all_iff)
  have r: "wf_row (be_roots env) k \<and> reachable_names (be_roots env) w k" if "k \<in> set js" for k
    using row_facts(1) [OF i(1)] inv_active [OF i(1) j] that js(1) by blast
  have here: "crashed c (be_ordinal env) (be_roots env) w None w" if c using that i(1) na by (simp add: crashed_def)
  have ne: "js \<noteq> []" using j(1) js(1) by auto
  show ?thesis
    unfolding compensate_bundle_def if_not_P [OF False]
  proof (rule spec_attempt_done, rule spec_andthen, rule spec_must_hold [OF policy],
      rule spec_resolve_paths [OF r], assumption, goal_cases)
    case 1
    have "spec c (compensate_locked env js reason (map (paths_of (be_roots env)) js))
       (\<lambda>_. taken_back (be_ordinal env) (be_roots env) w)
       (\<lambda>e w'. e = None \<and> crashed c (be_ordinal env) (be_roots env) w None w') w"
      by (rule spec_mono [OF spec_compensate_locked [OF i js ne na]]) (auto dest: crashed_none)
    then show ?case by (simp, intro spec_handle_none)
  next
    case 2
    then show ?case using here by simp
  qed
qed

section \<open>A turn of the recovery\<close>

lemma distinct_listed: "distinct (map jr_id (journals w)) \<Longrightarrow> distinct (map jr_id (listed w))"
proof -
  assume d: "distinct (map jr_id (journals w))"
  have "distinct (listed w)" using d by (auto simp: listed_def distinct_map)
  moreover have "inj_on jr_id (set (listed w))" using d by (simp add: distinct_map)
  ultimately show ?thesis unfolding distinct_map by blast
qed

text \<open>What holds between the turns.\<close>

definition to_take_back :: "nat \<Rightarrow> roots \<Rightarrow> world \<Rightarrow> bool" where
  "to_take_back n R w \<longleftrightarrow>
     fitting n R w \<and> \<not> committed n w \<and> list_all (\<lambda>j. jr_state j \<noteq> Needs_Attention) (journals w)
     \<and> stopped w \<and> phase_of w \<noteq> None"

lemma to_take_back_cases:
  assumes "to_take_back n R w"
  shows "fitting n R w" "\<not> committed n w" "\<forall>j\<in>set (journals w). jr_state j \<noteq> Needs_Attention"
    "stopped w" "phase_of w \<noteq> None"
  using assms by (auto simp: to_take_back_def list_all_iff)

lemma spec_recover_bundle:
  assumes t: "to_take_back (be_ordinal env) (be_roots env) w"
    and items: "be_item_ordinals env \<noteq> []" and policy: "\<And>v. be_policy_current env v = None"
  shows "spec c (recover_bundle env forced)
     (\<lambda>_. taken_back (be_ordinal env) (be_roots env) w) (crashed c (be_ordinal env) (be_roots env) w) w"
proof -
  note i = to_take_back_cases [OF t]
  let ?js = "listed w" and ?E = "crashed c (be_ordinal env) (be_roots env) w"
  have ids: "distinct (map jr_id ?js)" using i(1) by (intro distinct_listed) (simp add: fitting_def)
  have here: "?E None w" if c using that i by (simp add: crashed_def)
  have st: "\<not> list_ex (\<lambda>j. committed_state (jr_state j)) ?js" "\<not> list_ex (\<lambda>j. \<not> precommit_state (jr_state j)) ?js"
  proof -
    have "\<not> committed_state (jr_state j) \<and> precommit_state (jr_state j)" if "j \<in> set (journals w)" for j
      using inv_row_fits [OF i(1) that] i(2,3) that fits_state
      by (cases "jr_state j") (auto simp: bundle_row_ok_def precommit_state_def committed_state_def)
    then show "\<not> list_ex (\<lambda>j. committed_state (jr_state j)) ?js" "\<not> list_ex (\<lambda>j. \<not> precommit_state (jr_state j)) ?js"
      by (auto simp: list_ex_iff)
  qed
  have comp: "spec c (compensate_bundle env ?js reason) (\<lambda>_. taken_back (be_ordinal env) (be_roots env) w) ?E w" for reason
    by (rule spec_compensate_bundle [OF i(1,2) _ ids i(3) policy]) simp
  show ?thesis
    unfolding recover_bundle_def
  proof (rule spec_bind, rule spec_list_journals, goal_cases)
    case 1
    show ?case
    proof (cases "list_all (\<lambda>j. terminal_state (jr_state j)) ?js")
      case True
      then have "taken_back (be_ordinal env) (be_roots env) w w"
        using i terminal_rolled_back [OF i(1,2)] by (auto simp: taken_back_def list_all_iff)
      then show ?thesis using True by (simp add: spec_ret)
    next
      case False
      have "spec c (bind (transaction (\<lambda>w. (Done (job w), w))) g) (\<lambda>_. taken_back (be_ordinal env) (be_roots env) w) ?E w"
        if "spec c (g (job w)) (\<lambda>_. taken_back (be_ordinal env) (be_roots env) w) ?E w" for g
        by (rule spec_bind, rule spec_query) (use that here in auto)
      note jq = this
      show ?thesis
        unfolding if_not_P [OF False]
        by (rule spec_bind, rule spec_query)
          (use i(5) items st comp here i(4) in \<open>auto simp: stopped_def intro!: jq split: option.splits\<close>)
    qed
  next
    case 2
    then show ?case by (rule here)
  qed
qed

lemma spec_recover_turn:
  assumes "to_take_back (be_ordinal env) (be_roots env) w" "be_item_ordinals env \<noteq> []" "\<And>v. be_policy_current env v = None"
  shows "spec c (recover_turn env forced)
     (\<lambda>_. taken_back (be_ordinal env) (be_roots env) w) (crashed c (be_ordinal env) (be_roots env) w) w"
  unfolding recover_turn_def
  by (rule spec_handle_none, rule spec_mono [OF spec_recover_bundle [OF assms]]) (auto dest: crashed_none)

section \<open>Histories of recoveries\<close>

lemma fitting_updates [simp]:
  "fitting n R (w\<lparr>hazards := hs\<rparr>) = fitting n R w" "fitting n R (w\<lparr>memory := ms\<rparr>) = fitting n R w"
proof -
  have *: "fitting n R v = fitting n R w"
    if "journals v = journals w" "works v = works w" "tracks v = tracks w" "nodes v = nodes w" "sha256_hex v = sha256_hex w" for v
  proof -
    have "bundle_row_ok n R v j = bundle_row_ok n R w j" for j
      using fits_same_disk [OF that(4,5)] catalog_same [OF that(3)] by (simp add: bundle_row_ok_def committed_def that(2))
    moreover have "reachable_names R v j = reachable_names R w j" for j by (rule reachable_same_disk [OF that(4)])
    ultimately show ?thesis by (simp add: fitting_def that(1,2) audio_rows_def committed_def)
  qed
  show "fitting n R (w\<lparr>hazards := hs\<rparr>) = fitting n R w" "fitting n R (w\<lparr>memory := ms\<rparr>) = fitting n R w"
    by (rule *; simp)+
qed

lemma to_take_back_updates [simp]:
  "to_take_back n R (w\<lparr>hazards := hs\<rparr>) = to_take_back n R w" "to_take_back n R (w\<lparr>memory := ms\<rparr>) = to_take_back n R w"
  by (simp_all add: to_take_back_def committed_def stopped_def)

lemma to_take_back_crashed:
  assumes "to_take_back n R w" "crashed c n R w e w'"
  shows "to_take_back n R w'"
proof -
  have w': "fitting n R w'" "evolved w w'" "\<forall>j\<in>set (journals w'). jr_state j \<noteq> Needs_Attention"
    using assms(2) by (simp_all add: crashed_def)
  then show ?thesis
    using assms(1) evolved_committed [OF w'(2)] by (auto simp: to_take_back_def evolved_def stopped_def list_all_iff)
qed

lemma to_take_back_done: "to_take_back n R w \<Longrightarrow> taken_back n R w w' \<Longrightarrow> to_take_back n R w'"
  by (simp add: to_take_back_def taken_back_def list_all_iff)

lemma recovery_process:
  assumes t: "to_take_back (be_ordinal env) (be_roots env) w"
    and e: "be_item_ordinals env \<noteq> []" "\<And>v. be_policy_current env v = None"
    and hs: "set hs \<subseteq> allowed c"
  shows "let w' = run_process (Recovers env forced hs) w in
     taken_back (be_ordinal env) (be_roots env) w (w'\<lparr>hazards := []\<rparr>)
     \<or> c \<and> crashed True (be_ordinal env) (be_roots env) w None (w'\<lparr>hazards := []\<rparr>)"
proof -
  let ?w = "w\<lparr>hazards := [], memory := []\<rparr>"
  have s: "spec c (recover_turn env forced) (\<lambda>_. taken_back (be_ordinal env) (be_roots env) ?w)
      (crashed c (be_ordinal env) (be_roots env) ?w) ?w"
    by (rule spec_recover_turn) (use t e in simp_all)
  have w: "?w\<lparr>hazards := hs\<rparr> = w\<lparr>hazards := hs, memory := []\<rparr>" by simp
  have tw: "taken_back n R ?w v = taken_back n R w v" "crashed b n R ?w x v = crashed b n R w x v" for n R v b x
    by (simp_all add: taken_back_def crashed_def evolved_def stopped_def)
  obtain r v where rv: "recover_turn env forced (w\<lparr>hazards := hs, memory := []\<rparr>) = (r, v)" by (cases "recover_turn env forced (w\<lparr>hazards := hs, memory := []\<rparr>)")
  have "hazards ?w = []" by simp
  from specE [OF s this hs] show ?thesis
    unfolding w tw by (cases r) (simp_all add: wp_def rv Let_def crashed_def)
qed


subsection \<open>An example\<close>

text \<open>A track that is retagged in place; its publication ends after the source has been backed up.\<close>

definition retag_row :: journal where
  "retag_row = ex_row\<lparr>jr_temporary := ex_name ''lib'' ''t'', jr_destination := ex_name ''lib'' ''a'',
     jr_staged_fingerprint := Some [8], jr_recovery_evidence := No_Note\<rparr>"

definition retag_prepared :: prepared_mutation where
  "retag_prepared = ex_prepared\<lparr>pm_journal := retag_row, pm_temporary := ex_place ''lib'' ''t'',
     pm_destination := ex_place ''lib'' ''a'', pm_staged_fingerprint := [8], pm_remove_source := False, pm_recycle_move := False\<rparr>"

definition retag_world :: world where
  "retag_world = (ex_world Applying)\<lparr>
     nodes := [(ex_dir ''lib'', Directory), (ex_place ''lib'' ''a'', Regular [7]), (ex_place ''lib'' ''t'', Regular [8])],
     journals := [retag_row], memory := [retag_prepared]\<rparr>"

definition retag_interrupted :: world where
  "retag_interrupted =
     (snd (publish_critical_section (ex_env None) (retag_world\<lparr>hazards := replicate 11 Fine @ [Crash]\<rparr>)))
       \<lparr>job := Some (ex_job\<lparr>oj_state := J_Stopped\<rparr>)\<rparr>"


end
