(* ===== verification/Spec2Isabelle.thy ===== *)
theory Spec2Isabelle
  imports Script_Properties Tagging_Engine Circuit_Breaker Retry Token_Bucket Memory_Cache
    Auth_Lockout Stream_Gate Track_Matcher Riff_Info Album_Evidence
    Library_Leases Policy_Resolver Genre_Projection Workload_Gate Durable_Wakeups Coverage
    Recovery_Settles Recovery_Gaps Crash_Safety
begin

text \<open>
  SongSeek: the decisions of a music server, verified.

  SongSeek is a self-hosted music server. Its backend (\<open>src/backend\<close>, Python) scans a library of
  files, identifies them, looks for what is missing on Soulseek and Usenet, imports what it finds, and
  rewrites tags, names and places of files under rules of the user (Library Management). Paths below
  are relative to \<open>src/backend\<close>.

  \<^bold>\<open>The program's parts and how they interact.\<close> A library root has a policy (\<open>Policy_Resolver\<close>). A scan
  groups the files of a directory into albums (\<open>Album_Grouper\<close>), lets old albums keep their identity
  (\<open>Album_Continuity\<close>, over the assignment algorithm of \<open>Hungarian\<close>), and weighs the evidence for
  releases (\<open>Album_Evidence\<close>, with \<open>Title_Match\<close> and \<open>Coverage\<close>). What is missing is searched for: a
  result is judged by its quality tier (\<open>Quality_Tiers\<close>), by the scorers of Usenet releases and Soulseek
  folders (\<open>Release_Scorer\<close>, \<open>Preflight_Scorer\<close>, \<open>Track_Matcher\<close>), and by the pipeline of acquisition
  rules (\<open>Acquisition\<close>). Library Management computes the wanted tags of a file by tagging scripts
  (\<open>Tagging_Engine\<close>) and genres (\<open>Genre_Normalizer\<close>, \<open>Genre_Projection\<close>), and its wanted place by naming
  scripts (\<open>Naming_Script\<close>; \<open>Naming\<close> for imports); both kinds of script are written in a small language
  (\<open>Script_Lexer\<close>, \<open>Script_Parser\<close>, \<open>Script_Eval\<close>, \<open>Script_Template\<close>, \<open>Script_Program\<close>). A bundle of
  changes is then published under the write leases of its roots (\<open>Library_Leases\<close>) by the publisher
  (\<open>Management_Publisher\<close>), which moves files (\<open>Rooted_Files\<close>) step by step along a durable journal
  (\<open>Mutation_Journal\<close>); what a crash leaves is finished or taken back by the recovery
  (\<open>Management_Recovery\<close>). Background work waits for scans and for people
  (\<open>Workload_Gate\<close>) and sleeps on durable queues (\<open>Durable_Wakeups\<close>). Calls to other services go through
  a cache (\<open>Memory_Cache\<close>), a rate limiter (\<open>Token_Bucket\<close>), a retry (\<open>Retry\<close>) and a circuit breaker
  (\<open>Circuit_Breaker\<close>); clients of the compatibility interfaces meet \<open>Compat_Ratelimit\<close> and, when they
  stream, \<open>Stream_Gate\<close>.

  \<^bold>\<open>Theories and sources.\<close>
  \<^item> \<open>Py_Base\<close>, \<open>Py_Text\<close>, \<open>Py_Regex\<close>, \<open>Py_Difflib\<close>: the Python that the code is written in. A
    \<open>str\<close> is a list of code points (\<open>pystr\<close>), a \<open>dict\<close> an association list in order of insertion
    (\<open>odict\<close>), an unbounded \<open>int\<close> an \<open>int\<close>; UTF-8, \<open>pathlib\<close>, a backtracking \<open>re\<close> and
    \<open>difflib\<close> as far as they are used.
  \<^item> \<open>Script_*\<close>: \<open>core/management_script_language.py\<close> (\<open>Script_Errors\<close> tells where its errors
    come from, \<open>Script_Properties\<close> holds its theorems). \<open>Tagging_Engine\<close>:
    \<open>services/native/tagging_scripts.py\<close>. \<open>Naming\<close>, \<open>Naming_Script\<close>: \<open>services/native/naming.py\<close>.
  \<^item> \<open>Circuit_Breaker\<close>, \<open>Retry\<close>: \<open>infrastructure/resilience/retry.py\<close>. \<open>Token_Bucket\<close>:
    \<open>infrastructure/resilience/rate_limiter.py\<close>. \<open>Memory_Cache\<close>:
    \<open>infrastructure/cache/memory_cache.py\<close>. \<open>Compat_Ratelimit\<close>: \<open>api/compat/common/ratelimit.py\<close>
    (\<open>Auth_Lockout\<close>: what its answers about failed logins are over whole sequences of calls).
    \<open>Stream_Gate\<close>: \<open>services/compat/stream_concurrency.py\<close>. \<open>Durable_Wakeups\<close>:
    \<open>infrastructure/queue/durable_work_wakeup.py\<close>. \<open>Workload_Gate\<close>:
    \<open>services/native/background_workload_gate.py\<close>.
  \<^item> \<open>Quality_Tiers\<close>, \<open>Title_Match\<close>, \<open>Track_Matcher\<close>, \<open>Coverage\<close>: the files of these names in
    \<open>services/native\<close>. \<open>Release_Scorer\<close>: \<open>newznab_release_scorer.py\<close>. \<open>Preflight_Scorer\<close>:
    \<open>album_preflight_scorer.py\<close>. \<open>Acquisition\<close>: the package \<open>acquisition\<close>.
  \<^item> \<open>Hungarian\<close>, \<open>Album_Continuity\<close>, \<open>Album_Grouper\<close>: \<open>local_album_grouper.py\<close>. \<open>Album_Evidence\<close>:
    \<open>album_evidence_engine.py\<close>. \<open>Policy_Resolver\<close>: \<open>library_policy_resolver.py\<close>.
    \<open>Genre_Normalizer\<close>, \<open>Genre_Projection\<close>: \<open>genre_normalizer.py\<close>, \<open>genre_projection_service.py\<close>.
    \<open>Riff_Info\<close>: \<open>infrastructure/audio/riff_info.py\<close>.
  \<^item> \<open>Library_Leases\<close>, \<open>Rooted_Files\<close>: \<open>library_filesystem_coordinator.py\<close>. \<open>Mutation_Journal\<close>: the
    journal of library management in \<open>infrastructure/persistence/native_library_store.py\<close>.
    \<open>Management_Publisher\<close>: \<open>library_management_publisher.py\<close>. \<open>Management_Recovery\<close>:
    \<open>library_management_recovery_service.py\<close>. \<open>Step_Relations\<close>, \<open>Bundle_Histories\<close>,
    \<open>Recovery_Settles\<close>, \<open>Recovery_Gaps\<close> hold the theorems about them, \<open>Bundle_Examples\<close> an example.
    \<open>Crash_Logic\<close> is a logic of operations that can be cut off; \<open>Journal_Invariant\<close> says what the files of
    a bundle look like in each state of its rows; \<open>Recovery_Base\<close>, \<open>Compensation\<close>, \<open>Crash_Safety\<close> show
    that the recovery keeps it.

  State that the code keeps in objects is a record that each operation takes and returns; tasks that
  run interleaved are the steps of a relation or of an explicit sequence. An exception is a value of a
  sum or of the outcome of an operation. The file operations of the publisher and of the recovery are
  functions of a world (disk, database, memory of the process) in which each operation of the system
  meets one hazard of an arbitrary list: it happens, it fails, or the process ends right before it.

  \<^bold>\<open>What the lemmas show.\<close> Of the script language: lexing, parsing and evaluation stay within the limits
  and need one step per node; the lexer fails only with located errors, the compiler only with errors of
  the script and the \<open>ValueError\<close> of a number that \<open>int\<close> refuses. Of names: the path of an import stays
  below its root, and with portable settings that of a naming script too. Of the tagging engine: the log explains the result, the types of the tags are kept, the
  result refines an abstract specification. Of the resilience layer: state invariants, the number of
  attempts, the rate, the bound and the truth of the cache, the lockouts of failed logins. Of gates and leases: exclusion, bounds,
  fairness, no lost wake-up, completion. Of the judgements: a ranking is ordered by the documented
  criteria and holds only acceptable results; the pipeline is equal to the conjunction of its rules. Of
  grouping: a partition of the tracks, and optimality of the assignment. Of publication and recovery: in
  every history of processes that are cut off anywhere the rows of the journal follow the table of
  transitions, a bundle is committed as a whole, the catalog moves with that commit, the job counts the
  bundle once; and a forced turn of the recovery leaves no row between two states. When the operation
  of a bundle without recycle moves was stopped before its commit, the recovery takes the bundle back: wherever it is cut off,
  files and journal agree, and a run that is not cut off leaves every original at its place and no other
  file of the bundle. Errors that were found are lemmas, too.

  \<^bold>\<open>Bounds and fuel.\<close> \<open>parse_lines\<close> has one unit of fuel for each line and one more, and each call
  takes a line away. \<open>star_ends\<close> (repetition in a regular expression) has as much fuel as there are
  characters left, since it stops at a repetition that took none. The loops of \<open>Hungarian\<close> are partial
  functions that are proved to end for square matrices whose costs \<open>c\<close> satisfy \<open>(n + 1) * c < 10^18\<close>,
  the value that the code takes for infinity; the weights of the code are far below. \<open>remove_upwards\<close> has the
  length of its directory as fuel, and each step removes one component. All other recursions are
  structural or have a proved measure.

  \<^bold>\<open>Parameters.\<close> What is not in the repository is an argument: the Unicode tables (\<open>unidb\<close>), rapidfuzz,
  unidecode and the regular expressions of users, clocks and random jitter, \<open>Path.resolve\<close> and
  \<open>Path.exists\<close> of the policies, the answers of providers, SHA-256. Of the repository, the checks of the
  catalog in the commit of a bundle, the checks of the pinned configuration and the preparation of the mutations are
  arguments (\<open>bundle_env\<close>); the theorems hold for all of them, as far as a preparation respects the
  relation in question.

  \<^bold>\<open>Not modelled.\<close> Floating-point numbers are exact rationals, without rounding; memoisation
  (\<open>lru_cache\<close>), \<open>sys.getsizeof\<close>, log lines, counters for diagnostics and the texts of details are left
  out, and so are rare format specifications of \<open>int\<close>. Times, modes and \<open>fsync\<close> of files, and the
  cancellation of tasks in the publisher are left out. The stores apart from the journal (SQL over
  SQLite), the planner, the publication of imports, the scanner and the tag formats (adapters over
  mutagen), the download orchestrator, the pages of discovery, the clients of external services, the
  HTTP interface, playlists, media servers, authentication and wiring are not modelled: their work is
  done by the engines and services they call, or is glue between the parts above.
\<close>

end
